(* ===== verification/Mgit_Prelude.thy ===== *)
theory Mgit_Prelude
  imports Main "HOL-Library.Word" "HOL-Library.Multiset" "HOL-Library.Monad_Syntax"
begin

text \<open>
  Shared vocabulary of the mgit development: Go errors as values, results, the
  width of Go's \<open>int\<close> and \<open>time.Duration\<close>, big-endian byte strings, and the
  generic interfaces (an append-only log, a prefix codec) that several
  components provide. A Go \<open>string\<close> is a byte string, so it is a HOL
  \<^typ>\<open>string\<close> (a list of 8-bit characters) and its length counts bytes.
\<close>

named_theorems validate_simps "unfolding rules of the Validate methods"
named_theorems egress_simps "unfolding rules of the egress decision path"
named_theorems land_simps "unfolding rules of the land path"

section \<open>Errors\<close>

text \<open>
  The sentinels of \<open>internal/model/errors.go\<close>, \<open>internal/model/guest_death.go\<close>,
  \<open>internal/sandboxd/egress/errors.go\<close> and \<open>internal/store/index\<close> that the modelled
  code returns or matches on, one constructor per variable (and one for the error
  type \<open>UnindexedContentCommitError\<close>, which callers match with \<open>errors.As\<close>), with the
  standard library's \<open>io.EOF\<close>, \<open>io.ErrUnexpectedEOF\<close>, \<open>ECONNRESET\<close>, \<open>EPIPE\<close> and
  \<open>context.Canceled\<close>, which the guest channel's code tells apart.
\<close>

datatype sentinel =
    ErrCommitNotFound | ErrTaskNotFound | ErrInvalidTaskID | ErrInvalidCommit
  | ErrBranchLocked | ErrInvalidDiff | ErrAppendOnlyViolation | ErrTaskMismatch
  | ErrSandboxNotFound | ErrSandboxBooted | ErrSandboxSyncUnsupported
  | ErrWorktreeSyncConflict | ErrLandVerificationFailed | ErrNetworkPolicyViolation
  | ErrUnattestedCommit | ErrAttestationInvalid | ErrSandboxCeilingExceeded
  | ErrSandboxResourceLimitExceeded | ErrCapabilityGrantNotFound
  | ErrArtifactExportUnsupported | ErrIndexCorrupted | ErrTaskAlreadyBound | ErrGuestDead
  | ErrBranchNotFound | ErrBranchAlreadyExists | ErrBranchInUse | ErrWorktreeExists
  | ErrWorktreeNotFound | ErrSandboxNotRunning | ErrSandboxBackendUnavailable
  | ErrUnlandedCommits | ErrSensitivePathModified | ErrChainBroken | ErrSignatureInvalid
  | ErrConfineAgentDisabled | ErrPeerBindingMismatch | ErrNothingToCommit | ErrSquashFailed
  | ErrRollbackConflict | ErrContentConflict | ErrVerificationFailed | ErrMergeConflict
  | ErrUndeliveredTip | UnindexedContentCommitError | ErrAmbiguousHash | ErrFileNotFound
  | ErrFileTooLarge | ErrSnapshotNotFound | ErrStorageError | ErrRollbackFailed
  | ErrGuestNotServing | ErrGuestVersionSkew | ErrGuestExecIdentityMismatch
  | ErrSandboxVersionSkew | ErrSharedStoreReachable | ErrSSHKeyExtraction
  | ErrSandboxDaemonUnresponsive | ErrShellTransportUnavailable
  | ErrNameNotAllowlisted | ErrRateLimited | ErrEgressDenied | ErrNXDOMAIN
  | ErrGuestBaseUnbootable | ErrGuestProbeOutput | ErrGuestReported
  | IoEOF | IoErrUnexpectedEOF | ECONNRESET | EPIPE | ContextCanceled

text \<open>
  An error value: a sentinel, a \<open>ValidationError\<close> (the field it names; the prose
  message is not part of the model), a plain \<open>fmt.Errorf\<close> with no wrapped cause,
  and \<open>fmt.Errorf\<close> wrapping one or two causes (\<open>%w\<close> and \<open>%w: %w\<close>). \<open>Panic\<close> is
  not an error value of the program: it stands for a call that panics at run time
  instead of returning.
\<close>

datatype err =
    Sentinel sentinel
  | ValidationError (Field: string)
  | Panic string
  | Errorf string
  | Wrap string err
  | Wrap2 err err

text \<open>\<open>errors.Is(err, sentinel)\<close>: a match anywhere in the wrapping tree.\<close>

primrec errors_is :: "err \<Rightarrow> sentinel \<Rightarrow> bool" where
  "errors_is (Sentinel t) s = (t = s)"
| "errors_is (ValidationError f) s = False"
| "errors_is (Panic m) s = False"
| "errors_is (Errorf m) s = False"
| "errors_is (Wrap m e) s = errors_is e s"
| "errors_is (Wrap2 e1 e2) s = (errors_is e1 s \<or> errors_is e2 s)"

text \<open>\<open>errors.As(err, *ValidationError)\<close>: the first one in the tree, depth first.\<close>

primrec errors_as_validation :: "err \<Rightarrow> string option" where
  "errors_as_validation (Sentinel t) = None"
| "errors_as_validation (ValidationError f) = Some f"
| "errors_as_validation (Panic m) = None"
| "errors_as_validation (Errorf m) = None"
| "errors_as_validation (Wrap m e) = errors_as_validation e"
| "errors_as_validation (Wrap2 e1 e2) =
     (case errors_as_validation e1 of Some f \<Rightarrow> Some f | None \<Rightarrow> errors_as_validation e2)"

text \<open>A Go result \<open>(T, error)\<close> is \<open>Inl\<close> of the error or \<open>Inr\<close> of the value; a
  function that returns only \<open>error\<close> has type \<open>err option\<close>, \<open>None\<close> being nil.\<close>

type_synonym 'a result = "err + 'a"

definition bind_result :: "'a result \<Rightarrow> ('a \<Rightarrow> 'b result) \<Rightarrow> 'b result" where
  "bind_result r f = (case r of Inl e \<Rightarrow> Inl e | Inr x \<Rightarrow> f x)"

lemma bind_result_simps [simp]:
  "bind_result (Inl e) f = Inl e"
  "bind_result (Inr x) f = f x"
  by (simp_all add: bind_result_def)

lemma bind_result_Inr [simp]:
  "bind_result r f = Inr y \<longleftrightarrow> (\<exists>x. r = Inr x \<and> f x = Inr y)"
  by (cases r) auto

lemma bind_result_Inl:
  "bind_result r f = Inl e \<longleftrightarrow> r = Inl e \<or> (\<exists>x. r = Inr x \<and> f x = Inl e)"
  by (cases r) auto

text \<open>\<open>if err := check(); err != nil { return err }; rest\<close>.\<close>

definition andthen :: "err option \<Rightarrow> err option \<Rightarrow> err option" where
  "andthen a b = (case a of Some e \<Rightarrow> Some e | None \<Rightarrow> b)"

lemma andthen_None [simp]: "andthen a b = None \<longleftrightarrow> a = None \<and> b = None"
  by (cases a) (auto simp: andthen_def)

lemma andthen_simps [simp]: "andthen None b = b" "andthen (Some e) b = Some e"
  by (simp_all add: andthen_def)

definition guard_err :: "bool \<Rightarrow> err \<Rightarrow> err option" where
  "guard_err c e = (if c then Some e else None)"

lemma guard_err_simps [simp]: "guard_err True e = Some e" "guard_err False e = None"
  by (simp_all add: guard_err_def)

lemma guard_err_None [simp]: "guard_err c e = None \<longleftrightarrow> \<not> c"
  by (simp add: guard_err_def)

lemma guard_err_Some [simp]: "guard_err c e = Some f \<longleftrightarrow> c \<and> f = e"
  by (auto simp: guard_err_def)

text \<open>The first error of a loop \<open>for _, x := range xs { if err := f(x); err != nil { return err } }\<close>.\<close>

fun first_err :: "('a \<Rightarrow> err option) \<Rightarrow> 'a list \<Rightarrow> err option" where
  "first_err f [] = None"
| "first_err f (x # xs) = (case f x of Some e \<Rightarrow> Some e | None \<Rightarrow> first_err f xs)"

lemma first_err_None [simp]: "first_err f xs = None \<longleftrightarrow> (\<forall>x \<in> set xs. f x = None)"
  by (induction xs) (auto split: option.splits)

lemma first_err_Some:
  "first_err f xs = Some e \<Longrightarrow> \<exists>x \<in> set xs. f x = Some e"
  by (induction xs) (auto split: option.splits)

section \<open>Go integers and time\<close>

text \<open>
  Go's \<open>int\<close> and \<open>int64\<close> are 64-bit two's complement. A value is an \<^typ>\<open>int\<close> in
  the signed 64-bit range; additions that may leave it are written with
  \<open>wrap64\<close>. An instant is an \<^typ>\<open>int\<close> of nanoseconds; \<open>t.Sub(u)\<close> saturates at
  the range of \<open>time.Duration\<close>.
\<close>

definition max_int64 :: int where "max_int64 = 2 ^ 63 - 1"
definition min_int64 :: int where "min_int64 = - (2 ^ 63)"

definition wrap64 :: "int \<Rightarrow> int" where
  "wrap64 x = (x + 2 ^ 63) mod 2 ^ 64 - 2 ^ 63"

definition in_int64 :: "int \<Rightarrow> bool" where
  "in_int64 x \<longleftrightarrow> min_int64 \<le> x \<and> x \<le> max_int64"

lemma wrap64_id: "min_int64 \<le> x \<Longrightarrow> x \<le> max_int64 \<Longrightarrow> wrap64 x = x"
  unfolding wrap64_def min_int64_def max_int64_def by (simp add: mod_pos_pos_trivial)

lemma wrap64_range: "in_int64 (wrap64 x)"
proof -
  have "0 \<le> (x + 2 ^ 63) mod (2 ^ 64 :: int)" "(x + 2 ^ 63) mod (2 ^ 64 :: int) < 2 ^ 64"
    by simp_all
  then show ?thesis
    unfolding wrap64_def in_int64_def min_int64_def max_int64_def by simp
qed

definition sub_sat :: "int \<Rightarrow> int \<Rightarrow> int" where
  "sub_sat t u = max min_int64 (min max_int64 (t - u))"

lemma sub_sat_id: "in_int64 (t - u) \<Longrightarrow> sub_sat t u = t - u"
  by (auto simp: sub_sat_def in_int64_def)

lemma sub_sat_mono: "t \<le> t' \<Longrightarrow> sub_sat t u \<le> sub_sat t' u"
  by (auto simp: sub_sat_def max_def min_def)

abbreviation Second :: int where "Second \<equiv> 1000000000"
abbreviation Minute :: int where "Minute \<equiv> 60 * Second"
abbreviation Hour :: int where "Hour \<equiv> 60 * Minute"

section \<open>Bytes\<close>

type_synonym byte = "8 word"

definition bytes_of :: "string \<Rightarrow> byte list" where
  "bytes_of s = map of_char s"

lemma length_bytes_of [simp]: "length (bytes_of s) = length s"
  by (simp add: bytes_of_def)

lemma of_char_word_inj: "(of_char c :: byte) = of_char d \<longleftrightarrow> c = d"
proof
  assume "(of_char c :: byte) = of_char d"
  then have "unat (of_nat (of_char c) :: byte) = unat (of_nat (of_char d) :: byte)"
    by (simp only: of_nat_of_char)
  then have "(of_char c :: nat) mod 256 = of_char d mod 256"
    unfolding unat_of_nat by simp
  then show "c = d" by simp
qed simp

lemma bytes_of_inj [simp]: "bytes_of s = bytes_of t \<longleftrightarrow> s = t"
  unfolding bytes_of_def using inj_map_eq_map[of "of_char :: char \<Rightarrow> byte" s t]
  by (simp add: inj_def of_char_word_inj)

text \<open>
  \<open>binary.BigEndian.PutUint32\<close> and \<open>PutUint64\<close>: the bytes of a word, most
  significant first, and \<open>Uint32\<close>/\<open>Uint64\<close>, their inverse on the right length.
\<close>

fun be_bytes :: "nat \<Rightarrow> int \<Rightarrow> byte list" where
  "be_bytes 0 n = []"
| "be_bytes (Suc k) n = be_bytes k (n div 256) @ [of_int (n mod 256)]"

definition be_value :: "byte list \<Rightarrow> int" where
  "be_value bs = foldl (\<lambda>acc b. acc * 256 + uint b) 0 bs"

lemma length_be_bytes [simp]: "length (be_bytes k n) = k"
  by (induction k n rule: be_bytes.induct) auto

lemma be_value_snoc: "be_value (bs @ [b]) = be_value bs * 256 + uint b"
  by (simp add: be_value_def)

lemma be_value_be_bytes: "0 \<le> n \<Longrightarrow> n < 256 ^ k \<Longrightarrow> be_value (be_bytes k n) = n"
proof (induction k n rule: be_bytes.induct)
  case (1 n)
  then show ?case by (simp add: be_value_def)
next
  case (2 k n)
  from "2.prems" have "n div 256 < 256 ^ k" "0 \<le> n div 256"
    by (simp_all add: div_less_iff_less_mult mult.commute)
  then have "be_value (be_bytes k (n div 256)) = n div 256" using "2.IH" by blast
  moreover have "uint (of_int (n mod 256) :: byte) = n mod 256"
    by (simp add: uint_word_of_int)
  ultimately show ?case by (simp add: be_value_snoc)
qed

lemma be_bytes_inj:
  "0 \<le> m \<Longrightarrow> m < 256 ^ k \<Longrightarrow> 0 \<le> n \<Longrightarrow> n < 256 ^ k \<Longrightarrow> be_bytes k m = be_bytes k n \<Longrightarrow> m = n"
  by (metis be_value_be_bytes)

section \<open>Interfaces several components provide\<close>

text \<open>
  A prefix codec: an encoder whose output the decoder recognises in front of any
  rest. The land frames and the length-prefixed fields of the attestation
  payload are such codecs; what a stream of encodings determines is proved once.
\<close>

locale prefix_codec =
  fixes enc :: "'a \<Rightarrow> 'b list"
    and dec :: "'b list \<Rightarrow> ('a \<times> 'b list) option"
    and ok :: "'a \<Rightarrow> bool"
  assumes dec_enc: "ok x \<Longrightarrow> dec (enc x @ rest) = Some (x, rest)"
begin

lemma enc_prefix_free:
  assumes "ok x" "ok y" "enc x @ r = enc y @ s"
  shows "x = y \<and> r = s"
proof -
  have "Some (x, r) = dec (enc x @ r)" by (rule dec_enc[OF assms(1), symmetric])
  also have "\<dots> = dec (enc y @ s)" by (simp only: assms(3))
  also have "\<dots> = Some (y, s)" by (rule dec_enc[OF assms(2)])
  finally show ?thesis by simp
qed

lemma enc_list_inj:
  assumes "length xs = length ys" "\<forall>x \<in> set xs. ok x" "\<forall>y \<in> set ys. ok y"
    and "concat (map enc xs) @ r = concat (map enc ys) @ s"
  shows "xs = ys \<and> r = s"
  using assms
proof (induction xs ys arbitrary: r s rule: list_induct2)
  case Nil
  then show ?case by simp
next
  case (Cons x xs y ys)
  then have "enc x @ (concat (map enc xs) @ r) = enc y @ (concat (map enc ys) @ s)"
    by simp
  then have "x = y \<and> concat (map enc xs) @ r = concat (map enc ys) @ s"
    by (intro enc_prefix_free) (simp_all add: Cons.prems)
  then have "x = y" and tl: "concat (map enc xs) @ r = concat (map enc ys) @ s" by blast+
  have "xs = ys \<and> r = s"
    by (rule Cons.IH[OF _ _ tl]) (simp_all add: Cons.prems)
  with \<open>x = y\<close> show ?case by simp
qed

end

text \<open>
  An append-only log inside a larger state: a step of the component may only
  extend the log it keeps. Runs of steps then extend it too, so a record once
  written is still there after any further activity.
\<close>

locale append_only_log =
  fixes step :: "'ev \<Rightarrow> 'st \<Rightarrow> 'st"
    and log :: "'st \<Rightarrow> 'rec list"
  assumes step_extends: "\<exists>new. log (step ev st) = log st @ new"
begin

lemma run_extends: "\<exists>new. log (fold step evs st) = log st @ new"
proof (induction evs arbitrary: st)
  case Nil
  then show ?case by simp
next
  case (Cons ev evs)
  obtain n1 where "log (step ev st) = log st @ n1" using step_extends by blast
  moreover obtain n2 where "log (fold step evs (step ev st)) = log (step ev st) @ n2"
    using Cons.IH by blast
  ultimately show ?case by simp
qed

lemma record_kept: "r \<in> set (log st) \<Longrightarrow> r \<in> set (log (fold step evs st))"
  using run_extends[of evs st] by auto

end

text \<open>
  A step-by-step simulation: the concrete step keeps a relation to the abstract
  one, hence so does every run.
\<close>

locale simulation =
  fixes cstep :: "'op \<Rightarrow> 'c \<Rightarrow> 'c"
    and astep :: "'op \<Rightarrow> 'a \<Rightarrow> 'a"
    and R :: "'c \<Rightarrow> 'a \<Rightarrow> bool"
  assumes sim: "R c a \<Longrightarrow> R (cstep x c) (astep x a)"
begin

lemma run_sim: "R c a \<Longrightarrow> R (fold cstep xs c) (fold astep xs a)"
  by (induction xs arbitrary: c a) (simp_all add: sim)

end

text \<open>
  An invariant every operation keeps: it holds after any sequence of them.
\<close>

locale invariant =
  fixes step :: "'op \<Rightarrow> 'st \<Rightarrow> 'st"
    and I :: "'st \<Rightarrow> bool"
  assumes step_inv: "I st \<Longrightarrow> I (step x st)"
begin

lemma run_inv: "I st \<Longrightarrow> I (fold step xs st)"
  by (induction xs arbitrary: st) (simp_all add: step_inv)

end

end
