(* ===== verification/Go_Regexp.thy ===== *)
theory Go_Regexp
  imports Mgit_Prelude "HOL-Library.Char_ord"
begin

text \<open>
  The part of Go's \<open>regexp\<close> that mgit uses: fully anchored patterns over ASCII
  classes. A pattern is transcribed as a term of type \<open>rexp\<close> and matched with
  derivatives; \<open>matches_iff_lang\<close> ties the executable matcher to the language
  the pattern denotes, so that facts about accepted strings are proved on
  languages. Every pattern of the source is anchored with \<open>^\<close> and \<open>$\<close> (without
  the m flag \<open>$\<close> is the end of the text), and no class contains a byte above
  0x7F, so matching runes and matching bytes accept the same strings.
\<close>

type_synonym cclass = "(char \<times> char) list"

definition in_class :: "cclass \<Rightarrow> char \<Rightarrow> bool" where
  "in_class cs c = list_ex (\<lambda>(lo, hi). lo \<le> c \<and> c \<le> hi) cs"

datatype rexp =
    RZero | ROne
  | RCls cclass
  | RSeq rexp rexp
  | RAlt rexp rexp
  | RStar rexp
  | RRep rexp nat nat \<comment> \<open>\<open>r{lo,hi}\<close>\<close>

abbreviation RChr :: "char \<Rightarrow> rexp" where "RChr c \<equiv> RCls [(c, c)]"
abbreviation RPlus :: "rexp \<Rightarrow> rexp" where "RPlus r \<equiv> RSeq r (RStar r)"
abbreviation ROpt :: "rexp \<Rightarrow> rexp" where "ROpt r \<equiv> RRep r 0 1"

primrec lang :: "rexp \<Rightarrow> string set" where
  "lang RZero = {}"
| "lang ROne = {[]}"
| "lang (RCls cs) = {[c] |c. in_class cs c}"
| "lang (RSeq r s) = {u @ v |u v. u \<in> lang r \<and> v \<in> lang s}"
| "lang (RAlt r s) = lang r \<union> lang s"
| "lang (RStar r) = {concat ws |ws. set ws \<subseteq> lang r}"
| "lang (RRep r lo hi) = {concat ws |ws. set ws \<subseteq> lang r \<and> lo \<le> length ws \<and> length ws \<le> hi}"

primrec nullable :: "rexp \<Rightarrow> bool" where
  "nullable RZero = False"
| "nullable ROne = True"
| "nullable (RCls cs) = False"
| "nullable (RSeq r s) = (nullable r \<and> nullable s)"
| "nullable (RAlt r s) = (nullable r \<or> nullable s)"
| "nullable (RStar r) = True"
| "nullable (RRep r lo hi) = (lo \<le> hi \<and> (lo = 0 \<or> nullable r))"

text \<open>Smart constructors keep derivatives small.\<close>

fun rseq :: "rexp \<Rightarrow> rexp \<Rightarrow> rexp" where
  "rseq RZero s = RZero"
| "rseq ROne s = s"
| "rseq r s = RSeq r s"

fun ralt :: "rexp \<Rightarrow> rexp \<Rightarrow> rexp" where
  "ralt RZero s = s"
| "ralt r RZero = r"
| "ralt r s = RAlt r s"

primrec deriv :: "char \<Rightarrow> rexp \<Rightarrow> rexp" where
  "deriv c RZero = RZero"
| "deriv c ROne = RZero"
| "deriv c (RCls cs) = (if in_class cs c then ROne else RZero)"
| "deriv c (RSeq r s) =
     (if nullable r then ralt (rseq (deriv c r) s) (deriv c s) else rseq (deriv c r) s)"
| "deriv c (RAlt r s) = ralt (deriv c r) (deriv c s)"
| "deriv c (RStar r) = rseq (deriv c r) (RStar r)"
| "deriv c (RRep r lo hi) =
     (if hi = 0 then RZero else rseq (deriv c r) (RRep r (lo - 1) (hi - 1)))"

fun matches :: "rexp \<Rightarrow> string \<Rightarrow> bool" where
  "matches r [] = nullable r"
| "matches r (c # s) = matches (deriv c r) s"

lemma lang_rseq [simp]: "lang (rseq r s) = lang (RSeq r s)"
  by (induction r s rule: rseq.induct) auto

lemma lang_ralt [simp]: "lang (ralt r s) = lang (RAlt r s)"
  by (induction r s rule: ralt.induct) auto

lemma concat_empty_mem: "concat ws = [] \<Longrightarrow> w \<in> set ws \<Longrightarrow> w = []"
  by auto

lemma nullable_iff: "nullable r \<longleftrightarrow> [] \<in> lang r"
proof (induction r)
  case (RStar r)
  have "concat [] = ([] :: string) \<and> set [] \<subseteq> lang r" by simp
  then show ?case by (auto intro: exI[of _ "[]"])
next
  case (RRep r lo hi)
  show ?case
  proof
    assume n: "nullable (RRep r lo hi)"
    have "set (replicate lo []) \<subseteq> lang r" using n RRep.IH by auto
    moreover have "concat (replicate lo []) = ([] :: string)" by simp
    ultimately show "[] \<in> lang (RRep r lo hi)" using n
      by (auto intro!: exI[of _ "replicate lo []"])
  next
    assume "[] \<in> lang (RRep r lo hi)"
    then obtain ws where ws: "concat ws = []" "set ws \<subseteq> lang r" "lo \<le> length ws" "length ws \<le> hi"
      by auto
    then have "lo = 0 \<or> [] \<in> lang r" by (cases ws) auto
    then show "nullable (RRep r lo hi)" using ws RRep.IH by auto
  qed
qed auto

text \<open>
  A concatenation that starts with \<open>c\<close>: after the leading empty words comes a
  word that starts with \<open>c\<close>, and the empty words can be moved behind it.
\<close>

lemma concat_ConsE:
  assumes "concat ws = c # s"
  obtains w ws' where "c # w \<in> set ws" "s = w @ concat ws'" "set ws' \<subseteq> set ws"
    "length ws = Suc (length ws')"
  using assms
proof (induction ws arbitrary: thesis)
  case Nil
  then show ?case by simp
next
  case prem: (Cons v ws)
  show ?case
  proof (cases v)
    case Nil
    with prem.prems have "concat ws = c # s" by simp
    from prem.IH[OF _ this] obtain w ws' where
      w: "c # w \<in> set ws" "s = w @ concat ws'" "set ws' \<subseteq> set ws" "length ws = Suc (length ws')"
      by blast
    show ?thesis
    proof (rule prem.prems(1)[of w "ws' @ [v]"])
      show "s = w @ concat (ws' @ [v])" using w Nil by simp
    qed (use w in auto)
  next
    case (Cons d v')
    with prem.prems(2) have "d = c" "s = v' @ concat ws" by auto
    then show ?thesis using Cons by (intro prem.prems(1)[of v' ws]) auto
  qed
qed

lemma deriv_iff: "s \<in> lang (deriv c r) \<longleftrightarrow> c # s \<in> lang r"
proof (induction r arbitrary: s)
  case (RSeq r1 r2)
  show ?case
    by (auto simp: nullable_iff RSeq.IH Cons_eq_append_conv append_eq_Cons_conv)
next
  case (RStar r)
  show ?case
  proof
    assume "s \<in> lang (deriv c (RStar r))"
    then obtain u ws where "s = u @ concat ws" "c # u \<in> lang r" "set ws \<subseteq> lang r"
      by (auto simp: RStar.IH)
    then have "c # s = concat ((c # u) # ws) \<and> set ((c # u) # ws) \<subseteq> lang r" by simp
    then show "c # s \<in> lang (RStar r)" unfolding lang.simps by blast
  next
    assume "c # s \<in> lang (RStar r)"
    then obtain ws where "concat ws = c # s" "set ws \<subseteq> lang r" by auto
    then show "s \<in> lang (deriv c (RStar r))"
      by (auto elim!: concat_ConsE simp: RStar.IH) blast
  qed
next
  case (RRep r lo hi)
  show ?case
  proof
    assume "s \<in> lang (deriv c (RRep r lo hi))"
    then obtain u ws where "s = u @ concat ws" "c # u \<in> lang r" "set ws \<subseteq> lang r"
      "lo - 1 \<le> length ws" "length ws \<le> hi - 1" "hi \<noteq> 0"
      by (auto simp: RRep.IH split: if_splits)
    then have "c # s = concat ((c # u) # ws) \<and> set ((c # u) # ws) \<subseteq> lang r
        \<and> lo \<le> length ((c # u) # ws) \<and> length ((c # u) # ws) \<le> hi" by simp linarith
    then show "c # s \<in> lang (RRep r lo hi)" unfolding lang.simps by blast
  next
    assume "c # s \<in> lang (RRep r lo hi)"
    then obtain ws where ws: "concat ws = c # s" "set ws \<subseteq> lang r" "lo \<le> length ws" "length ws \<le> hi"
      by auto
    from ws(1) obtain w ws' where w: "c # w \<in> set ws" "s = w @ concat ws'" "set ws' \<subseteq> set ws"
      "length ws = Suc (length ws')" by (rule concat_ConsE)
    then have "c # w \<in> lang r" "set ws' \<subseteq> lang r" "lo - 1 \<le> length ws'" "length ws' \<le> hi - 1" "hi \<noteq> 0"
      using ws by auto
    then show "s \<in> lang (deriv c (RRep r lo hi))" using w(2) by (auto simp: RRep.IH)
  qed
qed auto

theorem matches_iff_lang: "matches r s \<longleftrightarrow> s \<in> lang r"
  by (induction r s rule: matches.induct) (simp_all add: nullable_iff deriv_iff)

lemma matches_RZero [simp]: "\<not> matches RZero s"
  by (simp add: matches_iff_lang)

lemma in_class_single [simp]: "in_class [(d, d)] c \<longleftrightarrow> c = d"
  by (auto simp: in_class_def)

lemma lang_seq_chr:
  "s \<in> lang (RSeq r (RSeq (RChr d) q)) \<longleftrightarrow> (\<exists>p b. s = p @ d # b \<and> p \<in> lang r \<and> b \<in> lang q)"
proof -
  have "v \<in> lang (RSeq (RChr d) q) \<longleftrightarrow> (\<exists>b. v = d # b \<and> b \<in> lang q)" for v
    by auto
  then show ?thesis unfolding lang.simps(4)[of r] by blast
qed

text \<open>The characters a pattern can accept: a matched string has no others.\<close>

primrec alphabet :: "rexp \<Rightarrow> char \<Rightarrow> bool" where
  "alphabet RZero c = False"
| "alphabet ROne c = False"
| "alphabet (RCls cs) c = in_class cs c"
| "alphabet (RSeq r s) c = (alphabet r c \<or> alphabet s c)"
| "alphabet (RAlt r s) c = (alphabet r c \<or> alphabet s c)"
| "alphabet (RStar r) c = alphabet r c"
| "alphabet (RRep r lo hi) c = alphabet r c"

lemma lang_alphabet: "s \<in> lang r \<Longrightarrow> c \<in> set s \<Longrightarrow> alphabet r c"
  by (induction r arbitrary: s) (auto, blast+)

lemma matches_alphabet: "matches r s \<Longrightarrow> c \<in> set s \<Longrightarrow> alphabet r c"
  using lang_alphabet by (simp add: matches_iff_lang)

lemma lang_plus_ne: "s \<in> lang (RPlus (RCls cs)) \<longleftrightarrow> s \<noteq> [] \<and> (\<forall>c \<in> set s. in_class cs c)"
proof
  assume "s \<in> lang (RPlus (RCls cs))"
  then show "s \<noteq> [] \<and> (\<forall>c \<in> set s. in_class cs c)"
    using lang_alphabet[of s "RPlus (RCls cs)"] by auto
next
  assume a: "s \<noteq> [] \<and> (\<forall>c \<in> set s. in_class cs c)"
  then obtain c s' where s: "s = c # s'" by (cases s) auto
  have "s' = concat (map (\<lambda>c. [c]) s')" by (induction s') auto
  moreover have "set (map (\<lambda>c. [c]) s') \<subseteq> lang (RCls cs)" using a s by auto
  ultimately have "s' \<in> lang (RStar (RCls cs))" unfolding lang.simps(6) by blast
  moreover have "[c] \<in> lang (RCls cs)" using a s by simp
  moreover have "s = [c] @ s'" using s by simp
  ultimately show "s \<in> lang (RPlus (RCls cs))" unfolding lang.simps(4) by blast
qed

text \<open>A literal text, and a bounded repetition of one class.\<close>

fun rlit :: "string \<Rightarrow> rexp" where
  "rlit [] = ROne"
| "rlit (c # s) = RSeq (RChr c) (rlit s)"

lemma lang_rlit [simp]: "lang (rlit s) = {s}"
  by (induction s) auto

lemma lang_lit_seq: "s \<in> lang (RSeq (rlit p) r) \<longleftrightarrow> (\<exists>t. s = p @ t \<and> t \<in> lang r)"
  by simp

lemma concat_singles: "set ws \<subseteq> lang (RCls cs) \<Longrightarrow>
  length (concat ws) = length ws \<and> (\<forall>c \<in> set (concat ws). in_class cs c)"
  by (induction ws) auto

lemma lang_rep_cls:
  "s \<in> lang (RRep (RCls cs) lo hi) \<longleftrightarrow>
     lo \<le> length s \<and> length s \<le> hi \<and> (\<forall>c \<in> set s. in_class cs c)"
proof
  assume "s \<in> lang (RRep (RCls cs) lo hi)"
  then obtain ws where "s = concat ws" "set ws \<subseteq> lang (RCls cs)" "lo \<le> length ws" "length ws \<le> hi"
    unfolding lang.simps(7) by blast
  then show "lo \<le> length s \<and> length s \<le> hi \<and> (\<forall>c \<in> set s. in_class cs c)"
    using concat_singles[of ws cs] by simp
next
  assume a: "lo \<le> length s \<and> length s \<le> hi \<and> (\<forall>c \<in> set s. in_class cs c)"
  have "concat (map (\<lambda>c. [c]) s) = s" by (induction s) auto
  moreover have "set (map (\<lambda>c. [c]) s) \<subseteq> lang (RCls cs)" using a by auto
  ultimately show "s \<in> lang (RRep (RCls cs) lo hi)" unfolding lang.simps(7) using a
    by (intro CollectI exI[of _ "map (\<lambda>c. [c]) s"]) simp
qed

end
