(* ===== verification/Go_Strings.thy ===== *)
theory Go_Strings
  imports Go_Regexp
begin

text \<open>
  The functions of Go's \<open>strings\<close>, \<open>strconv\<close>, \<open>fmt\<close> and \<open>path\<close> packages that the
  modelled code calls, on byte strings, with the facts about them that the
  components use. \<open>to_lower\<close> folds the ASCII letters; a name with bytes above
  0x7F, which Go folds by Unicode tables, is left unchanged.
\<close>

section \<open>Cutting and splitting\<close>

text \<open>\<open>strings.Cut\<close> with a one-byte separator.\<close>

fun cut :: "char \<Rightarrow> string \<Rightarrow> (string \<times> string) option" where
  "cut sep [] = None"
| "cut sep (c # s) =
     (if c = sep then Some ([], s)
      else map_option (\<lambda>(a, b). (c # a, b)) (cut sep s))"

lemma cut_append: "sep \<notin> set a \<Longrightarrow> cut sep (a @ sep # b) = Some (a, b)"
  by (induction a) auto

lemma cut_SomeD: "cut sep s = Some (a, b) \<Longrightarrow> s = a @ sep # b \<and> sep \<notin> set a"
  by (induction s arbitrary: a) (auto split: if_splits)

lemma cut_Some: "cut sep s = Some (a, b) \<longleftrightarrow> s = a @ sep # b \<and> sep \<notin> set a"
  using cut_append cut_SomeD by metis

lemma cut_None: "cut sep s = None \<longleftrightarrow> sep \<notin> set s"
  by (induction s) (auto split: if_splits)

text \<open>\<open>strings.Split\<close> with a one-byte separator: never empty.\<close>

fun split_on :: "char \<Rightarrow> string \<Rightarrow> string list" where
  "split_on sep [] = [[]]"
| "split_on sep (c # s) =
     (if c = sep then [] # split_on sep s
      else (case split_on sep s of [] \<Rightarrow> [[c]] | w # ws \<Rightarrow> (c # w) # ws))"

lemma split_on_ne [simp]: "split_on sep s \<noteq> []"
  by (induction s) (auto split: list.splits)

lemma split_on_nosep: "sep \<notin> set s \<Longrightarrow> split_on sep s = [s]"
  by (induction s) auto

lemma split_on_append: "sep \<notin> set a \<Longrightarrow> split_on sep (a @ sep # b) = a # split_on sep b"
  by (induction a) auto

lemma split_on_words: "w \<in> set (split_on sep s) \<Longrightarrow> sep \<notin> set w"
  by (induction s arbitrary: w) (auto split: if_splits list.splits)

fun join_with :: "char \<Rightarrow> string list \<Rightarrow> string" where
  "join_with sep [] = []"
| "join_with sep [w] = w"
| "join_with sep (w # v # ws) = w @ sep # join_with sep (v # ws)"

lemma split_join: "ws \<noteq> [] \<Longrightarrow> \<forall>w \<in> set ws. sep \<notin> set w \<Longrightarrow> split_on sep (join_with sep ws) = ws"
  by (induction sep ws rule: join_with.induct) (auto simp: split_on_nosep split_on_append)

lemma join_split [simp]: "join_with sep (split_on sep s) = s"
proof (induction s)
  case Nil
  then show ?case by simp
next
  case (Cons c s)
  obtain w ws where sp: "split_on sep s = w # ws" by (cases "split_on sep s") auto
  with Cons have "join_with sep (w # ws) = s" by simp
  then show ?case using sp by (cases ws) auto
qed

section \<open>Prefixes, suffixes, case\<close>

definition has_prefix :: "string \<Rightarrow> string \<Rightarrow> bool" where
  "has_prefix s p = (take (length p) s = p)"

definition has_suffix :: "string \<Rightarrow> string \<Rightarrow> bool" where
  "has_suffix s p = (length p \<le> length s \<and> drop (length s - length p) s = p)"

definition trim_suffix :: "string \<Rightarrow> string \<Rightarrow> string" where
  "trim_suffix s p = (if has_suffix s p then take (length s - length p) s else s)"

definition cut_prefix :: "string \<Rightarrow> string \<Rightarrow> string option" where
  "cut_prefix s p = (if has_prefix s p then Some (drop (length p) s) else None)"

lemma has_prefix_iff: "has_prefix s p \<longleftrightarrow> (\<exists>t. s = p @ t)"
  unfolding has_prefix_def by (metis append_eq_conv_conj append_take_drop_id)

lemma has_suffix_iff: "has_suffix s p \<longleftrightarrow> (\<exists>t. s = t @ p)"
  unfolding has_suffix_def
  by (metis append_eq_conv_conj append_take_drop_id diff_add_inverse2 le_add2 length_append
      length_drop diff_diff_cancel)

lemma cut_prefix_Some: "cut_prefix s p = Some t \<longleftrightarrow> s = p @ t"
  by (auto simp: cut_prefix_def has_prefix_iff)

definition lower_char :: "char \<Rightarrow> char" where
  "lower_char c = (if CHR ''A'' \<le> c \<and> c \<le> CHR ''Z'' then char_of (of_char c + (32 :: nat)) else c)"

definition to_lower :: "string \<Rightarrow> string" where
  "to_lower s = map lower_char s"

lemma length_to_lower [simp]: "length (to_lower s) = length s"
  by (simp add: to_lower_def)

section \<open>Numbers as text\<close>

definition is_digit :: "char \<Rightarrow> bool" where
  "is_digit c = (CHR ''0'' \<le> c \<and> c \<le> CHR ''9'')"

definition digit_val :: "char \<Rightarrow> int" where
  "digit_val c = of_char c - 48"

definition digit_char :: "int \<Rightarrow> char" where
  "digit_char n = char_of (n + 48)"

definition dec_value :: "string \<Rightarrow> int" where
  "dec_value s = foldl (\<lambda>acc c. acc * 10 + digit_val c) 0 s"

text \<open>The decimal digits of a non-negative number, and \<open>fmt\<close>'s \<open>%d\<close>.\<close>

function show_dec :: "int \<Rightarrow> string" where
  "show_dec n = (if n < 10 then [digit_char n] else show_dec (n div 10) @ [digit_char (n mod 10)])"
  by pat_completeness auto
termination by (relation "measure nat") auto

declare show_dec.simps [simp del]

definition show_int :: "int \<Rightarrow> string" where
  "show_int i = (if i < 0 then CHR ''-'' # show_dec (- i) else show_dec i)"

text \<open>\<open>strconv.Atoi\<close>: an optional sign, then digits, within the range of \<open>int\<close>.\<close>

definition atoi :: "string \<Rightarrow> int option" where
  "atoi s = (let (sg, ds) = (case s of
       [] \<Rightarrow> (1, [])
     | c # r \<Rightarrow> if c = CHR ''-'' then (-1, r) else if c = CHR ''+'' then (1, r) else (1, s))
     in if ds \<noteq> [] \<and> list_all is_digit ds \<and> in_int64 (sg * dec_value ds)
        then Some (sg * dec_value ds) else None)"

lemma of_char_char_of_int: "0 \<le> n \<Longrightarrow> n < 256 \<Longrightarrow> (of_char (char_of n) :: int) = n"
  by simp

lemma digit_val_char: "0 \<le> n \<Longrightarrow> n < 10 \<Longrightarrow> digit_val (digit_char n) = n"
  by (simp add: digit_val_def digit_char_def)

lemma digit_char_is_digit: "0 \<le> n \<Longrightarrow> n < 10 \<Longrightarrow> is_digit (digit_char n)"
proof -
  assume "0 \<le> n" "n < 10"
  then have "n \<in> set [0, 1, 2, 3, 4, 5, 6, 7, 8, 9]" by simp presburger
  moreover have "list_all (\<lambda>n. is_digit (digit_char n)) [0, 1, 2, 3, 4, 5, 6, 7, 8, 9]" by code_simp
  ultimately show ?thesis by (auto simp: list_all_iff)
qed

lemma show_dec_ne [simp]: "show_dec n \<noteq> []"
  by (subst show_dec.simps) simp

lemma show_dec_digits: "0 \<le> n \<Longrightarrow> c \<in> set (show_dec n) \<Longrightarrow> is_digit c"
proof (induction n rule: show_dec.induct)
  case (1 n)
  show ?case
  proof (cases "n < 10")
    case True
    then show ?thesis using "1.prems" by (subst (asm) show_dec.simps) (auto simp: digit_char_is_digit)
  next
    case False
    then have "c \<in> set (show_dec (n div 10)) \<or> c = digit_char (n mod 10)"
      using "1.prems"(2) by (subst (asm) show_dec.simps) auto
    then show ?thesis using "1.IH"[OF False] "1.prems"(1) digit_char_is_digit[of "n mod 10"] by auto
  qed
qed

lemma dec_value_snoc: "dec_value (s @ [c]) = dec_value s * 10 + digit_val c"
  by (simp add: dec_value_def)

lemma dec_value_show_dec [simp]: "0 \<le> n \<Longrightarrow> dec_value (show_dec n) = n"
proof (induction n rule: show_dec.induct)
  case (1 n)
  show ?case
  proof (cases "n < 10")
    case True
    then show ?thesis using 1 by (subst show_dec.simps) (simp add: dec_value_def digit_val_char)
  next
    case False
    then have "dec_value (show_dec (n div 10)) = n div 10" using 1 by simp
    then show ?thesis using False
      by (subst show_dec.simps) (simp add: dec_value_snoc digit_val_char)
  qed
qed

lemma show_dec_inj: "0 \<le> m \<Longrightarrow> 0 \<le> n \<Longrightarrow> show_dec m = show_dec n \<Longrightarrow> m = n"
  by (metis dec_value_show_dec)

lemma show_dec_hd: "0 < n \<Longrightarrow> hd (show_dec n) \<noteq> CHR ''0''"
proof (induction n rule: show_dec.induct)
  case (1 n)
  show ?case
  proof (cases "n < 10")
    case True
    then have "digit_val (digit_char n) \<noteq> digit_val CHR ''0''"
      using \<open>0 < n\<close> by (simp add: digit_val_char) (simp add: digit_val_def)
    then show ?thesis using True by (subst show_dec.simps) auto
  next
    case False
    then have "hd (show_dec (n div 10)) \<noteq> CHR ''0''" using 1 by simp
    then show ?thesis using False by (subst show_dec.simps) simp
  qed
qed

lemma digit_not_sign: "is_digit c \<Longrightarrow> c \<noteq> CHR ''-'' \<and> c \<noteq> CHR ''+'' \<and> c \<noteq> CHR '':'' \<and> c \<noteq> CHR ''.''"
  by (auto simp: is_digit_def)

lemma atoi_show_int: "0 \<le> n \<Longrightarrow> n \<le> max_int64 \<Longrightarrow> atoi (show_int n) = Some n"
proof -
  assume n: "0 \<le> n" "n \<le> max_int64"
  obtain c r where cr: "show_dec n = c # r" by (cases "show_dec n") auto
  then have "is_digit c" using show_dec_digits[of n c] n by simp
  then have "c \<noteq> CHR ''-''" "c \<noteq> CHR ''+''" using digit_not_sign by auto
  moreover have "list_all is_digit (c # r)"
    using cr show_dec_digits[of n] n by (auto simp: list_all_iff)
  moreover have "dec_value (c # r) = n" using cr[symmetric] n by simp
  moreover have "in_int64 n" using n by (simp add: in_int64_def min_int64_def)
  moreover have "show_int n = c # r" using cr n by (simp add: show_int_def)
  ultimately show ?thesis by (simp add: atoi_def Let_def)
qed

section \<open>Slash-separated paths\<close>

text \<open>
  \<open>path.Clean\<close>: split at slashes, drop empty and \<open>.\<close> elements, and resolve each
  \<open>..\<close> against the element before it; at the root \<open>..\<close> is dropped, in a relative
  path it is kept. The elements so far are held in reverse.
\<close>

fun clean_comps :: "bool \<Rightarrow> string list \<Rightarrow> string list \<Rightarrow> string list" where
  "clean_comps rooted acc [] = rev acc"
| "clean_comps rooted acc (w # ws) =
     (if w = [] \<or> w = ''.'' then clean_comps rooted acc ws
      else if w = ''..'' then
        (case acc of
           [] \<Rightarrow> clean_comps rooted (if rooted then [] else [w]) ws
         | a # as \<Rightarrow> if a = ''..'' then clean_comps rooted (w # acc) ws
                     else clean_comps rooted as ws)
      else clean_comps rooted (w # acc) ws)"

definition path_is_abs :: "string \<Rightarrow> bool" where
  "path_is_abs p = (case p of [] \<Rightarrow> False | c # _ \<Rightarrow> c = CHR ''/'')"

definition path_clean :: "string \<Rightarrow> string" where
  "path_clean p =
     (let rooted = path_is_abs p;
          body = join_with CHR ''/'' (clean_comps rooted [] (split_on CHR ''/'' p))
      in if rooted then CHR ''/'' # body else if body = [] then ''.'' else body)"

definition plain_comp :: "string \<Rightarrow> bool" where
  "plain_comp w \<longleftrightarrow> w \<noteq> [] \<and> w \<noteq> ''.'' \<and> w \<noteq> ''..''"

lemma clean_comps_plain:
  "\<forall>w \<in> set ws. plain_comp w \<Longrightarrow> clean_comps rooted acc ws = rev acc @ ws"
  by (induction ws arbitrary: acc) (auto simp: plain_comp_def)

text \<open>What cleaning leaves: no empty element and no \<open>.\<close>, whatever went in.\<close>

lemma clean_comps_no_dot:
  assumes "\<forall>w \<in> set acc. w \<noteq> [] \<and> w \<noteq> ''.''"
  shows "w \<in> set (clean_comps rooted acc ws) \<Longrightarrow> w \<noteq> [] \<and> w \<noteq> ''.''"
  using assms
  by (induction rooted acc ws rule: clean_comps.induct) (auto split: if_splits list.splits)

lemma join_with_eq_Nil: "join_with sep ws = [] \<longleftrightarrow> ws = [] \<or> ws = [[]]"
  by (induction sep ws rule: join_with.induct) auto

lemma clean_comps_sep:
  assumes "\<forall>w \<in> set acc. sep \<notin> set w" "\<forall>w \<in> set ws. sep \<notin> set w"
  shows "w \<in> set (clean_comps rooted acc ws) \<Longrightarrow> sep \<notin> set w"
  using assms
  by (induction rooted acc ws rule: clean_comps.induct) (auto split: if_splits list.splits)

text \<open>
  A relative path is its own \<open>path.Clean\<close> and has no \<open>..\<close> element exactly when
  it is a slash-separated list of plain names (the path \<open>.\<close> aside).
\<close>

lemma path_clean_fixpoint:
  assumes rel: "\<not> path_is_abs p" and ne: "p \<noteq> []" and nd: "p \<noteq> ''.''"
  shows "path_clean p = p \<and> ''..'' \<notin> set (split_on CHR ''/'' p) \<longleftrightarrow>
     (\<forall>w \<in> set (split_on CHR ''/'' p). plain_comp w)"
proof
  let ?ws = "split_on CHR ''/'' p" and ?cs = "clean_comps False [] (split_on CHR ''/'' p)"
  assume a: "path_clean p = p \<and> ''..'' \<notin> set ?ws"
  then have body: "join_with CHR ''/'' ?cs = p"
    using rel nd by (auto simp: path_clean_def Let_def split: if_splits)
  then have csne: "?cs \<noteq> []" using ne by auto
  have "\<forall>w \<in> set ?cs. CHR ''/'' \<notin> set w"
    using clean_comps_sep[of "[]" "CHR ''/''" ?ws _ False] split_on_words by auto
  then have "split_on CHR ''/'' p = ?cs"
    using split_join[OF csne, of "CHR ''/''"] body by simp
  then have "w \<in> set ?ws \<Longrightarrow> w \<noteq> [] \<and> w \<noteq> ''.''" for w
    using clean_comps_no_dot[of "[]" w False ?ws] by simp
  then show "\<forall>w \<in> set ?ws. plain_comp w" using a by (auto simp: plain_comp_def)
next
  let ?ws = "split_on CHR ''/'' p"
  assume a: "\<forall>w \<in> set ?ws. plain_comp w"
  then have "clean_comps False [] ?ws = ?ws" by (simp add: clean_comps_plain)
  then have "path_clean p = p" using rel ne by (simp add: path_clean_def Let_def)
  then show "path_clean p = p \<and> ''..'' \<notin> set ?ws" using a by (auto simp: plain_comp_def)
qed

end
