(* ===== verification/Task_Id.thy ===== *)
theory Task_Id
  imports Go_Strings
begin

text \<open>
  Task identifiers, \<open>internal/model/taskid.go\<close>: the grammar
  \<open>PREFIX-BODY\<close>, parsing, printing, depth and parent. Task ids name branches,
  tag commit messages and reach SQL parameters, so the theorems say what an
  accepted id can contain, that parsing and printing are inverse, and that the
  parent of an id is again an id, one level up.
\<close>

section \<open>Grammar\<close>

definition alnum :: cclass where
  "alnum = [(CHR ''A'', CHR ''Z''), (CHR ''a'', CHR ''z''), (CHR ''0'', CHR ''9'')]"

definition word_cls :: cclass where
  "word_cls = [(CHR ''A'', CHR ''Z''), (CHR ''a'', CHR ''z''), (CHR ''0'', CHR ''9''),
     (CHR ''_'', CHR ''_'')]"

definition sep_cls :: cclass where
  "sep_cls = [(CHR ''.'', CHR ''.''), (CHR ''-'', CHR ''-'')]"

definition taskIDBody :: rexp where
  "taskIDBody = RSeq (RPlus (RCls word_cls)) (RStar (RSeq (RCls sep_cls) (RPlus (RCls word_cls))))"

definition taskIDPattern :: rexp where
  "taskIDPattern = RSeq (RPlus (RCls alnum)) (RSeq (RChr CHR ''-'') taskIDBody)"

section \<open>The type and its operations\<close>

record TaskID =
  tid_prefix :: string
  tid_parts :: string

definition zero_TaskID :: TaskID where
  "zero_TaskID = \<lparr>tid_prefix = [], tid_parts = []\<rparr>"

text \<open>
  \<open>FindStringSubmatch\<close>: the first group is a run of letters and digits followed
  by a dash, so the first dash of a matching string ends it.
\<close>

definition ParseTaskID :: "string \<Rightarrow> TaskID result" where
  "ParseTaskID s =
     (if matches taskIDPattern s
      then (case cut CHR ''-'' s of
              Some (p, b) \<Rightarrow> Inr \<lparr>tid_prefix = p, tid_parts = b\<rparr>
            | None \<Rightarrow> Inl (Sentinel ErrInvalidTaskID))
      else Inl (Sentinel ErrInvalidTaskID))"

definition validateTaskIDField :: "string \<Rightarrow> err option" where
  "validateTaskIDField i =
     (if i = [] then Some (ValidationError ''task_id'')
      else case ParseTaskID i of Inl _ \<Rightarrow> Some (ValidationError ''task_id'') | Inr _ \<Rightarrow> None)"

definition TaskID_Validate :: "TaskID \<Rightarrow> err option" where
  "TaskID_Validate t =
     (if tid_prefix t = [] \<or> tid_parts t = [] then Some (Sentinel ErrInvalidTaskID) else None)"

definition TaskID_String :: "TaskID \<Rightarrow> string" where
  "TaskID_String t = (if tid_prefix t = [] then [] else tid_prefix t @ ''-'' @ tid_parts t)"

definition TaskID_Depth :: "TaskID \<Rightarrow> nat" where
  "TaskID_Depth t = (if tid_parts t = [] then 0 else count_list (tid_parts t) CHR ''.'' + 1)"

text \<open>The text before the last dot, if there is a dot (\<open>strings.LastIndex\<close> and a slice).\<close>

fun before_last :: "char \<Rightarrow> string \<Rightarrow> string option" where
  "before_last d [] = None"
| "before_last d (c # s) =
     (case before_last d s of
        Some a \<Rightarrow> Some (c # a)
      | None \<Rightarrow> if c = d then Some [] else None)"

definition TaskID_Parent :: "TaskID \<Rightarrow> TaskID option" where
  "TaskID_Parent t = map_option (\<lambda>a. \<lparr>tid_prefix = tid_prefix t, tid_parts = a\<rparr>)
     (before_last CHR ''.'' (tid_parts t))"

definition TaskID_IsZero :: "TaskID \<Rightarrow> bool" where
  "TaskID_IsZero t = (tid_prefix t = [] \<and> tid_parts t = [])"

text \<open>\<open>UnmarshalJSON\<close> on the decoded JSON string, \<open>MarshalJSON\<close> before encoding.\<close>

definition TaskID_MarshalText :: "TaskID \<Rightarrow> string" where
  "TaskID_MarshalText t = TaskID_String t"

definition TaskID_UnmarshalText :: "string result \<Rightarrow> TaskID \<Rightarrow> TaskID result" where
  "TaskID_UnmarshalText decoded old =
     (case decoded of
        Inl e \<Rightarrow> Inl (Wrap ''unmarshal task ID'' e)
      | Inr s \<Rightarrow> (case ParseTaskID s of Inl e \<Rightarrow> Inl e | Inr t \<Rightarrow> Inr t))"

section \<open>The body grammar as a two-state scanner\<close>

fun seg_ok :: "bool \<Rightarrow> string \<Rightarrow> bool" where
  "seg_ok b [] = b"
| "seg_ok b (c # s) =
     (if in_class word_cls c then seg_ok True s
      else b \<and> in_class sep_cls c \<and> seg_ok False s)"

lemma sep_not_word: "in_class sep_cls c \<Longrightarrow> \<not> in_class word_cls c"
  by (auto simp: sep_cls_def word_cls_def in_class_def)

lemma body_scan:
  "matches taskIDBody s = seg_ok False s"
  "matches (RSeq (RStar (RCls word_cls)) (RStar (RSeq (RCls sep_cls) (RPlus (RCls word_cls))))) s
     = seg_ok True s"
proof (induction s)
  case Nil
  {
    case 1
    show ?case by (simp add: taskIDBody_def)
  next
    case 2
    show ?case by simp
  }
next
  case (Cons c s)
  {
    case 1
    then show ?case using Cons.IH by (simp add: taskIDBody_def)
  next
    case 2
    then show ?case using Cons.IH sep_not_word[of c] by (auto simp: taskIDBody_def)
  }
qed

lemma dash_not_alnum: "\<not> in_class alnum CHR ''-''"
  by (simp add: in_class_def alnum_def)

lemma alnum_word: "in_class alnum c \<Longrightarrow> in_class word_cls c"
  by (auto simp: in_class_def alnum_def word_cls_def)

lemma pattern_iff:
  "matches taskIDPattern s \<longleftrightarrow>
     (\<exists>p b. cut CHR ''-'' s = Some (p, b) \<and> p \<noteq> [] \<and> (\<forall>c \<in> set p. in_class alnum c)
        \<and> seg_ok False b)"
proof -
  have "matches taskIDPattern s \<longleftrightarrow>
     (\<exists>p b. s = p @ CHR ''-'' # b \<and> p \<in> lang (RPlus (RCls alnum)) \<and> b \<in> lang taskIDBody)"
    unfolding matches_iff_lang taskIDPattern_def by (rule lang_seq_chr)
  also have "\<dots> \<longleftrightarrow> (\<exists>p b. s = p @ CHR ''-'' # b \<and> (p \<noteq> [] \<and> (\<forall>c \<in> set p. in_class alnum c))
      \<and> seg_ok False b)"
    unfolding lang_plus_ne by (simp add: matches_iff_lang[symmetric] body_scan)
  also have "\<dots> \<longleftrightarrow> (\<exists>p b. (s = p @ CHR ''-'' # b \<and> CHR ''-'' \<notin> set p) \<and> p \<noteq> []
      \<and> (\<forall>c \<in> set p. in_class alnum c) \<and> seg_ok False b)"
    using dash_not_alnum by blast
  finally show ?thesis by (simp add: cut_Some)
qed

text \<open>What a parsed id looks like; the components' lemmas start from this form.\<close>

definition wf_TaskID :: "TaskID \<Rightarrow> bool" where
  "wf_TaskID t \<longleftrightarrow> tid_prefix t \<noteq> [] \<and> (\<forall>c \<in> set (tid_prefix t). in_class alnum c)
     \<and> seg_ok False (tid_parts t)"

lemma ParseTaskID_Inr: "ParseTaskID s = Inr t \<longleftrightarrow> wf_TaskID t \<and> s = TaskID_String t"
proof
  assume "ParseTaskID s = Inr t"
  then have "cut CHR ''-'' s = Some (tid_prefix t, tid_parts t)" "wf_TaskID t"
    by (auto simp: ParseTaskID_def pattern_iff wf_TaskID_def split: if_splits option.splits)
  then show "wf_TaskID t \<and> s = TaskID_String t"
    by (auto simp: wf_TaskID_def TaskID_String_def dest: cut_SomeD)
next
  assume a: "wf_TaskID t \<and> s = TaskID_String t"
  then have "CHR ''-'' \<notin> set (tid_prefix t)"
    using dash_not_alnum by (auto simp: wf_TaskID_def)
  moreover have "s = tid_prefix t @ CHR ''-'' # tid_parts t"
    using a by (simp add: wf_TaskID_def TaskID_String_def)
  ultimately have c: "cut CHR ''-'' s = Some (tid_prefix t, tid_parts t)"
    by (simp add: cut_Some)
  then have "matches taskIDPattern s" using a by (simp add: pattern_iff wf_TaskID_def)
  then show "ParseTaskID s = Inr t" by (simp add: ParseTaskID_def c)
qed

lemma ParseTaskID_error: "ParseTaskID s = Inl e \<Longrightarrow> e = Sentinel ErrInvalidTaskID"
  by (auto simp: ParseTaskID_def split: if_splits option.splits)

lemma validateTaskIDField_None [validate_simps]:
  "validateTaskIDField i = None \<longleftrightarrow> (\<exists>t. ParseTaskID i = Inr t)"
proof -
  have "ParseTaskID [] \<noteq> Inr t" for t by (auto simp: ParseTaskID_Inr wf_TaskID_def TaskID_String_def)
  then show ?thesis by (auto simp: validateTaskIDField_def split: sum.splits)
qed

lemma seg_ok_chars: "seg_ok b s \<Longrightarrow> c \<in> set s \<Longrightarrow> in_class word_cls c \<or> in_class sep_cls c"
  by (induction b s rule: seg_ok.induct) (auto split: if_splits)

lemma seg_ok_ne: "seg_ok False s \<Longrightarrow> s \<noteq> [] \<and> in_class word_cls (hd s) \<and> in_class word_cls (last s)"
proof -
  have l: "seg_ok b s \<Longrightarrow> s \<noteq> [] \<Longrightarrow> in_class word_cls (last s)" for b
    by (induction b s rule: seg_ok.induct) (auto split: if_splits)
  assume "seg_ok False s"
  then show ?thesis using l by (cases s) (auto split: if_splits)
qed

lemma seg_ok_append_sep:
  "in_class sep_cls d \<Longrightarrow> seg_ok b (u @ d # v) \<longleftrightarrow> seg_ok b u \<and> seg_ok False v"
  by (induction b u rule: seg_ok.induct) (auto simp: sep_not_word)

lemma seg_ok_no_double: "seg_ok b (u @ c # d # v) \<Longrightarrow> in_class word_cls c \<or> in_class word_cls d"
  by (induction b u rule: seg_ok.induct) (auto split: if_splits)

lemma before_last_Some: "before_last d s = Some a \<longleftrightarrow> (\<exists>v. s = a @ d # v \<and> d \<notin> set v)"
proof -
  have none: "before_last d s = None \<longleftrightarrow> d \<notin> set s" for s
    by (induction s) (auto split: option.splits)
  have fwd: "before_last d s = Some a \<Longrightarrow> \<exists>v. s = a @ d # v \<and> d \<notin> set v" for a s
  proof (induction s arbitrary: a)
    case Nil
    then show ?case by simp
  next
    case (Cons c s)
    show ?case
    proof (cases "before_last d s")
      case None
      then show ?thesis using Cons.prems none[of s] by (auto split: if_splits)
    next
      case (Some b)
      with Cons.IH obtain v where "s = b @ d # v" "d \<notin> set v" by blast
      then show ?thesis using Some Cons.prems by auto
    qed
  qed
  have bwd: "d \<notin> set v \<Longrightarrow> before_last d (a @ d # v) = Some a" for a v
    using none[of v] by (induction a) auto
  show ?thesis using fwd bwd by metis
qed

section \<open>Properties\<close>

text \<open>
  Parsing and printing are inverse: a string parses to an id exactly when it
  is the printed form of a well-formed id, that id is the one returned, and a
  string that does not parse is refused with ErrInvalidTaskID.
\<close>

theorem task_id_roundtrip:
  "(ParseTaskID s = Inr t \<longleftrightarrow> wf_TaskID t \<and> TaskID_String t = s)
   \<and> (ParseTaskID s = Inl e \<longleftrightarrow>
        e = Sentinel ErrInvalidTaskID \<and> (\<nexists>t. wf_TaskID t \<and> TaskID_String t = s))"
proof (cases "ParseTaskID s")
  case (Inl e')
  have "wf_TaskID u \<Longrightarrow> TaskID_String u \<noteq> s" for u
    using Inl ParseTaskID_Inr[of s u] by auto
  then show ?thesis using Inl ParseTaskID_error[OF Inl] by auto
next
  case (Inr t')
  then have "wf_TaskID u \<and> TaskID_String u = s \<longleftrightarrow> u = t'" for u
    using ParseTaskID_Inr[of s u] by auto
  then show ?thesis using Inr by auto
qed

text \<open>
  An accepted task id is safe to embed in a git ref, a log line or a SQL
  parameter: it is not empty, has only letters, digits, underscores, dots and
  dashes, starts and ends with a letter, digit or underscore, and no two
  separators are adjacent (so no \<open>..\<close>).
\<close>

theorem task_id_safe:
  assumes "ParseTaskID s = Inr t"
  shows "s \<noteq> [] \<and> (\<forall>c \<in> set s. in_class word_cls c \<or> in_class sep_cls c)
    \<and> in_class word_cls (hd s) \<and> in_class word_cls (last s)
    \<and> (\<forall>u c d v. s = u @ c # d # v \<longrightarrow> in_class word_cls c \<or> in_class word_cls d)"
proof -
  from assms have wf: "wf_TaskID t" and s: "s = tid_prefix t @ CHR ''-'' # tid_parts t"
    by (auto simp: ParseTaskID_Inr wf_TaskID_def TaskID_String_def)
  have dash: "in_class sep_cls CHR ''-''" by (simp add: sep_cls_def in_class_def)
  have "seg_ok False p" if "p \<noteq> []" "\<forall>c \<in> set p. in_class alnum c" for p
  proof -
    have "seg_ok True p" if "\<forall>c \<in> set p. in_class alnum c" for p
      using that by (induction p) (auto simp: alnum_word)
    then show ?thesis using that by (cases p) (auto simp: alnum_word)
  qed
  then have ok: "seg_ok False s"
    using wf unfolding s seg_ok_append_sep[OF dash] wf_TaskID_def by blast
  show ?thesis
    using seg_ok_ne[OF ok] seg_ok_chars[OF ok] seg_ok_no_double[of False] ok by blast
qed

theorem task_id_safe_witness:
  "ParseTaskID ''MTIX-30.6-probe'' = Inr \<lparr>tid_prefix = ''MTIX'', tid_parts = ''30.6-probe''\<rparr>
   \<and> in_class word_cls (last ''MTIX-30.6-probe'')"
proof -
  have p: "ParseTaskID ''MTIX-30.6-probe'' = Inr \<lparr>tid_prefix = ''MTIX'', tid_parts = ''30.6-probe''\<rparr>"
    by code_simp
  show ?thesis using p task_id_safe[OF p] by blast
qed

text \<open>
  The parent of an accepted id is an accepted id with the same prefix, one
  level less deep; an id has a parent exactly when it has more than one dotted
  segment. So walking parents always ends at a one-segment id.
\<close>

theorem task_id_parent:
  assumes "ParseTaskID s = Inr t"
  shows "(\<forall>u. TaskID_Parent t = Some u \<longrightarrow>
            ParseTaskID (TaskID_String u) = Inr u \<and> tid_prefix u = tid_prefix t
            \<and> TaskID_Depth u + 1 = TaskID_Depth t)
    \<and> (TaskID_Parent t = None \<longleftrightarrow> TaskID_Depth t = 1)"
proof -
  have wf: "wf_TaskID t" using assms by (simp add: ParseTaskID_Inr)
  then have ne: "tid_parts t \<noteq> []" using seg_ok_ne by (auto simp: wf_TaskID_def)
  have dot: "in_class sep_cls CHR ''.''" by (simp add: sep_cls_def in_class_def)
  have "ParseTaskID (TaskID_String u) = Inr u \<and> tid_prefix u = tid_prefix t
      \<and> TaskID_Depth u + 1 = TaskID_Depth t" if u: "TaskID_Parent t = Some u" for u
  proof -
    from u obtain v where v: "tid_parts t = tid_parts u @ CHR ''.'' # v" "CHR ''.'' \<notin> set v"
      and p: "tid_prefix u = tid_prefix t"
      by (auto simp: TaskID_Parent_def before_last_Some)
    have "seg_ok False (tid_parts u)"
      using wf unfolding wf_TaskID_def v(1) seg_ok_append_sep[OF dot] by blast
    then have wfu: "wf_TaskID u" and une: "tid_parts u \<noteq> []"
      using wf p seg_ok_ne by (auto simp: wf_TaskID_def)
    have "count_list v CHR ''.'' = 0" using v(2) by (simp add: count_list_0_iff)
    then have "TaskID_Depth u + 1 = TaskID_Depth t"
      using v(1) une ne by (simp add: TaskID_Depth_def)
    then show ?thesis using wfu p by (simp add: ParseTaskID_Inr)
  qed
  moreover have "TaskID_Parent t = None \<longleftrightarrow> CHR ''.'' \<notin> set (tid_parts t)"
  proof -
    have "before_last CHR ''.'' w = None \<longleftrightarrow> CHR ''.'' \<notin> set w" for w
      by (induction w) (auto split: option.splits)
    then show ?thesis by (simp add: TaskID_Parent_def)
  qed
  moreover have "TaskID_Depth t = 1 \<longleftrightarrow> CHR ''.'' \<notin> set (tid_parts t)"
    using ne by (simp add: TaskID_Depth_def count_list_0_iff)
  ultimately show ?thesis by blast
qed

theorem task_id_parent_witness:
  "TaskID_Parent \<lparr>tid_prefix = ''MGIT'', tid_parts = ''1.2''\<rparr>
     = Some \<lparr>tid_prefix = ''MGIT'', tid_parts = ''1''\<rparr>
   \<and> ParseTaskID ''MGIT-1'' = Inr \<lparr>tid_prefix = ''MGIT'', tid_parts = ''1''\<rparr>"
proof -
  have p: "ParseTaskID ''MGIT-1.2'' = Inr \<lparr>tid_prefix = ''MGIT'', tid_parts = ''1.2''\<rparr>" by code_simp
  have q: "TaskID_Parent \<lparr>tid_prefix = ''MGIT'', tid_parts = ''1.2''\<rparr>
     = Some \<lparr>tid_prefix = ''MGIT'', tid_parts = ''1''\<rparr>" by code_simp
  show ?thesis using task_id_parent[OF p] q by (simp add: TaskID_String_def)
qed

end
