(* ===== verification/Core_Model.thy ===== *)
theory Core_Model
  imports Task_Id
begin

text \<open>
  The core value types of \<open>internal/model\<close>: commits (\<open>commit.go\<close>), file diffs
  (\<open>filediff.go\<close>), branches with their advisory lock (\<open>branch.go\<close>), worktree
  registrations (\<open>worktree.go\<close>) and guest identities (\<open>guest_identity.go\<close>,
  \<open>exec_identity.go\<close>). An instant is a number of nanoseconds since Go's zero
  time, so the zero value is 0.
\<close>

type_synonym time = int

abbreviation (input) zero_time :: time where "zero_time \<equiv> 0"

section \<open>File diffs\<close>

text \<open>\<open>DiffOperation\<close> is a string; the four valid ones and any other text.\<close>

datatype DiffOperation = DiffAdded | DiffModified | DiffDeleted | DiffRenamed | OtherOp string

fun op_text :: "DiffOperation \<Rightarrow> string" where
  "op_text DiffAdded = ''added''"
| "op_text DiffModified = ''modified''"
| "op_text DiffDeleted = ''deleted''"
| "op_text DiffRenamed = ''renamed''"
| "op_text (OtherOp s) = s"

fun validOperations :: "DiffOperation \<Rightarrow> bool" where
  "validOperations (OtherOp s) = False"
| "validOperations _ = True"

datatype FileDiffMode = FileModeRegular | FileModeExecutable | FileModeSymlink

record Hunk =
  LineStart :: int
  HLinesAdded :: int
  HLinesRemoved :: int
  HContent :: string

record DiffStatistics =
  LinesAdded :: int
  LinesRemoved :: int

record FileDiff =
  Path :: string
  Operation :: DiffOperation
  OldHash :: string
  NewHash :: string
  Hunks :: "Hunk list"
  BinaryDiff :: bool
  Mode :: FileDiffMode
  OldMode :: FileDiffMode

definition FileDiff_Validate :: "FileDiff \<Rightarrow> err option" where
  "FileDiff_Validate d =
     (if Path d = [] then Some (Sentinel ErrInvalidDiff)
      else if \<not> validOperations (Operation d) then Some (Sentinel ErrInvalidDiff)
      else None)"

definition FileDiff_Statistics :: "FileDiff \<Rightarrow> DiffStatistics" where
  "FileDiff_Statistics d =
     (let zero = \<lparr>LinesAdded = 0, LinesRemoved = 0\<rparr> in
      if BinaryDiff d then zero
      else foldl (\<lambda>st h. \<lparr>LinesAdded = wrap64 (LinesAdded st + HLinesAdded h),
                          LinesRemoved = wrap64 (LinesRemoved st + HLinesRemoved h)\<rparr>)
             zero (Hunks d))"

section \<open>Commits\<close>

datatype CommitType = CommitTypeNormal | CommitTypeRollback | CommitTypeSquash
  | CommitTypeMerge | CommitTypeSystem

text \<open>The extensible \<open>Metadata\<close> map, which no modelled function reads, is left out.\<close>

record Commit =
  CommitID :: string
  ContentHash :: string
  ParentID :: string
  TreeHash :: string
  CTaskID :: TaskID
  AgentID :: string
  SessionID :: string
  Message :: string
  FileDiffs :: "FileDiff list"
  SquashedFrom :: "string list"
  CreatedAt :: time
  Signature :: string
  CType :: CommitType
  CreatedBy :: string
  CBranch :: string

text \<open>
  The library routines the content hash goes through: SHA-256 in hex, the JSON
  encoding of the diff list, and the layout of a UTC timestamp. They are
  arguments of the model; nothing is assumed of them here.
\<close>

record hashing =
  sha256_hex :: "string \<Rightarrow> string"
  marshal_diffs :: "FileDiff list \<Rightarrow> string"
  fmt_utc :: "time \<Rightarrow> string"

text \<open>The bytes written into the digest, in order.\<close>

definition content_preimage :: "hashing \<Rightarrow> Commit \<Rightarrow> string" where
  "content_preimage h c =
     Message c @ marshal_diffs h (FileDiffs c) @ TaskID_String (CTaskID c) @ ParentID c
     @ fmt_utc h (CreatedAt c)"

definition ComputeContentHash :: "hashing \<Rightarrow> Commit \<Rightarrow> string" where
  "ComputeContentHash h c = sha256_hex h (content_preimage h c)"

definition Commit_Validate :: "Commit \<Rightarrow> err option" where
  "Commit_Validate c =
     (if CommitID c = [] then Some (Sentinel ErrInvalidCommit)
      else if TaskID_IsZero (CTaskID c) then Some (Sentinel ErrInvalidCommit)
      else if CreatedAt c = zero_time then Some (Sentinel ErrInvalidCommit)
      else if Message c = [] then Some (Sentinel ErrInvalidCommit)
      else None)"

abbreviation (input) shortIDLen :: nat where "shortIDLen \<equiv> 8"

definition ShortID :: "Commit \<Rightarrow> string" where
  "ShortID c = (if length (CommitID c) < shortIDLen then CommitID c else take shortIDLen (CommitID c))"

definition Commit_String :: "Commit \<Rightarrow> string" where
  "Commit_String c = ShortID c @ '' ['' @ TaskID_String (CTaskID c) @ ''] '' @ Message c"

section \<open>Branches and their advisory lock\<close>

definition TaskBranchName :: "string \<Rightarrow> string" where
  "TaskBranchName taskID = ''task/'' @ taskID"

record Branch =
  BranchID :: string
  BName :: string
  HeadCommit :: string
  BTaskID :: TaskID
  BCreatedAt :: time
  LockedBy :: string
  LockedUntil :: time
  MergedTo :: string
  IsMerged :: bool

definition IsLocked :: "Branch \<Rightarrow> time \<Rightarrow> bool" where
  "IsLocked b now \<longleftrightarrow> LockedBy b \<noteq> [] \<and> now < LockedUntil b"

definition Lock :: "Branch \<Rightarrow> string \<Rightarrow> time \<Rightarrow> int \<Rightarrow> Branch result" where
  "Lock b agentID now duration =
     (if IsLocked b now \<and> LockedBy b \<noteq> agentID then Inl (Sentinel ErrBranchLocked)
      else Inr (b\<lparr>LockedBy := agentID, LockedUntil := now + duration\<rparr>))"

definition Unlock :: "Branch \<Rightarrow> Branch" where
  "Unlock b = b\<lparr>LockedBy := [], LockedUntil := zero_time\<rparr>"

definition Branch_Validate :: "Branch \<Rightarrow> err option" where
  "Branch_Validate b =
     (if BName b = [] then Some (ValidationError ''name'')
      else if TaskID_IsZero (BTaskID b) then Some (ValidationError ''task_id'')
      else None)"

definition Branch_String :: "Branch \<Rightarrow> string" where
  "Branch_String b = BName b @ '' ['' @ TaskID_String (BTaskID b) @ ''] head='' @ HeadCommit b"

text \<open>A history of lock attempts: agent, instant, duration. A refused attempt leaves
  the branch as it was.\<close>

fun lock_attempts :: "(string \<times> time \<times> int) list \<Rightarrow> Branch \<Rightarrow> Branch" where
  "lock_attempts [] b = b"
| "lock_attempts ((a, now, d) # as) b =
     lock_attempts as (case Lock b a now d of Inl _ \<Rightarrow> b | Inr b' \<Rightarrow> b')"

section \<open>Worktrees\<close>

record WorktreeInfo =
  WPath :: string
  WName :: string
  WBranch :: string
  WTaskID :: string
  WAgentID :: string
  WCreatedAt :: time
  LastCommitAt :: time
  ForkBase :: string
  Prunable :: bool
  UncommittedPaths :: "string list"
  UncommittedIncluded :: bool

definition WorktreeInfo_Validate :: "WorktreeInfo \<Rightarrow> err option" where
  "WorktreeInfo_Validate w =
     (if WPath w = [] then Some (ValidationError ''path'') else validateTaskIDField (WTaskID w))"

record WorktreeAddOptions =
  OPath :: string
  OTaskID :: string
  OAgentID :: string
  OBranch :: string
  OBase :: string
  IncludeUncommitted :: bool

definition WorktreeAddOptions_Validate :: "WorktreeAddOptions \<Rightarrow> err option" where
  "WorktreeAddOptions_Validate w =
     (if OPath w = [] then Some (ValidationError ''path'') else validateTaskIDField (OTaskID w))"

section \<open>Guest identities\<close>

record GuestIdentity =
  UID :: int
  GID :: int
  GName :: string
  Home :: string

definition RootIdentity :: GuestIdentity where
  "RootIdentity = \<lparr>UID = 0, GID = 0, GName = ''root'', Home = ''/root''\<rparr>"

definition IsRoot :: "GuestIdentity \<Rightarrow> bool" where
  "IsRoot g = (UID g = 0)"

definition identityNamePattern :: rexp where
  "identityNamePattern = RSeq (RCls [(CHR ''a'', CHR ''z''), (CHR ''_'', CHR ''_'')])
     (RRep (RCls [(CHR ''a'', CHR ''z''), (CHR ''0'', CHR ''9''), (CHR ''_'', CHR ''_''),
        (CHR ''-'', CHR ''-'')]) 0 31)"

definition hasDotDot :: "string \<Rightarrow> bool" where
  "hasDotDot p = list_ex (\<lambda>seg. seg = ''..'') (split_on CHR ''/'' p)"

definition GuestIdentity_Validate :: "GuestIdentity \<Rightarrow> err option" where
  "GuestIdentity_Validate g =
     (if UID g < 0 then Some (ValidationError ''uid'')
      else if GID g < 0 then Some (ValidationError ''gid'')
      else if GName g \<noteq> [] \<and> \<not> matches identityNamePattern (GName g)
        then Some (ValidationError ''name'')
      else if Home g \<noteq> []
          \<and> (\<not> path_is_abs (Home g) \<or> path_clean (Home g) \<noteq> Home g \<or> hasDotDot (Home g))
        then Some (ValidationError ''home'')
      else None)"

definition IdentityForProcess :: "int \<Rightarrow> int \<Rightarrow> GuestIdentity" where
  "IdentityForProcess uid gid =
     (if uid = 0 then RootIdentity
      else \<lparr>UID = uid, GID = gid, GName = ''agent'', Home = ''/home/agent''\<rparr>)"

text \<open>The verdict on the identity a command ran as; the reason is a tag, not its prose.\<close>

datatype IdentityReason = ReasonNone | NothingAsked | GuestSilent | RanAsOther

record ExecIdentity =
  Asked :: "GuestIdentity option"
  Ran :: "GuestIdentity option"
  Verified :: bool
  IReason :: IdentityReason

definition VerdictOnExecIdentity ::
    "GuestIdentity option \<Rightarrow> GuestIdentity option \<Rightarrow> ExecIdentity" where
  "VerdictOnExecIdentity asked reported =
     (let v = \<lparr>Asked = asked, Ran = reported, Verified = False, IReason = ReasonNone\<rparr> in
      case asked of
        None \<Rightarrow> v\<lparr>IReason := NothingAsked\<rparr>
      | Some a \<Rightarrow>
          (case reported of
             None \<Rightarrow> v\<lparr>IReason := GuestSilent\<rparr>
           | Some r \<Rightarrow>
               if UID r \<noteq> UID a \<or> GID r \<noteq> GID a then v\<lparr>IReason := RanAsOther\<rparr>
               else v\<lparr>Verified := True\<rparr>))"

lemmas core_validate [validate_simps] =
  FileDiff_Validate_def Commit_Validate_def Branch_Validate_def WorktreeInfo_Validate_def
  WorktreeAddOptions_Validate_def GuestIdentity_Validate_def

section \<open>Lock facts\<close>

lemma lock_attempts_held:
  assumes "LockedBy b = a" "a \<noteq> []" "LockedUntil b = u"
    and "\<forall>(a', now, d) \<in> set as. a' \<noteq> a \<and> now < u"
  shows "lock_attempts as b = b"
  using assms(4)
proof (induction as)
  case Nil
  then show ?case by simp
next
  case (Cons x as)
  obtain a' now d where x: "x = (a', now, d)" by (cases x)
  with Cons.prems have "a' \<noteq> a" "now < u" by auto
  then have "Lock b a' now d = Inl (Sentinel ErrBranchLocked)"
    using assms by (auto simp: Lock_def IsLocked_def)
  then show ?case using Cons x by simp
qed

section \<open>Properties\<close>

text \<open>
  The advisory lock excludes other agents until it expires: once a named
  agent has locked a branch for a positive duration, no sequence of lock attempts
  by other agents at instants before the expiry takes the lock or changes the
  branch, and any single one of them is refused with ErrBranchLocked.
\<close>

theorem branch_lock_exclusive:
  assumes lock: "Lock b a t d = Inr b'" and "a \<noteq> []"
    and others: "\<forall>(a', now, d') \<in> set as. a' \<noteq> a \<and> now < t + d"
    and "a' \<noteq> a" and "now < t + d"
  shows "lock_attempts as b' = b' \<and> IsLocked b' now
    \<and> Lock (lock_attempts as b') a' now d' = Inl (Sentinel ErrBranchLocked)"
proof -
  from lock have b': "LockedBy b' = a" "LockedUntil b' = t + d"
    by (auto simp: Lock_def split: if_splits)
  then have "lock_attempts as b' = b'"
    using lock_attempts_held[of b' a "t + d" as] others \<open>a \<noteq> []\<close> by simp
  then show ?thesis using b' assms(2,4,5) by (simp add: Lock_def IsLocked_def)
qed

definition demo_branch :: Branch where
  "demo_branch = \<lparr>BranchID = ''b1'', BName = ''task/MGIT-1'', HeadCommit = ''h'',
     BTaskID = \<lparr>tid_prefix = ''MGIT'', tid_parts = ''1''\<rparr>, BCreatedAt = 1, LockedBy = [],
     LockedUntil = 0, MergedTo = [], IsMerged = False\<rparr>"

theorem branch_lock_exclusive_witness:
  "Lock (lock_attempts [(''eve'', 12, 50), (''bob'', 13, 5)]
       (demo_branch\<lparr>LockedBy := ''ann'', LockedUntil := 20\<rparr>)) ''bob'' 15 30
     = Inl (Sentinel ErrBranchLocked)"
proof -
  have l: "Lock demo_branch ''ann'' 10 10 = Inr (demo_branch\<lparr>LockedBy := ''ann'', LockedUntil := 20\<rparr>)"
    by (simp add: Lock_def IsLocked_def demo_branch_def)
  show ?thesis
    by (rule branch_lock_exclusive[OF l, THEN conjunct2, THEN conjunct2]) simp_all
qed

text \<open>
  Only an exact report of the identity that was asked for verifies: the
  verdict is \<open>Verified\<close> exactly when the host asked for an identity, the guest
  reported one, and uid and gid agree; otherwise a reason is given.
\<close>

theorem exec_identity_verified_iff:
  "(Verified (VerdictOnExecIdentity asked reported) \<longleftrightarrow>
      (\<exists>a r. asked = Some a \<and> reported = Some r \<and> UID r = UID a \<and> GID r = GID a))
   \<and> (Verified (VerdictOnExecIdentity asked reported) \<longleftrightarrow>
        IReason (VerdictOnExecIdentity asked reported) = ReasonNone)
   \<and> Asked (VerdictOnExecIdentity asked reported) = asked
   \<and> Ran (VerdictOnExecIdentity asked reported) = reported"
  by (auto simp: VerdictOnExecIdentity_def Let_def split: option.splits)

text \<open>
  The content hash does not separate the task id from the parent id. Two
  commits that differ in both, each well formed, have the same hash input and so
  the same content hash, whatever the digest, the JSON encoding and the
  timestamp layout are: the fields are concatenated with no delimiter.
\<close>

theorem content_hash_field_confusion:
  "ComputeContentHash h (c\<lparr>CTaskID := \<lparr>tid_prefix = ''MGIT'', tid_parts = ''1''\<rparr>,
       ParentID := ''0123456789abcdef0123456789abcdef01234567''\<rparr>)
   = ComputeContentHash h (c\<lparr>CTaskID :=
       \<lparr>tid_prefix = ''MGIT'', tid_parts = ''10123456789abcdef0123456789abcdef01234567''\<rparr>,
       ParentID := []\<rparr>)
   \<and> wf_TaskID \<lparr>tid_prefix = ''MGIT'', tid_parts = ''1''\<rparr>
   \<and> wf_TaskID \<lparr>tid_prefix = ''MGIT'', tid_parts = ''10123456789abcdef0123456789abcdef01234567''\<rparr>"
proof -
  have "wf_TaskID \<lparr>tid_prefix = ''MGIT'', tid_parts = ''1''\<rparr>" by code_simp
  moreover have "wf_TaskID \<lparr>tid_prefix = ''MGIT'',
      tid_parts = ''10123456789abcdef0123456789abcdef01234567''\<rparr>" by code_simp
  ultimately show ?thesis
    by (simp add: ComputeContentHash_def content_preimage_def TaskID_String_def)
qed

text \<open>The identities the daemon builds for itself pass its own shape check.\<close>

lemma identity_for_process_valid:
  "0 \<le> uid \<Longrightarrow> 0 \<le> gid \<Longrightarrow> GuestIdentity_Validate (IdentityForProcess uid gid) = None"
proof -
  assume a: "0 \<le> uid" "0 \<le> gid"
  have m: "matches identityNamePattern ''agent''" "matches identityNamePattern ''root''"
    by code_simp+
  have p: "path_clean ''/home/agent'' = ''/home/agent''" "path_clean ''/root'' = ''/root''"
    "\<not> hasDotDot ''/home/agent''" "\<not> hasDotDot ''/root''"
    "path_is_abs ''/home/agent''" "path_is_abs ''/root''"
    by code_simp+
  show ?thesis using a m p
    by (simp add: IdentityForProcess_def RootIdentity_def GuestIdentity_Validate_def)
qed

end
