(* ===== verification/Cadence.thy ===== *)
theory Cadence
  imports Core_Model Complex_Main
begin

text \<open>
  The commit-cadence classifier, \<open>internal/model/cadence.go\<close>. Verdicts and
  reasons are the closed vocabularies of the source. The share of the run the
  commits occupy is kept as an exact rational: the durations reaching the
  division are at most four hours of nanoseconds, so the source's float64
  quotient compares with 0.25 as the exact one does. Prose summaries are not
  modelled.
\<close>

datatype Verdict = CadencePackagedPostHoc | CadenceSpreadAcrossRun | CadenceSingleCheckpoint
  | CadenceNoCommits | CadenceInsufficientEvidence

datatype CadenceReason = CadenceReasonNoDenominator | CadenceReasonCommitsPrecedeWorktree
  | CadenceReasonRunTooLong | CadenceReasonRunTooShort

definition CadenceMinRun :: int where "CadenceMinRun = 15 * Minute"
definition CadenceMaxRun :: int where "CadenceMaxRun = 4 * Hour"
definition CadenceBurstFraction :: rat where "CadenceBurstFraction = 1 / 4"

definition IsDerivedCommitAuthor :: "string \<Rightarrow> bool" where
  "IsDerivedCommitAuthor agentID = (agentID = ''mgit-squash'' \<or> agentID = ''mgit-merge'')"

record CadenceObservation =
  CommitTimes :: "time list"
  RunStart :: time
  HasRunStart :: bool

record CadenceMeasure =
  RunStartAt :: time
  FirstCommitAt :: time
  LastMeasuredAt :: time
  Elapsed :: int
  Window :: int
  WindowFraction :: rat

record CadenceEvidence =
  Verdict :: Verdict
  Reason :: "CadenceReason option"
  Commits :: nat
  Measure :: "CadenceMeasure option"

definition sortedTimes :: "time list \<Rightarrow> time list" where
  "sortedTimes ts = sort ts"

definition cadenceVerdictFor :: "nat \<Rightarrow> rat \<Rightarrow> Verdict" where
  "cadenceVerdictFor n fraction =
     (if n < 2 then CadenceSingleCheckpoint
      else if fraction \<le> CadenceBurstFraction then CadencePackagedPostHoc
      else CadenceSpreadAcrossRun)"

text \<open>\<open>sorted\<close> is non-empty in every call, so its first and last elements exist.\<close>

definition denominatorRefusal :: "CadenceObservation \<Rightarrow> time list \<Rightarrow> CadenceReason option" where
  "denominatorRefusal obs ts =
     (if \<not> HasRunStart obs then Some CadenceReasonNoDenominator
      else if hd ts < RunStart obs then Some CadenceReasonCommitsPrecedeWorktree
      else let elapsed = sub_sat (last ts) (RunStart obs) in
        if elapsed > CadenceMaxRun then Some CadenceReasonRunTooLong
        else if elapsed < CadenceMinRun then Some CadenceReasonRunTooShort
        else None)"

definition ClassifyCadence :: "CadenceObservation \<Rightarrow> CadenceEvidence" where
  "ClassifyCadence obs =
     (let n = length (CommitTimes obs) in
      if n = 0 then \<lparr>Verdict = CadenceNoCommits, Reason = None, Commits = 0, Measure = None\<rparr>
      else let ts = sortedTimes (CommitTimes obs) in
        case denominatorRefusal obs ts of
          Some r \<Rightarrow> \<lparr>Verdict = CadenceInsufficientEvidence, Reason = Some r, Commits = n,
                     Measure = None\<rparr>
        | None \<Rightarrow>
            let elapsed = sub_sat (last ts) (RunStart obs);
                window = sub_sat (last ts) (hd ts);
                fraction = of_int window / of_int elapsed;
                m = \<lparr>RunStartAt = RunStart obs, FirstCommitAt = hd ts, LastMeasuredAt = last ts,
                     Elapsed = elapsed, Window = window, WindowFraction = fraction\<rparr>
            in \<lparr>Verdict = cadenceVerdictFor n fraction, Reason = None, Commits = n,
                Measure = Some m\<rparr>)"

section \<open>Facts about the sorted trail\<close>

lemma sortedTimes_simps [simp]:
  "sorted (sortedTimes ts)" "set (sortedTimes ts) = set ts" "length (sortedTimes ts) = length ts"
  by (simp_all add: sortedTimes_def)

lemma sorted_hd_last:
  assumes "sorted (ts :: time list)" "ts \<noteq> []"
  shows "hd ts = Min (set ts) \<and> last ts = Max (set ts)"
proof
  show "hd ts = Min (set ts)"
    using assms by (cases ts) (auto intro!: Min_eqI[symmetric])
  have "t \<in> set ts \<Longrightarrow> t \<le> last ts" for t
    using assms by (induction ts) (auto split: if_splits)
  then show "last ts = Max (set ts)" using assms by (auto intro!: Max_eqI[symmetric])
qed

lemma denominator_ok:
  assumes "denominatorRefusal obs ts = None" "sorted ts" "ts \<noteq> []"
  shows "HasRunStart obs \<and> RunStart obs \<le> hd ts
    \<and> sub_sat (last ts) (RunStart obs) = last ts - RunStart obs
    \<and> sub_sat (last ts) (hd ts) = last ts - hd ts
    \<and> CadenceMinRun \<le> last ts - RunStart obs \<and> last ts - RunStart obs \<le> CadenceMaxRun
    \<and> hd ts \<le> last ts"
proof -
  have hl: "hd ts \<le> last ts" using assms(2,3) by (cases ts) auto
  have d: "HasRunStart obs" "RunStart obs \<le> hd ts"
    "CadenceMinRun \<le> sub_sat (last ts) (RunStart obs)" "sub_sat (last ts) (RunStart obs) \<le> CadenceMaxRun"
    using assms(1) by (auto simp: denominatorRefusal_def Let_def split: if_splits)
  then have e: "sub_sat (last ts) (RunStart obs) = last ts - RunStart obs"
    by (auto simp: sub_sat_def CadenceMinRun_def CadenceMaxRun_def max_int64_def min_int64_def
        max_def min_def split: if_splits)
  moreover have "sub_sat (last ts) (hd ts) = last ts - hd ts"
    using d e hl by (intro sub_sat_id)
      (simp add: in_int64_def CadenceMaxRun_def max_int64_def min_int64_def)
  ultimately show ?thesis using d hl by simp
qed

section \<open>Properties\<close>

text \<open>
  The classifier never judges what it cannot measure. A verdict about the
  shape of a trail is given exactly when the task has commits, a worktree start
  is known, no commit precedes it, and the span from it to the last commit is
  between fifteen minutes and four hours; in that case the verdict is the single
  checkpoint for one commit, packaged post-hoc when the span of the commits is at
  most a quarter of the run, spread otherwise. A refusal always carries a reason
  and no measure, and nothing else carries a reason.
\<close>

theorem cadence_decided_iff:
  fixes obs :: CadenceObservation
  defines "ts \<equiv> CommitTimes obs"
  defines "run \<equiv> Max (set ts) - RunStart obs" and "win \<equiv> Max (set ts) - Min (set ts)"
  defines "ev \<equiv> ClassifyCadence obs"
  shows "(Measure ev \<noteq> None \<longleftrightarrow> ts \<noteq> [] \<and> HasRunStart obs \<and> RunStart obs \<le> Min (set ts)
            \<and> 15 * Minute \<le> run \<and> run \<le> 4 * Hour)
    \<and> (Measure ev \<noteq> None \<longrightarrow> Verdict ev =
          (if length ts = 1 then CadenceSingleCheckpoint
           else if 4 * win \<le> run then CadencePackagedPostHoc else CadenceSpreadAcrossRun))
    \<and> (Reason ev \<noteq> None \<longleftrightarrow> Verdict ev = CadenceInsufficientEvidence)
    \<and> (Verdict ev = CadenceNoCommits \<longleftrightarrow> ts = [])
    \<and> (Measure ev = None \<longleftrightarrow> Verdict ev \<in> {CadenceNoCommits, CadenceInsufficientEvidence})"
proof (cases "ts = []")
  case True
  then show ?thesis by (simp add: ev_def ts_def ClassifyCadence_def)
next
  case False
  let ?s = "sortedTimes ts"
  have ne: "?s \<noteq> []" using False by (metis sortedTimes_simps(3) length_0_conv)
  have hl: "hd ?s = Min (set ts)" "last ?s = Max (set ts)"
    using sorted_hd_last[OF _ ne] by simp_all
  show ?thesis
  proof (cases "denominatorRefusal obs ?s")
    case (Some r)
    have "sub_sat (Max (set ts)) (RunStart obs) > CadenceMaxRun \<Longrightarrow> run > 4 * Hour"
      "sub_sat (Max (set ts)) (RunStart obs) < CadenceMinRun \<Longrightarrow> run < 15 * Minute"
      by (auto simp: run_def sub_sat_def CadenceMinRun_def CadenceMaxRun_def max_int64_def
          min_int64_def max_def min_def split: if_splits)
    then have "\<not> (HasRunStart obs \<and> RunStart obs \<le> Min (set ts) \<and> 15 * Minute \<le> run \<and> run \<le> 4 * Hour)"
      using Some hl by (auto simp: denominatorRefusal_def Let_def split: if_splits)
    then show ?thesis using False Some
      by (auto simp: ev_def ts_def ClassifyCadence_def Let_def)
  next
    case None
    from denominator_ok[OF None _ ne] have ok: "HasRunStart obs" "RunStart obs \<le> Min (set ts)"
      "sub_sat (last ?s) (RunStart obs) = run" "sub_sat (last ?s) (hd ?s) = win"
      "15 * Minute \<le> run" "run \<le> 4 * Hour"
      by (simp_all add: hl run_def win_def CadenceMinRun_def CadenceMaxRun_def)
    then have pos: "0 < run" by simp
    have frac: "(of_int win / of_int run :: rat) \<le> 1 / 4 \<longleftrightarrow> 4 * win \<le> run"
    proof -
      have "(of_int win / of_int run :: rat) \<le> 1 / 4 \<longleftrightarrow> (4 * of_int win :: rat) \<le> of_int run"
        using pos by (simp add: divide_simps mult.commute)
      also have "\<dots> \<longleftrightarrow> (of_int (4 * win) :: rat) \<le> of_int run" by simp
      also have "\<dots> \<longleftrightarrow> 4 * win \<le> run" by (rule of_int_le_iff)
      finally show ?thesis .
    qed
    have "length ts < 2 \<longleftrightarrow> length ts = 1" using False by (cases ts) auto
    then have ev: "Verdict ev = (if length ts = 1 then CadenceSingleCheckpoint
           else if 4 * win \<le> run then CadencePackagedPostHoc else CadenceSpreadAcrossRun)"
      "Measure ev \<noteq> None" "Reason ev = None"
      using False None ok frac unfolding ev_def ts_def
      by (auto simp: ClassifyCadence_def Let_def cadenceVerdictFor_def CadenceBurstFraction_def)
    then show ?thesis using False ok by auto
  qed
qed

theorem cadence_decided_iff_witness:
  "Verdict (ClassifyCadence \<lparr>CommitTimes = [34 * Minute, 38 * Minute, 36 * Minute],
      RunStart = 0, HasRunStart = True\<rparr>) = CadencePackagedPostHoc"
  using cadence_decided_iff[of "\<lparr>CommitTimes = [34 * Minute, 38 * Minute, 36 * Minute],
      RunStart = 0, HasRunStart = True\<rparr>"]
  by simp

end
