(* ===== verification/Go_Netip.thy ===== *)
theory Go_Netip
  imports Go_Strings
begin

unbundle bit_operations_syntax

text \<open>
  The part of Go's \<open>net/netip\<close> that mgit uses: addresses with their IPv4,
  IPv4-mapped and zoned IPv6 forms, parsing and printing, the classification
  predicates, and prefixes.
\<close>

section \<open>Addresses\<close>

text \<open>The zero \<open>Addr\<close> is not an address; an IPv6 address may carry a zone.\<close>

datatype addr = InvalidAddr | V4 "32 word" | V6 "128 word" string

definition IsValid :: "addr \<Rightarrow> bool" where
  "IsValid ip = (ip \<noteq> InvalidAddr)"

fun Is4 :: "addr \<Rightarrow> bool" where
  "Is4 (V4 w) = True"
| "Is4 _ = False"

fun Is6 :: "addr \<Rightarrow> bool" where
  "Is6 (V6 w z) = True"
| "Is6 _ = False"

fun BitLen :: "addr \<Rightarrow> nat" where
  "BitLen InvalidAddr = 0"
| "BitLen (V4 w) = 32"
| "BitLen (V6 w z) = 128"

text \<open>\<open>Is4In6\<close>: the upper 96 bits are \<open>::ffff\<close>; \<open>Unmap\<close> drops them and the zone.\<close>

fun Is4In6 :: "addr \<Rightarrow> bool" where
  "Is4In6 (V6 w z) = (drop_bit 32 w = 0xffff)"
| "Is4In6 _ = False"

fun Unmap :: "addr \<Rightarrow> addr" where
  "Unmap (V6 w z) = (if drop_bit 32 w = 0xffff then V4 (ucast w) else V6 w z)"
| "Unmap ip = ip"

lemma Unmap_idem [simp]: "Unmap (Unmap ip) = Unmap ip"
  by (cases ip) auto

lemma Unmap_valid [simp]: "IsValid (Unmap ip) = IsValid ip"
  by (cases ip) (auto simp: IsValid_def)

lemma Unmap_not_mapped [simp]: "\<not> Is4In6 (Unmap ip)"
  by (cases ip) auto

section \<open>Classification\<close>

definition octet :: "32 word \<Rightarrow> nat \<Rightarrow> 32 word" where
  "octet w i = drop_bit (24 - 8 * i) w AND 0xff"

definition group0 :: "128 word \<Rightarrow> 128 word" where
  "group0 w = drop_bit 112 w"

fun IsLoopback :: "addr \<Rightarrow> bool" where
  "IsLoopback (V4 w) = (octet w 0 = 127)"
| "IsLoopback (V6 w z) = (w = 1)"
| "IsLoopback InvalidAddr = False"

definition IsUnspecified :: "addr \<Rightarrow> bool" where
  "IsUnspecified ip = (ip = V4 0 \<or> ip = V6 0 [])"

fun IsLinkLocalUnicast :: "addr \<Rightarrow> bool" where
  "IsLinkLocalUnicast (V4 w) = (octet w 0 = 169 \<and> octet w 1 = 254)"
| "IsLinkLocalUnicast (V6 w z) = (group0 w AND 0xffc0 = 0xfe80)"
| "IsLinkLocalUnicast InvalidAddr = False"

fun IsLinkLocalMulticast :: "addr \<Rightarrow> bool" where
  "IsLinkLocalMulticast (V4 w) = (octet w 0 = 224 \<and> octet w 1 = 0 \<and> octet w 2 = 0)"
| "IsLinkLocalMulticast (V6 w z) = (group0 w AND 0xff0f = 0xff02)"
| "IsLinkLocalMulticast InvalidAddr = False"

fun IsInterfaceLocalMulticast :: "addr \<Rightarrow> bool" where
  "IsInterfaceLocalMulticast (V6 w z) = (group0 w AND 0xff0f = 0xff01)"
| "IsInterfaceLocalMulticast _ = False"

fun IsMulticast :: "addr \<Rightarrow> bool" where
  "IsMulticast (V4 w) = (octet w 0 AND 0xf0 = 0xe0)"
| "IsMulticast (V6 w z) = (drop_bit 120 w = 0xff)"
| "IsMulticast InvalidAddr = False"

fun IsPrivate :: "addr \<Rightarrow> bool" where
  "IsPrivate (V4 w) = (octet w 0 = 10 \<or> (octet w 0 = 172 \<and> octet w 1 AND 0xf0 = 16)
     \<or> (octet w 0 = 192 \<and> octet w 1 = 168))"
| "IsPrivate (V6 w z) = (drop_bit 120 w AND 0xfe = 0xfc)"
| "IsPrivate InvalidAddr = False"

section \<open>Parsing\<close>

definition parse_octet :: "string \<Rightarrow> int option" where
  "parse_octet s =
     (if s \<noteq> [] \<and> list_all is_digit s \<and> (length s = 1 \<or> hd s \<noteq> CHR ''0'') \<and> dec_value s \<le> 255
      then Some (dec_value s) else None)"

definition parse_octets :: "string \<Rightarrow> (int \<times> int \<times> int \<times> int) option" where
  "parse_octets s =
     (case map parse_octet (split_on CHR ''.'' s) of
        [Some a, Some b, Some c, Some d] \<Rightarrow> Some (a, b, c, d)
      | _ \<Rightarrow> None)"

definition ipv4_word :: "int \<times> int \<times> int \<times> int \<Rightarrow> 32 word" where
  "ipv4_word = (\<lambda>(a, b, c, d). of_int (((a * 256 + b) * 256 + c) * 256 + d))"

definition parseIPv4 :: "string \<Rightarrow> addr option" where
  "parseIPv4 s = map_option (\<lambda>q. V4 (ipv4_word q)) (parse_octets s)"

definition hex_val :: "char \<Rightarrow> int option" where
  "hex_val c =
     (if CHR ''0'' \<le> c \<and> c \<le> CHR ''9'' then Some (of_char c - 48)
      else if CHR ''a'' \<le> c \<and> c \<le> CHR ''f'' then Some (of_char c - 87)
      else if CHR ''A'' \<le> c \<and> c \<le> CHR ''F'' then Some (of_char c - 55)
      else None)"

definition is_hex :: "char \<Rightarrow> bool" where
  "is_hex c = (hex_val c \<noteq> None)"

definition hex_value :: "string \<Rightarrow> int" where
  "hex_value s = foldl (\<lambda>acc c. acc * 16 + (case hex_val c of Some v \<Rightarrow> v | None \<Rightarrow> 0)) 0 s"

text \<open>
  The loop of \<open>parseIPv6\<close>: one 16-bit group per round, at most eight rounds. The
  state is the groups so far, the position of the \<open>::\<close> if one was seen, and the
  rest of the text; a dotted IPv4 tail ends the address.
\<close>

fun parse6_loop :: "nat \<Rightarrow> int list \<Rightarrow> nat option \<Rightarrow> string \<Rightarrow> (int list \<times> nat option \<times> string) option"
where
  "parse6_loop 0 gs el s = Some (gs, el, s)"
| "parse6_loop (Suc k) gs el s =
     (let ds = takeWhile is_hex s; r = dropWhile is_hex s in
      if length ds > 4 \<or> ds = [] then None
      else case r of
        [] \<Rightarrow> Some (gs @ [hex_value ds], el, [])
      | c # r1 \<Rightarrow>
          if c = CHR ''.'' then
            (if (el = None \<and> length gs \<noteq> 6) \<or> length gs + 2 > 8 then None
             else case parse_octets s of
                 None \<Rightarrow> None
               | Some (w, x, y, z) \<Rightarrow> Some (gs @ [w * 256 + x, y * 256 + z], el, []))
          else if c \<noteq> CHR '':'' then None
          else (let gs' = gs @ [hex_value ds] in
            case r1 of
              [] \<Rightarrow> None
            | d # r2 \<Rightarrow>
                if d \<noteq> CHR '':'' then parse6_loop k gs' el r1
                else if el \<noteq> None then None
                else if r2 = [] then Some (gs', Some (length gs'), [])
                else parse6_loop k gs' (Some (length gs')) r2))"

definition expand6 :: "int list \<Rightarrow> nat option \<Rightarrow> int list option" where
  "expand6 gs el =
     (if length gs < 8
      then map_option (\<lambda>e. take e gs @ replicate (8 - length gs) 0 @ drop e gs) el
      else if el = None then Some gs else None)"

definition groups_word :: "int list \<Rightarrow> 128 word" where
  "groups_word gs = of_int (foldl (\<lambda>acc g. acc * 65536 + g) 0 gs)"

definition parse6_tail :: "nat option \<Rightarrow> string \<Rightarrow> string \<Rightarrow> addr option" where
  "parse6_tail el s z =
     (case parse6_loop 8 [] el s of
        Some (gs, el', []) \<Rightarrow> map_option (\<lambda>g. V6 (groups_word g) z) (expand6 gs el')
      | _ \<Rightarrow> None)"

definition parseIPv6 :: "string \<Rightarrow> addr option" where
  "parseIPv6 s0 =
     (case (case cut CHR ''%'' s0 of None \<Rightarrow> Some (s0, []) | Some (s, z) \<Rightarrow>
              if z = [] then None else Some (s, z)) of
        None \<Rightarrow> None
      | Some (s, z) \<Rightarrow>
          (case cut_prefix s ''::'' of
             Some [] \<Rightarrow> Some (V6 0 z)
           | Some r \<Rightarrow> parse6_tail (Some 0) r z
           | None \<Rightarrow> parse6_tail None s z))"

definition ParseAddr :: "string \<Rightarrow> addr option" where
  "ParseAddr s =
     (case dropWhile (\<lambda>c. c \<notin> {CHR ''.'', CHR '':'', CHR ''%''}) s of
        [] \<Rightarrow> None
      | c # _ \<Rightarrow> if c = CHR ''.'' then parseIPv4 s else if c = CHR '':'' then parseIPv6 s else None)"

section \<open>Printing\<close>

definition hex_digit :: "int \<Rightarrow> char" where
  "hex_digit n = (if n < 10 then char_of (n + 48) else char_of (n + 87))"

function show_hex :: "int \<Rightarrow> string" where
  "show_hex n = (if n < 16 then [hex_digit n] else show_hex (n div 16) @ [hex_digit (n mod 16)])"
  by pat_completeness auto
termination by (relation "measure nat") auto

declare show_hex.simps [simp del]

definition string4 :: "32 word \<Rightarrow> string" where
  "string4 w = join_with CHR ''.'' (map (\<lambda>i. show_dec (uint (octet w i))) [0, 1, 2, 3])"

definition word_groups :: "128 word \<Rightarrow> int list" where
  "word_groups w = map (\<lambda>i. uint (drop_bit (112 - 16 * i) w AND 0xffff)) [0, 1, 2, 3, 4, 5, 6, 7]"

fun zeros_at :: "int list \<Rightarrow> nat" where
  "zeros_at [] = 0"
| "zeros_at (g # gs) = (if g = 0 then Suc (zeros_at gs) else 0)"

text \<open>The first longest run of at least two zero groups: start and length.\<close>

definition zero_run :: "int list \<Rightarrow> nat \<times> nat" where
  "zero_run gs = foldl (\<lambda>(st, n) i. let l = zeros_at (drop i gs) in
     if l \<ge> 2 \<and> l > n then (i, l) else (st, n)) (0, 0) [0..<length gs]"

definition string6 :: "128 word \<Rightarrow> string \<Rightarrow> string" where
  "string6 w z =
     (let gs = word_groups w; (st, n) = zero_run gs;
          body = (if n = 0 then join_with CHR '':'' (map show_hex gs)
                  else join_with CHR '':'' (map show_hex (take st gs)) @ ''::''
                       @ join_with CHR '':'' (map show_hex (drop (st + n) gs)))
      in if z = [] then body else body @ ''%'' @ z)"

fun addr_String :: "addr \<Rightarrow> string" where
  "addr_String InvalidAddr = ''invalid IP''"
| "addr_String (V4 w) = string4 w"
| "addr_String (V6 w z) =
     (if drop_bit 32 w = 0xffff
      then ''::ffff:'' @ string4 (ucast w) @ (if z = [] then [] else ''%'' @ z)
      else string6 w z)"

section \<open>Prefixes\<close>

text \<open>An address and a prefix length; the length of an invalid prefix is -1.\<close>

datatype prefix = Prefix (prefix_addr: addr) (prefix_bits: int)

fun without_zone :: "addr \<Rightarrow> addr" where
  "without_zone (V6 w z) = V6 w []"
| "without_zone ip = ip"

definition PrefixFrom :: "addr \<Rightarrow> int \<Rightarrow> prefix" where
  "PrefixFrom ip n = Prefix (without_zone ip) (if 0 \<le> n \<and> n \<le> int (BitLen ip) then n else -1)"

fun Masked :: "prefix \<Rightarrow> prefix" where
  "Masked (Prefix (V4 w) n) = (if n < 0 then Prefix InvalidAddr (-1)
     else Prefix (V4 (push_bit (32 - nat n) (drop_bit (32 - nat n) w))) n)"
| "Masked (Prefix (V6 w z) n) = (if n < 0 then Prefix InvalidAddr (-1)
     else Prefix (V6 (push_bit (128 - nat n) (drop_bit (128 - nat n) w)) z) n)"
| "Masked (Prefix InvalidAddr n) = Prefix InvalidAddr (-1)"

fun Contains :: "prefix \<Rightarrow> addr \<Rightarrow> bool" where
  "Contains (Prefix (V4 p) n) (V4 w) = (0 \<le> n \<and> drop_bit (32 - nat n) (w XOR p) = 0)"
| "Contains (Prefix (V6 p pz) n) (V6 w z) = (0 \<le> n \<and> z = [] \<and> drop_bit (128 - nat n) (w XOR p) = 0)"
| "Contains _ _ = False"

fun split_last :: "char \<Rightarrow> string \<Rightarrow> (string \<times> string) option" where
  "split_last d [] = None"
| "split_last d (c # s) =
     (case split_last d s of
        Some (a, b) \<Rightarrow> Some (c # a, b)
      | None \<Rightarrow> if c = d then Some ([], s) else None)"

definition ParsePrefix :: "string \<Rightarrow> prefix option" where
  "ParsePrefix s =
     (case split_last CHR ''/'' s of
        None \<Rightarrow> None
      | Some (a, bs) \<Rightarrow>
          (case ParseAddr a of
             None \<Rightarrow> None
           | Some ip \<Rightarrow>
               if Is6 ip \<and> ip \<noteq> without_zone ip then None
               else if length bs > 1 \<and> (hd bs < CHR ''1'' \<or> CHR ''9'' < hd bs) then None
               else (case atoi bs of
                       None \<Rightarrow> None
                     | Some n \<Rightarrow> if n < 0 \<or> n > int (BitLen ip) then None
                                 else Some (PrefixFrom ip n))))"

section \<open>Facts\<close>

lemma drop_bit_xor_zero:
  "drop_bit n (x XOR y) = 0 \<longleftrightarrow> drop_bit n x = (drop_bit n y :: 'a::len word)"
proof
  assume "drop_bit n (x XOR y) = 0"
  then have "drop_bit n x XOR drop_bit n y = 0" by (simp add: drop_bit_xor)
  then show "drop_bit n x = drop_bit n y"
    by (metis xor.assoc xor.right_neutral xor_self_eq)
qed (simp add: drop_bit_xor)

lemma xor_zero_iff: "x XOR y = 0 \<longleftrightarrow> x = (y :: 'a::len word)"
  using drop_bit_xor_zero[of 0 x y] by simp

lemma Contains_self: "IsValid ip \<Longrightarrow> ip = without_zone ip \<Longrightarrow> Contains (PrefixFrom ip (int (BitLen ip))) ip"
  by (cases ip) (auto simp: PrefixFrom_def IsValid_def)

lemma Contains_host:
  assumes "IsValid ip"
  shows "Contains (PrefixFrom ip (int (BitLen ip))) q \<longleftrightarrow> q = without_zone ip"
proof (cases ip)
  case InvalidAddr
  then show ?thesis using assms by (simp add: IsValid_def)
next
  case (V4 w)
  then show ?thesis by (cases q) (auto simp: PrefixFrom_def xor_zero_iff)
next
  case (V6 w z)
  then show ?thesis by (cases q) (auto simp: PrefixFrom_def xor_zero_iff)
qed

lemma uint_octet: "uint (octet w i) = uint w div 2 ^ (24 - 8 * i) mod 256"
proof -
  have "(0xff :: 32 word) = mask 8" by (simp add: mask_eq_exp_minus_1)
  then have "octet w i = take_bit 8 (drop_bit (24 - 8 * i) w)"
    by (simp add: octet_def take_bit_eq_mask)
  then have "uint (octet w i) = take_bit 8 (uint (drop_bit (24 - 8 * i) w))"
    by (simp only: unsigned_take_bit_eq)
  also have "uint (drop_bit (24 - 8 * i) w) = drop_bit (24 - 8 * i) (uint w)"
    using uint_lt2p[of w] by (simp add: unsigned_drop_bit_eq take_bit_int_eq_self)
  finally show ?thesis by (simp add: take_bit_eq_mod drop_bit_eq_div)
qed

lemma parse_octet_show: "0 \<le> n \<Longrightarrow> n < 256 \<Longrightarrow> parse_octet (show_dec n) = Some n"
proof -
  assume n: "0 \<le> n" "n < 256"
  have "show_dec 0 = ''0''" by code_simp
  then have "length (show_dec n) = 1 \<or> hd (show_dec n) \<noteq> CHR ''0''"
    using show_dec_hd[of n] n by (cases "n = 0") auto
  then show ?thesis using n show_dec_digits[of n]
    by (auto simp: parse_octet_def list_all_iff)
qed

lemma octet_range: "0 \<le> uint (octet w i)" "uint (octet w i) < 256"
  by (simp_all add: uint_octet)

lemma show_octet_no_dot: "CHR ''.'' \<notin> set (show_dec (uint (octet w i)))"
  using show_dec_digits[OF octet_range(1)] digit_not_sign by blast

lemma base256_digits:
  "((n div 2 ^ 24 mod 256 * 256 + n div 2 ^ 16 mod 256) * 256 + n div 2 ^ 8 mod 256) * 256
     + n mod 256 = n mod (2 ^ 32 :: int)"
proof -
  have "n mod 2 ^ 32 = n mod (256 * 256 * 256 * 256)" by simp
  also have "\<dots> = 256 * (n div 256 mod (256 * 256 * 256)) + n mod 256"
    using zmod_zmult2_eq[of "256 * 256 * 256" n 256] by (simp add: mult.commute)
  also have "n div 256 mod (256 * 256 * 256) = 256 * (n div 256 div 256 mod (256 * 256)) + n div 256 mod 256"
    using zmod_zmult2_eq[of "256 * 256" "n div 256" 256] by (simp add: mult.commute)
  also have "n div 256 div 256 mod (256 * 256) = 256 * (n div 256 div 256 div 256 mod 256) + n div 256 div 256 mod 256"
    using zmod_zmult2_eq[of 256 "n div 256 div 256" 256] by (simp add: mult.commute)
  finally have "n mod 2 ^ 32 = 256 * (256 * (256 * (n div 256 div 256 div 256 mod 256)
      + n div 256 div 256 mod 256) + n div 256 mod 256) + n mod 256" .
  moreover have "n div 256 div 256 div 256 = n div 2 ^ 24" "n div 256 div 256 = n div 2 ^ 16"
    by (simp_all flip: zdiv_zmult2_eq)
  ultimately show ?thesis by simp
qed

lemma octets_word:
  "ipv4_word (uint (octet w 0), uint (octet w 1), uint (octet w 2), uint (octet w 3)) = w"
proof -
  have "ipv4_word (uint (octet w 0), uint (octet w 1), uint (octet w 2), uint (octet w 3))
      = of_int (uint w mod 2 ^ 32)"
    unfolding base256_digits[symmetric] by (simp add: ipv4_word_def uint_octet)
  then show ?thesis using uint_lt2p[of w] by simp
qed

lemma ParseAddr_string4 [simp]: "ParseAddr (string4 w) = Some (V4 w)"
proof -
  let ?f = "\<lambda>i. show_dec (uint (octet w i))"
  have s: "string4 w = join_with CHR ''.'' [?f 0, ?f 1, ?f 2, ?f 3]" by (simp add: string4_def)
  have sp: "split_on CHR ''.'' (string4 w) = [?f 0, ?f 1, ?f 2, ?f 3]"
    unfolding s by (rule split_join) (auto simp: show_octet_no_dot)
  have "parse_octets (string4 w) =
      Some (uint (octet w 0), uint (octet w 1), uint (octet w 2), uint (octet w 3))"
    by (simp add: parse_octets_def sp parse_octet_show octet_range)
  then have p: "parseIPv4 (string4 w) = Some (V4 w)"
    unfolding parseIPv4_def by (simp only: option.map octets_word)
  have "string4 w = ?f 0 @ CHR ''.'' # join_with CHR ''.'' [?f 1, ?f 2, ?f 3]" by (simp add: s)
  moreover have "\<forall>c \<in> set (?f 0). c \<notin> {CHR ''.'', CHR '':'', CHR ''%''}"
    using show_dec_digits[OF octet_range(1)] by (fastforce simp: is_digit_def)
  ultimately have "dropWhile (\<lambda>c. c \<notin> {CHR ''.'', CHR '':'', CHR ''%''}) (string4 w)
      = CHR ''.'' # join_with CHR ''.'' [?f 1, ?f 2, ?f 3]" by simp
  then show ?thesis using p by (simp add: ParseAddr_def)
qed

end
