(* ===== verification/Go_Utf8.thy ===== *)
theory Go_Utf8
  imports Go_Strings
begin

text \<open>
  UTF-8 as Go's \<open>unicode/utf8\<close> and \<open>strings\<close> packages treat it: decoding one rune
  at the front of a byte string, and dropping the bytes that are not part of a
  well-formed rune (\<open>strings.ToValidUTF8\<close> with an empty replacement).
\<close>

section \<open>Decoding\<close>

definition byte_in :: "int \<Rightarrow> int \<Rightarrow> char \<Rightarrow> bool" where
  "byte_in lo hi c = (lo \<le> of_char c \<and> (of_char c :: int) \<le> hi)"

text \<open>The range of the second byte for a given first byte, and the rune's size.\<close>

definition lead_info :: "char \<Rightarrow> (nat \<times> int \<times> int) option" where
  "lead_info c = (let b = (of_char c :: int) in
     if 0xC2 \<le> b \<and> b \<le> 0xDF then Some (2, 0x80, 0xBF)
     else if b = 0xE0 then Some (3, 0xA0, 0xBF)
     else if b = 0xED then Some (3, 0x80, 0x9F)
     else if 0xE1 \<le> b \<and> b \<le> 0xEF then Some (3, 0x80, 0xBF)
     else if b = 0xF0 then Some (4, 0x90, 0xBF)
     else if b = 0xF4 then Some (4, 0x80, 0x8F)
     else if 0xF1 \<le> b \<and> b \<le> 0xF3 then Some (4, 0x80, 0xBF)
     else None)"

text \<open>
  The size in bytes of the well-formed rune in front of the string; 0 when the
  string is empty or its first byte starts none (\<open>RuneError\<close> of width 0 or 1).
\<close>

definition rune_size :: "string \<Rightarrow> nat" where
  "rune_size s = (case s of
       [] \<Rightarrow> 0
     | c # r \<Rightarrow>
         if (of_char c :: int) < 0x80 then 1
         else (case lead_info c of
             None \<Rightarrow> 0
           | Some (n, lo, hi) \<Rightarrow>
               if n \<le> Suc (length r) \<and> byte_in lo hi (hd r)
                  \<and> list_all (byte_in 0x80 0xBF) (take (n - 2) (tl r))
               then n else 0))"

text \<open>The code point of a well-formed rune given by its bytes.\<close>

definition rune_value :: "string \<Rightarrow> int" where
  "rune_value s = (case s of
       [] \<Rightarrow> 0
     | c # r \<Rightarrow>
         (let b = (of_char c :: int);
              lead = (if r = [] then b else if length r = 1 then b - 0xC0
                      else if length r = 2 then b - 0xE0 else b - 0xF0)
          in foldl (\<lambda>acc d. acc * 64 + (of_char d - 0x80)) lead r))"

lemma rune_size_le: "rune_size s \<le> length s"
  by (auto simp: rune_size_def split: list.splits option.splits if_splits)

function to_valid_utf8 :: "string \<Rightarrow> string" where
  "to_valid_utf8 [] = []"
| "to_valid_utf8 (c # s) =
     (let n = rune_size (c # s) in
      if n = 0 then to_valid_utf8 s
      else take n (c # s) @ to_valid_utf8 (drop n (c # s)))"
  by pat_completeness auto
termination by (relation "measure length") auto

lemma length_to_valid_utf8: "length (to_valid_utf8 s) \<le> length s"
proof (induction s rule: to_valid_utf8.induct)
  case (2 c s)
  show ?case
  proof (cases "rune_size (c # s) = 0")
    case True
    then show ?thesis using 2 by simp
  next
    case False
    have "length (to_valid_utf8 (c # s))
        = length (take (rune_size (c # s)) (c # s)) + length (to_valid_utf8 (drop (rune_size (c # s)) (c # s)))"
      using False by (simp only: to_valid_utf8.simps Let_def if_False length_append)
    also have "\<dots> \<le> length (take (rune_size (c # s)) (c # s)) + length (drop (rune_size (c # s)) (c # s))"
      using "2.IH"(2)[OF refl False] by (rule add_left_mono)
    also have "\<dots> = length (c # s)" by (simp only: length_append[symmetric] append_take_drop_id)
    finally show ?thesis .
  qed
qed simp

text \<open>Plain ASCII is kept as it is.\<close>

lemma to_valid_utf8_ascii:
  "list_all (\<lambda>c. (of_char c :: int) < 0x80) s \<Longrightarrow> to_valid_utf8 s = s"
  by (induction s) (auto simp: rune_size_def)

end
