(* ===== verification/Sandbox_Model.thy ===== *)
theory Sandbox_Model
  imports Core_Model Go_Netip Go_Utf8
begin

text \<open>
  The sandbox value types of \<open>internal/model\<close>: launch options, sandbox info,
  network policy, published ports, exec requests, attestations, capability
  requests and grants (\<open>sandbox.go\<close>), the host policy (\<open>sandbox_policy.go\<close>), audit
  events (\<open>sandbox_event.go\<close>), the durable registration
  (\<open>sandbox_registration.go\<close>), sync reports (\<open>sandbox_sync.go\<close>), egress records
  (\<open>egress.go\<close>) and artifact export requests (\<open>artifact_export.go\<close>). Where Go
  ranges over a map of fields the order in which it visits them is unspecified;
  the model visits them in the order the map literal lists them.
\<close>

section \<open>Vocabularies\<close>

abbreviation NetworkModeNone :: string where "NetworkModeNone \<equiv> ''none''"
abbreviation NetworkModeAllowlist :: string where "NetworkModeAllowlist \<equiv> ''allowlist''"
abbreviation NetworkModeOpen :: string where "NetworkModeOpen \<equiv> ''open''"

definition validBackends :: "string list" where
  "validBackends = [''kvm'', ''vzf'', ''hyperv'', ''libkrun'', ''container'']"

abbreviation StateCreated :: string where "StateCreated \<equiv> ''created''"
abbreviation StateRunning :: string where "StateRunning \<equiv> ''running''"
abbreviation StateSuspended :: string where "StateSuspended \<equiv> ''suspended''"
abbreviation StateLanded :: string where "StateLanded \<equiv> ''landed''"
abbreviation StateDestroyed :: string where "StateDestroyed \<equiv> ''destroyed''"
abbreviation StateDead :: string where "StateDead \<equiv> ''dead''"

definition validStates :: "string list" where
  "validStates = [StateCreated, StateRunning, StateSuspended, StateLanded, StateDestroyed, StateDead]"

definition ValidSandboxState :: "string \<Rightarrow> bool" where
  "ValidSandboxState s = (s \<in> set validStates)"

section \<open>Grammars\<close>

definition lower_alnum :: cclass where
  "lower_alnum = [(CHR ''a'', CHR ''z''), (CHR ''0'', CHR ''9'')]"

definition hex_cls :: cclass where
  "hex_cls = [(CHR ''a'', CHR ''f''), (CHR ''0'', CHR ''9'')]"

definition digit_cls :: cclass where
  "digit_cls = [(CHR ''0'', CHR ''9'')]"

definition imageNameComponentRe :: rexp where
  "imageNameComponentRe = RSeq (RPlus (RCls lower_alnum))
     (RStar (RSeq (RCls [(CHR ''.'', CHR ''.''), (CHR ''_'', CHR ''_''), (CHR ''-'', CHR ''-'')])
        (RPlus (RCls lower_alnum))))"

definition registryPortRe :: rexp where
  "registryPortRe = RPlus (RCls digit_cls)"

definition sha256HexRe :: rexp where
  "sha256HexRe = RRep (RCls hex_cls) 64 64"

definition sha1HexRe :: rexp where
  "sha1HexRe = RRep (RCls hex_cls) 40 40"

definition sha256DigestRe :: rexp where
  "sha256DigestRe = RSeq (rlit ''sha256:'') sha256HexRe"

definition allowlistEntryRe :: rexp where
  "allowlistEntryRe = RSeq (RCls (lower_alnum @ [(CHR ''*'', CHR ''*'')]))
     (RSeq (RRep (RCls (lower_alnum @ [(CHR ''.'', CHR ''.''), (CHR ''*'', CHR ''*''),
              (CHR '':'', CHR '':''), (CHR ''-'', CHR ''-'')])) 0 252)
        (ROpt (RSeq (RChr CHR ''/'') (RRep (RCls digit_cls) 1 3))))"

section \<open>Image references\<close>

abbreviation (input) maxImageRefLen :: nat where "maxImageRefLen \<equiv> 512"

text \<open>The check of one name component at position \<open>i\<close> of the loop.\<close>

definition image_component_err :: "nat \<Rightarrow> string \<Rightarrow> err option" where
  "image_component_err i component =
     (case cut CHR '':'' component of
        Some (host, port) \<Rightarrow>
          if i \<noteq> 0 \<or> \<not> matches registryPortRe port then Some (ValidationError ''image_ref'')
          else guard_err (\<not> matches imageNameComponentRe host) (ValidationError ''image_ref'')
      | None \<Rightarrow> guard_err (\<not> matches imageNameComponentRe component) (ValidationError ''image_ref''))"

definition ValidateImageRef :: "string \<Rightarrow> err option" where
  "ValidateImageRef ref =
     (if length ref > maxImageRefLen then Some (ValidationError ''image_ref'')
      else case cut CHR ''@'' ref of
        None \<Rightarrow> Some (ValidationError ''image_ref'')
      | Some (name, digest) \<Rightarrow>
          if \<not> matches sha256DigestRe digest then Some (ValidationError ''image_ref'')
          else first_err (\<lambda>(i, component). image_component_err i component)
                 (enumerate 0 (split_on CHR ''/'' name)))"

section \<open>Network policy\<close>

definition NetworkOpenRiskNote :: string where
  "NetworkOpenRiskNote = ''open network NATs to the host network; the T3 (exfiltration) and T9 (lateral-movement) defenses are disabled ''
     @ [CHR 0xE2, CHR 0x80, CHR 0x94] @ '' user-accepted risk, never a default''"

definition NetworkRiskNote :: "string \<Rightarrow> string \<times> bool" where
  "NetworkRiskNote mode = (if mode = NetworkModeOpen then (NetworkOpenRiskNote, True) else ([], False))"

record NetworkPolicy =
  np_Mode :: string
  np_Allowlist :: "string list"

definition NetworkPolicy_Validate :: "NetworkPolicy \<Rightarrow> err option" where
  "NetworkPolicy_Validate p =
     (if np_Mode p = NetworkModeNone \<or> np_Mode p = NetworkModeOpen then
        guard_err (np_Allowlist p \<noteq> []) (ValidationError ''allowlist'')
      else if np_Mode p = NetworkModeAllowlist then
        first_err (\<lambda>e. guard_err (\<not> matches allowlistEntryRe e) (ValidationError ''allowlist''))
          (np_Allowlist p)
      else Some (ValidationError ''mode''))"

text \<open>\<open>nestField\<close> on an error that may be nil.\<close>

definition nestField :: "string \<Rightarrow> err option \<Rightarrow> err option" where
  "nestField parent e =
     (case e of None \<Rightarrow> None
      | Some x \<Rightarrow> (case errors_as_validation x of
            Some f \<Rightarrow> Some (ValidationError (parent @ ''.'' @ f))
          | None \<Rightarrow> Some x))"

lemma nestField_None [simp]: "nestField p e = None \<longleftrightarrow> e = None"
  by (auto simp: nestField_def split: option.splits)

section \<open>Published ports\<close>

abbreviation (input) minUnprivilegedPort :: int where "minUnprivilegedPort \<equiv> 1024"

record PortPublish =
  HostPort :: int
  GuestPort :: int

definition PortPublish_Validate :: "PortPublish \<Rightarrow> err option" where
  "PortPublish_Validate p =
     (if HostPort p < minUnprivilegedPort \<or> HostPort p > 65535 then Some (ValidationError ''host_port'')
      else if GuestPort p < 1 \<or> GuestPort p > 65535 then Some (ValidationError ''guest_port'')
      else None)"

fun publish_ports_loop :: "int set \<Rightarrow> PortPublish list \<Rightarrow> err option" where
  "publish_ports_loop seen [] = None"
| "publish_ports_loop seen (pp # ps) =
     andthen (PortPublish_Validate pp)
       (if HostPort pp \<in> seen then Some (ValidationError ''host_port'')
        else publish_ports_loop (insert (HostPort pp) seen) ps)"

definition validatePublishPorts :: "PortPublish list \<Rightarrow> err option" where
  "validatePublishPorts ports = publish_ports_loop {} ports"

lemma publish_ports_loop_None:
  "publish_ports_loop seen ps = None \<longleftrightarrow>
     (\<forall>p \<in> set ps. PortPublish_Validate p = None) \<and> distinct (map HostPort ps)
     \<and> seen \<inter> HostPort ` set ps = {}"
  by (induction seen ps rule: publish_ports_loop.induct) auto

lemma validatePublishPorts_None [validate_simps]:
  "validatePublishPorts ps = None \<longleftrightarrow>
     (\<forall>p \<in> set ps. 1024 \<le> HostPort p \<and> HostPort p \<le> 65535 \<and> 1 \<le> GuestPort p \<and> GuestPort p \<le> 65535)
     \<and> distinct (map HostPort ps)"
  by (auto simp: validatePublishPorts_def publish_ports_loop_None PortPublish_Validate_def not_less)

section \<open>Launch options and sandbox info\<close>

record SandboxLaunchOptions =
  lo_SandboxID :: string
  lo_TaskID :: string
  lo_WorktreePath :: string
  lo_ImageRef :: string
  lo_Network :: NetworkPolicy
  lo_CPUs :: int
  lo_MemoryMB :: int
  lo_DiskQuotaMB :: int
  lo_TTL :: int
  lo_ConfineAgent :: bool
  lo_PublishPorts :: "PortPublish list"
  lo_NoGuestRepo :: bool

text \<open>The range over a map literal of signed quantities that must not be negative.\<close>

definition nonneg_fields :: "(string \<times> int) list \<Rightarrow> err option" where
  "nonneg_fields fs = first_err (\<lambda>(f, v). guard_err (v < 0) (ValidationError f)) fs"

definition SandboxLaunchOptions_Validate :: "SandboxLaunchOptions \<Rightarrow> err option" where
  "SandboxLaunchOptions_Validate o' =
     andthen (validateTaskIDField (lo_TaskID o'))
     (andthen (guard_err (lo_WorktreePath o' = []) (ValidationError ''worktree_path''))
     (andthen (ValidateImageRef (lo_ImageRef o'))
     (andthen (nestField ''network'' (NetworkPolicy_Validate (lo_Network o')))
     (andthen (nestField ''publish_ports'' (validatePublishPorts (lo_PublishPorts o')))
     (nonneg_fields [(''cpus'', lo_CPUs o'), (''memory_mb'', lo_MemoryMB o'),
        (''disk_quota_mb'', lo_DiskQuotaMB o'), (''ttl_ns'', lo_TTL o')])))))"

record BootFailure =
  bf_At :: time
  bf_Cause :: string

record SandboxInfo =
  si_ID :: string
  si_TaskID :: string
  si_WorktreePath :: string
  si_Backend :: string
  si_ImageDigest :: string
  si_NetworkMode :: string
  si_NetworkAllowlist :: "string list"
  si_State :: string
  si_MemoryMB :: int
  si_CPUs :: int
  si_DiskQuotaMB :: int
  si_CreatedAt :: time
  si_ExpiresAt :: time
  si_PublishPorts :: "PortPublish list"
  si_LastBootFailure :: "BootFailure option"

definition SandboxInfo_Validate :: "SandboxInfo \<Rightarrow> err option" where
  "SandboxInfo_Validate s =
     andthen (guard_err (si_ID s = []) (ValidationError ''id''))
     (andthen (validateTaskIDField (si_TaskID s))
     (andthen (guard_err (si_WorktreePath s = []) (ValidationError ''worktree_path''))
     (andthen (guard_err (si_Backend s \<notin> set validBackends) (ValidationError ''backend''))
     (andthen (guard_err (\<not> matches sha256DigestRe (si_ImageDigest s)) (ValidationError ''image_digest''))
     (andthen (guard_err (si_State s \<noteq> [] \<and> si_State s \<notin> set validStates) (ValidationError ''state''))
     (andthen (nestField ''publish_ports'' (validatePublishPorts (si_PublishPorts s)))
     (nestField ''network'' (NetworkPolicy_Validate
        \<lparr>np_Mode = si_NetworkMode s, np_Allowlist = si_NetworkAllowlist s\<rparr>))))))))"

section \<open>Exec requests\<close>

record ExecRequest =
  er_Command :: "string list"
  er_Dir :: string
  er_Env :: "string list"
  er_Timeout :: int
  er_RunAs :: "GuestIdentity option"
  er_AsRoot :: bool

definition ExecRequest_Validate :: "ExecRequest \<Rightarrow> err option" where
  "ExecRequest_Validate r =
     andthen (guard_err (er_Command r = []) (ValidationError ''command''))
     (andthen (guard_err (er_Timeout r < 0) (ValidationError ''timeout_ns''))
     (case er_RunAs r of
        None \<Rightarrow> None
      | Some g \<Rightarrow>
          andthen (nestField ''run_as'' (GuestIdentity_Validate g))
            (guard_err (er_AsRoot r \<and> \<not> IsRoot g) (ValidationError ''run_as''))))"

section \<open>Attestations\<close>

abbreviation AlgEd25519 :: string where "AlgEd25519 \<equiv> ''ed25519''"
abbreviation (input) AttestPayloadOriginal :: int where "AttestPayloadOriginal \<equiv> 1"
abbreviation (input) AttestPayloadWithBase :: int where "AttestPayloadWithBase \<equiv> 2"

record Attestation =
  at_SandboxID :: string
  at_BaseDigest :: string
  at_PayloadVersion :: int
  at_CommitHash :: string
  at_ContentHash :: string
  at_Alg :: string
  at_KeyID :: string
  at_HostSignature :: "byte list"
  at_IssuedAt :: time

record AttestationSubject =
  as_SandboxID :: string
  as_CommitHash :: string
  as_ContentHash :: string
  as_BaseDigest :: string

definition validatePayloadLayout :: "Attestation \<Rightarrow> err option" where
  "validatePayloadLayout a =
     (if at_PayloadVersion a = 0 \<or> at_PayloadVersion a = AttestPayloadOriginal
      then guard_err (at_BaseDigest a \<noteq> []) (ValidationError ''base_digest'')
      else if at_PayloadVersion a = AttestPayloadWithBase then None
      else Some (ValidationError ''payload_version''))"

definition Attestation_Validate :: "Attestation \<Rightarrow> err option" where
  "Attestation_Validate a =
     andthen (guard_err (at_SandboxID a = []) (ValidationError ''sandbox_id''))
     (andthen (guard_err (\<not> matches sha1HexRe (at_CommitHash a)) (ValidationError ''commit_hash''))
     (andthen (guard_err (\<not> matches sha256HexRe (at_ContentHash a)) (ValidationError ''content_hash''))
     (andthen (guard_err (at_Alg a = [] \<or> at_KeyID a = []) (ValidationError ''alg''))
     (andthen (guard_err (at_HostSignature a = []) (ValidationError ''host_signature''))
     (andthen (validatePayloadLayout a)
       (guard_err (at_IssuedAt a = zero_time) (ValidationError ''issued_at'')))))))"

section \<open>Capabilities\<close>

abbreviation CapabilityEgress :: string where "CapabilityEgress \<equiv> ''egress''"
abbreviation CapabilitySSHAgent :: string where "CapabilitySSHAgent \<equiv> ''ssh_agent''"
abbreviation CapabilityOpenNetwork :: string where "CapabilityOpenNetwork \<equiv> ''open_network''"
abbreviation CapabilityMount :: string where "CapabilityMount \<equiv> ''mount''"

record CapabilityRequest =
  cr_SandboxID :: string
  cr_TaskID :: string
  cr_Capability :: string
  cr_ObservedDestIP :: string
  cr_ObservedDestPort :: int

definition CapabilityRequest_Validate :: "CapabilityRequest \<Rightarrow> err option" where
  "CapabilityRequest_Validate c =
     andthen (guard_err (cr_SandboxID c = []) (ValidationError ''sandbox_id''))
     (andthen (validateTaskIDField (cr_TaskID c))
     (if cr_Capability c = CapabilityEgress then
        andthen (guard_err (ParseAddr (cr_ObservedDestIP c) = None) (ValidationError ''observed_dest_ip''))
          (guard_err (cr_ObservedDestPort c < 1 \<or> cr_ObservedDestPort c > 65535)
             (ValidationError ''observed_dest_port''))
      else if cr_Capability c = CapabilitySSHAgent \<or> cr_Capability c = CapabilityOpenNetwork
          \<or> cr_Capability c = CapabilityMount then None
      else Some (ValidationError ''capability'')))"

record ObservedDenial =
  od_SandboxID :: string
  od_TaskID :: string
  od_DestIP :: addr
  od_DestPort :: int
  od_Rule :: string

definition RequestFromObservedDenial :: "ObservedDenial \<Rightarrow> CapabilityRequest result" where
  "RequestFromObservedDenial d =
     (let req = \<lparr>cr_SandboxID = od_SandboxID d, cr_TaskID = od_TaskID d,
          cr_Capability = CapabilityEgress, cr_ObservedDestIP = addr_String (od_DestIP d),
          cr_ObservedDestPort = od_DestPort d\<rparr>
      in case CapabilityRequest_Validate req of
           Some e \<Rightarrow> Inl (Wrap ''capability request from observed denial'' e)
         | None \<Rightarrow> Inr req)"

abbreviation GrantScopeSandboxLifetime :: string where "GrantScopeSandboxLifetime \<equiv> ''sandbox_lifetime''"

record CapabilityGrant =
  cg_SandboxID :: string
  cg_TaskID :: string
  cg_Capability :: string
  cg_ObservedDestIP :: string
  cg_ObservedDestPort :: int
  cg_Scope :: string
  cg_GrantedAt :: time

definition AllowlistEntry :: "CapabilityGrant \<Rightarrow> string" where
  "AllowlistEntry g = cg_ObservedDestIP g @ '':'' @ show_int (cg_ObservedDestPort g)"

definition CapabilityGrant_Key :: "CapabilityGrant \<Rightarrow> string" where
  "CapabilityGrant_Key g =
     (if cg_Capability g = CapabilityEgress
      then cg_ObservedDestIP g @ '':'' @ show_int (cg_ObservedDestPort g) else cg_Capability g)"

definition CapabilityRequest_Key :: "CapabilityRequest \<Rightarrow> string" where
  "CapabilityRequest_Key c =
     (if cr_Capability c = CapabilityEgress
      then cr_ObservedDestIP c @ '':'' @ show_int (cr_ObservedDestPort c) else cr_Capability c)"

section \<open>Facts about the grammars\<close>

lemma sha256HexRe_iff:
  "matches sha256HexRe s \<longleftrightarrow> length s = 64 \<and> (\<forall>c \<in> set s. in_class hex_cls c)"
  unfolding matches_iff_lang sha256HexRe_def lang_rep_cls by auto

lemma sha1HexRe_iff:
  "matches sha1HexRe s \<longleftrightarrow> length s = 40 \<and> (\<forall>c \<in> set s. in_class hex_cls c)"
  unfolding matches_iff_lang sha1HexRe_def lang_rep_cls by auto

lemma sha256DigestRe_iff:
  "matches sha256DigestRe s \<longleftrightarrow>
     (\<exists>h. s = ''sha256:'' @ h \<and> length h = 64 \<and> (\<forall>c \<in> set h. in_class hex_cls c))"
  unfolding sha256HexRe_iff[symmetric] matches_iff_lang sha256DigestRe_def lang_lit_seq ..

lemma component_chars:
  "matches imageNameComponentRe w \<Longrightarrow> w \<noteq> [] \<and> (\<forall>c \<in> set w. alphabet imageNameComponentRe c)"
  using matches_alphabet[of imageNameComponentRe w]
  by (cases w) (auto simp: imageNameComponentRe_def)

lemma image_component_ok:
  assumes "image_component_err i w = None"
  shows "w \<noteq> []"
    "\<forall>c \<in> set w. alphabet imageNameComponentRe c \<or> c = CHR '':''"
    "CHR '':'' \<in> set w \<Longrightarrow> i = 0"
proof -
  show "w \<noteq> []"
    using assms component_chars[of w]
    by (auto simp: image_component_err_def split: option.splits if_splits)
  show "CHR '':'' \<in> set w \<Longrightarrow> i = 0"
    using assms by (auto simp: image_component_err_def cut_None split: option.splits if_splits)
  have "alphabet registryPortRe c \<Longrightarrow> alphabet imageNameComponentRe c" for c
    by (auto simp: registryPortRe_def imageNameComponentRe_def digit_cls_def lower_alnum_def in_class_def)
  then show "\<forall>c \<in> set w. alphabet imageNameComponentRe c \<or> c = CHR '':''"
    using assms matches_alphabet[of registryPortRe] matches_alphabet[of imageNameComponentRe]
    by (auto simp: image_component_err_def cut_Some split: option.splits if_splits)
qed

section \<open>Properties\<close>

text \<open>
  An accepted image reference is pinned by digest and carries nothing that
  could name another image: it is \<open>name@sha256:hex\<close> with exactly 64 lowercase hex
  digits, within 512 bytes, and the name is a slash-separated list of non-empty
  components over lowercase letters, digits and the characters \<open>. _ -\<close>, of which
  only the first may carry a colon (a registry port).
\<close>

theorem image_ref_pinned:
  assumes "ValidateImageRef ref = None"
  shows "\<exists>name hex. ref = name @ ''@sha256:'' @ hex \<and> CHR ''@'' \<notin> set name
    \<and> length hex = 64 \<and> (\<forall>c \<in> set hex. in_class hex_cls c) \<and> length ref \<le> 512
    \<and> (\<forall>w \<in> set (split_on CHR ''/'' name). w \<noteq> []
         \<and> (\<forall>c \<in> set w. in_class lower_alnum c \<or> c \<in> {CHR ''.'', CHR ''_'', CHR ''-'', CHR '':''}))
    \<and> (\<forall>w \<in> set (tl (split_on CHR ''/'' name)). CHR '':'' \<notin> set w)"
proof -
  from assms obtain name digest where ref: "cut CHR ''@'' ref = Some (name, digest)"
    and dig: "matches sha256DigestRe digest" and len: "length ref \<le> 512"
    and comps: "\<forall>(i, w) \<in> set (enumerate 0 (split_on CHR ''/'' name)). image_component_err i w = None"
    by (auto simp: ValidateImageRef_def split: option.splits if_splits prod.splits)
  let ?ws = "split_on CHR ''/'' name"
  from dig obtain hex where hex: "digest = ''sha256:'' @ hex" "length hex = 64"
    "\<forall>c \<in> set hex. in_class hex_cls c" by (auto simp: sha256DigestRe_iff)
  have at: "n < length ?ws \<Longrightarrow> image_component_err n (?ws ! n) = None" for n
    using comps by (auto simp: in_set_enumerate_eq)
  have "\<forall>w \<in> set ?ws. w \<noteq> []
      \<and> (\<forall>c \<in> set w. in_class lower_alnum c \<or> c \<in> {CHR ''.'', CHR ''_'', CHR ''-'', CHR '':''})"
  proof
    fix w assume "w \<in> set ?ws"
    then obtain n where n: "n < length ?ws" "w = ?ws ! n" by (auto simp: in_set_conv_nth)
    show "w \<noteq> [] \<and> (\<forall>c \<in> set w. in_class lower_alnum c
        \<or> c \<in> {CHR ''.'', CHR ''_'', CHR ''-'', CHR '':''})"
      using image_component_ok(1,2)[OF at[OF n(1)]] n(2)
      by (fastforce simp: imageNameComponentRe_def in_class_def)
  qed
  moreover have "\<forall>w \<in> set (tl ?ws). CHR '':'' \<notin> set w"
  proof
    fix w assume "w \<in> set (tl ?ws)"
    then obtain n where n: "n < length (tl ?ws)" "w = tl ?ws ! n" by (auto simp: in_set_conv_nth)
    then have "Suc n < length ?ws" "w = ?ws ! Suc n" by (auto simp: nth_tl)
    then show "CHR '':'' \<notin> set w" using image_component_ok(3)[OF at] by fastforce
  qed
  ultimately show ?thesis using ref hex len by (auto simp: cut_Some)
qed

definition demo_digest :: string where
  "demo_digest = ''sha256:'' @ concat (replicate 8 ''0123abcd'')"

definition demo_image :: string where
  "demo_image = ''ghcr.io:443/hyper-swe/base@'' @ demo_digest"

theorem image_ref_pinned_witness:
  "ValidateImageRef demo_image = None \<and> (\<exists>name hex. demo_image = name @ ''@sha256:'' @ hex \<and> length hex = 64)"
proof -
  have v: "ValidateImageRef demo_image = None" by code_simp
  show ?thesis using image_ref_pinned[OF v] v by blast
qed

text \<open>
  A capability key names one capability: two requests that pass validation
  have the same key exactly when they ask for the same capability and, for egress,
  for the same observed address text and port, so an operator's approval by key
  cannot hit another request of the sandbox.
\<close>

theorem capability_key_unique:
  assumes "CapabilityRequest_Validate c = None" "CapabilityRequest_Validate d = None"
  shows "CapabilityRequest_Key c = CapabilityRequest_Key d \<longleftrightarrow>
    cr_Capability c = cr_Capability d \<and>
    (cr_Capability c = CapabilityEgress \<longrightarrow>
       cr_ObservedDestIP c = cr_ObservedDestIP d \<and> cr_ObservedDestPort c = cr_ObservedDestPort d)"
proof -
  have port: "cr_Capability x = CapabilityEgress \<Longrightarrow> 1 \<le> cr_ObservedDestPort x"
    if "CapabilityRequest_Validate x = None" for x
    using that by (auto simp: CapabilityRequest_Validate_def)
  have caps: "cr_Capability x \<noteq> CapabilityEgress \<Longrightarrow>
      cr_Capability x \<in> {CapabilitySSHAgent, CapabilityOpenNetwork, CapabilityMount}"
    if "CapabilityRequest_Validate x = None" for x
    using that by (auto simp: CapabilityRequest_Validate_def split: if_splits)
  have nocolon: "0 \<le> n \<Longrightarrow> CHR '':'' \<notin> set (show_int n)" for n
    using show_dec_digits[of n "CHR '':''"] by (auto simp: show_int_def is_digit_def)
  have last_colon: "a = b \<and> m = n"
    if "a @ '':'' @ show_int m = b @ '':'' @ show_int n" "0 \<le> m" "0 \<le> n" for a b m n
  proof -
    have "rev (show_int m) @ CHR '':'' # rev a = rev (show_int n) @ CHR '':'' # rev b"
      using arg_cong[OF that(1), of rev] by simp
    then have "cut CHR '':'' (rev (show_int m) @ CHR '':'' # rev a)
        = cut CHR '':'' (rev (show_int n) @ CHR '':'' # rev b)" by simp
    then have "show_int m = show_int n \<and> a = b" using nocolon that(2,3) by (simp add: cut_append)
    then show ?thesis using that(2,3) show_dec_inj by (auto simp: show_int_def)
  qed
  have egress_caps: "a @ '':'' @ s \<notin> {CapabilitySSHAgent, CapabilityOpenNetwork, CapabilityMount}" for a s
  proof
    assume "a @ '':'' @ s \<in> {CapabilitySSHAgent, CapabilityOpenNetwork, CapabilityMount}"
    moreover have "\<forall>t \<in> {CapabilitySSHAgent, CapabilityOpenNetwork, CapabilityMount}. CHR '':'' \<notin> set t"
      by simp
    ultimately have "CHR '':'' \<notin> set (a @ '':'' @ s)" by blast
    then show False by simp
  qed
  show ?thesis
    using port[OF assms(1)] port[OF assms(2)] caps[OF assms(1)] caps[OF assms(2)]
      egress_caps[of "cr_ObservedDestIP c" "show_int (cr_ObservedDestPort c)"]
      egress_caps[of "cr_ObservedDestIP d" "show_int (cr_ObservedDestPort d)"]
      last_colon[of "cr_ObservedDestIP c" "cr_ObservedDestPort c" "cr_ObservedDestIP d" "cr_ObservedDestPort d"]
    unfolding CapabilityRequest_Key_def
    by (cases "cr_Capability c = CapabilityEgress"; cases "cr_Capability d = CapabilityEgress") auto
qed

definition demo_request :: "string \<Rightarrow> int \<Rightarrow> CapabilityRequest" where
  "demo_request ip port = \<lparr>cr_SandboxID = ''sb1'', cr_TaskID = ''MGIT-1'',
     cr_Capability = CapabilityEgress, cr_ObservedDestIP = ip, cr_ObservedDestPort = port\<rparr>"

theorem capability_key_unique_witness:
  "CapabilityRequest_Validate (demo_request ''2001:db8::1'' 443) = None
   \<and> CapabilityRequest_Validate (demo_request ''2001:db8::'' 1443) = None
   \<and> CapabilityRequest_Key (demo_request ''2001:db8::1'' 443)
      \<noteq> CapabilityRequest_Key (demo_request ''2001:db8::'' 1443)"
proof -
  have v: "CapabilityRequest_Validate (demo_request ''2001:db8::1'' 443) = None"
    "CapabilityRequest_Validate (demo_request ''2001:db8::'' 1443) = None" by code_simp+
  show ?thesis using capability_key_unique[OF v] v by (simp add: demo_request_def)
qed

text \<open>
  The request an observed denial yields carries the host's own observation and
  nothing else; an observation that is not an address or not a port yields an error.
\<close>

lemma observed_denial_request:
  "RequestFromObservedDenial d = Inr r \<Longrightarrow>
     cr_SandboxID r = od_SandboxID d \<and> cr_TaskID r = od_TaskID d \<and> cr_Capability r = CapabilityEgress
     \<and> cr_ObservedDestIP r = addr_String (od_DestIP d) \<and> cr_ObservedDestPort r = od_DestPort d
     \<and> CapabilityRequest_Validate r = None"
  by (auto simp: RequestFromObservedDenial_def Let_def split: option.splits)

lemma observed_denial_v4:
  "od_DestIP d = V4 w \<Longrightarrow> od_SandboxID d \<noteq> [] \<Longrightarrow> validateTaskIDField (od_TaskID d) = None \<Longrightarrow>
     1 \<le> od_DestPort d \<Longrightarrow> od_DestPort d \<le> 65535 \<Longrightarrow> \<exists>r. RequestFromObservedDenial d = Inr r"
  by (simp add: RequestFromObservedDenial_def Let_def CapabilityRequest_Validate_def)

end
