(* ===== verification/Sandbox_Records.thy ===== *)
theory Sandbox_Records
  imports Sandbox_Model
begin

text \<open>
  The records of \<open>internal/model\<close> that the sandbox services write down: the host
  policy and its resource bounds (\<open>sandbox_policy.go\<close>), audit events and the
  lifecycle state each one means (\<open>sandbox_event.go\<close>), the durable registration
  (\<open>sandbox_registration.go\<close>), worktree sync reports (\<open>sandbox_sync.go\<close>), egress
  decisions (\<open>egress.go\<close>), artifact export requests (\<open>artifact_export.go\<close>) and the
  small reports of \<open>confine_agent.go\<close>, \<open>guest_death.go\<close> and \<open>vmm_report.go\<close>.
\<close>

section \<open>Host policy\<close>

record SandboxPolicy =
  sp_RequireSandbox :: bool
  sp_Network :: NetworkPolicy
  sp_ImageLockRef :: string
  sp_SensitivePaths :: "string list"
  sp_CPUs :: int
  sp_MemoryMB :: int
  sp_DiskQuotaMB :: int
  sp_TTL :: int
  sp_MaxCPUs :: int
  sp_MaxMemoryMB :: int
  sp_MaxDiskQuotaMB :: int
  sp_MaxConcurrentSandboxes :: int
  sp_MaxTotalMemoryPercent :: int
  sp_ConfineAgent :: bool

definition DefaultSandboxPolicy :: SandboxPolicy where
  "DefaultSandboxPolicy =
     \<lparr>sp_RequireSandbox = True,
      sp_Network = \<lparr>np_Mode = NetworkModeAllowlist, np_Allowlist = []\<rparr>,
      sp_ImageLockRef = [],
      sp_SensitivePaths = [''.claude/'', ''.envrc'', ''.git/hooks/'', ''.vscode/'',
        ''.cursor/'', ''AGENTS.md'', ''CLAUDE.md''],
      sp_CPUs = 2, sp_MemoryMB = 2048, sp_DiskQuotaMB = 4096, sp_TTL = 4 * Hour,
      sp_MaxCPUs = 8, sp_MaxMemoryMB = 16384, sp_MaxDiskQuotaMB = 65536,
      sp_MaxConcurrentSandboxes = 8, sp_MaxTotalMemoryPercent = 50,
      sp_ConfineAgent = False\<rparr>"

text \<open>One bounded resource; the flag and unit, which only fill messages, are left out.\<close>

record resourceDimension =
  rd_field :: string
  rd_maxField :: string
  rd_requested :: int
  rd_limit :: int
  rd_def :: int

definition dimensions :: "SandboxPolicy \<Rightarrow> SandboxLaunchOptions \<Rightarrow> resourceDimension list" where
  "dimensions p o' =
     [\<lparr>rd_field = ''cpus'', rd_maxField = ''max_cpus'',
        rd_requested = lo_CPUs o', rd_limit = sp_MaxCPUs p, rd_def = sp_CPUs p\<rparr>,
      \<lparr>rd_field = ''memory_mb'', rd_maxField = ''max_memory_mb'',
        rd_requested = lo_MemoryMB o', rd_limit = sp_MaxMemoryMB p, rd_def = sp_MemoryMB p\<rparr>,
      \<lparr>rd_field = ''disk_quota_mb'', rd_maxField = ''max_disk_quota_mb'',
        rd_requested = lo_DiskQuotaMB o', rd_limit = sp_MaxDiskQuotaMB p, rd_def = sp_DiskQuotaMB p\<rparr>]"

definition zero_launch_options :: SandboxLaunchOptions where
  "zero_launch_options = \<lparr>lo_SandboxID = [], lo_TaskID = [], lo_WorktreePath = [], lo_ImageRef = [],
     lo_Network = \<lparr>np_Mode = [], np_Allowlist = []\<rparr>, lo_CPUs = 0, lo_MemoryMB = 0,
     lo_DiskQuotaMB = 0, lo_TTL = 0, lo_ConfineAgent = False, lo_PublishPorts = [],
     lo_NoGuestRepo = False\<rparr>"

definition validateResourceMaxima :: "SandboxPolicy \<Rightarrow> err option" where
  "validateResourceMaxima p =
     first_err (\<lambda>d. if rd_limit d < 0 then Some (ValidationError (rd_maxField d))
         else guard_err (rd_limit d > 0 \<and> rd_def d > rd_limit d) (ValidationError (rd_maxField d)))
       (dimensions p zero_launch_options)"

definition SandboxPolicy_Validate :: "SandboxPolicy \<Rightarrow> err option" where
  "SandboxPolicy_Validate p =
     andthen (nestField ''network'' (NetworkPolicy_Validate (sp_Network p)))
     (andthen (guard_err (sp_SensitivePaths p = []) (ValidationError ''sensitive_paths''))
     (andthen (first_err (\<lambda>path. guard_err (path = []) (ValidationError ''sensitive_paths''))
                 (sp_SensitivePaths p))
     (andthen (guard_err (sp_MaxTotalMemoryPercent p < 0 \<or> sp_MaxTotalMemoryPercent p > 100)
                 (ValidationError ''max_total_memory_percent''))
     (andthen (guard_err (sp_MaxConcurrentSandboxes p < 0) (ValidationError ''max_concurrent_sandboxes''))
     (andthen (nonneg_fields [(''cpus'', sp_CPUs p), (''memory_mb'', sp_MemoryMB p),
                 (''disk_quota_mb'', sp_DiskQuotaMB p), (''ttl_ns'', sp_TTL p)])
       (validateResourceMaxima p))))))"

definition EnforceResourceLimits :: "SandboxPolicy \<Rightarrow> SandboxLaunchOptions \<Rightarrow> err option" where
  "EnforceResourceLimits p o' =
     first_err (\<lambda>d. guard_err (\<not> (rd_limit d \<le> 0 \<or> rd_requested d \<le> rd_limit d))
         (Wrap (rd_field d) (Sentinel ErrSandboxResourceLimitExceeded)))
       (dimensions p o')"

section \<open>Audit events\<close>

abbreviation EventCreated :: string where "EventCreated \<equiv> ''created''"
abbreviation EventSuspended :: string where "EventSuspended \<equiv> ''suspended''"
abbreviation EventResumed :: string where "EventResumed \<equiv> ''resumed''"
abbreviation EventPolicyGranted :: string where "EventPolicyGranted \<equiv> ''policy_granted''"
abbreviation EventPolicyChanged :: string where "EventPolicyChanged \<equiv> ''policy_changed''"
abbreviation EventCredentialsInjected :: string where "EventCredentialsInjected \<equiv> ''credentials_injected''"
abbreviation EventArtifactExported :: string where "EventArtifactExported \<equiv> ''artifact_exported''"
abbreviation EventLanded :: string where "EventLanded \<equiv> ''landed''"
abbreviation EventDestroyed :: string where "EventDestroyed \<equiv> ''destroyed''"
abbreviation EventTTLExpired :: string where "EventTTLExpired \<equiv> ''ttl_expired''"
abbreviation EventKilled :: string where "EventKilled \<equiv> ''killed''"
abbreviation EventGuestDied :: string where "EventGuestDied \<equiv> ''guest_died''"
abbreviation EventExecPrivileged :: string where "EventExecPrivileged \<equiv> ''exec_privileged''"

definition nonStateEventTypes :: "string list" where
  "nonStateEventTypes = [EventPolicyGranted, EventCredentialsInjected, EventPolicyChanged,
     EventArtifactExported, EventExecPrivileged]"

definition eventStates :: "(string \<times> string) list" where
  "eventStates = [(EventCreated, StateCreated), (EventSuspended, StateSuspended),
     (EventResumed, StateRunning), (EventLanded, StateLanded), (EventDestroyed, StateDestroyed),
     (EventTTLExpired, StateDestroyed), (EventKilled, StateDestroyed), (EventGuestDied, StateDead)]"

definition StateForEvent :: "string \<Rightarrow> string option" where
  "StateForEvent eventType = map_of eventStates eventType"

definition isValidEventType :: "string \<Rightarrow> bool" where
  "isValidEventType eventType =
     (map_of eventStates eventType \<noteq> None \<or> eventType \<in> set nonStateEventTypes)"

record SandboxEvent =
  ev_ID :: string
  ev_SandboxID :: string
  ev_TaskID :: string
  ev_EventType :: string
  ev_Backend :: string
  ev_ImageDigest :: string
  ev_NetworkMode :: string
  ev_Detail :: string
  ev_CreatedAt :: time

definition SandboxEvent_Validate :: "SandboxEvent \<Rightarrow> err option" where
  "SandboxEvent_Validate e =
     andthen (guard_err (ev_SandboxID e = []) (ValidationError ''sandbox_id''))
     (andthen (validateTaskIDField (ev_TaskID e))
     (andthen (guard_err (\<not> isValidEventType (ev_EventType e)) (ValidationError ''event_type''))
     (andthen (guard_err (ev_Backend e \<noteq> [] \<and> ev_Backend e \<notin> set validBackends) (ValidationError ''backend''))
     (andthen (guard_err (ev_ImageDigest e \<noteq> [] \<and> \<not> matches sha256DigestRe (ev_ImageDigest e))
                 (ValidationError ''image_digest''))
     (if ev_NetworkMode e \<noteq> []
      then nestField ''network'' (NetworkPolicy_Validate \<lparr>np_Mode = ev_NetworkMode e, np_Allowlist = []\<rparr>)
      else None)))))"

section \<open>Durable registrations\<close>

record SandboxRegistration =
  reg_Info :: SandboxInfo
  reg_ImageRef :: string
  reg_TTL :: int
  reg_ConfineAgent :: bool

definition LaunchOptions :: "SandboxRegistration \<Rightarrow> SandboxLaunchOptions" where
  "LaunchOptions r =
     zero_launch_options\<lparr>lo_SandboxID := si_ID (reg_Info r),
       lo_TaskID := si_TaskID (reg_Info r),
       lo_WorktreePath := si_WorktreePath (reg_Info r),
       lo_ImageRef := reg_ImageRef r,
       lo_Network := \<lparr>np_Mode = si_NetworkMode (reg_Info r), np_Allowlist = si_NetworkAllowlist (reg_Info r)\<rparr>,
       lo_CPUs := si_CPUs (reg_Info r),
       lo_MemoryMB := si_MemoryMB (reg_Info r),
       lo_DiskQuotaMB := si_DiskQuotaMB (reg_Info r),
       lo_TTL := reg_TTL r,
       lo_ConfineAgent := reg_ConfineAgent r,
       lo_PublishPorts := si_PublishPorts (reg_Info r)\<rparr>"

definition SandboxRegistration_Validate :: "SandboxRegistration \<Rightarrow> err option" where
  "SandboxRegistration_Validate r =
     andthen (guard_err (si_ID (reg_Info r) = []) (ValidationError ''id''))
     (andthen (validateTaskIDField (si_TaskID (reg_Info r)))
     (andthen (guard_err (si_WorktreePath (reg_Info r) = []) (ValidationError ''worktree_path''))
     (andthen (ValidateImageRef (reg_ImageRef r))
     (andthen (guard_err (si_Backend (reg_Info r) \<noteq> [] \<and> si_Backend (reg_Info r) \<notin> set validBackends)
                 (ValidationError ''backend''))
     (andthen (guard_err (\<not> ValidSandboxState (si_State (reg_Info r))) (ValidationError ''state''))
     (andthen (guard_err (reg_TTL r < 0) (ValidationError ''ttl_ns''))
     (andthen (nestField ''publish_ports'' (validatePublishPorts (si_PublishPorts (reg_Info r))))
     (nestField ''network'' (NetworkPolicy_Validate
        \<lparr>np_Mode = si_NetworkMode (reg_Info r), np_Allowlist = si_NetworkAllowlist (reg_Info r)\<rparr>)))))))))"

section \<open>Worktree sync reports\<close>

record WorktreeSyncConflict =
  wc_Path :: string
  wc_Reason :: string

record WorktreeSyncReport =
  sr_Updated :: "string list"
  sr_Deleted :: "string list"
  sr_Overridden :: "string list"
  sr_Conflicts :: "WorktreeSyncConflict list"
  sr_Skipped :: bool
  sr_DryRun :: bool
  sr_Refused :: bool
  sr_Detail :: string
  sr_Truncated :: bool
  sr_UpdatedTotal :: int
  sr_DeletedTotal :: int
  sr_OverriddenTotal :: int
  sr_ConflictsTotal :: int

abbreviation (input) SyncReportPathLimit :: int where "SyncReportPathLimit \<equiv> 500"

definition capPaths :: "'a list \<Rightarrow> int \<Rightarrow> bool \<Rightarrow> 'a list \<times> bool" where
  "capPaths xs limit already =
     (if int (length xs) \<le> limit then (xs, already) else (take (nat limit) xs, True))"

definition Bound :: "WorktreeSyncReport \<Rightarrow> int \<Rightarrow> WorktreeSyncReport" where
  "Bound r limit =
     (let out = r\<lparr>sr_UpdatedTotal := max (sr_UpdatedTotal r) (int (length (sr_Updated r))),
                  sr_DeletedTotal := max (sr_DeletedTotal r) (int (length (sr_Deleted r))),
                  sr_OverriddenTotal := max (sr_OverriddenTotal r) (int (length (sr_Overridden r))),
                  sr_ConflictsTotal := max (sr_ConflictsTotal r) (int (length (sr_Conflicts r)))\<rparr>
      in if limit \<le> 0 then out
         else (let (u, t1) = capPaths (sr_Updated r) limit (sr_Truncated out);
                   (d, t2) = capPaths (sr_Deleted r) limit t1;
                   (v, t3) = capPaths (sr_Overridden r) limit t2;
                   (c, t4) = (if int (length (sr_Conflicts r)) > limit
                              then (take (nat limit) (sr_Conflicts r), True)
                              else (sr_Conflicts r, t3))
               in out\<lparr>sr_Updated := u, sr_Deleted := d, sr_Overridden := v,
                      sr_Conflicts := c, sr_Truncated := t4\<rparr>))"

definition Changed :: "WorktreeSyncReport \<Rightarrow> bool" where
  "Changed r = (length (sr_Updated r) > 0 \<or> length (sr_Deleted r) > 0)"

section \<open>Egress records\<close>

abbreviation EgressAllow :: string where "EgressAllow \<equiv> ''allow''"
abbreviation EgressDeny :: string where "EgressDeny \<equiv> ''deny''"
abbreviation (input) MaxEgressDestHostLen :: nat where "MaxEgressDestHostLen \<equiv> 255"

definition validEgressDecisions :: "string list" where
  "validEgressDecisions = [EgressAllow, EgressDeny]"

definition validEgressProtocols :: "string list" where
  "validEgressProtocols = [''tcp'', ''udp'', ''dns'']"

record EgressRecord =
  eg_ID :: string
  eg_SandboxID :: string
  eg_TaskID :: string
  eg_Decision :: string
  eg_Protocol :: string
  eg_DestHost :: string
  eg_DestIP :: string
  eg_DestPort :: int
  eg_Rule :: string
  eg_CreatedAt :: time

definition TruncateDestHost :: "string \<Rightarrow> string" where
  "TruncateDestHost host =
     (if length host \<le> MaxEgressDestHostLen then host
      else to_valid_utf8 (take MaxEgressDestHostLen host))"

definition EgressRecord_Validate :: "EgressRecord \<Rightarrow> err option" where
  "EgressRecord_Validate e =
     andthen (guard_err (eg_SandboxID e = []) (ValidationError ''sandbox_id''))
     (andthen (validateTaskIDField (eg_TaskID e))
     (andthen (guard_err (eg_Decision e \<notin> set validEgressDecisions) (ValidationError ''decision''))
     (andthen (guard_err (eg_Protocol e \<notin> set validEgressProtocols) (ValidationError ''protocol''))
     (andthen (guard_err (length (eg_DestHost e) > MaxEgressDestHostLen) (ValidationError ''dest_host''))
     (andthen (guard_err (eg_DestIP e \<noteq> [] \<and> ParseAddr (eg_DestIP e) = None) (ValidationError ''dest_ip''))
     (guard_err (eg_DestPort e < 0 \<or> eg_DestPort e > 65535) (ValidationError ''dest_port'')))))))"

text \<open>The closed vocabulary of policy-verb failure codes.\<close>

definition ValidEgressFailureCode :: "string \<Rightarrow> bool" where
  "ValidEgressFailureCode code =
     (code \<in> set [''NOT_BOOTED'', ''BOOTED_DIED'', ''VERSION_PREDATES'', ''UNKNOWN''])"

section \<open>Artifact export, credentials, guest death, VMM reports\<close>

record ArtifactExportRequest =
  ax_GuestPath :: string
  ax_HostPath :: string

text \<open>\<open>strings.TrimSpace\<close> leaves nothing exactly when every rune is white space; a byte
  that starts no rune is not.\<close>

definition space_rune :: "int \<Rightarrow> bool" where
  "space_rune r = (r \<in> set [0x20, 0x09, 0x0A, 0x0B, 0x0C, 0x0D, 0x85, 0xA0, 0x1680, 0x2028, 0x2029,
     0x202F, 0x205F, 0x3000] \<or> (0x2000 \<le> r \<and> r \<le> 0x200A))"

function blank :: "string \<Rightarrow> bool" where
  "blank [] = True"
| "blank (c # s) =
     (let n = rune_size (c # s) in
      n \<noteq> 0 \<and> space_rune (rune_value (take n (c # s))) \<and> (n \<noteq> 0 \<longrightarrow> blank (drop n (c # s))))"
  by pat_completeness auto
termination by (relation "measure length") auto

definition ArtifactExportRequest_Validate :: "ArtifactExportRequest \<Rightarrow> err option" where
  "ArtifactExportRequest_Validate r =
     (if blank (ax_GuestPath r) then Some (ValidationError ''guest_path'')
      else if CHR 0x00 \<in> set (ax_GuestPath r) then Some (ValidationError ''guest_path'')
      else if has_prefix (ax_GuestPath r) ''/'' then Some (ValidationError ''guest_path'')
      else if blank (ax_HostPath r) then Some (ValidationError ''host_path'')
      else if CHR 0x00 \<in> set (ax_HostPath r) then Some (ValidationError ''host_path'')
      else if \<not> has_prefix (ax_HostPath r) ''/'' then Some (ValidationError ''host_path'')
      else None)"

record SessionCredential =
  sc_Name :: string
  sc_Value :: string

definition RedactedCredentialNames :: "SessionCredential list \<Rightarrow> string list" where
  "RedactedCredentialNames creds = map sc_Name creds"

definition lostServingMarkers :: "string list" where
  "lostServingMarkers = [''EOF'', ''connection reset'', ''broken pipe'',
     ''use of closed network connection'', ''connection refused'']"

text \<open>\<open>strings.Contains\<close>.\<close>

fun contains_str :: "string \<Rightarrow> string \<Rightarrow> bool" where
  "contains_str [] sub = (sub = [])"
| "contains_str (c # s) sub = (has_prefix (c # s) sub \<or> contains_str s sub)"

text \<open>The error is given by its text, nil being None.\<close>

definition IsLostServing :: "string option \<Rightarrow> bool" where
  "IsLostServing e =
     (case e of None \<Rightarrow> False
      | Some text \<Rightarrow> list_ex (\<lambda>marker. contains_str text marker) lostServingMarkers)"

record VMMReport =
  vr_VMM :: string
  vr_Libraries :: "(string \<times> string) list"
  vr_Problems :: "string list"

definition CanBoot :: "VMMReport \<Rightarrow> bool" where
  "CanBoot r = (vr_VMM r \<noteq> [] \<and> length (vr_Problems r) = 0)"

section \<open>Facts\<close>

lemma nonneg_fields_None [simp]: "nonneg_fields fs = None \<longleftrightarrow> (\<forall>(f, v) \<in> set fs. 0 \<le> v)"
  by (auto simp: nonneg_fields_def)

lemma validateResourceMaxima_None [validate_simps]:
  "validateResourceMaxima p = None \<longleftrightarrow>
     (0 \<le> sp_MaxCPUs p \<and> (0 < sp_MaxCPUs p \<longrightarrow> sp_CPUs p \<le> sp_MaxCPUs p))
     \<and> (0 \<le> sp_MaxMemoryMB p \<and> (0 < sp_MaxMemoryMB p \<longrightarrow> sp_MemoryMB p \<le> sp_MaxMemoryMB p))
     \<and> (0 \<le> sp_MaxDiskQuotaMB p \<and> (0 < sp_MaxDiskQuotaMB p \<longrightarrow> sp_DiskQuotaMB p \<le> sp_MaxDiskQuotaMB p))"
  unfolding validateResourceMaxima_def first_err_None by (auto simp: dimensions_def not_less)

lemma SandboxPolicy_Validate_maxima: "SandboxPolicy_Validate p = None \<Longrightarrow> validateResourceMaxima p = None"
  unfolding SandboxPolicy_Validate_def andthen_None by (elim conjE)

lemma EnforceResourceLimits_None [validate_simps]:
  "EnforceResourceLimits p o' = None \<longleftrightarrow>
     (sp_MaxCPUs p \<le> 0 \<or> lo_CPUs o' \<le> sp_MaxCPUs p)
     \<and> (sp_MaxMemoryMB p \<le> 0 \<or> lo_MemoryMB o' \<le> sp_MaxMemoryMB p)
     \<and> (sp_MaxDiskQuotaMB p \<le> 0 \<or> lo_DiskQuotaMB o' \<le> sp_MaxDiskQuotaMB p)"
  unfolding EnforceResourceLimits_def first_err_None by (auto simp: dimensions_def)

text \<open>
  The two halves of the event vocabulary: an event type either maps to a
  lifecycle state or is audit-only, never both.
\<close>

lemma event_vocabulary_disjoint: "t \<in> set nonStateEventTypes \<Longrightarrow> StateForEvent t = None"
proof -
  have "list_all (\<lambda>t. StateForEvent t = None) nonStateEventTypes" by code_simp
  then show "t \<in> set nonStateEventTypes \<Longrightarrow> StateForEvent t = None" by (simp add: list_all_iff)
qed

lemma event_vocabulary_total:
  "isValidEventType t \<Longrightarrow> t \<notin> set nonStateEventTypes \<Longrightarrow> \<exists>st. StateForEvent t = Some st"
  by (auto simp: isValidEventType_def StateForEvent_def)

lemma StateForEvent_valid: "StateForEvent t = Some st \<Longrightarrow> ValidSandboxState st"
proof -
  assume "StateForEvent t = Some st"
  then have "(t, st) \<in> set eventStates" unfolding StateForEvent_def by (rule map_of_SomeD)
  moreover have "list_all (\<lambda>(t, st). ValidSandboxState st) eventStates" by code_simp
  ultimately show ?thesis by (auto simp: list_all_iff)
qed

lemma capPaths_simps:
  "limit > 0 \<Longrightarrow> fst (capPaths xs limit b) = take (nat limit) xs"
  "limit > 0 \<Longrightarrow> snd (capPaths xs limit b) = (b \<or> int (length xs) > limit)"
  by (auto simp: capPaths_def)

lemma take_limit_id: "limit > 0 \<Longrightarrow> length xs \<le> nat limit \<longleftrightarrow> \<not> int (length xs) > limit"
  by auto

lemma Bound_pos:
  assumes "limit > 0"
  shows "sr_Updated (Bound r limit) = take (nat limit) (sr_Updated r)"
    "sr_Deleted (Bound r limit) = take (nat limit) (sr_Deleted r)"
    "sr_Overridden (Bound r limit) = take (nat limit) (sr_Overridden r)"
    "sr_Conflicts (Bound r limit) = take (nat limit) (sr_Conflicts r)"
    "sr_Truncated (Bound r limit) = (sr_Truncated r \<or> int (length (sr_Updated r)) > limit
       \<or> int (length (sr_Deleted r)) > limit \<or> int (length (sr_Overridden r)) > limit
       \<or> int (length (sr_Conflicts r)) > limit)"
  using assms by (simp_all add: Bound_def Let_def split_def capPaths_simps)

lemma Bound_totals:
  "sr_UpdatedTotal (Bound q l) = max (sr_UpdatedTotal q) (int (length (sr_Updated q)))"
  "sr_DeletedTotal (Bound q l) = max (sr_DeletedTotal q) (int (length (sr_Deleted q)))"
  "sr_OverriddenTotal (Bound q l) = max (sr_OverriddenTotal q) (int (length (sr_Overridden q)))"
  "sr_ConflictsTotal (Bound q l) = max (sr_ConflictsTotal q) (int (length (sr_Conflicts q)))"
  by (simp_all add: Bound_def Let_def split_def)

lemma length_TruncateDestHost: "length (TruncateDestHost h) \<le> 255"
  using length_to_valid_utf8[of "take 255 h"] by (auto simp: TruncateDestHost_def)

section \<open>Properties\<close>

text \<open>
  A launch is refused, never trimmed, when it declares more of a resource
  than the operator's per-sandbox maximum: the check passes exactly when every
  bounded dimension is within its maximum (a zero maximum bounds nothing), every
  refusal is ErrSandboxResourceLimitExceeded, and under a policy that passes its
  own validation a launch that takes the policy's defaults is never refused.
\<close>

theorem resource_limits_refuse:
  "(EnforceResourceLimits p o' = None \<longleftrightarrow>
      (sp_MaxCPUs p \<le> 0 \<or> lo_CPUs o' \<le> sp_MaxCPUs p)
      \<and> (sp_MaxMemoryMB p \<le> 0 \<or> lo_MemoryMB o' \<le> sp_MaxMemoryMB p)
      \<and> (sp_MaxDiskQuotaMB p \<le> 0 \<or> lo_DiskQuotaMB o' \<le> sp_MaxDiskQuotaMB p))
   \<and> (\<forall>e. EnforceResourceLimits p o' = Some e \<longrightarrow> errors_is e ErrSandboxResourceLimitExceeded)
   \<and> (SandboxPolicy_Validate p = None \<longrightarrow>
        EnforceResourceLimits p (o'\<lparr>lo_CPUs := sp_CPUs p, lo_MemoryMB := sp_MemoryMB p,
          lo_DiskQuotaMB := sp_DiskQuotaMB p\<rparr>) = None)"
proof (intro conjI allI impI)
  show "errors_is e ErrSandboxResourceLimitExceeded" if "EnforceResourceLimits p o' = Some e" for e
    using that unfolding EnforceResourceLimits_def by (auto dest!: first_err_Some)
  show "EnforceResourceLimits p (o'\<lparr>lo_CPUs := sp_CPUs p, lo_MemoryMB := sp_MemoryMB p,
      lo_DiskQuotaMB := sp_DiskQuotaMB p\<rparr>) = None" if "SandboxPolicy_Validate p = None"
    using SandboxPolicy_Validate_maxima[OF that]
    unfolding validateResourceMaxima_None EnforceResourceLimits_None by auto
qed (rule EnforceResourceLimits_None)

theorem resource_limits_refuse_witness:
  "SandboxPolicy_Validate DefaultSandboxPolicy = None
   \<and> EnforceResourceLimits DefaultSandboxPolicy (zero_launch_options\<lparr>lo_CPUs := 2,
        lo_MemoryMB := 2048, lo_DiskQuotaMB := 4096\<rparr>) = None
   \<and> EnforceResourceLimits DefaultSandboxPolicy (zero_launch_options\<lparr>lo_MemoryMB := 16385\<rparr>) \<noteq> None"
proof -
  have v: "SandboxPolicy_Validate DefaultSandboxPolicy = None" by code_simp
  have d: "sp_CPUs DefaultSandboxPolicy = 2" "sp_MemoryMB DefaultSandboxPolicy = 2048"
    "sp_DiskQuotaMB DefaultSandboxPolicy = 4096" "sp_MaxMemoryMB DefaultSandboxPolicy = 16384"
    by (simp_all add: DefaultSandboxPolicy_def)
  have "EnforceResourceLimits DefaultSandboxPolicy (zero_launch_options\<lparr>lo_CPUs := 2,
      lo_MemoryMB := 2048, lo_DiskQuotaMB := 4096\<rparr>) = None"
    using resource_limits_refuse[of DefaultSandboxPolicy zero_launch_options,
        THEN conjunct2, THEN conjunct2, THEN mp, OF v] unfolding d .
  moreover have "EnforceResourceLimits DefaultSandboxPolicy (zero_launch_options\<lparr>lo_MemoryMB := 16385\<rparr>) \<noteq> None"
    unfolding resource_limits_refuse[THEN conjunct1] d by simp
  ultimately show ?thesis using v by blast
qed

text \<open>
  A shortened sync report never passes for a complete one. Bounding keeps a
  prefix of each list, of at most \<open>limit\<close> entries; the report is marked truncated
  exactly when it already was or some list lost an entry; and the totals a first
  bounding records survive any later one, however small its limit.
\<close>

theorem sync_report_bound_honest:
  assumes "limit > 0"
  shows "sr_Updated (Bound r limit) = take (nat limit) (sr_Updated r)
    \<and> sr_Deleted (Bound r limit) = take (nat limit) (sr_Deleted r)
    \<and> sr_Overridden (Bound r limit) = take (nat limit) (sr_Overridden r)
    \<and> sr_Conflicts (Bound r limit) = take (nat limit) (sr_Conflicts r)
    \<and> (\<not> sr_Truncated (Bound r limit) \<longleftrightarrow> \<not> sr_Truncated r
         \<and> sr_Updated (Bound r limit) = sr_Updated r \<and> sr_Deleted (Bound r limit) = sr_Deleted r
         \<and> sr_Overridden (Bound r limit) = sr_Overridden r \<and> sr_Conflicts (Bound r limit) = sr_Conflicts r)
    \<and> sr_UpdatedTotal (Bound (Bound r limit) limit') = sr_UpdatedTotal (Bound r limit)
    \<and> sr_DeletedTotal (Bound (Bound r limit) limit') = sr_DeletedTotal (Bound r limit)
    \<and> sr_OverriddenTotal (Bound (Bound r limit) limit') = sr_OverriddenTotal (Bound r limit)
    \<and> sr_ConflictsTotal (Bound (Bound r limit) limit') = sr_ConflictsTotal (Bound r limit)"
proof -
  show ?thesis unfolding Bound_totals using assms by (simp add: Bound_pos take_limit_id)
qed

definition demo_report :: WorktreeSyncReport where
  "demo_report = \<lparr>sr_Updated = [''a'', ''b'', ''c''], sr_Deleted = [], sr_Overridden = [], sr_Conflicts = [],
     sr_Skipped = False, sr_DryRun = False, sr_Refused = False, sr_Detail = [], sr_Truncated = False,
     sr_UpdatedTotal = 0, sr_DeletedTotal = 0, sr_OverriddenTotal = 0, sr_ConflictsTotal = 0\<rparr>"

theorem sync_report_bound_honest_witness:
  "sr_Updated (Bound demo_report 2) = [''a'', ''b''] \<and> sr_Truncated (Bound demo_report 2)
   \<and> sr_UpdatedTotal (Bound (Bound demo_report 2) 1) = 3"
  using sync_report_bound_honest[of 2 demo_report 1]
  by (simp add: demo_report_def Bound_def Let_def capPaths_def)

text \<open>
  No destination name a guest chooses can keep a decision out of the audit
  log: a record whose host went through \<open>TruncateDestHost\<close> is valid exactly when
  the same record with an empty host is, whatever the name.
\<close>

theorem truncated_host_never_blocks_audit:
  "length (TruncateDestHost h) \<le> 255
   \<and> (EgressRecord_Validate (rec\<lparr>eg_DestHost := TruncateDestHost h\<rparr>) = None \<longleftrightarrow>
      EgressRecord_Validate (rec\<lparr>eg_DestHost := []\<rparr>) = None)
   \<and> (length h \<le> 255 \<longrightarrow> TruncateDestHost h = h)"
  using length_TruncateDestHost[of h] by (auto simp: EgressRecord_Validate_def TruncateDestHost_def)

theorem truncated_host_never_blocks_audit_witness:
  "length (TruncateDestHost (replicate 300 CHR ''a'')) \<le> 255 \<and> TruncateDestHost ''h.example'' = ''h.example''"
  using truncated_host_never_blocks_audit[of "replicate 300 CHR ''a''"]
    truncated_host_never_blocks_audit[of "''h.example''"] by simp

end
