(* ===== verification/Audit_Text.thy ===== *)
theory Audit_Text
  imports Sandbox_Records
begin

text \<open>
  \<open>sanitizeAuditString\<close> of \<open>internal/store/index/sandbox_events.go\<close>: what a
  guest-influenced string looks like once it is in an append-only table. The string
  is read rune by rune as \<open>strings.Map\<close> does, runes that could spoof the display are
  dropped, a byte that starts no rune becomes U+FFFD, and the result is cut to a
  byte length without splitting a rune.
\<close>

section \<open>Definitions\<close>

text \<open>\<open>unicode.IsControl\<close> is the category Cc; the tables \<open>Cf\<close>, \<open>Zl\<close> and \<open>Zp\<close> are those
  of Unicode 15. \<open>Cs\<close> holds only surrogates, which no rune of a string decodes to.\<close>

definition format_ranges :: "(int \<times> int) list" where
  "format_ranges = [(0xAD, 0xAD), (0x600, 0x605), (0x61C, 0x61C), (0x6DD, 0x6DD), (0x70F, 0x70F),
     (0x890, 0x891), (0x8E2, 0x8E2), (0x180E, 0x180E), (0x200B, 0x200F), (0x202A, 0x202E),
     (0x2060, 0x2064), (0x2066, 0x206F), (0xFEFF, 0xFEFF), (0xFFF9, 0xFFFB), (0x110BD, 0x110BD),
     (0x110CD, 0x110CD), (0x13430, 0x1343F), (0x1BCA0, 0x1BCA3), (0x1D173, 0x1D17A),
     (0xE0001, 0xE0001), (0xE0020, 0xE007F)]"

definition stripped_rune :: "int \<Rightarrow> bool" where
  "stripped_rune r \<longleftrightarrow> (0 \<le> r \<and> r < 0x20) \<or> (0x7F \<le> r \<and> r < 0xA0)
     \<or> list_ex (\<lambda>(lo, hi). lo \<le> r \<and> r \<le> hi) format_ranges \<or> r = 0x2028 \<or> r = 0x2029"

definition RuneError_bytes :: string where
  "RuneError_bytes = [CHR 0xEF, CHR 0xBF, CHR 0xBD]"

text \<open>\<open>strings.Map\<close> with a function that drops some runes and keeps the others.\<close>

function map_drop_runes :: "(int \<Rightarrow> bool) \<Rightarrow> string \<Rightarrow> string" where
  "map_drop_runes d [] = []"
| "map_drop_runes d (c # s) =
     (let n = rune_size (c # s) in
      if n = 0 then RuneError_bytes @ map_drop_runes d s
      else (if d (rune_value (take n (c # s))) then [] else take n (c # s))
             @ map_drop_runes d (drop n (c # s)))"
  by pat_completeness auto
termination by (relation "measure (length \<circ> snd)") auto

definition sanitizeAuditString :: "string \<Rightarrow> nat \<Rightarrow> string" where
  "sanitizeAuditString value maxLen =
     (let cleaned = map_drop_runes stripped_rune value
      in if length cleaned > maxLen then to_valid_utf8 (take maxLen cleaned) else cleaned)"

abbreviation (input) maxSandboxEventDetailLen :: nat where "maxSandboxEventDetailLen \<equiv> 4096"

definition sanitizeAuditDetail :: "string \<Rightarrow> string" where
  "sanitizeAuditDetail detail = sanitizeAuditString detail maxSandboxEventDetailLen"

section \<open>Runes\<close>

definition valid_rune :: "string \<Rightarrow> bool" where
  "valid_rune c \<longleftrightarrow> c \<noteq> [] \<and> rune_size c = length c"

text \<open>A string made of well-formed runes, none of which is stripped.\<close>

definition clean_runes :: "string list \<Rightarrow> bool" where
  "clean_runes cs \<longleftrightarrow> (\<forall>c \<in> set cs. valid_rune c \<and> \<not> stripped_rune (rune_value c))"

lemma valid_rune_Cons:
  "valid_rune (c # r) \<longleftrightarrow>
     ((of_char c :: int) < 0x80 \<and> r = []) \<or>
     (\<exists>lo hi. \<not> (of_char c :: int) < 0x80 \<and> lead_info c = Some (Suc (length r), lo, hi)
        \<and> byte_in lo hi (hd r) \<and> list_all (byte_in 0x80 0xBF) (take (length r - 1) (tl r)))"
  by (auto simp: valid_rune_def rune_size_def split: option.splits if_splits)

lemma lead_info_size: "lead_info c = Some (n, lo, hi) \<Longrightarrow> 2 \<le> n \<and> 0x80 \<le> lo \<and> hi \<le> 0xBF"
  by (auto simp: lead_info_def Let_def split: if_splits)

lemma lead_info_cont: "byte_in 0x80 0xBF c \<Longrightarrow> lead_info c = None"
  by (auto simp: lead_info_def byte_in_def Let_def)

lemma rune_size_cont: "byte_in 0x80 0xBF c \<Longrightarrow> rune_size (c # s) = 0"
  using lead_info_cont[of c] by (auto simp: rune_size_def byte_in_def)

lemma to_valid_utf8_cont:
  "list_all (byte_in 0x80 0xBF) s \<Longrightarrow> to_valid_utf8 s = []"
  by (induction s) (simp_all add: rune_size_cont)

lemma rune_size_append:
  assumes "valid_rune c"
  shows "rune_size (c @ r) = length c"
proof (cases c)
  case Nil
  then show ?thesis using assms by (simp add: valid_rune_def)
next
  case (Cons a b)
  show ?thesis
  proof (cases "(of_char a :: int) < 0x80")
    case True
    then show ?thesis using assms Cons
      by (simp add: valid_rune_Cons rune_size_def)
  next
    case False
    then obtain lo hi where l: "lead_info a = Some (Suc (length b), lo, hi)"
      and h: "byte_in lo hi (hd b)" and t: "list_all (byte_in 0x80 0xBF) (take (length b - 1) (tl b))"
      using assms Cons by (auto simp: valid_rune_Cons)
    have b: "b \<noteq> []" using lead_info_size[OF l] by auto
    have "take (Suc (length b) - 2) (tl (b @ r)) = take (length b - 1) (tl b)"
      using b by (cases b) simp_all
    then show ?thesis using False Cons l h t b by (simp add: rune_size_def)
  qed
qed

lemma to_valid_utf8_append:
  assumes "valid_rune c"
  shows "to_valid_utf8 (c @ r) = c @ to_valid_utf8 r"
proof -
  obtain a b where c: "c = a # b" using assms by (cases c) (auto simp: valid_rune_def)
  have n: "rune_size (a # b @ r) = Suc (length b)" using rune_size_append[OF assms, of r] c by simp
  show ?thesis unfolding c append_Cons to_valid_utf8.simps Let_def n by simp
qed

lemma to_valid_utf8_partial:
  assumes "valid_rune c" "n < length c"
  shows "to_valid_utf8 (take n c) = []"
proof (cases n)
  case 0
  then show ?thesis by simp
next
  case (Suc m)
  then obtain a b where c: "c = a # b" and b: "b \<noteq> []" using assms(2) by (cases c; cases "tl c") auto
  then obtain lo hi where l: "lead_info a = Some (Suc (length b), lo, hi)"
      and hi: "\<not> (of_char a :: int) < 0x80"
      and h: "byte_in lo hi (hd b)" and t: "list_all (byte_in 0x80 0xBF) (take (length b - 1) (tl b))"
    using assms(1) by (auto simp: valid_rune_Cons)
  have "byte_in 0x80 0xBF (hd b)" using h lead_info_size[OF l] by (auto simp: byte_in_def)
  moreover have "take (length b - 1) (tl b) = tl b" by simp
  ultimately have all: "list_all (byte_in 0x80 0xBF) b" using t b by (cases b) auto
  then have "list_all (byte_in 0x80 0xBF) (take m b)" by (auto simp: list_all_iff dest: in_set_takeD)
  then have rest: "to_valid_utf8 (take m b) = []" by (rule to_valid_utf8_cont)
  have "rune_size (a # take m b) = 0"
    using hi l Suc assms(2) c by (auto simp: rune_size_def)
  then show ?thesis using Suc c rest by simp
qed

lemma to_valid_utf8_runes:
  assumes "\<forall>c \<in> set cs. valid_rune c"
  shows "\<exists>k. to_valid_utf8 (take m (concat cs)) = concat (take k cs)"
  using assms
proof (induction cs arbitrary: m)
  case Nil
  then show ?case by simp
next
  case (Cons c cs)
  then have c: "valid_rune c" by simp
  show ?case
  proof (cases "length c \<le> m")
    case True
    obtain k where "to_valid_utf8 (take (m - length c) (concat cs)) = concat (take k cs)"
      using Cons by auto
    then have "to_valid_utf8 (take m (concat (c # cs))) = concat (take (Suc k) (c # cs))"
      using True by (simp add: to_valid_utf8_append[OF c])
    then show ?thesis ..
  next
    case False
    then have "to_valid_utf8 (take m (concat (c # cs))) = concat (take 0 (c # cs))"
      using to_valid_utf8_partial[OF c] by simp
    then show ?thesis ..
  qed
qed

lemma rune_size_take: "rune_size s \<noteq> 0 \<Longrightarrow> valid_rune (take (rune_size s) s)"
proof (cases s)
  case (Cons a b)
  assume nz: "rune_size s \<noteq> 0"
  show ?thesis
  proof (cases "(of_char a :: int) < 0x80")
    case False
    then obtain n lo hi where l: "lead_info a = Some (n, lo, hi)" and n: "rune_size s = n"
      and len: "n \<le> Suc (length b)" and h: "byte_in lo hi (hd b)"
      and t: "list_all (byte_in 0x80 0xBF) (take (n - 2) (tl b))"
      using nz Cons by (auto simp: rune_size_def split: option.splits if_splits)
    have n2: "2 \<le> n" using lead_info_size[OF l] by simp
    then obtain m where m: "n = Suc (Suc m)" by (metis Suc_le_D numeral_2_eq_2 Suc_le_mono)
    obtain x y where b: "b = x # y" using len m by (cases b) auto
    then show ?thesis using False l n len h t m Cons by (simp add: valid_rune_Cons)
  qed (use Cons in \<open>simp add: rune_size_def valid_rune_Cons\<close>)
qed (simp add: rune_size_def)

lemma RuneError_clean: "valid_rune RuneError_bytes" "\<not> stripped_rune (rune_value RuneError_bytes)"
  by code_simp+

lemma map_drop_runes_chunks: "\<exists>cs. map_drop_runes stripped_rune s = concat cs \<and> clean_runes cs"
proof (induction stripped_rune s rule: map_drop_runes.induct)
  case (2 c s)
  let ?n = "rune_size (c # s)"
  show ?case
  proof (cases "?n = 0")
    case True
    then obtain cs where "map_drop_runes stripped_rune s = concat cs" "clean_runes cs" using 2 by auto
    then have "map_drop_runes stripped_rune (c # s) = concat (RuneError_bytes # cs)
        \<and> clean_runes (RuneError_bytes # cs)"
      using True RuneError_clean by (simp add: clean_runes_def)
    then show ?thesis ..
  next
    case False
    then obtain cs where cs: "map_drop_runes stripped_rune (drop ?n (c # s)) = concat cs" "clean_runes cs"
      using 2 by auto
    let ?w = "take ?n (c # s)"
    have v: "valid_rune ?w" using rune_size_take[OF False] .
    let ?ds = "if stripped_rune (rune_value ?w) then cs else ?w # cs"
    have "map_drop_runes stripped_rune (c # s) = concat ?ds"
      using False cs(1) by (simp only: map_drop_runes.simps Let_def if_False) simp
    moreover have "clean_runes ?ds" using cs(2) v by (simp add: clean_runes_def)
    ultimately show ?thesis by blast
  qed
qed (auto simp: clean_runes_def intro: exI[of _ "[]"])

text \<open>Printable ASCII passes through unchanged.\<close>

lemma map_drop_runes_ascii:
  "list_all (\<lambda>c. 0x20 \<le> (of_char c :: int) \<and> (of_char c :: int) < 0x7F) s
     \<Longrightarrow> map_drop_runes stripped_rune s = s"
  by (induction s)
    (auto simp: rune_size_def rune_value_def stripped_rune_def format_ranges_def)

section \<open>Properties\<close>

text \<open>
  Whatever bytes a guest chooses, the text that enters an audit row is a
  sequence of well-formed UTF-8 runes none of which is a control, format, line or
  paragraph separator character, it is within the cap, and printable ASCII within the
  cap is stored as it is.
\<close>

theorem audit_text_is_safe:
  "(\<exists>cs. sanitizeAuditString value maxLen = concat cs \<and> clean_runes cs)
     \<and> length (sanitizeAuditString value maxLen) \<le> maxLen
     \<and> (list_all (\<lambda>c. 0x20 \<le> (of_char c :: int) \<and> (of_char c :: int) < 0x7F) value
          \<and> length value \<le> maxLen \<longrightarrow> sanitizeAuditString value maxLen = value)"
proof -
  obtain cs where cs: "map_drop_runes stripped_rune value = concat cs" "clean_runes cs"
    using map_drop_runes_chunks by blast
  then obtain k where k: "to_valid_utf8 (take maxLen (concat cs)) = concat (take k cs)"
    using to_valid_utf8_runes[of cs maxLen] by (auto simp: clean_runes_def)
  have "clean_runes (take k cs)" using cs(2) by (auto simp: clean_runes_def dest: in_set_takeD)
  then have "\<exists>ds. sanitizeAuditString value maxLen = concat ds \<and> clean_runes ds"
    using cs k by (auto simp: sanitizeAuditString_def Let_def)
  moreover have "length (sanitizeAuditString value maxLen) \<le> maxLen"
    using order_trans[OF length_to_valid_utf8, of "take maxLen (map_drop_runes stripped_rune value)" maxLen]
    by (auto simp: sanitizeAuditString_def Let_def)
  ultimately show ?thesis
    by (auto simp: sanitizeAuditString_def map_drop_runes_ascii)
qed

theorem audit_text_is_safe_witness:
  "sanitizeAuditString ''host.example'' 255 = ''host.example''"
  using audit_text_is_safe[of "''host.example''" 255] by (simp add: list_all_def)

end
