(* ===== verification/Index_Store.thy ===== *)
theory Index_Store
  imports Audit_Text "HOL-Library.List_Lexorder"
begin

text \<open>
  The SQLite index of \<open>internal/store/index\<close>: its tables as a record, transactions
  (\<open>WriteTx\<close>, \<open>ReadTx\<close> of \<open>store.go\<close>), the row identifiers (\<open>newULID\<close>) and the two
  sandbox audit tables (\<open>sandbox_events.go\<close>, \<open>sandbox_egress_log.go\<close>). A table is the
  list of its rows in the order they were inserted; the constraints of \<open>schema.go\<close>
  are checks of the operations. A text column that holds an RFC 3339 time is the
  instant the text names, cut to whole seconds. What the database engine may refuse
  is an argument of each call (\<open>io\<close>), and so are the clock and the ULID library.
\<close>

section \<open>Rows\<close>

record CommitRecord =
  tc_ID :: int
  tc_TaskID :: string
  tc_CommitHash :: string
  tc_ContentHash :: string
  tc_AgentID :: string
  tc_Position :: int
  tc_CreatedAt :: time
  tc_SandboxID :: "string option"

record admission =
  ca_id :: int
  ca_task_commit_id :: int
  ca_task_id :: string
  ca_commit_hash :: string
  ca_content_hash :: string
  ca_origin :: string
  ca_state :: string
  ca_guest_content_hash :: string
  ca_created_at :: time

record branch_row =
  br_name :: string
  br_task_id :: string
  br_head_commit :: string
  br_status :: string
  br_created_at :: time

record lock_row =
  lk_branch_name :: string
  lk_agent_id :: string
  lk_locked_at :: time
  lk_expires_at :: time

record worktree_row =
  wt_path :: string
  wt_branch_name :: string
  wt_task_id :: string
  wt_agent_id :: string
  wt_created_at :: time
  wt_fork_base :: string

text \<open>
  The JSON columns of the registry hold lists that \<open>Validate\<close> has restricted to plain
  ASCII; they are kept as the lists they encode.
\<close>

record sandbox_row =
  sb_sandbox_id :: string
  sb_task_id :: string
  sb_worktree_path :: string
  sb_image_ref :: string
  sb_image_digest :: string
  sb_backend :: string
  sb_network_mode :: string
  sb_network_allowlist :: "string list"
  sb_publish_ports :: "PortPublish list"
  sb_cpus :: int
  sb_memory_mb :: int
  sb_disk_quota_mb :: int
  sb_ttl_ns :: int
  sb_confine_agent :: bool
  sb_state :: string
  sb_created_at :: time
  sb_expires_at :: time
  sb_updated_at :: time

record Store =
  task_commits :: "CommitRecord list"
  task_commits_seq :: int
  content_admissions :: "admission list"
  content_admissions_seq :: int
  branches :: "branch_row list"
  branch_locks :: "lock_row list"
  worktrees :: "worktree_row list"
  sandbox_events :: "SandboxEvent list"
  sandboxes :: "sandbox_row list"
  sandbox_egress_log :: "EgressRecord list"
  ulidCalls :: nat
  ulidLastMs :: int

definition empty_Store :: Store where
  "empty_Store = \<lparr>task_commits = [], task_commits_seq = 0, content_admissions = [],
     content_admissions_seq = 0, branches = [], branch_locks = [], worktrees = [],
     sandbox_events = [], sandboxes = [], sandbox_egress_log = [], ulidCalls = 0, ulidLastMs = 0\<rparr>"

section \<open>Transactions\<close>

text \<open>
  What the database may answer during one call: an error when the transaction
  begins, at its n-th statement, or when it commits. A transaction whose commit
  fails leaves no trace, as one whose body fails.
\<close>

record io =
  io_begin :: "err option"
  io_exec :: "nat \<Rightarrow> err option"
  io_commit :: "err option"

definition no_fault :: io where
  "no_fault = \<lparr>io_begin = None, io_exec = (\<lambda>_. None), io_commit = None\<rparr>"

definition WriteTx :: "io \<Rightarrow> (Store \<Rightarrow> Store result) \<Rightarrow> Store \<Rightarrow> err option \<times> Store" where
  "WriteTx io fn s =
     (case io_begin io of
        Some e \<Rightarrow> (Some (Wrap ''begin write tx'' e), s)
      | None \<Rightarrow>
          (case fn s of
             Inl e \<Rightarrow> (Some e, s)
           | Inr s' \<Rightarrow> (case io_commit io of Some e \<Rightarrow> (Some e, s) | None \<Rightarrow> (None, s'))))"

definition ReadTx :: "io \<Rightarrow> (Store \<Rightarrow> 'a result) \<Rightarrow> Store \<Rightarrow> 'a result" where
  "ReadTx io fn s =
     (case io_begin io of
        Some e \<Rightarrow> Inl (Wrap ''begin read tx'' e)
      | None \<Rightarrow>
          (case fn s of
             Inl e \<Rightarrow> Inl e
           | Inr x \<Rightarrow> (case io_commit io of Some e \<Rightarrow> Inl e | None \<Rightarrow> Inr x)))"

text \<open>One statement of a transaction: refused by the database, or its effect.\<close>

definition exec :: "io \<Rightarrow> nat \<Rightarrow> 'a result \<Rightarrow> 'a result" where
  "exec io n r = (case io_exec io n of Some e \<Rightarrow> Inl e | None \<Rightarrow> r)"

text \<open>\<open>fmt.Errorf("msg: %w", err)\<close> around a result.\<close>

definition wrap_err :: "string \<Rightarrow> 'a result \<Rightarrow> 'a result" where
  "wrap_err msg r = (case r of Inl e \<Rightarrow> Inl (Wrap msg e) | Inr x \<Rightarrow> Inr x)"

lemma wrap_err_Inr [simp]: "wrap_err msg r = Inr x \<longleftrightarrow> r = Inr x"
  by (auto simp: wrap_err_def split: sum.splits)

lemma wrap_err_simps [simp]: "wrap_err msg (Inr x) = Inr x" "wrap_err msg (Inl e) = Inl (Wrap msg e)"
  by (simp_all add: wrap_err_def)

definition unique_failed :: "string \<Rightarrow> err" where
  "unique_failed column = Errorf (''UNIQUE constraint failed: '' @ column)"

text \<open>\<open>t.UTC().Format(time.RFC3339)\<close> read back: whole seconds.\<close>

definition rfc3339 :: "time \<Rightarrow> time" where
  "rfc3339 t = t - t mod Second"

lemma WriteTx_cases:
  "(\<exists>e. WriteTx io fn s = (Some e, s)) \<or> (\<exists>s'. fn s = Inr s' \<and> WriteTx io fn s = (None, s'))"
  by (auto simp: WriteTx_def split: option.splits sum.splits)

lemma WriteTx_None: "WriteTx io fn s = (None, s') \<Longrightarrow> fn s = Inr s'"
  by (auto simp: WriteTx_def split: option.splits sum.splits)

lemma WriteTx_Some: "WriteTx io fn s = (Some e, s') \<Longrightarrow> s' = s"
  by (auto simp: WriteTx_def split: option.splits sum.splits)

lemma WriteTx_no_fault [simp]:
  "WriteTx no_fault fn s = (case fn s of Inl e \<Rightarrow> (Some e, s) | Inr s' \<Rightarrow> (None, s'))"
  by (auto simp: WriteTx_def no_fault_def split: sum.splits)

lemma ReadTx_no_fault [simp]: "ReadTx no_fault fn s = fn s"
  by (auto simp: ReadTx_def no_fault_def split: sum.splits)

lemma exec_no_fault [simp]: "exec no_fault n r = r"
  by (simp add: exec_def no_fault_def)

lemma exec_Inr [simp]: "exec io n r = Inr x \<longleftrightarrow> io_exec io n = None \<and> r = Inr x"
  by (auto simp: exec_def split: option.splits)

lemma rfc3339_le: "rfc3339 t \<le> t" "t < rfc3339 t + Second"
  by (auto simp: rfc3339_def intro: pos_mod_bound)

lemma rfc3339_idem [simp]: "rfc3339 (rfc3339 t) = rfc3339 t"
  by (simp add: rfc3339_def mod_diff_left_eq[symmetric])

section \<open>Row identifiers (\<open>newULID\<close>)\<close>

text \<open>
  \<open>github.com/oklog/ulid\<close>: the millisecond timestamp of an instant, and the result
  of the n-th call of \<open>ulid.New\<close> on the store's monotonic entropy source.
\<close>

record ulid_lib =
  ulid_Timestamp :: "time \<Rightarrow> int"
  ulid_New :: "nat \<Rightarrow> int \<Rightarrow> string result"

definition newULID :: "ulid_lib \<Rightarrow> time \<Rightarrow> Store \<Rightarrow> string result \<times> Store" where
  "newULID U now s =
     (let ms0 = ulid_Timestamp U now;
          ms = (if ms0 < ulidLastMs s then ulidLastMs s else ms0);
          s1 = s\<lparr>ulidLastMs := ms, ulidCalls := Suc (ulidCalls s)\<rparr>
      in case ulid_New U (ulidCalls s) ms of
           Inl e \<Rightarrow> (Inl (Wrap ''new ulid'' e), s1)
         | Inr i \<Rightarrow> (Inr i, s1))"

section \<open>The audit tables\<close>

text \<open>The columns the store sets itself: the id, the sanitized text and the time.\<close>

definition stored_event :: "string \<Rightarrow> time \<Rightarrow> SandboxEvent \<Rightarrow> SandboxEvent" where
  "stored_event i now ev = ev\<lparr>ev_ID := i, ev_Detail := sanitizeAuditDetail (ev_Detail ev),
     ev_CreatedAt := rfc3339 now\<rparr>"

definition stored_record :: "string \<Rightarrow> time \<Rightarrow> EgressRecord \<Rightarrow> EgressRecord" where
  "stored_record i now r = r\<lparr>eg_ID := i, eg_DestHost := sanitizeAuditString (eg_DestHost r) 255,
     eg_Rule := sanitizeAuditString (eg_Rule r) maxSandboxEventDetailLen, eg_CreatedAt := rfc3339 now\<rparr>"

definition AppendSandboxEvent :: "ulid_lib \<Rightarrow> io \<Rightarrow> time \<Rightarrow> SandboxEvent \<Rightarrow> Store \<Rightarrow> err option \<times> Store" where
  "AppendSandboxEvent U io now ev s =
     (case SandboxEvent_Validate ev of
        Some e \<Rightarrow> (Some (Wrap ''append sandbox event'' e), s)
      | None \<Rightarrow>
          (case newULID U now s of
             (Inl e, s1) \<Rightarrow> (Some (Wrap ''append sandbox event'' e), s1)
           | (Inr i, s1) \<Rightarrow>
               WriteTx io (\<lambda>t.
                 wrap_err ''insert sandbox event'' (exec io 0
                   (if i \<in> ev_ID ` set (sandbox_events t) then Inl (unique_failed ''sandbox_events.id'')
                    else Inr (t\<lparr>sandbox_events := sandbox_events t @
                      [stored_event i now ev]\<rparr>)))) s1))"

definition ListSandboxEvents :: "io \<Rightarrow> string \<Rightarrow> Store \<Rightarrow> SandboxEvent list result" where
  "ListSandboxEvents io sandboxID s =
     wrap_err ''list sandbox events'' (ReadTx io (\<lambda>t. exec io 0
       (Inr (sort_key ev_ID (filter (\<lambda>e. ev_SandboxID e = sandboxID) (sandbox_events t))))) s)"

text \<open>
  \<open>DeriveState\<close>: the state-bearing rows of the sandbox, the greatest id first, one
  row at most.
\<close>

definition DeriveState :: "io \<Rightarrow> string \<Rightarrow> Store \<Rightarrow> string result" where
  "DeriveState io sandboxID s =
     (case ReadTx io (\<lambda>t. exec io 0
        (case rev (sort_key ev_ID (filter (\<lambda>e. ev_SandboxID e = sandboxID
                \<and> ev_EventType e \<notin> set nonStateEventTypes) (sandbox_events t))) of
           [] \<Rightarrow> Inr None
         | e # _ \<Rightarrow> Inr (Some (ev_EventType e)))) s of
        Inl e \<Rightarrow> Inl (Wrap ''derive state'' e)
      | Inr None \<Rightarrow> Inl (Wrap sandboxID (Sentinel ErrSandboxNotFound))
      | Inr (Some t) \<Rightarrow>
          (case StateForEvent t of
             Some st \<Rightarrow> Inr st
           | None \<Rightarrow> Inl (Wrap t (Sentinel ErrIndexCorrupted))))"

definition AppendEgressRecord :: "ulid_lib \<Rightarrow> io \<Rightarrow> time \<Rightarrow> EgressRecord \<Rightarrow> Store \<Rightarrow> err option \<times> Store" where
  "AppendEgressRecord U io now r s =
     (case EgressRecord_Validate r of
        Some e \<Rightarrow> (Some (Wrap ''append egress record'' e), s)
      | None \<Rightarrow>
          (case newULID U now s of
             (Inl e, s1) \<Rightarrow> (Some (Wrap ''append egress record'' e), s1)
           | (Inr i, s1) \<Rightarrow>
               WriteTx io (\<lambda>t.
                 wrap_err ''insert egress record'' (exec io 0
                   (if i \<in> eg_ID ` set (sandbox_egress_log t) then Inl (unique_failed ''sandbox_egress_log.id'')
                    else Inr (t\<lparr>sandbox_egress_log := sandbox_egress_log t @
                      [stored_record i now r]\<rparr>)))) s1))"

definition queryEgressRecords :: "io \<Rightarrow> (EgressRecord \<Rightarrow> bool) \<Rightarrow> Store \<Rightarrow> EgressRecord list result" where
  "queryEgressRecords io p s =
     wrap_err ''query egress records''
       (ReadTx io (\<lambda>t. exec io 0 (Inr (sort_key eg_ID (filter p (sandbox_egress_log t))))) s)"

definition ListEgressBySandbox :: "io \<Rightarrow> string \<Rightarrow> Store \<Rightarrow> EgressRecord list result" where
  "ListEgressBySandbox io sandboxID = queryEgressRecords io (\<lambda>r. eg_SandboxID r = sandboxID)"

definition ListEgressByTask :: "io \<Rightarrow> string \<Rightarrow> Store \<Rightarrow> EgressRecord list result" where
  "ListEgressByTask io taskID = queryEgressRecords io (\<lambda>r. eg_TaskID r = taskID)"

end
