(* ===== verification/Index_Commits.thy ===== *)
theory Index_Commits
  imports Index_Store
begin

text \<open>
  The task ledger of \<open>internal/store/index\<close>: the append-only table \<open>task_commits\<close>
  (\<open>task_commits.go\<close>) and the append-only admissions that say where a commit's content
  came from and whether it was delivered to the host (\<open>content_admission.go\<close>). A
  \<open>LEFT JOIN\<close> on the latest admission of a row is the function \<open>latest_admission\<close>.
\<close>

section \<open>Appending to the ledger\<close>

abbreviation OriginHost :: string where "OriginHost \<equiv> ''host''"
abbreviation OriginLand :: string where "OriginLand \<equiv> ''land''"
abbreviation AdmissionPending :: string where "AdmissionPending \<equiv> ''pending''"
abbreviation AdmissionDelivered :: string where "AdmissionDelivered \<equiv> ''delivered''"

record TaskCommitInsert =
  in_TaskID :: string
  in_CommitHash :: string
  in_ContentHash :: string
  in_AgentID :: string
  in_Position :: int
  in_SandboxID :: string
  in_Origin :: string
  in_GuestContentHash :: string

text \<open>The \<open>CHECK\<close> constraints of \<open>content_admissions\<close> are the guard of the insert; the
  row it refers to exists whenever the code calls it.\<close>

definition insertAdmission :: "io \<Rightarrow> nat \<Rightarrow> CommitRecord \<Rightarrow> string \<Rightarrow> string \<Rightarrow> string \<Rightarrow> time \<Rightarrow> Store
    \<Rightarrow> Store result" where
  "insertAdmission io n r origin state guestHash now s =
     exec io n
       (if origin \<notin> {OriginHost, OriginLand} \<or> state \<notin> {AdmissionPending, AdmissionDelivered}
        then Inl (Errorf ''CHECK constraint failed: content_admissions'')
        else if tc_ID r \<notin> tc_ID ` set (task_commits s)
        then Inl (Errorf ''FOREIGN KEY constraint failed'')
        else Inr (s\<lparr>content_admissions_seq := content_admissions_seq s + 1,
          content_admissions := content_admissions s @
            [\<lparr>ca_id = content_admissions_seq s + 1, ca_task_commit_id = tc_ID r, ca_task_id = tc_TaskID r,
              ca_commit_hash = tc_CommitHash r, ca_content_hash = tc_ContentHash r, ca_origin = origin,
              ca_state = state, ca_guest_content_hash = guestHash, ca_created_at = rfc3339 now\<rparr>]\<rparr>))"

definition inserted_row :: "int \<Rightarrow> TaskCommitInsert \<Rightarrow> time \<Rightarrow> CommitRecord" where
  "inserted_row i c now =
     \<lparr>tc_ID = i, tc_TaskID = in_TaskID c, tc_CommitHash = in_CommitHash c,
      tc_ContentHash = in_ContentHash c, tc_AgentID = in_AgentID c, tc_Position = in_Position c,
      tc_CreatedAt = rfc3339 now,
      tc_SandboxID = (if in_SandboxID c \<noteq> [] then Some (in_SandboxID c) else None)\<rparr>"

definition insertTaskCommitTx :: "io \<Rightarrow> nat \<Rightarrow> TaskCommitInsert \<Rightarrow> time \<Rightarrow> Store \<Rightarrow> Store result" where
  "insertTaskCommitTx io n c now s =
     bind_result
       (wrap_err (''insert task_commit '' @ in_CommitHash c) (exec io (2 * n)
          (if \<exists>r \<in> set (task_commits s). tc_TaskID r = in_TaskID c \<and> tc_CommitHash r = in_CommitHash c
           then Inl (unique_failed ''task_commits.task_id, task_commits.commit_hash'')
           else Inr (s\<lparr>task_commits_seq := task_commits_seq s + 1,
                       task_commits := task_commits s @ [inserted_row (task_commits_seq s + 1) c now]\<rparr>))))
       (\<lambda>s1. if in_Origin c \<noteq> []
             then insertAdmission io (2 * n + 1) (inserted_row (task_commits_seq s1) c now) (in_Origin c)
                    (if in_Origin c = OriginHost then AdmissionDelivered else AdmissionPending)
                    (in_GuestContentHash c) now s1
             else Inr s1)"

definition AppendTaskCommit :: "io \<Rightarrow> time \<Rightarrow> TaskCommitInsert \<Rightarrow> Store \<Rightarrow> err option \<times> Store" where
  "AppendTaskCommit io now c s = WriteTx io (insertTaskCommitTx io 0 c now) s"

fun insert_all :: "io \<Rightarrow> nat \<Rightarrow> TaskCommitInsert list \<Rightarrow> time \<Rightarrow> Store \<Rightarrow> Store result" where
  "insert_all io n [] now s = Inr s"
| "insert_all io n (c # cs) now s =
     bind_result (insertTaskCommitTx io n c now s) (insert_all io (Suc n) cs now)"

definition AppendTaskCommits :: "io \<Rightarrow> time \<Rightarrow> TaskCommitInsert list \<Rightarrow> Store \<Rightarrow> err option \<times> Store" where
  "AppendTaskCommits io now ins s =
     (if ins = [] then (None, s) else WriteTx io (insert_all io 0 ins now) s)"

definition AddCommitToTask :: "io \<Rightarrow> time \<Rightarrow> string \<Rightarrow> string \<Rightarrow> string \<Rightarrow> string \<Rightarrow> int \<Rightarrow> Store
    \<Rightarrow> err option \<times> Store" where
  "AddCommitToTask io now taskID commitHash contentHash agentID position =
     AppendTaskCommit io now \<lparr>in_TaskID = taskID, in_CommitHash = commitHash,
       in_ContentHash = contentHash, in_AgentID = agentID, in_Position = position,
       in_SandboxID = [], in_Origin = OriginHost, in_GuestContentHash = []\<rparr>"

definition DeleteFromTask :: "string \<Rightarrow> string \<Rightarrow> Store \<Rightarrow> err option \<times> Store" where
  "DeleteFromTask taskID commitHash s =
     (Some (Wrap ''task_commits is append-only'' (Sentinel ErrAppendOnlyViolation)), s)"

section \<open>Reading the ledger\<close>

definition GetTaskCommits :: "io \<Rightarrow> string \<Rightarrow> Store \<Rightarrow> CommitRecord list result" where
  "GetTaskCommits io taskID =
     ReadTx io (\<lambda>t. wrap_err ''query task commits'' (exec io 0
       (Inr (sort_key tc_Position (filter (\<lambda>r. tc_TaskID r = taskID) (task_commits t))))))"

definition GetUnsandboxedCommits :: "io \<Rightarrow> Store \<Rightarrow> CommitRecord list result" where
  "GetUnsandboxedCommits io =
     ReadTx io (\<lambda>t. wrap_err ''query task commits'' (exec io 0
       (Inr (sort_key tc_ID (filter (\<lambda>r. tc_SandboxID r = None) (task_commits t))))))"

text \<open>
  \<open>LIMIT 1\<close> without \<open>ORDER BY\<close>: the index on \<open>commit_hash\<close> lists equal keys by row id,
  so the first row that was inserted answers.
\<close>

definition GetCommitProvenance :: "io \<Rightarrow> string \<Rightarrow> Store \<Rightarrow> (string \<times> string) result" where
  "GetCommitProvenance io commitHash s =
     (case ReadTx io (\<lambda>t. exec io 0 (Inr (find (\<lambda>r. tc_CommitHash r = commitHash) (task_commits t)))) s of
        Inl e \<Rightarrow> Inl (Wrap (''query commit provenance '' @ commitHash) e)
      | Inr None \<Rightarrow> Inl (Wrap commitHash (Sentinel ErrTaskNotFound))
      | Inr (Some r) \<Rightarrow> Inr (tc_TaskID r, tc_ContentHash r))"

definition GetCommitTask :: "io \<Rightarrow> string \<Rightarrow> Store \<Rightarrow> string result" where
  "GetCommitTask io commitHash s =
     bind_result (GetCommitProvenance io commitHash s) (\<lambda>p. Inr (fst p))"

section \<open>Content admission\<close>

record ContentRecord =
  cn_CommitRecord :: CommitRecord
  cn_Origin :: string
  cn_State :: string
  cn_GuestContentHash :: string

definition admission_of :: "CommitRecord \<Rightarrow> admission \<Rightarrow> bool" where
  "admission_of r a \<longleftrightarrow> ca_task_commit_id a = tc_ID r \<and> ca_task_id a = tc_TaskID r
     \<and> ca_commit_hash a = tc_CommitHash r \<and> ca_content_hash a = tc_ContentHash r"

text \<open>\<open>MAX(last.id)\<close>: ids grow with every insert, so the greatest is the last row.\<close>

definition latest_admission :: "Store \<Rightarrow> CommitRecord \<Rightarrow> admission option" where
  "latest_admission s r = find (admission_of r) (rev (content_admissions s))"

definition content_record :: "Store \<Rightarrow> CommitRecord \<Rightarrow> ContentRecord" where
  "content_record s r =
     (case latest_admission s r of
        None \<Rightarrow> \<lparr>cn_CommitRecord = r, cn_Origin = [], cn_State = [], cn_GuestContentHash = []\<rparr>
      | Some a \<Rightarrow> \<lparr>cn_CommitRecord = r, cn_Origin = ca_origin a, cn_State = ca_state a,
                   cn_GuestContentHash = ca_guest_content_hash a\<rparr>)"

text \<open>\<open>ORDER BY t.position, t.id\<close>: the table is in id order and the sort is stable.\<close>

definition readContentSnapshot :: "io \<Rightarrow> nat \<Rightarrow> (ContentRecord \<Rightarrow> bool) \<Rightarrow> Store \<Rightarrow> ContentRecord list result" where
  "readContentSnapshot io n p s =
     wrap_err ''read content eligibility''
       (exec io n (Inr (filter p (map (content_record s) (task_commits s)))))"

definition GetContentSnapshot :: "io \<Rightarrow> string \<Rightarrow> Store \<Rightarrow> ContentRecord list result" where
  "GetContentSnapshot io task =
     ReadTx io (\<lambda>t. bind_result
       (readContentSnapshot io 0 (\<lambda>c. tc_TaskID (cn_CommitRecord c) = task) t)
       (\<lambda>rs. Inr (sort_key (\<lambda>c. tc_Position (cn_CommitRecord c)) rs)))"

definition ambiguousContent :: "CommitRecord \<Rightarrow> err" where
  "ambiguousContent r = Errorf (''ambiguous content eligibility: task '' @ tc_TaskID r
     @ '' row '' @ show_int (tc_ID r) @ '' commit '' @ tc_CommitHash r)"

definition known_origin :: "ContentRecord \<Rightarrow> bool" where
  "known_origin r \<longleftrightarrow> (cn_Origin r = OriginHost \<and> cn_State r = AdmissionDelivered)
     \<or> (cn_Origin r = OriginLand \<and> (cn_State r = AdmissionPending \<or> cn_State r = AdmissionDelivered))"

definition RequireKnownContentOrigins :: "ContentRecord list \<Rightarrow> err option" where
  "RequireKnownContentOrigins records =
     first_err (\<lambda>r. if known_origin r then None else Some (ambiguousContent (cn_CommitRecord r))) records"

definition GetContentCommits :: "io \<Rightarrow> string \<Rightarrow> Store \<Rightarrow> CommitRecord list result" where
  "GetContentCommits io task s =
     bind_result (GetContentSnapshot io task s) (\<lambda>snapshot.
       case RequireKnownContentOrigins snapshot of
         Some e \<Rightarrow> Inl e
       | None \<Rightarrow>
           (let result = map cn_CommitRecord (filter (\<lambda>r. cn_State r = AdmissionDelivered) snapshot)
            in if snapshot \<noteq> [] \<and> result = [] then Inl (Errorf (''task '' @ task @ '': no delivered content''))
               else Inr result))"

definition RequireContentCommit :: "io \<Rightarrow> string \<Rightarrow> Store \<Rightarrow> err option" where
  "RequireContentCommit io hash s =
     (case ReadTx io (\<lambda>t. bind_result
             (readContentSnapshot io 0 (\<lambda>c. tc_CommitHash (cn_CommitRecord c) = hash) t)
             (\<lambda>rows. if rows = [] then Inl (Wrap hash (Sentinel UnindexedContentCommitError))
                else case RequireKnownContentOrigins rows of
                  Some e \<Rightarrow> Inl e
                | None \<Rightarrow>
                    if list_all (\<lambda>r. cn_State r = AdmissionDelivered) rows then Inr ()
                    else Inl (Errorf (''undelivered commit '' @ hash)))) s of
        Inl e \<Rightarrow> Some e
      | Inr _ \<Rightarrow> None)"

text \<open>\<open>RecordDelivered\<close>: one row of the argument after the other, in one transaction.\<close>

definition deliver_one :: "io \<Rightarrow> nat \<Rightarrow> time \<Rightarrow> CommitRecord \<Rightarrow> Store \<Rightarrow> Store result" where
  "deliver_one io n now rec s =
     bind_result
       (readContentSnapshot io (2 * n) (\<lambda>c. tc_CommitHash (cn_CommitRecord c) = tc_CommitHash rec) s)
       (\<lambda>rows.
          case find (\<lambda>c. tc_ID (cn_CommitRecord c) = tc_ID rec \<and> tc_TaskID (cn_CommitRecord c) = tc_TaskID rec
                       \<and> tc_ContentHash (cn_CommitRecord c) = tc_ContentHash rec) rows of
            None \<Rightarrow> Inl (Errorf (''delivery row binding mismatch: task '' @ tc_TaskID rec))
          | Some found \<Rightarrow>
              (case RequireKnownContentOrigins [found] of
                 Some e \<Rightarrow> Inl e
               | None \<Rightarrow>
                   if cn_State found = AdmissionDelivered then Inr s
                   else if cn_Origin found \<noteq> OriginLand \<or> cn_State found \<noteq> AdmissionPending
                   then Inl (Errorf ''invalid admission transition'')
                   else insertAdmission io (2 * n + 1) rec (cn_Origin found) AdmissionDelivered
                          (cn_GuestContentHash found) now s))"

fun deliver_all :: "io \<Rightarrow> nat \<Rightarrow> time \<Rightarrow> CommitRecord list \<Rightarrow> Store \<Rightarrow> Store result" where
  "deliver_all io n now [] s = Inr s"
| "deliver_all io n now (r # rs) s = bind_result (deliver_one io n now r s) (deliver_all io (Suc n) now rs)"

definition RecordDelivered :: "io \<Rightarrow> time \<Rightarrow> CommitRecord list \<Rightarrow> Store \<Rightarrow> err option \<times> Store" where
  "RecordDelivered io now records s = WriteTx io (deliver_all io 0 now records) s"

text \<open>\<open>LandAdmissions\<close>: the commits with an undelivered land row, and those whose land
  rows are all delivered.\<close>

definition LandAdmissions :: "io \<Rightarrow> Store \<Rightarrow> (string list \<times> string list) result" where
  "LandAdmissions io =
     ReadTx io (\<lambda>t. bind_result (readContentSnapshot io 0 (\<lambda>c. cn_Origin c = OriginLand) t)
       (\<lambda>rows. let hash = (\<lambda>c. tc_CommitHash (cn_CommitRecord c));
                   und = remdups (map hash (filter (\<lambda>c. cn_State c \<noteq> AdmissionDelivered) rows));
                   del = remdups (map hash (filter (\<lambda>c. cn_State c = AdmissionDelivered) rows))
               in Inr (und, filter (\<lambda>h. h \<notin> set und) del)))"

end
