(* ===== verification/Index_Registry.thy ===== *)
theory Index_Registry
  imports Index_Store
begin

text \<open>
  The mutable tables of \<open>internal/store/index\<close>: branches and their advisory locks
  (\<open>branches.go\<close>), the worktree registry (\<open>worktrees.go\<close>) and the registry of live
  sandboxes (\<open>sandboxes.go\<close>). The uniqueness constraints of \<open>schema.go\<close> decide who wins
  a task, a branch, a path.
\<close>

section \<open>Branches (\<open>branches.go\<close>)\<close>

definition CreateBranch :: "io \<Rightarrow> time \<Rightarrow> Branch \<Rightarrow> Store \<Rightarrow> err option \<times> Store" where
  "CreateBranch io now b s =
     WriteTx io (\<lambda>t.
       case exec io 0
         (if BName b \<in> br_name ` set (branches t) then Inl (unique_failed ''branches.name'')
          else Inr (t\<lparr>branches := branches t @
            [\<lparr>br_name = BName b, br_task_id = TaskID_String (BTaskID b), br_head_commit = HeadCommit b,
              br_status = ''active'', br_created_at = rfc3339 now\<rparr>]\<rparr>)) of
         Inl _ \<Rightarrow> Inl (Wrap (BName b) (Sentinel ErrBranchAlreadyExists))
       | Inr t' \<Rightarrow> Inr t') s"

definition DeleteBranch :: "io \<Rightarrow> string \<Rightarrow> Store \<Rightarrow> err option \<times> Store" where
  "DeleteBranch io name s =
     WriteTx io (\<lambda>t. wrap_err ''delete branch'' (exec io 0
       (Inr (t\<lparr>branches := filter (\<lambda>r. br_name r \<noteq> name) (branches t)\<rparr>)))) s"

text \<open>
  A task id column that does not parse reads as the zero id. The columns
  \<open>locked_by\<close>, \<open>locked_until\<close> and \<open>is_merged\<close> are never written by this package and keep
  their defaults. The status column is scanned into \<open>BranchID\<close>.
\<close>

definition branch_of_row :: "branch_row \<Rightarrow> Branch" where
  "branch_of_row r =
     \<lparr>BranchID = br_status r, BName = br_name r, HeadCommit = br_head_commit r,
      BTaskID = (case ParseTaskID (br_task_id r) of Inl _ \<Rightarrow> zero_TaskID | Inr t \<Rightarrow> t),
      BCreatedAt = br_created_at r, LockedBy = [], LockedUntil = zero_time,
      MergedTo = [], IsMerged = False\<rparr>"

definition GetBranch :: "io \<Rightarrow> string \<Rightarrow> Store \<Rightarrow> Branch result" where
  "GetBranch io name s =
     (case ReadTx io (\<lambda>t. exec io 0 (case find (\<lambda>r. br_name r = name) (branches t) of
             None \<Rightarrow> Inl (Errorf ''sql: no rows in result set'') | Some r \<Rightarrow> Inr r)) s of
        Inl _ \<Rightarrow> Inl (Wrap name (Sentinel ErrBranchNotFound))
      | Inr r \<Rightarrow> Inr (branch_of_row r))"

definition ListBranches :: "io \<Rightarrow> Store \<Rightarrow> Branch list result" where
  "ListBranches io = ReadTx io (\<lambda>t. exec io 0 (Inr (map branch_of_row (branches t))))"

definition UpdateBranchHead :: "io \<Rightarrow> string \<Rightarrow> string \<Rightarrow> Store \<Rightarrow> err option \<times> Store" where
  "UpdateBranchHead io name commitHash s =
     WriteTx io (\<lambda>t. bind_result
       (wrap_err ''update branch head'' (exec io 0 (Inr (t\<lparr>branches :=
          map (\<lambda>r. if br_name r = name then r\<lparr>br_head_commit := commitHash\<rparr> else r) (branches t)\<rparr>))))
       (\<lambda>t'. if name \<in> br_name ` set (branches t) then Inr t'
             else Inl (Wrap name (Sentinel ErrBranchNotFound)))) s"

section \<open>Advisory locks\<close>

definition LockBranch :: "io \<Rightarrow> time \<Rightarrow> string \<Rightarrow> string \<Rightarrow> int \<Rightarrow> Store \<Rightarrow> err option \<times> Store" where
  "LockBranch io now name agentID duration s =
     WriteTx io (\<lambda>t.
       let row = \<lparr>lk_branch_name = name, lk_agent_id = agentID, lk_locked_at = rfc3339 now,
                  lk_expires_at = rfc3339 (now + duration)\<rparr>
       in case (if io_exec io 0 = None then find (\<lambda>l. lk_branch_name l = name) (branch_locks t) else None) of
            Some l \<Rightarrow>
              if now < lk_expires_at l \<and> lk_agent_id l \<noteq> agentID
              then Inl (Wrap (lk_agent_id l) (Sentinel ErrBranchLocked))
              else exec io 1 (Inr (t\<lparr>branch_locks :=
                     map (\<lambda>k. if lk_branch_name k = name then row else k) (branch_locks t)\<rparr>))
          | None \<Rightarrow>
              exec io 1 (if name \<in> lk_branch_name ` set (branch_locks t)
                         then Inl (unique_failed ''branch_locks.branch_name'')
                         else Inr (t\<lparr>branch_locks := branch_locks t @ [row]\<rparr>))) s"

definition UnlockBranch :: "io \<Rightarrow> string \<Rightarrow> Store \<Rightarrow> err option \<times> Store" where
  "UnlockBranch io name s =
     WriteTx io (\<lambda>t. exec io 0 (Inr (t\<lparr>branch_locks :=
       filter (\<lambda>l. lk_branch_name l \<noteq> name) (branch_locks t)\<rparr>))) s"

section \<open>Worktrees (\<open>worktrees.go\<close>)\<close>

text \<open>
  \<open>classifyWorktreeConflict\<close> reads the text of the constraint error, which names the
  first index that refuses. SQLite checks the indexes of a table in the reverse of
  their declaration: \<open>task_id\<close>, then \<open>branch_name\<close>, then the primary key \<open>path\<close>. The
  holder named in the message is not modelled.
\<close>

datatype wt_conflict = PathTaken | BranchTaken | TaskTaken

definition worktree_conflict :: "WorktreeInfo \<Rightarrow> worktree_row list \<Rightarrow> wt_conflict option" where
  "worktree_conflict w rows =
     (if WTaskID w \<in> wt_task_id ` set rows then Some TaskTaken
      else if WBranch w \<in> wt_branch_name ` set rows then Some BranchTaken
      else if WPath w \<in> wt_path ` set rows then Some PathTaken
      else None)"

definition classifyWorktreeConflict :: "WorktreeInfo \<Rightarrow> wt_conflict \<Rightarrow> err" where
  "classifyWorktreeConflict w c =
     (case c of
        TaskTaken \<Rightarrow> Wrap (WTaskID w) (Sentinel ErrTaskAlreadyBound)
      | BranchTaken \<Rightarrow> Wrap (WBranch w) (Sentinel ErrBranchInUse)
      | PathTaken \<Rightarrow> Wrap (WPath w) (Sentinel ErrWorktreeExists))"

definition InsertWorktree :: "io \<Rightarrow> time \<Rightarrow> WorktreeInfo \<Rightarrow> Store \<Rightarrow> err option \<times> Store" where
  "InsertWorktree io now w s =
     WriteTx io (\<lambda>t.
       case io_exec io 0 of
         Some e \<Rightarrow> Inl (Wrap ''insert worktree'' e)
       | None \<Rightarrow>
           (case worktree_conflict w (worktrees t) of
              Some c \<Rightarrow> Inl (classifyWorktreeConflict w c)
            | None \<Rightarrow> Inr (t\<lparr>worktrees := worktrees t @
                [\<lparr>wt_path = WPath w, wt_branch_name = WBranch w, wt_task_id = WTaskID w,
                  wt_agent_id = WAgentID w, wt_created_at = rfc3339 now, wt_fork_base = ForkBase w\<rparr>]\<rparr>))) s"

text \<open>\<open>filepath.Base\<close> on Unix paths.\<close>

definition strip_slashes :: "string \<Rightarrow> string" where
  "strip_slashes p = rev (dropWhile (\<lambda>c. c = CHR ''/'') (rev p))"

definition DeriveNameFromPath :: "string \<Rightarrow> string" where
  "DeriveNameFromPath p =
     (if p = [] then ''.''
      else if strip_slashes p = [] then ''/''
      else last (split_on CHR ''/'' (strip_slashes p)))"

definition worktree_of_row :: "worktree_row \<Rightarrow> WorktreeInfo" where
  "worktree_of_row r =
     \<lparr>WPath = wt_path r, WName = DeriveNameFromPath (wt_path r), WBranch = wt_branch_name r,
      WTaskID = wt_task_id r, WAgentID = wt_agent_id r, WCreatedAt = wt_created_at r,
      LastCommitAt = zero_time, ForkBase = wt_fork_base r, Prunable = False,
      UncommittedPaths = [], UncommittedIncluded = False\<rparr>"

definition get_worktree :: "io \<Rightarrow> string \<Rightarrow> (worktree_row \<Rightarrow> bool) \<Rightarrow> Store \<Rightarrow> WorktreeInfo result" where
  "get_worktree io what p s =
     (case ReadTx io (\<lambda>t. exec io 0 (Inr (find p (worktrees t)))) s of
        Inl e \<Rightarrow> Inl (Wrap (''query worktree '' @ what) e)
      | Inr None \<Rightarrow> Inl (Wrap what (Sentinel ErrWorktreeNotFound))
      | Inr (Some r) \<Rightarrow> Inr (worktree_of_row r))"

definition GetWorktree :: "io \<Rightarrow> string \<Rightarrow> Store \<Rightarrow> WorktreeInfo result" where
  "GetWorktree io path = get_worktree io path (\<lambda>r. wt_path r = path)"

definition GetWorktreeByTask :: "io \<Rightarrow> string \<Rightarrow> Store \<Rightarrow> WorktreeInfo result" where
  "GetWorktreeByTask io taskID = get_worktree io taskID (\<lambda>r. wt_task_id r = taskID)"

definition ListWorktrees :: "io \<Rightarrow> Store \<Rightarrow> WorktreeInfo list result" where
  "ListWorktrees io = ReadTx io (\<lambda>t. exec io 0 (Inr (map worktree_of_row (worktrees t))))"

definition DeleteWorktree :: "io \<Rightarrow> string \<Rightarrow> Store \<Rightarrow> err option \<times> Store" where
  "DeleteWorktree io path s =
     WriteTx io (\<lambda>t. bind_result
       (wrap_err ''delete worktree'' (exec io 0
          (Inr (t\<lparr>worktrees := filter (\<lambda>r. wt_path r \<noteq> path) (worktrees t)\<rparr>))))
       (\<lambda>t'. if path \<in> wt_path ` set (worktrees t) then Inr t'
             else Inl (Wrap path (Sentinel ErrWorktreeNotFound)))) s"

section \<open>Live sandboxes (\<open>sandboxes.go\<close>)\<close>

definition formatRegistryTime :: "time \<Rightarrow> time" where
  "formatRegistryTime t = (if t = zero_time then zero_time else rfc3339 t)"

definition row_of_registration :: "time \<Rightarrow> SandboxRegistration \<Rightarrow> sandbox_row" where
  "row_of_registration now reg = (let i = reg_Info reg in
     \<lparr>sb_sandbox_id = si_ID i, sb_task_id = si_TaskID i, sb_worktree_path = si_WorktreePath i,
      sb_image_ref = reg_ImageRef reg, sb_image_digest = si_ImageDigest i, sb_backend = si_Backend i,
      sb_network_mode = si_NetworkMode i, sb_network_allowlist = si_NetworkAllowlist i,
      sb_publish_ports = si_PublishPorts i, sb_cpus = si_CPUs i, sb_memory_mb = si_MemoryMB i,
      sb_disk_quota_mb = si_DiskQuotaMB i, sb_ttl_ns = reg_TTL reg, sb_confine_agent = reg_ConfineAgent reg,
      sb_state = si_State i, sb_created_at = formatRegistryTime (si_CreatedAt i),
      sb_expires_at = formatRegistryTime (si_ExpiresAt i), sb_updated_at = rfc3339 now\<rparr>)"

definition scanSandboxRow :: "sandbox_row \<Rightarrow> SandboxRegistration" where
  "scanSandboxRow r =
     \<lparr>reg_Info = \<lparr>si_ID = sb_sandbox_id r, si_TaskID = sb_task_id r, si_WorktreePath = sb_worktree_path r,
        si_Backend = sb_backend r, si_ImageDigest = sb_image_digest r, si_NetworkMode = sb_network_mode r,
        si_NetworkAllowlist = sb_network_allowlist r, si_State = sb_state r, si_MemoryMB = sb_memory_mb r,
        si_CPUs = sb_cpus r, si_DiskQuotaMB = sb_disk_quota_mb r, si_CreatedAt = sb_created_at r,
        si_ExpiresAt = sb_expires_at r, si_PublishPorts = sb_publish_ports r, si_LastBootFailure = None\<rparr>,
      reg_ImageRef = sb_image_ref r, reg_TTL = sb_ttl_ns r, reg_ConfineAgent = sb_confine_agent r\<rparr>"

text \<open>\<open>ON CONFLICT(sandbox_id) DO UPDATE\<close>: every column but \<open>created_at\<close> is replaced;
  another row with the task or the worktree refuses the statement.\<close>

definition UpsertSandbox :: "io \<Rightarrow> time \<Rightarrow> SandboxRegistration \<Rightarrow> Store \<Rightarrow> err option \<times> Store" where
  "UpsertSandbox io now reg s =
     (case SandboxRegistration_Validate reg of
        Some e \<Rightarrow> (Some (Wrap ''upsert sandbox'' e), s)
      | None \<Rightarrow>
          WriteTx io (\<lambda>t.
            let row = row_of_registration now reg;
                others = filter (\<lambda>r. sb_sandbox_id r \<noteq> sb_sandbox_id row) (sandboxes t)
            in wrap_err (''upsert sandbox '' @ sb_sandbox_id row) (exec io 0
                 (if sb_worktree_path row \<in> sb_worktree_path ` set others
                  then Inl (unique_failed ''sandboxes.worktree_path'')
                  else if sb_task_id row \<in> sb_task_id ` set others
                  then Inl (unique_failed ''sandboxes.task_id'')
                  else Inr (t\<lparr>sandboxes :=
                    (if sb_sandbox_id row \<in> sb_sandbox_id ` set (sandboxes t)
                     then map (\<lambda>r. if sb_sandbox_id r = sb_sandbox_id row
                                   then row\<lparr>sb_created_at := sb_created_at r\<rparr> else r) (sandboxes t)
                     else sandboxes t @ [row])\<rparr>)))) s)"

definition requireOneRow :: "bool \<Rightarrow> string \<Rightarrow> 'a \<Rightarrow> 'a result" where
  "requireOneRow affected sandboxID x =
     (if affected then Inr x else Inl (Wrap sandboxID (Sentinel ErrSandboxNotFound)))"

definition SetSandboxState :: "io \<Rightarrow> time \<Rightarrow> string \<Rightarrow> string \<Rightarrow> Store \<Rightarrow> err option \<times> Store" where
  "SetSandboxState io now sandboxID state s =
     (if \<not> ValidSandboxState state then (Some (Errorf ''set sandbox state: unknown state''), s)
      else WriteTx io (\<lambda>t. bind_result
        (wrap_err ''set sandbox state'' (exec io 0 (Inr (t\<lparr>sandboxes :=
           map (\<lambda>r. if sb_sandbox_id r = sandboxID
                    then r\<lparr>sb_state := state, sb_updated_at := rfc3339 now\<rparr> else r) (sandboxes t)\<rparr>))))
        (\<lambda>t'. requireOneRow (sandboxID \<in> sb_sandbox_id ` set (sandboxes t)) sandboxID t')) s)"

definition DeleteSandbox :: "io \<Rightarrow> string \<Rightarrow> Store \<Rightarrow> err option \<times> Store" where
  "DeleteSandbox io sandboxID s =
     WriteTx io (\<lambda>t. bind_result
       (wrap_err ''delete sandbox'' (exec io 0
          (Inr (t\<lparr>sandboxes := filter (\<lambda>r. sb_sandbox_id r \<noteq> sandboxID) (sandboxes t)\<rparr>))))
       (\<lambda>t'. requireOneRow (sandboxID \<in> sb_sandbox_id ` set (sandboxes t)) sandboxID t')) s"

definition ListSandboxes :: "io \<Rightarrow> Store \<Rightarrow> SandboxRegistration list result" where
  "ListSandboxes io s =
     wrap_err ''list sandboxes''
       (ReadTx io (\<lambda>t. exec io 0 (Inr (map scanSandboxRow (sort_key sb_task_id (sandboxes t))))) s)"

end
