(* ===== verification/Index_History.thy ===== *)
theory Index_History
  imports Index_Commits Index_Registry
begin

text \<open>
  Histories of the index store: any sequence of calls, each with its own clock
  reading and its own database faults. The audit tables only grow, the row ids sort
  in append order, so that the derived lifecycle state is the one the last event
  announces, and the uniqueness rules hold at every moment.
\<close>

section \<open>Calls\<close>

datatype store_op =
    OpEvent io time SandboxEvent
  | OpEgress io time EgressRecord
  | OpCommit io time TaskCommitInsert
  | OpCommits io time "TaskCommitInsert list"
  | OpDelivered io time "CommitRecord list"
  | OpDeleteFromTask string string
  | OpCreateBranch io time Branch
  | OpDeleteBranch io string
  | OpHead io string string
  | OpLock io time string string int
  | OpUnlock io string
  | OpInsertWorktree io time WorktreeInfo
  | OpDeleteWorktree io string
  | OpUpsert io time SandboxRegistration
  | OpState io time string string
  | OpDeleteSandbox io string

fun store_call :: "ulid_lib \<Rightarrow> store_op \<Rightarrow> Store \<Rightarrow> err option \<times> Store" where
  "store_call U (OpEvent io now ev) = AppendSandboxEvent U io now ev"
| "store_call U (OpEgress io now r) = AppendEgressRecord U io now r"
| "store_call U (OpCommit io now c) = AppendTaskCommit io now c"
| "store_call U (OpCommits io now cs) = AppendTaskCommits io now cs"
| "store_call U (OpDelivered io now rs) = RecordDelivered io now rs"
| "store_call U (OpDeleteFromTask t c) = DeleteFromTask t c"
| "store_call U (OpCreateBranch io now b) = CreateBranch io now b"
| "store_call U (OpDeleteBranch io n) = DeleteBranch io n"
| "store_call U (OpHead io n h) = UpdateBranchHead io n h"
| "store_call U (OpLock io now n a d) = LockBranch io now n a d"
| "store_call U (OpUnlock io n) = UnlockBranch io n"
| "store_call U (OpInsertWorktree io now w) = InsertWorktree io now w"
| "store_call U (OpDeleteWorktree io p) = DeleteWorktree io p"
| "store_call U (OpUpsert io now r) = UpsertSandbox io now r"
| "store_call U (OpState io now i st) = SetSandboxState io now i st"
| "store_call U (OpDeleteSandbox io i) = DeleteSandbox io i"

definition store_step :: "ulid_lib \<Rightarrow> store_op \<Rightarrow> Store \<Rightarrow> Store" where
  "store_step U x s = snd (store_call U x s)"

section \<open>What one call may change\<close>

lemma WriteTx_inv:
  assumes "P s" "\<And>s'. fn s = Inr s' \<Longrightarrow> P s'"
  shows "P (snd (WriteTx io fn s))"
  using WriteTx_cases[of io fn s] assms by auto

lemma newULID_state:
  "snd (newULID U now s) = s\<lparr>ulidLastMs := max (ulid_Timestamp U now) (ulidLastMs s),
     ulidCalls := Suc (ulidCalls s)\<rparr>"
  by (simp add: newULID_def Let_def max_def split: sum.splits)

lemma newULID_value:
  "fst (newULID U now s) = Inr i
     \<longleftrightarrow> ulid_New U (ulidCalls s) (max (ulid_Timestamp U now) (ulidLastMs s)) = Inr i"
  by (auto simp: newULID_def Let_def max_def split: sum.splits)

text \<open>The three groups of tables, each owned by one group of calls.\<close>

definition audit_part :: "Store \<Rightarrow> SandboxEvent list \<times> EgressRecord list \<times> nat \<times> int" where
  "audit_part s = (sandbox_events s, sandbox_egress_log s, ulidCalls s, ulidLastMs s)"

definition ledger_part :: "Store \<Rightarrow> CommitRecord list \<times> int \<times> admission list \<times> int" where
  "ledger_part s = (task_commits s, task_commits_seq s, content_admissions s, content_admissions_seq s)"

definition registry_part :: "Store \<Rightarrow> branch_row list \<times> lock_row list \<times> worktree_row list \<times> sandbox_row list" where
  "registry_part s = (branches s, branch_locks s, worktrees s, sandboxes s)"

lemmas part_defs = audit_part_def ledger_part_def registry_part_def

datatype part = Audit | Ledger | Registry

fun part_of :: "store_op \<Rightarrow> part" where
  "part_of (OpEvent _ _ _) = Audit"
| "part_of (OpEgress _ _ _) = Audit"
| "part_of (OpCommit _ _ _) = Ledger"
| "part_of (OpCommits _ _ _) = Ledger"
| "part_of (OpDelivered _ _ _) = Ledger"
| "part_of (OpDeleteFromTask _ _) = Ledger"
| "part_of _ = Registry"

lemma insertAdmission_frame:
  assumes "insertAdmission io n r origin state g now s = Inr s'"
  shows "audit_part s' = audit_part s" "registry_part s' = registry_part s"
    "task_commits s' = task_commits s" "task_commits_seq s' = task_commits_seq s"
  using assms by (auto simp: insertAdmission_def part_defs split: if_splits)

definition add_row :: "TaskCommitInsert \<Rightarrow> time \<Rightarrow> Store \<Rightarrow> Store" where
  "add_row c now s = s\<lparr>task_commits_seq := task_commits_seq s + 1,
     task_commits := task_commits s @ [inserted_row (task_commits_seq s + 1) c now]\<rparr>"

definition first_state :: "string \<Rightarrow> string" where
  "first_state origin = (if origin = OriginHost then AdmissionDelivered else AdmissionPending)"

lemma insertTaskCommitTx_Inr:
  assumes "insertTaskCommitTx io n c now s = Inr s'"
  shows "\<not> (\<exists>r \<in> set (task_commits s). tc_TaskID r = in_TaskID c \<and> tc_CommitHash r = in_CommitHash c)"
    "if in_Origin c = [] then s' = add_row c now s
     else insertAdmission io (2 * n + 1) (inserted_row (task_commits_seq s + 1) c now) (in_Origin c)
            (first_state (in_Origin c)) (in_GuestContentHash c) now (add_row c now s) = Inr s'"
  using assms unfolding insertTaskCommitTx_def add_row_def first_state_def
  by (auto split: if_splits)

lemma insertTaskCommitTx_frame:
  assumes "insertTaskCommitTx io n c now s = Inr s'"
  shows "audit_part s' = audit_part s" "registry_part s' = registry_part s"
proof -
  have "audit_part s' = audit_part (add_row c now s) \<and> registry_part s' = registry_part (add_row c now s)"
    using insertTaskCommitTx_Inr(2)[OF assms] by (auto split: if_splits dest: insertAdmission_frame)
  then show "audit_part s' = audit_part s" "registry_part s' = registry_part s"
    by (simp_all add: add_row_def part_defs)
qed

lemma insert_all_frame:
  "insert_all io n cs now s = Inr s' \<Longrightarrow> audit_part s' = audit_part s \<and> registry_part s' = registry_part s"
proof (induction cs arbitrary: n s)
  case (Cons c cs)
  then obtain s1 where "insertTaskCommitTx io n c now s = Inr s1" "insert_all io (Suc n) cs now s1 = Inr s'"
    by auto
  then show ?case using Cons.IH insertTaskCommitTx_frame by metis
qed simp

lemma deliver_one_Inr:
  assumes "deliver_one io n now r s = Inr s'"
  obtains (same) found where "s' = s" "found \<in> set (map (content_record s) (task_commits s))"
      "cn_State found = AdmissionDelivered"
      "tc_CommitHash (cn_CommitRecord found) = tc_CommitHash r" "tc_ID (cn_CommitRecord found) = tc_ID r"
      "tc_TaskID (cn_CommitRecord found) = tc_TaskID r"
      "tc_ContentHash (cn_CommitRecord found) = tc_ContentHash r"
  | (delivered) m found where "insertAdmission io m r (cn_Origin found) AdmissionDelivered
        (cn_GuestContentHash found) now s = Inr s'"
      "found \<in> set (map (content_record s) (task_commits s))"
      "cn_Origin found = OriginLand" "cn_State found = AdmissionPending"
      "tc_CommitHash (cn_CommitRecord found) = tc_CommitHash r" "tc_ID (cn_CommitRecord found) = tc_ID r"
      "tc_TaskID (cn_CommitRecord found) = tc_TaskID r"
      "tc_ContentHash (cn_CommitRecord found) = tc_ContentHash r"
proof -
  obtain rows where rows: "rows = filter (\<lambda>c. tc_CommitHash (cn_CommitRecord c) = tc_CommitHash r)
      (map (content_record s) (task_commits s))"
    and rest: "(case find (\<lambda>c. tc_ID (cn_CommitRecord c) = tc_ID r \<and> tc_TaskID (cn_CommitRecord c) = tc_TaskID r
                       \<and> tc_ContentHash (cn_CommitRecord c) = tc_ContentHash r) rows of
            None \<Rightarrow> Inl (Errorf (''delivery row binding mismatch: task '' @ tc_TaskID r))
          | Some found \<Rightarrow>
              (case RequireKnownContentOrigins [found] of
                 Some e \<Rightarrow> Inl e
               | None \<Rightarrow>
                   if cn_State found = AdmissionDelivered then Inr s
                   else if cn_Origin found \<noteq> OriginLand \<or> cn_State found \<noteq> AdmissionPending
                   then Inl (Errorf ''invalid admission transition'')
                   else insertAdmission io (2 * n + 1) r (cn_Origin found) AdmissionDelivered
                          (cn_GuestContentHash found) now s)) = Inr s'"
    using assms by (auto simp: deliver_one_def readContentSnapshot_def)
  from rest obtain found where f: "find (\<lambda>c. tc_ID (cn_CommitRecord c) = tc_ID r \<and> tc_TaskID (cn_CommitRecord c) = tc_TaskID r
                       \<and> tc_ContentHash (cn_CommitRecord c) = tc_ContentHash r) rows = Some found"
    by (auto split: option.splits)
  then have m: "found \<in> set rows" "tc_ID (cn_CommitRecord found) = tc_ID r"
      "tc_TaskID (cn_CommitRecord found) = tc_TaskID r" "tc_ContentHash (cn_CommitRecord found) = tc_ContentHash r"
    by (auto simp: find_Some_iff)
  have "(s' = s \<and> cn_State found = AdmissionDelivered) \<or> (cn_Origin found = OriginLand \<and> cn_State found = AdmissionPending
      \<and> insertAdmission io (2 * n + 1) r (cn_Origin found) AdmissionDelivered (cn_GuestContentHash found) now s = Inr s')"
    using rest f by (auto split: option.splits if_splits)
  moreover have "found \<in> set (map (content_record s) (task_commits s))"
    "tc_CommitHash (cn_CommitRecord found) = tc_CommitHash r" using m(1) rows by auto
  ultimately show thesis using m same delivered by blast
qed

lemma deliver_all_frame:
  "deliver_all io n now rs s = Inr s' \<Longrightarrow> audit_part s' = audit_part s \<and> registry_part s' = registry_part s"
proof (induction rs arbitrary: n s)
  case (Cons r rs)
  then obtain s1 where s1: "deliver_one io n now r s = Inr s1" "deliver_all io (Suc n) now rs s1 = Inr s'"
    by auto
  from s1(1) have "audit_part s1 = audit_part s \<and> registry_part s1 = registry_part s"
    by (cases rule: deliver_one_Inr) (auto dest: insertAdmission_frame)
  then show ?case using Cons.IH[OF s1(2)] by simp
qed simp

text \<open>A transaction that keeps a part of the store, whatever the database answers.\<close>

lemma WriteTx_keeps:
  assumes "\<And>s'. fn s = Inr s' \<Longrightarrow> f s' = f s"
  shows "f (snd (WriteTx io fn s)) = f s"
  by (rule WriteTx_inv) (use assms in auto)

lemma ledger_frame:
  assumes "part_of x = Ledger"
  shows "audit_part (store_step U x s) = audit_part s" "registry_part (store_step U x s) = registry_part s"
proof -
  let ?f = "\<lambda>t. (audit_part t, registry_part t)"
  have "?f (snd (AppendTaskCommit io now c s)) = ?f s" for io now c
    unfolding AppendTaskCommit_def by (rule WriteTx_keeps) (simp add: insertTaskCommitTx_frame)
  moreover have "?f (snd (AppendTaskCommits io now cs s)) = ?f s" for io now cs
    unfolding AppendTaskCommits_def
    by (cases "cs = []") (use WriteTx_keeps[of _ s ?f] insert_all_frame in auto)
  moreover have "?f (snd (RecordDelivered io now rs s)) = ?f s" for io now rs
    unfolding RecordDelivered_def by (rule WriteTx_keeps) (use deliver_all_frame in auto)
  ultimately have "?f (store_step U x s) = ?f s"
    using assms by (cases x) (simp_all add: store_step_def DeleteFromTask_def)
  then show "audit_part (store_step U x s) = audit_part s" "registry_part (store_step U x s) = registry_part s"
    by simp_all
qed

lemma newULID_tables [simp]:
  "sandbox_events (snd (newULID U now s)) = sandbox_events s"
  "sandbox_egress_log (snd (newULID U now s)) = sandbox_egress_log s"
  by (simp_all add: newULID_state)

lemma AppendSandboxEvent_cases:
  assumes "AppendSandboxEvent U io now ev s = (res, s')"
  obtains (invalid) "res \<noteq> None" "s' = s"
  | (refused) "res \<noteq> None" "s' = snd (newULID U now s)"
  | (stored) i where "res = None" "SandboxEvent_Validate ev = None" "fst (newULID U now s) = Inr i"
      "s' = (snd (newULID U now s))\<lparr>sandbox_events := sandbox_events s @ [stored_event i now ev]\<rparr>"
proof -
  obtain r s1 where u: "newULID U now s = (r, s1)" by fastforce
  then have s1: "sandbox_events s1 = sandbox_events s" using newULID_tables(1)[of U now s] by simp
  let ?f = "\<lambda>i t. wrap_err ''insert sandbox event'' (exec io 0
      (if i \<in> ev_ID ` set (sandbox_events t) then Inl (unique_failed ''sandbox_events.id'')
       else Inr (t\<lparr>sandbox_events := sandbox_events t @ [stored_event i now ev]\<rparr>)))"
  have tx: "(\<exists>e. WriteTx io (?f i) s1 = (Some e, s1)) \<or>
      WriteTx io (?f i) s1 = (None, s1\<lparr>sandbox_events := sandbox_events s @ [stored_event i now ev]\<rparr>)" for i
    using WriteTx_cases[of io "?f i" s1] s1 by (auto split: if_splits)
  show thesis
  proof (cases "SandboxEvent_Validate ev")
    case (Some e)
    then show thesis using assms invalid by (auto simp: AppendSandboxEvent_def)
  next
    case v: None
    show thesis
    proof (cases r)
      case (Inl e)
      then show thesis using assms u v refused by (auto simp: AppendSandboxEvent_def)
    next
      case (Inr i)
      then have "WriteTx io (?f i) s1 = (res, s')" using assms u v by (simp add: AppendSandboxEvent_def)
      with tx[of i] show thesis
      proof (elim disjE exE)
        fix e
        assume "WriteTx io (?f i) s1 = (res, s')" "WriteTx io (?f i) s1 = (Some e, s1)"
        then show thesis using u refused by auto
      qed (use u v Inr stored in simp)
    qed
  qed
qed

lemma AppendEgressRecord_cases:
  assumes "AppendEgressRecord U io now r s = (res, s')"
  obtains (invalid) "res \<noteq> None" "s' = s"
  | (refused) "res \<noteq> None" "s' = snd (newULID U now s)"
  | (stored) i where "res = None" "EgressRecord_Validate r = None" "fst (newULID U now s) = Inr i"
      "s' = (snd (newULID U now s))\<lparr>sandbox_egress_log := sandbox_egress_log s @ [stored_record i now r]\<rparr>"
proof -
  obtain q s1 where u: "newULID U now s = (q, s1)" by fastforce
  then have s1: "sandbox_egress_log s1 = sandbox_egress_log s" using newULID_tables(2)[of U now s] by simp
  let ?f = "\<lambda>i t. wrap_err ''insert egress record'' (exec io 0
      (if i \<in> eg_ID ` set (sandbox_egress_log t) then Inl (unique_failed ''sandbox_egress_log.id'')
       else Inr (t\<lparr>sandbox_egress_log := sandbox_egress_log t @ [stored_record i now r]\<rparr>)))"
  have tx: "(\<exists>e. WriteTx io (?f i) s1 = (Some e, s1)) \<or>
      WriteTx io (?f i) s1 = (None, s1\<lparr>sandbox_egress_log := sandbox_egress_log s @ [stored_record i now r]\<rparr>)" for i
    using WriteTx_cases[of io "?f i" s1] s1 by (auto split: if_splits)
  show thesis
  proof (cases "EgressRecord_Validate r")
    case (Some e)
    then show thesis using assms invalid by (auto simp: AppendEgressRecord_def)
  next
    case v: None
    show thesis
    proof (cases q)
      case (Inl e)
      then show thesis using assms u v refused by (auto simp: AppendEgressRecord_def)
    next
      case (Inr i)
      then have "WriteTx io (?f i) s1 = (res, s')" using assms u v by (simp add: AppendEgressRecord_def)
      with tx[of i] show thesis
      proof (elim disjE exE)
        fix e
        assume "WriteTx io (?f i) s1 = (res, s')" "WriteTx io (?f i) s1 = (Some e, s1)"
        then show thesis using u refused by auto
      qed (use u v Inr stored in simp)
    qed
  qed
qed

lemma audit_frame:
  assumes "part_of x = Audit"
  shows "ledger_part (store_step U x s) = ledger_part s" "registry_part (store_step U x s) = registry_part s"
proof -
  let ?f = "\<lambda>t. (ledger_part t, registry_part t)"
  have u: "?f (snd (newULID U now s)) = ?f s" for now by (simp add: newULID_state part_defs)
  have "?f (snd (AppendSandboxEvent U io now ev s)) = ?f s" for io now ev
    by (rule AppendSandboxEvent_cases[OF surjective_pairing[of "AppendSandboxEvent U io now ev s"]])
      (use u in \<open>simp_all add: part_defs\<close>)
  moreover have "?f (snd (AppendEgressRecord U io now r s)) = ?f s" for io now r
    by (rule AppendEgressRecord_cases[OF surjective_pairing[of "AppendEgressRecord U io now r s"]])
      (use u in \<open>simp_all add: part_defs\<close>)
  ultimately have "?f (store_step U x s) = ?f s"
    using assms by (cases x) (simp_all add: store_step_def)
  then show "ledger_part (store_step U x s) = ledger_part s" "registry_part (store_step U x s) = registry_part s"
    by simp_all
qed

text \<open>The registry calls: one statement of the mutable tables each.\<close>

lemma registry_frame:
  assumes "part_of x = Registry"
  shows "audit_part (store_step U x s) = audit_part s" "ledger_part (store_step U x s) = ledger_part s"
proof -
  let ?f = "\<lambda>t. (audit_part t, ledger_part t)"
  have "?f (snd (CreateBranch io now b s)) = ?f s" for io now b
    unfolding CreateBranch_def by (rule WriteTx_keeps) (auto simp: part_defs split: sum.splits if_splits)
  moreover have "?f (snd (DeleteBranch io n s)) = ?f s" for io n
    unfolding DeleteBranch_def by (rule WriteTx_keeps) (auto simp: part_defs)
  moreover have "?f (snd (UpdateBranchHead io n h s)) = ?f s" for io n h
    unfolding UpdateBranchHead_def by (rule WriteTx_keeps) (auto simp: part_defs split: if_splits)
  moreover have "?f (snd (LockBranch io now n a d s)) = ?f s" for io now n a d
    unfolding LockBranch_def Let_def
    by (rule WriteTx_keeps) (auto simp: part_defs split: option.splits if_splits)
  moreover have "?f (snd (UnlockBranch io n s)) = ?f s" for io n
    unfolding UnlockBranch_def by (rule WriteTx_keeps) (auto simp: part_defs)
  moreover have "?f (snd (InsertWorktree io now w s)) = ?f s" for io now w
    unfolding InsertWorktree_def by (rule WriteTx_keeps) (auto simp: part_defs split: option.splits)
  moreover have "?f (snd (DeleteWorktree io p s)) = ?f s" for io p
    unfolding DeleteWorktree_def by (rule WriteTx_keeps) (auto simp: part_defs split: if_splits)
  moreover have "?f (snd (UpsertSandbox io now r s)) = ?f s" for io now r
    unfolding UpsertSandbox_def Let_def
    by (cases "SandboxRegistration_Validate r", simp_all only: option.case snd_conv, rule WriteTx_keeps)
      (auto simp: part_defs split: if_splits)
  moreover have "?f (snd (SetSandboxState io now i st s)) = ?f s" for io now i st
    unfolding SetSandboxState_def requireOneRow_def
    by (cases "ValidSandboxState st", simp_all only: if_True if_False not_True_eq_False not_False_eq_True
        snd_conv, rule WriteTx_keeps) (auto simp: part_defs split: if_splits)
  moreover have "?f (snd (DeleteSandbox io i s)) = ?f s" for io i
    unfolding DeleteSandbox_def requireOneRow_def
    by (rule WriteTx_keeps) (auto simp: part_defs split: if_splits)
  ultimately have "?f (store_step U x s) = ?f s"
    using assms by (cases x) (simp_all add: store_step_def)
  then show "audit_part (store_step U x s) = audit_part s" "ledger_part (store_step U x s) = ledger_part s"
    by simp_all
qed

section \<open>The audit tables only grow\<close>

lemma insertAdmission_Inr:
  assumes "insertAdmission io n r origin state g now s = Inr s'"
  shows "origin \<in> {OriginHost, OriginLand}" "state \<in> {AdmissionPending, AdmissionDelivered}"
    "s' = s\<lparr>content_admissions_seq := content_admissions_seq s + 1,
       content_admissions := content_admissions s @
         [\<lparr>ca_id = content_admissions_seq s + 1, ca_task_commit_id = tc_ID r, ca_task_id = tc_TaskID r,
           ca_commit_hash = tc_CommitHash r, ca_content_hash = tc_ContentHash r, ca_origin = origin,
           ca_state = state, ca_guest_content_hash = g, ca_created_at = rfc3339 now\<rparr>]\<rparr>"
  using assms by (auto simp: insertAdmission_def split: if_splits)

definition extends :: "Store \<Rightarrow> Store \<Rightarrow> bool" where
  "extends s s' \<longleftrightarrow> (\<exists>c. task_commits s' = task_commits s @ c) \<and>
     (\<exists>a. content_admissions s' = content_admissions s @ a) \<and>
     (\<exists>e. sandbox_events s' = sandbox_events s @ e) \<and>
     (\<exists>g. sandbox_egress_log s' = sandbox_egress_log s @ g)"

lemma extends_refl [simp]: "extends s s" by (simp add: extends_def)

lemma extends_trans: "extends r s \<Longrightarrow> extends s t \<Longrightarrow> extends r t"
  by (auto simp: extends_def)

lemma insertAdmission_extends: "insertAdmission io n r origin state g now s = Inr s' \<Longrightarrow> extends s s'"
  using insertAdmission_Inr(3)[of io n r origin state g now s s'] by (simp add: extends_def)

lemma insertTaskCommitTx_extends:
  assumes "insertTaskCommitTx io n c now s = Inr s'"
  shows "extends s s'"
proof (rule extends_trans)
  show "extends s (add_row c now s)" by (simp add: extends_def add_row_def)
  show "extends (add_row c now s) s'"
    using insertTaskCommitTx_Inr(2)[OF assms] by (auto split: if_splits dest: insertAdmission_extends)
qed

lemma insert_all_extends: "insert_all io n cs now s = Inr s' \<Longrightarrow> extends s s'"
proof (induction cs arbitrary: n s)
  case (Cons c cs)
  then obtain s1 where "insertTaskCommitTx io n c now s = Inr s1" "insert_all io (Suc n) cs now s1 = Inr s'"
    by auto
  then show ?case using Cons.IH insertTaskCommitTx_extends extends_trans by blast
qed auto

lemma deliver_all_extends: "deliver_all io n now rs s = Inr s' \<Longrightarrow> extends s s'"
proof (induction rs arbitrary: n s)
  case (Cons r rs)
  then obtain s1 where s1: "deliver_one io n now r s = Inr s1" "deliver_all io (Suc n) now rs s1 = Inr s'"
    by auto
  from s1(1) have "extends s s1"
    by (cases rule: deliver_one_Inr) (auto dest: insertAdmission_extends)
  then show ?case using Cons.IH[OF s1(2)] extends_trans by blast
qed auto

lemma extends_frame:
  "extends s s' \<longleftrightarrow> (\<exists>c. fst (ledger_part s') = task_commits s @ c) \<and>
     (\<exists>a. fst (snd (snd (ledger_part s'))) = content_admissions s @ a) \<and>
     (\<exists>e. fst (audit_part s') = sandbox_events s @ e) \<and>
     (\<exists>g. fst (snd (audit_part s')) = sandbox_egress_log s @ g)"
  by (simp add: extends_def part_defs)

lemma store_step_extends: "extends s (store_step U x s)"
proof (cases "part_of x")
  case Registry
  show ?thesis unfolding extends_frame registry_frame[OF Registry] by (simp add: part_defs)
next
  case Audit
  have "extends s (snd (AppendSandboxEvent U io now ev s))" for io now ev
    by (rule AppendSandboxEvent_cases[OF surjective_pairing[of "AppendSandboxEvent U io now ev s"]])
      (simp_all add: extends_def newULID_state)
  moreover have "extends s (snd (AppendEgressRecord U io now r s))" for io now r
    by (rule AppendEgressRecord_cases[OF surjective_pairing[of "AppendEgressRecord U io now r s"]])
      (simp_all add: extends_def newULID_state)
  ultimately show ?thesis using Audit by (cases x) (simp_all add: store_step_def)
next
  case Ledger
  have "extends s (snd (AppendTaskCommit io now c s))" for io now c
    unfolding AppendTaskCommit_def by (rule WriteTx_inv) (auto dest: insertTaskCommitTx_extends)
  moreover have "extends s (snd (AppendTaskCommits io now cs s))" for io now cs
    unfolding AppendTaskCommits_def
    using WriteTx_inv[of "extends s" s "insert_all io 0 cs now"] insert_all_extends by simp
  moreover have "extends s (snd (RecordDelivered io now rs s))" for io now rs
    unfolding RecordDelivered_def by (rule WriteTx_inv) (auto dest: deliver_all_extends)
  ultimately show ?thesis using Ledger by (cases x) (simp_all add: store_step_def DeleteFromTask_def)
qed

interpretation commits_log: append_only_log "store_step U" task_commits for U
  by unfold_locales (use store_step_extends in \<open>simp add: extends_def\<close>)

interpretation admissions_log: append_only_log "store_step U" content_admissions for U
  by unfold_locales (use store_step_extends in \<open>simp add: extends_def\<close>)

interpretation events_log: append_only_log "store_step U" sandbox_events for U
  by unfold_locales (use store_step_extends in \<open>simp add: extends_def\<close>)

interpretation egress_log: append_only_log "store_step U" sandbox_egress_log for U
  by unfold_locales (use store_step_extends in \<open>simp add: extends_def\<close>)

section \<open>Row ids sort in append order\<close>

text \<open>
  What the code relies on of the ULID library: for timestamps that do not decrease,
  a later call returns a greater id.
\<close>

definition ulid_monotone :: "ulid_lib \<Rightarrow> bool" where
  "ulid_monotone U \<longleftrightarrow> (\<forall>i j m n a b. i < j \<and> m \<le> n \<and> ulid_New U i m = Inr a \<and> ulid_New U j n = Inr b
     \<longrightarrow> a < b)"

definition issued :: "ulid_lib \<Rightarrow> Store \<Rightarrow> string \<Rightarrow> bool" where
  "issued U s i \<longleftrightarrow> (\<exists>n m. n < ulidCalls s \<and> m \<le> ulidLastMs s \<and> ulid_New U n m = Inr i)"

definition audit_inv :: "ulid_lib \<Rightarrow> Store \<Rightarrow> bool" where
  "audit_inv U s \<longleftrightarrow>
     sorted_wrt (<) (map ev_ID (sandbox_events s)) \<and> (\<forall>e \<in> set (sandbox_events s). issued U s (ev_ID e)) \<and>
     sorted_wrt (<) (map eg_ID (sandbox_egress_log s)) \<and> (\<forall>r \<in> set (sandbox_egress_log s). issued U s (eg_ID r)) \<and>
     (\<forall>e \<in> set (sandbox_events s). isValidEventType (ev_EventType e))"

lemma issued_newULID: "issued U s i \<Longrightarrow> issued U (snd (newULID U now s)) i"
  by (auto simp: issued_def newULID_state intro: less_SucI max.coboundedI2)

lemma newULID_fresh:
  assumes "fst (newULID U now s) = Inr i"
  shows "issued U (snd (newULID U now s)) i" "ulid_monotone U \<Longrightarrow> issued U s j \<Longrightarrow> j < i"
proof -
  have i: "ulid_New U (ulidCalls s) (max (ulid_Timestamp U now) (ulidLastMs s)) = Inr i"
    using assms by (simp add: newULID_value)
  then show "issued U (snd (newULID U now s)) i" by (auto simp: issued_def newULID_state)
  assume "ulid_monotone U" "issued U s j"
  then show "j < i" using i unfolding ulid_monotone_def issued_def by (meson max.coboundedI2)
qed

lemma audit_inv_cong:
  "audit_part s' = audit_part s \<Longrightarrow> audit_inv U s' = audit_inv U s"
  by (simp add: audit_inv_def issued_def audit_part_def)

lemma audit_inv_newULID: "audit_inv U s \<Longrightarrow> audit_inv U (snd (newULID U now s))"
  unfolding audit_inv_def by (simp add: issued_newULID)

lemma issued_tables:
  "issued U (s\<lparr>sandbox_events := es\<rparr>) i = issued U s i"
  "issued U (s\<lparr>sandbox_egress_log := gs\<rparr>) i = issued U s i"
  by (simp_all add: issued_def)

lemma audit_inv_event:
  assumes "ulid_monotone U" "audit_inv U s" "fst (newULID U now s) = Inr i" "SandboxEvent_Validate ev = None"
  shows "audit_inv U ((snd (newULID U now s))\<lparr>sandbox_events := sandbox_events s @ [stored_event i now ev]\<rparr>)"
proof -
  have "isValidEventType (ev_EventType ev)" using assms(4) by (simp add: SandboxEvent_Validate_def)
  moreover have "\<forall>e \<in> set (sandbox_events s). ev_ID e < i"
    using assms newULID_fresh(2) by (simp add: audit_inv_def)
  ultimately show ?thesis
    using assms(2) newULID_fresh(1)[OF assms(3)]
    by (auto simp: audit_inv_def issued_tables issued_newULID sorted_wrt_append stored_event_def)
qed

lemma audit_inv_egress:
  assumes "ulid_monotone U" "audit_inv U s" "fst (newULID U now s) = Inr i"
  shows "audit_inv U ((snd (newULID U now s))\<lparr>sandbox_egress_log := sandbox_egress_log s @ [stored_record i now r]\<rparr>)"
proof -
  have "\<forall>e \<in> set (sandbox_egress_log s). eg_ID e < i"
    using assms newULID_fresh(2) by (simp add: audit_inv_def)
  then show ?thesis
    using assms(2) newULID_fresh(1)[OF assms(3)]
    by (auto simp: audit_inv_def issued_tables issued_newULID sorted_wrt_append stored_record_def)
qed

lemma audit_inv_step:
  assumes "ulid_monotone U" "audit_inv U s"
  shows "audit_inv U (store_step U x s)"
proof (cases "part_of x")
  case Registry
  then show ?thesis using assms(2) audit_inv_cong registry_frame(1) by blast
next
  case Ledger
  then show ?thesis using assms(2) audit_inv_cong ledger_frame(1) by blast
next
  case Audit
  have "audit_inv U (snd (AppendSandboxEvent U io now ev s))" for io now ev
    by (rule AppendSandboxEvent_cases[OF surjective_pairing[of "AppendSandboxEvent U io now ev s"]])
      (simp_all add: assms audit_inv_newULID audit_inv_event)
  moreover have "audit_inv U (snd (AppendEgressRecord U io now r s))" for io now r
    by (rule AppendEgressRecord_cases[OF surjective_pairing[of "AppendEgressRecord U io now r s"]])
      (simp_all add: assms audit_inv_newULID audit_inv_egress)
  ultimately show ?thesis using Audit by (cases x) (simp_all add: store_step_def)
qed

lemma audit_inv_run:
  "ulid_monotone U \<Longrightarrow> audit_inv U s \<Longrightarrow> audit_inv U (fold (store_step U) ops s)"
  by (induction ops arbitrary: s) (simp_all add: audit_inv_step)

lemma audit_inv_empty: "audit_inv U empty_Store"
  by (simp add: audit_inv_def empty_Store_def)

section \<open>Properties\<close>

text \<open>
  C3. The audit tables are append-only: after any sequence of store calls, of any
  kind, with any arguments and any database faults, every row of the ledger, of the
  admissions, of the lifecycle events and of the egress log is still there, in its
  place, unchanged.
\<close>

theorem audit_tables_append_only:
  "(\<exists>c. task_commits (fold (store_step U) ops s) = task_commits s @ c) \<and>
   (\<exists>a. content_admissions (fold (store_step U) ops s) = content_admissions s @ a) \<and>
   (\<exists>e. sandbox_events (fold (store_step U) ops s) = sandbox_events s @ e) \<and>
   (\<exists>g. sandbox_egress_log (fold (store_step U) ops s) = sandbox_egress_log s @ g)"
  by (intro conjI commits_log.run_extends admissions_log.run_extends events_log.run_extends
      egress_log.run_extends)

lemma sort_key_sorted:
  fixes f :: "'a \<Rightarrow> 'b::linorder"
  assumes "sorted_wrt (<) (map f xs)"
  shows "sort_key f (filter p xs) = filter p xs"
proof (rule sort_key_id_if_sorted)
  have "sorted (map f xs)" using assms by (rule sorted_wrt_mono_rel[rotated]) simp
  then show "sorted (map f (filter p xs))" by (rule sorted_filter)
qed

lemma state_event_known:
  "isValidEventType t \<Longrightarrow> t \<notin> set nonStateEventTypes \<Longrightarrow> \<exists>st. StateForEvent t = Some st"
  by (auto simp: isValidEventType_def StateForEvent_def)

text \<open>
  The lifecycle state of a sandbox is the one its last state-bearing event
  announces: after any history of calls on a fresh index, with ids from a ULID source
  that grows, the event stream is read back in the order it was appended, the
  derived state is that of the last appended event that is not audit-only, and a
  sandbox without one is not found. The \<open>corrupt event type\<close> branch is unreachable.
\<close>

theorem derived_state_is_latest:
  assumes "ulid_monotone U" "s = fold (store_step U) ops empty_Store"
  shows "ListSandboxEvents no_fault sid s = Inr (filter (\<lambda>e. ev_SandboxID e = sid) (sandbox_events s)) \<and>
    (case rev (filter (\<lambda>e. ev_SandboxID e = sid \<and> ev_EventType e \<notin> set nonStateEventTypes) (sandbox_events s)) of
       [] \<Rightarrow> (\<exists>e. DeriveState no_fault sid s = Inl e \<and> errors_is e ErrSandboxNotFound)
     | ev # _ \<Rightarrow> (\<exists>st. StateForEvent (ev_EventType ev) = Some st \<and> DeriveState no_fault sid s = Inr st))"
proof
  have inv: "audit_inv U s" using assms audit_inv_run audit_inv_empty by blast
  then have sorted: "sorted_wrt (<) (map ev_ID (sandbox_events s))" by (simp add: audit_inv_def)
  show "ListSandboxEvents no_fault sid s = Inr (filter (\<lambda>e. ev_SandboxID e = sid) (sandbox_events s))"
    by (simp add: ListSandboxEvents_def sort_key_sorted[OF sorted])
  let ?es = "filter (\<lambda>e. ev_SandboxID e = sid \<and> ev_EventType e \<notin> set nonStateEventTypes) (sandbox_events s)"
  show "case rev ?es of
       [] \<Rightarrow> (\<exists>e. DeriveState no_fault sid s = Inl e \<and> errors_is e ErrSandboxNotFound)
     | ev # _ \<Rightarrow> (\<exists>st. StateForEvent (ev_EventType ev) = Some st \<and> DeriveState no_fault sid s = Inr st)"
  proof (cases "rev ?es")
    case Nil
    then show ?thesis by (simp add: DeriveState_def sort_key_sorted[OF sorted])
  next
    case (Cons ev rest)
    then have "ev \<in> set ?es" by (metis list.set_intros(1) set_rev)
    then have "isValidEventType (ev_EventType ev)" "ev_EventType ev \<notin> set nonStateEventTypes"
      using inv by (auto simp: audit_inv_def)
    then obtain st where "StateForEvent (ev_EventType ev) = Some st" using state_event_known by blast
    then show ?thesis
      unfolding DeriveState_def ReadTx_no_fault exec_no_fault sort_key_sorted[OF sorted] Cons by simp
  qed
qed

text \<open>A ULID source that counts in unary, and a history that ends in suspension.\<close>

definition demo_ulid :: ulid_lib where
  "demo_ulid = \<lparr>ulid_Timestamp = (\<lambda>t. t div 1000000), ulid_New = (\<lambda>n _. Inr (replicate n CHR ''Z''))\<rparr>"

definition demo_event :: "string \<Rightarrow> SandboxEvent" where
  "demo_event t = \<lparr>ev_ID = [], ev_SandboxID = ''sb'', ev_TaskID = ''PROJ-1'', ev_EventType = t,
     ev_Backend = [], ev_ImageDigest = [], ev_NetworkMode = [], ev_Detail = [], ev_CreatedAt = 0\<rparr>"

definition demo_history :: "store_op list" where
  "demo_history = [OpEvent no_fault 5 (demo_event EventCreated), OpEvent no_fault 9 (demo_event EventSuspended),
     OpEvent no_fault 7 (demo_event EventPolicyGranted)]"

lemma replicate_less: "i < j \<Longrightarrow> replicate i x < replicate j (x :: char)"
proof (induction i arbitrary: j)
  case 0
  then show ?case by (cases j) simp_all
next
  case (Suc i)
  then show ?case by (cases j) simp_all
qed

lemma demo_ulid_monotone: "ulid_monotone demo_ulid"
  by (auto simp: ulid_monotone_def demo_ulid_def replicate_less)

lemma demo_history_events:
  "rev (filter (\<lambda>e. ev_SandboxID e = ''sb'' \<and> ev_EventType e \<notin> set nonStateEventTypes)
      (sandbox_events (fold (store_step demo_ulid) demo_history empty_Store)))
     = [stored_event ''Z'' 9 (demo_event EventSuspended), stored_event [] 5 (demo_event EventCreated)]"
  by code_simp

theorem derived_state_is_latest_witness:
  "DeriveState no_fault ''sb'' (fold (store_step demo_ulid) demo_history empty_Store) = Inr StateSuspended"
proof -
  have "StateForEvent EventSuspended = Some StateSuspended" by code_simp
  then show ?thesis
    using derived_state_is_latest[where sid = "''sb''" and ops = demo_history, OF demo_ulid_monotone refl]
    unfolding demo_history_events by (simp add: stored_event_def demo_event_def)
qed

end
