(* ===== verification/Index_Exclusive.thy ===== *)
theory Index_Exclusive
  imports Index_History
begin

text \<open>
  Who holds what: the uniqueness rules of the mutable tables hold after every history
  of store calls, a registration read back boots the same sandbox, and an advisory
  lock keeps other agents out until its stored expiry.
\<close>

section \<open>The registry invariant\<close>

definition branches_ok :: "branch_row list \<Rightarrow> bool" where
  "branches_ok bs \<longleftrightarrow> distinct (map br_name bs)"

definition locks_ok :: "lock_row list \<Rightarrow> bool" where
  "locks_ok ls \<longleftrightarrow> distinct (map lk_branch_name ls)"

definition worktrees_ok :: "worktree_row list \<Rightarrow> bool" where
  "worktrees_ok ws \<longleftrightarrow> distinct (map wt_path ws) \<and> distinct (map wt_branch_name ws) \<and> distinct (map wt_task_id ws)"

definition sandboxes_ok :: "sandbox_row list \<Rightarrow> bool" where
  "sandboxes_ok rs \<longleftrightarrow> distinct (map sb_sandbox_id rs) \<and> distinct (map sb_task_id rs)
     \<and> distinct (map sb_worktree_path rs)
     \<and> (\<forall>r \<in> set rs. SandboxRegistration_Validate (scanSandboxRow r) = None)"

definition registry_inv :: "Store \<Rightarrow> bool" where
  "registry_inv s \<longleftrightarrow> branches_ok (branches s) \<and> locks_ok (branch_locks s)
     \<and> worktrees_ok (worktrees s) \<and> sandboxes_ok (sandboxes s)"

lemma registry_inv_cong: "registry_part s' = registry_part s \<Longrightarrow> registry_inv s' = registry_inv s"
  by (simp add: registry_inv_def registry_part_def)

lemma registry_inv_empty: "registry_inv empty_Store"
  by (simp add: registry_inv_def empty_Store_def branches_ok_def locks_ok_def worktrees_ok_def sandboxes_ok_def)

lemma notin_image: "x \<notin> f ` A \<longleftrightarrow> (\<forall>y \<in> A. f y \<noteq> x)"
  by auto

lemma scan_row_of_registration_valid:
  "SandboxRegistration_Validate (scanSandboxRow (row_of_registration now reg)) = SandboxRegistration_Validate reg"
  by (simp add: SandboxRegistration_Validate_def scanSandboxRow_def row_of_registration_def Let_def)

lemma scan_created_at_valid:
  "SandboxRegistration_Validate (scanSandboxRow (r\<lparr>sb_created_at := t\<rparr>)) = SandboxRegistration_Validate (scanSandboxRow r)"
  by (simp add: SandboxRegistration_Validate_def scanSandboxRow_def)

lemma scan_state_valid:
  assumes "SandboxRegistration_Validate (scanSandboxRow r) = None" "ValidSandboxState st"
  shows "SandboxRegistration_Validate (scanSandboxRow (r\<lparr>sb_state := st, sb_updated_at := t\<rparr>)) = None"
  using assms unfolding SandboxRegistration_Validate_def andthen_None guard_err_None
  by (simp add: scanSandboxRow_def)

text \<open>Replacing the one row with a given id keeps another key distinct when no other row
  has the new value.\<close>

lemma distinct_replace:
  assumes "distinct (map i rs)" "distinct (map k rs)" "\<forall>r \<in> set rs. i r = j \<or> k r \<noteq> v"
  shows "distinct (map (\<lambda>r. if i r = j then v else k r) rs)"
  using assms
proof (induction rs)
  case (Cons r rs)
  then have rest: "distinct (map (\<lambda>r. if i r = j then v else k r) rs)"
    and i: "\<forall>q \<in> set rs. i q \<noteq> i r" and k: "\<forall>q \<in> set rs. k q \<noteq> k r"
    and v: "\<forall>q \<in> set rs. i q = j \<or> k q \<noteq> v" "i r = j \<or> k r \<noteq> v"
    by (auto simp: notin_image)
  have "(if i r = j then v else k r) \<noteq> (if i q = j then v else k q)" if "q \<in> set rs" for q
    using i k v that by (metis (full_types))
  then have "(if i r = j then v else k r) \<notin> (\<lambda>q. if i q = j then v else k q) ` set rs"
    unfolding image_iff by blast
  then show ?case using rest by simp
qed simp

definition merge_row :: "sandbox_row \<Rightarrow> sandbox_row \<Rightarrow> sandbox_row" where
  "merge_row row r = (if sb_sandbox_id r = sb_sandbox_id row then row\<lparr>sb_created_at := sb_created_at r\<rparr> else r)"

lemma merge_row_keys:
  "sb_sandbox_id (merge_row row r) = sb_sandbox_id r"
  "sb_task_id (merge_row row r) = (if sb_sandbox_id r = sb_sandbox_id row then sb_task_id row else sb_task_id r)"
  "sb_worktree_path (merge_row row r)
     = (if sb_sandbox_id r = sb_sandbox_id row then sb_worktree_path row else sb_worktree_path r)"
  by (simp_all add: merge_row_def)

definition no_rival :: "sandbox_row \<Rightarrow> sandbox_row list \<Rightarrow> bool" where
  "no_rival row rs \<longleftrightarrow> (\<forall>r \<in> set rs. sb_sandbox_id r = sb_sandbox_id row \<or>
     (sb_task_id r \<noteq> sb_task_id row \<and> sb_worktree_path r \<noteq> sb_worktree_path row))"

lemma upsert_ok:
  assumes ok: "sandboxes_ok rs" and v: "SandboxRegistration_Validate (scanSandboxRow row) = None"
    and free: "no_rival row rs"
  shows "sb_sandbox_id row \<notin> sb_sandbox_id ` set rs \<Longrightarrow> sandboxes_ok (rs @ [row])"
    "sandboxes_ok (map (merge_row row) rs)"
proof -
  show "sandboxes_ok (rs @ [row])" if "sb_sandbox_id row \<notin> sb_sandbox_id ` set rs"
    using ok v free that unfolding no_rival_def notin_image sandboxes_ok_def by (auto simp: notin_image)
  have "SandboxRegistration_Validate (scanSandboxRow (merge_row row r)) = None" if "r \<in> set rs" for r
    using ok v that by (simp add: merge_row_def sandboxes_ok_def scan_created_at_valid)
  moreover have "distinct (map sb_task_id (map (merge_row row) rs))"
    "distinct (map sb_worktree_path (map (merge_row row) rs))"
    using ok free unfolding map_map comp_def merge_row_keys
    by (auto intro!: distinct_replace simp: sandboxes_ok_def no_rival_def)
  ultimately show "sandboxes_ok (map (merge_row row) rs)"
    using ok by (simp add: sandboxes_ok_def comp_def merge_row_keys)
qed

lemma UpsertSandbox_tx:
  assumes "UpsertSandbox io now reg s = (None, s')"
  shows "SandboxRegistration_Validate reg = None" "no_rival (row_of_registration now reg) (sandboxes s)"
    "sandboxes s' = (if sb_sandbox_id (row_of_registration now reg) \<in> sb_sandbox_id ` set (sandboxes s)
       then map (merge_row (row_of_registration now reg)) (sandboxes s)
       else sandboxes s @ [row_of_registration now reg])"
proof -
  show v: "SandboxRegistration_Validate reg = None"
    using assms by (auto simp: UpsertSandbox_def split: option.splits)
  note tx = assms[unfolded UpsertSandbox_def v option.case, THEN WriteTx_None, unfolded Let_def]
  show "no_rival (row_of_registration now reg) (sandboxes s)"
    using tx by (auto simp: no_rival_def notin_image split: if_splits)
  show "sandboxes s' = (if sb_sandbox_id (row_of_registration now reg) \<in> sb_sandbox_id ` set (sandboxes s)
       then map (merge_row (row_of_registration now reg)) (sandboxes s)
       else sandboxes s @ [row_of_registration now reg])"
    using tx by (auto simp: merge_row_def[abs_def] split: if_splits)
qed

lemma registry_tx:
  assumes "registry_inv s"
    "\<And>s'. fn s = Inr s' \<Longrightarrow> registry_inv s'"
  shows "registry_inv (snd (WriteTx io fn s))"
  by (rule WriteTx_inv[of registry_inv]) (use assms in auto)

lemma row_keys:
  "br_name (if c then b\<lparr>br_head_commit := h\<rparr> else b) = br_name b"
  "lk_branch_name (if lk_branch_name l = n then \<lparr>lk_branch_name = n, lk_agent_id = a, lk_locked_at = t,
     lk_expires_at = u\<rparr> else l) = lk_branch_name l"
  by simp_all

lemmas registry_simps = registry_inv_def branches_ok_def locks_ok_def worktrees_ok_def
  distinct_map_filter comp_def row_keys

lemma branch_calls_inv:
  assumes "registry_inv s"
  shows "registry_inv (snd (CreateBranch io now b s))" "registry_inv (snd (DeleteBranch io n s))"
    "registry_inv (snd (UpdateBranchHead io n h s))"
  unfolding CreateBranch_def DeleteBranch_def UpdateBranchHead_def
  by (rule registry_tx[OF assms];
      use assms in \<open>auto simp: registry_simps split: sum.splits if_splits\<close>)+

lemma lock_calls_inv:
  assumes "registry_inv s"
  shows "registry_inv (snd (LockBranch io now n a d s))" "registry_inv (snd (UnlockBranch io n s))"
  unfolding LockBranch_def UnlockBranch_def Let_def
  by (rule registry_tx[OF assms];
      use assms in \<open>auto simp: registry_simps split: option.splits if_splits\<close>)+

lemma worktree_calls_inv:
  assumes "registry_inv s"
  shows "registry_inv (snd (InsertWorktree io now w s))" "registry_inv (snd (DeleteWorktree io p s))"
  unfolding InsertWorktree_def DeleteWorktree_def worktree_conflict_def
  by (rule registry_tx[OF assms];
      use assms in \<open>auto simp: registry_simps split: option.splits if_splits\<close>)+

lemma sandboxes_ok_state:
  assumes "sandboxes_ok rs" "ValidSandboxState st"
  shows "sandboxes_ok (map (\<lambda>r. if sb_sandbox_id r = i then r\<lparr>sb_state := st, sb_updated_at := t\<rparr> else r) rs)"
proof -
  let ?f = "\<lambda>r. if sb_sandbox_id r = i then r\<lparr>sb_state := st, sb_updated_at := t\<rparr> else r"
  have keys: "sb_sandbox_id (?f r) = sb_sandbox_id r" "sb_task_id (?f r) = sb_task_id r"
    "sb_worktree_path (?f r) = sb_worktree_path r" for r by simp_all
  have val: "SandboxRegistration_Validate (scanSandboxRow (?f r)) = None" if "r \<in> set rs" for r
    using assms scan_state_valid that by (simp add: sandboxes_ok_def)
  have "\<forall>q \<in> set (map ?f rs). SandboxRegistration_Validate (scanSandboxRow q) = None"
    by (intro ballI, unfold set_map, elim imageE) (simp only: val)
  then show ?thesis using assms(1) unfolding sandboxes_ok_def map_map comp_def keys by blast
qed

lemma sandboxes_ok_filter: "sandboxes_ok rs \<Longrightarrow> sandboxes_ok (filter p rs)"
  by (auto simp: sandboxes_ok_def distinct_map_filter)

lemma sandbox_calls_inv:
  assumes inv: "registry_inv s"
  shows "registry_inv (snd (UpsertSandbox io now reg s))" "registry_inv (snd (SetSandboxState io now i st s))"
    "registry_inv (snd (DeleteSandbox io i s))"
proof -
  obtain res s' where u: "UpsertSandbox io now reg s = (res, s')" by fastforce
  show "registry_inv (snd (UpsertSandbox io now reg s))"
  proof (cases res)
    case None
    with u have tx: "UpsertSandbox io now reg s = (None, s')" by simp
    have "sandboxes_ok (sandboxes s')"
      unfolding UpsertSandbox_tx(3)[OF tx]
      using upsert_ok[OF _ _ UpsertSandbox_tx(2)[OF tx]] inv UpsertSandbox_tx(1)[OF tx]
      by (auto simp: registry_inv_def scan_row_of_registration_valid)
    moreover have "branches s' = branches s \<and> branch_locks s' = branch_locks s \<and> worktrees s' = worktrees s"
      using tx unfolding UpsertSandbox_def UpsertSandbox_tx(1)[OF tx] option.case
      by (auto simp: Let_def dest!: WriteTx_None split: if_splits)
    ultimately show ?thesis using inv u by (simp add: registry_inv_def)
  next
    case (Some e)
    then have "s' = s" using u by (auto simp: UpsertSandbox_def dest: WriteTx_Some split: option.splits)
    then show ?thesis using inv u by simp
  qed
  show "registry_inv (snd (SetSandboxState io now i st s))"
  proof (cases "ValidSandboxState st")
    case True
    then show ?thesis unfolding SetSandboxState_def
      by (simp only: if_False not_True_eq_False, intro registry_tx[OF inv])
        (use inv sandboxes_ok_state True in \<open>auto simp: registry_inv_def requireOneRow_def split: if_splits\<close>)
  qed (simp add: SetSandboxState_def inv)
  show "registry_inv (snd (DeleteSandbox io i s))"
    unfolding DeleteSandbox_def
    by (rule registry_tx[OF inv])
      (use inv sandboxes_ok_filter in \<open>auto simp: registry_inv_def requireOneRow_def split: if_splits\<close>)
qed

lemma registry_inv_step:
  assumes "registry_inv s"
  shows "registry_inv (store_step U x s)"
proof (cases "part_of x")
  case Registry
  then show ?thesis
    by (cases x) (simp_all add: store_step_def assms branch_calls_inv lock_calls_inv worktree_calls_inv
        sandbox_calls_inv)
qed (use assms registry_inv_cong audit_frame(2) ledger_frame(2) in blast)+

interpretation registry: invariant "store_step U" registry_inv for U
  by unfold_locales (rule registry_inv_step)

section \<open>Properties\<close>

text \<open>
  C26. One holder at a time. After any history of calls on a fresh index no two
  branches share a name, no two locks a branch, no two worktrees a path, a branch or
  a task, and no two registered sandboxes an id, a task or a worktree path; every
  registered sandbox is a valid registration.
\<close>

theorem registry_is_exclusive:
  "branches_ok (branches (fold (store_step U) ops empty_Store))
     \<and> locks_ok (branch_locks (fold (store_step U) ops empty_Store))
     \<and> worktrees_ok (worktrees (fold (store_step U) ops empty_Store))
     \<and> sandboxes_ok (sandboxes (fold (store_step U) ops empty_Store))"
  using registry.run_inv[OF registry_inv_empty] by (simp add: registry_inv_def)

definition stored_deadline :: "time \<Rightarrow> time" where
  "stored_deadline t = (if t = zero_time then zero_time else t - t mod Second)"

lemma scan_merge_row:
  assumes "row = row_of_registration now reg" "sb_sandbox_id r = sb_sandbox_id row \<or> r = row"
  shows "LaunchOptions (scanSandboxRow (merge_row row r)) = LaunchOptions reg"
    "si_ID (reg_Info (scanSandboxRow (merge_row row r))) = si_ID (reg_Info reg)"
    "si_State (reg_Info (scanSandboxRow (merge_row row r))) = si_State (reg_Info reg)"
    "si_Backend (reg_Info (scanSandboxRow (merge_row row r))) = si_Backend (reg_Info reg)"
    "si_ImageDigest (reg_Info (scanSandboxRow (merge_row row r))) = si_ImageDigest (reg_Info reg)"
    "si_ExpiresAt (reg_Info (scanSandboxRow (merge_row row r))) = stored_deadline (si_ExpiresAt (reg_Info reg))"
  using assms
  by (auto simp: merge_row_def LaunchOptions_def scanSandboxRow_def row_of_registration_def Let_def
      stored_deadline_def formatRegistryTime_def rfc3339_def)

lemma filter_one_key:
  "distinct (map k xs) \<Longrightarrow> x \<in> set xs \<Longrightarrow> k x = v \<Longrightarrow> filter (\<lambda>y. k y = v) xs = [x]"
proof (induction xs)
  case (Cons y ys)
  show ?case
  proof (cases "k y = v")
    case True
    then have "filter (\<lambda>y. k y = v) ys = []" using Cons.prems by (auto simp: filter_empty_conv notin_image)
    moreover have "x = y" using True Cons.prems by (auto simp: notin_image)
    ultimately show ?thesis using True by simp
  qed (use Cons in auto)
qed simp

text \<open>
  A registration survives the daemon. If a registration is stored, the roster
  read back holds exactly one entry with its id; it boots with the same launch
  options and has the same state, backend and image digest, and its deadline is the
  one that was set, cut to whole seconds.
\<close>

theorem registration_roundtrip:
  assumes "registry_inv s" "UpsertSandbox io now reg s = (None, s')"
  shows "\<exists>regs r. ListSandboxes no_fault s' = Inr regs
    \<and> filter (\<lambda>q. si_ID (reg_Info q) = si_ID (reg_Info reg)) regs = [r]
    \<and> LaunchOptions r = LaunchOptions reg \<and> si_State (reg_Info r) = si_State (reg_Info reg)
    \<and> si_Backend (reg_Info r) = si_Backend (reg_Info reg)
    \<and> si_ImageDigest (reg_Info r) = si_ImageDigest (reg_Info reg)
    \<and> si_ExpiresAt (reg_Info r) = stored_deadline (si_ExpiresAt (reg_Info reg))"
proof -
  define row where "row = row_of_registration now reg"
  have inv: "sandboxes_ok (sandboxes s')"
    using sandbox_calls_inv(1)[OF assms(1), of io now reg] assms(2) by (simp add: registry_inv_def)
  obtain r0 where r0: "merge_row row r0 \<in> set (sandboxes s')" "sb_sandbox_id r0 = sb_sandbox_id row \<or> r0 = row"
  proof (cases "sb_sandbox_id row \<in> sb_sandbox_id ` set (sandboxes s)")
    case True
    then obtain x where x: "x \<in> set (sandboxes s)" "sb_sandbox_id x = sb_sandbox_id row" by force
    then have "merge_row row x \<in> set (sandboxes s')"
      using True UpsertSandbox_tx(3)[OF assms(2)] by (simp add: row_def)
    then show thesis using that x(2) by blast
  next
    case False
    then have "merge_row row row \<in> set (sandboxes s')"
      using UpsertSandbox_tx(3)[OF assms(2)] by (simp add: row_def merge_row_def)
    then show thesis using that by blast
  qed
  let ?regs = "map scanSandboxRow (sort_key sb_task_id (sandboxes s'))"
  have id: "si_ID (reg_Info (scanSandboxRow q)) = sb_sandbox_id q" for q by (simp add: scanSandboxRow_def)
  have "distinct (map (\<lambda>q. si_ID (reg_Info q)) ?regs)"
    using inv unfolding map_map comp_def id by (simp add: sandboxes_ok_def distinct_map)
  then have "filter (\<lambda>q. si_ID (reg_Info q) = si_ID (reg_Info reg)) ?regs = [scanSandboxRow (merge_row row r0)]"
    using r0(1) scan_merge_row(2)[OF row_def r0(2)] by (intro filter_one_key) auto
  then show ?thesis using scan_merge_row[OF row_def r0(2)] by (simp add: ListSandboxes_def)
qed

text \<open>A registration of the demo image, stored on an empty index.\<close>

definition demo_reg :: SandboxRegistration where
  "demo_reg = \<lparr>reg_Info = \<lparr>si_ID = ''sb'', si_TaskID = ''PROJ-1'', si_WorktreePath = ''/w'', si_Backend = [],
      si_ImageDigest = [], si_NetworkMode = NetworkModeNone, si_NetworkAllowlist = [], si_State = StateCreated,
      si_MemoryMB = 1, si_CPUs = 1, si_DiskQuotaMB = 1, si_CreatedAt = 7, si_ExpiresAt = 0, si_PublishPorts = [],
      si_LastBootFailure = None\<rparr>, reg_ImageRef = demo_image, reg_TTL = 0, reg_ConfineAgent = False\<rparr>"

lemma demo_reg_stored: "fst (UpsertSandbox no_fault 0 demo_reg empty_Store) = None"
  by code_simp

theorem registration_roundtrip_witness:
  "\<exists>regs r. ListSandboxes no_fault (snd (UpsertSandbox no_fault 0 demo_reg empty_Store)) = Inr regs
     \<and> filter (\<lambda>q. si_ID (reg_Info q) = ''sb'') regs = [r] \<and> LaunchOptions r = LaunchOptions demo_reg"
proof -
  have "UpsertSandbox no_fault 0 demo_reg empty_Store = (None, snd (UpsertSandbox no_fault 0 demo_reg empty_Store))"
    using demo_reg_stored by (metis prod.collapse)
  from registration_roundtrip[OF registry_inv_empty this] show ?thesis
    by (auto simp: demo_reg_def)
qed

section \<open>Advisory locks\<close>

text \<open>The lock that agent \<open>a\<close> holds on a branch, up to the stored expiry \<open>e\<close>.\<close>

definition held :: "Store \<Rightarrow> string \<Rightarrow> string \<Rightarrow> time \<Rightarrow> bool" where
  "held s n a e \<longleftrightarrow> (\<exists>l. find (\<lambda>l. lk_branch_name l = n) (branch_locks s) = Some l
     \<and> lk_agent_id l = a \<and> lk_expires_at l = e)"

text \<open>Calls that leave the lock on \<open>n\<close> to its holder: others may try to lock it before
  it expires, anyone may do anything else.\<close>

fun leaves_lock :: "string \<Rightarrow> string \<Rightarrow> time \<Rightarrow> store_op \<Rightarrow> bool" where
  "leaves_lock n a e (OpLock io now m b d) \<longleftrightarrow> m \<noteq> n \<or> (b \<noteq> a \<and> now < e)"
| "leaves_lock n a e (OpUnlock io m) \<longleftrightarrow> m \<noteq> n"
| "leaves_lock n a e _ \<longleftrightarrow> True"

lemma find_append_Some: "find p xs = Some x \<Longrightarrow> find p (xs @ ys) = Some x"
  by (induction xs) auto

lemma find_map_other:
  "(\<And>x. p (f x) = p x) \<Longrightarrow> (\<And>x. p x \<Longrightarrow> f x = x) \<Longrightarrow> find p (map f xs) = find p xs"
  by (induction xs) auto

lemma find_filter_other: "(\<And>x. p x \<Longrightarrow> q x) \<Longrightarrow> find p (filter q xs) = find p xs"
  by (induction xs) auto

lemma find_Some_key: "find (\<lambda>l. k l = n) xs = Some x \<Longrightarrow> n \<in> k ` set xs"
  by (induction xs) (auto split: if_splits)

lemma LockBranch_Inr:
  assumes l: "find (\<lambda>l. lk_branch_name l = n) (branch_locks s) = Some l"
    and other: "m \<noteq> n \<or> (b \<noteq> lk_agent_id l \<and> now < lk_expires_at l)"
    and tx: "LockBranch io now m b d s = (None, s')"
  shows "m \<noteq> n \<and> find (\<lambda>l. lk_branch_name l = n) (branch_locks s') = Some l"
proof (cases "m = n")
  case True
  have "n \<in> lk_branch_name ` set (branch_locks s)" using find_Some_key[OF l] .
  with True show ?thesis
    using tx[unfolded LockBranch_def, THEN WriteTx_None] l other
    by (auto simp: Let_def split: option.splits if_splits)
next
  case False
  let ?row = "\<lparr>lk_branch_name = m, lk_agent_id = b, lk_locked_at = rfc3339 now, lk_expires_at = rfc3339 (now + d)\<rparr>"
  have "branch_locks s' = branch_locks s @ [?row] \<or>
      branch_locks s' = map (\<lambda>k. if lk_branch_name k = m then ?row else k) (branch_locks s)"
    using tx[unfolded LockBranch_def, THEN WriteTx_None]
    by (auto simp: Let_def split: option.splits if_splits)
  moreover have "find (\<lambda>l. lk_branch_name l = n) (map (\<lambda>k. if lk_branch_name k = m then ?row else k) (branch_locks s))
      = find (\<lambda>l. lk_branch_name l = n) (branch_locks s)"
    by (rule find_map_other) (use False in auto)
  ultimately show ?thesis using False l find_append_Some[OF l] by auto
qed

lemma locks_frame:
  assumes "\<forall>io now m b d. x \<noteq> OpLock io now m b d" "\<forall>io m. x \<noteq> OpUnlock io m"
  shows "branch_locks (store_step U x s) = branch_locks s"
proof (cases "part_of x")
  case Registry
  note keep = WriteTx_keeps[of _ s branch_locks]
  have "branch_locks (snd (CreateBranch io now b s)) = branch_locks s" for io now b
    unfolding CreateBranch_def by (rule keep) (auto split: sum.splits if_splits)
  moreover have "branch_locks (snd (DeleteBranch io n s)) = branch_locks s" for io n
    unfolding DeleteBranch_def by (rule keep) auto
  moreover have "branch_locks (snd (UpdateBranchHead io n h s)) = branch_locks s" for io n h
    unfolding UpdateBranchHead_def by (rule keep) (auto split: if_splits)
  moreover have "branch_locks (snd (InsertWorktree io now w s)) = branch_locks s" for io now w
    unfolding InsertWorktree_def by (rule keep) (auto split: option.splits)
  moreover have "branch_locks (snd (DeleteWorktree io p s)) = branch_locks s" for io p
    unfolding DeleteWorktree_def by (rule keep) (auto split: if_splits)
  moreover have "branch_locks (snd (UpsertSandbox io now r s)) = branch_locks s" for io now r
    unfolding UpsertSandbox_def Let_def
    by (cases "SandboxRegistration_Validate r", simp_all only: option.case snd_conv, rule keep)
      (auto split: if_splits)
  moreover have "branch_locks (snd (SetSandboxState io now i st s)) = branch_locks s" for io now i st
    unfolding SetSandboxState_def requireOneRow_def
    by (cases "ValidSandboxState st", simp_all only: if_True if_False not_True_eq_False not_False_eq_True
        snd_conv, rule keep) (auto split: if_splits)
  moreover have "branch_locks (snd (DeleteSandbox io i s)) = branch_locks s" for io i
    unfolding DeleteSandbox_def requireOneRow_def by (rule keep) (auto split: if_splits)
  ultimately show ?thesis using Registry assms by (cases x) (simp_all add: store_step_def)
next
  case Audit
  then show ?thesis using audit_frame(2)[OF Audit] by (simp add: registry_part_def)
next
  case Ledger
  then show ?thesis using ledger_frame(2)[OF Ledger] by (simp add: registry_part_def)
qed

lemma held_step:
  assumes held: "held s n a e" and x: "leaves_lock n a e x"
  shows "held (store_step U x s) n a e"
proof (cases "part_of x")
  case Registry
  obtain l where l: "find (\<lambda>l. lk_branch_name l = n) (branch_locks s) = Some l" "lk_agent_id l = a"
    "lk_expires_at l = e" using held by (auto simp: held_def)
  have "held (snd (LockBranch io now m b d s)) n a e" if "m \<noteq> n \<or> (b \<noteq> a \<and> now < e)" for io now m b d
  proof (cases "LockBranch io now m b d s")
    case (Pair res s')
    then show ?thesis
      using LockBranch_Inr[OF l(1), of m b now io d s'] that l held
      by (cases res) (auto simp: held_def LockBranch_def dest: WriteTx_Some)
  qed
  moreover have "held (snd (UnlockBranch io m s)) n a e" if "m \<noteq> n" for io m
    unfolding UnlockBranch_def
    by (rule WriteTx_inv[of "\<lambda>t. held t n a e"])
      (use held that in \<open>auto simp: held_def find_filter_other\<close>)
  moreover have "held (store_step U x s) n a e"
    if "\<forall>io now m b d. x \<noteq> OpLock io now m b d" "\<forall>io m. x \<noteq> OpUnlock io m"
    using held locks_frame[OF that] by (simp add: held_def)
  ultimately show ?thesis using x by (cases x) (simp_all add: store_step_def)
next
  case Audit
  then show ?thesis using held audit_frame(2) by (simp add: held_def registry_part_def)
next
  case Ledger
  then show ?thesis using held ledger_frame(2) by (simp add: held_def registry_part_def)
qed

lemma held_run:
  "held s n a e \<Longrightarrow> \<forall>x \<in> set ops. leaves_lock n a e x \<Longrightarrow> held (fold (store_step U) ops s) n a e"
  by (induction ops arbitrary: s) (simp_all add: held_step)

lemma find_map_all:
  "find p xs = Some x \<Longrightarrow> p r \<Longrightarrow> find p (map (\<lambda>k. if p k then r else k) xs) = Some r"
  by (induction xs) auto

lemma find_append_new: "find p xs = None \<Longrightarrow> p r \<Longrightarrow> find p (xs @ [r]) = Some r"
  by (induction xs) (auto split: if_splits)

lemma LockBranch_held:
  assumes "LockBranch io now n a d s = (None, s')"
  shows "held s' n a (rfc3339 (now + d))"
proof -
  let ?row = "\<lparr>lk_branch_name = n, lk_agent_id = a, lk_locked_at = rfc3339 now, lk_expires_at = rfc3339 (now + d)\<rparr>"
  let ?p = "\<lambda>l. lk_branch_name l = n"
  have "(\<exists>l. find ?p (branch_locks s) = Some l \<and>
          branch_locks s' = map (\<lambda>k. if ?p k then ?row else k) (branch_locks s)) \<or>
      (n \<notin> lk_branch_name ` set (branch_locks s) \<and> branch_locks s' = branch_locks s @ [?row])"
    using assms[unfolded LockBranch_def, THEN WriteTx_None]
    by (auto simp: Let_def split: option.splits if_splits)
  then have "find ?p (branch_locks s') = Some ?row"
  proof (elim disjE exE conjE)
    assume "n \<notin> lk_branch_name ` set (branch_locks s)" "branch_locks s' = branch_locks s @ [?row]"
    moreover from this(1) have "find ?p (branch_locks s) = None" by (auto simp: find_None_iff)
    ultimately show ?thesis using find_append_new[of ?p "branch_locks s" ?row] by simp
  qed (use find_map_all[of ?p "branch_locks s" _ ?row] in simp)
  then show ?thesis by (simp add: held_def)
qed

text \<open>
  An advisory lock excludes. Once an agent has locked a branch, no call of
  anyone else takes the lock from it before the stored expiry, whatever happens in
  between, short of an explicit unlock; another agent gets the lock exactly from the
  stored expiry on. The stored expiry is the requested one cut to whole seconds, so
  it may come up to one second early.
\<close>

theorem index_lock_excludes:
  assumes "LockBranch io now n a d s = (None, s1)"
    "\<forall>x \<in> set ops. leaves_lock n a (rfc3339 (now + d)) x" "s2 = fold (store_step U) ops s1" "b \<noteq> a"
  shows "held s2 n a (rfc3339 (now + d))
    \<and> (fst (LockBranch no_fault now' n b d' s2) = None \<longleftrightarrow> rfc3339 (now + d) \<le> now')
    \<and> rfc3339 (now + d) \<le> now + d \<and> now + d < rfc3339 (now + d) + Second"
proof -
  have held: "held s2 n a (rfc3339 (now + d))"
    unfolding assms(3) by (rule held_run[OF LockBranch_held[OF assms(1)] assms(2)])
  then obtain l where "find (\<lambda>l. lk_branch_name l = n) (branch_locks s2) = Some l" "lk_agent_id l = a"
    "lk_expires_at l = rfc3339 (now + d)" by (auto simp: held_def)
  moreover have "io_exec no_fault 0 = None" by (simp add: no_fault_def)
  ultimately have "fst (LockBranch no_fault now' n b d' s2) = None \<longleftrightarrow> rfc3339 (now + d) \<le> now'"
    using assms(4) by (cases "now' < rfc3339 (now + d)") (simp_all add: LockBranch_def Let_def)
  then show ?thesis using held rfc3339_le by simp
qed

theorem index_lock_excludes_witness:
  "fst (LockBranch no_fault (5 * Second) ''b'' ''other'' 1 (snd (LockBranch no_fault 0 ''b'' ''me'' (7 * Second) empty_Store)))
     \<noteq> None"
proof -
  have "LockBranch no_fault 0 ''b'' ''me'' (7 * Second) empty_Store
      = (None, snd (LockBranch no_fault 0 ''b'' ''me'' (7 * Second) empty_Store))"
    by (simp add: LockBranch_def empty_Store_def Let_def no_fault_def WriteTx_def exec_def)
  from index_lock_excludes[OF this, of "[]" _ _ "''other''" "5 * Second" 1] show ?thesis
    by (simp add: rfc3339_def)
qed

end
