(* ===== verification/Land_Wire.thy ===== *)
theory Land_Wire
  imports Go_Strings
begin

text \<open>
  The land channel's wire format: the frames a guest writes (\<open>internal/landwire\<close>), the
  host reader that bounds them (\<open>Limits.DecodeObjects\<close> of
  \<open>internal/sandboxd/land/protocol.go\<close>) and the check of tree paths
  (\<open>ValidateTreePath\<close>). A stream is the bytes it delivers and the error it ends in,
  \<open>None\<close> being the end of file.
\<close>

section \<open>Frames (\<open>landwire.go\<close>)\<close>

abbreviation (input) ObjCommit :: byte where "ObjCommit \<equiv> 67"
abbreviation (input) ObjTree :: byte where "ObjTree \<equiv> 84"
abbreviation (input) ObjBlob :: byte where "ObjBlob \<equiv> 66"
abbreviation (input) HeaderLen :: nat where "HeaderLen \<equiv> 5"

definition ValidType :: "byte \<Rightarrow> bool" where
  "ValidType t \<longleftrightarrow> t = ObjCommit \<or> t = ObjTree \<or> t = ObjBlob"

text \<open>The writer's own failures are its answers: what it refuses to write.\<close>

definition WriteFrame :: "(byte list \<Rightarrow> err option) \<Rightarrow> byte \<Rightarrow> byte list \<Rightarrow> err option \<times> byte list" where
  "WriteFrame w typ payload =
     (if \<not> ValidType typ then (Some (Errorf ''landwire: invalid object type''), [])
      else if int (length payload) > 2 ^ 32 - 1 then (Some (Errorf ''landwire: object is unframable''), [])
      else (let hdr = typ # be_bytes 4 (int (length payload)) in
        case w hdr of
          Some e \<Rightarrow> (Some (Wrap ''landwire: write frame header'' e), [])
        | None \<Rightarrow>
            if payload = [] then (None, hdr)
            else (case w payload of
                    Some e \<Rightarrow> (Some (Wrap ''landwire: write frame payload'' e), hdr)
                  | None \<Rightarrow> (None, hdr @ payload))))"

section \<open>The host reader (\<open>protocol.go\<close>)\<close>

record Object =
  ob_Type :: byte
  ob_Data :: "byte list"

record Limits =
  MaxObjectBytes :: int
  MaxObjectsPerLand :: int
  MaxTotalBytes :: int

definition DefaultLimits :: Limits where
  "DefaultLimits = \<lparr>MaxObjectBytes = 64 * 2 ^ 20, MaxObjectsPerLand = 100000, MaxTotalBytes = 4 * 2 ^ 30\<rparr>"

text \<open>\<open>io.ReadFull\<close>'s error when the stream ends early, the first \<open>n\<close> bytes being there.\<close>

definition read_full_error :: "nat \<Rightarrow> err option \<Rightarrow> err" where
  "read_full_error n ending =
     (case ending of Some e \<Rightarrow> e | None \<Rightarrow> Errorf (if n = 0 then ''EOF'' else ''unexpected EOF''))"

definition land_err :: "string \<Rightarrow> err" where
  "land_err msg = Wrap msg (Sentinel ErrLandVerificationFailed)"

lemma land_err_is [simp]: "errors_is (land_err m) s \<longleftrightarrow> s = ErrLandVerificationFailed"
  by (auto simp: land_err_def)

function decode_loop :: "Limits \<Rightarrow> Object list \<Rightarrow> int \<Rightarrow> byte list \<Rightarrow> err option \<Rightarrow> Object list result" where
  "decode_loop l objs tot bs ending =
     (if length bs < HeaderLen then
        (if bs = [] \<and> ending = None then Inr objs else Inl (Wrap2 (land_err ''truncated frame header'') (read_full_error (length bs) ending)))
      else
        (let typ = hd bs; len = be_value (take 4 (tl bs)); rest = drop HeaderLen bs;
             tot' = wrap64 (tot + len)
         in if \<not> ValidType typ then Inl (land_err ''unknown object type'')
            else if len > MaxObjectBytes l then Inl (land_err ''object exceeds the cap'')
            else if int (length objs) + 1 > MaxObjectsPerLand l then Inl (land_err ''too many objects per land'')
            else if tot' > MaxTotalBytes l then Inl (land_err ''total payload exceeds the cap'')
            else if int (length rest) < len then Inl (Wrap2 (land_err ''truncated object body'') (read_full_error (length rest) ending))
            else decode_loop l (objs @ [\<lparr>ob_Type = typ, ob_Data = take (nat len) rest\<rparr>]) tot'
                   (drop (nat len) rest) ending))"
  by pat_completeness auto
termination by (relation "measure (\<lambda>(l, objs, tot, bs, e). length bs)") auto

declare decode_loop.simps [simp del]

definition DecodeObjects :: "Limits \<Rightarrow> byte list \<Rightarrow> err option \<Rightarrow> Object list result" where
  "DecodeObjects l bs ending = decode_loop l [] 0 bs ending"

definition ValidateTreePath :: "string \<Rightarrow> err option" where
  "ValidateTreePath p =
     (if p = [] then Some (land_err ''empty tree path'')
      else if CHR 0x00 \<in> set p then Some (land_err ''tree path contains NUL'')
      else if CHR 0x5C \<in> set p then Some (land_err ''tree path contains a backslash'')
      else if path_is_abs p then Some (land_err ''tree path is absolute'')
      else if path_clean p \<noteq> p then Some (land_err ''tree path is not canonical'')
      else if ''..'' \<in> set (split_on CHR ''/'' p) then Some (land_err ''tree path escapes the worktree'')
      else None)"

section \<open>What the frames determine\<close>

definition frame :: "Object \<Rightarrow> byte list" where
  "frame ob = ob_Type ob # be_bytes 4 (int (length (ob_Data ob))) @ ob_Data ob"

definition framable :: "Object \<Rightarrow> bool" where
  "framable ob \<longleftrightarrow> ValidType (ob_Type ob) \<and> int (length (ob_Data ob)) < 2 ^ 32"

definition read_frame :: "byte list \<Rightarrow> (Object \<times> byte list) option" where
  "read_frame bs =
     (if length bs < HeaderLen then None
      else (let len = be_value (take 4 (tl bs)); rest = drop HeaderLen bs in
        if int (length rest) < len then None
        else Some (\<lparr>ob_Type = hd bs, ob_Data = take (nat len) rest\<rparr>, drop (nat len) rest)))"

lemma WriteFrame_frame:
  "framable ob \<Longrightarrow> WriteFrame (\<lambda>_. None) (ob_Type ob) (ob_Data ob) = (None, frame ob)"
  by (auto simp: WriteFrame_def framable_def frame_def Let_def)

interpretation frames: prefix_codec frame read_frame framable
proof unfold_locales
  fix ob rest
  assume "framable ob"
  then have "be_value (be_bytes 4 (int (length (ob_Data ob)))) = int (length (ob_Data ob))"
    by (intro be_value_be_bytes) (simp_all add: framable_def)
  moreover have "take 4 (be_bytes 4 n @ xs) = be_bytes 4 n" "drop 4 (be_bytes 4 n @ xs) = xs" for n xs
    by simp_all
  ultimately show "read_frame (frame ob @ rest) = Some (ob, rest)"
    by (simp add: read_frame_def frame_def Let_def)
qed

lemma be_value_bounds: "0 \<le> be_value bs" "be_value bs < 256 ^ length bs"
proof (induction bs rule: rev_induct)
  case (snoc b bs)
  have b: "0 \<le> uint b" "uint b < 256" using uint_bounded[of b] by simp_all
  {
    case 1 then show ?case using snoc(1) b by (simp add: be_value_snoc)
  next
    case 2
    have "be_value bs + 1 \<le> 256 ^ length bs" using snoc(2) by simp
    then have "(be_value bs + 1) * 256 \<le> 256 ^ length bs * 256" by simp
    then show ?case using b by (simp add: be_value_snoc)
  }
qed (simp_all add: be_value_def)

lemma be_bytes_be_value: "be_bytes (length bs) (be_value bs) = bs"
proof (induction bs rule: rev_induct)
  case (snoc b bs)
  have "0 \<le> uint b" "uint b < 256" using uint_bounded[of b] by simp_all
  then have "(be_value bs * 256 + uint b) div 256 = be_value bs" "(be_value bs * 256 + uint b) mod 256 = uint b"
    by simp_all
  then show ?case using snoc by (simp add: be_value_snoc)
qed (simp add: be_value_def)

text \<open>A frame read is a frame written: nothing else is accepted.\<close>

lemma read_frame_Some:
  assumes "read_frame bs = Some (ob, rest)"
  shows "bs = frame ob @ rest" "int (length (ob_Data ob)) < 2 ^ 32"
proof -
  have len: "5 \<le> length bs" using assms by (auto simp: read_frame_def split: if_splits)
  then obtain t ys where bs: "bs = t # ys" and ys: "4 \<le> length ys" by (cases bs) auto
  have l4: "length (take 4 ys) = 4" using ys by simp
  have d: "drop 5 bs = drop 4 ys" "hd bs = t" "tl bs = ys" by (simp_all add: bs)
  have enough: "be_value (take 4 ys) \<le> int (length (drop 4 ys))"
    and ob: "ob = \<lparr>ob_Type = t, ob_Data = take (nat (be_value (take 4 ys))) (drop 4 ys)\<rparr>"
    and rest: "rest = drop (nat (be_value (take 4 ys))) (drop 4 ys)"
    using assms len by (auto simp: read_frame_def Let_def d split: if_splits)
  have n: "int (length (ob_Data ob)) = be_value (take 4 ys)"
    using enough be_value_bounds(1)[of "take 4 ys"] by (simp add: ob)
  have "be_bytes 4 (be_value (take 4 ys)) = take 4 ys" using be_bytes_be_value[of "take 4 ys"] l4 by simp
  moreover have "ys = take 4 ys @ ob_Data ob @ rest" unfolding ob rest by (simp only: append_take_drop_id Object.select_convs)
  ultimately show "bs = frame ob @ rest" by (simp add: frame_def n bs) (simp add: ob)
  show "int (length (ob_Data ob)) < 2 ^ 32" using be_value_bounds(2)[of "take 4 ys"] n l4 by simp
qed

section \<open>The reader accepts exactly the framed streams within the ceilings\<close>

definition payload_total :: "Object list \<Rightarrow> int" where
  "payload_total objs = (\<Sum>ob\<leftarrow>objs. int (length (ob_Data ob)))"

definition within_limits :: "Limits \<Rightarrow> nat \<Rightarrow> int \<Rightarrow> Object list \<Rightarrow> bool" where
  "within_limits l n t objs \<longleftrightarrow>
     (objs = [] \<or> int n + int (length objs) \<le> MaxObjectsPerLand l \<and> t + payload_total objs \<le> MaxTotalBytes l)
     \<and> (\<forall>ob \<in> set objs. framable ob \<and> int (length (ob_Data ob)) \<le> MaxObjectBytes l)"

lemma payload_total_simps [simp]:
  "payload_total [] = 0"
  "payload_total (ob # objs) = int (length (ob_Data ob)) + payload_total objs"
  by (simp_all add: payload_total_def)

lemma payload_total_nonneg: "0 \<le> payload_total objs"
  by (induction objs) simp_all

lemma within_limits_Cons:
  "within_limits l n t (ob # objs) \<longleftrightarrow>
     framable ob \<and> int (length (ob_Data ob)) \<le> MaxObjectBytes l
     \<and> int n + 1 \<le> MaxObjectsPerLand l \<and> t + int (length (ob_Data ob)) \<le> MaxTotalBytes l
     \<and> within_limits l (Suc n) (t + int (length (ob_Data ob))) objs"
  by (cases objs) (auto simp: within_limits_def payload_total_nonneg add.assoc intro: order_trans[rotated]
    dest: order_trans[rotated])

text \<open>One turn of the loop on a frame: the three ceilings, then the rest of the stream.\<close>

lemma decode_loop_frame:
  assumes "int (length (ob_Data ob)) < 2 ^ 32" "0 \<le> t" "t + 2 ^ 32 \<le> 2 ^ 63"
  shows "decode_loop l objs t (frame ob @ rest) e =
     (let t' = t + int (length (ob_Data ob)) in
      if \<not> ValidType (ob_Type ob) then Inl (land_err ''unknown object type'')
      else if int (length (ob_Data ob)) > MaxObjectBytes l then Inl (land_err ''object exceeds the cap'')
      else if int (length objs) + 1 > MaxObjectsPerLand l then Inl (land_err ''too many objects per land'')
      else if t' > MaxTotalBytes l then Inl (land_err ''total payload exceeds the cap'')
      else decode_loop l (objs @ [ob]) t' rest e)"
proof -
  let ?n = "int (length (ob_Data ob))"
  have v: "be_value (be_bytes 4 ?n) = ?n" using assms(1) by (intro be_value_be_bytes) simp_all
  have w: "wrap64 (t + ?n) = t + ?n" using assms by (intro wrap64_id) (simp_all add: min_int64_def max_int64_def)
  show ?thesis
    by (cases ob) (subst decode_loop.simps, use v w in \<open>simp add: frame_def Let_def\<close>)
qed

text \<open>A stream that holds no complete frame is refused unless it is at its clean end.\<close>

lemma decode_loop_no_frame:
  assumes "read_frame bs = None" "decode_loop l objs t bs e = Inr res"
  shows "bs = [] \<and> e = None \<and> res = objs"
  using assms by (subst (asm) decode_loop.simps) (auto simp: read_frame_def Let_def split: if_splits)

lemma decode_loop_exact:
  assumes "0 \<le> t" "t + 2 ^ 32 \<le> 2 ^ 63" "MaxTotalBytes l + 2 ^ 32 \<le> 2 ^ 63"
  shows "decode_loop l objs t bs e = Inr res \<longleftrightarrow>
     e = None \<and> (\<exists>new. res = objs @ new \<and> bs = concat (map frame new) \<and> within_limits l (length objs) t new)"
  using assms
proof (induction "length bs" arbitrary: bs objs t rule: less_induct)
  case less
  show ?case
  proof (cases "read_frame bs")
    case None
    have empty: "decode_loop l objs t [] None = Inr objs" by (subst decode_loop.simps) simp
    have nofr: "new = []" if r: "bs = concat (map frame new)" "within_limits l (length objs) t new" for new
    proof (cases new)
      case (Cons x xs)
      then have "framable x" using r(2) by (simp add: within_limits_def)
      then show ?thesis using frames.dec_enc[of x "concat (map frame xs)"] r(1) Cons None by simp
    qed simp
    show ?thesis
    proof
      assume "decode_loop l objs t bs e = Inr res"
      from decode_loop_no_frame[OF None this]
      show "e = None \<and> (\<exists>new. res = objs @ new \<and> bs = concat (map frame new) \<and> within_limits l (length objs) t new)"
        by (auto simp: within_limits_def intro!: exI[of _ "[]"])
    next
      assume "e = None \<and> (\<exists>new. res = objs @ new \<and> bs = concat (map frame new) \<and> within_limits l (length objs) t new)"
      then obtain new where e: "e = None" and r: "res = objs @ new" "bs = concat (map frame new)"
        and w: "within_limits l (length objs) t new" by blast
      from nofr[OF r(2) w] show "decode_loop l objs t bs e = Inr res" using e r empty by simp
    qed
  next
    case (Some p)
    obtain ob rest where p: "p = (ob, rest)" by (cases p)
    have bs: "bs = frame ob @ rest" and sz: "int (length (ob_Data ob)) < 2 ^ 32"
      using read_frame_Some Some p by auto
    have new: "x = ob" if "bs = concat (map frame (x # xs))" "framable x" for x xs
      using frames.dec_enc[OF that(2), of "concat (map frame xs)"] Some p that(1) by simp
    have nonempty: "bs \<noteq> []" using bs by (simp add: frame_def)
    let ?t = "t + int (length (ob_Data ob))"
    let ?R = "\<lambda>new. res = objs @ new \<and> bs = concat (map frame new) \<and> within_limits l (length objs) t new"
    let ?ok = "ValidType (ob_Type ob) \<and> int (length (ob_Data ob)) \<le> MaxObjectBytes l
      \<and> int (length objs) + 1 \<le> MaxObjectsPerLand l \<and> ?t \<le> MaxTotalBytes l"
    have ex: "(\<exists>new. ?R new) \<longleftrightarrow> (\<exists>xs. ?R (ob # xs))"
    proof
      assume "\<exists>new. ?R new"
      then obtain new where R: "?R new" ..
      then obtain x xs where c: "new = x # xs" using nonempty by (cases new) auto
      then have "framable x" using R by (simp add: within_limits_def)
      then have "x = ob" using new[of x xs] R c by simp
      then show "\<exists>xs. ?R (ob # xs)" using R c by blast
    qed blast
    have R: "?R (ob # xs) \<longleftrightarrow> ?ok \<and> res = (objs @ [ob]) @ xs \<and> rest = concat (map frame xs)
        \<and> within_limits l (length (objs @ [ob])) ?t xs" for xs
      using sz by (auto simp: within_limits_Cons framable_def bs)
    have step: "decode_loop l objs t bs e = Inr res \<longleftrightarrow> ?ok \<and> decode_loop l (objs @ [ob]) ?t rest e = Inr res"
      unfolding bs by (subst decode_loop_frame[OF sz less.prems(1,2)]) (auto simp: Let_def)
    show ?thesis
    proof (cases ?ok)
      case True
      have lt: "length rest < length bs" by (simp add: bs frame_def)
      have "decode_loop l (objs @ [ob]) ?t rest e = Inr res \<longleftrightarrow> e = None \<and> (\<exists>xs. res = (objs @ [ob]) @ xs
          \<and> rest = concat (map frame xs) \<and> within_limits l (length (objs @ [ob])) ?t xs)"
        using less.prems True by (intro less.hyps[OF lt]) simp_all
      then show ?thesis unfolding step ex R using True by simp
    next
      case False
      then show ?thesis unfolding step ex R by blast
    qed
  qed
qed

text \<open>
  C19. The host reader accepts a land stream exactly when it ended cleanly and is the
  concatenation of the frames of objects within all three ceilings (each object's size, their
  number, their total), and then it returns those objects; the total never wraps, whatever
  the guest declares.
\<close>

theorem land_frames_exact:
  assumes "MaxTotalBytes l + 2 ^ 32 \<le> 2 ^ 63"
  shows "DecodeObjects l bs e = Inr objs \<longleftrightarrow>
     e = None \<and> bs = concat (map frame objs) \<and> within_limits l 0 0 objs"
  using decode_loop_exact[of 0 l "[]" bs e objs] assms by (auto simp: DecodeObjects_def)

theorem land_frames_exact_witness:
  "DecodeObjects DefaultLimits [66, 0, 0, 0, 1, 7, 67, 0, 0, 0, 0] None =
     Inr [\<lparr>ob_Type = ObjBlob, ob_Data = [7]\<rparr>, \<lparr>ob_Type = ObjCommit, ob_Data = []\<rparr>]"
proof -
  have "be_bytes 4 0 = [0, 0, 0, 0]" "be_bytes 4 1 = [0, 0, 0, 1]" by (simp_all add: eval_nat_numeral)
  then show ?thesis
    by (subst land_frames_exact)
      (simp_all add: DefaultLimits_def frame_def within_limits_def framable_def ValidType_def)
qed

text \<open>
  A tree path the check passes, other than \<open>.\<close>, is a slash-separated list of plain
  names, none of them empty, \<open>.\<close> or \<open>..\<close>, without NUL and backslash; and every
  such path passes.
\<close>

theorem tree_path_is_confined:
  "ValidateTreePath p = None \<longleftrightarrow>
     p = ''.'' \<or> (set (split_on CHR ''/'' p) \<subseteq> Collect plain_comp \<and> CHR 0x00 \<notin> set p \<and> CHR 0x5C \<notin> set p)"
proof (cases "p = [] \<or> p = ''.''")
  case True
  then show ?thesis by (auto simp: ValidateTreePath_def plain_comp_def path_is_abs_def path_clean_def Let_def)
next
  case False
  have abs: "\<not> set (split_on CHR ''/'' p) \<subseteq> Collect plain_comp" if "path_is_abs p"
    using that by (cases p) (auto simp: path_is_abs_def plain_comp_def)
  then show ?thesis
    using False path_clean_fixpoint[of p] by (auto simp: ValidateTreePath_def)
qed

end
