(* ===== verification/Land_Objects.thy ===== *)
theory Land_Objects
  imports Land_Wire Core_Model "HOL-Library.AList"
begin

text \<open>
  The git objects of the land path: what the host reads out of a commit object
  (\<open>commitFromGitObject\<close> and its callers in \<open>internal/store/git/commit.go\<close>), the host's
  object store as the land path uses it (\<open>GetCommit\<close>, \<open>TraverseTree\<close>, \<open>WriteRawObject\<close>) and
  the pool of landed objects as an in-memory store (\<open>poolStorer\<close>, \<open>landedFileSet\<close> of
  \<open>internal/sandboxd/land/treebind.go\<close>). The go-git library is an argument: object hashes, the
  decoder of commit objects, and the tree walker.
\<close>

section \<open>go-git\<close>

text \<open>A decoded \<open>object.Commit\<close>; its \<open>Hash\<close> is the hash of the object it was decoded from.\<close>

record git_commit =
  gc_Hash :: string
  gc_Message :: string
  gc_AuthorName :: string
  gc_AuthorWhen :: time
  gc_ParentHashes :: "string list"
  gc_TreeHash :: string

record tree_entry =
  te_Name :: string
  te_Dir :: bool
  te_Hash :: string

type_synonym objects = "string \<rightharpoonup> Object"

text \<open>
  \<open>git_hash\<close> is \<open>plumbing.ComputeHash\<close> in hex, \<open>git_NewHash\<close> the hex text of the hash
  \<open>plumbing.NewHash\<close> reads from a string, and \<open>git_Decode\<close> the fields \<open>Commit.Decode\<close> reads.
  \<open>git_WalkTree\<close> is \<open>GetTree\<close> followed by a recursive \<open>TreeWalker\<close>: the entries it yields and
  the error it stops at, \<open>None\<close> being the end of the tree.
\<close>

record git_lib =
  git_hash :: "byte \<Rightarrow> byte list \<Rightarrow> string"
  git_NewHash :: "string \<Rightarrow> string"
  git_Decode :: "byte list \<Rightarrow> git_commit result"
  git_WalkTree :: "objects \<Rightarrow> string \<Rightarrow> (tree_entry list \<times> err option) result"

section \<open>Commit objects (\<open>store/git/commit.go\<close>)\<close>

text \<open>\<open>^\[MGIT:([^\]]+)\]\<close>: the prefix, then a run without closing brackets, then one.\<close>

definition taskIDFromMessage :: "string \<Rightarrow> TaskID" where
  "taskIDFromMessage message =
     (case cut_prefix message ''[MGIT:'' of
        None \<Rightarrow> zero_TaskID
      | Some rest \<Rightarrow>
          (case cut CHR '']'' rest of
             None \<Rightarrow> zero_TaskID
           | Some (m, _) \<Rightarrow>
               if m = [] then zero_TaskID
               else (case ParseTaskID m of Inl _ \<Rightarrow> zero_TaskID | Inr tid \<Rightarrow> tid)))"

definition commitFromGitObject :: "git_commit \<Rightarrow> Commit" where
  "commitFromGitObject obj =
     \<lparr>CommitID = gc_Hash obj, ContentHash = [],
      ParentID = (case gc_ParentHashes obj of [] \<Rightarrow> [] | p # _ \<Rightarrow> p),
      TreeHash = gc_TreeHash obj, CTaskID = taskIDFromMessage (gc_Message obj),
      AgentID = gc_AuthorName obj, SessionID = [], Message = gc_Message obj, FileDiffs = [],
      SquashedFrom = [], CreatedAt = gc_AuthorWhen obj, Signature = [], CType = CommitTypeNormal,
      CreatedBy = gc_AuthorName obj, CBranch = []\<rparr>"

text \<open>\<open>Decode\<close> sets the hash of the commit to that of the object it reads.\<close>

definition decode_commit :: "git_lib \<Rightarrow> byte list \<Rightarrow> git_commit result" where
  "decode_commit G data = bind_result (git_Decode G data) (\<lambda>c. Inr (c\<lparr>gc_Hash := git_hash G ObjCommit data\<rparr>))"

definition CommitFromObjectData :: "git_lib \<Rightarrow> byte list \<Rightarrow> Commit result" where
  "CommitFromObjectData G data =
     (case decode_commit G data of
        Inl e \<Rightarrow> Inl (Wrap ''git: decode commit object'' e)
      | Inr c \<Rightarrow> Inr (commitFromGitObject c))"

lemma CommitFromObjectData_id [simp]:
  "CommitFromObjectData G data = Inr c \<Longrightarrow> CommitID c = git_hash G ObjCommit data"
  by (auto simp: CommitFromObjectData_def decode_commit_def commitFromGitObject_def bind_result_def split: sum.splits)

section \<open>The host's object store\<close>

text \<open>The store addresses objects by content: a key is the hash of the object under it.\<close>

type_synonym object_db = "(string \<times> Object) list"

abbreviation (input) fullHashLen :: nat where "fullHashLen \<equiv> 40"
abbreviation (input) minAbbrevLen :: nat where "minAbbrevLen \<equiv> 4"

definition hexPrefixPattern :: rexp where
  "hexPrefixPattern = RPlus (RCls [(CHR ''0'', CHR ''9''), (CHR ''a'', CHR ''f'')])"

fun matchHashPrefix_loop :: "string \<Rightarrow> string \<Rightarrow> string list \<Rightarrow> string result" where
  "matchHashPrefix_loop ref match [] = (if match = [] then Inl (Sentinel ErrCommitNotFound) else Inr match)"
| "matchHashPrefix_loop ref match (h # hs) =
     (if \<not> has_prefix h ref then matchHashPrefix_loop ref match hs
      else if match \<noteq> [] then Inl (Sentinel ErrAmbiguousHash)
      else matchHashPrefix_loop ref h hs)"

definition matchHashPrefix :: "string list \<Rightarrow> string \<Rightarrow> string result" where
  "matchHashPrefix candidates ref = matchHashPrefix_loop ref [] candidates"

text \<open>
  \<open>strings.TrimSpace\<close>: the encodings of Unicode's white space are cut off both ends.
\<close>

definition space_encodings :: "string list" where
  "space_encodings = [[CHR 0x09], [CHR 0x0A], [CHR 0x0B], [CHR 0x0C], [CHR 0x0D], [CHR 0x20],
     [CHR 0xC2, CHR 0x85], [CHR 0xC2, CHR 0xA0], [CHR 0xE1, CHR 0x9A, CHR 0x80]]
     @ map (\<lambda>c. [CHR 0xE2, CHR 0x80, c])
         [CHR 0x80, CHR 0x81, CHR 0x82, CHR 0x83, CHR 0x84, CHR 0x85, CHR 0x86, CHR 0x87, CHR 0x88,
          CHR 0x89, CHR 0x8A, CHR 0xA8, CHR 0xA9, CHR 0xAF]
     @ [[CHR 0xE2, CHR 0x81, CHR 0x9F], [CHR 0xE3, CHR 0x80, CHR 0x80]]"

function trim_left :: "string list \<Rightarrow> string \<Rightarrow> string" where
  "trim_left ws s =
     (case List.find (\<lambda>w. w \<noteq> [] \<and> has_prefix s w) ws of
        None \<Rightarrow> s | Some w \<Rightarrow> trim_left ws (drop (length w) s))"
  by pat_completeness auto
termination
proof (relation "measure (length \<circ> snd)")
  fix ws :: "string list" and s w :: string
  assume "List.find (\<lambda>w. w \<noteq> [] \<and> has_prefix s w) ws = Some w"
  then have "w \<noteq> []" "has_prefix s w" by (auto simp: find_Some_iff)
  then show "((ws, drop (length w) s), ws, s) \<in> measure (length \<circ> snd)" by (cases s) (auto simp: has_prefix_iff)
qed simp

declare trim_left.simps [simp del]

definition trim_space :: "string \<Rightarrow> string" where
  "trim_space s = rev (trim_left (map rev space_encodings) (rev (trim_left space_encodings s)))"

text \<open>The object store's own failures (\<open>IterEncodedObjects\<close>) are left out: reading is total.\<close>

definition resolveCommitHash :: "git_lib \<Rightarrow> object_db \<Rightarrow> string \<Rightarrow> string result" where
  "resolveCommitHash G db ref0 =
     (let ref = to_lower (trim_space ref0) in
      if length ref < minAbbrevLen \<or> length ref > fullHashLen \<or> \<not> matches hexPrefixPattern ref
      then Inl (Wrap ref (Sentinel ErrCommitNotFound))
      else if length ref = fullHashLen then Inr (git_NewHash G ref)
      else (case matchHashPrefix (map fst (filter (\<lambda>(h, ob). ob_Type ob = ObjCommit) db)) ref of
              Inl e \<Rightarrow> Inl (Wrap ref e)
            | Inr m \<Rightarrow> Inr (git_NewHash G m)))"

definition GetCommit :: "git_lib \<Rightarrow> object_db \<Rightarrow> string \<Rightarrow> Commit result" where
  "GetCommit G db ref =
     bind_result (resolveCommitHash G db ref) (\<lambda>h.
       case map_of db h of
         Some ob \<Rightarrow>
           if ob_Type ob = ObjCommit
           then (case decode_commit G (ob_Data ob) of
                   Inl _ \<Rightarrow> Inl (Wrap ref (Sentinel ErrCommitNotFound))
                 | Inr c \<Rightarrow> Inr (commitFromGitObject c))
           else Inl (Wrap ref (Sentinel ErrCommitNotFound))
       | None \<Rightarrow> Inl (Wrap ref (Sentinel ErrCommitNotFound)))"

text \<open>\<open>TraverseTree\<close> stops at any error of the walk and reports what it has.\<close>

definition TraverseTree :: "git_lib \<Rightarrow> object_db \<Rightarrow> string \<Rightarrow> tree_entry list result" where
  "TraverseTree G db hash =
     (case git_WalkTree G (map_of db) (git_NewHash G hash) of
        Inl e \<Rightarrow> Inl (Wrap ''get tree'' e)
      | Inr (entries, _) \<Rightarrow> Inr entries)"

definition WriteRawObject :: "git_lib \<Rightarrow> err option \<Rightarrow> Object \<Rightarrow> object_db \<Rightarrow> string result \<times> object_db" where
  "WriteRawObject G fault ob db =
     (case fault of
        Some e \<Rightarrow> (Inl (Wrap ''git: store object'' e), db)
      | None \<Rightarrow> (let h = git_hash G (ob_Type ob) (ob_Data ob) in (Inr h, AList.update h ob db)))"

section \<open>The importer (\<open>land/importer.go\<close>)\<close>

definition gitObjectType :: "byte \<Rightarrow> err option" where
  "gitObjectType t = (if ValidType t then None else Some (land_err ''cannot import unknown object type''))"

fun ImportObjects :: "git_lib \<Rightarrow> (nat \<Rightarrow> err option) \<Rightarrow> Object list \<Rightarrow> object_db \<Rightarrow> err option \<times> object_db" where
  "ImportObjects G fault [] db = (None, db)"
| "ImportObjects G fault (ob # objs) db =
     (case gitObjectType (ob_Type ob) of
        Some e \<Rightarrow> (Some e, db)
      | None \<Rightarrow>
          (case WriteRawObject G (fault (length objs)) ob db of
             (Inl e, db1) \<Rightarrow> (Some (Wrap ''land import'' e), db1)
           | (Inr _, db1) \<Rightarrow> ImportObjects G fault objs db1))"

section \<open>The pool as a store (\<open>land/treebind.go\<close>)\<close>

fun poolStorer_loop :: "git_lib \<Rightarrow> objects \<Rightarrow> Object list \<Rightarrow> objects result" where
  "poolStorer_loop G st [] = Inr st"
| "poolStorer_loop G st (ob # objs) =
     (case gitObjectType (ob_Type ob) of
        Some e \<Rightarrow> Inl e
      | None \<Rightarrow> poolStorer_loop G (st(git_hash G (ob_Type ob) (ob_Data ob) \<mapsto> ob)) objs)"

definition poolStorer :: "git_lib \<Rightarrow> Object list \<Rightarrow> objects result" where
  "poolStorer G pool = poolStorer_loop G Map.empty pool"

type_synonym files = "(string \<times> string) list"

definition emptyTreeHash :: string where
  "emptyTreeHash = ''4b825dc642cb6eb9a060e54bf8d69288fbee4904''"

abbreviation ZeroHash :: string where "ZeroHash \<equiv> replicate 40 CHR ''0''"

fun landed_loop :: "files \<Rightarrow> tree_entry list \<Rightarrow> err option \<Rightarrow> files result" where
  "landed_loop files [] None = Inr files"
| "landed_loop files [] (Some e) = Inl (Wrap2 (land_err ''walk landed tree'') e)"
| "landed_loop files (t # ts) ending =
     (case ValidateTreePath (te_Name t) of
        Some e \<Rightarrow> Inl e
      | None \<Rightarrow>
          if te_Dir t then landed_loop files ts ending
          else landed_loop (AList.update (te_Name t) (te_Hash t) files) ts ending)"

definition landedFileSet :: "git_lib \<Rightarrow> objects \<Rightarrow> string \<Rightarrow> files result" where
  "landedFileSet G st treeHash =
     (if treeHash = [] \<or> treeHash = emptyTreeHash \<or> treeHash = ZeroHash then Inr []
      else (case git_WalkTree G st (git_NewHash G treeHash) of
              Inl _ \<Rightarrow> Inl (land_err ''landed tree not resolvable from the pool'')
            | Inr (entries, ending) \<Rightarrow> landed_loop [] entries ending))"

lemma landed_loop_paths:
  "landed_loop files ts e = Inr fs \<Longrightarrow> list_all (\<lambda>p. ValidateTreePath p = None) (map fst files)
    \<Longrightarrow> list_all (\<lambda>p. ValidateTreePath p = None) (map fst fs)"
proof (induction files ts e rule: landed_loop.induct)
  case (3 files t ts e)
  have "list_all (\<lambda>p. ValidateTreePath p = None) (map fst (AList.update (te_Name t) (te_Hash t) files))"
    if "ValidateTreePath (te_Name t) = None"
    using that 3(4) by (auto simp: list_all_iff update_keys split: if_splits)
  then show ?case using 3 by (auto split: option.splits if_splits)
qed auto

lemma landed_loop_distinct:
  "landed_loop files ts e = Inr fs \<Longrightarrow> distinct (map fst files) \<Longrightarrow> distinct (map fst fs)"
  by (induction files ts e rule: landed_loop.induct) (auto split: option.splits if_splits intro: distinct_update)

text \<open>A landed file set is a map, and every path of it is confined to the worktree.\<close>

lemma landedFileSet_ok:
  assumes "landedFileSet G st h = Inr fs"
  shows "distinct (map fst fs)" "list_all (\<lambda>p. ValidateTreePath p = None) (map fst fs)"
  using assms by (auto simp: landedFileSet_def split: if_splits sum.splits dest: landed_loop_distinct landed_loop_paths)

end
