(* ===== verification/Land_Chain.thy ===== *)
theory Land_Chain
  imports Land_Objects "HOL-Library.Multiset"
begin

text \<open>
  Ordering the new commits of a land (\<open>CommitChain\<close>, \<open>newPoolCommits\<close> and \<open>orderChain\<close> of
  \<open>internal/sandboxd/land/derive.go\<close>, \<open>CommitObjectsByID\<close> of \<open>verify.go\<close>). A Go map is the list
  of its entries; the order in which a \<open>range\<close> loop visits them is an argument, any
  permutation. The walk of \<open>orderChain\<close> has no bound in the code, so it is a partial function
  and that it returns is part of what is proved.
\<close>

section \<open>Ranging over a map\<close>

type_synonym iteration = "nat \<Rightarrow> nat list"

definition range_map :: "iteration \<Rightarrow> 'a list \<Rightarrow> 'a list" where
  "range_map it xs = map (\<lambda>i. xs ! i) (it (length xs))"

definition iteration_ok :: "iteration \<Rightarrow> bool" where
  "iteration_ok it \<longleftrightarrow> (\<forall>n. mset (it n) = mset [0..<n])"

lemma mset_range_map: "iteration_ok it \<Longrightarrow> mset (range_map it xs) = mset xs"
proof -
  assume "iteration_ok it"
  then have "mset (range_map it xs) = image_mset (\<lambda>i. xs ! i) (mset [0..<length xs])"
    unfolding range_map_def iteration_ok_def mset_map by simp
  also have "\<dots> = mset xs" unfolding mset_map[symmetric] map_nth ..
  finally show ?thesis .
qed

lemma set_range_map [simp]: "iteration_ok it \<Longrightarrow> set (range_map it xs) = set xs"
  by (rule mset_eq_setD[OF mset_range_map])

lemma in_order_ok [simp]: "iteration_ok (\<lambda>n. [0..<n])"
  by (simp add: iteration_ok_def)

section \<open>The new commits of a pool\<close>

type_synonym commit_index = "(string \<times> byte list) list"

fun commit_objects_loop :: "git_lib \<Rightarrow> commit_index \<Rightarrow> Object list \<Rightarrow> commit_index result" where
  "commit_objects_loop G byID [] = Inr byID"
| "commit_objects_loop G byID (ob # objs) =
     (if ob_Type ob \<noteq> ObjCommit then commit_objects_loop G byID objs
      else (let id' = git_hash G ObjCommit (ob_Data ob) in
        if map_of byID id' \<noteq> None then Inl (land_err ''duplicate commit object'')
        else commit_objects_loop G (byID @ [(id', ob_Data ob)]) objs))"

definition CommitObjectsByID :: "git_lib \<Rightarrow> Object list \<Rightarrow> commit_index result" where
  "CommitObjectsByID G objs = commit_objects_loop G [] objs"

record PoolCommit =
  pl_ID :: string
  pl_ParentID :: string
  pl_Data :: "byte list"

text \<open>
  \<open>skip\<close> answers whether the host has the commit, and with which error it could not tell;
  its caller keeps the last such error, which is carried along here.
\<close>

type_synonym skip = "string \<Rightarrow> bool \<times> err option"

fun new_pool_loop :: "git_lib \<Rightarrow> skip \<Rightarrow> err option \<Rightarrow> PoolCommit list \<Rightarrow> commit_index
    \<Rightarrow> err option \<times> PoolCommit list result" where
  "new_pool_loop G skip serr acc [] = (serr, Inr acc)"
| "new_pool_loop G skip serr acc ((i, data) # rest) =
     (let serr' = (case snd (skip i) of None \<Rightarrow> serr | Some e \<Rightarrow> Some e) in
      if fst (skip i) then new_pool_loop G skip serr' acc rest
      else (case CommitFromObjectData G data of
              Inl e \<Rightarrow> (serr', Inl (Wrap2 (Sentinel ErrLandVerificationFailed) e))
            | Inr d \<Rightarrow> new_pool_loop G skip serr'
                (acc @ [\<lparr>pl_ID = i, pl_ParentID = ParentID d, pl_Data = data\<rparr>]) rest))"

definition newPoolCommits :: "git_lib \<Rightarrow> iteration \<Rightarrow> skip \<Rightarrow> Object list \<Rightarrow> err option \<times> PoolCommit list result" where
  "newPoolCommits G it skip pool =
     (case CommitObjectsByID G pool of
        Inl e \<Rightarrow> (None, Inl e)
      | Inr byID \<Rightarrow> new_pool_loop G skip None [] (range_map it byID))"

section \<open>Ordering them\<close>

definition pool_ids :: "PoolCommit list \<Rightarrow> string set" where
  "pool_ids m = pl_ID ` set m"

definition lookup_commit :: "PoolCommit list \<Rightarrow> string \<Rightarrow> PoolCommit" where
  "lookup_commit m i = (case List.find (\<lambda>pc. pl_ID pc = i) m of
     Some pc \<Rightarrow> pc | None \<Rightarrow> \<lparr>pl_ID = [], pl_ParentID = [], pl_Data = []\<rparr>)"

definition child_table :: "PoolCommit list \<Rightarrow> PoolCommit list \<Rightarrow> (string \<rightharpoonup> string)" where
  "child_table m visits =
     foldl (\<lambda>t pc. if pl_ParentID pc \<in> pool_ids m then t(pl_ParentID pc \<mapsto> pl_ID pc) else t) Map.empty visits"

definition chain_roots :: "PoolCommit list \<Rightarrow> PoolCommit list \<Rightarrow> PoolCommit list" where
  "chain_roots m visits = filter (\<lambda>pc. pl_ParentID pc \<notin> pool_ids m) visits"

partial_function (option) chain_walk ::
  "(string \<rightharpoonup> string) \<Rightarrow> PoolCommit list \<Rightarrow> PoolCommit list \<Rightarrow> PoolCommit \<Rightarrow> PoolCommit list option" where
  "chain_walk childOf m ordered cur =
     (case childOf (pl_ID cur) of
        None \<Rightarrow> Some (ordered @ [cur])
      | Some c \<Rightarrow> chain_walk childOf m (ordered @ [cur]) (lookup_commit m c))"

definition orderChain :: "iteration \<Rightarrow> PoolCommit list \<Rightarrow> PoolCommit list result option" where
  "orderChain it m =
     (let visits = range_map it m; childOf = child_table m visits; roots = chain_roots m visits in
      if length roots \<noteq> 1 then Some (Inl (land_err ''land batch is not a single commit chain''))
      else (case chain_walk childOf m [] (hd roots) of
              None \<Rightarrow> None
            | Some ordered \<Rightarrow>
                if length ordered \<noteq> length m then Some (Inl (land_err ''land batch has a forked or detached commit''))
                else Some (Inr ordered)))"

definition CommitChain :: "git_lib \<Rightarrow> iteration \<Rightarrow> iteration \<Rightarrow> skip \<Rightarrow> Object list
    \<Rightarrow> err option \<times> PoolCommit list result option" where
  "CommitChain G it1 it2 skip pool =
     (case newPoolCommits G it1 skip pool of
        (serr, Inl e) \<Rightarrow> (serr, Some (Inl e))
      | (serr, Inr new) \<Rightarrow> (serr, if new = [] then Some (Inr []) else orderChain it2 new))"

section \<open>What a chain is\<close>

definition is_chain :: "PoolCommit list \<Rightarrow> PoolCommit list \<Rightarrow> bool" where
  "is_chain m cs \<longleftrightarrow> mset cs = mset m \<and> cs \<noteq> [] \<and> pl_ParentID (hd cs) \<notin> pool_ids m
     \<and> successively (\<lambda>p c. pl_ParentID c = pl_ID p) cs"

abbreviation linked :: "PoolCommit list \<Rightarrow> bool" where
  "linked \<equiv> successively (\<lambda>p c. pl_ParentID c = pl_ID p)"

lemma lookup_commit_in:
  assumes "i \<in> pool_ids m"
  shows "lookup_commit m i \<in> set m" "pl_ID (lookup_commit m i) = i"
proof -
  obtain pc where "List.find (\<lambda>pc. pl_ID pc = i) m = Some pc"
    using assms by (cases "List.find (\<lambda>pc. pl_ID pc = i) m") (auto simp: find_None_iff pool_ids_def)
  moreover from this have "pc \<in> set m" "pl_ID pc = i" by (auto simp: find_Some_iff)
  ultimately show "lookup_commit m i \<in> set m" "pl_ID (lookup_commit m i) = i"
    by (simp_all add: lookup_commit_def)
qed

lemma child_table_Some:
  "child_table m visits p = Some c \<Longrightarrow>
     \<exists>pc \<in> set visits. pl_ID pc = c \<and> pl_ParentID pc = p \<and> p \<in> pool_ids m"
proof (induction visits rule: rev_induct)
  case (snoc v vs)
  then show ?case by (cases "pl_ParentID v \<in> pool_ids m \<and> pl_ParentID v = p") (auto simp: child_table_def split: if_splits)
qed (simp add: child_table_def)

lemma child_table_None:
  "child_table m visits p = None \<Longrightarrow> pc \<in> set visits \<Longrightarrow> pl_ParentID pc = p \<Longrightarrow> p \<notin> pool_ids m"
proof (induction visits rule: rev_induct)
  case (snoc v vs)
  then show ?case by (auto simp: child_table_def split: if_splits)
qed simp

lemma linked_nth: "linked cs \<Longrightarrow> Suc i < length cs \<Longrightarrow> pl_ParentID (cs ! Suc i) = pl_ID (cs ! i)"
  by (simp add: successively_conv_nth)

lemma ids_inj: "distinct (map pl_ID m) \<Longrightarrow> a \<in> set m \<Longrightarrow> b \<in> set m \<Longrightarrow> pl_ID a = pl_ID b \<Longrightarrow> a = b"
  by (simp add: distinct_map inj_on_def)

text \<open>
  The step of the walk never comes back: the commit reached was not visited before, because
  a commit has one parent and the root's parent is no new commit.
\<close>

lemma walk_fresh:
  assumes "distinct (map pl_ID m)" "set vs \<subseteq> set m" "distinct vs" "vs \<noteq> []" "linked vs"
    and "pl_ParentID (hd vs) \<notin> pool_ids m" "c \<in> set m" "pl_ParentID c = pl_ID (last vs)"
  shows "c \<notin> set vs"
proof
  assume "c \<in> set vs"
  then obtain i where i: "i < length vs" "c = vs ! i" by (auto simp: in_set_conv_nth)
  have lastm: "last vs \<in> set m" using assms(2,4) by auto
  show False
  proof (cases i)
    case 0
    then show False using assms(4,6,8) i lastm by (auto simp: hd_conv_nth pool_ids_def)
  next
    case (Suc j)
    then have "pl_ID (vs ! j) = pl_ID (last vs)" using linked_nth[OF assms(5), of j] i assms(8) by simp
    moreover have "vs ! j \<in> set m" using assms(2) i(1) Suc by (auto simp: subset_eq)
    ultimately have "vs ! j = vs ! (length vs - 1)" using ids_inj[OF assms(1)] lastm assms(4) by (simp add: last_conv_nth)
    then show False using assms(3,4) i(1) Suc by (simp add: nth_eq_iff_index_eq)
  qed
qed

lemma chain_walk_returns:
  assumes "distinct (map pl_ID m)" "set visits = set m" "childOf = child_table m visits"
    and "set (vs @ [cur]) \<subseteq> set m" "distinct (vs @ [cur])" "linked (vs @ [cur])"
    and "pl_ParentID (hd (vs @ [cur])) \<notin> pool_ids m"
  shows "\<exists>cs. chain_walk childOf m vs cur = Some cs \<and> set cs \<subseteq> set m \<and> distinct cs \<and> linked cs \<and> cs \<noteq> []
     \<and> hd cs = hd (vs @ [cur]) \<and> childOf (pl_ID (last cs)) = None"
  using assms(4-7)
proof (induction "card (set m) - length vs" arbitrary: vs cur rule: less_induct)
  case less
  show ?case
  proof (cases "childOf (pl_ID cur)")
    case None
    then show ?thesis using less.prems by (subst chain_walk.simps) auto
  next
    case (Some c)
    then obtain pc where pc: "pc \<in> set m" "pl_ID pc = c" "pl_ParentID pc = pl_ID cur"
      using child_table_Some assms(2,3) by blast
    then have "c \<in> pool_ids m" by (auto simp: pool_ids_def)
    note look = lookup_commit_in[OF this]
    have next': "lookup_commit m c = pc" using ids_inj[OF assms(1) look(1) pc(1)] look(2) pc(2) by simp
    have fresh: "pc \<notin> set (vs @ [cur])" using walk_fresh[OF assms(1) less.prems(1,2) _ less.prems(3,4) pc(1)] pc(3) by simp
    have "length (vs @ [cur]) \<le> card (set m)"
      using less.prems(1,2) by (metis List.finite_set card_mono distinct_card)
    then have smaller: "card (set m) - length (vs @ [cur]) < card (set m) - length vs" by simp
    have "\<exists>cs. chain_walk childOf m (vs @ [cur]) pc = Some cs \<and> set cs \<subseteq> set m \<and> distinct cs \<and> linked cs \<and> cs \<noteq> []
     \<and> hd cs = hd ((vs @ [cur]) @ [pc]) \<and> childOf (pl_ID (last cs)) = None"
      by (rule less.hyps[OF smaller])
        (use less.prems fresh pc in \<open>auto simp: successively_append_iff hd_append\<close>)
    then show ?thesis using Some next' by (subst chain_walk.simps) (auto simp: hd_append)
  qed
qed

text \<open>A chain has one root, and every chain of linked commits from it is a part of it.\<close>

lemma chain_root:
  assumes "distinct (map pl_ID m)" "is_chain m cs" "pc \<in> set m" "pl_ParentID pc \<notin> pool_ids m"
  shows "pc = hd cs"
proof -
  have sets: "set cs = set m" using assms(2) by (auto simp: is_chain_def dest: mset_eq_setD)
  obtain i where i: "i < length cs" "pc = cs ! i" using assms(3) sets by (metis in_set_conv_nth)
  show ?thesis
  proof (cases i)
    case 0
    then show ?thesis using i assms(2) by (simp add: is_chain_def hd_conv_nth)
  next
    case (Suc j)
    then have "pl_ParentID pc = pl_ID (cs ! j)" using linked_nth[of cs j] assms(2) i by (simp add: is_chain_def)
    then show ?thesis using assms(4) sets i Suc by (auto simp: pool_ids_def)
  qed
qed

lemma chain_prefix:
  assumes "distinct (map pl_ID m)" "is_chain m cs" "set ds \<subseteq> set m" "linked ds" "ds \<noteq> []" "hd ds = hd cs"
  shows "i < length ds \<Longrightarrow> i < length cs \<and> ds ! i = cs ! i"
proof (induction i)
  case 0
  then show ?case using assms(2,5,6) by (auto simp: is_chain_def hd_conv_nth)
next
  case (Suc i)
  have sets: "set cs = set m" using assms(2) by (auto simp: is_chain_def dest: mset_eq_setD)
  have lc: "linked cs" using assms(2) by (simp add: is_chain_def)
  from Suc have i: "i < length cs" "ds ! i = cs ! i" by simp_all
  have "ds ! Suc i \<in> set cs" using Suc.prems assms(3) sets by (metis nth_mem subset_iff)
  then obtain j where j: "j < length cs" "ds ! Suc i = cs ! j" by (metis in_set_conv_nth)
  have par: "pl_ParentID (cs ! j) = pl_ID (cs ! i)" using linked_nth[OF assms(4) Suc.prems] i j by simp
  then have "pl_ParentID (cs ! j) \<in> pool_ids m" using sets i by (auto simp: pool_ids_def)
  then have "j \<noteq> 0" using assms(2) by (cases j) (auto simp: is_chain_def hd_conv_nth)
  then obtain k where k: "j = Suc k" using not0_implies_Suc by blast
  have "pl_ID (cs ! k) = pl_ID (cs ! i)" using linked_nth[OF lc, of k] j k par by simp
  then have "cs ! k = cs ! i" using ids_inj[OF assms(1)] sets i j k by (metis Suc_lessD nth_mem)
  moreover have "distinct cs" using assms(1,2) by (metis distinct_map is_chain_def mset_eq_imp_distinct_iff)
  ultimately have "k = i" using i j k by (simp add: nth_eq_iff_index_eq)
  then show ?case using j k by simp
qed

lemma walk_is_chain:
  assumes "distinct (map pl_ID m)" "is_chain m cs" "set visits = set m"
    and "set ds \<subseteq> set m" "linked ds" "ds \<noteq> []" "hd ds = hd cs" "child_table m visits (pl_ID (last ds)) = None"
  shows "ds = cs"
proof -
  note pre = chain_prefix[OF assms(1,2,4-7)]
  have sets: "set cs = set m" using assms(2) by (auto simp: is_chain_def dest: mset_eq_setD)
  have "\<not> length ds < length cs"
  proof
    assume lt: "length ds < length cs"
    let ?i = "length ds - 1"
    have "pl_ParentID (cs ! length ds) = pl_ID (cs ! ?i)"
      using linked_nth[of cs ?i] assms(2,6) lt by (simp add: is_chain_def)
    moreover have "cs ! ?i = last ds" using pre[of ?i] assms(6) by (simp add: last_conv_nth)
    moreover have "last ds \<in> set m" using assms(4,6) last_in_set by blast
    then have "pl_ID (last ds) \<in> pool_ids m" by (simp add: pool_ids_def)
    moreover have "cs ! length ds \<in> set visits" using lt sets assms(3) by auto
    ultimately show False using child_table_None[OF assms(8)] by metis
  qed
  moreover have "length ds \<le> length cs" using pre[of "length ds - 1"] assms(6) by (cases ds) auto
  ultimately show ?thesis using pre by (auto intro: nth_equalityI)
qed

lemma orderChain_cases:
  assumes "iteration_ok it" "distinct (map pl_ID m)" "m \<noteq> []"
  shows "case orderChain it m of
       None \<Rightarrow> False
     | Some (Inr cs) \<Rightarrow> is_chain m cs
     | Some (Inl e) \<Rightarrow> errors_is e ErrLandVerificationFailed \<and> {cs. is_chain m cs} = {}"
proof -
  let ?visits = "range_map it m"
  let ?roots = "chain_roots m ?visits"
  have sv: "set ?visits = set m" using assms(1) by simp
  have dm: "distinct m" using assms(2) by (simp add: distinct_map)
  show ?thesis
  proof (cases "length ?roots = 1")
    case False
    have "\<not> is_chain m cs" for cs
    proof
      assume c: "is_chain m cs"
      have "cs \<noteq> []" "set cs = set m" using c by (auto simp: is_chain_def dest: mset_eq_setD)
      then have "hd cs \<in> set m" using hd_in_set by auto
      moreover have "pl_ParentID (hd cs) \<notin> pool_ids m" using c by (simp add: is_chain_def)
      moreover have "set ?roots = {pc \<in> set m. pl_ParentID pc \<notin> pool_ids m}" by (simp add: chain_roots_def sv)
      ultimately have "set ?roots = {hd cs}" using chain_root[OF assms(2) c] by blast
      moreover have "distinct ?roots"
        using dm mset_eq_imp_distinct_iff[OF mset_range_map[OF assms(1), of m]] by (simp add: chain_roots_def)
      ultimately show False using False distinct_card[of ?roots] by simp
    qed
    then show ?thesis using False by (simp add: orderChain_def Let_def)
  next
    case True
    then obtain r where r: "?roots = [r]" by (auto simp: length_Suc_conv)
    have rm: "r \<in> set m" "pl_ParentID r \<notin> pool_ids m"
      using r sv by (auto simp: chain_roots_def filter_eq_Cons_iff)
    obtain ds where ds: "chain_walk (child_table m ?visits) m [] r = Some ds" "set ds \<subseteq> set m" "distinct ds"
      "linked ds" "ds \<noteq> []" "hd ds = r" "child_table m ?visits (pl_ID (last ds)) = None"
      using chain_walk_returns[OF assms(2) sv refl, of "[]" r] rm by auto
    show ?thesis
    proof (cases "length ds = length m")
      case True
      have "set ds = set m"
        using ds(2,3) True dm by (metis List.finite_set card_subset_eq distinct_card)
      then have "mset ds = mset m" using ds(3) dm set_eq_iff_mset_eq_distinct by blast
      then have "is_chain m ds" using ds rm by (simp add: is_chain_def)
      then show ?thesis by (simp add: orderChain_def Let_def r ds(1) True)
    next
      case False
      have "\<not> is_chain m cs" for cs
      proof
        assume c: "is_chain m cs"
        have "ds = cs"
          by (rule walk_is_chain[OF assms(2) c sv ds(2,4,5) _ ds(7)])
            (use ds(6) chain_root[OF assms(2) c rm] in simp)
        then show False using False c mset_eq_length unfolding is_chain_def by blast
      qed
      then show ?thesis using False by (simp add: orderChain_def Let_def r ds(1))
    qed
  qed
qed

text \<open>
  C10. Ordering the new commits of a land always returns, whatever the guest sent and in
  whatever order the maps are visited: the walk from the root ends. It succeeds exactly when
  the commits are one linear chain over a commit that is not new, and the answer is that
  chain, parents first; otherwise the land is refused.
\<close>

theorem order_chain_terminates:
  assumes "iteration_ok it" "distinct (map pl_ID m)" "m \<noteq> []"
  shows "case orderChain it m of
       None \<Rightarrow> False
     | Some (Inr cs) \<Rightarrow> is_chain m cs
     | Some (Inl e) \<Rightarrow> errors_is e ErrLandVerificationFailed \<and> {cs. is_chain m cs} = {}"
  using assms by (rule orderChain_cases)

theorem order_chain_terminates_witness:
  "(case orderChain (\<lambda>n. rev [0..<n]) [\<lparr>pl_ID = ''b'', pl_ParentID = ''a'', pl_Data = []\<rparr>,
      \<lparr>pl_ID = ''a'', pl_ParentID = ''base'', pl_Data = []\<rparr>] of
     None \<Rightarrow> False
   | Some (Inr cs) \<Rightarrow> is_chain [\<lparr>pl_ID = ''b'', pl_ParentID = ''a'', pl_Data = []\<rparr>,
      \<lparr>pl_ID = ''a'', pl_ParentID = ''base'', pl_Data = []\<rparr>] cs
   | Some (Inl e) \<Rightarrow> errors_is e ErrLandVerificationFailed \<and> {cs. is_chain [\<lparr>pl_ID = ''b'', pl_ParentID = ''a'', pl_Data = []\<rparr>,
      \<lparr>pl_ID = ''a'', pl_ParentID = ''base'', pl_Data = []\<rparr>] cs} = {})"
  by (rule order_chain_terminates) (simp_all add: iteration_ok_def)

text \<open>The ids of the commits to order are those of the pool's commit objects, each once.\<close>

lemma commit_objects_loop_ok:
  assumes "commit_objects_loop G byID objs = Inr res" "distinct (map fst byID)"
    and "list_all (\<lambda>(i, d). i = git_hash G ObjCommit d) byID"
  shows "distinct (map fst res) \<and> list_all (\<lambda>(i, d). i = git_hash G ObjCommit d) res
     \<and> set (map snd res) = set (map snd byID) \<union> {ob_Data ob |ob. ob \<in> set objs \<and> ob_Type ob = ObjCommit}"
  using assms
proof (induction G byID objs rule: commit_objects_loop.induct)
  case (2 G byID ob objs)
  show ?case
  proof (cases "ob_Type ob = ObjCommit")
    case True
    then have "map_of byID (git_hash G ObjCommit (ob_Data ob)) = None"
      using 2(3) by (simp add: Let_def split: if_splits)
    then show ?thesis using 2 True by (auto simp: map_of_eq_None_iff Let_def)
  next
    case False
    then show ?thesis using 2 by auto
  qed
qed simp

lemma CommitObjectsByID_ok:
  assumes "CommitObjectsByID G objs = Inr byID"
  shows "distinct (map fst byID)" "(i, d) \<in> set byID \<Longrightarrow> i = git_hash G ObjCommit d"
    "(i, d) \<in> set byID \<Longrightarrow> \<exists>ob \<in> set objs. ob_Type ob = ObjCommit \<and> ob_Data ob = d"
proof -
  have r: "distinct (map fst byID) \<and> list_all (\<lambda>(i, d). i = git_hash G ObjCommit d) byID
     \<and> snd ` set byID = {ob_Data ob |ob. ob \<in> set objs \<and> ob_Type ob = ObjCommit}"
    using commit_objects_loop_ok[of G "[]" objs byID] assms by (simp add: CommitObjectsByID_def)
  show "distinct (map fst byID)" using r by blast
  show "i = git_hash G ObjCommit d" if "(i, d) \<in> set byID" using r that by (auto simp: list_all_iff)
  show "\<exists>ob \<in> set objs. ob_Type ob = ObjCommit \<and> ob_Data ob = d" if i: "(i, d) \<in> set byID"
  proof -
    have "snd (i, d) \<in> snd ` set byID" using i by (rule imageI)
    then have "d \<in> {ob_Data ob |ob. ob \<in> set objs \<and> ob_Type ob = ObjCommit}" using r by simp
    then show ?thesis by auto
  qed
qed

definition decodes :: "git_lib \<Rightarrow> PoolCommit \<Rightarrow> bool" where
  "decodes G pc \<longleftrightarrow> (\<exists>c. CommitFromObjectData G (pl_Data pc) = Inr c \<and> pl_ParentID pc = ParentID c)"

lemma new_pool_loop_ids:
  assumes "new_pool_loop G skip serr acc entries = (serr', Inr new)" "list_all (decodes G) acc"
  shows "map (\<lambda>pc. (pl_ID pc, pl_Data pc)) new =
      map (\<lambda>pc. (pl_ID pc, pl_Data pc)) acc @ filter (\<lambda>(i, d). \<not> fst (skip i)) entries
    \<and> list_all (decodes G) new"
  using assms
proof (induction G skip serr acc entries rule: new_pool_loop.induct)
  case (2 G skip serr acc i d rest)
  let ?s = "case snd (skip i) of None \<Rightarrow> serr | Some e \<Rightarrow> Some e"
  show ?case
  proof (cases "fst (skip i)")
    case True
    then show ?thesis using "2.IH"(1)[OF refl True] "2.prems" by (simp add: Let_def)
  next
    case False
    obtain c where c: "CommitFromObjectData G d = Inr c"
      using "2.prems"(1) False by (cases "CommitFromObjectData G d") (auto simp: Let_def)
    show ?thesis using "2.IH"(2)[OF refl False c] "2.prems" False c by (simp add: Let_def decodes_def)
  qed
qed simp

text \<open>What the ordering is given: distinct ids, each the hash of bytes of the pool, none of them
  the host's, each with the parent its bytes name.\<close>

lemma newPoolCommits_entry:
  assumes "newPoolCommits G it skip pool = (serr, Inr new)" "iteration_ok it"
    and "CommitObjectsByID G pool = Inr byID" "pc \<in> set new"
  shows "(pl_ID pc, pl_Data pc) \<in> set byID" "\<not> fst (skip (pl_ID pc))" "decodes G pc"
proof -
  have l: "new_pool_loop G skip None [] (range_map it byID) = (serr, Inr new)"
    using assms(1,3) by (simp add: newPoolCommits_def)
  note ids = new_pool_loop_ids[OF l, simplified]
  have "(pl_ID pc, pl_Data pc) \<in> set (filter (\<lambda>(i, d). \<not> fst (skip i)) (range_map it byID))"
    using ids assms(4) by (metis (no_types, lifting) image_eqI list.set_map)
  then show "(pl_ID pc, pl_Data pc) \<in> set byID" "\<not> fst (skip (pl_ID pc))" using assms(2) by auto
  show "decodes G pc" using ids assms(4) by (auto simp: list_all_iff)
qed

lemma newPoolCommits_ok:
  assumes "newPoolCommits G it skip pool = (serr, Inr new)" "iteration_ok it"
  shows "distinct (map pl_ID new)"
    "pc \<in> set new \<Longrightarrow> decodes G pc \<and> pl_ID pc = git_hash G ObjCommit (pl_Data pc) \<and> \<not> fst (skip (pl_ID pc))
       \<and> (\<exists>ob \<in> set pool. ob_Type ob = ObjCommit \<and> ob_Data ob = pl_Data pc)"
proof -
  obtain byID where b: "CommitObjectsByID G pool = Inr byID"
    and l: "new_pool_loop G skip None [] (range_map it byID) = (serr, Inr new)"
    using assms(1) by (auto simp: newPoolCommits_def split: sum.splits)
  note ids = new_pool_loop_ids[OF l, simplified]
  have perm: "mset (range_map it byID) = mset byID" by (rule mset_range_map[OF assms(2)])
  have "distinct (map fst (range_map it byID))"
    using CommitObjectsByID_ok(1)[OF b] mset_eq_imp_distinct_iff[of "map fst (range_map it byID)" "map fst byID"] perm
    by simp
  then have "distinct (map fst (filter (\<lambda>(i, d). \<not> fst (skip i)) (range_map it byID)))" by (rule distinct_map_filter)
  moreover have "map pl_ID new = map fst (map (\<lambda>pc. (pl_ID pc, pl_Data pc)) new)" by simp
  ultimately show "distinct (map pl_ID new)" using ids by metis
  assume pc: "pc \<in> set new"
  note e = newPoolCommits_entry[OF assms b pc]
  show "decodes G pc \<and> pl_ID pc = git_hash G ObjCommit (pl_Data pc) \<and> \<not> fst (skip (pl_ID pc))
       \<and> (\<exists>ob \<in> set pool. ob_Type ob = ObjCommit \<and> ob_Data ob = pl_Data pc)"
    using CommitObjectsByID_ok(2,3)[OF b e(1)] e by blast
qed

end
