(* ===== verification/Attest.thy ===== *)
theory Attest
  imports Sandbox_Model "HOL-Library.AList"
begin

text \<open>
  The host's commit attestations (\<open>internal/sandboxd/attest/attest.go\<close>) and the key
  files they rest on (\<open>internal/sandboxd/hostkey\<close>): issuing, verifying, the signed bytes, key
  generation and rotation. Ed25519 and SHA-256 are arguments; the trust directory is a record
  of its files, and every file operation may be refused.
\<close>

section \<open>Key files (\<open>hostkey.go\<close>)\<close>

type_synonym file_bytes = "byte list"

record ed25519 =
  ed_Public :: "file_bytes \<Rightarrow> file_bytes"
  ed_Sign :: "file_bytes \<Rightarrow> byte list \<Rightarrow> byte list"
  ed_Verify :: "file_bytes \<Rightarrow> byte list \<Rightarrow> byte list \<Rightarrow> bool"
  key_sha256_hex :: "file_bytes \<Rightarrow> string"

definition Fingerprint :: "ed25519 \<Rightarrow> file_bytes \<Rightarrow> string" where
  "Fingerprint E pub = key_sha256_hex E pub"

abbreviation (input) PublicKeySize :: nat where "PublicKeySize \<equiv> 32"
abbreviation (input) PrivateKeySize :: nat where "PrivateKeySize \<equiv> 64"

text \<open>The trust directory: the two key files and the directory of retired public keys.\<close>

record trust_dir =
  attestKeyFile :: "file_bytes option"
  attestPubFile :: "file_bytes option"
  rotatedPubDir :: "(string \<times> file_bytes) list"

text \<open>An absent file reads as an error, a file of another size is no key.\<close>

definition ReadPub :: "file_bytes option \<Rightarrow> file_bytes option" where
  "ReadPub f = (case f of None \<Rightarrow> None | Some data \<Rightarrow> if length data \<noteq> PublicKeySize then None else Some data)"

text \<open>\<open>WriteFileAtomic\<close>: the temporary file is renamed into place or the destination is as
  it was.\<close>

definition WriteFileAtomic :: "err option \<Rightarrow> ('d \<Rightarrow> 'd) \<Rightarrow> 'd \<Rightarrow> err option \<times> 'd" where
  "WriteFileAtomic fault put d = (case fault of Some e \<Rightarrow> (Some e, d) | None \<Rightarrow> (None, put d))"

section \<open>The signed bytes\<close>

definition writeLengthPrefixed :: "string \<Rightarrow> byte list" where
  "writeLengthPrefixed field = be_bytes 8 (int (length field)) @ bytes_of field"

text \<open>Nanoseconds since 1970; an instant counts from the zero time, the first of January 1.\<close>

definition UnixNano :: "time \<Rightarrow> int" where
  "UnixNano t = wrap64 (t - 62135596800 * Second)"

definition signingPayload :: "Attestation \<Rightarrow> byte list" where
  "signingPayload a =
     concat (map writeLengthPrefixed [at_SandboxID a, at_CommitHash a, at_ContentHash a, at_KeyID a])
     @ be_bytes 8 (UnixNano (at_IssuedAt a) mod 2 ^ 64)
     @ (if at_PayloadVersion a = AttestPayloadWithBase
        then be_bytes 8 (at_PayloadVersion a) @ writeLengthPrefixed (at_BaseDigest a) else [])"

section \<open>The service\<close>

record AttestService =
  priv :: file_bytes
  activeKey :: string
  knownPub :: "string \<rightharpoonup> file_bytes"

definition load_rotated :: "ed25519 \<Rightarrow> (string \<times> file_bytes) list \<Rightarrow> (string \<rightharpoonup> file_bytes) \<Rightarrow> (string \<rightharpoonup> file_bytes)" where
  "load_rotated E entries known =
     foldl (\<lambda>k e. case ReadPub (Some (snd e)) of None \<Rightarrow> k | Some p \<Rightarrow> k(Fingerprint E p \<mapsto> p)) known entries"

definition NewService :: "ed25519 \<Rightarrow> trust_dir \<Rightarrow> AttestService result" where
  "NewService E d =
     (case attestKeyFile d of
        None \<Rightarrow> Inl (Errorf ''attest: load signing key (run GenerateKey first)'')
      | Some privBytes \<Rightarrow>
          if length privBytes \<noteq> PrivateKeySize
          then Inl (Errorf ''attest: signing key is not a valid Ed25519 private key'')
          else (let pub = ed_Public E privBytes; activeKey = Fingerprint E pub
                in Inr \<lparr>priv = privBytes, activeKey = activeKey,
                        knownPub = load_rotated E (rotatedPubDir d) [activeKey \<mapsto> pub]\<rparr>))"

text \<open>The audit detail; a fingerprint is hex, so \<open>%q\<close> only puts it in quotes.\<close>

definition key_detail :: "ed25519 \<Rightarrow> file_bytes option \<Rightarrow> file_bytes \<Rightarrow> string" where
  "key_detail E old new =
     (case old of
        None \<Rightarrow> ''{\"event\":\"attestation_key\",\"new_fingerprint\":\"'' @ Fingerprint E new @ ''\"}''
      | Some p \<Rightarrow> ''{\"event\":\"attestation_key_rotated\",\"old_fingerprint\":\"'' @ Fingerprint E p
                  @ ''\",\"new_fingerprint\":\"'' @ Fingerprint E new @ ''\"}'')"

text \<open>
  \<open>GenerateKey\<close>: the faults are those of its steps in order (the trust directory, the
  directory of retired keys, the retired key, the random source, the private and the public
  key file, the audit record); \<open>keys\<close> is the pair the random source gives.
\<close>

definition GenerateKey ::
  "ed25519 \<Rightarrow> string \<Rightarrow> (nat \<Rightarrow> err option) \<Rightarrow> file_bytes \<times> file_bytes \<Rightarrow> (string \<Rightarrow> err option) option
    \<Rightarrow> trust_dir \<Rightarrow> err option \<times> trust_dir" where
  "GenerateKey E hostRoot fault keys audit d =
     (if hostRoot = [] then (Some (Errorf ''attest: host root must not be empty''), d)
      else case audit of
        None \<Rightarrow> (Some (Errorf ''attest: auditor must not be nil''), d)
      | Some record_key \<Rightarrow>
      (case fault 0 of
        Some e \<Rightarrow> (Some (Wrap ''attest: create trust dir'' e), d)
      | None \<Rightarrow>
        (let oldPub = ReadPub (attestPubFile d);
             retained = (case oldPub of
                None \<Rightarrow> (None, d)
              | Some p \<Rightarrow>
                  (case fault 1 of
                     Some e \<Rightarrow> (Some (Wrap ''attest: create rotated dir'' e), d)
                   | None \<Rightarrow>
                       (case WriteFileAtomic (fault 2)
                               (\<lambda>d. d\<lparr>rotatedPubDir := AList.update (Fingerprint E p) p (rotatedPubDir d)\<rparr>) d of
                          (Some e, d1) \<Rightarrow> (Some (Wrap ''attest: retain rotated key'' e), d1)
                        | (None, d1) \<Rightarrow> (None, d1))))
         in case retained of
              (Some e, d1) \<Rightarrow> (Some e, d1)
            | (None, d1) \<Rightarrow>
                (case fault 3 of
                   Some e \<Rightarrow> (Some (Wrap ''attest: generate key'' e), d1)
                 | None \<Rightarrow>
                     (case WriteFileAtomic (fault 4) (attestKeyFile_update (\<lambda>_. Some (snd keys))) d1 of
                        (Some e, d2) \<Rightarrow> (Some (Wrap ''attest: write key'' e), d2)
                      | (None, d2) \<Rightarrow>
                          (case WriteFileAtomic (fault 5) (attestPubFile_update (\<lambda>_. Some (fst keys))) d2 of
                             (Some e, d3) \<Rightarrow> (Some (Wrap ''attest: write pub'' e), d3)
                           | (None, d3) \<Rightarrow>
                               (map_option (Wrap ''attest: record key change'')
                                  (record_key (key_detail E oldPub (fst keys))), d3)))))))"

definition Attest_issue :: "ed25519 \<Rightarrow> time \<Rightarrow> AttestService \<Rightarrow> AttestationSubject \<Rightarrow> Attestation result" where
  "Attest_issue E now s subj =
     (let att0 = \<lparr>at_SandboxID = as_SandboxID subj, at_BaseDigest = as_BaseDigest subj,
            at_PayloadVersion = AttestPayloadWithBase, at_CommitHash = as_CommitHash subj,
            at_ContentHash = as_ContentHash subj, at_Alg = AlgEd25519, at_KeyID = activeKey s,
            at_HostSignature = [], at_IssuedAt = now\<rparr>;
          att = att0\<lparr>at_HostSignature := ed_Sign E (priv s) (signingPayload att0)\<rparr>
      in case Attestation_Validate att of Some e \<Rightarrow> Inl (Wrap ''attest'' e) | None \<Rightarrow> Inr att)"

definition invalid_attestation :: "string \<Rightarrow> err" where
  "invalid_attestation m = Wrap m (Sentinel ErrAttestationInvalid)"

definition Attest_Verify :: "ed25519 \<Rightarrow> AttestService \<Rightarrow> Attestation option \<Rightarrow> err option" where
  "Attest_Verify E s att =
     (case att of
        None \<Rightarrow> Some (invalid_attestation ''nil attestation'')
      | Some a \<Rightarrow>
          (case Attestation_Validate a of
             Some e \<Rightarrow> Some (Wrap2 (Sentinel ErrAttestationInvalid) e)
           | None \<Rightarrow>
               if at_Alg a \<noteq> AlgEd25519 then Some (invalid_attestation ''unsupported algorithm'')
               else (case knownPub s (at_KeyID a) of
                       None \<Rightarrow> Some (invalid_attestation ''unknown key_id'')
                     | Some pub \<Rightarrow>
                         if \<not> ed_Verify E pub (signingPayload a) (at_HostSignature a)
                         then Some (invalid_attestation ''signature does not verify'') else None)))"

lemma Attest_Verify_refusal:
  "Attest_Verify E s att = Some e \<Longrightarrow> errors_is e ErrAttestationInvalid"
  by (auto simp: Attest_Verify_def invalid_attestation_def split: option.splits if_splits)

section \<open>What a signature covers\<close>

definition read_field :: "byte list \<Rightarrow> (string \<times> byte list) option" where
  "read_field bs =
     (let n = nat (be_value (take 8 bs)); rest = drop 8 bs in
      if length bs < 8 \<or> length rest < n then None
      else Some (map (\<lambda>b. char_of (unat b)) (take n rest), drop n rest))"

lemma char_of_bytes_of [simp]: "map (\<lambda>b. char_of (unat b)) (bytes_of s) = s"
proof -
  have "char_of (unat (of_char c :: byte)) = c" for c
  proof -
    have "unat (of_nat (of_char c) :: byte) = of_char c mod 256" by (simp add: unat_of_nat)
    then show ?thesis by (simp add: of_nat_of_char)
  qed
  then show ?thesis by (simp add: bytes_of_def map_idI)
qed

abbreviation (input) go_string :: "string \<Rightarrow> bool" where
  "go_string s \<equiv> int (length s) \<le> max_int64"

interpretation fields: prefix_codec writeLengthPrefixed read_field "\<lambda>s. int (length s) \<le> max_int64"
proof unfold_locales
  fix s :: string and rest
  assume "int (length s) \<le> max_int64"
  then have "be_value (be_bytes 8 (int (length s))) = int (length s)"
    by (intro be_value_be_bytes) (simp_all add: max_int64_def)
  then show "read_field (writeLengthPrefixed s @ rest) = Some (s, rest)"
    by (simp add: read_field_def writeLengthPrefixed_def Let_def)
qed

text \<open>A Go \<open>time.Time\<close> whose \<open>UnixNano\<close> is defined: between the years 1678 and 2262.\<close>

definition nano_range :: "time \<Rightarrow> bool" where
  "nano_range t \<longleftrightarrow> in_int64 (t - 62135596800 * Second)"

lemma UnixNano_inj: "nano_range t \<Longrightarrow> nano_range u \<Longrightarrow> UnixNano t = UnixNano u \<longleftrightarrow> t = u"
  by (simp add: nano_range_def in_int64_def UnixNano_def wrap64_id)

lemma uint64_inj:
  assumes "in_int64 x" "in_int64 y" "be_bytes 8 (x mod 2 ^ 64) = be_bytes 8 (y mod 2 ^ 64)"
  shows "x = y"
proof -
  have "x mod 2 ^ 64 = y mod 2 ^ 64"
    using be_bytes_inj[of "x mod 2 ^ 64" 8 "y mod 2 ^ 64"] assms(3) by simp
  then show ?thesis
    using wrap64_id[of x] wrap64_id[of y] assms(1,2)
    by (metis in_int64_def mod_add_left_eq wrap64_def)
qed

lemma in_int64_UnixNano [simp]: "in_int64 (UnixNano t)"
  by (simp add: UnixNano_def wrap64_range)

definition go_sized :: "Attestation \<Rightarrow> bool" where
  "go_sized a \<longleftrightarrow> list_all (\<lambda>s. int (length s) \<le> max_int64)
     [at_SandboxID a, at_CommitHash a, at_ContentHash a, at_KeyID a, at_BaseDigest a]
   \<and> nano_range (at_IssuedAt a)"

lemma payload_fields:
  assumes "go_sized a" "go_sized b" "signingPayload a = signingPayload b"
  shows "at_SandboxID a = at_SandboxID b" "at_CommitHash a = at_CommitHash b"
    "at_ContentHash a = at_ContentHash b" "at_KeyID a = at_KeyID b" "at_IssuedAt a = at_IssuedAt b"
    "at_PayloadVersion a = AttestPayloadWithBase \<longleftrightarrow> at_PayloadVersion b = AttestPayloadWithBase"
    "at_PayloadVersion a = AttestPayloadWithBase \<Longrightarrow> at_BaseDigest a = at_BaseDigest b"
proof -
  let ?fs = "\<lambda>a. [at_SandboxID a, at_CommitHash a, at_ContentHash a, at_KeyID a]"
  let ?n = "\<lambda>a. be_bytes 8 (UnixNano (at_IssuedAt a) mod 2 ^ 64)"
  let ?tl = "\<lambda>a. if at_PayloadVersion a = AttestPayloadWithBase
        then be_bytes 8 (at_PayloadVersion a) @ writeLengthPrefixed (at_BaseDigest a) else []"
  have ne: "writeLengthPrefixed x \<noteq> []" for x
    using length_be_bytes[of 8 "int (length x)"] by (auto simp del: length_be_bytes simp: writeLengthPrefixed_def)
  have "?fs a = ?fs b \<and> ?n a @ ?tl a = ?n b @ ?tl b"
  proof (rule fields.enc_list_inj)
    show "concat (map writeLengthPrefixed (?fs a)) @ ?n a @ ?tl a =
       concat (map writeLengthPrefixed (?fs b)) @ ?n b @ ?tl b"
      using assms(3) by (simp only: signingPayload_def)
  qed (use assms(1,2) in \<open>simp_all add: go_sized_def\<close>)
  then have fs: "?fs a = ?fs b" and n: "?n a = ?n b" and tl: "?tl a = ?tl b" by simp_all
  show "at_SandboxID a = at_SandboxID b" "at_CommitHash a = at_CommitHash b"
    "at_ContentHash a = at_ContentHash b" "at_KeyID a = at_KeyID b" using fs by simp_all
  show "at_IssuedAt a = at_IssuedAt b"
    using uint64_inj[OF _ _ n] UnixNano_inj assms(1,2) by (simp add: go_sized_def)
  show v: "at_PayloadVersion a = AttestPayloadWithBase \<longleftrightarrow> at_PayloadVersion b = AttestPayloadWithBase"
    using tl ne by (simp split: if_splits)
  show "at_BaseDigest a = at_BaseDigest b" if "at_PayloadVersion a = AttestPayloadWithBase"
  proof -
    have "writeLengthPrefixed (at_BaseDigest a) @ [] = writeLengthPrefixed (at_BaseDigest b) @ []"
      using tl that v by simp
    then show ?thesis
      using fields.enc_prefix_free assms(1,2) by (simp add: go_sized_def)
  qed
qed

text \<open>
  C11. The signed bytes determine everything an attestation states: two well-formed
  attestations over the same bytes name the same sandbox, commit, content, key, base digest
  and instant, and have the same layout (the versions 0 and 1 are one layout). So a signature
  never carries over to another statement, and stripping the base digest changes the bytes.
\<close>

theorem payload_binds_attestation:
  assumes "Attestation_Validate a = None" "Attestation_Validate b = None" "go_sized a" "go_sized b"
    and "signingPayload a = signingPayload b"
  shows "(at_SandboxID a, at_CommitHash a, at_ContentHash a, at_KeyID a, at_BaseDigest a, at_IssuedAt a)
       = (at_SandboxID b, at_CommitHash b, at_ContentHash b, at_KeyID b, at_BaseDigest b, at_IssuedAt b)
     \<and> (at_PayloadVersion a = at_PayloadVersion b
        \<or> {at_PayloadVersion a, at_PayloadVersion b} = {0, AttestPayloadOriginal})"
proof -
  note f = payload_fields[OF assms(3-5)]
  have orig: "at_BaseDigest x = []" "at_PayloadVersion x = 0 \<or> at_PayloadVersion x = 1"
    if "Attestation_Validate x = None" "at_PayloadVersion x \<noteq> AttestPayloadWithBase" for x
    using that by (auto simp: Attestation_Validate_def validatePayloadLayout_def split: if_splits)
  show ?thesis
  proof (cases "at_PayloadVersion a = AttestPayloadWithBase")
    case True
    then show ?thesis using f by simp
  next
    case False
    then have b: "at_PayloadVersion b \<noteq> AttestPayloadWithBase" using f(6) by simp
    show ?thesis using f(1-5) orig[OF assms(1) False] orig[OF assms(2) b] by auto
  qed
qed

definition sample_attestation :: Attestation where
  "sample_attestation = \<lparr>at_SandboxID = ''s'', at_BaseDigest = [], at_PayloadVersion = 1,
     at_CommitHash = replicate 40 CHR ''a'', at_ContentHash = replicate 64 CHR ''b'', at_Alg = AlgEd25519,
     at_KeyID = ''k'', at_HostSignature = [1], at_IssuedAt = 62135596801 * Second\<rparr>"

lemma sample_attestation_ok:
  "Attestation_Validate sample_attestation = None" "Attestation_Validate (sample_attestation\<lparr>at_PayloadVersion := 0\<rparr>) = None"
  "go_sized sample_attestation" "go_sized (sample_attestation\<lparr>at_PayloadVersion := 0\<rparr>)"
  "signingPayload sample_attestation = signingPayload (sample_attestation\<lparr>at_PayloadVersion := 0\<rparr>)"
  by (simp_all add: sample_attestation_def Attestation_Validate_def validatePayloadLayout_def sha1HexRe_iff
      sha256HexRe_iff in_class_def hex_cls_def go_sized_def nano_range_def in_int64_def max_int64_def min_int64_def
      signingPayload_def)

theorem payload_binds_attestation_witness:
  "{at_PayloadVersion sample_attestation, 0} = {0, AttestPayloadOriginal}"
  using payload_binds_attestation[OF sample_attestation_ok] by (auto simp: sample_attestation_def)

section \<open>Attestations survive key rotation\<close>

text \<open>What rotation keeps: the public key file is the public half of the key file, and the
  retired keys are files named by their fingerprints.\<close>

definition paired :: "ed25519 \<Rightarrow> trust_dir \<Rightarrow> bool" where
  "paired E d \<longleftrightarrow> attestPubFile d = map_option (ed_Public E) (attestKeyFile d)"

definition retains :: "ed25519 \<Rightarrow> file_bytes \<Rightarrow> trust_dir \<Rightarrow> bool" where
  "retains E pub d \<longleftrightarrow> map_option (ed_Public E) (attestKeyFile d) = Some pub \<or> (Fingerprint E pub, pub) \<in> set (rotatedPubDir d)"

text \<open>The keys a trust directory holds have different fingerprints.\<close>

definition distinct_prints :: "ed25519 \<Rightarrow> bool" where
  "distinct_prints E \<longleftrightarrow> inj_on (Fingerprint E) {p. length p = PublicKeySize}"

lemma load_rotated_known:
  assumes "distinct_prints E" "length pub = PublicKeySize"
    and "known (Fingerprint E pub) \<in> {None, Some pub}"
    and "known (Fingerprint E pub) = Some pub \<or> (\<exists>n. (n, pub) \<in> set entries)"
  shows "load_rotated E entries known (Fingerprint E pub) = Some pub"
  using assms(3,4)
proof (induction entries arbitrary: known)
  case Nil
  then show ?case by (simp add: load_rotated_def)
next
  case (Cons e entries)
  let ?k = "case ReadPub (Some (snd e)) of None \<Rightarrow> known | Some p \<Rightarrow> known(Fingerprint E p \<mapsto> p)"
  have eq: "p = pub" if "ReadPub (Some q) = Some p" "Fingerprint E p = Fingerprint E pub" for p q
    using that assms(1,2) by (auto simp: ReadPub_def distinct_prints_def inj_on_def split: if_splits)
  have "?k (Fingerprint E pub) \<in> {None, Some pub}"
    using Cons.prems(1) eq[of "snd e"] by (auto split: option.splits)
  moreover have "?k (Fingerprint E pub) = Some pub \<or> (\<exists>n. (n, pub) \<in> set entries)"
    using Cons.prems(2) eq[of "snd e"] assms(2) by (cases e) (auto simp: ReadPub_def split: option.splits if_splits)
  ultimately show ?case using Cons.IH[of ?k] by (simp add: load_rotated_def)
qed

lemma service_knows:
  assumes "distinct_prints E" "length pub = PublicKeySize" "\<And>k. length (ed_Public E k) = PublicKeySize"
    and "NewService E d = Inr s" "retains E pub d"
  shows "knownPub s (Fingerprint E pub) = Some pub"
proof -
  obtain k where k: "attestKeyFile d = Some k"
    and s: "knownPub s = load_rotated E (rotatedPubDir d) [Fingerprint E (ed_Public E k) \<mapsto> ed_Public E k]"
    using assms(4) by (auto simp: NewService_def Let_def split: option.splits if_splits)
  have inj: "ed_Public E k = pub" if "Fingerprint E (ed_Public E k) = Fingerprint E pub"
    using that assms(1-3) by (auto simp: distinct_prints_def inj_on_def)
  show ?thesis unfolding s
    by (rule load_rotated_known[OF assms(1,2)]) (use inj assms(5) k in \<open>auto simp: retains_def\<close>)
qed

text \<open>What a run leaves behind: a run that fails may stop between the two key files.\<close>

definition retire :: "ed25519 \<Rightarrow> trust_dir \<Rightarrow> trust_dir" where
  "retire E d = (case ReadPub (attestPubFile d) of
     None \<Rightarrow> d | Some p \<Rightarrow> d\<lparr>rotatedPubDir := AList.update (Fingerprint E p) p (rotatedPubDir d)\<rparr>)"

lemma retire_files [simp]:
  "attestKeyFile (retire E d) = attestKeyFile d" "attestPubFile (retire E d) = attestPubFile d"
  by (simp_all add: retire_def split: option.splits)

lemma GenerateKey_effect:
  assumes "GenerateKey E root fault keys audit d = (e, d')"
  shows "d' = (retire E d)\<lparr>attestKeyFile := Some (snd keys), attestPubFile := Some (fst keys)\<rparr>
    \<or> e \<noteq> None \<and> d' \<in> {d, retire E d, (retire E d)\<lparr>attestKeyFile := Some (snd keys)\<rparr>}"
proof (cases "ReadPub (attestPubFile d)")
  case None
  then show ?thesis using assms
    by (auto simp: GenerateKey_def WriteFileAtomic_def retire_def split: if_splits option.splits)
next
  case (Some p)
  then show ?thesis using assms
    by (auto simp: GenerateKey_def WriteFileAtomic_def retire_def split: if_splits option.splits)
qed

lemma in_alist_update: "(k, v) \<in> set (AList.update k v xs)"
  by (induction xs) auto

lemma alist_update_keeps: "(k, v) \<in> set xs \<Longrightarrow> k \<noteq> j \<Longrightarrow> (k, v) \<in> set (AList.update j w xs)"
  by (induction xs) auto

lemma alist_update_only: "(k, v) \<in> set (AList.update j w xs) \<Longrightarrow> (k, v) = (j, w) \<or> (k, v) \<in> set xs"
  by (induction xs) (auto split: if_splits)

lemma retains_step:
  assumes "distinct_prints E" "length pub = PublicKeySize" "\<And>k. length (ed_Public E k) = PublicKeySize"
    and "paired E d" "retains E pub d" "GenerateKey E root fault keys audit d = (e, d')"
  shows "retains E pub d'"
proof -
  have retired: "(Fingerprint E pub, pub) \<in> set (rotatedPubDir (retire E d))"
  proof (cases "map_option (ed_Public E) (attestKeyFile d) = Some pub")
    case True
    then have "ReadPub (attestPubFile d) = Some pub" using assms(2,4) by (auto simp: paired_def ReadPub_def)
    then show ?thesis by (simp add: retire_def in_alist_update)
  next
    case False
    then have f: "(Fingerprint E pub, pub) \<in> set (rotatedPubDir d)" using assms(5) by (auto simp: retains_def)
    show ?thesis
    proof (cases "ReadPub (attestPubFile d)")
      case (Some p)
      then have "length p = PublicKeySize" by (auto simp: ReadPub_def split: option.splits if_splits)
      then have "Fingerprint E p = Fingerprint E pub \<Longrightarrow> p = pub"
        using assms(1,2) by (auto simp: distinct_prints_def inj_on_def)
      then show ?thesis using Some f in_alist_update[of "Fingerprint E pub" pub] alist_update_keeps[OF f]
        by (cases "Fingerprint E p = Fingerprint E pub") (auto simp: retire_def)
    qed (simp add: retire_def f)
  qed
  then show ?thesis using GenerateKey_effect[OF assms(6)] assms(5) by (auto simp: retains_def)
qed

text \<open>A sequence of rotations, each of which returned without error.\<close>

type_synonym rotation = "(nat \<Rightarrow> err option) \<times> (file_bytes \<times> file_bytes) \<times> (string \<Rightarrow> err option)"

fun rotate_all :: "ed25519 \<Rightarrow> string \<Rightarrow> rotation list \<Rightarrow> trust_dir \<Rightarrow> trust_dir result" where
  "rotate_all E root [] d = Inr d"
| "rotate_all E root ((fault, keys, audit) # runs) d =
     (case GenerateKey E root fault keys (Some audit) d of
        (Some e, d') \<Rightarrow> Inl e
      | (None, d') \<Rightarrow> rotate_all E root runs d')"

text \<open>What the code relies on of Ed25519 and of the digest: key pairs sign and verify, a public
  key has its size, and different public keys have different fingerprints.\<close>

definition ed25519_ok :: "ed25519 \<Rightarrow> bool" where
  "ed25519_ok E \<longleftrightarrow> (\<forall>k m. ed_Verify E (ed_Public E k) m (ed_Sign E k m))
     \<and> (\<forall>k. length (ed_Public E k) = PublicKeySize) \<and> distinct_prints E"

definition key_pair :: "ed25519 \<Rightarrow> file_bytes \<times> file_bytes \<Rightarrow> bool" where
  "key_pair E keys \<longleftrightarrow> fst keys = ed_Public E (snd keys)"

lemma rotate_all_retains:
  assumes "ed25519_ok E" "list_all (\<lambda>(_, keys, _). key_pair E keys) runs" "length pub = PublicKeySize"
    and "paired E d" "retains E pub d" "rotate_all E root runs d = Inr d'"
  shows "paired E d' \<and> retains E pub d'"
  using assms(2,4-6)
proof (induction runs arbitrary: d)
  case (Cons run runs)
  obtain fault keys audit where run: "run = (fault, keys, audit)" by (cases run)
  from Cons.prems(4) obtain d1 where g: "GenerateKey E root fault keys (Some audit) d = (None, d1)"
    and rest: "rotate_all E root runs d1 = Inr d'"
    by (auto simp: run split: prod.splits option.splits)
  have "retains E pub d1"
    using retains_step[OF _ assms(3) _ Cons.prems(2,3) g] assms(1) by (simp add: ed25519_ok_def)
  moreover have "paired E d1"
    using GenerateKey_effect[OF g] Cons.prems(1) by (auto simp: run paired_def key_pair_def)
  ultimately show ?case using Cons.IH[OF _ _ _ rest] Cons.prems(1) by simp
qed simp

text \<open>
  C12. An attestation the host issued keeps verifying: after any number of completed key
  rotations and one more that may fail at any step, a service loaded from the trust directory
  still accepts it.
\<close>

theorem attestations_survive_rotation:
  assumes "ed25519_ok E" "paired E d" "NewService E d = Inr s" "Attest_issue E now s subj = Inr att"
    and "list_all (\<lambda>(_, keys, _). key_pair E keys) runs" "rotate_all E root runs d = Inr d1"
    and "GenerateKey E root fault keys audit d1 = (e, d2)" "NewService E d2 = Inr s2"
  shows "Attest_Verify E s2 (Some att) = None"
proof -
  let ?pub = "ed_Public E (priv s)"
  have E: "distinct_prints E" "\<And>k. length (ed_Public E k) = PublicKeySize"
    "\<And>k m. ed_Verify E (ed_Public E k) m (ed_Sign E k m)" using assms(1) by (simp_all add: ed25519_ok_def)
  have key: "attestKeyFile d = Some (priv s)" "activeKey s = Fingerprint E ?pub"
    using assms(3) by (auto simp: NewService_def Let_def split: option.splits if_splits)
  have "retains E ?pub d" by (simp add: retains_def key)
  then have "paired E d1" "retains E ?pub d1"
    using rotate_all_retains[OF assms(1,5) _ assms(2) _ assms(6)] E(2) by blast+
  then have "retains E ?pub d2" using retains_step[OF E(1) E(2) E(2) _ _ assms(7)] by blast
  then have known: "knownPub s2 (Fingerprint E ?pub) = Some ?pub"
    using service_knows[OF E(1) E(2) E(2) assms(8)] by blast
  have att: "Attestation_Validate att = None" "at_Alg att = AlgEd25519" "at_KeyID att = activeKey s"
    "at_HostSignature att = ed_Sign E (priv s) (signingPayload att)"
    using assms(4) by (auto simp: Attest_issue_def Let_def signingPayload_def split: option.splits)
  show ?thesis by (simp add: Attest_Verify_def att known key(2) E(3))
qed

definition sample_ed25519 :: ed25519 where
  "sample_ed25519 = \<lparr>ed_Public = (\<lambda>k. take 32 (k @ replicate 32 0)), ed_Sign = (\<lambda>k m. take 32 (k @ replicate 32 0)),
     ed_Verify = (\<lambda>p m s. p = s), key_sha256_hex = map (\<lambda>b. char_of (unat b))\<rparr>"

definition sample_trust_dir :: trust_dir where
  "sample_trust_dir = \<lparr>attestKeyFile = Some (replicate 64 1), attestPubFile = Some (replicate 32 1), rotatedPubDir = []\<rparr>"

definition sample_subject :: AttestationSubject where
  "sample_subject = \<lparr>as_SandboxID = ''s'', as_CommitHash = replicate 40 CHR ''a'',
     as_ContentHash = replicate 64 CHR ''b'', as_BaseDigest = ''d''\<rparr>"

definition sample_runs :: "rotation list" where
  "sample_runs = [(\<lambda>_. None, (replicate 32 2, replicate 64 2), \<lambda>_. None)]"

definition sample_fault :: "nat \<Rightarrow> err option" where
  "sample_fault n = (if n = 5 then Some (Errorf ''disk full'') else None)"

lemma sample_ed25519_ok: "ed25519_ok sample_ed25519"
proof -
  have "inj (\<lambda>b :: byte. char_of (unat b))"
  proof (rule injI)
    fix b c :: byte
    assume "char_of (unat b) = (char_of (unat c) :: char)"
    then have "(of_char (char_of (unat b) :: char) :: nat) = of_char (char_of (unat c) :: char)" by simp
    then have "unat b mod 256 = unat c mod 256" by (simp only: of_char_of)
    then have "unat b = unat c" using unsigned_less[of b, where ?'a = nat] unsigned_less[of c, where ?'a = nat] by simp
    then show "b = c" by (rule unsigned_word_eqI)
  qed
  then show ?thesis
    by (auto simp: ed25519_ok_def distinct_prints_def sample_ed25519_def Fingerprint_def inj_on_def inj_map_eq_map)
qed

theorem attestations_survive_rotation_witness:
  "\<exists>s att d1 s2. NewService sample_ed25519 sample_trust_dir = Inr s
     \<and> Attest_issue sample_ed25519 (62135596801 * Second) s sample_subject = Inr att
     \<and> rotate_all sample_ed25519 ''/h'' sample_runs sample_trust_dir = Inr d1
     \<and> NewService sample_ed25519 (snd (GenerateKey sample_ed25519 ''/h'' sample_fault
          (replicate 32 3, replicate 64 3) (Some (\<lambda>_. None)) d1)) = Inr s2
     \<and> Attest_Verify sample_ed25519 s2 (Some att) = None"
proof -
  note defs = sample_ed25519_def sample_trust_dir_def sample_subject_def sample_runs_def sample_fault_def
  obtain s where s: "NewService sample_ed25519 sample_trust_dir = Inr s" and k: "activeKey s \<noteq> []"
    and pr: "priv s = replicate 64 1"
    by (simp add: NewService_def defs Fingerprint_def Let_def)
  obtain att where att: "Attest_issue sample_ed25519 (62135596801 * Second) s sample_subject = Inr att"
    using k by (simp add: Attest_issue_def defs Attestation_Validate_def validatePayloadLayout_def sha1HexRe_iff
      sha256HexRe_iff in_class_def hex_cls_def Let_def pr)
  obtain d1 where d1: "rotate_all sample_ed25519 ''/h'' sample_runs sample_trust_dir = Inr d1"
    by (simp add: defs GenerateKey_def WriteFileAtomic_def ReadPub_def)
  let ?g = "GenerateKey sample_ed25519 ''/h'' sample_fault (replicate 32 3, replicate 64 3) (Some (\<lambda>_. None)) d1"
  have key: "attestKeyFile d1 = Some (replicate 64 2)"
    using d1 by (auto simp: defs GenerateKey_def WriteFileAtomic_def ReadPub_def)
  have "attestKeyFile (snd ?g) \<in> {Some (replicate 64 2), Some (replicate 64 3)}"
    using GenerateKey_effect[OF prod.collapse[symmetric], of sample_ed25519 "''/h''" sample_fault
      "(replicate 32 3, replicate 64 3)" "Some (\<lambda>_. None)" d1] key by auto
  then obtain s2 where s2: "NewService sample_ed25519 (snd ?g) = Inr s2"
    by (auto simp: NewService_def Let_def)
  have "Attest_Verify sample_ed25519 s2 (Some att) = None"
    by (rule attestations_survive_rotation[OF sample_ed25519_ok _ s att _ d1 _ s2, where e = "fst ?g"])
      (simp_all add: paired_def key_pair_def defs)
  then show ?thesis using s att d1 s2 by blast
qed

text \<open>
  The order of the two key files matters: a rotation cut off between them leaves a public
  key file that is not the active key's, and the next rotation retires that one instead.
  What the host attested in between no longer verifies.
\<close>

lemma load_rotated_unknown:
  "known (Fingerprint E pub) = None \<Longrightarrow> Fingerprint E pub \<notin> Fingerprint E ` snd ` set entries
    \<Longrightarrow> load_rotated E entries known (Fingerprint E pub) = None"
  by (induction entries arbitrary: known)
    (auto simp: load_rotated_def ReadPub_def)

lemma interrupted_rotation_loses_key:
  assumes "GenerateKey E root fault keys (Some audit) d = (Some e, d1)" "attestKeyFile d1 = Some (snd keys)"
    and "attestPubFile d1 = attestPubFile d" "key_pair E keys"
    and "NewService E d1 = Inr s1" "Attest_issue E now s1 subj = Inr att"
    and "GenerateKey E root fault' keys' (Some audit') d1 = (None, d2)" "NewService E d2 = Inr s2"
    and new: "Fingerprint E (fst keys) \<notin> Fingerprint E ` ({ed_Public E (snd keys')} \<union> snd ` set (rotatedPubDir d1)
        \<union> set_option (attestPubFile d))"
  shows "Attest_Verify E s2 (Some att) = Some (invalid_attestation ''unknown key_id'')"
proof -
  have key: "attestKeyFile d2 = Some (snd keys')" "rotatedPubDir d2 = rotatedPubDir (retire E d1)"
    using GenerateKey_effect[OF assms(7)] by auto
  have "Fingerprint E (fst keys) \<notin> Fingerprint E ` snd ` set (rotatedPubDir d2)"
    using new assms(3) by (cases "attestPubFile d")
      (auto simp: key(2) retire_def ReadPub_def dest!: alist_update_only split: if_splits)
  then have unknown: "knownPub s2 (Fingerprint E (fst keys)) = None"
    using assms(8) new key(1) by (auto simp: NewService_def Let_def intro!: load_rotated_unknown split: if_splits)
  have "at_KeyID att = Fingerprint E (fst keys)" "Attestation_Validate att = None" "at_Alg att = AlgEd25519"
    using assms(2,4-6) by (auto simp: NewService_def Attest_issue_def Let_def key_pair_def split: option.splits if_splits)
  then show ?thesis by (simp add: Attest_Verify_def unknown)
qed

end
