(* ===== verification/Land_Verify.thy ===== *)
theory Land_Verify
  imports Land_Chain Attest
begin

text \<open>
  The checks of the land boundary (\<open>internal/sandboxd/land\<close>): a commit bound to its object
  bytes (\<open>verify.go\<close>), its diffs bound to the landed tree (\<open>treebind.go\<close>), the commit the host
  derives from the bytes (\<open>derive.go\<close>), parent trees from the host store or the pool
  (\<open>parenttree.go\<close>), and the gate on attestations (\<open>require.go\<close>).
\<close>

section \<open>Binding a commit to its bytes (\<open>verify.go\<close>)\<close>

definition metadataMismatch :: "Commit \<Rightarrow> Commit \<Rightarrow> string" where
  "metadataMismatch derived want =
     (if Message derived \<noteq> Message want then ''message''
      else if TreeHash derived \<noteq> TreeHash want then ''tree_hash''
      else if ParentID derived \<noteq> ParentID want then ''parent_id''
      else if AgentID derived \<noteq> AgentID want then ''agent_id''
      else if CreatedAt derived \<noteq> CreatedAt want then ''created_at''
      else [])"

definition VerifyBinding :: "git_lib \<Rightarrow> hashing \<Rightarrow> byte list \<Rightarrow> Commit option \<Rightarrow> err option" where
  "VerifyBinding G h objectData c =
     (case c of
        None \<Rightarrow> Some (land_err ''nil commit'')
      | Some c \<Rightarrow>
          (case CommitFromObjectData G objectData of
             Inl e \<Rightarrow> Some (Wrap2 (Sentinel ErrLandVerificationFailed) e)
           | Inr derived \<Rightarrow>
               if CommitID derived \<noteq> CommitID c then Some (land_err ''git object id does not match claimed'')
               else if metadataMismatch derived c \<noteq> []
               then Some (land_err (''commit metadata does not match the object bytes: '' @ metadataMismatch derived c))
               else if ComputeContentHash h c \<noteq> ContentHash c
               then Some (land_err ''recomputed content_hash does not match claimed'')
               else None))"

definition VerifyCommit :: "git_lib \<Rightarrow> hashing \<Rightarrow> byte list \<Rightarrow> Commit option
    \<Rightarrow> (byte list \<Rightarrow> Commit option \<Rightarrow> 's \<Rightarrow> err option \<times> 's) \<Rightarrow> 's \<Rightarrow> err option \<times> 's" where
  "VerifyCommit G h objectData c imp s =
     (case VerifyBinding G h objectData c of Some e \<Rightarrow> (Some e, s) | None \<Rightarrow> imp objectData c s)"

section \<open>Binding the diffs to the tree (\<open>treebind.go\<close>)\<close>

definition tree_diff :: "string \<Rightarrow> DiffOperation \<Rightarrow> string \<Rightarrow> string \<Rightarrow> FileDiff" where
  "tree_diff p op old new = \<lparr>Path = p, Operation = op, OldHash = old, NewHash = new, Hunks = [],
     BinaryDiff = False, Mode = FileModeRegular, OldMode = FileModeRegular\<rparr>"

definition landed_diff :: "files \<Rightarrow> string \<times> string \<Rightarrow> FileDiff list" where
  "landed_diff parent f =
     (case map_of parent (fst f) of
        None \<Rightarrow> [tree_diff (fst f) DiffAdded [] (snd f)]
      | Some oldHash \<Rightarrow> if oldHash \<noteq> snd f then [tree_diff (fst f) DiffModified oldHash (snd f)] else [])"

definition parent_diff :: "files \<Rightarrow> string \<times> string \<Rightarrow> FileDiff list" where
  "parent_diff landed f =
     (if map_of landed (fst f) = None then [tree_diff (fst f) DiffDeleted (snd f) []] else [])"

definition diffFileSets :: "iteration \<Rightarrow> iteration \<Rightarrow> files \<Rightarrow> files \<Rightarrow> FileDiff list" where
  "diffFileSets it1 it2 parent landed =
     concat (map (landed_diff parent) (range_map it1 landed)) @ concat (map (parent_diff landed) (range_map it2 parent))"

definition diff_key :: "FileDiff \<Rightarrow> string" where
  "diff_key d = Path d @ [CHR 0x00] @ op_text (Operation d) @ [CHR 0x00] @ OldHash d @ [CHR 0x00] @ NewHash d"

definition diffsMatch :: "FileDiff list \<Rightarrow> FileDiff list \<Rightarrow> bool" where
  "diffsMatch claimed recomputed \<longleftrightarrow>
     length claimed = length recomputed \<and>
     (let c = map diff_key claimed; r = map diff_key recomputed in
      list_all (\<lambda>k. int (count_list r k) - int (count_list c k) = 0) (r @ c))"

definition blob_absent :: "git_lib \<Rightarrow> objects \<Rightarrow> FileDiff \<Rightarrow> err option" where
  "blob_absent G st d =
     (if NewHash d = [] then None
      else (case st (git_NewHash G (NewHash d)) of
              Some ob \<Rightarrow> if ob_Type ob = ObjBlob then None
                         else Some (land_err ''a landed blob is absent from the object pool'')
            | None \<Rightarrow> Some (land_err ''a landed blob is absent from the object pool'')))"

definition VerifyTreeBinding :: "git_lib \<Rightarrow> iteration \<Rightarrow> iteration \<Rightarrow> Object list \<Rightarrow> Commit option \<Rightarrow> files \<Rightarrow> err option" where
  "VerifyTreeBinding G it1 it2 objects c parentFiles =
     (case c of
        None \<Rightarrow> Some (land_err ''nil commit'')
      | Some c \<Rightarrow>
          (case poolStorer G objects of
             Inl e \<Rightarrow> Some e
           | Inr storer \<Rightarrow>
               (case landedFileSet G storer (TreeHash c) of
                  Inl e \<Rightarrow> Some e
                | Inr landedFiles \<Rightarrow>
                    (let recomputed = diffFileSets it1 it2 parentFiles landedFiles in
                     andthen (first_err (blob_absent G storer) recomputed)
                       (guard_err (\<not> diffsMatch (FileDiffs c) recomputed)
                          (land_err ''claimed file diffs do not match the landed tree''))))))"

section \<open>Deriving the commit (\<open>derive.go\<close>)\<close>

definition DeriveLandedCommit :: "git_lib \<Rightarrow> hashing \<Rightarrow> iteration \<Rightarrow> iteration \<Rightarrow> byte list \<Rightarrow> Object list
    \<Rightarrow> TaskID \<Rightarrow> files \<Rightarrow> Commit result" where
  "DeriveLandedCommit G h it1 it2 objData pool taskID parentFiles =
     (case CommitFromObjectData G objData of
        Inl e \<Rightarrow> Inl (Wrap2 (Sentinel ErrLandVerificationFailed) e)
      | Inr c \<Rightarrow>
          bind_result (poolStorer G pool) (\<lambda>storer.
          bind_result (landedFileSet G storer (TreeHash c)) (\<lambda>landedFiles.
            let c1 = c\<lparr>CTaskID := taskID, FileDiffs := diffFileSets it1 it2 parentFiles landedFiles\<rparr>
            in Inr (c1\<lparr>ContentHash := ComputeContentHash h c1\<rparr>))))"

section \<open>Parent trees (\<open>parenttree.go\<close>)\<close>

fun leaf_files :: "files \<Rightarrow> tree_entry list \<Rightarrow> files" where
  "leaf_files files [] = files"
| "leaf_files files (t # ts) =
     leaf_files (if te_Dir t then files else AList.update (te_Name t) (te_Hash t) files) ts"

definition Host_ParentFileSet :: "git_lib \<Rightarrow> object_db \<Rightarrow> string \<Rightarrow> files result" where
  "Host_ParentFileSet G db parentCommitID =
     (if parentCommitID = [] \<or> parentCommitID = ZeroHash then Inr []
      else (case GetCommit G db parentCommitID of
              Inl e \<Rightarrow> Inl (Wrap (''resolve parent commit '' @ parentCommitID) e)
            | Inr c \<Rightarrow>
                (case TraverseTree G db (TreeHash c) of
                   Inl e \<Rightarrow> Inl (Wrap ''traverse parent tree'' e)
                 | Inr entries \<Rightarrow> Inr (leaf_files [] entries))))"

definition HostHasCommit :: "git_lib \<Rightarrow> object_db \<Rightarrow> string \<Rightarrow> bool \<times> err option" where
  "HostHasCommit G db commitID =
     (if commitID = [] then (False, None)
      else (case GetCommit G db commitID of
              Inl e \<Rightarrow> if errors_is e ErrCommitNotFound then (False, None)
                       else (False, Some (Wrap ''host has commit'' e))
            | Inr _ \<Rightarrow> (True, None)))"

text \<open>The registry of pools: the entry of a commit that is new in some land under way.\<close>

type_synonym pool_registry = "string \<rightharpoonup> Object list"

definition commitIDs :: "git_lib \<Rightarrow> Object list \<Rightarrow> string list result" where
  "commitIDs G pool = bind_result (CommitObjectsByID G pool) (\<lambda>byID. Inr (map fst byID))"

definition Register :: "git_lib \<Rightarrow> Object list \<Rightarrow> pool_registry \<Rightarrow> string list result \<times> pool_registry" where
  "Register G pool reg =
     (case commitIDs G pool of
        Inl e \<Rightarrow> (Inl e, reg)
      | Inr ids \<Rightarrow> (Inr ids, \<lambda>i. if i \<in> set ids then Some pool else reg i))"

definition Deregister :: "string list \<Rightarrow> pool_registry \<Rightarrow> pool_registry" where
  "Deregister ids reg = (\<lambda>i. if i \<in> set ids then None else reg i)"

definition poolCommitFileSet :: "git_lib \<Rightarrow> Object list \<Rightarrow> string \<Rightarrow> files result" where
  "poolCommitFileSet G pool commitID =
     bind_result (CommitObjectsByID G pool) (\<lambda>byID.
       case map_of byID commitID of
         None \<Rightarrow> Inl (land_err ''intra-batch parent absent from pool'')
       | Some data \<Rightarrow>
           (case CommitFromObjectData G data of
              Inl e \<Rightarrow> Inl (Wrap2 (Sentinel ErrLandVerificationFailed) e)
            | Inr c \<Rightarrow> bind_result (poolStorer G pool) (\<lambda>storer. landedFileSet G storer (TreeHash c))))"

definition ParentFileSet :: "git_lib \<Rightarrow> object_db \<Rightarrow> pool_registry \<Rightarrow> string \<Rightarrow> files result" where
  "ParentFileSet G db reg parentCommitID =
     (case reg parentCommitID of
        Some pool \<Rightarrow> poolCommitFileSet G pool parentCommitID
      | None \<Rightarrow> Host_ParentFileSet G db parentCommitID)"

section \<open>The gate on attestations (\<open>require.go\<close>)\<close>

definition EnforceRequireSandbox :: "(Attestation option \<Rightarrow> err option) \<Rightarrow> bool \<Rightarrow> string \<Rightarrow> Commit option
    \<Rightarrow> Attestation option \<Rightarrow> string option result" where
  "EnforceRequireSandbox verify requireSandbox expectedSandboxID commit att =
     (if \<not> requireSandbox then Inr None
      else (case commit of
        None \<Rightarrow> Inl (land_err ''nil commit'')
      | Some c \<Rightarrow>
        (case att of
           None \<Rightarrow> Inl (Sentinel ErrUnattestedCommit)
         | Some a \<Rightarrow>
             (case verify (Some a) of
                Some e \<Rightarrow> Inl e
              | None \<Rightarrow>
                  if at_CommitHash a \<noteq> CommitID c \<or> at_ContentHash a \<noteq> ContentHash c
                  then Inl (invalid_attestation ''attestation is for another commit'')
                  else if at_SandboxID a \<noteq> expectedSandboxID
                  then Inl (invalid_attestation ''attestation is for another sandbox'')
                  else Inr (Some (at_SandboxID a))))))"

lemma gate_passes:
  assumes "EnforceRequireSandbox verify True sid (Some c) att = Inr prov"
  shows "\<exists>a. att = Some a \<and> verify (Some a) = None \<and> at_CommitHash a = CommitID c
     \<and> at_ContentHash a = ContentHash c \<and> at_SandboxID a = sid \<and> prov = Some sid"
  using assms by (auto simp: EnforceRequireSandbox_def split: option.splits if_splits)

section \<open>Verified diffs describe the landed tree\<close>

definition nul_free :: "string \<Rightarrow> bool" where
  "nul_free s \<longleftrightarrow> CHR 0x00 \<notin> set s"

definition diff_fields :: "FileDiff \<Rightarrow> string list" where
  "diff_fields d = [Path d, op_text (Operation d), OldHash d, NewHash d]"

lemma diff_key_join: "diff_key d = join_with CHR 0x00 (diff_fields d)"
  by (simp add: diff_key_def diff_fields_def)

text \<open>A key with no more separators than four fields need is split in one way.\<close>

lemma diff_key_inj:
  assumes "diff_key c = diff_key r" "list_all nul_free (diff_fields r)"
  shows "diff_fields c = diff_fields r"
proof -
  have n: "nul_free f \<longleftrightarrow> count_list f CHR 0x00 = 0" for f by (simp add: nul_free_def count_list_0_iff)
  have "count_list (diff_key d) CHR 0x00 = 3 + count_list (Path d) CHR 0x00
      + count_list (op_text (Operation d)) CHR 0x00 + count_list (OldHash d) CHR 0x00 + count_list (NewHash d) CHR 0x00" for d
    by (simp add: diff_key_def)
  from this[of c] this[of r] have c: "list_all nul_free (diff_fields c)"
    using assms by (simp add: diff_fields_def n)
  have "split_on CHR 0x00 (join_with CHR 0x00 (diff_fields d)) = diff_fields d"
    if "list_all nul_free (diff_fields d)" for d
    using that by (intro split_join) (auto simp: list_all_iff nul_free_def diff_fields_def)
  then show ?thesis using assms c by (metis diff_key_join)
qed

lemma count_list_mset: "count_list xs k = count (mset xs) k"
  by (induction xs) auto

lemma diffsMatch_iff: "diffsMatch claimed recomputed \<longleftrightarrow> mset (map diff_key claimed) = mset (map diff_key recomputed)"
proof
  assume m: "diffsMatch claimed recomputed"
  let ?c = "map diff_key claimed" and ?r = "map diff_key recomputed"
  show "mset ?c = mset ?r"
  proof (rule multiset_eqI)
    fix k
    show "count (mset ?c) k = count (mset ?r) k"
    proof (cases "k \<in> set (?r @ ?c)")
      case True
      then have "int (count_list ?r k) - int (count_list ?c k) = 0"
        using m unfolding diffsMatch_def Let_def list_all_iff by blast
      then show ?thesis by (simp add: count_list_mset)
    next
      case False
      then have "count_list ?r k = 0" "count_list ?c k = 0" by (auto simp: count_list_0_iff)
      then show ?thesis by (simp add: count_list_mset)
    qed
  qed
next
  assume m: "mset (map diff_key claimed) = mset (map diff_key recomputed)"
  then have "length claimed = length recomputed" using mset_eq_length by fastforce
  then show "diffsMatch claimed recomputed"
    using m by (simp add: diffsMatch_def Let_def list_all_iff count_list_mset)
qed

text \<open>The diff of one path, by the two file sets.\<close>

definition path_diff :: "files \<Rightarrow> files \<Rightarrow> string \<Rightarrow> FileDiff option" where
  "path_diff parent landed p =
     (case (map_of parent p, map_of landed p) of
        (None, None) \<Rightarrow> None
      | (None, Some n) \<Rightarrow> Some (tree_diff p DiffAdded [] n)
      | (Some old, Some n) \<Rightarrow> if old \<noteq> n then Some (tree_diff p DiffModified old n) else None
      | (Some old, None) \<Rightarrow> Some (tree_diff p DiffDeleted old []))"

lemma tree_diff_sel [simp]:
  "Path (tree_diff p op old new) = p" "Operation (tree_diff p op old new) = op"
  "OldHash (tree_diff p op old new) = old" "NewHash (tree_diff p op old new) = new"
  by (simp_all add: tree_diff_def)

lemma ex_entry:
  assumes "distinct (map fst xs)" "\<And>f. P f \<Longrightarrow> fst f = p"
  shows "(\<exists>f \<in> set xs. P f) \<longleftrightarrow> (case map_of xs p of None \<Rightarrow> False | Some n \<Rightarrow> P (p, n))"
proof (cases "map_of xs p")
  case None
  then have "p \<notin> fst ` set xs" by (simp add: map_of_eq_None_iff)
  then show ?thesis using assms(2) None by auto
next
  case (Some n)
  then have in_xs: "(p, n) \<in> set xs" by (rule map_of_SomeD)
  have "f = (p, n)" if f: "f \<in> set xs" "P f" for f
  proof -
    have "f = (p, snd f)" using assms(2)[OF f(2)] by (metis prod.collapse)
    then have "map_of xs p = Some (snd f)" using f(1) assms(1) by (metis map_of_eq_Some_iff)
    then show ?thesis using Some \<open>f = (p, snd f)\<close> by simp
  qed
  then show ?thesis using in_xs Some by auto
qed

lemma diffFileSets_iff:
  assumes "iteration_ok it1" "iteration_ok it2" "distinct (map fst parent)" "distinct (map fst landed)"
  shows "d \<in> set (diffFileSets it1 it2 parent landed) \<longleftrightarrow> path_diff parent landed (Path d) = Some d"
proof -
  have l: "fst f = Path d" if "d \<in> set (landed_diff parent f)" for f
    using that by (auto simp: landed_diff_def split: option.splits if_splits)
  have p: "fst f = Path d" if "d \<in> set (parent_diff landed f)" for f
    using that by (auto simp: parent_diff_def split: if_splits)
  have L: "(\<exists>f \<in> set landed. d \<in> set (landed_diff parent f)) \<longleftrightarrow>
      (case map_of landed (Path d) of None \<Rightarrow> False | Some n \<Rightarrow> d \<in> set (landed_diff parent (Path d, n)))"
    by (rule ex_entry[OF assms(4) l])
  have P: "(\<exists>f \<in> set parent. d \<in> set (parent_diff landed f)) \<longleftrightarrow>
      (case map_of parent (Path d) of None \<Rightarrow> False | Some n \<Rightarrow> d \<in> set (parent_diff landed (Path d, n)))"
    by (rule ex_entry[OF assms(3) p])
  have "d \<in> set (diffFileSets it1 it2 parent landed) \<longleftrightarrow>
      (\<exists>f \<in> set landed. d \<in> set (landed_diff parent f)) \<or> (\<exists>f \<in> set parent. d \<in> set (parent_diff landed f))"
    using assms(1,2) by (auto simp: diffFileSets_def)
  also have "\<dots> \<longleftrightarrow> path_diff parent landed (Path d) = Some d"
    unfolding L P
    by (cases "map_of parent (Path d)"; cases "map_of landed (Path d)")
      (auto simp: path_diff_def landed_diff_def parent_diff_def)
  finally show ?thesis .
qed

text \<open>What is relied on of go-git's tree walker: names and hashes have no NUL (a name ends at
  the first NUL of its entry, and a hash is printed in hex).\<close>

definition walk_text_ok :: "git_lib \<Rightarrow> bool" where
  "walk_text_ok G \<longleftrightarrow> (\<forall>st h es e. git_WalkTree G st h = Inr (es, e) \<longrightarrow>
     list_all (\<lambda>t. nul_free (te_Name t) \<and> nul_free (te_Hash t)) es)"

definition clean_files :: "files \<Rightarrow> bool" where
  "clean_files fs \<longleftrightarrow> distinct (map fst fs) \<and> list_all (\<lambda>(p, h). nul_free p \<and> nul_free h) fs"

lemma clean_files_update:
  assumes "clean_files fs" "nul_free p" "nul_free h"
  shows "clean_files (AList.update p h fs)"
proof -
  have "list_all (\<lambda>(p, h). nul_free p \<and> nul_free h) (AList.update p h fs)"
    unfolding list_all_iff
  proof (rule ballI)
    fix x assume "x \<in> set (AList.update p h fs)"
    then have "x = (p, h) \<or> x \<in> set fs" using alist_update_only[of "fst x" "snd x"] by (metis prod.collapse)
    then show "case x of (p, h) \<Rightarrow> nul_free p \<and> nul_free h" using assms by (auto simp: clean_files_def list_all_iff)
  qed
  then show ?thesis using assms(1) by (simp add: clean_files_def distinct_update)
qed

lemma landed_loop_clean:
  "landed_loop files ts e = Inr fs \<Longrightarrow> clean_files files \<Longrightarrow> list_all (\<lambda>t. nul_free (te_Name t) \<and> nul_free (te_Hash t)) ts
    \<Longrightarrow> clean_files fs"
  by (induction files ts e rule: landed_loop.induct) (auto split: option.splits if_splits intro: clean_files_update)

lemma leaf_files_clean:
  "clean_files files \<Longrightarrow> list_all (\<lambda>t. nul_free (te_Name t) \<and> nul_free (te_Hash t)) ts \<Longrightarrow> clean_files (leaf_files files ts)"
  by (induction files ts rule: leaf_files.induct) (auto simp: clean_files_update)

lemma landedFileSet_clean: "walk_text_ok G \<Longrightarrow> landedFileSet G st h = Inr fs \<Longrightarrow> clean_files fs"
  by (auto simp: landedFileSet_def walk_text_ok_def clean_files_def[of "[]"] split: if_splits sum.splits
      elim!: landed_loop_clean)

lemma ParentFileSet_clean:
  assumes "walk_text_ok G" "ParentFileSet G db reg p = Inr fs"
  shows "clean_files fs"
proof (cases "reg p")
  case None
  have empty: "clean_files []" by (simp add: clean_files_def)
  show ?thesis
  proof (cases "p = [] \<or> p = ZeroHash")
    case True
    then show ?thesis using assms(2) None empty by (auto simp: ParentFileSet_def Host_ParentFileSet_def)
  next
    case False
    then have h: "Host_ParentFileSet G db p = Inr fs" using assms(2) None by (simp add: ParentFileSet_def)
    obtain c where c: "GetCommit G db p = Inr c"
      using h False by (cases "GetCommit G db p") (auto simp: Host_ParentFileSet_def)
    then obtain w where w: "git_WalkTree G (map_of db) (git_NewHash G (TreeHash c)) = Inr w"
      using h False by (cases "git_WalkTree G (map_of db) (git_NewHash G (TreeHash c))")
        (auto simp: Host_ParentFileSet_def TraverseTree_def)
    then have "fs = leaf_files [] (fst w)" using h False c
      by (cases w) (auto simp: Host_ParentFileSet_def TraverseTree_def)
    moreover have "list_all (\<lambda>t. nul_free (te_Name t) \<and> nul_free (te_Hash t)) (fst w)"
      using w assms(1) unfolding walk_text_ok_def by (metis prod.collapse)
    ultimately show ?thesis using leaf_files_clean[OF empty] by simp
  qed
next
  case (Some pool)
  then have "poolCommitFileSet G pool p = Inr fs" using assms(2) by (simp add: ParentFileSet_def)
  then obtain byID where b: "(case map_of byID p of
       None \<Rightarrow> Inl (land_err ''intra-batch parent absent from pool'')
     | Some data \<Rightarrow> (case CommitFromObjectData G data of
            Inl e \<Rightarrow> Inl (Wrap2 (Sentinel ErrLandVerificationFailed) e)
          | Inr c \<Rightarrow> bind_result (poolStorer G pool) (\<lambda>storer. landedFileSet G storer (TreeHash c)))) = Inr fs"
    unfolding poolCommitFileSet_def by (simp only: bind_result_Inr) blast
  then obtain data where d: "map_of byID p = Some data" by (cases "map_of byID p") auto
  show ?thesis
  proof (cases "CommitFromObjectData G data")
    case (Inr c)
    then show ?thesis using b d landedFileSet_clean[OF assms(1)] by auto
  qed (use b d in simp)
qed

lemma diff_fields_clean:
  assumes "clean_files parent" "clean_files landed" "path_diff parent landed p = Some d"
  shows "list_all nul_free (diff_fields d)"
proof -
  have "nul_free q \<and> nul_free h" if "map_of fs q = Some h" "clean_files fs" for fs q h
    using that by (auto simp: clean_files_def list_all_iff dest!: map_of_SomeD)
  from this[of parent p] this[of landed p] show ?thesis using assms
    by (auto simp: path_diff_def diff_fields_def nul_free_def split: option.splits if_splits)
qed

text \<open>A file set after the changes a list of diffs states.\<close>

definition apply_diffs :: "FileDiff list \<Rightarrow> (string \<rightharpoonup> string) \<Rightarrow> (string \<rightharpoonup> string)" where
  "apply_diffs ds fs p =
     (case List.find (\<lambda>d. Path d = p) ds of
        None \<Rightarrow> fs p
      | Some d \<Rightarrow> if op_text (Operation d) = ''deleted'' then None else Some (NewHash d))"

lemma matching_diffs_apply:
  assumes "iteration_ok it1" "iteration_ok it2" "clean_files parent" "clean_files landed"
    and "diffsMatch ds (diffFileSets it1 it2 parent landed)"
  shows "apply_diffs ds (map_of parent) = map_of landed"
proof
  fix p
  let ?r = "diffFileSets it1 it2 parent landed"
  have dist: "distinct (map fst parent)" "distinct (map fst landed)" using assms(3,4) by (simp_all add: clean_files_def)
  note mem = diffFileSets_iff[OF assms(1,2) dist]
  have keys: "diff_key ` set ds = diff_key ` set ?r"
    using assms(5) unfolding diffsMatch_iff by (metis list.set_map mset_eq_setD)
  have inj: "diff_fields c = diff_fields r" if "diff_key c = diff_key r" "r \<in> set ?r" for c r
    using diff_key_inj[OF that(1)] diff_fields_clean[OF assms(3,4)] that(2) mem by blast
  show "apply_diffs ds (map_of parent) p = map_of landed p"
  proof (cases "List.find (\<lambda>d. Path d = p) ds")
    case None
    have "path_diff parent landed p = None"
    proof (rule ccontr)
      assume "path_diff parent landed p \<noteq> None"
      then obtain r where r: "path_diff parent landed p = Some r" by blast
      then have "Path r = p" by (auto simp: path_diff_def split: option.splits if_splits)
      then have rin: "r \<in> set ?r" using r mem by blast
      then have "diff_key r \<in> diff_key ` set ds" using keys by simp
      then obtain c where "c \<in> set ds" "diff_key c = diff_key r" by auto
      then have "diff_fields c = diff_fields r" using inj rin by blast
      then have "Path c = p" using \<open>Path r = p\<close> by (simp add: diff_fields_def)
      then show False using None \<open>c \<in> set ds\<close> by (auto simp: find_None_iff)
    qed
    then show ?thesis using None by (auto simp: apply_diffs_def path_diff_def split: option.splits if_splits)
  next
    case (Some c)
    then have c: "c \<in> set ds" "Path c = p" by (auto simp: find_Some_iff)
    then have "diff_key c \<in> diff_key ` set ?r" using keys by (metis imageI)
    then obtain r where r: "r \<in> set ?r" "diff_key c = diff_key r" by auto
    then have f: "diff_fields c = diff_fields r" using inj by blast
    then have "path_diff parent landed p = Some r" using r(1) mem c(2) by (simp add: diff_fields_def)
    then show ?thesis using Some f
      by (auto simp: apply_diffs_def path_diff_def diff_fields_def split: option.splits if_splits)
  qed
qed

lemma VerifyTreeBinding_passes:
  "VerifyTreeBinding G it1 it2 pool (Some c) parent = None \<longleftrightarrow>
     (\<exists>storer landed. poolStorer G pool = Inr storer \<and> landedFileSet G storer (TreeHash c) = Inr landed
        \<and> (\<forall>d \<in> set (diffFileSets it1 it2 parent landed). blob_absent G storer d = None)
        \<and> diffsMatch (FileDiffs c) (diffFileSets it1 it2 parent landed))"
  by (auto simp: VerifyTreeBinding_def Let_def split: sum.splits)

lemma tree_binding_describes:
  assumes "walk_text_ok G" "iteration_ok it1" "iteration_ok it2"
    and "ParentFileSet G db reg (ParentID c) = Inr parent"
    and "VerifyTreeBinding G it1 it2 pool (Some c) parent = None"
  shows "\<exists>storer landed. poolStorer G pool = Inr storer \<and> landedFileSet G storer (TreeHash c) = Inr landed
     \<and> map_of landed = apply_diffs (FileDiffs c) (map_of parent)
     \<and> list_all (\<lambda>p. ValidateTreePath p = None) (map fst landed)
     \<and> list_all (\<lambda>(p, h). map_of parent p = Some h \<or> h = [] \<or> map_option ob_Type (storer (git_NewHash G h)) = Some ObjBlob) landed"
proof -
  obtain storer landed where r: "poolStorer G pool = Inr storer" "landedFileSet G storer (TreeHash c) = Inr landed"
    and blobs: "\<forall>d \<in> set (diffFileSets it1 it2 parent landed). blob_absent G storer d = None"
    and m: "diffsMatch (FileDiffs c) (diffFileSets it1 it2 parent landed)"
    using assms(5) unfolding VerifyTreeBinding_passes by blast
  have clean: "clean_files parent" "clean_files landed"
    using ParentFileSet_clean[OF assms(1,4)] landedFileSet_clean[OF assms(1) r(2)] .
  have dist: "distinct (map fst parent)" "distinct (map fst landed)" using clean by (simp_all add: clean_files_def)
  have "map_of parent p = Some h \<or> h = [] \<or> map_option ob_Type (storer (git_NewHash G h)) = Some ObjBlob"
    if "(p, h) \<in> set landed" for p h
  proof (cases "map_of parent p = Some h \<or> h = []")
    case False
    have "map_of landed p = Some h" using that dist(2) by (simp add: map_of_eq_Some_iff)
    then have "\<exists>d. path_diff parent landed p = Some d \<and> Path d = p \<and> NewHash d = h"
      using False by (cases "map_of parent p") (auto simp: path_diff_def)
    then obtain d where d: "path_diff parent landed p = Some d" "Path d = p" "NewHash d = h" by blast
    then have "blob_absent G storer d = None" using blobs diffFileSets_iff[OF assms(2,3) dist] by blast
    then show ?thesis using False d(3) by (auto simp: blob_absent_def split: option.splits if_splits)
  qed blast
  then show ?thesis
    using r landedFileSet_ok(2)[OF r(2)] matching_diffs_apply[OF assms(2,3) clean m] by (auto simp: list_all_iff)
qed

lemma mset_concat_map: "mset (concat (map f xs)) = (\<Sum>x\<in>#mset xs. mset (f x))"
  by (induction xs) simp_all

lemma mset_diffFileSets:
  assumes "iteration_ok it1" "iteration_ok it2" "iteration_ok it3" "iteration_ok it4"
  shows "mset (diffFileSets it1 it2 parent landed) = mset (diffFileSets it3 it4 parent landed)"
  using assms by (simp add: diffFileSets_def mset_concat_map mset_range_map)

text \<open>
  The commit the host derives from the bytes passes the checks it is put through again: its
  binding to the bytes always, its binding to the tree as soon as the new blobs are there.
\<close>

lemma derived_commit_binds:
  assumes "DeriveLandedCommit G h it1 it2 data pool tid parent = Inr c"
  shows "VerifyBinding G h data (Some c) = None" "CTaskID c = tid" "CommitID c = git_hash G ObjCommit data"
proof -
  from assms obtain d where d: "CommitFromObjectData G data = Inr d"
    by (cases "CommitFromObjectData G data") (auto simp: DeriveLandedCommit_def)
  obtain fs where c: "c = (d\<lparr>CTaskID := tid, FileDiffs := fs\<rparr>)
      \<lparr>ContentHash := ComputeContentHash h (d\<lparr>CTaskID := tid, FileDiffs := fs\<rparr>)\<rparr>"
    using assms d by (auto simp: DeriveLandedCommit_def Let_def)
  show "VerifyBinding G h data (Some c) = None"
    by (simp add: VerifyBinding_def d c metadataMismatch_def ComputeContentHash_def content_preimage_def)
  show "CTaskID c = tid" "CommitID c = git_hash G ObjCommit data" using CommitFromObjectData_id[OF d] by (simp_all add: c)
qed

lemma derived_commit_tree_binds:
  assumes "DeriveLandedCommit G h it1 it2 data pool tid parent = Inr c"
    and "iteration_ok it1" "iteration_ok it2" "iteration_ok it3" "iteration_ok it4"
    and "poolStorer G pool = Inr storer" "\<forall>d \<in> set (FileDiffs c). blob_absent G storer d = None"
  shows "VerifyTreeBinding G it3 it4 pool (Some c) parent = None"
proof -
  from assms(1) obtain d where d: "CommitFromObjectData G data = Inr d"
    by (cases "CommitFromObjectData G data") (auto simp: DeriveLandedCommit_def)
  obtain landed where l: "landedFileSet G storer (TreeHash c) = Inr landed"
    and ds: "FileDiffs c = diffFileSets it1 it2 parent landed"
    using assms(1,6) d by (auto simp: DeriveLandedCommit_def Let_def)
  have m: "mset (diffFileSets it1 it2 parent landed) = mset (diffFileSets it3 it4 parent landed)"
    by (rule mset_diffFileSets[OF assms(2-5)])
  then have "set (diffFileSets it3 it4 parent landed) = set (FileDiffs c)" using ds mset_eq_setD by metis
  moreover have "diffsMatch (FileDiffs c) (diffFileSets it3 it4 parent landed)"
    unfolding diffsMatch_iff ds mset_map m ..
  ultimately show ?thesis unfolding VerifyTreeBinding_passes using assms(6,7) l by auto
qed

end
