(* ===== verification/Index_Ledger.thy ===== *)
theory Index_Ledger
  imports Index_History
begin

text \<open>
  What the ledger guarantees: the admissions of a row follow a fixed life cycle, only
  delivered rows are content, a batch is all or nothing, and the row ids identify the
  rows. The invariant \<open>ledger_inv\<close> holds after every history of store calls.
\<close>

section \<open>The life cycle of a row's content\<close>

definition admissions_of :: "Store \<Rightarrow> CommitRecord \<Rightarrow> admission list" where
  "admissions_of s r = filter (admission_of r) (content_admissions s)"

text \<open>The steps a row's content goes through: host content is delivered when it is
  recorded, land content is pending until it is delivered, and nothing follows.\<close>

definition life_cycles :: "(string \<times> string) list set" where
  "life_cycles = {[], [(OriginHost, AdmissionDelivered)], [(OriginLand, AdmissionPending)],
     [(OriginLand, AdmissionPending), (OriginLand, AdmissionDelivered)]}"

definition stages :: "Store \<Rightarrow> CommitRecord \<Rightarrow> (string \<times> string) list" where
  "stages s r = map (\<lambda>a. (ca_origin a, ca_state a)) (admissions_of s r)"

definition ledger_inv :: "Store \<Rightarrow> bool" where
  "ledger_inv s \<longleftrightarrow>
     sorted_wrt (<) (map tc_ID (task_commits s)) \<and>
     (\<forall>r \<in> set (task_commits s). tc_ID r \<le> task_commits_seq s) \<and>
     distinct (map (\<lambda>r. (tc_TaskID r, tc_CommitHash r)) (task_commits s)) \<and>
     (\<forall>a \<in> set (content_admissions s). \<exists>r \<in> set (task_commits s). admission_of r a) \<and>
     (\<forall>r \<in> set (task_commits s). stages s r \<in> life_cycles)"

lemma ledger_inv_cong: "ledger_part s' = ledger_part s \<Longrightarrow> ledger_inv s' = ledger_inv s"
  by (simp add: ledger_inv_def stages_def admissions_of_def ledger_part_def)

lemma ledger_inv_empty: "ledger_inv empty_Store"
  by (simp add: ledger_inv_def empty_Store_def)

lemma admission_of_id: "admission_of r a \<Longrightarrow> ca_task_commit_id a = tc_ID r"
  by (simp add: admission_of_def)

lemma latest_admission_eq:
  "latest_admission s r = (if admissions_of s r = [] then None else Some (last (admissions_of s r)))"
proof -
  have "find p xs = (case filter p xs of [] \<Rightarrow> None | x # _ \<Rightarrow> Some x)" for p and xs :: "admission list"
    by (induction xs) simp_all
  then have "latest_admission s r = (case rev (admissions_of s r) of [] \<Rightarrow> None | x # _ \<Rightarrow> Some x)"
    by (simp add: latest_admission_def admissions_of_def rev_filter)
  then show ?thesis
    by (cases "admissions_of s r" rule: rev_cases) simp_all
qed

lemma content_record_row [simp]: "cn_CommitRecord (content_record s r) = r"
  by (simp add: content_record_def split: option.split)

lemma content_record_stage:
  "(cn_Origin (content_record s r), cn_State (content_record s r))
     = (if stages s r = [] then ([], []) else last (stages s r))"
  by (simp add: content_record_def latest_admission_eq stages_def last_map)

lemma add_row_inv:
  assumes inv: "ledger_inv s"
    and new: "\<not> (\<exists>r \<in> set (task_commits s). tc_TaskID r = in_TaskID c \<and> tc_CommitHash r = in_CommitHash c)"
  shows "ledger_inv (add_row c now s)" "stages (add_row c now s) (inserted_row (task_commits_seq s + 1) c now) = []"
proof -
  let ?r = "inserted_row (task_commits_seq s + 1) c now"
  have id: "\<forall>r \<in> set (task_commits s). tc_ID r < tc_ID ?r"
    using inv by (force simp: ledger_inv_def inserted_row_def)
  then have "\<not> admission_of ?r a" if a: "a \<in> set (content_admissions s)" for a
  proof -
    obtain r where "r \<in> set (task_commits s)" "admission_of r a"
      using inv a by (auto simp: ledger_inv_def)
    then show ?thesis using id by (auto dest!: admission_of_id)
  qed
  then show "stages (add_row c now s) ?r = []"
    by (simp add: stages_def admissions_of_def add_row_def filter_empty_conv)
  then show "ledger_inv (add_row c now s)"
    using inv id new
    by (auto simp: ledger_inv_def add_row_def sorted_wrt_append stages_def admissions_of_def life_cycles_def
        inserted_row_def intro: order_trans)
qed

text \<open>One more admission, for a row of the ledger whose life cycle allows the stage.\<close>

lemma insertAdmission_inv:
  assumes inv: "ledger_inv s" and r: "r0 \<in> set (task_commits s)"
    and same: "tc_ID r = tc_ID r0" "tc_TaskID r = tc_TaskID r0" "tc_CommitHash r = tc_CommitHash r0"
      "tc_ContentHash r = tc_ContentHash r0"
    and ok: "stages s r0 @ [(origin, state)] \<in> life_cycles"
    and ins: "insertAdmission io n r origin state g now s = Inr s'"
  shows "ledger_inv s'" "stages s' r0 = stages s r0 @ [(origin, state)]"
proof -
  note s' = insertAdmission_Inr(3)[OF ins]
  have tc: "task_commits s' = task_commits s" "task_commits_seq s' = task_commits_seq s" by (simp_all add: s')
  show st: "stages s' r0 = stages s r0 @ [(origin, state)]"
    by (simp add: s' stages_def admissions_of_def admission_of_def same)
  have other: "stages s' q = stages s q" if "q \<in> set (task_commits s)" "q \<noteq> r0" for q
  proof -
    have "tc_ID q \<noteq> tc_ID r0"
      using inv r that by (auto simp: ledger_inv_def sorted_wrt_iff_nth_less in_set_conv_nth)
        (metis linorder_neqE_nat order_less_irrefl)
    then show ?thesis by (simp add: s' stages_def admissions_of_def admission_of_def same)
  qed
  have "\<exists>q \<in> set (task_commits s). admission_of q a" if "a \<in> set (content_admissions s')" for a
    using that inv r same by (auto simp: s' ledger_inv_def admission_of_def)
  moreover have "stages s' q \<in> life_cycles" if "q \<in> set (task_commits s)" for q
    using that other ok st inv by (cases "q = r0") (simp_all add: ledger_inv_def)
  ultimately show "ledger_inv s'" using inv by (simp add: ledger_inv_def tc)
qed

lemma insertTaskCommitTx_inv:
  assumes inv: "ledger_inv s" and ins: "insertTaskCommitTx io n c now s = Inr s'"
  shows "ledger_inv s'"
proof -
  let ?r = "inserted_row (task_commits_seq s + 1) c now"
  note add = add_row_inv[OF inv insertTaskCommitTx_Inr(1)[OF ins], of now]
  show ?thesis
  proof (cases "in_Origin c = []")
    case True
    then show ?thesis using insertTaskCommitTx_Inr(2)[OF ins] add by simp
  next
    case False
    then have a: "insertAdmission io (2 * n + 1) ?r (in_Origin c) (first_state (in_Origin c))
        (in_GuestContentHash c) now (add_row c now s) = Inr s'"
      using insertTaskCommitTx_Inr(2)[OF ins] by simp
    then have "stages (add_row c now s) ?r @ [(in_Origin c, first_state (in_Origin c))] \<in> life_cycles"
      using insertAdmission_Inr(1)[OF a] add(2) by (auto simp: life_cycles_def first_state_def)
    then show ?thesis
      using insertAdmission_inv(1)[OF add(1) _ refl refl refl refl _ a] by (simp add: add_row_def)
  qed
qed

lemma deliver_one_inv:
  assumes inv: "ledger_inv s" and del: "deliver_one io n now r s = Inr s'"
  shows "ledger_inv s'"
  using del
proof (cases rule: deliver_one_Inr)
  case same
  then show ?thesis using inv by simp
next
  case (delivered m found)
  then obtain r0 where r0: "r0 \<in> set (task_commits s)" "found = content_record s r0" by auto
  then have "stages s r0 \<noteq> []" "last (stages s r0) = (OriginLand, AdmissionPending)"
    using delivered(3,4) content_record_stage[of s r0] by (auto split: if_splits)
  then have "stages s r0 = [(OriginLand, AdmissionPending)]"
    using inv r0(1) by (auto simp: ledger_inv_def life_cycles_def)
  then have "stages s r0 @ [(cn_Origin found, AdmissionDelivered)] \<in> life_cycles"
    using delivered(3) by (simp add: life_cycles_def)
  from insertAdmission_inv(1)[OF inv r0(1) _ _ _ _ this delivered(1)]
  show ?thesis using delivered r0 by simp
qed

lemma insert_all_inv: "insert_all io n cs now s = Inr s' \<Longrightarrow> ledger_inv s \<Longrightarrow> ledger_inv s'"
proof (induction cs arbitrary: n s)
  case (Cons c cs)
  then obtain s1 where "insertTaskCommitTx io n c now s = Inr s1" "insert_all io (Suc n) cs now s1 = Inr s'"
    by auto
  then show ?case using Cons insertTaskCommitTx_inv by blast
qed simp

lemma deliver_all_inv: "deliver_all io n now rs s = Inr s' \<Longrightarrow> ledger_inv s \<Longrightarrow> ledger_inv s'"
proof (induction rs arbitrary: n s)
  case (Cons r rs)
  then obtain s1 where "deliver_one io n now r s = Inr s1" "deliver_all io (Suc n) now rs s1 = Inr s'"
    by auto
  then show ?case using Cons deliver_one_inv by blast
qed simp

lemma ledger_inv_step:
  assumes "ledger_inv s"
  shows "ledger_inv (store_step U x s)"
proof (cases "part_of x")
  case Registry
  then show ?thesis using assms ledger_inv_cong registry_frame(2) by blast
next
  case Audit
  then show ?thesis using assms ledger_inv_cong audit_frame(1) by blast
next
  case Ledger
  have "ledger_inv (snd (AppendTaskCommit io now c s))" for io now c
    unfolding AppendTaskCommit_def
    by (rule WriteTx_inv[of ledger_inv]) (use assms insertTaskCommitTx_inv in auto)
  moreover have "ledger_inv (snd (AppendTaskCommits io now cs s))" for io now cs
    unfolding AppendTaskCommits_def
    using WriteTx_inv[of ledger_inv s "insert_all io 0 cs now"] assms insert_all_inv by simp
  moreover have "ledger_inv (snd (RecordDelivered io now rs s))" for io now rs
    unfolding RecordDelivered_def
    by (rule WriteTx_inv[of ledger_inv]) (use assms deliver_all_inv in auto)
  ultimately show ?thesis using Ledger assms by (cases x) (simp_all add: store_step_def DeleteFromTask_def)
qed

interpretation ledger: invariant "store_step U" ledger_inv for U
  by unfold_locales (rule ledger_inv_step)

section \<open>Properties\<close>

lemma GetContentCommits_Inr:
  assumes "GetContentCommits no_fault task s = Inr rs"
  shows "set rs = {r \<in> set (task_commits s). tc_TaskID r = task \<and> stages s r \<noteq> []
      \<and> snd (last (stages s r)) = AdmissionDelivered}"
    "\<forall>r \<in> set (task_commits s). tc_TaskID r = task \<longrightarrow> stages s r \<noteq> []"
proof -
  define snap where "snap = sort_key (\<lambda>c. tc_Position (cn_CommitRecord c))
      (filter (\<lambda>c. tc_TaskID (cn_CommitRecord c) = task) (map (content_record s) (task_commits s)))"
  have "GetContentSnapshot no_fault task s = Inr snap"
    by (simp add: GetContentSnapshot_def readContentSnapshot_def snap_def)
  then have ok: "RequireKnownContentOrigins snap = None"
    and rs: "rs = map cn_CommitRecord (filter (\<lambda>r. cn_State r = AdmissionDelivered) snap)"
    using assms by (auto simp: GetContentCommits_def Let_def split: option.splits if_splits)
  have snap: "set snap = content_record s ` {r \<in> set (task_commits s). tc_TaskID r = task}"
    by (auto simp: snap_def)
  have known: "known_origin (content_record s r)" if "r \<in> set (task_commits s)" "tc_TaskID r = task" for r
    using ok snap that by (auto simp: RequireKnownContentOrigins_def split: if_splits)
  have ne: "stages s r \<noteq> []" if "r \<in> set (task_commits s)" "tc_TaskID r = task" for r
  proof
    assume "stages s r = []"
    then have "cn_Origin (content_record s r) = []" using content_record_stage[of s r] by simp
    then show False using known[OF that] by (simp add: known_origin_def)
  qed
  then show "\<forall>r \<in> set (task_commits s). tc_TaskID r = task \<longrightarrow> stages s r \<noteq> []" by blast
  have st: "cn_State (content_record s r) = snd (last (stages s r))"
    if "r \<in> set (task_commits s)" "tc_TaskID r = task" for r
    using ne[OF that] content_record_stage[of s r] by (simp add: prod_eq_iff)
  show "set rs = {r \<in> set (task_commits s). tc_TaskID r = task \<and> stages s r \<noteq> []
      \<and> snd (last (stages s r)) = AdmissionDelivered}"
  proof (intro equalityI subsetI)
    fix r
    assume "r \<in> set rs"
    then obtain q where "q \<in> set (task_commits s)" "tc_TaskID q = task" "r = q"
      "cn_State (content_record s q) = AdmissionDelivered" using snap by (auto simp: rs)
    then show "r \<in> {r \<in> set (task_commits s). tc_TaskID r = task \<and> stages s r \<noteq> []
      \<and> snd (last (stages s r)) = AdmissionDelivered}" using st ne by simp
  next
    fix r
    assume "r \<in> {r \<in> set (task_commits s). tc_TaskID r = task \<and> stages s r \<noteq> []
      \<and> snd (last (stages s r)) = AdmissionDelivered}"
    then have "content_record s r \<in> set snap" "cn_State (content_record s r) = AdmissionDelivered"
      using snap st by auto
    then show "r \<in> set rs" unfolding rs by (force intro: image_eqI[of _ _ "content_record s r"])
  qed
qed

text \<open>
  C20. Land content is content only after it was delivered. After any history of
  calls on a fresh index, the admissions of every ledger row follow the life cycle
  (nothing recorded, or host content delivered at once, or land content pending and
  then perhaps delivered, never anything else), the content rows of a task are
  exactly those whose life cycle has reached delivery, and the read is refused when a
  row of the task has no recorded origin at all.
\<close>

theorem content_needs_delivery:
  assumes "s = fold (store_step U) ops empty_Store"
  shows "(\<forall>r \<in> set (task_commits s). stages s r \<in> life_cycles) \<and>
    (\<forall>rs. GetContentCommits no_fault task s = Inr rs \<longrightarrow>
       set rs = {r \<in> set (task_commits s). tc_TaskID r = task \<and>
         stages s r \<in> {[(OriginHost, AdmissionDelivered)],
           [(OriginLand, AdmissionPending), (OriginLand, AdmissionDelivered)]}}) \<and>
    ((\<exists>r \<in> set (task_commits s). tc_TaskID r = task \<and> stages s r = [])
       \<longrightarrow> (\<exists>e. GetContentCommits no_fault task s = Inl e))"
proof -
  have inv: "ledger_inv s" unfolding assms by (rule ledger.run_inv[OF ledger_inv_empty])
  then have cyc: "\<forall>r \<in> set (task_commits s). stages s r \<in> life_cycles" by (simp add: ledger_inv_def)
  have delivered: "stages s r \<in> {[(OriginHost, AdmissionDelivered)],
        [(OriginLand, AdmissionPending), (OriginLand, AdmissionDelivered)]}
      \<longleftrightarrow> stages s r \<noteq> [] \<and> snd (last (stages s r)) = AdmissionDelivered"
    if "r \<in> set (task_commits s)" for r
    using cyc that by (auto simp: life_cycles_def)
  have "set rs = {r \<in> set (task_commits s). tc_TaskID r = task \<and>
         stages s r \<in> {[(OriginHost, AdmissionDelivered)],
           [(OriginLand, AdmissionPending), (OriginLand, AdmissionDelivered)]}}"
    if "GetContentCommits no_fault task s = Inr rs" for rs
    using GetContentCommits_Inr(1)[OF that] delivered by auto
  moreover have "\<exists>e. GetContentCommits no_fault task s = Inl e"
    if "r \<in> set (task_commits s)" "tc_TaskID r = task" "stages s r = []" for r
    using GetContentCommits_Inr(2)[of task s] that
    by (cases "GetContentCommits no_fault task s") auto
  ultimately show ?thesis using cyc by blast
qed

text \<open>What a batch adds: one row per insert, numbered on from the last id, and one
  admission for each insert that names an origin.\<close>

fun batch_rows :: "int \<Rightarrow> TaskCommitInsert list \<Rightarrow> time \<Rightarrow> CommitRecord list" where
  "batch_rows i [] now = []"
| "batch_rows i (c # cs) now = inserted_row (i + 1) c now # batch_rows (i + 1) cs now"

definition row_key :: "CommitRecord \<Rightarrow> string \<times> string" where
  "row_key r = (tc_TaskID r, tc_CommitHash r)"

definition insert_key :: "TaskCommitInsert \<Rightarrow> string \<times> string" where
  "insert_key c = (in_TaskID c, in_CommitHash c)"

definition insertable :: "Store \<Rightarrow> TaskCommitInsert list \<Rightarrow> bool" where
  "insertable s cs \<longleftrightarrow> distinct (map insert_key cs)
     \<and> (\<forall>c \<in> set cs. insert_key c \<notin> row_key ` set (task_commits s) \<and> in_Origin c \<in> {[], OriginHost, OriginLand})"

lemma insertTaskCommitTx_rows:
  assumes "insertTaskCommitTx io n c now s = Inr s'"
  shows "task_commits s' = task_commits s @ [inserted_row (task_commits_seq s + 1) c now]"
    "task_commits_seq s' = task_commits_seq s + 1"
    "insert_key c \<notin> row_key ` set (task_commits s)" "in_Origin c \<in> {[], OriginHost, OriginLand}"
proof -
  show "task_commits s' = task_commits s @ [inserted_row (task_commits_seq s + 1) c now]"
    "task_commits_seq s' = task_commits_seq s + 1"
    using insertTaskCommitTx_Inr(2)[OF assms]
    by (auto split: if_splits dest: insertAdmission_frame simp: add_row_def)
  show "insert_key c \<notin> row_key ` set (task_commits s)"
    using insertTaskCommitTx_Inr(1)[OF assms] by (auto simp: insert_key_def row_key_def)
  show "in_Origin c \<in> {[], OriginHost, OriginLand}"
    using insertTaskCommitTx_Inr(2)[OF assms] by (auto split: if_splits dest: insertAdmission_Inr(1))
qed

lemma row_key_inserted [simp]: "row_key (inserted_row i c now) = insert_key c"
  by (simp add: row_key_def insert_key_def inserted_row_def)

lemma insert_all_rows:
  assumes "insert_all io n cs now s = Inr s'"
  shows "task_commits s' = task_commits s @ batch_rows (task_commits_seq s) cs now" "insertable s cs"
  using assms
proof (induction cs arbitrary: n s)
  case Nil
  {
    case 1 then show ?case by simp
  next
    case 2 then show ?case by (simp add: insertable_def)
  }
next
  case (Cons c cs)
  {
    case 1
    then obtain s1 where "insertTaskCommitTx io n c now s = Inr s1" "insert_all io (Suc n) cs now s1 = Inr s'"
      by auto
    then show ?case using Cons.IH(1) insertTaskCommitTx_rows(1,2) by simp
  next
    case 2
    then obtain s1 where s1: "insertTaskCommitTx io n c now s = Inr s1" "insert_all io (Suc n) cs now s1 = Inr s'"
      by auto
    have "insertable s1 cs" using Cons.IH(2)[OF s1(2)] .
    then show ?case using insertTaskCommitTx_rows[OF s1(1)] by (auto simp: insertable_def)
  }
qed

lemma insertTaskCommitTx_ok:
  assumes "insert_key c \<notin> row_key ` set (task_commits s)" "in_Origin c \<in> {[], OriginHost, OriginLand}"
  shows "\<exists>s'. insertTaskCommitTx no_fault n c now s = Inr s'"
proof -
  have "\<not> (\<exists>r \<in> set (task_commits s). tc_TaskID r = in_TaskID c \<and> tc_CommitHash r = in_CommitHash c)"
    using assms(1) by (force simp: row_key_def insert_key_def)
  then show ?thesis using assms(2)
    by (auto simp: insertTaskCommitTx_def insertAdmission_def inserted_row_def)
qed

lemma insert_all_ok: "insertable s cs \<Longrightarrow> \<exists>s'. insert_all no_fault n cs now s = Inr s'"
proof (induction cs arbitrary: n s)
  case (Cons c cs)
  then have "insert_key c \<notin> row_key ` set (task_commits s)" "in_Origin c \<in> {[], OriginHost, OriginLand}"
    by (simp_all add: insertable_def)
  from insertTaskCommitTx_ok[OF this] obtain s1 where s1: "insertTaskCommitTx no_fault n c now s = Inr s1"
    by blast
  then have "insertable s1 cs"
    using Cons.prems insertTaskCommitTx_rows(1)[OF s1] by (auto simp: insertable_def image_iff)
  then show ?case using Cons.IH s1 by simp
qed simp

lemma append_batch_rows:
  assumes "AppendTaskCommits io now ins s = (e, s')"
  shows "case e of None \<Rightarrow> task_commits s' = task_commits s @ batch_rows (task_commits_seq s) ins now | Some _ \<Rightarrow> s' = s"
proof (cases "ins = []")
  case True
  then show ?thesis using assms by (auto simp: AppendTaskCommits_def)
next
  case False
  then show ?thesis
    using assms WriteTx_cases[of io "insert_all io 0 ins now" s] insert_all_rows(1)[of io 0 ins now s]
    by (auto simp: AppendTaskCommits_def)
qed

text \<open>
  A land is all or nothing. A batch append that fails, at whatever row and for
  whatever reason, leaves the store exactly as it was; one that succeeds appends one
  row per commit, in order, with consecutive ids and one receive time. Without a
  database fault it succeeds exactly when no commit of the batch is recorded for its
  task already or occurs twice and every origin is known.
\<close>

theorem land_batch_atomic:
  "(case AppendTaskCommits io now ins s of
      (None, s') \<Rightarrow> task_commits s' = task_commits s @ batch_rows (task_commits_seq s) ins now
    | (Some _, s') \<Rightarrow> s' = s) \<and>
   (fst (AppendTaskCommits no_fault now ins s) = None \<longleftrightarrow> insertable s ins)"
proof
  show "case AppendTaskCommits io now ins s of
      (None, s') \<Rightarrow> task_commits s' = task_commits s @ batch_rows (task_commits_seq s) ins now
    | (Some _, s') \<Rightarrow> s' = s"
    using append_batch_rows[of io now ins s] by (cases "AppendTaskCommits io now ins s") (auto split: option.splits)
  show "fst (AppendTaskCommits no_fault now ins s) = None \<longleftrightarrow> insertable s ins"
  proof (cases "insert_all no_fault 0 ins now s")
    case (Inl e)
    then have "\<not> insertable s ins" using insert_all_ok[of s ins 0 now] by auto
    moreover have "ins \<noteq> []" using Inl by auto
    ultimately show ?thesis using Inl by (simp add: AppendTaskCommits_def)
  next
    case (Inr s')
    then show ?thesis using insert_all_rows(2)[OF Inr] by (simp add: AppendTaskCommits_def)
  qed
qed

definition same_row :: "CommitRecord \<Rightarrow> CommitRecord \<Rightarrow> bool" where
  "same_row q r \<longleftrightarrow> tc_ID q = tc_ID r \<and> tc_TaskID q = tc_TaskID r \<and> tc_CommitHash q = tc_CommitHash r
     \<and> tc_ContentHash q = tc_ContentHash r"

definition is_delivered :: "Store \<Rightarrow> CommitRecord \<Rightarrow> bool" where
  "is_delivered s q \<longleftrightarrow> stages s q \<noteq> [] \<and> snd (last (stages s q)) = AdmissionDelivered"

lemma insertAdmission_stages:
  assumes "insertAdmission io n r origin state g now s = Inr s'"
  shows "stages s' q = (if same_row q r then stages s q @ [(origin, state)] else stages s q)"
  using insertAdmission_Inr(3)[OF assms]
  by (auto simp: stages_def admissions_of_def admission_of_def same_row_def)

lemma delivered_record:
  "cn_State (content_record s q) = AdmissionDelivered \<longleftrightarrow> is_delivered s q"
  using arg_cong[OF content_record_stage[of s q], of snd] by (auto simp: is_delivered_def split: if_splits)

lemma deliver_one_stages:
  assumes "deliver_one io n now r s = Inr s'"
  shows "task_commits s' = task_commits s"
    "\<exists>q \<in> set (task_commits s). same_row q r \<and> is_delivered s' q"
    "\<forall>q. \<not> same_row q r \<longrightarrow> stages s' q = stages s q" "\<forall>q. is_delivered s q \<longrightarrow> is_delivered s' q"
proof -
  have "task_commits s' = task_commits s \<and> (\<exists>q \<in> set (task_commits s). same_row q r \<and> is_delivered s' q)
    \<and> (\<forall>q. \<not> same_row q r \<longrightarrow> stages s' q = stages s q) \<and> (\<forall>q. is_delivered s q \<longrightarrow> is_delivered s' q)"
    using assms
  proof (cases rule: deliver_one_Inr)
    case (same found)
    then show ?thesis by (auto simp: same_row_def delivered_record)
  next
    case (delivered m found)
    have "\<exists>q \<in> set (task_commits s). same_row q r" using delivered by (auto simp: same_row_def)
    then show ?thesis
      using insertAdmission_stages[OF delivered(1)] insertAdmission_frame(3)[OF delivered(1)]
      by (auto simp: is_delivered_def)
  qed
  then show "task_commits s' = task_commits s"
    "\<exists>q \<in> set (task_commits s). same_row q r \<and> is_delivered s' q"
    "\<forall>q. \<not> same_row q r \<longrightarrow> stages s' q = stages s q" "\<forall>q. is_delivered s q \<longrightarrow> is_delivered s' q"
    by blast+
qed

lemma deliver_all_stages:
  assumes "deliver_all io n now rs s = Inr s'"
  shows "task_commits s' = task_commits s \<and>
    (\<forall>r \<in> set rs. \<exists>q \<in> set (task_commits s). same_row q r \<and> is_delivered s' q) \<and>
    (\<forall>q. (\<forall>r \<in> set rs. \<not> same_row q r) \<longrightarrow> stages s' q = stages s q) \<and>
    (\<forall>q. is_delivered s q \<longrightarrow> is_delivered s' q)"
  using assms
proof (induction rs arbitrary: n s)
  case (Cons r rs)
  then obtain s1 where s1: "deliver_one io n now r s = Inr s1" "deliver_all io (Suc n) now rs s1 = Inr s'"
    by auto
  note one = deliver_one_stages[OF s1(1)] and rest = Cons.IH[OF s1(2)]
  show ?case using one rest by (simp add: one(1)) blast
qed simp

text \<open>
  Recording a delivery delivers exactly the rows named. If the call succeeds,
  every record it was given is a row of the ledger (same id, task, commit and content
  hash) and is now delivered, a row it was not given keeps its admissions, nothing
  delivered is undone and no ledger row is added; if it fails, at any record, the
  store is unchanged.
\<close>

theorem delivery_is_exact:
  "case RecordDelivered io now records s of
     (Some _, s') \<Rightarrow> s' = s
   | (None, s') \<Rightarrow> task_commits s' = task_commits s
       \<and> set records \<subseteq> {r. \<exists>q \<in> set (task_commits s). same_row q r \<and> is_delivered s' q}
       \<and> (\<forall>q. stages s' q = stages s q \<or> (\<exists>r \<in> set records. same_row q r))
       \<and> {q. is_delivered s q} \<subseteq> {q. is_delivered s' q}"
  using deliver_all_stages[of io 0 now records s]
  by (auto simp: RecordDelivered_def dest: WriteTx_None WriteTx_Some split: option.split prod.split)

text \<open>A land of one commit, before and after its delivery.\<close>

definition demo_land :: TaskCommitInsert where
  "demo_land = \<lparr>in_TaskID = ''PROJ-1'', in_CommitHash = ''c1'', in_ContentHash = ''h1'', in_AgentID = [],
     in_Position = 0, in_SandboxID = ''sb'', in_Origin = OriginLand, in_GuestContentHash = ''g1''\<rparr>"

definition demo_land_ops :: "store_op list" where
  "demo_land_ops = [OpCommits no_fault 0 [demo_land], OpDelivered no_fault 0 [inserted_row 1 demo_land 0]]"

lemma demo_land_row:
  "task_commits (fold (store_step demo_ulid) demo_land_ops empty_Store) = [inserted_row 1 demo_land 0]"
  "GetContentCommits no_fault ''PROJ-1'' (fold (store_step demo_ulid) demo_land_ops empty_Store)
     = Inr [inserted_row 1 demo_land 0]"
  "GetContentCommits no_fault ''PROJ-1'' (fold (store_step demo_ulid) (take 1 demo_land_ops) empty_Store)
     \<noteq> Inr [inserted_row 1 demo_land 0]"
  by code_simp+

theorem content_needs_delivery_witness:
  "stages (fold (store_step demo_ulid) demo_land_ops empty_Store) (inserted_row 1 demo_land 0)
     \<in> {[(OriginHost, AdmissionDelivered)], [(OriginLand, AdmissionPending), (OriginLand, AdmissionDelivered)]}"
  using content_needs_delivery[OF refl, of demo_ulid demo_land_ops "''PROJ-1''"] demo_land_row(2) by auto

end
