(* ===== verification/Land_Flow.thy ===== *)
theory Land_Flow
  imports Land_Verify Index_Ledger
begin

text \<open>
  The land of a sandbox's commits from end to end: the peer binding
  (\<open>internal/sandboxd/peerbind.go\<close>), the channel that pulls and replays the guest's pool
  (\<open>land_channel.go\<close>), the persister (\<open>land/lander.go\<close>), the orchestrator
  (\<open>internal/service/land_orchestrator.go\<close>) and the land service (\<open>land_service.go\<close>). The
  state is what they share; what the environment answers (the guest's stream, the policy, the
  sandbox record, the clock, the database, the order of map iterations, the brancher) is a
  record of arguments. Lands are run one after another; the single-flight group and the
  semaphore only decide which run, and the slot a run waited for is one of the arguments.
\<close>

section \<open>Shared state and environment\<close>

record land_state =
  bindings :: "string \<rightharpoonup> string"
  pools :: "string \<rightharpoonup> byte list"
  byCommit :: pool_registry
  host_objects :: object_db
  host_index :: Store
  sandbox_index :: Store
  native_tips :: "string \<rightharpoonup> string" \<comment> \<open>heads of the native task branches\<close>

record SandboxOrigin =
  so_id :: string
  so_baseDigest :: string

record land_env =
  le_git :: git_lib
  le_hash :: hashing
  le_ed :: ed25519
  le_attest :: AttestService
  le_limits :: Limits
  le_dial :: "string \<Rightarrow> (byte list \<times> err option) result"
  le_status :: "string \<Rightarrow> SandboxOrigin result"
  le_policy :: "nat \<Rightarrow> bool result" \<comment> \<open>\<open>RequireSandbox\<close> at each load\<close>
  le_iter :: "nat \<Rightarrow> nat \<Rightarrow> iteration" \<comment> \<open>per loop and per commit\<close>
  le_now :: "nat \<Rightarrow> time"
  le_ulid :: ulid_lib
  le_io :: "nat \<Rightarrow> io"
  le_store_fault :: "nat \<Rightarrow> err option"
  le_slot :: "err option"
  le_guard :: "err option"
  le_forward :: "string \<Rightarrow> string \<Rightarrow> land_state \<Rightarrow> err option \<times> land_state"

section \<open>Peer bindings (\<open>peerbind.go\<close>)\<close>

definition Bind :: "string \<Rightarrow> string \<Rightarrow> (string \<rightharpoonup> string) \<Rightarrow> (string \<rightharpoonup> string)" where
  "Bind sandboxID peerID b = b(sandboxID \<mapsto> peerID)"

definition Invalidate :: "string \<Rightarrow> (string \<rightharpoonup> string) \<Rightarrow> (string \<rightharpoonup> string)" where
  "Invalidate sandboxID b = b(sandboxID := None)"

definition BoundPeer :: "string \<Rightarrow> (string \<rightharpoonup> string) \<Rightarrow> string \<times> bool" where
  "BoundPeer sandboxID b = (case b sandboxID of None \<Rightarrow> ([], False) | Some p \<Rightarrow> (p, True))"

definition peer_reject :: "string \<Rightarrow> string \<Rightarrow> err" where
  "peer_reject sandboxID reason = Wrap (sandboxID @ reason) (Sentinel ErrPeerBindingMismatch)"

definition Peer_Authorize :: "string \<Rightarrow> string \<Rightarrow> (string \<rightharpoonup> string) \<Rightarrow> err option" where
  "Peer_Authorize sandboxID sourcePeerID b =
     (case b sandboxID of
        None \<Rightarrow> Some (peer_reject sandboxID ''no binding for addressed sandbox'')
      | Some bound \<Rightarrow>
          if sourcePeerID = [] then Some (peer_reject sandboxID ''unverifiable (empty) source peer'')
          else if sourcePeerID \<noteq> bound then Some (peer_reject sandboxID ''source peer does not match binding'')
          else None)"

section \<open>The land channel (\<open>land_channel.go\<close>)\<close>

text \<open>\<open>io.ReadAll(io.LimitReader(conn, max+1))\<close>: the limit hides an error behind it.\<close>

definition read_limited :: "Limits \<Rightarrow> byte list \<times> err option \<Rightarrow> byte list result" where
  "read_limited l stream =
     (let n = nat (wrap64 (MaxTotalBytes l + 1)) in
      if n \<le> length (fst stream) then Inr (take n (fst stream))
      else (case snd stream of None \<Rightarrow> Inr (fst stream) | Some e \<Rightarrow> Inl e))"

definition Pull :: "land_env \<Rightarrow> string \<Rightarrow> land_state \<Rightarrow> Object list result \<times> land_state" where
  "Pull E sandboxID st =
     (case Peer_Authorize sandboxID (fst (BoundPeer sandboxID (bindings st))) (bindings st) of
        Some e \<Rightarrow> (Inl e, st)
      | None \<Rightarrow>
          (case le_dial E sandboxID of
             Inl e \<Rightarrow> (Inl (Wrap ''sandbox land: dial guest land channel'' e), st)
           | Inr stream \<Rightarrow>
               (case read_limited (le_limits E) stream of
                  Inl e \<Rightarrow> (Inl (Wrap ''sandbox land: read pool'' e), st)
                | Inr raw \<Rightarrow>
                    if int (length raw) > MaxTotalBytes (le_limits E)
                    then (Inl (Errorf ''sandbox land: pool exceeds the host budget''), st)
                    else (case DecodeObjects (le_limits E) raw None of
                            Inl e \<Rightarrow> (Inl (Wrap ''sandbox land'' e), st)
                          | Inr objs \<Rightarrow> (Inr objs, st\<lparr>pools := (pools st)(sandboxID \<mapsto> raw)\<rparr>)))))"

definition OpenLandStream :: "string \<Rightarrow> land_state \<Rightarrow> byte list result \<times> land_state" where
  "OpenLandStream sandboxID st =
     (case pools st sandboxID of
        None \<Rightarrow> (Inl (Errorf ''sandbox land: no pulled pool for sandbox''), st\<lparr>pools := (pools st)(sandboxID := None)\<rparr>)
      | Some raw \<Rightarrow> (Inr raw, st\<lparr>pools := (pools st)(sandboxID := None)\<rparr>))"

definition Discard :: "string \<Rightarrow> land_state \<Rightarrow> land_state" where
  "Discard sandboxID st = st\<lparr>pools := (pools st)(sandboxID := None)\<rparr>"

section \<open>The persister (\<open>lander.go\<close>)\<close>

record LandedCommit =
  lc_Commit :: Commit
  lc_SandboxID :: "string option"
  lc_Position :: int

definition land_row :: "string \<Rightarrow> LandedCommit \<Rightarrow> TaskCommitInsert" where
  "land_row taskID c =
     \<lparr>in_TaskID = taskID, in_CommitHash = CommitID (lc_Commit c), in_ContentHash = ContentHash (lc_Commit c),
      in_AgentID = AgentID (lc_Commit c), in_Position = lc_Position c,
      in_SandboxID = (case lc_SandboxID c of None \<Rightarrow> [] | Some s \<Rightarrow> s), in_Origin = OriginLand,
      in_GuestContentHash = []\<rparr>"

definition Lander_Land :: "land_env \<Rightarrow> string \<Rightarrow> Object list \<Rightarrow> LandedCommit list \<Rightarrow> land_state \<Rightarrow> err option \<times> land_state" where
  "Lander_Land E taskID pool commits st =
     (if commits = [] then (None, st)
      else (case ImportObjects (le_git E) (le_store_fault E) pool (host_objects st) of
              (Some e, db) \<Rightarrow> (Some (Wrap ''land: import objects'' e), st\<lparr>host_objects := db\<rparr>)
            | (None, db) \<Rightarrow>
                (case AppendTaskCommits (le_io E 1) (le_now E 1) (map (land_row taskID) commits) (host_index st) of
                   (Some e, idx) \<Rightarrow> (Some (Wrap ''land: append task_commits'' e), st\<lparr>host_objects := db, host_index := idx\<rparr>)
                 | (None, idx) \<Rightarrow>
                     (case le_forward E taskID (CommitID (lc_Commit (last commits)))
                             (st\<lparr>host_objects := db, host_index := idx\<rparr>) of
                        (Some e, st') \<Rightarrow> (Some (Wrap ''land: fast-forward'' e), st')
                      | (None, st') \<Rightarrow> (None, st')))))"

text \<open>\<open>guardedLandPersister\<close>: under the repository's operation lock.\<close>

definition guarded_Land :: "land_env \<Rightarrow> string \<Rightarrow> Object list \<Rightarrow> LandedCommit list \<Rightarrow> land_state \<Rightarrow> err option \<times> land_state" where
  "guarded_Land E taskID pool commits st =
     (case le_guard E of Some e \<Rightarrow> (Some e, st) | None \<Rightarrow> Lander_Land E taskID pool commits st)"

section \<open>The orchestrator (\<open>land_orchestrator.go\<close>)\<close>

record ClaimedCommit =
  cc_Commit :: "Commit option"
  cc_Attestation :: "Attestation option"

record LandRequest =
  lr_TaskID :: string
  lr_SandboxID :: string
  lr_Commits :: "ClaimedCommit list"
  lr_BasePosition :: int

definition validateLandRequest :: "LandRequest \<Rightarrow> err option" where
  "validateLandRequest req =
     (if lr_TaskID req = [] then Some (land_err ''empty task id'')
      else if lr_SandboxID req = [] then Some (land_err ''empty sandbox id'')
      else if lr_Commits req = [] then Some (land_err ''no commits to land'')
      else if lr_BasePosition req < 0 then Some (land_err ''negative base position'')
      else first_err (\<lambda>cc. guard_err (cc_Commit cc = None) (land_err ''nil commit in batch'')) (lr_Commits req))"

definition pullObjects :: "land_env \<Rightarrow> string \<Rightarrow> land_state \<Rightarrow> (commit_index \<times> Object list) result \<times> land_state" where
  "pullObjects E sandboxID st =
     (case OpenLandStream sandboxID st of
        (Inl e, st1) \<Rightarrow> (Inl (Wrap ''sandbox land: open stream'' e), st1)
      | (Inr raw, st1) \<Rightarrow>
          (case DecodeObjects (le_limits E) raw None of
             Inl e \<Rightarrow> (Inl (Wrap ''sandbox land'' e), st1)
           | Inr objs \<Rightarrow>
               (case CommitObjectsByID (le_git E) objs of
                  Inl e \<Rightarrow> (Inl (Wrap ''sandbox land'' e), st1)
                | Inr byID \<Rightarrow> (Inr (byID, objs), st1))))"

definition verify_claim :: "land_env \<Rightarrow> land_state \<Rightarrow> LandRequest \<Rightarrow> bool \<Rightarrow> commit_index \<Rightarrow> Object list
    \<Rightarrow> nat \<Rightarrow> ClaimedCommit \<Rightarrow> LandedCommit result" where
  "verify_claim E st req requireSandbox objsByID pool i cc =
     (case cc_Commit cc of
        None \<Rightarrow> Inl (Panic ''nil commit'')
      | Some c \<Rightarrow>
          (case map_of objsByID (CommitID c) of
             None \<Rightarrow> Inl (land_err ''no object for claimed commit'')
           | Some objData \<Rightarrow>
               if TaskID_String (CTaskID c) \<noteq> lr_TaskID req then Inl (Wrap ''not the bound task'' (Sentinel ErrTaskMismatch))
               else (case VerifyBinding (le_git E) (le_hash E) objData (Some c) of
                       Some e \<Rightarrow> Inl e
                     | None \<Rightarrow>
                         (case ParentFileSet (le_git E) (host_objects st) (byCommit st) (ParentID c) of
                            Inl e \<Rightarrow> Inl (Wrap ''sandbox land: resolve parent tree'' e)
                          | Inr parentFiles \<Rightarrow>
                              (case VerifyTreeBinding (le_git E) (le_iter E 4 i) (le_iter E 5 i) pool (Some c) parentFiles of
                                 Some e \<Rightarrow> Inl e
                               | None \<Rightarrow>
                                   bind_result (EnforceRequireSandbox (Attest_Verify (le_ed E) (le_attest E)) requireSandbox
                                       (lr_SandboxID req) (Some c) (cc_Attestation cc))
                                     (\<lambda>sandboxID. Inr \<lparr>lc_Commit = c, lc_SandboxID = sandboxID,
                                        lc_Position = wrap64 (lr_BasePosition req + int i)\<rparr>))))))"

fun verify_batch_loop :: "(nat \<Rightarrow> ClaimedCommit \<Rightarrow> LandedCommit result) \<Rightarrow> nat \<Rightarrow> ClaimedCommit list
    \<Rightarrow> LandedCommit list result" where
  "verify_batch_loop v i [] = Inr []"
| "verify_batch_loop v i (cc # ccs) =
     bind_result (v i cc) (\<lambda>l. bind_result (verify_batch_loop v (Suc i) ccs) (\<lambda>ls. Inr (l # ls)))"

definition verifyBatch :: "land_env \<Rightarrow> land_state \<Rightarrow> LandRequest \<Rightarrow> bool \<Rightarrow> commit_index \<Rightarrow> Object list
    \<Rightarrow> LandedCommit list result" where
  "verifyBatch E st req requireSandbox objsByID pool =
     verify_batch_loop (verify_claim E st req requireSandbox objsByID pool) 0 (lr_Commits req)"

definition landed_event :: "LandRequest \<Rightarrow> SandboxEvent" where
  "landed_event req = \<lparr>ev_ID = [], ev_SandboxID = lr_SandboxID req, ev_TaskID = lr_TaskID req,
     ev_EventType = EventLanded, ev_Backend = [], ev_ImageDigest = [], ev_NetworkMode = [], ev_Detail = [],
     ev_CreatedAt = zero_time\<rparr>"

definition Orchestrator_Land :: "land_env \<Rightarrow> LandRequest \<Rightarrow> land_state \<Rightarrow> err option \<times> land_state" where
  "Orchestrator_Land E req st =
     (case validateLandRequest req of
        Some e \<Rightarrow> (Some e, st)
      | None \<Rightarrow>
          (case le_policy E 1 of
             Inl e \<Rightarrow> (Some (Wrap ''sandbox land: load policy'' e), st)
           | Inr requireSandbox \<Rightarrow>
               (case pullObjects E (lr_SandboxID req) st of
                  (Inl e, st1) \<Rightarrow> (Some e, st1)
                | (Inr (objsByID, pool), st1) \<Rightarrow>
                    (case verifyBatch E st1 req requireSandbox objsByID pool of
                       Inl e \<Rightarrow> (Some e, st1)
                     | Inr landed \<Rightarrow>
                         (case guarded_Land E (lr_TaskID req) pool landed st1 of
                            (Some e, st2) \<Rightarrow> (Some (Wrap ''sandbox land'' e), st2)
                          | (None, st2) \<Rightarrow>
                              (case AppendSandboxEvent (le_ulid E) (le_io E 2) (le_now E 2) (landed_event req) (sandbox_index st2) of
                                 (Some e, s') \<Rightarrow> (Some (Wrap ''sandbox land: audit'' e), st2\<lparr>sandbox_index := s'\<rparr>)
                               | (None, s') \<Rightarrow> (None, st2\<lparr>sandbox_index := s'\<rparr>)))))))"

section \<open>The land service (\<open>land_service.go\<close>)\<close>

record LandSummary =
  ls_Commits :: int
  ls_Branch :: string

definition land_skip :: "land_env \<Rightarrow> land_state \<Rightarrow> string set \<Rightarrow> skip" where
  "land_skip E st landed i = (if i \<in> landed then (True, None) else HostHasCommit (le_git E) (host_objects st) i)"

text \<open>\<open>None\<close> stands for a call that does not return.\<close>

definition newChain :: "land_env \<Rightarrow> string \<Rightarrow> Object list \<Rightarrow> land_state \<Rightarrow> (PoolCommit list \<times> int) result option" where
  "newChain E taskID pool st =
     (case GetTaskCommits (le_io E 0) taskID (host_index st) of
        Inl e \<Rightarrow> Some (Inl (Wrap ''sandbox land: read task commits'' e))
      | Inr existing \<Rightarrow>
          (case CommitChain (le_git E) (le_iter E 0 0) (le_iter E 1 0)
                  (land_skip E st (tc_CommitHash ` set existing)) pool of
             (_, None) \<Rightarrow> None
           | (Some e, Some _) \<Rightarrow> Some (Inl (Wrap ''sandbox land: host commit check'' e))
           | (None, Some (Inl e)) \<Rightarrow> Some (Inl (Wrap ''sandbox land'' e))
           | (None, Some (Inr chain)) \<Rightarrow> Some (Inr (chain, int (length existing)))))"

definition claimCommit :: "land_env \<Rightarrow> TaskID \<Rightarrow> SandboxOrigin \<Rightarrow> Object list \<Rightarrow> bool \<Rightarrow> land_state \<Rightarrow> nat \<Rightarrow> PoolCommit
    \<Rightarrow> ClaimedCommit result" where
  "claimCommit E tid origin pool requireSandbox st i pc =
     (case ParentFileSet (le_git E) (host_objects st) (byCommit st) (pl_ParentID pc) of
        Inl e \<Rightarrow> Inl (Wrap ''sandbox land: resolve parent tree'' e)
      | Inr parentFiles \<Rightarrow>
          (case DeriveLandedCommit (le_git E) (le_hash E) (le_iter E 2 i) (le_iter E 3 i) (pl_Data pc) pool tid parentFiles of
             Inl e \<Rightarrow> Inl (Wrap ''sandbox land'' e)
           | Inr c \<Rightarrow>
               if \<not> requireSandbox then Inr \<lparr>cc_Commit = Some c, cc_Attestation = None\<rparr>
               else (case Attest_issue (le_ed E) (le_now E (3 + i)) (le_attest E)
                       \<lparr>as_SandboxID = so_id origin, as_CommitHash = CommitID c, as_ContentHash = ContentHash c,
                        as_BaseDigest = so_baseDigest origin\<rparr> of
                       Inl e \<Rightarrow> Inl (Wrap ''sandbox land: attest commit'' e)
                     | Inr att \<Rightarrow> Inr \<lparr>cc_Commit = Some c, cc_Attestation = Some att\<rparr>)))"

fun claim_loop :: "(nat \<Rightarrow> PoolCommit \<Rightarrow> ClaimedCommit result) \<Rightarrow> nat \<Rightarrow> PoolCommit list \<Rightarrow> ClaimedCommit list result" where
  "claim_loop f i [] = Inr []"
| "claim_loop f i (pc # pcs) =
     bind_result (f i pc) (\<lambda>cc. bind_result (claim_loop f (Suc i) pcs) (\<lambda>ccs. Inr (cc # ccs)))"

text \<open>The registration is undone when \<open>buildRequest\<close> returns, on every path (\<open>defer\<close>).\<close>

definition buildRequest :: "land_env \<Rightarrow> TaskID \<Rightarrow> SandboxOrigin \<Rightarrow> int \<Rightarrow> Object list \<Rightarrow> PoolCommit list \<Rightarrow> land_state
    \<Rightarrow> LandRequest result \<times> land_state" where
  "buildRequest E tid origin basePos pool chain st =
     (case le_policy E 0 of
        Inl e \<Rightarrow> (Inl (Wrap ''sandbox land: load policy'' e), st)
      | Inr requireSandbox \<Rightarrow>
          (case Register (le_git E) pool (byCommit st) of
             (Inl e, reg) \<Rightarrow> (Inl (Wrap ''sandbox land'' e), st\<lparr>byCommit := reg\<rparr>)
           | (Inr ids, reg) \<Rightarrow>
               (bind_result (claim_loop (claimCommit E tid origin pool requireSandbox (st\<lparr>byCommit := reg\<rparr>)) 0 chain)
                  (\<lambda>commits. Inr \<lparr>lr_TaskID = TaskID_String tid, lr_SandboxID = so_id origin, lr_Commits = commits,
                     lr_BasePosition = basePos\<rparr>),
                st\<lparr>byCommit := Deregister ids reg\<rparr>)))"

definition landOnce :: "land_env \<Rightarrow> TaskID \<Rightarrow> SandboxOrigin \<Rightarrow> land_state \<Rightarrow> LandSummary result option \<times> land_state" where
  "landOnce E tid origin st =
     (let taskID = TaskID_String tid; sandboxID = so_id origin in
      case Pull E sandboxID st of
        (Inl e, st1) \<Rightarrow> (Some (Inl (Wrap ''sandbox land: pull pool'' e)), st1)
      | (Inr pool, st1) \<Rightarrow>
          (case newChain E taskID pool st1 of
             None \<Rightarrow> (None, st1)
           | Some (Inl e) \<Rightarrow> (Some (Inl e), Discard sandboxID st1)
           | Some (Inr (chain, basePos)) \<Rightarrow>
               if chain = []
               then (Some (Inr \<lparr>ls_Commits = 0, ls_Branch = TaskBranchName taskID\<rparr>), Discard sandboxID st1)
               else (case buildRequest E tid origin basePos pool chain st1 of
                       (Inl e, st2) \<Rightarrow> (Some (Inl e), Discard sandboxID st2)
                     | (Inr req, st2) \<Rightarrow>
                         (case Orchestrator_Land E req st2 of
                            (Some e, st3) \<Rightarrow> (Some (Inl e), st3)
                          | (None, st3) \<Rightarrow>
                              (Some (Inr \<lparr>ls_Commits = int (length chain), ls_Branch = TaskBranchName taskID\<rparr>), st3)))))"

definition landGuarded :: "land_env \<Rightarrow> TaskID \<Rightarrow> SandboxOrigin \<Rightarrow> land_state \<Rightarrow> LandSummary result option \<times> land_state" where
  "landGuarded E tid origin st =
     (case le_slot E of
        Some e \<Rightarrow> (Some (Inl (Wrap ''sandbox land: concurrency cap reached'' e)), st)
      | None \<Rightarrow> landOnce E tid origin st)"

definition LandService_Land :: "land_env \<Rightarrow> string \<Rightarrow> land_state \<Rightarrow> LandSummary result option \<times> land_state" where
  "LandService_Land E taskID st =
     (case ParseTaskID taskID of
        Inl e \<Rightarrow> (Some (Inl (Wrap ''sandbox land'' e)), st)
      | Inr tid \<Rightarrow>
          (case le_status E taskID of
             Inl e \<Rightarrow> (Some (Inl (Wrap ''sandbox land: resolve sandbox'' e)), st)
           | Inr origin \<Rightarrow> landGuarded E tid origin st))"

section \<open>The land always returns\<close>

definition iterations_ok :: "land_env \<Rightarrow> bool" where
  "iterations_ok E \<longleftrightarrow> (\<forall>k i. iteration_ok (le_iter E k i))"

lemma CommitChain_returns:
  assumes "iteration_ok it1" "iteration_ok it2"
  shows "snd (CommitChain G it1 it2 skip pool) \<noteq> None"
proof (cases "newPoolCommits G it1 skip pool")
  case (Pair serr r)
  show ?thesis
  proof (cases r)
    case (Inr new)
    note ids = newPoolCommits_ok(1)[OF Pair[unfolded Inr] assms(1)]
    have "orderChain it2 new \<noteq> None" if "new \<noteq> []"
      using orderChain_cases[OF assms(2) ids that] by (auto split: option.splits)
    then show ?thesis using Pair Inr by (simp add: CommitChain_def)
  qed (use Pair in \<open>simp add: CommitChain_def\<close>)
qed

end
