(* ===== verification/Land_Safety.thy ===== *)
theory Land_Safety
  imports Land_Flow
begin

text \<open>
  What a land can change. The brancher the persister ends with is an interface: the locale
  states what the ledger needs of it, and the projection that implements it
  (\<open>cmd/mgit-sandboxd/land_projection.go\<close>) is modelled in \<open>Land_Projection\<close>. Every row a
  land appends is justified by checks on the bytes the guest sent; a refused land leaves the
  ledger and the object store alone; and a chain of several new commits is always refused.
\<close>

section \<open>The brancher's contract\<close>

locale brancher =
  fixes forward :: "string \<Rightarrow> string \<Rightarrow> land_state \<Rightarrow> err option \<times> land_state"
  assumes keeps_rows: "task_commits (host_index (snd (forward task tip st))) = task_commits (host_index st)"
begin

lemma lander_rows:
  assumes "le_forward E = forward" "Lander_Land E task pool commits st = (e, st')"
  shows "task_commits (host_index st') = task_commits (host_index st)
    \<or> task_commits (host_index st') = task_commits (host_index st)
        @ batch_rows (task_commits_seq (host_index st)) (map (land_row task) commits) (le_now E 1)"
    "e = None \<Longrightarrow> commits = [] \<or> task_commits (host_index st') = task_commits (host_index st)
        @ batch_rows (task_commits_seq (host_index st)) (map (land_row task) commits) (le_now E 1)"
proof -
  let ?rows = "batch_rows (task_commits_seq (host_index st)) (map (land_row task) commits) (le_now E 1)"
  have "task_commits (host_index st') = task_commits (host_index st) \<and> (e = None \<longrightarrow> commits = [])
    \<or> task_commits (host_index st') = task_commits (host_index st) @ ?rows"
  proof (cases "commits = []")
    case True
    then show ?thesis using assms(2) by (simp add: Lander_Land_def)
  next
    case False
    obtain e1 db where i: "ImportObjects (le_git E) (le_store_fault E) pool (host_objects st) = (e1, db)" by fastforce
    obtain e2 idx where a: "AppendTaskCommits (le_io E 1) (le_now E 1) (map (land_row task) commits) (host_index st) = (e2, idx)"
      by fastforce
    show ?thesis
    proof (cases e1)
      case (Some x)
      then show ?thesis using assms(2) False i by (auto simp: Lander_Land_def)
    next
      case None
      note none1 = None
      show ?thesis
      proof (cases e2)
        case (Some x)
        then have "idx = host_index st" using append_batch_rows[OF a] by simp
        then show ?thesis using assms(2) False i a none1 Some by (auto simp: Lander_Land_def)
      next
        case None
        then have rows: "task_commits idx = task_commits (host_index st) @ ?rows" using append_batch_rows[OF a] by simp
        let ?tip = "CommitID (lc_Commit (last commits))"
        let ?f = "forward task ?tip (st\<lparr>host_objects := db, host_index := idx\<rparr>)"
        have "snd ?f = st'" using assms False i a none1 None
          by (cases ?f) (auto simp: Lander_Land_def split: option.splits)
        then show ?thesis using keeps_rows[of task ?tip "st\<lparr>host_objects := db, host_index := idx\<rparr>"] rows by simp
      qed
    qed
  qed
  then show "task_commits (host_index st') = task_commits (host_index st)
    \<or> task_commits (host_index st') = task_commits (host_index st) @ ?rows"
    "e = None \<Longrightarrow> commits = [] \<or> task_commits (host_index st') = task_commits (host_index st) @ ?rows" by blast+
qed

end

section \<open>Rows are justified\<close>

text \<open>
  The justification of a ledger row: a claimed commit whose bytes are a commit object of the
  pool, hash to its id, carry its metadata and give its content hash; whose diffs are those of
  the landed tree against its parent; which belongs to the task; and, under the policy, for
  which the host's attestation verifies and names this commit, this content and this sandbox.
\<close>

definition row_justified :: "land_env \<Rightarrow> land_state \<Rightarrow> LandRequest \<Rightarrow> bool \<Rightarrow> Object list \<Rightarrow> CommitRecord \<Rightarrow> bool" where
  "row_justified E st req requireSandbox pool r \<longleftrightarrow>
     (\<exists>cc c data parent i.
        cc \<in> set (lr_Commits req) \<and> cc_Commit cc = Some c
        \<and> \<lparr>ob_Type = ObjCommit, ob_Data = data\<rparr> \<in> set pool
        \<and> CommitID c = git_hash (le_git E) ObjCommit data
        \<and> VerifyBinding (le_git E) (le_hash E) data (Some c) = None
        \<and> ParentFileSet (le_git E) (host_objects st) (byCommit st) (ParentID c) = Inr parent
        \<and> VerifyTreeBinding (le_git E) (le_iter E 4 i) (le_iter E 5 i) pool (Some c) parent = None
        \<and> TaskID_String (CTaskID c) = lr_TaskID req
        \<and> tc_TaskID r = lr_TaskID req \<and> tc_CommitHash r = CommitID c
        \<and> tc_ContentHash r = ComputeContentHash (le_hash E) c \<and> tc_AgentID r = AgentID c
        \<and> tc_SandboxID r = (if requireSandbox then Some (lr_SandboxID req) else None)
        \<and> (requireSandbox \<longrightarrow>
             (\<exists>a. cc_Attestation cc = Some a \<and> Attest_Verify (le_ed E) (le_attest E) (Some a) = None
                \<and> at_CommitHash a = CommitID c \<and> at_ContentHash a = ContentHash c
                \<and> at_SandboxID a = lr_SandboxID req)))"

lemma row_justified_pools [simp]: "row_justified E (st\<lparr>pools := x\<rparr>) = row_justified E st"
  by (intro ext) (simp add: row_justified_def)

lemma VerifyBinding_passes:
  assumes "VerifyBinding G h data (Some c) = None"
  shows "CommitID c = git_hash G ObjCommit data" "ContentHash c = ComputeContentHash h c"
    "\<exists>d. CommitFromObjectData G data = Inr d \<and> metadataMismatch d c = []"
  using assms CommitFromObjectData_id[of G data]
  by (auto simp: VerifyBinding_def split: sum.splits if_splits)

lemma verify_claim_justified:
  assumes "verify_claim E st req rq byID pool i cc = Inr l" "CommitObjectsByID (le_git E) pool = Inr byID"
    and "cc \<in> set (lr_Commits req)" "lr_SandboxID req \<noteq> []"
  shows "row_justified E st req rq pool (inserted_row j (land_row (lr_TaskID req) l) now)"
proof -
  from assms(1) obtain c where c: "cc_Commit cc = Some c" by (cases "cc_Commit cc") (auto simp: verify_claim_def)
  from assms(1) c obtain data where d: "map_of byID (CommitID c) = Some data"
    by (cases "map_of byID (CommitID c)") (auto simp: verify_claim_def)
  from assms(1) c d have t: "TaskID_String (CTaskID c) = lr_TaskID req"
    by (auto simp: verify_claim_def split: if_splits)
  from assms(1) c d t have v: "VerifyBinding (le_git E) (le_hash E) data (Some c) = None"
    by (cases "VerifyBinding (le_git E) (le_hash E) data (Some c)") (auto simp: verify_claim_def)
  from assms(1) c d t v obtain parent where p: "ParentFileSet (le_git E) (host_objects st) (byCommit st) (ParentID c) = Inr parent"
    by (cases "ParentFileSet (le_git E) (host_objects st) (byCommit st) (ParentID c)") (auto simp: verify_claim_def)
  from assms(1) c d t v p have b: "VerifyTreeBinding (le_git E) (le_iter E 4 i) (le_iter E 5 i) pool (Some c) parent = None"
    by (cases "VerifyTreeBinding (le_git E) (le_iter E 4 i) (le_iter E 5 i) pool (Some c) parent") (auto simp: verify_claim_def)
  from assms(1) c d t v p b obtain prov where
      g: "EnforceRequireSandbox (Attest_Verify (le_ed E) (le_attest E)) rq (lr_SandboxID req) (Some c) (cc_Attestation cc) = Inr prov"
    and l: "l = \<lparr>lc_Commit = c, lc_SandboxID = prov, lc_Position = wrap64 (lr_BasePosition req + int i)\<rparr>"
    by (auto simp: verify_claim_def)
  obtain ob where o1: "ob \<in> set pool" and o2: "ob_Type ob = ObjCommit" "ob_Data ob = data"
    using CommitObjectsByID_ok(3)[OF assms(2) map_of_SomeD[OF d]] by blast
  have "ob = \<lparr>ob_Type = ObjCommit, ob_Data = data\<rparr>" using o2 by (cases ob) auto
  then have ob: "\<lparr>ob_Type = ObjCommit, ob_Data = data\<rparr> \<in> set pool" using o1 by simp
  have gate: "\<exists>a. cc_Attestation cc = Some a \<and> Attest_Verify (le_ed E) (le_attest E) (Some a) = None
      \<and> at_CommitHash a = CommitID c \<and> at_ContentHash a = ContentHash c \<and> at_SandboxID a = lr_SandboxID req
      \<and> prov = Some (lr_SandboxID req)" if rq
    using gate_passes g that by simp
  then have att: "rq \<Longrightarrow> \<exists>a. cc_Attestation cc = Some a \<and> Attest_Verify (le_ed E) (le_attest E) (Some a) = None
      \<and> at_CommitHash a = CommitID c \<and> at_ContentHash a = ContentHash c \<and> at_SandboxID a = lr_SandboxID req"
    by blast
  have prov: "prov = (if rq then Some (lr_SandboxID req) else None)"
    using gate g by (cases rq) (auto simp: EnforceRequireSandbox_def)
  have "tc_SandboxID (inserted_row j (land_row (lr_TaskID req) l) now) = (if rq then Some (lr_SandboxID req) else None)"
    using assms(4) by (simp add: inserted_row_def land_row_def l prov)
  then show ?thesis unfolding row_justified_def
    using assms(3) c ob v p b t att VerifyBinding_passes(1,2)[OF v]
    by (intro exI[of _ cc] exI[of _ c] exI[of _ data] exI[of _ parent] exI[of _ i])
      (simp add: inserted_row_def land_row_def l)
qed

lemma verify_batch_loop_all:
  assumes "verify_batch_loop v i ccs = Inr ls"
  shows "length ls = length ccs" "l \<in> set ls \<Longrightarrow> \<exists>k. \<exists>cc \<in> set ccs. v k cc = Inr l"
proof -
  have "length ls = length ccs \<and> (\<forall>l \<in> set ls. \<exists>k. \<exists>cc \<in> set ccs. v k cc = Inr l)"
    using assms by (induction v i ccs arbitrary: ls rule: verify_batch_loop.induct) fastforce+
  then show "length ls = length ccs" "l \<in> set ls \<Longrightarrow> \<exists>k. \<exists>cc \<in> set ccs. v k cc = Inr l" by blast+
qed

lemma set_batch_rows: "r \<in> set (batch_rows i cs now) \<Longrightarrow> \<exists>j. \<exists>c \<in> set cs. r = inserted_row j c now"
  by (induction cs arbitrary: i) fastforce+

lemma length_batch_rows [simp]: "length (batch_rows i cs now) = length cs"
  by (induction cs arbitrary: i) auto

lemma batch_justified:
  assumes "verifyBatch E st req rq byID pool = Inr landed" "CommitObjectsByID (le_git E) pool = Inr byID"
    and "lr_SandboxID req \<noteq> []"
  shows "list_all (row_justified E st req rq pool) (batch_rows i (map (land_row (lr_TaskID req)) landed) now)"
  unfolding list_all_iff
proof (rule ballI)
  fix r assume "r \<in> set (batch_rows i (map (land_row (lr_TaskID req)) landed) now)"
  then obtain j l where l: "l \<in> set landed" and r: "r = inserted_row j (land_row (lr_TaskID req) l) now"
    using set_batch_rows by fastforce
  then obtain k cc where "cc \<in> set (lr_Commits req)" "verify_claim E st req rq byID pool k cc = Inr l"
    using verify_batch_loop_all(2) assms(1) unfolding verifyBatch_def by blast
  then show "row_justified E st req rq pool r" using verify_claim_justified assms(2,3) r by blast
qed

text \<open>The steps before the persister touch only the buffer of the channel.\<close>

lemma pullObjects_frame:
  assumes "pullObjects E sid st = (r, st1)"
  shows "st1 = st\<lparr>pools := (pools st)(sid := None)\<rparr>"
    "r = Inr (byID, pool) \<Longrightarrow> CommitObjectsByID (le_git E) pool = Inr byID
       \<and> (\<exists>raw. pools st sid = Some raw \<and> DecodeObjects (le_limits E) raw None = Inr pool)"
  using assms by (auto simp: pullObjects_def OpenLandStream_def split: option.splits sum.splits)

lemma orchestrator_stages:
  assumes "Orchestrator_Land E req st = (e, st')"
  shows "(e \<noteq> None \<and> (st' = st \<or> st' = st\<lparr>pools := (pools st)(lr_SandboxID req := None)\<rparr>))
    \<or> (\<exists>rq byID pool landed e2 st2 st1. validateLandRequest req = None \<and> le_policy E 1 = Inr rq
         \<and> pullObjects E (lr_SandboxID req) st = (Inr (byID, pool), st1)
         \<and> verifyBatch E st1 req rq byID pool = Inr landed
         \<and> guarded_Land E (lr_TaskID req) pool landed st1 = (e2, st2) \<and> (e = None \<longrightarrow> e2 = None)
         \<and> host_index st' = host_index st2 \<and> host_objects st' = host_objects st2)"
proof (cases "validateLandRequest req")
  case (Some x)
  then show ?thesis using assms by (auto simp: Orchestrator_Land_def)
next
  case valid: None
  show ?thesis
  proof (cases "le_policy E 1")
    case (Inl x)
    then show ?thesis using assms valid by (auto simp: Orchestrator_Land_def)
  next
    case rq: (Inr rq)
    obtain r st1 where p: "pullObjects E (lr_SandboxID req) st = (r, st1)" by fastforce
    note st1 = pullObjects_frame(1)[OF p]
    show ?thesis
    proof (cases r)
      case (Inl x)
      then show ?thesis using assms valid rq p st1 by (auto simp: Orchestrator_Land_def)
    next
      case (Inr bp)
      obtain byID pool where bp: "bp = (byID, pool)" by fastforce
      show ?thesis
      proof (cases "verifyBatch E st1 req rq byID pool")
        case inl: (Inl x)
        then show ?thesis using assms valid rq p st1 Inr bp by (auto simp: Orchestrator_Land_def)
      next
        case landed: (Inr landed)
        obtain e2 st2 where g: "guarded_Land E (lr_TaskID req) pool landed st1 = (e2, st2)" by fastforce
        have "(e = None \<longrightarrow> e2 = None) \<and> host_index st' = host_index st2 \<and> host_objects st' = host_objects st2"
          using assms valid rq p Inr bp landed g
          by (cases e2) (auto simp: Orchestrator_Land_def split: option.splits prod.splits)
        then show ?thesis using valid rq p Inr bp landed g by blast
      qed
    qed
  qed
qed

lemma orchestrator_rows:
  assumes "brancher (le_forward E)" "Orchestrator_Land E req st = (e, st')"
  shows "\<exists>rows. task_commits (host_index st') = task_commits (host_index st) @ rows
     \<and> (rows = [] \<longrightarrow> e \<noteq> None)
     \<and> (rows \<noteq> [] \<longrightarrow> length rows = length (lr_Commits req)
          \<and> (\<exists>rq raw pool. le_policy E 1 = Inr rq \<and> pools st (lr_SandboxID req) = Some raw
                \<and> DecodeObjects (le_limits E) raw None = Inr pool
                \<and> list_all (row_justified E st req rq pool) rows))"
  using orchestrator_stages[OF assms(2)]
proof (elim disjE exE conjE)
  assume "e \<noteq> None" "st' = st"
  then show ?thesis by (intro exI[of _ "[]"]) simp
next
  assume "e \<noteq> None" "st' = st\<lparr>pools := (pools st)(lr_SandboxID req := None)\<rparr>"
  then show ?thesis by (intro exI[of _ "[]"]) simp
next
  fix rq byID pool landed e2 st2 st1
  assume valid: "validateLandRequest req = None" and rq: "le_policy E 1 = Inr rq"
    and p: "pullObjects E (lr_SandboxID req) st = (Inr (byID, pool), st1)"
    and landed: "verifyBatch E st1 req rq byID pool = Inr landed"
    and g: "guarded_Land E (lr_TaskID req) pool landed st1 = (e2, st2)"
    and e2: "e = None \<longrightarrow> e2 = None" and st': "host_index st' = host_index st2"
  let ?rows = "batch_rows (task_commits_seq (host_index st)) (map (land_row (lr_TaskID req)) landed) (le_now E 1)"
  note pull = pullObjects_frame[OF p] and len = verify_batch_loop_all(1)[OF landed[unfolded verifyBatch_def]]
  have ne: "lr_SandboxID req \<noteq> []" "landed \<noteq> []"
    using valid len by (auto simp: validateLandRequest_def split: if_splits)
  have just: "list_all (row_justified E st req rq pool) ?rows"
    using batch_justified[OF landed _ ne(1)] pull by simp
  have same: "host_index st1 = host_index st" using pull(1) by simp
  have rows: "task_commits (host_index st2) = task_commits (host_index st) \<and> e2 \<noteq> None
      \<or> task_commits (host_index st2) = task_commits (host_index st) @ ?rows"
  proof (cases "le_guard E")
    case None
    then have l: "Lander_Land E (lr_TaskID req) pool landed st1 = (e2, st2)" using g by (simp add: guarded_Land_def)
    show ?thesis using brancher.lander_rows[OF assms(1) refl l] ne(2) unfolding same by blast
  next
    case (Some x)
    then have "e2 = Some x" "st2 = st1" using g by (simp_all add: guarded_Land_def)
    then show ?thesis using same by simp
  qed
  then show ?thesis
  proof (elim disjE conjE)
    assume "task_commits (host_index st2) = task_commits (host_index st)" "e2 \<noteq> None"
    then show ?thesis using st' e2 by (intro exI[of _ "[]"]) auto
  next
    assume "task_commits (host_index st2) = task_commits (host_index st) @ ?rows"
    moreover have "length ?rows = length (lr_Commits req)" using len by simp
    moreover have "?rows \<noteq> []" using ne(2) by (metis length_0_conv length_batch_rows length_map)
    ultimately show ?thesis using st' just rq pull(2) by (intro exI[of _ ?rows]) auto
  qed
qed

section \<open>Several new commits\<close>

lemma newChain_commits:
  assumes "newChain E task pool st = Some (Inr (chain, base))" "iterations_ok E" "chain \<noteq> []"
  shows "linked chain"
    "pc \<in> set chain \<Longrightarrow> decodes (le_git E) pc \<and> pl_ID pc = git_hash (le_git E) ObjCommit (pl_Data pc)
       \<and> \<not> fst (HostHasCommit (le_git E) (host_objects st) (pl_ID pc))
       \<and> (\<exists>ob \<in> set pool. ob_Type ob = ObjCommit \<and> ob_Data ob = pl_Data pc)"
proof -
  have it: "iteration_ok (le_iter E k i)" for k i using assms(2) by (simp add: iterations_ok_def)
  obtain existing where ex: "GetTaskCommits (le_io E 0) task (host_index st) = Inr existing"
    using assms(1) by (cases "GetTaskCommits (le_io E 0) task (host_index st)") (auto simp: newChain_def)
  let ?skip = "land_skip E st (tc_CommitHash ` set existing)"
  let ?cc = "CommitChain (le_git E) (le_iter E 0 0) (le_iter E 1 0) ?skip pool"
  have cc: "?cc = (None, Some (Inr chain))"
    using assms(1) ex by (cases ?cc) (auto simp: newChain_def split: option.splits sum.splits)
  obtain serr r where new: "newPoolCommits (le_git E) (le_iter E 0 0) ?skip pool = (serr, r)" by fastforce
  then obtain new where r: "r = Inr new" using cc by (cases r) (auto simp: CommitChain_def)
  note ok = newPoolCommits_ok[OF new[unfolded r] it]
  have "new \<noteq> []" "orderChain (le_iter E 1 0) new = Some (Inr chain)"
    using cc new r assms(3) by (auto simp: CommitChain_def split: if_splits)
  then have chain: "is_chain new chain" using orderChain_cases[OF it ok(1), of 1 0] by simp
  then show "linked chain" by (simp add: is_chain_def)
  assume "pc \<in> set chain"
  then have "pc \<in> set new" using chain by (metis is_chain_def mset_eq_setD)
  moreover have "\<not> fst (?skip i) \<Longrightarrow> \<not> fst (HostHasCommit (le_git E) (host_objects st) i)" for i
    by (auto simp: land_skip_def split: if_splits)
  ultimately show "decodes (le_git E) pc \<and> pl_ID pc = git_hash (le_git E) ObjCommit (pl_Data pc)
       \<and> \<not> fst (HostHasCommit (le_git E) (host_objects st) (pl_ID pc))
       \<and> (\<exists>ob \<in> set pool. ob_Type ob = ObjCommit \<and> ob_Data ob = pl_Data pc)" using ok(2) by blast
qed

lemma absent_parent:
  assumes "\<not> fst (HostHasCommit G db i)" "i \<noteq> []" "i \<noteq> ZeroHash" "reg i = None"
  shows "\<exists>e. ParentFileSet G db reg i = Inl e"
proof -
  obtain e where "GetCommit G db i = Inl e"
    using assms(1,2) by (cases "GetCommit G db i") (auto simp: HostHasCommit_def)
  then show ?thesis using assms by (simp add: ParentFileSet_def Host_ParentFileSet_def)
qed

lemma claimed_parent:
  assumes "claimCommit E tid origin pool rq st i pc = Inr cc" "decodes (le_git E) pc"
  shows "\<exists>c. cc_Commit cc = Some c \<and> ParentID c = pl_ParentID pc"
proof -
  obtain files where f: "ParentFileSet (le_git E) (host_objects st) (byCommit st) (pl_ParentID pc) = Inr files"
    using assms(1) by (cases "ParentFileSet (le_git E) (host_objects st) (byCommit st) (pl_ParentID pc)")
      (auto simp: claimCommit_def)
  let ?d = "DeriveLandedCommit (le_git E) (le_hash E) (le_iter E 2 i) (le_iter E 3 i) (pl_Data pc) pool tid files"
  obtain c where c: "?d = Inr c" using assms(1) f by (cases ?d) (auto simp: claimCommit_def)
  have "cc_Commit cc = Some c" using assms(1) f c by (auto simp: claimCommit_def split: if_splits sum.splits)
  moreover have "ParentID c = pl_ParentID pc"
    using c assms(2) by (auto simp: DeriveLandedCommit_def decodes_def Let_def)
  ultimately show ?thesis by blast
qed

lemma buildRequest_frame:
  assumes "buildRequest E tid origin base pool chain st = (r, st')"
  shows "host_index st' = host_index st" "host_objects st' = host_objects st"
    "r = Inr req \<Longrightarrow> \<exists>rq ids st0. commitIDs (le_git E) pool = Inr ids \<and> set ids \<subseteq> {i. byCommit st' i = None}
       \<and> claim_loop (claimCommit E tid origin pool rq st0) 0 chain = Inr (lr_Commits req)"
proof -
  show "host_index st' = host_index st" "host_objects st' = host_objects st"
    using assms by (auto simp: buildRequest_def Register_def split: sum.splits)
  assume r: "r = Inr req"
  obtain rq where rq: "le_policy E 0 = Inr rq" using assms r by (cases "le_policy E 0") (auto simp: buildRequest_def)
  obtain ids where ids: "commitIDs (le_git E) pool = Inr ids"
    using assms r rq by (cases "commitIDs (le_git E) pool") (auto simp: buildRequest_def Register_def)
  let ?st0 = "st\<lparr>byCommit := \<lambda>i. if i \<in> set ids then Some pool else byCommit st i\<rparr>"
  have "claim_loop (claimCommit E tid origin pool rq ?st0) 0 chain = Inr (lr_Commits req)"
    "set ids \<subseteq> {i. byCommit st' i = None}"
    using assms r rq ids by (auto simp: buildRequest_def Register_def Deregister_def)
  then show "\<exists>rq ids st0. commitIDs (le_git E) pool = Inr ids \<and> set ids \<subseteq> {i. byCommit st' i = None}
       \<and> claim_loop (claimCommit E tid origin pool rq st0) 0 chain = Inr (lr_Commits req)" using ids by blast
qed

lemma commitIDs_complete:
  assumes "commitIDs G pool = Inr ids" "ob \<in> set pool" "ob_Type ob = ObjCommit"
  shows "git_hash G ObjCommit (ob_Data ob) \<in> set ids"
proof -
  obtain byID where b: "CommitObjectsByID G pool = Inr byID" and ids: "ids = map fst byID"
    using assms(1) by (auto simp: commitIDs_def)
  have "ob_Data ob \<in> snd ` set byID"
    using commit_objects_loop_ok[of G "[]" pool byID] b assms(2,3) by (auto simp: CommitObjectsByID_def)
  then obtain i where i: "(i, ob_Data ob) \<in> set byID" by (metis imageE prod.collapse)
  then have "i = git_hash G ObjCommit (ob_Data ob)" by (rule CommitObjectsByID_ok(2)[OF b])
  then show ?thesis using i ids by (metis fst_conv image_eqI list.set_map)
qed

lemma Pull_frame: "Pull E sid st = (r, st') \<Longrightarrow> host_index st' = host_index st \<and> host_objects st' = host_objects st"
  by (auto simp: Pull_def split: option.splits sum.splits if_splits)

lemma multi_commit_refused:
  assumes "iterations_ok E" "Pull E (so_id origin) st = (Inr pool, st1)"
    and "newChain E (TaskID_String tid) pool st1 = Some (Inr (pc1 # pc2 # rest, base))"
    and "pl_ID pc1 \<noteq> []" "pl_ID pc1 \<noteq> ZeroHash"
  shows "\<exists>e. fst (landOnce E tid origin st) = Some (Inl e)
     \<and> host_index (snd (landOnce E tid origin st)) = host_index st
     \<and> host_objects (snd (landOnce E tid origin st)) = host_objects st"
proof -
  let ?chain = "pc1 # pc2 # rest"
  obtain r st2 where b: "buildRequest E tid origin base pool ?chain st1 = (r, st2)" by fastforce
  note frame = buildRequest_frame[OF b] and pull = Pull_frame[OF assms(2)]
  show ?thesis
  proof (cases r)
    case (Inl e)
    then show ?thesis using assms(2,3) b frame pull by (simp add: landOnce_def Let_def Discard_def)
  next
    case (Inr req)
    obtain rq ids st0 where ids: "commitIDs (le_git E) pool = Inr ids" "set ids \<subseteq> {i. byCommit st2 i = None}"
      and loop: "claim_loop (claimCommit E tid origin pool rq st0) 0 ?chain = Inr (lr_Commits req)"
      using frame(3) Inr by blast
    note chain = newChain_commits[OF assms(3,1)]
    have pc1: "pl_ID pc1 = git_hash (le_git E) ObjCommit (pl_Data pc1)"
      "\<not> fst (HostHasCommit (le_git E) (host_objects st2) (pl_ID pc1))" and pc2: "decodes (le_git E) pc2"
      unfolding frame(2) using chain(2)[of pc1] chain(2)[of pc2] by (auto simp del: One_nat_def)
    have "\<exists>cc1 cc2 ccs. lr_Commits req = cc1 # cc2 # ccs \<and> claimCommit E tid origin pool rq st0 (Suc 0) pc2 = Inr cc2"
      using loop by (auto dest!: sym[of _ "lr_Commits req"])
    then obtain cc1 cc2 ccs where ccs: "lr_Commits req = cc1 # cc2 # ccs"
      and claim2: "claimCommit E tid origin pool rq st0 (Suc 0) pc2 = Inr cc2" by blast
    obtain c2 where c2: "cc_Commit cc2 = Some c2" "ParentID c2 = pl_ParentID pc2"
      using claimed_parent[OF claim2 pc2] by blast
    moreover have "pl_ParentID pc2 = pl_ID pc1" using chain(1) by simp
    ultimately have c2: "cc_Commit cc2 = Some c2" "ParentID c2 = pl_ID pc1" by simp_all
    have in_ids: "pl_ID pc1 \<in> set ids"
    proof -
      obtain ob where "ob \<in> set pool" "ob_Type ob = ObjCommit" "ob_Data ob = pl_Data pc1"
        using chain(2)[of pc1] by auto
      then show ?thesis using ids(1) pc1(1) commitIDs_complete by metis
    qed
    then have "byCommit st2 (pl_ID pc1) = None" using ids(2) by auto
    then obtain e2 where e2: "ParentFileSet (le_git E) (host_objects st2) (byCommit st2) (pl_ID pc1) = Inl e2"
      using absent_parent[OF pc1(2) assms(4,5)] by blast
    have no: "\<exists>e. verify_claim E stx req rqx byID po i cc2 = Inl e"
      if "host_objects stx = host_objects st2" "byCommit stx = byCommit st2" for stx rqx byID po i
      using c2 e2 that by (auto simp: verify_claim_def split: option.splits)
    obtain e st3 where o: "Orchestrator_Land E req st2 = (e, st3)" by fastforce
    have "e \<noteq> None \<and> host_index st3 = host_index st2 \<and> host_objects st3 = host_objects st2"
      using orchestrator_stages[OF o]
    proof (elim disjE exE conjE)
      fix rqx byID po landed e' stb sta
      assume p: "pullObjects E (lr_SandboxID req) st2 = (Inr (byID, po), sta)"
        and v: "verifyBatch E sta req rqx byID po = Inr landed"
      have "host_objects sta = host_objects st2" "byCommit sta = byCommit st2" using pullObjects_frame(1)[OF p] by simp_all
      then show ?thesis using no[of sta rqx byID po "Suc 0"] v ccs by (auto simp: verifyBatch_def)
    qed simp_all
    then show ?thesis using assms(2,3) b Inr o frame pull
      by (cases e) (simp_all add: landOnce_def Let_def)
  qed
qed

end
