(* ===== verification/Land_Projection.thy ===== *)
theory Land_Projection
  imports Land_Safety Index_Registry
begin

text \<open>
  The projection that publishes landed commits into the task's native worktree
  (\<open>cmd/mgit-sandboxd/land_projection.go\<close>), the brancher of the land path: choosing the
  worktree, publishing, recording delivery, and the retry of a pending delivery. The
  repository operations it calls (\<open>MergeStore\<close>, worktree markers, symbolic links) are
  arguments. It satisfies the brancher's contract, so the theorems on lands hold of the daemon
  as it is wired.
\<close>

record worktree_marker =
  mk_Store :: string
  mk_Task :: string
  mk_Branch :: string

datatype forward_result =
    Forwarded
  | Diverged err \<comment> \<open>\<open>ProjectionDivergenceError\<close>\<close>
  | Conflicted string err \<comment> \<open>\<open>ProjectionConflictError\<close> and its path\<close>
  | Forward_error err

record native_view =
  nv_repoRoot :: string
  nv_status :: "string \<Rightarrow> string option result" \<comment> \<open>the recorded worktree path\<close>
  nv_EvalSymlinks :: "string \<Rightarrow> string result"
  nv_marker :: "string \<Rightarrow> (worktree_marker \<times> bool) result"
  nv_open :: "string \<Rightarrow> err option"
  nv_FastForwardDelivered :: "string \<Rightarrow> string \<Rightarrow> (string \<rightharpoonup> string) \<Rightarrow> forward_result \<times> (string \<rightharpoonup> string)"
  nv_VerifyDelivered :: "string \<Rightarrow> err option"
  nv_IsAncestor :: "string \<Rightarrow> string \<Rightarrow> bool result"
  nv_Head :: "string result"
  nv_checkpoint :: "string \<Rightarrow> string result"
  nv_io :: "nat \<Rightarrow> io"
  nv_now :: time

definition path_join :: "string \<Rightarrow> string \<Rightarrow> string" where
  "path_join a b = path_clean (a @ ''/'' @ b)"

definition projection_target :: "native_view \<Rightarrow> string \<Rightarrow> land_state \<Rightarrow> err option" where
  "projection_target P task st =
     (case nv_status P task of
        Inl e \<Rightarrow> Some (Wrap ''resolve native worktree'' e)
      | Inr None \<Rightarrow> Some (Errorf ''native worktree binding is missing'')
      | Inr (Some wpath) \<Rightarrow>
          if wpath = [] \<or> \<not> path_is_abs wpath then Some (Errorf ''native worktree binding is missing'')
          else (case nv_EvalSymlinks P wpath of
            Inl e \<Rightarrow> Some (Wrap ''native worktree unavailable'' e)
          | Inr path \<Rightarrow>
            (case nv_EvalSymlinks P (nv_repoRoot P) of
               Inl e \<Rightarrow> Some e
             | Inr root \<Rightarrow>
                 (let branch = TaskBranchName task; wt = GetWorktreeByTask (nv_io P 0) task (host_index st);
                      store = path_join root ''.mgit'';
                      registration = (case wt of
                          Inl e \<Rightarrow> guard_err (\<not> errors_is e ErrWorktreeNotFound \<or> path \<noteq> root)
                                     (Wrap ''native worktree registration'' e)
                        | Inr w \<Rightarrow>
                            (let registeredPath = (if path_is_abs (WPath w) then WPath w else path_join root (WPath w))
                             in guard_err (nv_EvalSymlinks P registeredPath \<noteq> Inr path \<or> WBranch w \<noteq> branch)
                                  (Errorf ''native worktree registration does not match sandbox binding'')));
                      marker = (if path = root then None
                        else (case nv_marker P path of
                                Inl e \<Rightarrow> Some e
                              | Inr (m, is_linked) \<Rightarrow>
                                  if \<not> is_linked then Some (Errorf ''native worktree marker is missing'')
                                  else guard_err
                                    (isl (nv_EvalSymlinks P (mk_Store m)) \<or> isl (nv_EvalSymlinks P store)
                                     \<or> nv_EvalSymlinks P (mk_Store m) \<noteq> nv_EvalSymlinks P store
                                     \<or> mk_Task m \<noteq> task \<or> mk_Branch m \<noteq> branch)
                                    (Errorf ''native worktree marker does not match task, branch, and shared store'')))
                  in andthen registration (andthen marker (nv_open P path))))))"

text \<open>The remedy a conflict is reported with names the checkpoint to recover from.\<close>

definition conflictRemedy :: "native_view \<Rightarrow> string \<Rightarrow> err \<Rightarrow> land_state \<Rightarrow> err" where
  "conflictRemedy P path cause st =
     (case nv_checkpoint P path of
        Inl e \<Rightarrow> Wrap2 (Wrap ''recovery checkpoint cannot be verified'' cause) e
      | Inr head \<Rightarrow>
          (case RequireContentCommit (nv_io P 4) head (host_index st) of
             Some e \<Rightarrow> Wrap2 (Wrap ''recovery checkpoint cannot be verified'' cause) e
           | None \<Rightarrow> Wrap ''run mgit restore'' cause))"

definition divergence_report :: "native_view \<Rightarrow> string \<Rightarrow> string \<Rightarrow> err \<Rightarrow> land_state \<Rightarrow> err" where
  "divergence_report P task tip cause st =
     (case GetTaskCommits (nv_io P 2) task (host_index st) of
        Inl e \<Rightarrow> Wrap2 (Wrap ''cannot confirm ledger retention'' cause) e
      | Inr commits \<Rightarrow>
          if tip \<in> tc_CommitHash ` set commits then Wrap ''guest commit is retained in task ledger'' cause
          else Wrap ''no automatic recovery yet'' cause)"

fun pending_on_lineage :: "native_view \<Rightarrow> string \<Rightarrow> ContentRecord list \<Rightarrow> CommitRecord list result" where
  "pending_on_lineage P tip [] = Inr []"
| "pending_on_lineage P tip (r # rs) =
     (if cn_Origin r \<noteq> OriginLand \<or> cn_State r \<noteq> AdmissionPending then pending_on_lineage P tip rs
      else bind_result (nv_IsAncestor P (tc_CommitHash (cn_CommitRecord r)) tip) (\<lambda>onLineage.
             bind_result (pending_on_lineage P tip rs) (\<lambda>ds.
               Inr (if onLineage then cn_CommitRecord r # ds else ds))))"

definition publish :: "native_view \<Rightarrow> string \<Rightarrow> string \<Rightarrow> land_state \<Rightarrow> err option \<times> land_state" where
  "publish P task tip st =
     (case GetContentSnapshot (nv_io P 1) task (host_index st) of
        Inl e \<Rightarrow> (Some e, st)
      | Inr snapshot \<Rightarrow>
          (case RequireKnownContentOrigins snapshot of
             Some e \<Rightarrow> (Some e, st)
           | None \<Rightarrow>
               (case nv_FastForwardDelivered P (TaskBranchName task) tip (native_tips st) of
                  (Diverged e, tips) \<Rightarrow> (Some (divergence_report P task tip e st), st\<lparr>native_tips := tips\<rparr>)
                | (Conflicted path e, tips) \<Rightarrow> (Some (conflictRemedy P path e st), st\<lparr>native_tips := tips\<rparr>)
                | (Forward_error e, tips) \<Rightarrow> (Some e, st\<lparr>native_tips := tips\<rparr>)
                | (Forwarded, tips) \<Rightarrow>
                    (case nv_VerifyDelivered P tip of
                       Some e \<Rightarrow> (Some e, st\<lparr>native_tips := tips\<rparr>)
                     | None \<Rightarrow>
                         (case pending_on_lineage P tip snapshot of
                            Inl e \<Rightarrow> (Some e, st\<lparr>native_tips := tips\<rparr>)
                          | Inr delivered \<Rightarrow>
                              (case RecordDelivered (nv_io P 3) (nv_now P) delivered (host_index st) of
                                 (e, idx) \<Rightarrow> (e, st\<lparr>native_tips := tips, host_index := idx\<rparr>)))))))"

definition fastForwardLocked :: "native_view \<Rightarrow> string \<Rightarrow> string \<Rightarrow> land_state \<Rightarrow> err option \<times> land_state" where
  "fastForwardLocked P task tip st =
     (case projection_target P task st of Some e \<Rightarrow> (Some e, st) | None \<Rightarrow> publish P task tip st)"

definition projection_Check :: "native_view \<Rightarrow> err option \<Rightarrow> string \<Rightarrow> land_state \<Rightarrow> err option \<times> land_state" where
  "projection_Check P locked task st =
     (case locked of
        Some e \<Rightarrow> (Some e, st)
      | None \<Rightarrow>
      (case projection_target P task st of
        Some e \<Rightarrow> (Some e, st)
      | None \<Rightarrow>
          (case GetTaskCommits (nv_io P 5) task (host_index st) of
             Inl e \<Rightarrow> (Some e, st)
           | Inr commits \<Rightarrow>
               if commits = [] then (None, st)
               else (let expected = tc_CommitHash (last commits) in
                 case nv_Head P of
                   Inl e \<Rightarrow> (Some e, st)
                 | Inr tip \<Rightarrow>
                     if tip = expected then publish P task expected st
                     else (case nv_IsAncestor P expected tip of
                             Inl e \<Rightarrow> (Some e, st)
                           | Inr ahead \<Rightarrow> publish P task (if ahead then tip else expected) st)))))"

text \<open>\<open>landAdapter.Land\<close>: the land, then the check that its tip was delivered.\<close>

definition landAdapter_Land :: "land_env \<Rightarrow> native_view \<Rightarrow> err option \<Rightarrow> string \<Rightarrow> land_state
    \<Rightarrow> (int \<times> string) result option \<times> land_state" where
  "landAdapter_Land E P locked taskID st =
     (case LandService_Land E taskID st of
        (None, st1) \<Rightarrow> (None, st1)
      | (Some (Inl e), st1) \<Rightarrow> (Some (Inl e), st1)
      | (Some (Inr s), st1) \<Rightarrow>
          (case projection_Check P locked taskID st1 of
             (Some e, st2) \<Rightarrow> (Some (Inl (Wrap ''sandbox land'' e)), st2)
           | (None, st2) \<Rightarrow> (Some (Inr (ls_Commits s, ls_Branch s)), st2)))"

lemma deliver_all_rows: "deliver_all io n now rs s = Inr s' \<Longrightarrow> task_commits s' = task_commits s"
proof (induction rs arbitrary: n s)
  case (Cons r rs)
  then obtain s1 where s1: "deliver_one io n now r s = Inr s1" "deliver_all io (Suc n) now rs s1 = Inr s'" by auto
  from s1(1) have "task_commits s1 = task_commits s"
    by (cases rule: deliver_one_Inr) (auto dest: insertAdmission_frame)
  then show ?case using Cons.IH s1(2) by simp
qed simp

lemma RecordDelivered_rows: "task_commits (snd (RecordDelivered io now rs s)) = task_commits s"
  unfolding RecordDelivered_def by (rule WriteTx_keeps) (rule deliver_all_rows)

lemma publish_rows: "task_commits (host_index (snd (publish P task tip st))) = task_commits (host_index st)"
proof -
  have "task_commits idx = task_commits s" if "RecordDelivered io now rs s = (e, idx)" for io now rs s e idx
    using RecordDelivered_rows[of io now rs s] that by simp
  then show ?thesis
    by (auto simp: publish_def split: sum.split option.split prod.split forward_result.split)
qed

interpretation projection: brancher "fastForwardLocked P" for P
proof unfold_locales
  fix task tip st
  show "task_commits (host_index (snd (fastForwardLocked P task tip st))) = task_commits (host_index st)"
    by (simp add: fastForwardLocked_def publish_rows split: option.split)
qed

end
