(* ===== verification/Land_Progress.thy ===== *)
theory Land_Progress
  imports Land_Projection
begin

text \<open>
  That honest lands go through: a pool with one new commit, whose objects are complete, is
  recorded in the ledger when nothing in the environment fails. The steps of the land are
  followed one by one on the state each leaves.
\<close>

section \<open>Steps that cannot fail\<close>

lemma import_ok:
  "poolStorer_loop G st pool = Inr st' \<Longrightarrow> fst (ImportObjects G (\<lambda>_. None) pool db) = None"
  by (induction G st pool arbitrary: db rule: poolStorer_loop.induct)
    (auto simp: WriteRawObject_def Let_def split: option.splits)

lemma append_ok: "insertable s ins \<Longrightarrow> fst (AppendTaskCommits no_fault now ins s) = None"
  using insert_all_ok[of s ins 0 now] by (auto simp: AppendTaskCommits_def)

lemma issued_verifies:
  assumes "ed25519_ok E" "NewService E d = Inr s" "Attest_issue E now s subj = Inr att"
  shows "Attest_Verify E s (Some att) = None" "at_SandboxID att = as_SandboxID subj"
    "at_CommitHash att = as_CommitHash subj" "at_ContentHash att = as_ContentHash subj"
proof -
  have key: "attestKeyFile d = Some (priv s)" "activeKey s = Fingerprint E (ed_Public E (priv s))"
    using assms(2) by (auto simp: NewService_def Let_def split: option.splits if_splits)
  then have "retains E (ed_Public E (priv s)) d" by (simp add: retains_def)
  then have known: "knownPub s (activeKey s) = Some (ed_Public E (priv s))"
    using service_knows[OF _ _ _ assms(2)] assms(1) key(2) by (simp add: ed25519_ok_def)
  have att: "Attestation_Validate att = None" "at_Alg att = AlgEd25519" "at_KeyID att = activeKey s"
    "at_HostSignature att = ed_Sign E (priv s) (signingPayload att)"
    "at_SandboxID att = as_SandboxID subj" "at_CommitHash att = as_CommitHash subj" "at_ContentHash att = as_ContentHash subj"
    using assms(3) by (auto simp: Attest_issue_def Let_def signingPayload_def split: option.splits)
  then show "Attest_Verify E s (Some att) = None" "at_SandboxID att = as_SandboxID subj"
    "at_CommitHash att = as_CommitHash subj" "at_ContentHash att = as_ContentHash subj"
    using assms(1) known by (simp_all add: Attest_Verify_def ed25519_ok_def)
qed

text \<open>An environment in which no call fails; the brancher accepts every tip.\<close>

definition no_faults :: "land_env \<Rightarrow> bool" where
  "no_faults E \<longleftrightarrow> le_guard E = None \<and> le_store_fault E = (\<lambda>_. None) \<and> le_io E = (\<lambda>_. no_fault)
     \<and> (\<forall>task tip st. fst (le_forward E task tip st) = None)"

lemma lander_appends:
  assumes "no_faults E" "brancher (le_forward E)" "poolStorer (le_git E) pool = Inr storer"
    and "commits \<noteq> []" "insertable (host_index st) (map (land_row task) commits)"
  shows "\<exists>st'. guarded_Land E task pool commits st = (None, st')
    \<and> task_commits (host_index st') = task_commits (host_index st)
        @ batch_rows (task_commits_seq (host_index st)) (map (land_row task) commits) (le_now E 1)"
proof -
  obtain db where db: "ImportObjects (le_git E) (\<lambda>_. None) pool (host_objects st) = (None, db)"
    using import_ok[OF assms(3)[unfolded poolStorer_def]] by (metis prod.collapse)
  obtain idx where idx: "AppendTaskCommits no_fault (le_now E 1) (map (land_row task) commits) (host_index st) = (None, idx)"
    using append_ok[OF assms(5)] by (metis prod.collapse)
  let ?f = "le_forward E task (CommitID (lc_Commit (last commits))) (st\<lparr>host_objects := db, host_index := idx\<rparr>)"
  have "fst ?f = None" using assms(1) by (simp add: no_faults_def)
  then obtain st' where f: "?f = (None, st')" by (metis prod.collapse)
  have l: "Lander_Land E task pool commits st = (None, st')"
    using assms(1,4) db idx f by (simp add: Lander_Land_def no_faults_def)
  moreover from l have "task_commits (host_index st') = task_commits (host_index st)
        @ batch_rows (task_commits_seq (host_index st)) (map (land_row task) commits) (le_now E 1)"
    using brancher.lander_rows(2)[OF assms(2) refl l] assms(4) by simp
  moreover have "le_guard E = None" using assms(1) by (simp add: no_faults_def)
  ultimately show ?thesis by (simp add: guarded_Land_def)
qed

section \<open>A single new commit\<close>

lemma Pull_buffer:
  assumes "Pull E sid st = (Inr pool, st1)"
  shows "\<exists>raw. pools st1 sid = Some raw \<and> DecodeObjects (le_limits E) raw None = Inr pool"
    "byCommit st1 = byCommit st"
  using assms by (auto simp: Pull_def split: option.splits sum.splits if_splits)

lemma newChain_fresh:
  assumes "newChain E task pool st = Some (Inr (chain, base))" "le_io E = (\<lambda>_. no_fault)" "iterations_ok E" "pc \<in> set chain"
  shows "(task, pl_ID pc) \<notin> row_key ` set (task_commits (host_index st))" "0 \<le> base"
    "\<exists>byID. CommitObjectsByID (le_git E) pool = Inr byID \<and> map_of byID (pl_ID pc) = Some (pl_Data pc)"
proof -
  have it: "iteration_ok (le_iter E k i)" for k i using assms(3) by (simp add: iterations_ok_def)
  let ?ex = "sort_key tc_Position (filter (\<lambda>r. tc_TaskID r = task) (task_commits (host_index st)))"
  have ex: "GetTaskCommits (le_io E 0) task (host_index st) = Inr ?ex"
    by (simp add: GetTaskCommits_def assms(2))
  let ?skip = "land_skip E st (tc_CommitHash ` set ?ex)"
  let ?cc = "CommitChain (le_git E) (le_iter E 0 0) (le_iter E 1 0) ?skip pool"
  have cc: "?cc = (None, Some (Inr chain))" and base: "base = int (length ?ex)"
    using assms(1) ex by (cases ?cc; auto simp: newChain_def split: option.splits sum.splits)+
  show "0 \<le> base" by (simp add: base)
  obtain serr r where new: "newPoolCommits (le_git E) (le_iter E 0 0) ?skip pool = (serr, r)" by fastforce
  then obtain new where r: "r = Inr new" using cc by (cases r) (auto simp: CommitChain_def)
  note ok = newPoolCommits_ok[OF new[unfolded r] it]
  have "new \<noteq> []" "orderChain (le_iter E 1 0) new = Some (Inr chain)"
    using cc new r assms(4) by (auto simp: CommitChain_def split: if_splits)
  then have "is_chain new chain" using orderChain_cases[OF it ok(1), of 1 0] by simp
  then have pc: "pc \<in> set new" using assms(4) by (metis is_chain_def mset_eq_setD)
  then have "\<not> fst (?skip (pl_ID pc))" using ok(2) by blast
  then have "pl_ID pc \<notin> tc_CommitHash ` set ?ex" by (auto simp: land_skip_def split: if_splits)
  then show "(task, pl_ID pc) \<notin> row_key ` set (task_commits (host_index st))" by (auto simp: row_key_def)
  obtain byID where b: "CommitObjectsByID (le_git E) pool = Inr byID"
    using new r by (cases "CommitObjectsByID (le_git E) pool") (auto simp: newPoolCommits_def)
  have entry: "(pl_ID pc, pl_Data pc) \<in> set byID" by (rule newPoolCommits_entry(1)[OF new[unfolded r] it b pc])
  then show "\<exists>byID. CommitObjectsByID (le_git E) pool = Inr byID \<and> map_of byID (pl_ID pc) = Some (pl_Data pc)"
    using b CommitObjectsByID_ok(1)[OF b] by (auto simp: map_of_eq_Some_iff)
qed

lemma single_claim:
  assumes "le_policy E 0 = Inr rq" "commitIDs (le_git E) pool = Inr ids" "byCommit st = Map.empty"
    and "Host_ParentFileSet (le_git E) (host_objects st) (pl_ParentID pc) = Inr parent"
    and "pl_ParentID pc \<in> set ids \<Longrightarrow> poolCommitFileSet (le_git E) pool (pl_ParentID pc) = Inr parent"
    and "DeriveLandedCommit (le_git E) (le_hash E) (le_iter E 2 0) (le_iter E 3 0) (pl_Data pc) pool tid parent = Inr c"
    and "rq \<Longrightarrow> Attest_issue (le_ed E) (le_now E 3) (le_attest E) \<lparr>as_SandboxID = so_id origin, as_CommitHash = CommitID c,
          as_ContentHash = ContentHash c, as_BaseDigest = so_baseDigest origin\<rparr> = Inr att"
  shows "buildRequest E tid origin base pool [pc] st =
    (Inr \<lparr>lr_TaskID = TaskID_String tid, lr_SandboxID = so_id origin,
       lr_Commits = [\<lparr>cc_Commit = Some c, cc_Attestation = (if rq then Some att else None)\<rparr>], lr_BasePosition = base\<rparr>,
     st\<lparr>byCommit := Map.empty\<rparr>)"
proof -
  let ?reg = "\<lambda>i. if i \<in> set ids then Some pool else None"
  have p: "ParentFileSet (le_git E) (host_objects st) ?reg (pl_ParentID pc) = Inr parent"
    using assms(4,5) by (simp add: ParentFileSet_def)
  have "claimCommit E tid origin pool rq (st\<lparr>byCommit := ?reg\<rparr>) 0 pc =
      Inr \<lparr>cc_Commit = Some c, cc_Attestation = (if rq then Some att else None)\<rparr>"
    using p assms(6,7) by (simp add: claimCommit_def)
  moreover have "Deregister ids ?reg = Map.empty" by (auto simp: Deregister_def)
  ultimately show ?thesis using assms(1-3) by (simp add: buildRequest_def Register_def)
qed

lemma single_verified:
  assumes "iterations_ok E" "byCommit st = Map.empty" "CommitObjectsByID (le_git E) pool = Inr byID"
    and "map_of byID (pl_ID pc) = Some (pl_Data pc)" "pl_ID pc = CommitID c" "ParentID c = pl_ParentID pc"
    and "Host_ParentFileSet (le_git E) (host_objects st) (pl_ParentID pc) = Inr parent"
    and derive: "DeriveLandedCommit (le_git E) (le_hash E) (le_iter E 2 0) (le_iter E 3 0) (pl_Data pc) pool tid parent = Inr c"
    and "poolStorer (le_git E) pool = Inr storer" "\<forall>d \<in> set (FileDiffs c). blob_absent (le_git E) storer d = None"
    and "EnforceRequireSandbox (Attest_Verify (le_ed E) (le_attest E)) rq sid (Some c) att = Inr prov"
  shows "verifyBatch E st \<lparr>lr_TaskID = TaskID_String tid, lr_SandboxID = sid,
      lr_Commits = [\<lparr>cc_Commit = Some c, cc_Attestation = att\<rparr>], lr_BasePosition = base\<rparr> rq byID pool
    = Inr [\<lparr>lc_Commit = c, lc_SandboxID = prov, lc_Position = wrap64 base\<rparr>]"
proof -
  have it: "iteration_ok (le_iter E k i)" for k i using assms(1) by (simp add: iterations_ok_def)
  have "VerifyTreeBinding (le_git E) (le_iter E 4 0) (le_iter E 5 0) pool (Some c) parent = None"
    by (rule derived_commit_tree_binds[OF derive it it it it assms(9,10)])
  then show ?thesis
    using assms(2-7,11) derived_commit_binds[OF derive]
    by (simp add: verifyBatch_def verify_claim_def ParentFileSet_def)
qed


section \<open>Concrete lands\<close>

definition sample_git :: git_lib where
  "sample_git = \<lparr>
     git_hash = (\<lambda>t d. if t = ObjCommit then replicate 40 (if d = [1] then CHR ''a'' else CHR ''b'')
                      else if t = ObjTree then replicate 40 CHR ''c'' else replicate 40 CHR ''d''),
     git_NewHash = (\<lambda>s. s),
     git_Decode = (\<lambda>d. Inr \<lparr>gc_Hash = [], gc_Message = ''m'', gc_AuthorName = ''agent'', gc_AuthorWhen = 1,
        gc_ParentHashes = (if d = [1] then [] else [replicate 40 CHR ''a'']), gc_TreeHash = replicate 40 CHR ''c''\<rparr>),
     git_WalkTree = (\<lambda>st h. if h = replicate 40 CHR ''c''
        then Inr ([\<lparr>te_Name = ''f'', te_Dir = False, te_Hash = replicate 40 CHR ''d''\<rparr>], None)
        else Inl (Errorf ''object not found''))\<rparr>"

definition sample_pool :: "byte list list \<Rightarrow> Object list" where
  "sample_pool commits = map (\<lambda>d. \<lparr>ob_Type = ObjCommit, ob_Data = d\<rparr>) commits
     @ [\<lparr>ob_Type = ObjTree, ob_Data = [3]\<rparr>, \<lparr>ob_Type = ObjBlob, ob_Data = [4]\<rparr>]"

definition sample_hashing :: hashing where
  "sample_hashing = \<lparr>sha256_hex = (\<lambda>_. replicate 64 CHR ''0''), marshal_diffs = (\<lambda>_. []), fmt_utc = (\<lambda>_. [])\<rparr>"

definition sample_attestor :: AttestService where
  "sample_attestor = projr (NewService sample_ed25519 sample_trust_dir)"

definition sample_env :: "byte list list \<Rightarrow> land_env" where
  "sample_env commits = \<lparr>le_git = sample_git, le_hash = sample_hashing, le_ed = sample_ed25519, le_attest = sample_attestor,
     le_limits = DefaultLimits, le_dial = (\<lambda>_. Inr (concat (map frame (sample_pool commits)), None)),
     le_status = (\<lambda>_. Inr \<lparr>so_id = ''s1'', so_baseDigest = []\<rparr>), le_policy = (\<lambda>_. Inr True),
     le_iter = (\<lambda>_ _ n. [0..<n]), le_now = (\<lambda>_. 62135596801 * Second),
     le_ulid = \<lparr>ulid_Timestamp = (\<lambda>_. 0), ulid_New = (\<lambda>n _. Inr (replicate n CHR ''0''))\<rparr>,
     le_io = (\<lambda>_. no_fault), le_store_fault = (\<lambda>_. None), le_slot = None, le_guard = None,
     le_forward = (\<lambda>task tip st. (None, st))\<rparr>"

definition sample_land :: land_state where
  "sample_land = \<lparr>bindings = [''s1'' \<mapsto> ''cid:3''], pools = Map.empty, byCommit = Map.empty, host_objects = [],
     host_index = empty_Store, sandbox_index = empty_Store, native_tips = Map.empty\<rparr>"

abbreviation sample_origin :: SandboxOrigin where
  "sample_origin \<equiv> \<lparr>so_id = ''s1'', so_baseDigest = []\<rparr>"

abbreviation sample_task :: TaskID where
  "sample_task \<equiv> \<lparr>tid_prefix = ''A'', tid_parts = ''1''\<rparr>"

lemma sample_pull:
  assumes "set commits \<subseteq> {[1], [2]}" "length commits \<le> 2"
  shows "Pull (sample_env commits) ''s1'' sample_land =
    (Inr (sample_pool commits), sample_land\<lparr>pools := [''s1'' \<mapsto> concat (map frame (sample_pool commits))]\<rparr>)"
proof -
  let ?raw = "concat (map frame (sample_pool commits))"
  have len: "length (frame ob) = 5 + length (ob_Data ob)" for ob by (simp add: frame_def)
  have sz: "length ?raw \<le> 24"
  proof -
    have "(\<Sum>d\<leftarrow>commits. length (frame \<lparr>ob_Type = ObjCommit, ob_Data = d\<rparr>)) \<le> (\<Sum>d\<leftarrow>commits. 6)"
      by (rule sum_list_mono) (use assms(1) in \<open>auto simp: len\<close>)
    then show ?thesis using assms(2) by (simp add: sample_pool_def length_concat len sum_list_triv comp_def)
  qed
  have "within_limits DefaultLimits 0 0 (sample_pool commits)"
    unfolding within_limits_def
  proof (intro conjI disjI2 ballI)
    show "int 0 + int (length (sample_pool commits)) \<le> MaxObjectsPerLand DefaultLimits"
      using assms(2) by (simp add: sample_pool_def DefaultLimits_def)
    have "payload_total objs \<le> int (length (concat (map frame objs)))" for objs
      by (induction objs) (simp_all add: len)
    from this[of "sample_pool commits"] show "0 + payload_total (sample_pool commits) \<le> MaxTotalBytes DefaultLimits"
      using sz by (simp add: DefaultLimits_def)
    fix ob assume "ob \<in> set (sample_pool commits)"
    then show "framable ob" "int (length (ob_Data ob)) \<le> MaxObjectBytes DefaultLimits"
      using assms(1) by (auto simp: sample_pool_def framable_def ValidType_def DefaultLimits_def)
  qed
  then have dec: "DecodeObjects DefaultLimits ?raw None = Inr (sample_pool commits)"
    using decode_loop_exact[of 0 DefaultLimits "[]" ?raw None "sample_pool commits"]
    by (simp add: DecodeObjects_def DefaultLimits_def)
  have "wrap64 (MaxTotalBytes DefaultLimits + 1) = 4294967297"
    by (simp add: DefaultLimits_def wrap64_def)
  then have "read_limited DefaultLimits (?raw, None) = Inr ?raw"
    using sz by (simp add: read_limited_def)
  moreover have "\<not> int (length ?raw) > MaxTotalBytes DefaultLimits" using sz by (simp add: DefaultLimits_def)
  ultimately show ?thesis
    using dec by (simp add: Pull_def sample_env_def sample_land_def Peer_Authorize_def BoundPeer_def)
qed

lemma GetCommit_empty: "\<exists>e. GetCommit G [] i = Inl e \<and> errors_is e ErrCommitNotFound"
  by (simp add: GetCommit_def resolveCommitHash_def Let_def matchHashPrefix_def)

lemma HostHasCommit_empty [simp]: "HostHasCommit G [] i = (False, None)"
  using GetCommit_empty[of G i] by (auto simp: HostHasCommit_def)

definition sample_pc :: "byte list \<Rightarrow> PoolCommit" where
  "sample_pc d = \<lparr>pl_ID = replicate 40 (if d = [1] then CHR ''a'' else CHR ''b''),
     pl_ParentID = (if d = [1] then [] else replicate 40 CHR ''a''), pl_Data = d\<rparr>"

lemma sample_decode:
  "CommitFromObjectData sample_git d = Inr \<lparr>CommitID = pl_ID (sample_pc d), ContentHash = [],
      ParentID = pl_ParentID (sample_pc d), TreeHash = replicate 40 CHR ''c'', CTaskID = zero_TaskID,
      AgentID = ''agent'', SessionID = [], Message = ''m'', FileDiffs = [], SquashedFrom = [], CreatedAt = 1,
      Signature = [], CType = CommitTypeNormal, CreatedBy = ''agent'', CBranch = []\<rparr>"
  by (simp add: CommitFromObjectData_def decode_commit_def sample_git_def commitFromGitObject_def sample_pc_def
      taskIDFromMessage_def cut_prefix_def has_prefix_def)

lemma in_order [simp]: "range_map (\<lambda>n. [0..<n]) xs = xs"
  by (simp add: range_map_def map_nth)

lemma sample_ids_ne: "replicate 40 CHR ''a'' \<noteq> (replicate 40 CHR ''b'' :: string)"
  by (simp add: eval_nat_numeral)

lemma sample_objects:
  "CommitObjectsByID sample_git (sample_pool [[1]]) = Inr [(pl_ID (sample_pc [1]), [1])]"
  "CommitObjectsByID sample_git (sample_pool [[1], [2]]) = Inr [(pl_ID (sample_pc [1]), [1]), (pl_ID (sample_pc [2]), [2])]"
  using sample_ids_ne by (simp_all add: CommitObjectsByID_def sample_pool_def sample_git_def sample_pc_def Let_def)

lemma sample_chain1:
  "newChain (sample_env [[1]]) (TaskID_String sample_task) (sample_pool [[1]]) (sample_land\<lparr>pools := x\<rparr>) = Some (Inr ([sample_pc [1]], 0))"
proof -
  have skip: "land_skip (sample_env [[1]]) (sample_land\<lparr>pools := x\<rparr>) {} = (\<lambda>_. (False, None))"
    by (rule ext) (simp add: land_skip_def sample_land_def)
  have "newPoolCommits sample_git (\<lambda>n. [0..<n]) (\<lambda>_. (False, None)) (sample_pool [[1]]) = (None, Inr [sample_pc [1]])"
    by (simp add: newPoolCommits_def sample_objects sample_decode Let_def) (simp add: sample_pc_def)
  moreover have "orderChain (\<lambda>n. [0..<n]) [sample_pc [1]] = Some (Inr [sample_pc [1]])"
    by (simp add: orderChain_def Let_def chain_roots_def child_table_def pool_ids_def sample_pc_def chain_walk.simps)
  ultimately have "CommitChain sample_git (\<lambda>n. [0..<n]) (\<lambda>n. [0..<n]) (\<lambda>_. (False, None)) (sample_pool [[1]])
     = (None, Some (Inr [sample_pc [1]]))"
    by (simp add: CommitChain_def)
  then show ?thesis using skip
    by (simp add: newChain_def GetTaskCommits_def sample_env_def sample_land_def empty_Store_def)
qed

lemma sample_chain2:
  "newChain (sample_env [[1], [2]]) (TaskID_String sample_task) (sample_pool [[1], [2]]) (sample_land\<lparr>pools := x\<rparr>)
     = Some (Inr ([sample_pc [1], sample_pc [2]], 0))"
proof -
  have skip: "land_skip (sample_env [[1], [2]]) (sample_land\<lparr>pools := x\<rparr>) {} = (\<lambda>_. (False, None))"
    by (rule ext) (simp add: land_skip_def sample_land_def)
  have "newPoolCommits sample_git (\<lambda>n. [0..<n]) (\<lambda>_. (False, None)) (sample_pool [[1], [2]])
     = (None, Inr [sample_pc [1], sample_pc [2]])"
    by (simp add: newPoolCommits_def sample_objects sample_decode Let_def) (simp add: sample_pc_def)
  moreover have "orderChain (\<lambda>n. [0..<n]) [sample_pc [1], sample_pc [2]] = Some (Inr [sample_pc [1], sample_pc [2]])"
    using sample_ids_ne
    by (simp add: orderChain_def Let_def chain_roots_def child_table_def pool_ids_def sample_pc_def lookup_commit_def
        chain_walk.simps)
  ultimately have "CommitChain sample_git (\<lambda>n. [0..<n]) (\<lambda>n. [0..<n]) (\<lambda>_. (False, None)) (sample_pool [[1], [2]])
     = (None, Some (Inr [sample_pc [1], sample_pc [2]]))"
    by (simp add: CommitChain_def)
  then show ?thesis using skip
    by (simp add: newChain_def GetTaskCommits_def sample_env_def sample_land_def empty_Store_def)
qed

lemma sample_env_ok: "iterations_ok (sample_env cs)" "no_faults (sample_env cs)" "brancher (le_forward (sample_env cs))"
  by (simp_all add: iterations_ok_def no_faults_def sample_env_def brancher_def)

definition sample_commit :: Commit where
  "sample_commit = projr (DeriveLandedCommit sample_git sample_hashing (\<lambda>n. [0..<n]) (\<lambda>n. [0..<n]) [1] (sample_pool [[1]]) sample_task [])"

definition sample_objects_map :: objects where
  "sample_objects_map = projr (poolStorer sample_git (sample_pool [[1]]))"

lemma sample_storer: "poolStorer sample_git (sample_pool [[1]]) = Inr sample_objects_map"
  by (simp add: sample_objects_map_def poolStorer_def sample_pool_def gitObjectType_def ValidType_def)

lemma sample_blob: "sample_objects_map (replicate 40 CHR ''d'') = Some \<lparr>ob_Type = ObjBlob, ob_Data = [4]\<rparr>"
  by (simp add: sample_objects_map_def poolStorer_def sample_pool_def gitObjectType_def ValidType_def sample_git_def)

lemma sample_derived:
  "\<exists>c. DeriveLandedCommit sample_git sample_hashing (\<lambda>n. [0..<n]) (\<lambda>n. [0..<n]) [1] (sample_pool [[1]]) sample_task [] = Inr c
     \<and> FileDiffs c = [tree_diff ''f'' DiffAdded [] (replicate 40 CHR ''d'')] \<and> ParentID c = [] \<and> TreeHash c = replicate 40 CHR ''c''
     \<and> ContentHash c = replicate 64 CHR ''0'' \<and> CommitID c = pl_ID (sample_pc [1])"
proof -
  have ne: "replicate 40 CHR ''c'' \<noteq> emptyTreeHash" "replicate 40 CHR ''c'' \<noteq> (ZeroHash :: string)"
    by (simp_all add: emptyTreeHash_def eval_nat_numeral)
  have valid: "ValidateTreePath ''f'' = None"
    by (simp add: ValidateTreePath_def path_is_abs_def path_clean_def Let_def)
  have files: "landedFileSet sample_git sample_objects_map (replicate 40 CHR ''c'') = Inr [(''f'', replicate 40 CHR ''d'')]"
    using ne valid by (simp add: landedFileSet_def sample_git_def)
  show ?thesis
    by (simp add: DeriveLandedCommit_def sample_decode sample_storer files Let_def diffFileSets_def landed_diff_def
        ComputeContentHash_def sample_hashing_def) (simp add: sample_pc_def)
qed

lemma sample_commit_facts:
  "DeriveLandedCommit sample_git sample_hashing (\<lambda>n. [0..<n]) (\<lambda>n. [0..<n]) [1] (sample_pool [[1]]) sample_task [] = Inr sample_commit"
  "FileDiffs sample_commit = [tree_diff ''f'' DiffAdded [] (replicate 40 CHR ''d'')]" "ParentID sample_commit = []"
  "ContentHash sample_commit = replicate 64 CHR ''0''" "CommitID sample_commit = pl_ID (sample_pc [1])"
  using sample_derived by (auto simp: sample_commit_def)

lemmas sample_derive = sample_commit_facts(1)

lemma sample_blobs: "\<forall>d \<in> set (FileDiffs sample_commit). blob_absent sample_git sample_objects_map d = None"
  using sample_blob by (simp add: sample_commit_facts(2) blob_absent_def sample_git_def)

definition sample_request :: LandRequest where
  "sample_request = \<lparr>lr_TaskID = ''A-1'', lr_SandboxID = ''s1'',
     lr_Commits = [\<lparr>cc_Commit = Some sample_commit, cc_Attestation = None\<rparr>], lr_BasePosition = 0\<rparr>"

section \<open>The claims on lands\<close>

text \<open>
  C9. When the tree binding of a commit passes, the diffs the commit claims are exactly the
  difference between its parent's files and the files of the landed tree: applied to the
  parent's file set they give the landed one, every landed path is confined to the worktree,
  and the content of every added or modified file is in the pool. This holds for every order
  in which the maps are visited, and whatever text the claimed diffs contain.
\<close>

theorem verified_diffs_describe_tree:
  assumes "walk_text_ok G" "iteration_ok it1" "iteration_ok it2"
    and "ParentFileSet G db reg (ParentID c) = Inr parent"
    and "VerifyTreeBinding G it1 it2 pool (Some c) parent = None"
  shows "\<exists>storer landed. poolStorer G pool = Inr storer \<and> landedFileSet G storer (TreeHash c) = Inr landed
     \<and> map_of landed = apply_diffs (FileDiffs c) (map_of parent)
     \<and> list_all (\<lambda>p. ValidateTreePath p = None) (map fst landed)
     \<and> list_all (\<lambda>(p, h). map_of parent p = Some h \<or> h = [] \<or> map_option ob_Type (storer (git_NewHash G h)) = Some ObjBlob) landed"
  using assms by (rule tree_binding_describes)

theorem verified_diffs_describe_tree_witness:
  "\<exists>storer landed. poolStorer sample_git (sample_pool [[1]]) = Inr storer
     \<and> landedFileSet sample_git storer (TreeHash sample_commit) = Inr landed
     \<and> map_of landed = apply_diffs (FileDiffs sample_commit) (map_of [])
     \<and> list_all (\<lambda>p. ValidateTreePath p = None) (map fst landed)
     \<and> list_all (\<lambda>(p, h). map_of [] p = Some h \<or> h = [] \<or> map_option ob_Type (storer (git_NewHash sample_git h)) = Some ObjBlob) landed"
proof (rule verified_diffs_describe_tree)
  show "walk_text_ok sample_git" by (simp add: walk_text_ok_def sample_git_def nul_free_def)
  show "ParentFileSet sample_git [] Map.empty (ParentID sample_commit) = Inr []"
    by (simp add: ParentFileSet_def Host_ParentFileSet_def sample_commit_facts(3))
  show "VerifyTreeBinding sample_git (\<lambda>n. [0..<n]) (\<lambda>n. [0..<n]) (sample_pool [[1]]) (Some sample_commit) [] = None"
    by (rule derived_commit_tree_binds[OF sample_derive _ _ _ _ sample_storer]) (simp_all add: sample_blobs)
qed simp_all

text \<open>
  C1. Whatever a guest sends, a land adds to the ledger all the commits of the request or
  none, and every row it adds is justified by the checks: the bytes are in the pool the host
  read, they hash to the recorded commit id and give the recorded content hash, the diffs are
  those of the landed tree, the commit is for the bound task, and under the policy a verified
  attestation names this commit, this content and this sandbox, which is the provenance
  recorded. When a check fails, the ledger and the object store are as before.
\<close>

theorem land_rows_are_verified:
  assumes "brancher (le_forward E)" "Orchestrator_Land E req st = (e, st')"
  shows "\<exists>rows. task_commits (host_index st') = task_commits (host_index st) @ rows
     \<and> (rows = [] \<longrightarrow> e \<noteq> None)
     \<and> (rows \<noteq> [] \<longrightarrow> length rows = length (lr_Commits req)
          \<and> (\<exists>rq raw pool. le_policy E 1 = Inr rq \<and> pools st (lr_SandboxID req) = Some raw
                \<and> DecodeObjects (le_limits E) raw None = Inr pool
                \<and> list_all (row_justified E st req rq pool) rows))"
  using assms by (rule orchestrator_rows)

theorem land_rows_are_verified_witness:
  "\<exists>e st'. Orchestrator_Land (sample_env [[1]]) sample_request (sample_land\<lparr>pools := [''s1'' \<mapsto> concat (map frame (sample_pool [[1]]))]\<rparr>) = (e, st')
     \<and> (\<exists>rows. task_commits (host_index st') = rows \<and> (rows = [] \<longrightarrow> e \<noteq> None))"
proof -
  obtain e st' where o: "Orchestrator_Land (sample_env [[1]]) sample_request
      (sample_land\<lparr>pools := [''s1'' \<mapsto> concat (map frame (sample_pool [[1]]))]\<rparr>) = (e, st')" by fastforce
  from land_rows_are_verified[OF sample_env_ok(3) o] show ?thesis
    using o by (auto simp: sample_land_def empty_Store_def)
qed

text \<open>
  C38. A land of two or more new commits never succeeds: the pool is taken out of the parent
  resolver's registry before the orchestrator runs, so the parent of the second commit, which
  the host does not have yet, cannot be resolved. The land is refused with an error and the
  ledger and the object store are as before.
\<close>

theorem multi_commit_land_is_refused:
  assumes "iterations_ok E" "Pull E (so_id origin) st = (Inr pool, st1)"
    and "newChain E (TaskID_String tid) pool st1 = Some (Inr (pc1 # pc2 # rest, base))"
    and "pl_ID pc1 \<noteq> []" "pl_ID pc1 \<noteq> ZeroHash"
  shows "\<exists>e. fst (landOnce E tid origin st) = Some (Inl e)
     \<and> host_index (snd (landOnce E tid origin st)) = host_index st
     \<and> host_objects (snd (landOnce E tid origin st)) = host_objects st"
  using assms by (rule multi_commit_refused)

theorem multi_commit_land_is_refused_witness:
  "\<exists>e. fst (landOnce (sample_env [[1], [2]]) sample_task sample_origin sample_land) = Some (Inl e)
     \<and> host_index (snd (landOnce (sample_env [[1], [2]]) sample_task sample_origin sample_land)) = host_index sample_land
     \<and> host_objects (snd (landOnce (sample_env [[1], [2]]) sample_task sample_origin sample_land)) = host_objects sample_land"
proof (rule multi_commit_land_is_refused[OF sample_env_ok(1) _ sample_chain2])
  show "Pull (sample_env [[1], [2]]) (so_id sample_origin) sample_land =
      (Inr (sample_pool [[1], [2]]), sample_land\<lparr>pools := [''s1'' \<mapsto> concat (map frame (sample_pool [[1], [2]]))]\<rparr>)"
    by (simp add: sample_pull)
qed (simp_all add: sample_pc_def eval_nat_numeral)


end
