(* ===== verification/Egress_Allowlist.thy ===== *)
theory Egress_Allowlist
  imports Sandbox_Records
begin

unbundle bit_operations_syntax

text \<open>
  The host egress allowlist of \<open>internal/sandboxd/egress\<close>: compilation of the
  policy entries into name and network rules (\<open>allowlist.go\<close>), live capability
  grants, the live replacement of the rules and the registry of established flows
  (\<open>livepolicy.go\<close>), and the ranges denied whatever the policy says (\<open>ipclass.go\<close>).
  A history of changes simulates the one a reference policy would go through.
\<close>

section \<open>Unconditional denials (\<open>ipclass.go\<close>)\<close>

definition metadataIP :: addr where
  "metadataIP = V4 0xA9FEA9FE"

definition deniedPrefixes :: "prefix list" where
  "deniedPrefixes =
     [Prefix (V4 0x64400000) 10, Prefix (V4 0) 8, Prefix (V4 0xC0000000) 24,
      Prefix (V4 0xC0000200) 24, Prefix (V4 0xC6120000) 15, Prefix (V4 0xC6336400) 24,
      Prefix (V4 0xCB007100) 24, Prefix (V4 0xF0000000) 4,
      Prefix (V6 0x0064FF9B000000000000000000000000 []) 96,
      Prefix (V6 0x0064FF9B000100000000000000000000 []) 48,
      Prefix (V6 0x20010DB8000000000000000000000000 []) 32,
      Prefix (V6 0x01000000000000000000000000000000 []) 64]"

text \<open>The list is the one the source writes as text.\<close>

lemma deniedPrefixes_parsed:
  "map Some deniedPrefixes = map ParsePrefix
     [''100.64.0.0/10'', ''0.0.0.0/8'', ''192.0.0.0/24'', ''192.0.2.0/24'', ''198.18.0.0/15'',
      ''198.51.100.0/24'', ''203.0.113.0/24'', ''240.0.0.0/4'', ''64:ff9b::/96'',
      ''64:ff9b:1::/48'', ''2001:db8::/32'', ''100::/64'']"
  by code_simp

lemma metadataIP_parsed: "ParseAddr ''169.254.169.254'' = Some metadataIP"
  by code_simp

definition prefix_String :: "prefix \<Rightarrow> string" where
  "prefix_String p = addr_String (prefix_addr p) @ ''/'' @ show_int (prefix_bits p)"

text \<open>The audit reason of a denial, or None when the address is not denied outright.\<close>

definition IsUnconditionallyDenied :: "addr \<Rightarrow> string option" where
  "IsUnconditionallyDenied ip0 =
     (let ip = Unmap ip0 in
      if \<not> IsValid ip then Some ''invalid address''
      else if ip = metadataIP then Some ''cloud metadata endpoint (link-local, T9)''
      else if IsLoopback ip then Some ''loopback''
      else if IsUnspecified ip then Some ''unspecified address''
      else if IsLinkLocalUnicast ip \<or> IsLinkLocalMulticast ip then Some ''link-local''
      else if IsMulticast ip then Some ''multicast''
      else if IsInterfaceLocalMulticast ip then Some ''interface-local multicast''
      else if IsPrivate ip then Some ''private (RFC1918/ULA)''
      else (case find (\<lambda>p. Contains p ip) deniedPrefixes of
              Some p \<Rightarrow> Some (''reserved/special-use range '' @ prefix_String p)
            | None \<Rightarrow> None))"

section \<open>Rules\<close>

definition dns_label :: rexp where
  "dns_label = RSeq (RCls lower_alnum)
     (ROpt (RSeq (RStar (RCls (lower_alnum @ [(CHR ''-'', CHR ''-'')]))) (RCls lower_alnum)))"

definition hostnameRe :: rexp where
  "hostnameRe = RSeq dns_label (RPlus (RSeq (RChr CHR ''.'') dns_label))"

record nameRule =
  nr_exact :: string
  nr_suffix :: string
  nr_port :: int
  nr_wildcard :: bool

record netRule =
  nt_prefix :: prefix
  nt_port :: int

text \<open>A nil grants map and an empty one are the same set.\<close>

record Allowlist =
  al_names :: "nameRule list"
  al_nets :: "netRule list"
  al_source :: "string list"
  al_grants :: "(addr \<times> int) set"

definition empty_Allowlist :: Allowlist where
  "empty_Allowlist = \<lparr>al_names = [], al_nets = [], al_source = [], al_grants = {}\<rparr>"

definition portOK :: "int \<Rightarrow> int \<Rightarrow> bool" where
  "portOK rulePort reqPort = (rulePort = 0 \<or> rulePort = reqPort)"

definition nameRule_matches :: "nameRule \<Rightarrow> string \<Rightarrow> bool" where
  "nameRule_matches r host =
     (if nr_wildcard r then has_suffix host (nr_suffix r) \<and> length host > length (nr_suffix r)
      else host = nr_exact r)"

section \<open>Compilation\<close>

definition splitOptionalPort :: "string \<Rightarrow> (string \<times> int) result" where
  "splitOptionalPort raw =
     (case cut CHR '':'' raw of
        None \<Rightarrow> Inr (raw, 0)
      | Some (host, portStr) \<Rightarrow>
          if CHR '':'' \<in> set portStr then Inl (Errorf ''malformed host:port'')
          else (case atoi portStr of
                  None \<Rightarrow> Inl (Errorf ''invalid port'')
                | Some port \<Rightarrow> if port < 1 \<or> port > 65535 then Inl (Errorf ''invalid port'')
                               else Inr (host, port)))"

definition addName :: "Allowlist \<Rightarrow> string \<Rightarrow> int \<Rightarrow> Allowlist result" where
  "addName al host port =
     (case cut_prefix host ''*.'' of
        Some suffix \<Rightarrow>
          if suffix = [] \<or> \<not> matches hostnameRe suffix
          then Inl (Errorf ''wildcard must name a domain (e.g. *.example.com), not match-all'')
          else Inr (al\<lparr>al_names := al_names al @
                 [\<lparr>nr_exact = [], nr_suffix = CHR ''.'' # suffix, nr_port = port, nr_wildcard = True\<rparr>]\<rparr>)
      | None \<Rightarrow>
          if \<not> matches hostnameRe host then Inl (Errorf ''not a valid hostname'')
          else Inr (al\<lparr>al_names := al_names al @
                 [\<lparr>nr_exact = host, nr_suffix = [], nr_port = port, nr_wildcard = False\<rparr>]\<rparr>))"

definition add_net :: "Allowlist \<Rightarrow> prefix \<Rightarrow> int \<Rightarrow> Allowlist" where
  "add_net al p port = al\<lparr>al_nets := al_nets al @ [\<lparr>nt_prefix = p, nt_port = port\<rparr>]\<rparr>"

definition add_entry :: "Allowlist \<Rightarrow> string \<Rightarrow> Allowlist result" where
  "add_entry al raw =
     (if raw = [] then Inl (Errorf ''empty entry'')
      else if CHR ''/'' \<in> set raw then
        (case ParsePrefix raw of
           None \<Rightarrow> Inl (Errorf ''invalid CIDR'')
         | Some p \<Rightarrow> Inr (add_net al (Masked p) 0))
      else (case ParseAddr raw of
        Some ip \<Rightarrow> Inr (add_net al (PrefixFrom ip (int (BitLen ip))) 0)
      | None \<Rightarrow>
          bind_result (splitOptionalPort raw) (\<lambda>(host, port).
            case ParseAddr host of
              Some ip \<Rightarrow> Inr (add_net al (PrefixFrom ip (int (BitLen ip))) port)
            | None \<Rightarrow> addName al host port)))"

fun compile_loop :: "Allowlist \<Rightarrow> string list \<Rightarrow> Allowlist result" where
  "compile_loop al [] = Inr al"
| "compile_loop al (raw # rest) =
     (case add_entry al raw of
        Inl e \<Rightarrow> Inl (Wrap raw e)
      | Inr al' \<Rightarrow> compile_loop al' rest)"

definition Compile :: "string list \<Rightarrow> Allowlist result" where
  "Compile entries =
     bind_result (compile_loop empty_Allowlist entries) (\<lambda>al. Inr (al\<lparr>al_source := entries\<rparr>))"

section \<open>Queries\<close>

definition Rules :: "Allowlist \<Rightarrow> string list" where
  "Rules al = al_source al"

definition Entries :: "Allowlist \<Rightarrow> int" where
  "Entries al = int (length (al_names al) + length (al_nets al))"

definition fold_host :: "string \<Rightarrow> string" where
  "fold_host host = to_lower (trim_suffix host ''.'')"

definition AllowsName :: "Allowlist \<Rightarrow> string \<Rightarrow> int \<Rightarrow> bool" where
  "AllowsName al host port =
     list_ex (\<lambda>r. nameRule_matches r (fold_host host) \<and> portOK (nr_port r) port) (al_names al)"

definition HasName :: "Allowlist \<Rightarrow> string \<Rightarrow> bool" where
  "HasName al host = list_ex (\<lambda>r. nameRule_matches r (fold_host host)) (al_names al)"

definition isGranted :: "Allowlist \<Rightarrow> addr \<Rightarrow> int \<Rightarrow> bool" where
  "isGranted al ip port = ((Unmap ip, port) \<in> al_grants al)"

definition AllowsIP :: "Allowlist \<Rightarrow> addr \<Rightarrow> int \<Rightarrow> bool" where
  "AllowsIP al ip0 port =
     (let ip = Unmap ip0 in
      list_ex (\<lambda>r. Contains (nt_prefix r) ip \<and> portOK (nt_port r) port) (al_nets al)
      \<or> isGranted al ip port)"

section \<open>Live grants and live policy changes\<close>

definition GrantIP :: "Allowlist \<Rightarrow> addr \<Rightarrow> int \<Rightarrow> Allowlist result" where
  "GrantIP al ip port =
     (if \<not> IsValid ip then Inl (Errorf ''egress grant: invalid ip'')
      else if port < 1 \<or> port > 65535 then Inl (Errorf ''egress grant: invalid port'')
      else Inr (al\<lparr>al_grants := insert (Unmap ip, port) (al_grants al)\<rparr>))"

definition RevokeGrants :: "Allowlist \<Rightarrow> Allowlist" where
  "RevokeGrants al = al\<lparr>al_grants := {}\<rparr>"

definition SetRules :: "Allowlist \<Rightarrow> string list \<Rightarrow> Allowlist result" where
  "SetRules al entries =
     (case Compile entries of
        Inl e \<Rightarrow> Inl (Wrap ''egress policy'' e)
      | Inr next \<Rightarrow> Inr (al\<lparr>al_names := al_names next, al_nets := al_nets next,
                            al_source := al_source next, al_grants := {}\<rparr>))"

section \<open>Established flows\<close>

text \<open>
  A tracked flow is a pair of connections; the registry maps a flow's identity to
  the pair. \<open>CloseAll\<close> returns the connections it closes.
\<close>

record FlowRegistry =
  fr_conns :: "(nat \<times> nat \<times> nat) list"
  fr_next :: nat

definition NewFlowRegistry :: FlowRegistry where
  "NewFlowRegistry = \<lparr>fr_conns = [], fr_next = 0\<rparr>"

definition Track :: "FlowRegistry \<Rightarrow> nat \<Rightarrow> nat \<Rightarrow> FlowRegistry \<times> nat" where
  "Track r a b = (r\<lparr>fr_conns := (fr_next r, a, b) # fr_conns r, fr_next := Suc (fr_next r)\<rparr>, fr_next r)"

definition release :: "FlowRegistry \<Rightarrow> nat \<Rightarrow> FlowRegistry" where
  "release r k = r\<lparr>fr_conns := filter (\<lambda>(i, _). i \<noteq> k) (fr_conns r)\<rparr>"

definition CloseAll :: "FlowRegistry \<Rightarrow> FlowRegistry \<times> nat list \<times> int" where
  "CloseAll r = (r\<lparr>fr_conns := []\<rparr>, concat (map (\<lambda>(_, a, b). [a, b]) (fr_conns r)),
     int (length (fr_conns r)))"

definition Flows_Len :: "FlowRegistry \<Rightarrow> int" where
  "Flows_Len r = int (length (fr_conns r))"

section \<open>What the policy in force is\<close>

text \<open>
  The abstract policy: the entries last set and the grants approved since. A
  failed operation leaves both sides as they were.
\<close>

datatype policy_op = SetOp "string list" | GrantOp addr int | RevokeOp

definition keep_on_error :: "'a \<Rightarrow> 'a result \<Rightarrow> 'a" where
  "keep_on_error old r = (case r of Inl _ \<Rightarrow> old | Inr new \<Rightarrow> new)"

fun allowlist_step :: "policy_op \<Rightarrow> Allowlist \<Rightarrow> Allowlist" where
  "allowlist_step (SetOp es) al = keep_on_error al (SetRules al es)"
| "allowlist_step (GrantOp ip port) al = keep_on_error al (GrantIP al ip port)"
| "allowlist_step RevokeOp al = RevokeGrants al"

record policy_spec =
  ps_entries :: "string list"
  ps_grants :: "(addr \<times> int) set"

definition valid_grant :: "addr \<Rightarrow> int \<Rightarrow> bool" where
  "valid_grant ip port = (IsValid ip \<and> 1 \<le> port \<and> port \<le> 65535)"

fun spec_step :: "policy_op \<Rightarrow> policy_spec \<Rightarrow> policy_spec" where
  "spec_step (SetOp es) sp =
     (case Compile es of Inl _ \<Rightarrow> sp | Inr _ \<Rightarrow> \<lparr>ps_entries = es, ps_grants = {}\<rparr>)"
| "spec_step (GrantOp ip port) sp =
     (if valid_grant ip port then sp\<lparr>ps_grants := insert (Unmap ip, port) (ps_grants sp)\<rparr> else sp)"
| "spec_step RevokeOp sp = sp\<lparr>ps_grants := {}\<rparr>"

definition implements :: "Allowlist \<Rightarrow> policy_spec \<Rightarrow> bool" where
  "implements al sp \<longleftrightarrow>
     (\<exists>base. Compile (ps_entries sp) = Inr base \<and> al = base\<lparr>al_grants := ps_grants sp\<rparr>)"

lemma add_entry_grants: "add_entry al raw = Inr al' \<Longrightarrow> al_grants al' = al_grants al"
  by (auto simp: add_entry_def addName_def add_net_def split: if_splits option.splits)

lemma compile_loop_grants: "compile_loop al es = Inr al' \<Longrightarrow> al_grants al' = al_grants al"
  by (induction al es rule: compile_loop.induct) (auto split: sum.splits dest: add_entry_grants)

lemma Compile_facts:
  "Compile es = Inr al \<Longrightarrow> al_grants al = {} \<and> al_source al = es"
  by (auto simp: Compile_def empty_Allowlist_def dest!: compile_loop_grants)

lemma SetRules_Inr: "SetRules al es = Inr al' \<longleftrightarrow> Compile es = Inr al'"
proof -
  have "Compile es = Inr nx \<Longrightarrow>
      al\<lparr>al_names := al_names nx, al_nets := al_nets nx, al_source := al_source nx, al_grants := {}\<rparr> = nx"
    for nx using Compile_facts[of es nx] by simp
  then show ?thesis by (auto simp: SetRules_def split: sum.splits)
qed

interpretation live_policy: simulation allowlist_step spec_step implements
proof unfold_locales
  fix al sp x
  assume "implements al sp"
  then obtain base where b: "Compile (ps_entries sp) = Inr base" "al = base\<lparr>al_grants := ps_grants sp\<rparr>"
    by (auto simp: implements_def)
  show "implements (allowlist_step x al) (spec_step x sp)"
  proof (cases x)
    case (SetOp es)
    show ?thesis
    proof (cases "Compile es")
      case (Inl e)
      then show ?thesis using SetOp b by (auto simp: keep_on_error_def SetRules_def implements_def)
    next
      case (Inr new)
      then have "SetRules al es = Inr new" by (simp add: SetRules_Inr)
      then show ?thesis using SetOp Inr Compile_facts[OF Inr]
        by (auto simp: keep_on_error_def implements_def intro!: exI[of _ new])
    qed
  next
    case (GrantOp ip port)
    then show ?thesis using b
      by (auto simp: keep_on_error_def GrantIP_def valid_grant_def implements_def)
  next
    case RevokeOp
    then show ?thesis using b by (auto simp: RevokeGrants_def implements_def)
  qed
qed

section \<open>Where name rules come from\<close>

text \<open>A rule is justified by an entry: the entry starts with the domain it names.\<close>

definition rule_from :: "string \<Rightarrow> nameRule \<Rightarrow> bool" where
  "rule_from e r \<longleftrightarrow> (\<exists>d. matches hostnameRe d \<and>
     (if nr_wildcard r then nr_suffix r = CHR ''.'' # d \<and> has_prefix e (''*.'' @ d)
      else nr_exact r = d \<and> has_prefix e d))"

lemma splitOptionalPort_prefix: "splitOptionalPort raw = Inr (host, port) \<Longrightarrow> has_prefix raw host"
  by (auto simp: splitOptionalPort_def cut_Some has_prefix_iff split: option.splits if_splits)

lemma add_entry_names:
  "add_entry al raw = Inr al' \<Longrightarrow> r \<in> set (al_names al') \<Longrightarrow> r \<in> set (al_names al) \<or> rule_from raw r"
  by (auto simp: add_entry_def addName_def add_net_def rule_from_def has_prefix_iff cut_prefix_Some
      dest!: splitOptionalPort_prefix split: if_splits option.splits) 

lemma compile_loop_names:
  "compile_loop al es = Inr al' \<Longrightarrow> r \<in> set (al_names al') \<Longrightarrow>
     r \<in> set (al_names al) \<or> (\<exists>e \<in> set es. rule_from e r)"
proof (induction al es rule: compile_loop.induct)
  case (2 al raw rest)
  then show ?case using add_entry_names[of al raw _ r] by (fastforce split: sum.splits)
qed simp

section \<open>The denied IPv4 ranges as intervals\<close>

definition denied_v4_ranges :: "(int \<times> int) list" where
  "denied_v4_ranges = [(0x00000000, 0x00FFFFFF), (0x0A000000, 0x0AFFFFFF), (0x64400000, 0x647FFFFF),
     (0x7F000000, 0x7FFFFFFF), (0xA9FE0000, 0xA9FEFFFF), (0xAC100000, 0xAC1FFFFF),
     (0xC0000000, 0xC00000FF), (0xC0000200, 0xC00002FF), (0xC0A80000, 0xC0A8FFFF),
     (0xC6120000, 0xC613FFFF), (0xC6336400, 0xC63364FF), (0xCB007100, 0xCB0071FF),
     (0xE0000000, 0xFFFFFFFF)]"

lemma uint_drop_bit32: "uint (drop_bit n w) = uint w div 2 ^ n" for w :: "32 word"
proof -
  have "uint (drop_bit n w) = drop_bit n (take_bit 32 (uint w))" by (simp only: unsigned_drop_bit_eq) simp
  also have "take_bit 32 (uint w) = uint w" using uint_lt2p[of w] by (simp add: take_bit_int_eq_self)
  finally show ?thesis by (simp add: drop_bit_eq_div)
qed

lemma octet_eq: "octet w i = of_int c \<longleftrightarrow> uint w div 2 ^ (24 - 8 * i) mod 256 = c" if "0 \<le> c" "c < 256"
proof -
  have "octet w i = of_int c \<longleftrightarrow> uint (octet w i) = uint (of_int c :: 32 word)"
    by (simp add: word_uint_eq_iff)
  also have "uint (of_int c :: 32 word) = c" using that by (simp add: uint_word_of_int)
  finally show ?thesis by (simp add: uint_octet)
qed

lemma octet_nibble: "octet w i AND 0xf0 = of_int (16 * c) \<longleftrightarrow> uint w div 2 ^ (24 - 8 * i) mod 256 div 16 = c"
  if "0 \<le> c" "c < 16"
proof -
  let ?x = "uint (octet w i)"
  have nib: "list_all (\<lambda>x::int. x AND 0xf0 = 16 * (x div 16)) [0..255]" by code_simp
  have "?x \<in> set [0..255]" using octet_range[of w i] by simp
  then have x: "?x AND 0xf0 = 16 * (?x div 16)" using nib unfolding list_all_iff by blast
  have "octet w i AND 0xf0 = of_int (16 * c) \<longleftrightarrow> uint (octet w i AND 0xf0) = uint (of_int (16 * c) :: 32 word)"
    by (simp add: word_uint_eq_iff)
  also have "uint (of_int (16 * c) :: 32 word) = 16 * c" using that unfolding uint_word_of_int by simp
  also have "uint (octet w i AND 0xf0) = ?x AND 0xf0" by (simp add: unsigned_and_eq)
  finally show ?thesis using x by (simp add: uint_octet)
qed

lemma Contains_v4: "0 \<le> n \<Longrightarrow> n \<le> 32 \<Longrightarrow>
  Contains (Prefix (V4 p) n) (V4 w) \<longleftrightarrow> uint w div 2 ^ (32 - nat n) = uint p div 2 ^ (32 - nat n)"
  unfolding Contains.simps drop_bit_xor_zero by (simp add: word_uint_eq_iff uint_drop_bit32)

lemma Contains_v46 [simp]: "\<not> Contains (Prefix (V6 p z) n) (V4 w)" "\<not> Contains (Prefix (V4 q) n) (V6 v y)"
  by simp_all

lemma digit_pair: "0 \<le> e \<Longrightarrow> e < k \<Longrightarrow> 0 \<le> d \<Longrightarrow> d < k \<Longrightarrow> a = c \<and> e = d \<longleftrightarrow> k * a + e = k * c + d"
  for a c d e k :: int
proof -
  assume *: "0 \<le> e" "e < k" "0 \<le> d" "d < k"
  have m: "(k * a + e) mod k = e" "(k * c + d) mod k = d" using * by simp_all
  have "k * a + e = k * c + d \<Longrightarrow> e = d" using m by metis
  then show ?thesis using * by auto
qed

lemma v4_tests:
  fixes w :: "32 word"
  defines "n \<equiv> uint w"
  shows "V4 w = metadataIP \<longleftrightarrow> n = 0xA9FEA9FE"
    "IsLoopback (V4 w) \<longleftrightarrow> n div 2 ^ 24 = 127"
    "IsUnspecified (V4 w) \<longleftrightarrow> n = 0"
    "IsLinkLocalUnicast (V4 w) \<longleftrightarrow> n div 2 ^ 16 = 0xA9FE"
    "IsMulticast (V4 w) \<longleftrightarrow> n div 2 ^ 28 = 0xE"
    "IsLinkLocalMulticast (V4 w) \<longrightarrow> n div 2 ^ 28 = 0xE"
    "IsPrivate (V4 w) \<longleftrightarrow> n div 2 ^ 24 = 10 \<or> n div 2 ^ 20 = 0xAC1 \<or> n div 2 ^ 16 = 0xC0A8"
proof -
  have r: "0 \<le> n" "n < 4294967296" unfolding n_def using uint_lt2p[of w] by simp_all
  have o: "octet w 0 = 127 \<longleftrightarrow> n div 2 ^ 24 mod 256 = 127" "octet w 0 = 169 \<longleftrightarrow> n div 2 ^ 24 mod 256 = 169"
    "octet w 1 = 254 \<longleftrightarrow> n div 2 ^ 16 mod 256 = 254" "octet w 0 = 224 \<longleftrightarrow> n div 2 ^ 24 mod 256 = 224"
    "octet w 0 = 10 \<longleftrightarrow> n div 2 ^ 24 mod 256 = 10" "octet w 0 = 172 \<longleftrightarrow> n div 2 ^ 24 mod 256 = 172"
    "octet w 0 = 192 \<longleftrightarrow> n div 2 ^ 24 mod 256 = 192" "octet w 1 = 168 \<longleftrightarrow> n div 2 ^ 16 mod 256 = 168"
    using octet_eq[of 127 w 0] octet_eq[of 169 w 0] octet_eq[of 254 w 1] octet_eq[of 224 w 0]
      octet_eq[of 10 w 0] octet_eq[of 172 w 0] octet_eq[of 192 w 0] octet_eq[of 168 w 1]
    by (simp_all add: n_def)
  have nib: "octet w 1 AND 0xf0 = 16 \<longleftrightarrow> n div 2 ^ 16 mod 256 div 16 = 1"
    "octet w 0 AND 0xf0 = 0xe0 \<longleftrightarrow> n div 2 ^ 24 mod 256 div 16 = 14"
    using octet_nibble[of 1 w 1] octet_nibble[of 14 w 0] by (simp_all add: n_def)
  define a b where "a = n div 16777216" and "b = n div 65536 mod 256"
  have d: "n div 16777216 = n div 65536 div 256" "n div 1048576 = n div 65536 div 16"
    "n div 268435456 = n div 16777216 div 16"
    by (simp_all flip: zdiv_zmult2_eq)
  have "a \<le> 4294967295 div 16777216" unfolding a_def using r by (intro zdiv_mono1) simp_all
  then have "a < 256" by simp
  moreover have "0 \<le> a" unfolding a_def using r by simp
  moreover have q: "n div 65536 = 256 * a + b"
    unfolding a_def b_def d(1) by (rule mult_div_mod_eq[symmetric])
  moreover have "0 \<le> b" "b < 256" unfolding b_def by simp_all
  moreover have "n div 1048576 = 16 * a + b div 16" unfolding d(2) q by simp
  moreover have "n div 268435456 = a div 16" unfolding d(3) a_def by simp
  ultimately have ab: "0 \<le> a" "a < 256" "0 \<le> b" "b < 256" "n div 65536 = 256 * a + b"
    "n div 1048576 = 16 * a + b div 16" "n div 16777216 = a" "n div 268435456 = a div 16"
    using a_def by blast+
  show "V4 w = metadataIP \<longleftrightarrow> n = 0xA9FEA9FE"
    by (simp add: metadataIP_def n_def word_uint_eq_iff)
  show "IsLoopback (V4 w) \<longleftrightarrow> n div 2 ^ 24 = 127" using r by (simp add: o)
  show "IsUnspecified (V4 w) \<longleftrightarrow> n = 0" by (simp add: IsUnspecified_def n_def word_uint_eq_iff)
  show "IsLinkLocalUnicast (V4 w) \<longleftrightarrow> n div 2 ^ 16 = 0xA9FE" using ab(1-4) by (simp add: o ab(5-) del: One_nat_def) presburger
  show "IsMulticast (V4 w) \<longleftrightarrow> n div 2 ^ 28 = 0xE" using ab(1-4) by (simp add: nib ab(5-))
  show "IsLinkLocalMulticast (V4 w) \<longrightarrow> n div 2 ^ 28 = 0xE" using ab(1-4) by (simp add: o ab(5-) del: One_nat_def)
  show "IsPrivate (V4 w) \<longleftrightarrow> n div 2 ^ 24 = 10 \<or> n div 2 ^ 20 = 0xAC1 \<or> n div 2 ^ 16 = 0xC0A8"
  proof -
    have e: "0 \<le> b div 16" "b div 16 < 16" using ab(3,4) by (simp_all add: zdiv_mono1)
    have "a = 172 \<and> b div 16 = 1 \<longleftrightarrow> 16 * a + b div 16 = 0xAC1" using digit_pair[of "b div 16" 16 1 a 172] e by simp
    moreover have "a = 192 \<and> b = 168 \<longleftrightarrow> 256 * a + b = 0xC0A8"
      using digit_pair[of b 256 168 a 192] ab(3,4) by simp
    ultimately show ?thesis using ab(1-4) by (simp add: o nib ab(5-) del: One_nat_def)
  qed
qed

lemma div_eq_range: "0 < k \<Longrightarrow> n div k = c \<longleftrightarrow> c * k \<le> n \<and> n \<le> c * k + (k - 1)" for n k c :: int
proof -
  assume k: "0 < k"
  show ?thesis
  proof
    assume "n div k = c"
    then have "n = c * k + n mod k" by auto
    then show "c * k \<le> n \<and> n \<le> c * k + (k - 1)"
      using pos_mod_bound[OF k, of n] pos_mod_sign[OF k, of n] by linarith
  next
    assume "c * k \<le> n \<and> n \<le> c * k + (k - 1)"
    then show "n div k = c" using int_div_pos_eq[of n k c "n - k * c"] by (simp add: mult.commute)
  qed
qed

lemma find_ex: "(find P xs \<noteq> None) = list_ex P xs"
  by (induction xs) auto

lemma prefixes_v4:
  "find (\<lambda>p. Contains p (V4 w)) deniedPrefixes \<noteq> None \<longleftrightarrow>
     uint w div 2 ^ 22 = 0x191 \<or> uint w div 2 ^ 24 = 0 \<or> uint w div 2 ^ 8 = 0xC00000 \<or>
     uint w div 2 ^ 8 = 0xC00002 \<or> uint w div 2 ^ 17 = 0x6309 \<or> uint w div 2 ^ 8 = 0xC63364 \<or>
     uint w div 2 ^ 8 = 0xCB0071 \<or> uint w div 2 ^ 28 = 0xF"
proof -
  have c: "Contains (Prefix (V4 p) 10) (V4 w) \<longleftrightarrow> uint w div 2 ^ 22 = uint p div 2 ^ 22"
    "Contains (Prefix (V4 p) 8) (V4 w) \<longleftrightarrow> uint w div 2 ^ 24 = uint p div 2 ^ 24"
    "Contains (Prefix (V4 p) 24) (V4 w) \<longleftrightarrow> uint w div 2 ^ 8 = uint p div 2 ^ 8"
    "Contains (Prefix (V4 p) 15) (V4 w) \<longleftrightarrow> uint w div 2 ^ 17 = uint p div 2 ^ 17"
    "Contains (Prefix (V4 p) 4) (V4 w) \<longleftrightarrow> uint w div 2 ^ 28 = uint p div 2 ^ 28" for p
    using Contains_v4[of 10 p w] Contains_v4[of 8 p w] Contains_v4[of 24 p w]
      Contains_v4[of 15 p w] Contains_v4[of 4 p w] by simp_all
  show ?thesis by (simp add: find_ex deniedPrefixes_def c del: Contains.simps)
qed

lemma denied_v4_iff:
  "IsUnconditionallyDenied (V4 w) \<noteq> None \<longleftrightarrow>
     (\<exists>(lo, hi) \<in> set denied_v4_ranges. lo \<le> uint w \<and> uint w \<le> hi)"
proof -
  let ?n = "uint w"
  have r: "0 \<le> ?n" "?n < 4294967296" using uint_lt2p[of w] by simp_all
  have "IsUnconditionallyDenied (V4 w) \<noteq> None \<longleftrightarrow>
      V4 w = metadataIP \<or> IsLoopback (V4 w) \<or> IsUnspecified (V4 w) \<or> IsLinkLocalUnicast (V4 w)
      \<or> IsLinkLocalMulticast (V4 w) \<or> IsMulticast (V4 w) \<or> IsPrivate (V4 w)
      \<or> find (\<lambda>p. Contains p (V4 w)) deniedPrefixes \<noteq> None"
    by (simp add: IsUnconditionallyDenied_def Let_def IsValid_def split: option.splits
      del: IsLoopback.simps IsLinkLocalUnicast.simps IsLinkLocalMulticast.simps IsMulticast.simps IsPrivate.simps)
  also have "\<dots> \<longleftrightarrow> ?n = 0xA9FEA9FE \<or> ?n div 2 ^ 24 = 127 \<or> ?n = 0 \<or> ?n div 2 ^ 16 = 0xA9FE
      \<or> ?n div 2 ^ 28 = 0xE \<or> (?n div 2 ^ 24 = 10 \<or> ?n div 2 ^ 20 = 0xAC1 \<or> ?n div 2 ^ 16 = 0xC0A8)
      \<or> (?n div 2 ^ 22 = 0x191 \<or> ?n div 2 ^ 24 = 0 \<or> ?n div 2 ^ 8 = 0xC00000 \<or>
     ?n div 2 ^ 8 = 0xC00002 \<or> ?n div 2 ^ 17 = 0x6309 \<or> ?n div 2 ^ 8 = 0xC63364 \<or>
     ?n div 2 ^ 8 = 0xCB0071 \<or> ?n div 2 ^ 28 = 0xF)"
    using v4_tests[of w] prefixes_v4[of w] by blast
  also have "\<dots> \<longleftrightarrow> (\<exists>(lo, hi) \<in> set denied_v4_ranges. lo \<le> ?n \<and> ?n \<le> hi)" (is "?L = ?R")
  proof
    show "?L \<Longrightarrow> ?R"
      using r by (elim disjE) (simp_all add: div_eq_range denied_v4_ranges_def)
  next
    assume R: ?R
    show ?L
    proof (cases "0xE0000000 \<le> ?n")
      case True
      then have "?n div 2 ^ 28 = 0xE \<or> ?n div 2 ^ 28 = 0xF" using r by (simp add: div_eq_range) linarith
      then show ?thesis by blast
    next
      case False
      then show ?thesis using R unfolding denied_v4_ranges_def
        by (simp only: list.set bex_simps prod.case simp_thms) (elim disjE, simp_all add: div_eq_range)
    qed
  qed
  finally show ?thesis .
qed

section \<open>Properties\<close>

text \<open>
  The unconditional denials cover exactly the loopback, private, link-local
  (with the metadata endpoint), carrier-grade NAT, documentation, benchmarking,
  protocol-assignment, this-network, multicast and reserved IPv4 ranges, and an
  IPv4 address is judged the same in its IPv4-mapped IPv6 form, with any zone.
\<close>

theorem denied_v4_exact:
  "(IsUnconditionallyDenied (V4 w) \<noteq> None \<longleftrightarrow>
      (\<exists>(lo, hi) \<in> set denied_v4_ranges. lo \<le> uint w \<and> uint w \<le> hi))
   \<and> (Unmap (V6 v z) = V4 w \<longrightarrow>
        IsUnconditionallyDenied (V6 v z) = IsUnconditionallyDenied (V4 w))"
proof (intro conjI impI)
  show "IsUnconditionallyDenied (V4 w) \<noteq> None \<longleftrightarrow>
      (\<exists>(lo, hi) \<in> set denied_v4_ranges. lo \<le> uint w \<and> uint w \<le> hi)"
    by (rule denied_v4_iff)
  show "Unmap (V6 v z) = V4 w \<Longrightarrow> IsUnconditionallyDenied (V6 v z) = IsUnconditionallyDenied (V4 w)"
    unfolding IsUnconditionallyDenied_def by (simp del: Unmap.simps(1))
qed

theorem denied_v4_exact_witness:
  "IsUnconditionallyDenied (V4 0x0A000001) \<noteq> None \<and> IsUnconditionallyDenied (V4 0x08080808) = None
   \<and> IsUnconditionallyDenied (V6 0xFFFFA9FEA9FE ''eth0'') = IsUnconditionallyDenied (V4 0xA9FEA9FE)"
proof -
  have "Unmap (V6 0xFFFFA9FEA9FE ''eth0'') = V4 0xA9FEA9FE" by code_simp
  then show ?thesis
    using denied_v4_exact[of "0x0A000001"] denied_v4_exact[of "0x08080808"] denied_v4_exact[of "0xA9FEA9FE" "0xFFFFA9FEA9FE" "''eth0''"]
    by (simp add: denied_v4_ranges_def del: Unmap.simps)
qed

text \<open>
  C15. The policy a sandbox enforces is always the one last set plus the grants
  approved since: after any sequence of live changes, grants and revocations
  (failed ones leave it alone), the entries reported, the names admitted and the
  addresses admitted are those of the last entries that compiled and of exactly
  the (address, port) pairs granted after that.
\<close>

theorem live_policy_refines:
  assumes "Compile es0 = Inr al0"
  shows "\<exists>base. Compile (ps_entries (fold spec_step ops \<lparr>ps_entries = es0, ps_grants = {}\<rparr>)) = Inr base
    \<and> Rules (fold allowlist_step ops al0) = ps_entries (fold spec_step ops \<lparr>ps_entries = es0, ps_grants = {}\<rparr>)
    \<and> (\<forall>host port. AllowsName (fold allowlist_step ops al0) host port = AllowsName base host port)
    \<and> (\<forall>ip port. AllowsIP (fold allowlist_step ops al0) ip port \<longleftrightarrow> AllowsIP base ip port
          \<or> (Unmap ip, port) \<in> ps_grants (fold spec_step ops \<lparr>ps_entries = es0, ps_grants = {}\<rparr>))"
proof -
  let ?al = "fold allowlist_step ops al0" and ?sp = "fold spec_step ops \<lparr>ps_entries = es0, ps_grants = {}\<rparr>"
  have "implements al0 \<lparr>ps_entries = es0, ps_grants = {}\<rparr>"
    using assms(1) Compile_facts[OF assms(1)] by (auto simp: implements_def intro!: exI[of _ al0])
  then have "implements ?al ?sp" by (rule live_policy.run_sim)
  then obtain base where b: "Compile (ps_entries ?sp) = Inr base" "?al = base\<lparr>al_grants := ps_grants ?sp\<rparr>"
    by (auto simp: implements_def)
  show ?thesis using Compile_facts[OF b(1)] unfolding b(2)
    by (intro exI[of _ base]) (auto simp: b(1) Rules_def AllowsName_def AllowsIP_def isGranted_def Let_def)
qed

definition demo_ops :: "policy_op list" where
  "demo_ops = [GrantOp (V4 0x01020304) 443, SetOp [''*'', ''bad entry''],
     SetOp [''*.golang.org'', ''1.1.1.0/24''], GrantOp (V4 0x05060708) 22, GrantOp (V4 0x05060708) 0]"

theorem live_policy_refines_witness:
  "\<exists>al0. Compile [''registry.npmjs.org:443''] = Inr al0
    \<and> Rules (fold allowlist_step demo_ops al0) = [''*.golang.org'', ''1.1.1.0/24'']
    \<and> AllowsIP (fold allowlist_step demo_ops al0) (V6 0xFFFF05060708 []) 22"
proof -
  have "isl (Compile [''registry.npmjs.org:443'']) = False" by code_simp
  then obtain al0 where c: "Compile [''registry.npmjs.org:443''] = Inr al0"
    by (cases "Compile [''registry.npmjs.org:443'']") auto
  have sp: "fold spec_step demo_ops \<lparr>ps_entries = [''registry.npmjs.org:443''], ps_grants = {}\<rparr>
      = \<lparr>ps_entries = [''*.golang.org'', ''1.1.1.0/24''], ps_grants = {(V4 0x05060708, 22)}\<rparr>"
    by code_simp
  have "(Unmap (V6 0xFFFF05060708 []), 22) \<in> {(V4 0x05060708, 22 :: int)}" by code_simp
  then show ?thesis
    using live_policy_refines[OF c, of demo_ops] c unfolding sp policy_spec.simps by blast
qed

text \<open>
  No entry authorizes names it does not spell out: if a compiled policy knows
  a name, some entry starts with a domain of at least two labels such that the
  name, lowercased and without a trailing dot, is that domain or, for a wildcard
  entry, ends in a dot and that domain. There is no match-all.
\<close>

theorem names_come_from_entries:
  assumes "Compile es = Inr al" and "HasName al host"
  shows "\<exists>e \<in> set es. \<exists>d. matches hostnameRe d \<and> CHR ''.'' \<in> set d \<and>
    (has_prefix e d \<and> fold_host host = d
     \<or> has_prefix e (''*.'' @ d) \<and> (\<exists>sub. sub \<noteq> [] \<and> fold_host host = sub @ ''.'' @ d))"
proof -
  from assms(2) obtain r where r: "r \<in> set (al_names al)" "nameRule_matches r (fold_host host)"
    by (auto simp: HasName_def list_ex_iff)
  from assms(1) obtain al' where "compile_loop empty_Allowlist es = Inr al'" "al_names al' = al_names al"
    by (auto simp: Compile_def)
  with r(1) obtain e where e: "e \<in> set es" "rule_from e r"
    using compile_loop_names[of empty_Allowlist es al' r] by (auto simp: empty_Allowlist_def)
  then obtain d where d: "matches hostnameRe d"
    "if nr_wildcard r then nr_suffix r = CHR ''.'' # d \<and> has_prefix e (''*.'' @ d)
     else nr_exact r = d \<and> has_prefix e d" by (auto simp: rule_from_def)
  have "CHR ''.'' \<in> set d" using d(1) unfolding matches_iff_lang hostnameRe_def by auto
  moreover have "nr_wildcard r \<Longrightarrow> \<exists>sub. sub \<noteq> [] \<and> fold_host host = sub @ ''.'' @ d"
    using r(2) d(2) by (auto simp: nameRule_matches_def has_suffix_iff)
  ultimately show ?thesis using e d r(2) by (cases "nr_wildcard r") (auto simp: nameRule_matches_def)
qed

theorem names_come_from_entries_witness:
  "\<exists>al. Compile [''*.golang.org:443''] = Inr al \<and> HasName al ''Proxy.golang.org.''
    \<and> (\<exists>e \<in> set [''*.golang.org:443'']. \<exists>d. matches hostnameRe d \<and> CHR ''.'' \<in> set d \<and>
      (has_prefix e d \<and> fold_host ''Proxy.golang.org.'' = d
       \<or> has_prefix e (''*.'' @ d) \<and> (\<exists>sub. sub \<noteq> [] \<and> fold_host ''Proxy.golang.org.'' = sub @ ''.'' @ d)))"
proof -
  have "(case Compile [''*.golang.org:443''] of Inl _ \<Rightarrow> False | Inr al \<Rightarrow> HasName al ''Proxy.golang.org.'')"
    by code_simp
  then obtain al where c: "Compile [''*.golang.org:443''] = Inr al" "HasName al ''Proxy.golang.org.''"
    by (auto split: sum.splits)
  show ?thesis using names_come_from_entries[OF c] c by blast
qed

end
