(* ===== verification/Go_Netip_Print.thy ===== *)
theory Go_Netip_Print
  imports Go_Netip
begin

text \<open>
  Printing an address and parsing the text back gives the address: IPv4, and IPv6
  with or without a zone and with the longest run of zero groups elided. The audit
  log stores addresses as text and validates them by parsing, so the components
  rest on this.
\<close>

section \<open>Hexadecimal groups\<close>

lemma hex_digit_val: "0 \<le> n \<Longrightarrow> n < 16 \<Longrightarrow> hex_val (hex_digit n) = Some n"
proof -
  assume a: "0 \<le> n" "n < 16"
  have "list_all (\<lambda>n. hex_val (hex_digit n) = Some n) [0, 1, 2, 3, 4, 5, 6, 7, 8, 9, 10, 11, 12, 13, 14, 15]"
    by code_simp
  moreover have "n \<in> set [0, 1, 2, 3, 4, 5, 6, 7, 8, 9, 10, 11, 12, 13, 14, 15]" using a by simp presburger
  ultimately show ?thesis unfolding list_all_iff by blast
qed

lemma hex_val_sep: "\<not> is_hex CHR '':''" "\<not> is_hex CHR ''.''" "\<not> is_hex CHR ''%''"
  by code_simp+

lemma show_hex_ne [simp]: "show_hex n \<noteq> []"
  by (subst show_hex.simps) simp

lemma show_hex_digits: "0 \<le> n \<Longrightarrow> c \<in> set (show_hex n) \<Longrightarrow> is_hex c"
proof (induction n rule: show_hex.induct)
  case (1 n)
  show ?case
  proof (cases "n < 16")
    case True
    then show ?thesis using "1.prems" by (subst (asm) show_hex.simps) (auto simp: is_hex_def hex_digit_val)
  next
    case False
    then have "c \<in> set (show_hex (n div 16)) \<or> c = hex_digit (n mod 16)"
      using "1.prems"(2) by (subst (asm) show_hex.simps) auto
    then show ?thesis using "1.IH"[OF False] "1.prems"(1) hex_digit_val[of "n mod 16"] by (auto simp: is_hex_def)
  qed
qed

lemma hex_value_snoc: "hex_val c = Some v \<Longrightarrow> hex_value (s @ [c]) = hex_value s * 16 + v"
  by (simp add: hex_value_def)

lemma hex_value_show_hex: "0 \<le> n \<Longrightarrow> hex_value (show_hex n) = n"
proof (induction n rule: show_hex.induct)
  case (1 n)
  show ?case
  proof (cases "n < 16")
    case True
    then show ?thesis using 1 by (subst show_hex.simps) (simp add: hex_value_def hex_digit_val)
  next
    case False
    then have "hex_value (show_hex (n div 16)) = n div 16" using 1 by simp
    then show ?thesis using False hex_value_snoc[OF hex_digit_val, of "n mod 16" "show_hex (n div 16)"]
      by (subst show_hex.simps) simp
  qed
qed

lemma length_show_hex: "0 \<le> n \<Longrightarrow> n < 16 ^ Suc k \<Longrightarrow> length (show_hex n) \<le> Suc k"
proof (induction k arbitrary: n)
  case 0
  then show ?case by (subst show_hex.simps) simp
next
  case (Suc k)
  show ?case
  proof (cases "n < 16")
    case True
    then show ?thesis by (subst show_hex.simps) simp
  next
    case False
    have "n div 16 < 16 ^ Suc k" using Suc.prems by auto
    then have "length (show_hex (n div 16)) \<le> Suc k" using Suc by simp
    then show ?thesis using False by (subst show_hex.simps) simp
  qed
qed

definition group16 :: "int \<Rightarrow> bool" where
  "group16 g \<longleftrightarrow> 0 \<le> g \<and> g < 65536"

lemma show_group:
  assumes "group16 g"
  shows "length (show_hex g) \<le> 4" "hex_value (show_hex g) = g" "\<forall>c \<in> set (show_hex g). is_hex c"
  using assms length_show_hex[of g 3] hex_value_show_hex[of g] show_hex_digits[of g]
  by (auto simp: group16_def)

lemma take_group:
  assumes "group16 g" "\<not> is_hex c"
  shows "takeWhile is_hex (show_hex g @ c # s) = show_hex g"
    "dropWhile is_hex (show_hex g @ c # s) = c # s"
    "takeWhile is_hex (show_hex g) = show_hex g"
    "dropWhile is_hex (show_hex g) = []"
  using show_group(3)[OF assms(1)] assms(2)
  by (simp_all add: takeWhile_append2 dropWhile_append2)

section \<open>The group loop\<close>

lemma parse6_last:
  "group16 g \<Longrightarrow> parse6_loop (Suc k) acc el (show_hex g) = Some (acc @ [g], el, [])"
  using show_group(1,2)[of g] by (simp add: Let_def take_group(3,4)[OF _ hex_val_sep(1)])

lemma parse6_more:
  assumes "group16 g" "s = d # s'" "d \<noteq> CHR '':''"
  shows "parse6_loop (Suc k) acc el (show_hex g @ CHR '':'' # s) = parse6_loop k (acc @ [g]) el s"
  using show_group(1,2)[OF assms(1)] assms
  by (simp add: Let_def take_group(1,2)[OF assms(1) hex_val_sep(1)])

lemma parse6_ellipsis:
  assumes "group16 g"
  shows "parse6_loop (Suc k) acc None (show_hex g @ ''::'') = Some (acc @ [g], Some (length acc + 1), [])"
    "s \<noteq> [] \<Longrightarrow> parse6_loop (Suc k) acc None (show_hex g @ ''::'' @ s)
       = parse6_loop k (acc @ [g]) (Some (length acc + 1)) s"
  using show_group(1,2)[OF assms(1)] take_group(1,2)[OF assms(1) hex_val_sep(1)]
  by (simp_all add: Let_def)

definition groups_text :: "int list \<Rightarrow> string" where
  "groups_text gs = join_with CHR '':'' (map show_hex gs)"

lemma groups_text_simps:
  "groups_text [] = []" "groups_text [g] = show_hex g"
  "gs \<noteq> [] \<Longrightarrow> groups_text (g # gs) = show_hex g @ CHR '':'' # groups_text gs"
  by (auto simp: groups_text_def neq_Nil_conv)

lemma groups_text_hd:
  assumes "gs \<noteq> []" "\<forall>g \<in> set gs. group16 g"
  shows "\<exists>d s. groups_text gs = d # s \<and> is_hex d \<and> d \<noteq> CHR '':''"
proof -
  obtain g gs' where gs: "gs = g # gs'" using assms(1) by (cases gs) auto
  obtain d s where d: "show_hex g = d # s" by (cases "show_hex g") auto
  then have "is_hex d" using show_group(3)[of g] assms(2) gs by auto
  then have "d \<noteq> CHR '':''" using hex_val_sep by auto
  with \<open>is_hex d\<close> show ?thesis using d gs by (cases "gs' = []") (auto simp: groups_text_simps)
qed

lemma parse6_groups:
  assumes "gs \<noteq> []" "\<forall>g \<in> set gs. group16 g" "length gs \<le> k"
  shows "parse6_loop k acc el (groups_text gs) = Some (acc @ gs, el, [])"
  using assms
proof (induction gs arbitrary: k acc)
  case (Cons g gs)
  then obtain k' where k: "k = Suc k'" by (cases k) auto
  show ?case
  proof (cases "gs = []")
    case True
    then show ?thesis using Cons.prems k by (simp add: groups_text_simps parse6_last del: parse6_loop.simps)
  next
    case False
    obtain d s where ds: "groups_text gs = d # s" "d \<noteq> CHR '':''"
      using groups_text_hd[OF False] Cons.prems by auto
    have "parse6_loop k acc el (groups_text (g # gs)) = parse6_loop k' (acc @ [g]) el (groups_text gs)"
      unfolding k groups_text_simps(3)[OF False] by (rule parse6_more) (use Cons.prems ds in auto)
    also have "\<dots> = Some (acc @ [g] @ gs, el, [])"
      using Cons.IH[OF False, of k' "acc @ [g]"] Cons.prems k by simp
    finally show ?thesis by simp
  qed
qed simp

lemma parse6_groups_ellipsis:
  assumes "pre \<noteq> []" "\<forall>g \<in> set (pre @ post). group16 g" "length pre + length post \<le> k"
  shows "parse6_loop k acc None (groups_text pre @ ''::'' @ groups_text post)
    = Some (acc @ pre @ post, Some (length acc + length pre), [])"
  using assms
proof (induction pre arbitrary: k acc)
  case (Cons g pre)
  then obtain k' where k: "k = Suc k'" by (cases k) auto
  show ?case
  proof (cases "pre = []")
    case True
    show ?thesis
    proof (cases "post = []")
      case True
      then show ?thesis using \<open>pre = []\<close> Cons.prems k parse6_ellipsis(1)[of g k' acc]
        by (simp add: groups_text_simps del: parse6_loop.simps)
    next
      case False
      then obtain d s where ds: "groups_text post = d # s"
        using groups_text_hd[OF False] Cons.prems by auto
      have "parse6_loop k' (acc @ [g]) (Some (length acc + 1)) (groups_text post)
          = Some ((acc @ [g]) @ post, Some (length acc + 1), [])"
        by (rule parse6_groups[OF False]) (use Cons.prems k in auto)
      then show ?thesis using \<open>pre = []\<close> Cons.prems k ds parse6_ellipsis(2)[of g "groups_text post" k' acc]
        by (simp add: groups_text_simps del: parse6_loop.simps)
    qed
  next
    case False
    obtain d s where ds: "groups_text pre = d # s" "d \<noteq> CHR '':''"
      using groups_text_hd[OF False] Cons.prems by auto
    have "parse6_loop k acc None (groups_text (g # pre) @ ''::'' @ groups_text post)
        = parse6_loop k acc None (show_hex g @ CHR '':'' # (groups_text pre @ ''::'' @ groups_text post))"
      unfolding groups_text_simps(3)[OF False] by simp
    also have "\<dots> = parse6_loop k' (acc @ [g]) None (groups_text pre @ ''::'' @ groups_text post)"
      unfolding k by (rule parse6_more) (use Cons.prems ds in auto)
    also have "\<dots> = Some ((acc @ [g]) @ pre @ post, Some (length (acc @ [g]) + length pre), [])"
      by (rule Cons.IH[OF False]) (use Cons.prems k in auto)
    finally show ?thesis by simp
  qed
qed simp

section \<open>The elided run of zeros\<close>

lemma zeros_at_split: "gs = replicate (zeros_at gs) 0 @ drop (zeros_at gs) gs"
  by (induction gs) auto

lemma zero_run_inv:
  assumes "i \<le> length gs"
  shows "case foldl (\<lambda>(st, n) i. let l = zeros_at (drop i gs) in
      if l \<ge> 2 \<and> l > n then (i, l) else (st, n)) (0, 0) [0..<i] of
    (st, n) \<Rightarrow> n = 0 \<or> gs = take st gs @ replicate n 0 @ drop (st + n) gs"
  using assms
proof (induction i)
  case (Suc i)
  have "gs = take i gs @ replicate (zeros_at (drop i gs)) 0 @ drop (i + zeros_at (drop i gs)) gs"
    using zeros_at_split[of "drop i gs"] append_take_drop_id[of i gs]
    by (metis add.commute drop_drop)
  then show ?case using Suc by (auto simp: Let_def split: prod.splits)
qed simp

lemma zero_run_split:
  "zero_run gs = (st, n) \<Longrightarrow> 0 < n \<Longrightarrow> gs = take st gs @ replicate n 0 @ drop (st + n) gs"
  using zero_run_inv[of "length gs" gs] by (auto simp: zero_run_def)

section \<open>Groups of a word\<close>

lemma uint_group: "uint (drop_bit k w AND 0xffff) = uint w div 2 ^ k mod 65536" for w :: "128 word"
proof -
  have "(0xffff :: 128 word) = mask 16" by (simp add: mask_eq_exp_minus_1)
  then have "drop_bit k w AND 0xffff = take_bit 16 (drop_bit k w)" by (simp add: take_bit_eq_mask)
  then have "uint (drop_bit k w AND 0xffff) = take_bit 16 (uint (drop_bit k w))"
    by (simp only: unsigned_take_bit_eq)
  also have "uint (drop_bit k w) = drop_bit k (uint w)"
    using uint_lt2p[of w] by (simp add: unsigned_drop_bit_eq take_bit_int_eq_self)
  finally show ?thesis by (simp add: take_bit_eq_mod drop_bit_eq_div)
qed

lemma word_groups_div:
  "word_groups w = map (\<lambda>k. uint w div 2 ^ k mod 65536) [112, 96, 80, 64, 48, 32, 16, 0]"
  unfolding word_groups_def by (simp add: uint_group del: push_bit_numeral)

lemma word_groups_16: "g \<in> set (word_groups w) \<Longrightarrow> group16 g"
  by (auto simp: word_groups_div group16_def)

lemma length_word_groups [simp]: "length (word_groups w) = 8"
  by (simp add: word_groups_def)

lemma base65536_step:
  "m = k + 16 \<Longrightarrow> n div 2 ^ m * 65536 + n div 2 ^ k mod 65536 = n div 2 ^ k" for n :: int
proof -
  assume "m = k + 16"
  then have "n div 2 ^ m = n div 2 ^ k div 65536"
    by (simp add: power_add zdiv_zmult2_eq)
  then show ?thesis by simp
qed

lemma groups_word_groups: "groups_word (word_groups w) = w"
proof -
  let ?n = "uint w"
  have "?n div 2 ^ 112 mod 65536 = ?n div 2 ^ 112"
  proof (rule mod_pos_pos_trivial)
    show "?n div 2 ^ 112 < 65536" using uint_lt2p[of w] by simp
  qed (simp add: pos_imp_zdiv_nonneg_iff)
  moreover have "?n div 2 ^ 112 * 65536 + ?n div 2 ^ 96 mod 65536 = ?n div 2 ^ 96"
    "?n div 2 ^ 96 * 65536 + ?n div 2 ^ 80 mod 65536 = ?n div 2 ^ 80"
    "?n div 2 ^ 80 * 65536 + ?n div 2 ^ 64 mod 65536 = ?n div 2 ^ 64"
    "?n div 2 ^ 64 * 65536 + ?n div 2 ^ 48 mod 65536 = ?n div 2 ^ 48"
    "?n div 2 ^ 48 * 65536 + ?n div 2 ^ 32 mod 65536 = ?n div 2 ^ 32"
    "?n div 2 ^ 32 * 65536 + ?n div 2 ^ 16 mod 65536 = ?n div 2 ^ 16"
    "?n div 2 ^ 16 * 65536 + ?n div 2 ^ 0 mod 65536 = ?n div 2 ^ 0"
    by (rule base65536_step; simp)+
  ultimately have "foldl (\<lambda>acc g. acc * 65536 + g) 0 (word_groups w) = ?n div 2 ^ 0"
    unfolding word_groups_div by (simp only: list.map foldl_Cons foldl_Nil mult_zero_left add_0)
  then show ?thesis by (simp add: groups_word_def)
qed

section \<open>Round trip\<close>

definition body6 :: "int list \<Rightarrow> string" where
  "body6 gs = (let (st, n) = zero_run gs in
     if n = 0 then groups_text gs else groups_text (take st gs) @ ''::'' @ groups_text (drop (st + n) gs))"

lemma string6_body: "string6 w z = body6 (word_groups w) @ (if z = [] then [] else ''%'' @ z)"
  by (simp add: string6_def body6_def groups_text_def Let_def split: prod.splits)

text \<open>What \<open>parseIPv6\<close> does with the text in front of the zone.\<close>

definition parse6_body :: "string \<Rightarrow> string \<Rightarrow> addr option" where
  "parse6_body s z =
     (case cut_prefix s ''::'' of
        Some [] \<Rightarrow> Some (V6 0 z)
      | Some r \<Rightarrow> parse6_tail (Some 0) r z
      | None \<Rightarrow> parse6_tail None s z)"

lemma no_ellipsis_prefix:
  assumes "gs \<noteq> []" "\<forall>g \<in> set gs. group16 g"
  shows "cut_prefix (groups_text gs @ s) ''::'' = None"
  using groups_text_hd[OF assms] by (auto simp: cut_prefix_def has_prefix_def)

lemma parse6_body_elided:
  assumes p16: "\<forall>g \<in> set (pre @ post). group16 g" and l8: "length pre + length post < 8"
    and ex: "expand6 (pre @ post) (Some (length pre)) = Some gs"
  shows "parse6_body (groups_text pre @ ''::'' @ groups_text post) z = Some (V6 (groups_word gs) z)"
proof (cases "pre = []")
  case False
  have "parse6_loop 8 [] None (groups_text pre @ ''::'' @ groups_text post)
      = Some (pre @ post, Some (length pre), [])"
    using parse6_groups_ellipsis[OF False p16, of 8 "[]"] l8 by simp
  then show ?thesis
    using no_ellipsis_prefix[OF False, of "''::'' @ groups_text post"] p16 ex
    by (simp add: parse6_body_def parse6_tail_def del: parse6_loop.simps)
next
  case pre: True
  then have b: "cut_prefix (groups_text pre @ ''::'' @ groups_text post) ''::'' = Some (groups_text post)"
    unfolding cut_prefix_Some by (simp add: groups_text_simps)
  show ?thesis
  proof (cases "post = []")
    case True
    then have "gs = replicate 8 0" using ex pre by (simp add: expand6_def)
    moreover have "groups_word (replicate 8 0) = 0" by code_simp
    ultimately show ?thesis using b True by (simp add: parse6_body_def groups_text_simps)
  next
    case False
    have "parse6_loop 8 [] (Some 0) (groups_text post) = Some (post, Some 0, [])"
      using parse6_groups[OF False, of 8 "[]" "Some 0"] p16 l8 by simp
    moreover obtain d s where "groups_text post = d # s"
      using groups_text_hd[OF False] p16 by auto
    ultimately show ?thesis using b ex pre
      by (simp add: parse6_body_def parse6_tail_def del: parse6_loop.simps)
  qed
qed

lemma parse6_body6:
  assumes len: "length gs = 8" and g16: "\<forall>g \<in> set gs. group16 g"
  shows "parse6_body (body6 gs) z = Some (V6 (groups_word gs) z)"
proof -
  obtain st n where zr: "zero_run gs = (st, n)" by (cases "zero_run gs")
  show ?thesis
  proof (cases "n = 0")
    case True
    have "gs \<noteq> []" using len by auto
    then show ?thesis using True zr len g16 no_ellipsis_prefix[of gs "[]"] parse6_groups[of gs 8 "[]" None]
      by (simp add: body6_def parse6_body_def parse6_tail_def expand6_def del: parse6_loop.simps)
  next
    case False
    let ?pre = "take st gs" and ?post = "drop (st + n) gs"
    have sp: "gs = ?pre @ replicate n 0 @ ?post" using zero_run_split[OF zr] False by simp
    have "length gs = length ?pre + (n + length ?post)"
      using arg_cong[OF sp, of length] by (simp only: length_append length_replicate)
    then have n: "n = 8 - (length ?pre + length ?post)" "length ?pre + length ?post < 8"
      using len False by linarith+
    define pre post where "pre = ?pre" and "post = ?post"
    have gs: "pre @ replicate (8 - (length pre + length post)) 0 @ post = gs"
      unfolding pre_def post_def n(1)[symmetric] by (rule sp[symmetric])
    have p16: "\<forall>g \<in> set (pre @ post). group16 g" and l8: "length pre + length post < 8"
      using g16 n(2) by (auto simp: pre_def post_def dest: in_set_takeD in_set_dropD)
    have body: "body6 gs = groups_text pre @ ''::'' @ groups_text post"
      using zr False by (simp add: body6_def pre_def post_def)
    have ex: "expand6 (pre @ post) (Some (length pre)) = Some gs"
      using l8 gs by (simp add: expand6_def)
    show ?thesis unfolding body by (rule parse6_body_elided[OF p16 l8 ex])
  qed
qed

lemma body6_chars:
  assumes "\<forall>g \<in> set gs. group16 g" "c \<in> set (body6 gs)"
  shows "is_hex c \<or> c = CHR '':''"
proof -
  have t: "is_hex c \<or> c = CHR '':''" if "c \<in> set (groups_text xs)" "\<forall>g \<in> set xs. group16 g" for xs
    using that
  proof (induction xs)
    case (Cons g xs)
    then show ?case using show_group(3)[of g] by (cases "xs = []") (auto simp: groups_text_simps)
  qed (simp add: groups_text_simps)
  show ?thesis using assms
    by (auto simp: body6_def split: prod.splits if_splits dest!: t in_set_takeD in_set_dropD)
qed

lemma body6_colon: "length gs = 8 \<Longrightarrow> CHR '':'' \<in> set (body6 gs)"
proof -
  assume l: "length gs = 8"
  then obtain g h gs' where "gs = g # h # gs'" by (cases gs; cases "tl gs") auto
  then have "CHR '':'' \<in> set (groups_text gs)" by (simp add: groups_text_simps)
  then show ?thesis by (cases "zero_run gs") (simp add: body6_def)
qed

lemma parseIPv6_body:
  "CHR ''%'' \<notin> set s \<Longrightarrow> parseIPv6 (s @ (if z = [] then [] else ''%'' @ z)) = parse6_body s z"
  by (cases "z = []") (auto simp: parseIPv6_def parse6_body_def cut_append cut_None[THEN iffD2])

lemma ParseAddr_string6: "ParseAddr (string6 w z) = Some (V6 w z)"
proof -
  let ?gs = "word_groups w" and ?s = "body6 (word_groups w)"
  let ?sep = "\<lambda>c. c \<notin> {CHR ''.'', CHR '':'', CHR ''%''}"
  have ch: "\<forall>c \<in> set ?s. is_hex c \<or> c = CHR '':''" using body6_chars[of ?gs] word_groups_16 by blast
  then have nopct: "CHR ''%'' \<notin> set ?s" using hex_val_sep by auto
  obtain u v where uv: "?s = u @ CHR '':'' # v" "CHR '':'' \<notin> set u"
    using split_list_first[OF body6_colon[OF length_word_groups]] by blast
  have "\<forall>c \<in> set u. ?sep c"
  proof
    fix c assume "c \<in> set u"
    then have "is_hex c" "c \<noteq> CHR '':''" using ch uv by auto
    then show "?sep c" using hex_val_sep by auto
  qed
  then have "dropWhile ?sep (?s @ r) = CHR '':'' # v @ r" for r
    unfolding uv(1) by (simp add: dropWhile_append2)
  then have "ParseAddr (string6 w z) = parseIPv6 (string6 w z)"
    unfolding ParseAddr_def string6_body by simp
  also have "\<dots> = parse6_body ?s z" unfolding string6_body by (rule parseIPv6_body[OF nopct])
  also have "\<dots> = Some (V6 w z)"
    using parse6_body6[of ?gs z] word_groups_16 groups_word_groups[of w] by simp
  finally show ?thesis .
qed

text \<open>Every address but an IPv4-mapped one is what its text parses to.\<close>

lemma ParseAddr_addr_String: "IsValid ip \<Longrightarrow> \<not> Is4In6 ip \<Longrightarrow> ParseAddr (addr_String ip) = Some ip"
  by (cases ip) (simp_all add: IsValid_def ParseAddr_string6)

end
