(* ===== verification/Egress_Authorizer.thy ===== *)
theory Egress_Authorizer
  imports Egress_Allowlist Go_Netip_Print
begin

text \<open>
  The decision path of \<open>internal/sandboxd/egress\<close>: the restricted host resolver
  (\<open>resolver.go\<close>), the flow authorizer of allowlist mode (\<open>authorizer.go\<close>), the one
  of open mode (\<open>openauthorizer.go\<close>) and the answers of the DNS server
  (\<open>dnsserver.go\<close>). The state of one sandbox's egress stack is a record: the shared
  allowlist, the resolver, the audit log and the denials reported to the
  escalation observer. What the host looks up and the clock are arguments of each
  call. The locale \<open>flow_authorizer\<close> states what the data path relies on; both
  authorizers are instances.
\<close>

section \<open>Errors (\<open>errors.go\<close>)\<close>

definition policy_err :: "sentinel \<Rightarrow> err" where
  "policy_err s = Wrap2 (Sentinel s) (Sentinel ErrNetworkPolicyViolation)"

lemma policy_err_is [simp]:
  "errors_is (policy_err s) t \<longleftrightarrow> t = s \<or> t = ErrNetworkPolicyViolation"
  by (auto simp: policy_err_def)

section \<open>Audit log\<close>

text \<open>
  \<open>Store.AppendEgressRecord\<close>: a record that fails validation is refused, and the
  caller only logs the refusal; the row stores the host and the rule as sanitized
  text, which is left out here.
\<close>

definition append_record :: "EgressRecord \<Rightarrow> EgressRecord list \<Rightarrow> EgressRecord list" where
  "append_record r log = (case EgressRecord_Validate r of None \<Rightarrow> log @ [r] | Some _ \<Rightarrow> log)"

section \<open>The resolver (\<open>resolver.go\<close>)\<close>

record ResolverConfig =
  rc_SandboxID :: string
  rc_TaskID :: string
  rc_hasAllowlist :: bool
  rc_hasLookup :: bool
  rc_hasAudit :: bool
  rc_hasClock :: bool
  rc_ResolveAny :: bool
  rc_MaxQueriesPerWindow :: int
  rc_Window :: int
  rc_NXDOMAINBurstThreshold :: int

record Resolver =
  rs_SandboxID :: string
  rs_TaskID :: string
  rs_ResolveAny :: bool
  rs_maxQPW :: int
  rs_window :: int
  rs_nxCap :: int
  rs_windowStart :: time
  rs_queryCount :: int
  rs_nxCount :: int
  rs_nxFlagged :: bool
  rs_pins :: "(string \<times> addr list) list"

definition orDefault :: "int \<Rightarrow> int \<Rightarrow> int" where
  "orDefault v def = (if v > 0 then v else def)"

definition NewResolver :: "ResolverConfig \<Rightarrow> Resolver result" where
  "NewResolver cfg =
     (if \<not> rc_hasAllowlist cfg \<and> \<not> rc_ResolveAny cfg
        then Inl (Errorf ''egress resolver: allowlist must not be nil unless ResolveAny is set'')
      else if \<not> rc_hasLookup cfg then Inl (Errorf ''egress resolver: lookup must not be nil'')
      else if \<not> rc_hasAudit cfg then Inl (Errorf ''egress resolver: auditor must not be nil'')
      else if \<not> rc_hasClock cfg then Inl (Errorf ''egress resolver: clock must not be nil'')
      else if rc_SandboxID cfg = [] then Inl (Errorf ''egress resolver: sandbox id must not be empty'')
      else Inr \<lparr>rs_SandboxID = rc_SandboxID cfg, rs_TaskID = rc_TaskID cfg,
                rs_ResolveAny = rc_ResolveAny cfg,
                rs_maxQPW = orDefault (rc_MaxQueriesPerWindow cfg) 60,
                rs_window = (if rc_Window cfg \<le> 0 then Minute else rc_Window cfg),
                rs_nxCap = orDefault (rc_NXDOMAINBurstThreshold cfg) 10,
                rs_windowStart = zero_time, rs_queryCount = 0, rs_nxCount = 0,
                rs_nxFlagged = False, rs_pins = []\<rparr>)"

definition admit :: "time \<Rightarrow> Resolver \<Rightarrow> bool \<times> Resolver" where
  "admit now r =
     (let r' = (if rs_windowStart r = zero_time \<or> sub_sat now (rs_windowStart r) \<ge> rs_window r
                then r\<lparr>rs_windowStart := now, rs_queryCount := 0, rs_nxCount := 0, rs_nxFlagged := False\<rparr>
                else r)
      in if rs_queryCount r' \<ge> rs_maxQPW r' then (False, r')
         else (True, r'\<lparr>rs_queryCount := rs_queryCount r' + 1\<rparr>))"

definition recordNXDOMAIN :: "Resolver \<Rightarrow> bool \<times> Resolver" where
  "recordNXDOMAIN r =
     (let r' = r\<lparr>rs_nxCount := rs_nxCount r + 1\<rparr>
      in if rs_nxCount r' \<ge> rs_nxCap r' \<and> \<not> rs_nxFlagged r' then (True, r'\<lparr>rs_nxFlagged := True\<rparr>)
         else (False, r'))"

definition pin :: "string \<Rightarrow> addr list \<Rightarrow> Resolver \<Rightarrow> Resolver" where
  "pin name ips r = r\<lparr>rs_pins := (name, ips) # filter (\<lambda>(n, _). n \<noteq> name) (rs_pins r)\<rparr>"

definition Pinned :: "Resolver \<Rightarrow> string \<Rightarrow> addr list option" where
  "Pinned r name = map_of (rs_pins r) name"

definition IsPinned :: "Resolver \<Rightarrow> addr \<Rightarrow> bool" where
  "IsPinned r ip = list_ex (\<lambda>(_, ips). ip \<in> set ips) (rs_pins r)"

definition NXDOMAINBurst :: "Resolver \<Rightarrow> bool" where
  "NXDOMAINBurst r = rs_nxFlagged r"

definition filterDeniedIPs :: "addr list \<Rightarrow> addr list" where
  "filterDeniedIPs ips = filter (\<lambda>ip. IsUnconditionallyDenied ip = None) ips"

record egress_st =
  es_allow :: Allowlist
  es_res :: Resolver
  es_log :: "EgressRecord list"
  es_denials :: "ObservedDenial list"

definition dns_audit :: "string \<Rightarrow> string \<Rightarrow> string \<Rightarrow> egress_st \<Rightarrow> egress_st" where
  "dns_audit decision name rule st = st\<lparr>es_log := append_record
     \<lparr>eg_ID = [], eg_SandboxID = rs_SandboxID (es_res st), eg_TaskID = rs_TaskID (es_res st),
      eg_Decision = decision, eg_Protocol = ''dns'', eg_DestHost = TruncateDestHost name,
      eg_DestIP = [], eg_DestPort = 0, eg_Rule = rule, eg_CreatedAt = zero_time\<rparr> (es_log st)\<rparr>"

text \<open>
  \<open>Resolve\<close>: the answer of the upstream lookup is the argument \<open>upstream\<close>, read only
  where the code calls it.
\<close>

definition Resolve :: "(string \<Rightarrow> addr list result) \<Rightarrow> time \<Rightarrow> string \<Rightarrow> egress_st
    \<Rightarrow> addr list result \<times> egress_st" where
  "Resolve upstream now name st =
     (if \<not> rs_ResolveAny (es_res st) \<and> \<not> HasName (es_allow st) name then
        (Inl (Wrap name (policy_err ErrNameNotAllowlisted)),
         dns_audit EgressDeny name ''dns: name not allowlisted'' st)
      else
        (let (ok, r1) = admit now (es_res st); st1 = st\<lparr>es_res := r1\<rparr> in
         if \<not> ok then
           (Inl (Wrap name (policy_err ErrRateLimited)),
            dns_audit EgressDeny name ''dns: rate limit exceeded'' st1)
         else
           (case upstream name of
              Inl e \<Rightarrow>
                (let st2 = (if errors_is e ErrNXDOMAIN
                            then (let (flag, r2) = recordNXDOMAIN (es_res st1); st' = st1\<lparr>es_res := r2\<rparr>
                                  in if flag then dns_audit EgressDeny name ''dns: nxdomain_burst flagged'' st'
                                     else st')
                            else st1)
                 in (Inl (Wrap name e), dns_audit EgressDeny name ''dns: lookup failed'' st2))
            | Inr ips \<Rightarrow>
                (let allowed = filterDeniedIPs ips
                 in (Inr allowed, dns_audit EgressAllow name ''dns: resolved (pinned)''
                       (st1\<lparr>es_res := pin name allowed (es_res st1)\<rparr>))))))"

section \<open>The authorizer of allowlist mode (\<open>authorizer.go\<close>)\<close>

record Flow =
  fl_Protocol :: string
  fl_Host :: string
  fl_Port :: int

record Decision =
  dc_Allow :: bool
  dc_DestIP :: addr
  dc_Rule :: string

record AuthorizerConfig =
  ac_SandboxID :: string
  ac_TaskID :: string
  ac_OnDenial :: bool

definition tcp_record :: "AuthorizerConfig \<Rightarrow> string \<Rightarrow> Flow \<Rightarrow> addr \<Rightarrow> string \<Rightarrow> EgressRecord" where
  "tcp_record cfg decision f ip rule =
     \<lparr>eg_ID = [], eg_SandboxID = ac_SandboxID cfg, eg_TaskID = ac_TaskID cfg,
      eg_Decision = decision, eg_Protocol = ''tcp'', eg_DestHost = TruncateDestHost (fl_Host f),
      eg_DestIP = (if IsValid ip then addr_String ip else []), eg_DestPort = fl_Port f,
      eg_Rule = rule, eg_CreatedAt = zero_time\<rparr>"

definition tcp_audit :: "AuthorizerConfig \<Rightarrow> string \<Rightarrow> Flow \<Rightarrow> addr \<Rightarrow> string \<Rightarrow> egress_st \<Rightarrow> egress_st" where
  "tcp_audit cfg decision f ip rule st =
     st\<lparr>es_log := append_record (tcp_record cfg decision f ip rule) (es_log st)\<rparr>"

type_synonym verdict = "Decision \<times> err option"

definition allow :: "AuthorizerConfig \<Rightarrow> Flow \<Rightarrow> addr \<Rightarrow> string \<Rightarrow> egress_st \<Rightarrow> verdict \<times> egress_st" where
  "allow cfg f ip rule st =
     ((\<lparr>dc_Allow = True, dc_DestIP = ip, dc_Rule = rule\<rparr>, None), tcp_audit cfg EgressAllow f ip rule st)"

definition deny :: "AuthorizerConfig \<Rightarrow> Flow \<Rightarrow> addr \<Rightarrow> string \<Rightarrow> egress_st \<Rightarrow> verdict \<times> egress_st" where
  "deny cfg f ip rule st =
     (let st1 = tcp_audit cfg EgressDeny f ip rule st;
          st2 = (if ac_OnDenial cfg \<and> IsValid ip
                 then st1\<lparr>es_denials := es_denials st1 @
                        [\<lparr>od_SandboxID = ac_SandboxID cfg, od_TaskID = ac_TaskID cfg, od_DestIP = ip,
                          od_DestPort = fl_Port f, od_Rule = rule\<rparr>]\<rparr>
                 else st1)
      in ((\<lparr>dc_Allow = False, dc_DestIP = InvalidAddr, dc_Rule = rule\<rparr>,
           Some (Wrap (fl_Host f) (policy_err ErrEgressDenied))), st2))"

definition authorizeRawIP :: "AuthorizerConfig \<Rightarrow> Flow \<Rightarrow> addr \<Rightarrow> egress_st \<Rightarrow> verdict \<times> egress_st" where
  "authorizeRawIP cfg f ip st =
     (case IsUnconditionallyDenied ip of
        Some reason \<Rightarrow> deny cfg f ip (''denied range: '' @ reason) st
      | None \<Rightarrow>
          if AllowsIP (es_allow st) ip (fl_Port f) then allow cfg f ip ''ip allowlisted'' st
          else if IsPinned (es_res st) ip
          then allow cfg f ip ''pinned by a prior allowlisted resolution'' st
          else deny cfg f ip ''raw-ip not allowlisted (host-side DNS bypassed)'' st)"

definition authorizeName :: "(string \<Rightarrow> addr list result) \<Rightarrow> time \<Rightarrow> AuthorizerConfig \<Rightarrow> Flow
    \<Rightarrow> egress_st \<Rightarrow> verdict \<times> egress_st" where
  "authorizeName upstream now cfg f st =
     (if \<not> AllowsName (es_allow st) (fl_Host f) (fl_Port f)
      then deny cfg f InvalidAddr ''name/port not allowlisted'' st
      else
        (case Resolve upstream now (fl_Host f) st of
           (Inl e, st1) \<Rightarrow> deny cfg f InvalidAddr ''name resolution refused'' st1
         | (Inr ips, st1) \<Rightarrow>
             (case find (\<lambda>ip. IsUnconditionallyDenied ip = None) (map Unmap ips) of
                Some ip \<Rightarrow> allow cfg f ip ''name allowlisted (pinned)'' st1
              | None \<Rightarrow> deny cfg f InvalidAddr ''name resolved only to denied ranges (rebind)'' st1)))"

definition Authorize :: "(string \<Rightarrow> addr list result) \<Rightarrow> time \<Rightarrow> AuthorizerConfig \<Rightarrow> Flow
    \<Rightarrow> egress_st \<Rightarrow> verdict \<times> egress_st" where
  "Authorize upstream now cfg f st =
     (if fl_Port f < 1 \<or> fl_Port f > 65535 then deny cfg f InvalidAddr ''invalid port'' st
      else if fl_Protocol f \<noteq> ''tcp''
      then deny cfg f InvalidAddr ''non-tcp blocked (quic/udp have no egress path)'' st
      else (case ParseAddr (fl_Host f) of
              Some ip \<Rightarrow> authorizeRawIP cfg f (Unmap ip) st
            | None \<Rightarrow> authorizeName upstream now cfg f st))"

section \<open>The authorizer of open mode (\<open>openauthorizer.go\<close>)\<close>

text \<open>It has no escalation observer, so its denials reach only the log.\<close>

definition open_cfg :: "AuthorizerConfig \<Rightarrow> AuthorizerConfig" where
  "open_cfg cfg = cfg\<lparr>ac_OnDenial := False\<rparr>"

definition Open_Authorize :: "AuthorizerConfig \<Rightarrow> Flow \<Rightarrow> egress_st \<Rightarrow> verdict \<times> egress_st" where
  "Open_Authorize cfg f st =
     (if fl_Port f < 1 \<or> fl_Port f > 65535 then deny (open_cfg cfg) f InvalidAddr ''invalid port'' st
      else if fl_Protocol f \<noteq> ''tcp''
      then deny (open_cfg cfg) f InvalidAddr ''non-tcp blocked (quic/udp have no egress path)'' st
      else (case ParseAddr (fl_Host f) of
              None \<Rightarrow> deny (open_cfg cfg) f InvalidAddr
                        ''open mode connects by address; no host-side resolution'' st
            | Some ip \<Rightarrow> allow (open_cfg cfg) f (Unmap ip) ''open mode: unrestricted egress'' st))"

section \<open>DNS answers (\<open>dnsserver.go\<close>)\<close>

datatype RCode = RCodeSuccess | RCodeRefused | RCodeNameError

datatype QType = TypeA | TypeAAAA | OtherType

record Question =
  q_Name :: string
  q_INET :: bool
  q_Type :: QType

definition rcodeForResolveErr :: "err \<Rightarrow> RCode" where
  "rcodeForResolveErr e =
     (if errors_is e ErrNameNotAllowlisted \<or> errors_is e ErrRateLimited then RCodeRefused
      else RCodeNameError)"

definition answer :: "(string \<Rightarrow> addr list result) \<Rightarrow> time \<Rightarrow> Question \<Rightarrow> egress_st
    \<Rightarrow> (RCode \<times> addr list) \<times> egress_st" where
  "answer upstream now q st =
     (if \<not> q_INET q \<or> (q_Type q \<noteq> TypeA \<and> q_Type q \<noteq> TypeAAAA) then ((RCodeRefused, []), st)
      else (case Resolve upstream now (trim_suffix (q_Name q) ''.'') st of
              (Inl e, st1) \<Rightarrow> ((rcodeForResolveErr e, []), st1)
            | (Inr ips, st1) \<Rightarrow>
                ((RCodeSuccess,
                  filter (\<lambda>ip. (q_Type q = TypeA \<and> Is4 ip) \<or> (q_Type q = TypeAAAA \<and> Is6 ip))
                    (map Unmap ips)), st1)))"

section \<open>Facts\<close>

lemma append_record_cases:
  "append_record r log = log @ [r] \<or> append_record r log = log"
  by (auto simp: append_record_def split: option.splits)

lemma dns_audit_log: "\<exists>pre. es_log (dns_audit dec name rule st) = es_log st @ pre
    \<and> (\<forall>x \<in> set pre. eg_Protocol x = ''dns'')"
proof -
  let ?r = "\<lparr>eg_ID = [], eg_SandboxID = rs_SandboxID (es_res st), eg_TaskID = rs_TaskID (es_res st),
      eg_Decision = dec, eg_Protocol = ''dns'', eg_DestHost = TruncateDestHost name,
      eg_DestIP = [], eg_DestPort = 0, eg_Rule = rule, eg_CreatedAt = zero_time\<rparr>"
  have "es_log (dns_audit dec name rule st) = append_record ?r (es_log st)"
    by (simp add: dns_audit_def)
  moreover have "eg_Protocol ?r = ''dns''" by simp
  ultimately show ?thesis using append_record_cases[of ?r "es_log st"] by fastforce
qed

lemma dns_audit_frame [simp]:
  "es_allow (dns_audit dec name rule st) = es_allow st"
  "es_res (dns_audit dec name rule st) = es_res st"
  "es_denials (dns_audit dec name rule st) = es_denials st"
  by (simp_all add: dns_audit_def)

definition dns_extends :: "egress_st \<Rightarrow> egress_st \<Rightarrow> bool" where
  "dns_extends st st' \<longleftrightarrow> (\<exists>pre. es_log st' = es_log st @ pre \<and> (\<forall>x \<in> set pre. eg_Protocol x = ''dns''))
     \<and> es_allow st' = es_allow st \<and> es_denials st' = es_denials st"

lemma dns_extends_trans: "dns_extends a b \<Longrightarrow> dns_extends b c \<Longrightarrow> dns_extends a c"
  unfolding dns_extends_def by (auto simp: append.assoc)

lemma dns_extends_res: "dns_extends st (st\<lparr>es_res := r\<rparr>)"
  by (simp add: dns_extends_def)

lemma dns_extends_audit: "dns_extends st (dns_audit dec name rule st)"
  using dns_audit_log[of dec name rule st] by (simp add: dns_extends_def)

lemmas dns_extendsI = dns_extends_trans[OF dns_extends_res dns_extends_audit]
  dns_extends_audit dns_extends_res

lemma Resolve_extends: "dns_extends st (snd (Resolve upstream now name st))"
proof -
  obtain ok r1 where a: "admit now (es_res st) = (ok, r1)" by (cases "admit now (es_res st)")
  obtain fl r2 where n: "recordNXDOMAIN r1 = (fl, r2)" by (cases "recordNXDOMAIN r1")
  have b: "dns_extends st (dns_audit d name ru (dns_audit d' name ru' (st\<lparr>es_res := r\<rparr>)))" for d d' ru ru' r
    by (rule dns_extends_trans[OF dns_extendsI(1) dns_extends_audit])
  show ?thesis
    by (simp add: Resolve_def a n b dns_extendsI Let_def split: sum.splits)
qed

text \<open>An answer names only addresses that are not denied, and only for a name the policy knows.\<close>

lemma Resolve_Inr:
  assumes "Resolve upstream now name st = (Inr ips, st')"
  shows "\<exists>up. upstream name = Inr up \<and> ips = filterDeniedIPs up"
    "rs_ResolveAny (es_res st) \<or> HasName (es_allow st) name"
    "rs_pins (es_res st') = (name, ips) # filter (\<lambda>(n, _). n \<noteq> name) (rs_pins (es_res st))"
proof -
  obtain ok r1 where a: "admit now (es_res st) = (ok, r1)" by (cases "admit now (es_res st)")
  have p: "rs_pins r1 = rs_pins (es_res st)"
    using a by (auto simp: admit_def Let_def split: if_splits)
  show "\<exists>up. upstream name = Inr up \<and> ips = filterDeniedIPs up"
    "rs_ResolveAny (es_res st) \<or> HasName (es_allow st) name"
    "rs_pins (es_res st') = (name, ips) # filter (\<lambda>(n, _). n \<noteq> name) (rs_pins (es_res st))"
    using assms p by (auto simp: Resolve_def a Let_def pin_def split: if_splits sum.splits prod.splits)
qed

lemma Resolve_Inl_pins:
  assumes "Resolve upstream now name st = (Inl e, st')"
  shows "rs_pins (es_res st') = rs_pins (es_res st)"
proof -
  obtain ok r1 where a: "admit now (es_res st) = (ok, r1)" by (cases "admit now (es_res st)")
  have p: "rs_pins r1 = rs_pins (es_res st)"
    using a by (auto simp: admit_def Let_def split: if_splits)
  obtain fl r2 where n: "recordNXDOMAIN r1 = (fl, r2)" by (cases "recordNXDOMAIN r1")
  then have "rs_pins r2 = rs_pins r1"
    by (auto simp: recordNXDOMAIN_def Let_def split: if_splits)
  then show ?thesis
    using assms p by (auto simp: Resolve_def a n Let_def split: if_splits sum.splits)
qed

definition ids_ok :: "AuthorizerConfig \<Rightarrow> bool" where
  "ids_ok cfg \<longleftrightarrow> ac_SandboxID cfg \<noteq> [] \<and> validateTaskIDField (ac_TaskID cfg) = None"

lemma tcp_record_valid:
  assumes "dec = EgressAllow \<or> dec = EgressDeny" "\<not> Is4In6 ip"
  shows "EgressRecord_Validate (tcp_record cfg dec f ip rule) = None \<longleftrightarrow>
    ids_ok cfg \<and> 0 \<le> fl_Port f \<and> fl_Port f \<le> 65535"
proof -
  have "dec \<in> set validEgressDecisions" "''tcp'' \<in> set validEgressProtocols"
    using assms(1) by (auto simp: validEgressDecisions_def validEgressProtocols_def)
  moreover have "IsValid ip \<Longrightarrow> ParseAddr (addr_String ip) \<noteq> None"
    using assms(2) by (simp add: ParseAddr_addr_String)
  ultimately show ?thesis
    unfolding EgressRecord_Validate_def andthen_None guard_err_None
    by (simp add: tcp_record_def ids_ok_def length_TruncateDestHost not_less)
qed

lemma tcp_audit_log:
  assumes "dec = EgressAllow \<or> dec = EgressDeny" "\<not> Is4In6 ip" "ids_ok cfg"
    and "0 \<le> fl_Port f" "fl_Port f \<le> 65535"
  shows "es_log (tcp_audit cfg dec f ip rule st) = es_log st @ [tcp_record cfg dec f ip rule]"
  using tcp_record_valid[OF assms(1,2), of cfg f rule] assms(3-)
  by (simp add: tcp_audit_def append_record_def)

lemma deny_log:
  "es_log (snd (deny cfg f ip rule st)) = es_log (tcp_audit cfg EgressDeny f ip rule st)"
  "es_allow (snd (deny cfg f ip rule st)) = es_allow st"
  "es_res (snd (deny cfg f ip rule st)) = es_res st"
  "fst (deny cfg f ip rule st) = (\<lparr>dc_Allow = False, dc_DestIP = InvalidAddr, dc_Rule = rule\<rparr>,
     Some (Wrap (fl_Host f) (policy_err ErrEgressDenied)))"
  by (simp_all add: deny_def Let_def tcp_audit_def)

lemma allow_log:
  "es_log (snd (allow cfg f ip rule st)) = es_log (tcp_audit cfg EgressAllow f ip rule st)"
  "es_allow (snd (allow cfg f ip rule st)) = es_allow st"
  "es_res (snd (allow cfg f ip rule st)) = es_res st"
  "fst (allow cfg f ip rule st) = (\<lparr>dc_Allow = True, dc_DestIP = ip, dc_Rule = rule\<rparr>, None)"
  by (simp_all add: allow_def tcp_audit_def)

text \<open>
  The shape of every verdict: it ends in an allow or a deny of the same flow, after
  DNS activity only. The rest of the theory argues from this form.
\<close>

definition settled :: "AuthorizerConfig \<Rightarrow> Flow \<Rightarrow> egress_st \<Rightarrow> verdict \<times> egress_st \<Rightarrow> bool" where
  "settled cfg f st res \<longleftrightarrow> (\<exists>ip rule st1. \<not> Is4In6 ip \<and> dns_extends st st1 \<and>
     (res = deny cfg f ip rule st1
      \<or> res = allow cfg f ip rule st1 \<and> IsValid ip \<and> fl_Protocol f = ''tcp''
          \<and> 1 \<le> fl_Port f \<and> fl_Port f \<le> 65535))"

lemma settled_deny: "\<not> Is4In6 ip \<Longrightarrow> dns_extends st st1 \<Longrightarrow> settled cfg f st (deny cfg f ip rule st1)"
  by (auto simp: settled_def)

lemma settled_allow:
  "\<not> Is4In6 ip \<Longrightarrow> IsValid ip \<Longrightarrow> dns_extends st st1 \<Longrightarrow> fl_Protocol f = ''tcp'' \<Longrightarrow> 1 \<le> fl_Port f \<Longrightarrow>
     fl_Port f \<le> 65535 \<Longrightarrow> settled cfg f st (allow cfg f ip rule st1)"
  unfolding settled_def by (rule exI[of _ ip], rule exI[of _ rule], rule exI[of _ st1]) simp

lemma dns_extends_refl [simp]: "dns_extends st st"
  by (simp add: dns_extends_def)

lemma not_denied_valid: "IsUnconditionallyDenied ip = None \<Longrightarrow> IsValid (Unmap ip)"
  by (auto simp: IsUnconditionallyDenied_def Let_def split: if_splits)

lemma ParseAddr_valid: "ParseAddr s = Some ip \<Longrightarrow> IsValid ip"
  by (auto simp: ParseAddr_def parseIPv4_def parseIPv6_def parse6_tail_def IsValid_def
      split: list.splits if_splits option.splits prod.splits)

lemma Authorize_settled: "settled cfg f st (Authorize upstream now cfg f st)"
proof -
  have raw: "settled cfg f st (authorizeRawIP cfg f (Unmap ip) st)"
    if "fl_Protocol f = ''tcp''" "1 \<le> fl_Port f" "fl_Port f \<le> 65535" for ip
    using that not_denied_valid[of "Unmap ip"]
    by (auto simp: authorizeRawIP_def intro!: settled_deny settled_allow split: option.splits)
  have name: "settled cfg f st (authorizeName upstream now cfg f st)"
    if "fl_Protocol f = ''tcp''" "1 \<le> fl_Port f" "fl_Port f \<le> 65535"
  proof -
    obtain res st1 where r: "Resolve upstream now (fl_Host f) st = (res, st1)"
      by (cases "Resolve upstream now (fl_Host f) st")
    then have x: "dns_extends st st1" using Resolve_extends[of st upstream now "fl_Host f"] by simp
    have "find (\<lambda>ip. IsUnconditionallyDenied ip = None) (map Unmap ips) = Some ip \<Longrightarrow>
        \<not> Is4In6 ip \<and> IsValid ip" for ips ip
    proof -
      assume "find (\<lambda>ip. IsUnconditionallyDenied ip = None) (map Unmap ips) = Some ip"
      then obtain i where "i < length ips" "ip = Unmap (ips ! i)" "IsUnconditionallyDenied ip = None"
        by (auto simp: find_Some_iff)
      then show "\<not> Is4In6 ip \<and> IsValid ip" using not_denied_valid[of ip] by simp
    qed
    then show ?thesis using x that
      by (auto simp: authorizeName_def r intro!: settled_deny settled_allow split: sum.splits option.splits)
  qed
  show ?thesis
    using raw name by (auto simp: Authorize_def not_less intro!: settled_deny split: option.splits)
qed

lemma Open_settled: "settled (open_cfg cfg) f st (Open_Authorize cfg f st)"
  by (auto simp: Open_Authorize_def not_less intro!: settled_deny settled_allow
      split: option.splits dest!: ParseAddr_valid)

section \<open>What the data path relies on\<close>

text \<open>
  Serving a sequence of flows, each with its own environment (clock and upstream
  answer), collects the verdicts.
\<close>

fun serve :: "('env \<Rightarrow> Flow \<Rightarrow> 'st \<Rightarrow> verdict \<times> 'st) \<Rightarrow> ('env \<times> Flow) list \<Rightarrow> 'st \<Rightarrow> verdict list \<times> 'st" where
  "serve authorize [] st = ([], st)"
| "serve authorize ((e, f) # fs) st =
     (let (v, st1) = authorize e f st; (vs, st2) = serve authorize fs st1 in (v # vs, st2))"

definition decision_text :: "verdict \<Rightarrow> string" where
  "decision_text v = (if dc_Allow (fst v) then EgressAllow else EgressDeny)"

definition tcp_rows :: "EgressRecord list \<Rightarrow> EgressRecord list" where
  "tcp_rows rows = filter (\<lambda>r. eg_Protocol r = ''tcp'') rows"

locale flow_authorizer =
  fixes authorize :: "'env \<Rightarrow> Flow \<Rightarrow> 'st \<Rightarrow> verdict \<times> 'st"
    and rows :: "'st \<Rightarrow> EgressRecord list"
    and ok :: "'env \<Rightarrow> bool"
  assumes verdict_err: "authorize e f st = ((d, er), st') \<Longrightarrow> dc_Allow d \<longleftrightarrow> er = None"
    and refusal: "authorize e f st = ((d, Some x), st') \<Longrightarrow>
      errors_is x ErrEgressDenied \<and> errors_is x ErrNetworkPolicyViolation"
    and tcp_only: "authorize e f st = ((d, er), st') \<Longrightarrow> dc_Allow d \<Longrightarrow>
      fl_Protocol f = ''tcp'' \<and> 1 \<le> fl_Port f \<and> fl_Port f \<le> 65535"
    and audited: "ok e \<Longrightarrow> 0 \<le> fl_Port f \<Longrightarrow> fl_Port f \<le> 65535 \<Longrightarrow> authorize e f st = ((d, er), st') \<Longrightarrow>
      \<exists>r. tcp_rows (rows st') = tcp_rows (rows st) @ [r] \<and> eg_Decision r = decision_text (d, er)
        \<and> eg_DestPort r = fl_Port f \<and> (dc_Allow d \<longrightarrow> ParseAddr (eg_DestIP r) = Some (dc_DestIP d))"
begin

lemma serve_audited:
  assumes "\<forall>(e, f) \<in> set fs. ok e \<and> 0 \<le> fl_Port f \<and> fl_Port f \<le> 65535"
    and "serve authorize fs st = (vs, st')"
  shows "\<exists>new. tcp_rows (rows st') = tcp_rows (rows st) @ new
    \<and> map eg_Decision new = map decision_text vs \<and> map eg_DestPort new = map (fl_Port \<circ> snd) fs"
  using assms
proof (induction fs arbitrary: st vs)
  case Nil
  then show ?case by simp
next
  case (Cons x fs)
  obtain e f where x: "x = (e, f)" by (cases x)
  obtain d er st1 where a: "authorize e f st = ((d, er), st1)" by (metis prod.exhaust)
  obtain vs2 st2 where s: "serve authorize fs st1 = (vs2, st2)" by (cases "serve authorize fs st1")
  have vs: "vs = (d, er) # vs2" "st' = st2" using Cons.prems(2) by (auto simp: x a s)
  obtain r where r: "tcp_rows (rows st1) = tcp_rows (rows st) @ [r]" "eg_Decision r = decision_text (d, er)"
    "eg_DestPort r = fl_Port f"
    using audited[OF _ _ _ a] Cons.prems(1) x by auto
  obtain new where "tcp_rows (rows st2) = tcp_rows (rows st1) @ new"
    "map eg_Decision new = map decision_text vs2" "map eg_DestPort new = map (fl_Port \<circ> snd) fs"
    using Cons.IH[of st1 vs2] s vs(2) Cons.prems(1) by auto
  then have "tcp_rows (rows st') = tcp_rows (rows st) @ (r # new)
      \<and> map eg_Decision (r # new) = map decision_text vs
      \<and> map eg_DestPort (r # new) = map (fl_Port \<circ> snd) (x # fs)"
    using r vs x by simp
  then show ?case by blast
qed

end

lemma settled_audited:
  assumes s: "settled cfg f st ((d, er), st')" and ids: "ids_ok cfg"
    and p: "0 \<le> fl_Port f" "fl_Port f \<le> 65535"
  shows "\<exists>r. tcp_rows (es_log st') = tcp_rows (es_log st) @ [r] \<and> eg_Decision r = decision_text (d, er)
      \<and> eg_DestPort r = fl_Port f \<and> (dc_Allow d \<longrightarrow> ParseAddr (eg_DestIP r) = Some (dc_DestIP d))"
proof -
  from s obtain ip rule st1 where ip: "\<not> Is4In6 ip" and x: "dns_extends st st1"
    and res: "((d, er), st') = deny cfg f ip rule st1
      \<or> ((d, er), st') = allow cfg f ip rule st1 \<and> IsValid ip"
    by (auto simp: settled_def)
  from x obtain pre where pre: "es_log st1 = es_log st @ pre" "\<forall>x \<in> set pre. eg_Protocol x = ''dns''"
    by (auto simp: dns_extends_def)
  then have dns: "tcp_rows (es_log st1) = tcp_rows (es_log st)"
    by (auto simp: tcp_rows_def filter_empty_conv)
  have rows: "tcp_rows (es_log st1 @ [tcp_record cfg dec f ip rule])
      = tcp_rows (es_log st) @ [tcp_record cfg dec f ip rule]" for dec
    using dns by (simp add: tcp_rows_def tcp_record_def)
  from res show ?thesis
  proof (elim disjE conjE)
    assume "((d, er), st') = deny cfg f ip rule st1"
    then have "d = \<lparr>dc_Allow = False, dc_DestIP = InvalidAddr, dc_Rule = rule\<rparr>"
      "es_log st' = es_log st1 @ [tcp_record cfg EgressDeny f ip rule]"
      using deny_log(1,4)[of cfg f ip rule st1] tcp_audit_log[of EgressDeny ip cfg f rule st1] ip ids p
      by (metis fst_conv snd_conv)+
    then show ?thesis using rows[of EgressDeny] by (simp add: decision_text_def tcp_record_def)
  next
    assume "((d, er), st') = allow cfg f ip rule st1" and v: "IsValid ip"
    then have "d = \<lparr>dc_Allow = True, dc_DestIP = ip, dc_Rule = rule\<rparr>"
      "es_log st' = es_log st1 @ [tcp_record cfg EgressAllow f ip rule]"
      using allow_log(1,4)[of cfg f ip rule st1] tcp_audit_log[of EgressAllow ip cfg f rule st1] ip ids p
      by (metis fst_conv snd_conv)+
    then show ?thesis using rows[of EgressAllow] v ip
      by (simp add: decision_text_def tcp_record_def ParseAddr_addr_String)
  qed
qed

lemma settled_verdict:
  assumes "settled cfg f st ((d, er), st')"
  shows "dc_Allow d \<longleftrightarrow> er = None"
    "er = Some x \<Longrightarrow> errors_is x ErrEgressDenied \<and> errors_is x ErrNetworkPolicyViolation"
    "dc_Allow d \<Longrightarrow> fl_Protocol f = ''tcp'' \<and> 1 \<le> fl_Port f \<and> fl_Port f \<le> 65535"
  using assms by (auto simp: settled_def deny_def allow_def Let_def)

text \<open>An environment of allowlist mode: the configuration, the upstream answers, the clock.\<close>

type_synonym auth_env = "AuthorizerConfig \<times> (string \<Rightarrow> addr list result) \<times> time"

definition authorize_in :: "auth_env \<Rightarrow> Flow \<Rightarrow> egress_st \<Rightarrow> verdict \<times> egress_st" where
  "authorize_in = (\<lambda>(cfg, upstream, now). Authorize upstream now cfg)"

interpretation allowlist_mode: flow_authorizer authorize_in es_log "\<lambda>(cfg, _, _). ids_ok cfg"
proof unfold_locales
  fix e :: auth_env and f st d er st' x
  obtain cfg up now where e: "e = (cfg, up, now)" by (cases e)
  have s: "settled cfg f st ((d, er), st')" if "authorize_in e f st = ((d, er), st')" for er
    using that Authorize_settled[of cfg f st up now] by (simp add: authorize_in_def e)
  show "authorize_in e f st = ((d, er), st') \<Longrightarrow> dc_Allow d \<longleftrightarrow> er = None"
    using settled_verdict(1)[OF s] by blast
  show "authorize_in e f st = ((d, Some x), st') \<Longrightarrow>
      errors_is x ErrEgressDenied \<and> errors_is x ErrNetworkPolicyViolation"
    using settled_verdict(2)[OF s] by blast
  show "authorize_in e f st = ((d, er), st') \<Longrightarrow> dc_Allow d \<Longrightarrow>
      fl_Protocol f = ''tcp'' \<and> 1 \<le> fl_Port f \<and> fl_Port f \<le> 65535"
    using settled_verdict(3)[OF s] by blast
  show "(case e of (cfg, _, _) \<Rightarrow> ids_ok cfg) \<Longrightarrow> 0 \<le> fl_Port f \<Longrightarrow> fl_Port f \<le> 65535 \<Longrightarrow>
      authorize_in e f st = ((d, er), st') \<Longrightarrow>
      \<exists>r. tcp_rows (es_log st') = tcp_rows (es_log st) @ [r] \<and> eg_Decision r = decision_text (d, er)
        \<and> eg_DestPort r = fl_Port f \<and> (dc_Allow d \<longrightarrow> ParseAddr (eg_DestIP r) = Some (dc_DestIP d))"
    using settled_audited[OF s] by (simp add: e)
qed

lemma ids_ok_open [simp]: "ids_ok (open_cfg cfg) = ids_ok cfg"
  by (simp add: ids_ok_def open_cfg_def)

interpretation open_mode: flow_authorizer Open_Authorize es_log ids_ok
proof unfold_locales
  fix cfg f st d er st' x
  have s: "settled (open_cfg cfg) f st ((d, er), st')" if "Open_Authorize cfg f st = ((d, er), st')" for er
    using that Open_settled[of cfg f st] by simp
  show "Open_Authorize cfg f st = ((d, er), st') \<Longrightarrow> dc_Allow d \<longleftrightarrow> er = None"
    using settled_verdict(1)[OF s] by blast
  show "Open_Authorize cfg f st = ((d, Some x), st') \<Longrightarrow>
      errors_is x ErrEgressDenied \<and> errors_is x ErrNetworkPolicyViolation"
    using settled_verdict(2)[OF s] by blast
  show "Open_Authorize cfg f st = ((d, er), st') \<Longrightarrow> dc_Allow d \<Longrightarrow>
      fl_Protocol f = ''tcp'' \<and> 1 \<le> fl_Port f \<and> fl_Port f \<le> 65535"
    using settled_verdict(3)[OF s] by blast
  show "ids_ok cfg \<Longrightarrow> 0 \<le> fl_Port f \<Longrightarrow> fl_Port f \<le> 65535 \<Longrightarrow>
      Open_Authorize cfg f st = ((d, er), st') \<Longrightarrow>
      \<exists>r. tcp_rows (es_log st') = tcp_rows (es_log st) @ [r] \<and> eg_Decision r = decision_text (d, er)
        \<and> eg_DestPort r = fl_Port f \<and> (dc_Allow d \<longrightarrow> ParseAddr (eg_DestIP r) = Some (dc_DestIP d))"
    using settled_audited[OF s] by simp
qed

section \<open>Sound admissions\<close>

lemma find_not_denied:
  "find (\<lambda>ip. IsUnconditionallyDenied ip = None) xs = Some ip \<Longrightarrow>
     ip \<in> set xs \<and> IsUnconditionallyDenied ip = None"
  by (metis (mono_tags, lifting) find_Some_iff nth_mem)

lemma authorizeRawIP_allow:
  "authorizeRawIP cfg f ip st = ((d, er), st') \<Longrightarrow> dc_Allow d \<Longrightarrow>
     dc_DestIP d = ip \<and> IsUnconditionallyDenied ip = None
     \<and> (AllowsIP (es_allow st) ip (fl_Port f) \<or> IsPinned (es_res st) ip)"
  by (auto simp: authorizeRawIP_def deny_def allow_def Let_def split: option.splits if_splits)

lemma authorizeName_allow:
  assumes "authorizeName upstream now cfg f st = ((d, er), st')" "dc_Allow d"
  shows "AllowsName (es_allow st) (fl_Host f) (fl_Port f) \<and> IsUnconditionallyDenied (dc_DestIP d) = None
    \<and> (\<exists>ips. upstream (fl_Host f) = Inr ips \<and> dc_DestIP d \<in> Unmap ` set ips)"
proof -
  obtain res st1 where r: "Resolve upstream now (fl_Host f) st = (res, st1)"
    by (cases "Resolve upstream now (fl_Host f) st")
  from assms obtain ips ip where i: "res = Inr ips"
    "find (\<lambda>ip. IsUnconditionallyDenied ip = None) (map Unmap ips) = Some ip" "dc_DestIP d = ip"
    "AllowsName (es_allow st) (fl_Host f) (fl_Port f)"
    by (auto simp: authorizeName_def r deny_def allow_def Let_def split: if_splits sum.splits option.splits)
  obtain up where "upstream (fl_Host f) = Inr up" "ips = filterDeniedIPs up"
    using Resolve_Inr(1)[OF r[unfolded i(1)]] by blast
  then show ?thesis using i find_not_denied[OF i(2)] by (auto simp: filterDeniedIPs_def)
qed

section \<open>Rate cap\<close>

fun admit_run :: "time list \<Rightarrow> Resolver \<Rightarrow> nat \<times> Resolver" where
  "admit_run [] r = (0, r)"
| "admit_run (t # ts) r =
     (let (ok, r1) = admit t r; (n, r2) = admit_run ts r1 in ((if ok then Suc n else n), r2))"

definition in_window :: "Resolver \<Rightarrow> time \<Rightarrow> bool" where
  "in_window r t \<longleftrightarrow> rs_windowStart r \<noteq> zero_time \<and> sub_sat t (rs_windowStart r) < rs_window r"

lemma admit_in_window:
  "in_window r t \<Longrightarrow> admit t r =
     (if rs_queryCount r \<ge> rs_maxQPW r then (False, r) else (True, r\<lparr>rs_queryCount := rs_queryCount r + 1\<rparr>))"
  by (auto simp: admit_def in_window_def Let_def)

lemma admit_run_in_window:
  "\<forall>t \<in> set ts. in_window r t \<Longrightarrow> rs_queryCount r \<le> rs_maxQPW r \<Longrightarrow>
     int (fst (admit_run ts r)) \<le> rs_maxQPW r - rs_queryCount r"
proof (induction ts arbitrary: r)
  case (Cons t ts)
  show ?case
  proof (cases "rs_queryCount r \<ge> rs_maxQPW r")
    case True
    then show ?thesis using Cons.IH[of r] Cons.prems by (auto simp: admit_in_window split: prod.splits)
  next
    case False
    let ?r = "r\<lparr>rs_queryCount := rs_queryCount r + 1\<rparr>"
    have "int (fst (admit_run ts ?r)) \<le> rs_maxQPW ?r - rs_queryCount ?r"
      by (rule Cons.IH) (use Cons.prems False in \<open>auto simp: in_window_def\<close>)
    then show ?thesis using Cons.prems False by (auto simp: admit_in_window split: prod.splits)
  qed
qed simp

lemma sub_sat_lt: "t - u < w \<Longrightarrow> 0 < w \<Longrightarrow> sub_sat t u < w"
  by (auto simp: sub_sat_def min_int64_def)

text \<open>After the window has rolled once inside a short span it does not roll again.\<close>

lemma admit_run_span:
  assumes "\<forall>t \<in> set ts. t0 \<le> t \<and> t < t0 + rs_window r" "0 < t0" "sorted ts"
    and "0 \<le> rs_queryCount r" "rs_queryCount r \<le> rs_maxQPW r" "0 < rs_window r"
  shows "int (fst (admit_run ts r)) \<le> 2 * rs_maxQPW r - rs_queryCount r"
  using assms
proof (induction ts arbitrary: r)
  case (Cons t ts)
  show ?case
  proof (cases "in_window r t")
    case True
    show ?thesis
    proof (cases "rs_queryCount r \<ge> rs_maxQPW r")
      case full: True
      have "int (fst (admit_run ts r)) \<le> 2 * rs_maxQPW r - rs_queryCount r"
        by (rule Cons.IH) (use Cons.prems in auto)
      then show ?thesis using True full by (auto simp: admit_in_window split: prod.splits)
    next
      case False
      let ?r = "r\<lparr>rs_queryCount := rs_queryCount r + 1\<rparr>"
      have "int (fst (admit_run ts ?r)) \<le> 2 * rs_maxQPW ?r - rs_queryCount ?r"
        by (rule Cons.IH) (use Cons.prems False in auto)
      then show ?thesis using True False by (auto simp: admit_in_window split: prod.splits)
    qed
  next
    case False
    let ?r0 = "r\<lparr>rs_windowStart := t, rs_queryCount := 0, rs_nxCount := 0, rs_nxFlagged := False\<rparr>"
    have roll: "admit t r = (if 0 \<ge> rs_maxQPW r then (False, ?r0) else (True, ?r0\<lparr>rs_queryCount := 1\<rparr>))"
      using False by (auto simp: admit_def in_window_def Let_def)
    have win: "in_window q u" if "u \<in> set ts" "rs_windowStart q = t" "rs_window q = rs_window r" for q u
      using that Cons.prems sub_sat_lt[of u t "rs_window r"] by (auto simp: in_window_def)
    show ?thesis
    proof (cases "0 \<ge> rs_maxQPW r")
      case True
      have "int (fst (admit_run ts ?r0)) \<le> rs_maxQPW ?r0 - rs_queryCount ?r0"
        by (rule admit_run_in_window) (use win Cons.prems in auto)
      then show ?thesis using True roll Cons.prems by (auto split: prod.splits)
    next
      case False
      let ?r1 = "?r0\<lparr>rs_queryCount := 1\<rparr>"
      have "int (fst (admit_run ts ?r1)) \<le> rs_maxQPW ?r1 - rs_queryCount ?r1"
        by (rule admit_run_in_window) (use win False in auto)
      then show ?thesis using False roll Cons.prems by (auto split: prod.splits)
    qed
  qed
qed simp

section \<open>Pins\<close>

text \<open>What happens to one sandbox's stack: flows, DNS questions and policy changes.\<close>

datatype egress_op =
    FlowOp AuthorizerConfig "string \<Rightarrow> addr list result" time Flow
  | QueryOp "string \<Rightarrow> addr list result" time Question
  | PolicyOp policy_op

fun egress_step :: "egress_op \<Rightarrow> egress_st \<Rightarrow> egress_st" where
  "egress_step (FlowOp cfg upstream now f) st = snd (Authorize upstream now cfg f st)"
| "egress_step (QueryOp upstream now q) st = snd (answer upstream now q st)"
| "egress_step (PolicyOp x) st = st\<lparr>es_allow := allowlist_step x (es_allow st)\<rparr>"

definition pins_ok :: "egress_st \<Rightarrow> bool" where
  "pins_ok st \<longleftrightarrow> (\<forall>(n, ips) \<in> set (rs_pins (es_res st)). \<forall>ip \<in> set ips. IsUnconditionallyDenied ip = None)"

lemma pins_ok_cong: "es_res a = es_res b \<Longrightarrow> pins_ok a = pins_ok b"
  by (simp add: pins_ok_def)

lemma Resolve_pins_ok: "pins_ok st \<Longrightarrow> pins_ok (snd (Resolve upstream now name st))"
proof -
  assume ok: "pins_ok st"
  obtain res st1 where r: "Resolve upstream now name st = (res, st1)"
    by (cases "Resolve upstream now name st")
  show ?thesis
  proof (cases res)
    case (Inl e)
    then show ?thesis using ok Resolve_Inl_pins r by (simp add: pins_ok_def)
  next
    case (Inr ips)
    then show ?thesis using ok Resolve_Inr[of upstream now name st ips st1] r
      by (auto simp: pins_ok_def filterDeniedIPs_def)
  qed
qed

lemma Authorize_res:
  "es_res (snd (Authorize upstream now cfg f st)) = es_res st
   \<or> es_res (snd (Authorize upstream now cfg f st)) = es_res (snd (Resolve upstream now (fl_Host f) st))"
  by (auto simp: Authorize_def authorizeRawIP_def authorizeName_def deny_log(3) allow_log(3)
      split: option.splits sum.splits prod.splits)

interpretation pins: invariant egress_step pins_ok
proof unfold_locales
  fix st x
  assume ok: "pins_ok st"
  show "pins_ok (egress_step x st)"
  proof (cases x)
    case (FlowOp cfg upstream now f)
    then show ?thesis
      using ok Authorize_res[of upstream now cfg f st] Resolve_pins_ok[OF ok, of upstream now "fl_Host f"]
      pins_ok_cong by (metis egress_step.simps(1))
  next
    case (QueryOp upstream now q)
    then show ?thesis
      using ok Resolve_pins_ok[OF ok, of upstream now "trim_suffix (q_Name q) ''.''"]
      by (auto simp: answer_def split: sum.splits prod.splits)
  next
    case (PolicyOp p)
    then show ?thesis using ok by (simp add: pins_ok_def)
  qed
qed

section \<open>Properties\<close>

text \<open>
  C2. A flow that is let out in allowlist mode is justified. It is TCP on a real
  port; its destination is not in a denied range and not an IPv4-mapped address;
  and either the flow named a literal address that a network rule or a live grant
  admits on that port or that an earlier resolution pinned, or it named a host
  that a name rule admits on that port and the destination is one of the addresses
  the host's own lookup returned.
\<close>

theorem egress_allow_justified:
  assumes "Authorize upstream now cfg f st = ((d, er), st')" and "dc_Allow d"
  shows "er = None \<and> fl_Protocol f = ''tcp'' \<and> 1 \<le> fl_Port f \<and> fl_Port f \<le> 65535
    \<and> IsUnconditionallyDenied (dc_DestIP d) = None \<and> \<not> Is4In6 (dc_DestIP d)
    \<and> ((\<exists>ip. ParseAddr (fl_Host f) = Some ip \<and> dc_DestIP d = Unmap ip
          \<and> (AllowsIP (es_allow st) (Unmap ip) (fl_Port f) \<or> IsPinned (es_res st) (Unmap ip)))
       \<or> (ParseAddr (fl_Host f) = None \<and> AllowsName (es_allow st) (fl_Host f) (fl_Port f)
          \<and> (\<exists>ips. upstream (fl_Host f) = Inr ips \<and> dc_DestIP d \<in> Unmap ` set ips)))"
proof -
  have s: "settled cfg f st ((d, er), st')" using Authorize_settled[of cfg f st upstream now] assms(1) by simp
  have v: "er = None" "fl_Protocol f = ''tcp''" "1 \<le> fl_Port f" "fl_Port f \<le> 65535"
    using settled_verdict[OF s] assms(2) by auto
  then have body: "(case ParseAddr (fl_Host f) of
      Some ip \<Rightarrow> authorizeRawIP cfg f (Unmap ip) st
    | None \<Rightarrow> authorizeName upstream now cfg f st) = ((d, er), st')"
    using assms(1) by (auto simp: Authorize_def)
  show ?thesis
  proof (cases "ParseAddr (fl_Host f)")
    case None
    then show ?thesis using v body authorizeName_allow[of upstream now cfg f st d er st'] assms(2)
      by auto
  next
    case (Some ip)
    then show ?thesis using v body authorizeRawIP_allow[of cfg f "Unmap ip" st d er st'] assms(2)
      by auto
  qed
qed

definition demo_cfg :: AuthorizerConfig where
  "demo_cfg = \<lparr>ac_SandboxID = ''sb1'', ac_TaskID = ''MGIT-1'', ac_OnDenial = True\<rparr>"

definition demo_resolver :: Resolver where
  "demo_resolver = \<lparr>rs_SandboxID = ''sb1'', rs_TaskID = ''MGIT-1'', rs_ResolveAny = False, rs_maxQPW = 60,
     rs_window = Minute, rs_nxCap = 10, rs_windowStart = 0, rs_queryCount = 0, rs_nxCount = 0,
     rs_nxFlagged = False, rs_pins = []\<rparr>"

definition demo_stack :: egress_st where
  "demo_stack = \<lparr>es_allow = empty_Allowlist\<lparr>al_names := [\<lparr>nr_exact = ''a.io'', nr_suffix = [],
        nr_port = 443, nr_wildcard = False\<rparr>], al_source := [''a.io:443'']\<rparr>,
     es_res = demo_resolver, es_log = [], es_denials = []\<rparr>"

text \<open>The host's lookup in the examples: one private address, then a public one.\<close>

definition demo_lookup :: "string \<Rightarrow> addr list result" where
  "demo_lookup name = Inr [V4 0x0A000001, V4 0x08080808]"

definition demo_flow :: "string \<Rightarrow> Flow" where
  "demo_flow host = \<lparr>fl_Protocol = ''tcp'', fl_Host = host, fl_Port = 443\<rparr>"

lemma demo_allowed:
  "fst (Authorize demo_lookup 5 demo_cfg (demo_flow ''a.io'') demo_stack)
     = (\<lparr>dc_Allow = True, dc_DestIP = V4 0x08080808, dc_Rule = ''name allowlisted (pinned)''\<rparr>, None)"
  by code_simp

theorem egress_allow_justified_witness:
  "AllowsName (es_allow demo_stack) ''a.io'' 443
   \<and> (\<exists>ips. demo_lookup ''a.io'' = Inr ips \<and> V4 0x08080808 \<in> Unmap ` set ips)"
proof -
  obtain d er st' where a: "Authorize demo_lookup 5 demo_cfg (demo_flow ''a.io'') demo_stack = ((d, er), st')"
    by (metis prod.exhaust)
  have d: "dc_Allow d" "dc_DestIP d = V4 0x08080808" using demo_allowed a by simp_all
  have "ParseAddr ''a.io'' = None" by code_simp
  then show ?thesis
    using egress_allow_justified[OF a d(1)] d(2) by (simp add: demo_flow_def)
qed

text \<open>
  Every flow is on the record, in order and with its verdict. When a stack
  serves any sequence of flows with ports in range, under identifiers the log
  accepts, the rows added for TCP flows are exactly one per flow, each with that
  flow's port and the decision that was returned, in allowlist mode and in open
  mode alike.
\<close>

theorem egress_flows_audited:
  "(\<forall>(e, f) \<in> set fs. ids_ok (fst e) \<and> 0 \<le> fl_Port f \<and> fl_Port f \<le> 65535) \<longrightarrow>
     (\<exists>new. tcp_rows (es_log (snd (serve authorize_in fs st))) = tcp_rows (es_log st) @ new
        \<and> map eg_Decision new = map decision_text (fst (serve authorize_in fs st))
        \<and> map eg_DestPort new = map (fl_Port \<circ> snd) fs)
   \<and> (\<exists>new. tcp_rows (es_log (snd (serve Open_Authorize (map (\<lambda>(e, f). (fst e, f)) fs) st)))
          = tcp_rows (es_log st) @ new
        \<and> map eg_Decision new = map decision_text (fst (serve Open_Authorize (map (\<lambda>(e, f). (fst e, f)) fs) st))
        \<and> map eg_DestPort new = map (fl_Port \<circ> snd) fs)"
proof (intro impI conjI)
  assume a: "\<forall>(e, f) \<in> set fs. ids_ok (fst e) \<and> 0 \<le> fl_Port f \<and> fl_Port f \<le> 65535"
  show "\<exists>new. tcp_rows (es_log (snd (serve authorize_in fs st))) = tcp_rows (es_log st) @ new
      \<and> map eg_Decision new = map decision_text (fst (serve authorize_in fs st))
      \<and> map eg_DestPort new = map (fl_Port \<circ> snd) fs"
    by (rule allowlist_mode.serve_audited) (use a in \<open>auto\<close>)
  have "\<exists>new. tcp_rows (es_log (snd (serve Open_Authorize (map (\<lambda>(e, f). (fst e, f)) fs) st)))
        = tcp_rows (es_log st) @ new
      \<and> map eg_Decision new = map decision_text (fst (serve Open_Authorize (map (\<lambda>(e, f). (fst e, f)) fs) st))
      \<and> map eg_DestPort new = map (fl_Port \<circ> snd) (map (\<lambda>(e, f). (fst e, f)) fs)"
    by (rule open_mode.serve_audited) (use a in auto)
  moreover have "map (fl_Port \<circ> snd) (map (\<lambda>(e, f). (fst e, f)) fs) = map (fl_Port \<circ> snd) fs"
    by (auto simp: comp_def split: prod.splits)
  ultimately show "\<exists>new. tcp_rows (es_log (snd (serve Open_Authorize (map (\<lambda>(e, f). (fst e, f)) fs) st)))
        = tcp_rows (es_log st) @ new
      \<and> map eg_Decision new = map decision_text (fst (serve Open_Authorize (map (\<lambda>(e, f). (fst e, f)) fs) st))
      \<and> map eg_DestPort new = map (fl_Port \<circ> snd) fs" by (simp only:)
qed

theorem egress_flows_audited_witness:
  "\<exists>new. tcp_rows (es_log (snd (serve authorize_in
        [((demo_cfg, demo_lookup, 5), demo_flow ''a.io''), ((demo_cfg, demo_lookup, 6), demo_flow ''10.0.0.1'')]
        demo_stack))) = new \<and> map eg_DestPort new = [443, 443]"
proof -
  have "ids_ok demo_cfg" by code_simp
  then show ?thesis
    using egress_flows_audited[of "[((demo_cfg, demo_lookup, 5), demo_flow ''a.io''),
        ((demo_cfg, demo_lookup, 6), demo_flow ''10.0.0.1'')]" demo_stack]
    by (simp add: demo_flow_def demo_stack_def tcp_rows_def)
qed

text \<open>
  C27. A name cannot be rebound to a denied address: whatever flows, questions and
  policy changes a stack has handled since it started, no address it has pinned is
  in a denied range, and no answer it gives to a guest's question contains one or
  has the wrong family for the question.
\<close>

theorem no_denied_pin_or_answer:
  assumes "rs_pins (es_res st0) = []"
  shows "(\<forall>ip. IsPinned (es_res (fold egress_step xs st0)) ip \<longrightarrow> IsUnconditionallyDenied ip = None)
    \<and> (\<forall>upstream now q ip. ip \<in> set (snd (fst (answer upstream now q (fold egress_step xs st0)))) \<longrightarrow>
         IsUnconditionallyDenied ip = None \<and> (q_Type q = TypeA \<longrightarrow> Is4 ip) \<and> (q_Type q = TypeAAAA \<longrightarrow> Is6 ip))"
proof (intro conjI allI impI)
  let ?st = "fold egress_step xs st0"
  have ok: "pins_ok ?st" by (rule pins.run_inv) (simp add: pins_ok_def assms)
  show "IsUnconditionallyDenied ip = None" if "IsPinned (es_res ?st) ip" for ip
    using ok that by (auto simp: pins_ok_def IsPinned_def list_ex_iff)
  fix upstream now q ip
  assume a: "ip \<in> set (snd (fst (answer upstream now q ?st)))"
  obtain res st1 where r: "Resolve upstream now (trim_suffix (q_Name q) ''.'') ?st = (res, st1)"
    by (cases "Resolve upstream now (trim_suffix (q_Name q) ''.'') ?st")
  from a obtain ips ip' where i: "res = Inr ips" "ip' \<in> set ips" "ip = Unmap ip'"
    and fam: "(q_Type q = TypeA \<and> Is4 ip) \<or> (q_Type q = TypeAAAA \<and> Is6 ip)"
    by (auto simp: answer_def r split: if_splits sum.splits)
  have "IsUnconditionallyDenied ip' = None"
    using Resolve_Inr(1)[OF r[unfolded i(1)]] i(2) by (auto simp: filterDeniedIPs_def)
  then show "IsUnconditionallyDenied ip = None" using i(3) by (simp add: IsUnconditionallyDenied_def)
  show "q_Type q = TypeA \<Longrightarrow> Is4 ip" "q_Type q = TypeAAAA \<Longrightarrow> Is6 ip" using fam by auto
qed

theorem no_denied_pin_or_answer_witness:
  "\<not> IsPinned (es_res (fold egress_step [FlowOp demo_cfg demo_lookup 5 (demo_flow ''a.io'')] demo_stack)) (V4 0x0A000001)
   \<and> IsPinned (es_res (fold egress_step [FlowOp demo_cfg demo_lookup 5 (demo_flow ''a.io'')] demo_stack)) (V4 0x08080808)"
proof -
  have e: "rs_pins (es_res demo_stack) = []" by code_simp
  have d: "IsUnconditionallyDenied (V4 0x0A000001) \<noteq> None" by code_simp
  have p: "IsPinned (es_res (fold egress_step [FlowOp demo_cfg demo_lookup 5 (demo_flow ''a.io'')] demo_stack))
      (V4 0x08080808)" by code_simp
  show ?thesis
    using no_denied_pin_or_answer[OF e, THEN conjunct1, THEN spec[of _ "V4 0x0A000001"],
        of "[FlowOp demo_cfg demo_lookup 5 (demo_flow ''a.io'')]"] d p
    by blast
qed

text \<open>
  The DNS rate cap holds over any span of time shorter than the window: of
  any number of queries at non-decreasing instants in such a span, at most twice
  the cap reach the upstream resolver, whatever state the resolver was in, and at
  most the cap when they all fall in the current window of a fresh resolver.
\<close>

theorem dns_rate_capped:
  assumes "\<forall>t \<in> set ts. t0 \<le> t \<and> t < t0 + rs_window r" and "0 < t0" and "sorted ts"
    and "0 < rs_window r" and "0 \<le> rs_queryCount r" and "rs_queryCount r \<le> rs_maxQPW r"
  shows "int (fst (admit_run ts r)) \<le> 2 * rs_maxQPW r - rs_queryCount r
    \<and> (rs_windowStart r = t0 \<longrightarrow> int (fst (admit_run ts r)) \<le> rs_maxQPW r - rs_queryCount r)"
proof (intro conjI impI)
  show "int (fst (admit_run ts r)) \<le> 2 * rs_maxQPW r - rs_queryCount r"
    by (rule admit_run_span) (use assms in auto)
  assume w: "rs_windowStart r = t0"
  show "int (fst (admit_run ts r)) \<le> rs_maxQPW r - rs_queryCount r"
  proof (rule admit_run_in_window)
    show "\<forall>t \<in> set ts. in_window r t"
      using assms w sub_sat_lt[of _ t0 "rs_window r"] by (auto simp: in_window_def)
  qed (use assms in simp)
qed

theorem dns_rate_capped_witness:
  "fst (admit_run (replicate 5 100) (demo_resolver\<lparr>rs_maxQPW := 3, rs_windowStart := 100\<rparr>)) = 3
   \<and> int (fst (admit_run (replicate 5 100) (demo_resolver\<lparr>rs_maxQPW := 3, rs_windowStart := 100\<rparr>))) \<le> 3"
proof -
  have "fst (admit_run (replicate 5 100) (demo_resolver\<lparr>rs_maxQPW := 3, rs_windowStart := 100\<rparr>)) = 3"
    by code_simp
  then show ?thesis
    using dns_rate_capped[of "replicate 5 100" 100 "demo_resolver\<lparr>rs_maxQPW := 3, rs_windowStart := 100\<rparr>"]
    by (simp add: demo_resolver_def)
qed

text \<open>
  Replacing the policy does not take back what was pinned: an address that an
  earlier resolution pinned stays reachable, on every port, after the policy is
  replaced by any other that compiles, even one that names nothing.
\<close>

theorem revoked_name_still_reachable:
  assumes "IsPinned (es_res st) ip" and "IsUnconditionallyDenied ip = None" and "\<not> Is4In6 ip"
    and "SetRules (es_allow st) entries = Inr al" and "1 \<le> port" and "port \<le> 65535"
  shows "dc_Allow (fst (fst (Authorize upstream now cfg
      \<lparr>fl_Protocol = ''tcp'', fl_Host = addr_String ip, fl_Port = port\<rparr> (st\<lparr>es_allow := al\<rparr>))))"
proof -
  have "Unmap ip = ip" using assms(3) by (cases ip) auto
  moreover have "IsValid ip" using not_denied_valid[OF assms(2)] by simp
  ultimately show ?thesis
    using assms by (simp add: Authorize_def ParseAddr_addr_String authorizeRawIP_def allow_def)
qed

theorem revoked_name_still_reachable_witness:
  "dc_Allow (fst (fst (Authorize demo_lookup 9 demo_cfg
      \<lparr>fl_Protocol = ''tcp'', fl_Host = addr_String (V4 0x08080808), fl_Port = 22\<rparr>
      ((snd (Authorize demo_lookup 5 demo_cfg (demo_flow ''a.io'') demo_stack))\<lparr>es_allow := empty_Allowlist\<rparr>))))"
proof (rule revoked_name_still_reachable[where entries = "[]"])
  show "IsPinned (es_res (snd (Authorize demo_lookup 5 demo_cfg (demo_flow ''a.io'') demo_stack))) (V4 0x08080808)"
    by code_simp
  show "IsUnconditionallyDenied (V4 0x08080808) = None" by code_simp
  show "SetRules (es_allow (snd (Authorize demo_lookup 5 demo_cfg (demo_flow ''a.io'') demo_stack))) []
      = Inr empty_Allowlist" by code_simp
qed simp_all

text \<open>
  A refusal can escape the audit log: a flow whose port is negative or above
  65535 is denied, and no row is written for it, because the row would carry the
  port the guest chose and the log refuses such a row.
\<close>

theorem bad_port_denial_unrecorded:
  assumes "fl_Port f < 0 \<or> fl_Port f > 65535"
  shows "\<not> dc_Allow (fst (fst (Authorize upstream now cfg f st)))
    \<and> es_log (snd (Authorize upstream now cfg f st)) = es_log st"
proof -
  have "Authorize upstream now cfg f st = deny cfg f InvalidAddr ''invalid port'' st"
    using assms by (auto simp: Authorize_def)
  moreover have "EgressRecord_Validate (tcp_record cfg EgressDeny f InvalidAddr ''invalid port'') \<noteq> None"
    using tcp_record_valid[of EgressDeny InvalidAddr cfg f "''invalid port''"] assms by auto
  ultimately show ?thesis
    using deny_log(1,4)[of cfg f InvalidAddr "''invalid port''" st]
    by (auto simp: tcp_audit_def append_record_def split: option.splits)
qed

theorem bad_port_denial_unrecorded_witness:
  "es_log (snd (Authorize demo_lookup 5 demo_cfg (demo_flow ''a.io''\<lparr>fl_Port := 70000\<rparr>) demo_stack)) = []"
  using bad_port_denial_unrecorded[of "demo_flow ''a.io''\<lparr>fl_Port := 70000\<rparr>" demo_lookup 5 demo_cfg demo_stack]
  by (simp add: demo_stack_def)

end
