(* ===== verification/Egress_Runner.thy ===== *)
theory Egress_Runner
  imports Egress_Authorizer
begin

text \<open>
  The runtime of the host egress stack: \<open>supervisor.go\<close> assembles the stack of one
  sandbox, \<open>transparent.go\<close> is the path its connections take, and \<open>runner.go\<close> with
  the second half of \<open>livepolicy.go\<close> keeps the stacks of all running sandboxes: start
  and stop, live grants and live policy changes. Sockets and connections are
  numbers; the runner's record carries the sockets that are open on the host and
  the connections that were closed, so that leaks and survivors can be stated.
  What the operating system answers to a listen, a close or a dial is an argument.
\<close>

section \<open>One sandbox's stack (\<open>supervisor.go\<close>)\<close>

record SupervisorConfig =
  sc_SandboxID :: string
  sc_TaskID :: string
  sc_Policy :: NetworkPolicy
  sc_hasAudit :: bool
  sc_hasLookup :: bool
  sc_hasDial :: bool
  sc_hasClock :: bool
  sc_hasLogger :: bool
  sc_hasOnDenial :: bool

text \<open>
  A connection whose flow was authorized and whose dial has not returned yet is in
  \<open>sv_dialing\<close>: the guest's connection, the destination and its port. In the source
  this is a local state of the goroutine that handles the connection.
\<close>

record Supervisor =
  sv_stack :: egress_st
  sv_auth :: AuthorizerConfig
  sv_flows :: FlowRegistry
  sv_dialing :: "(nat \<times> addr \<times> int) list"

definition NewAuthorizer :: "bool \<Rightarrow> bool \<Rightarrow> bool \<Rightarrow> AuthorizerConfig \<Rightarrow> AuthorizerConfig result" where
  "NewAuthorizer hasAllowlist hasResolver hasAudit cfg =
     (if \<not> hasAllowlist then Inl (Errorf ''egress authorizer: allowlist must not be nil'')
      else if \<not> hasResolver then Inl (Errorf ''egress authorizer: resolver must not be nil'')
      else if \<not> hasAudit then Inl (Errorf ''egress authorizer: auditor must not be nil'')
      else if ac_SandboxID cfg = [] then Inl (Errorf ''egress authorizer: sandbox id must not be empty'')
      else Inr cfg)"

definition NewProxy :: "bool \<Rightarrow> bool \<Rightarrow> bool \<Rightarrow> err option" where
  "NewProxy hasAuthorizer hasDial hasLogger =
     (if \<not> hasAuthorizer then Some (Errorf ''egress proxy: authorizer must not be nil'')
      else if \<not> hasDial then Some (Errorf ''egress proxy: dialer must not be nil'')
      else if \<not> hasLogger then Some (Errorf ''egress proxy: logger must not be nil'') else None)"

definition NewDNSServer :: "bool \<Rightarrow> bool \<Rightarrow> err option" where
  "NewDNSServer hasResolver hasLogger =
     (if \<not> hasResolver then Some (Errorf ''egress dns server: resolver must not be nil'')
      else if \<not> hasLogger then Some (Errorf ''egress dns server: logger must not be nil'') else None)"

definition supervisor_resolver :: "SupervisorConfig \<Rightarrow> ResolverConfig" where
  "supervisor_resolver cfg =
     \<lparr>rc_SandboxID = sc_SandboxID cfg, rc_TaskID = sc_TaskID cfg, rc_hasAllowlist = True,
      rc_hasLookup = sc_hasLookup cfg, rc_hasAudit = sc_hasAudit cfg, rc_hasClock = sc_hasClock cfg,
      rc_ResolveAny = False, rc_MaxQueriesPerWindow = 0, rc_Window = 0, rc_NXDOMAINBurstThreshold = 0\<rparr>"

definition NewSupervisor :: "SupervisorConfig \<Rightarrow> Supervisor result" where
  "NewSupervisor cfg =
     (if np_Mode (sc_Policy cfg) \<noteq> NetworkModeAllowlist
      then Inl (Errorf ''egress supervisor: only allowlist mode runs a proxy'')
      else if \<not> sc_hasAudit cfg then Inl (Errorf ''egress supervisor: auditor must not be nil'')
      else if \<not> sc_hasLookup cfg then Inl (Errorf ''egress supervisor: lookup must not be nil'')
      else if \<not> sc_hasDial cfg then Inl (Errorf ''egress supervisor: dialer must not be nil'')
      else if \<not> sc_hasClock cfg then Inl (Errorf ''egress supervisor: clock must not be nil'')
      else if sc_SandboxID cfg = [] then Inl (Errorf ''egress supervisor: sandbox id must not be empty'')
      else if \<not> sc_hasLogger cfg then Inl (Errorf ''egress supervisor: logger must not be nil'')
      else (case Compile (np_Allowlist (sc_Policy cfg)) of
        Inl e \<Rightarrow> Inl (Wrap ''egress supervisor'' e)
      | Inr al \<Rightarrow>
      (case NewResolver (supervisor_resolver cfg) of
        Inl e \<Rightarrow> Inl (Wrap ''egress supervisor'' e)
      | Inr resolver \<Rightarrow>
      (case NewAuthorizer True True (sc_hasAudit cfg)
              \<lparr>ac_SandboxID = sc_SandboxID cfg, ac_TaskID = sc_TaskID cfg, ac_OnDenial = sc_hasOnDenial cfg\<rparr> of
        Inl e \<Rightarrow> Inl (Wrap ''egress supervisor'' e)
      | Inr authorizer \<Rightarrow>
      (case NewProxy True (sc_hasDial cfg) (sc_hasLogger cfg) of
        Some e \<Rightarrow> Inl (Wrap ''egress supervisor'' e)
      | None \<Rightarrow>
      (case NewDNSServer True (sc_hasLogger cfg) of
        Some e \<Rightarrow> Inl (Wrap ''egress supervisor'' e)
      | None \<Rightarrow>
          Inr \<lparr>sv_stack = \<lparr>es_allow = al, es_res = resolver, es_log = [], es_denials = []\<rparr>,
               sv_auth = authorizer, sv_flows = NewFlowRegistry, sv_dialing = []\<rparr>))))))"

section \<open>The path of a connection (\<open>transparent.go\<close>)\<close>

text \<open>
  \<open>TransparentProxy.handle\<close> in the three parts other goroutines can run between: the
  authorization of the original destination, the return of the dial, the end of the
  splice. A refused connection is closed, which is the second component.
\<close>

definition handle_authorize :: "(string \<Rightarrow> addr list result) \<Rightarrow> time \<Rightarrow> nat \<Rightarrow> (addr \<times> int) result
    \<Rightarrow> Supervisor \<Rightarrow> Supervisor \<times> nat list" where
  "handle_authorize upstream now guest origDst sv =
     (case origDst of
        Inl e \<Rightarrow> (sv, [guest])
      | Inr (ip, port) \<Rightarrow>
          (case Authorize upstream now (sv_auth sv)
                  \<lparr>fl_Protocol = ''tcp'', fl_Host = addr_String ip, fl_Port = port\<rparr> (sv_stack sv) of
             ((d, Some e), st) \<Rightarrow> (sv\<lparr>sv_stack := st\<rparr>, [guest])
           | ((d, None), st) \<Rightarrow>
               if \<not> dc_Allow d then (sv\<lparr>sv_stack := st\<rparr>, [guest])
               else (sv\<lparr>sv_stack := st, sv_dialing := (guest, dc_DestIP d, port) # sv_dialing sv\<rparr>, [])))"

definition handle_dial :: "nat \<Rightarrow> nat result \<Rightarrow> Supervisor \<Rightarrow> Supervisor \<times> nat list" where
  "handle_dial guest dialed sv =
     (case map_of (sv_dialing sv) guest of
        None \<Rightarrow> (sv, [])
      | Some _ \<Rightarrow>
          (let sv1 = sv\<lparr>sv_dialing := filter (\<lambda>(g, _). g \<noteq> guest) (sv_dialing sv)\<rparr> in
           case dialed of
             Inl e \<Rightarrow> (sv1, [guest])
           | Inr outbound \<Rightarrow> (sv1\<lparr>sv_flows := fst (Track (sv_flows sv1) guest outbound)\<rparr>, [])))"

definition handle_end :: "nat \<Rightarrow> Supervisor \<Rightarrow> Supervisor" where
  "handle_end flow sv = sv\<lparr>sv_flows := release (sv_flows sv) flow\<rparr>"

definition NewTransparentProxy :: "bool \<Rightarrow> err option" where
  "NewTransparentProxy hasAuthorizer =
     (if \<not> hasAuthorizer then Some (Errorf ''transparent proxy: authorizer must not be nil'') else None)"

section \<open>The runner (\<open>runner.go\<close>)\<close>

record RunnerConfig =
  rn_hasAudit :: bool
  rn_hasLookup :: bool
  rn_hasDial :: bool
  rn_hasClock :: bool
  rn_hasLogger :: bool
  rn_ProxyPort :: int
  rn_DNSPort :: int
  rn_TransparentPort :: int

record Binding =
  bd_SandboxID :: string
  bd_TaskID :: string
  bd_GatewayIP :: addr
  bd_Policy :: NetworkPolicy

record Endpoints =
  ep_ProxyAddr :: string
  ep_DNSAddr :: string
  ep_TransparentAddr :: string

abbreviation no_endpoints :: Endpoints where
  "no_endpoints \<equiv> \<lparr>ep_ProxyAddr = [], ep_DNSAddr = [], ep_TransparentAddr = []\<rparr>"

text \<open>A pointer field of \<open>activeEgress\<close> that may be nil is an option.\<close>

record activeEgress =
  ae_tcp :: "nat option"
  ae_udp :: "nat option"
  ae_transparent :: "nat option"
  ae_endpoints :: Endpoints
  ae_sup :: "Supervisor option"

record Runner =
  rn_cfg :: RunnerConfig
  rn_active :: "string \<rightharpoonup> activeEgress"
  rn_denialObserver :: bool
  rn_open :: "nat list"
  rn_next :: nat
  rn_closed :: "nat list"

definition NewRunner :: "RunnerConfig \<Rightarrow> Runner result" where
  "NewRunner cfg =
     (if \<not> rn_hasAudit cfg then Inl (Errorf ''egress runner: auditor must not be nil'')
      else if \<not> rn_hasLookup cfg then Inl (Errorf ''egress runner: lookup must not be nil'')
      else if \<not> rn_hasDial cfg then Inl (Errorf ''egress runner: dialer must not be nil'')
      else if \<not> rn_hasClock cfg then Inl (Errorf ''egress runner: clock must not be nil'')
      else if \<not> rn_hasLogger cfg then Inl (Errorf ''egress runner: logger must not be nil'')
      else Inr \<lparr>rn_cfg = cfg, rn_active = (\<lambda>_. None), rn_denialObserver = False,
                rn_open = [], rn_next = 0, rn_closed = []\<rparr>)"

definition SetDenialObserver :: "bool \<Rightarrow> Runner \<Rightarrow> Runner" where
  "SetDenialObserver fn r = r\<lparr>rn_denialObserver := fn\<rparr>"

text \<open>
  The operating system: the answer to the \<open>n\<close>th listen of a call, on a network and
  an address, is an error or the local address. A successful listen opens a socket.
\<close>

type_synonym listen = "nat \<Rightarrow> string \<Rightarrow> string \<Rightarrow> string result"

definition open_socket :: "string result \<Rightarrow> Runner \<Rightarrow> (nat \<times> string) result \<times> Runner" where
  "open_socket outcome r =
     (case outcome of
        Inl e \<Rightarrow> (Inl e, r)
      | Inr local \<Rightarrow> (Inr (rn_next r, local), r\<lparr>rn_open := rn_next r # rn_open r, rn_next := Suc (rn_next r)\<rparr>))"

definition close_sockets :: "nat list \<Rightarrow> Runner \<Rightarrow> Runner" where
  "close_sockets ks r = r\<lparr>rn_open := filter (\<lambda>k. k \<notin> set ks) (rn_open r)\<rparr>"

definition opt_list :: "'a option \<Rightarrow> 'a list" where
  "opt_list x = (case x of None \<Rightarrow> [] | Some a \<Rightarrow> [a])"

definition ae_sockets :: "activeEgress \<Rightarrow> nat list" where
  "ae_sockets ae = opt_list (ae_tcp ae) @ opt_list (ae_transparent ae) @ opt_list (ae_udp ae)"

definition closeListeners :: "activeEgress \<Rightarrow> Runner \<Rightarrow> Runner" where
  "closeListeners ae = close_sockets (ae_sockets ae)"

definition host_port :: "addr \<Rightarrow> int \<Rightarrow> string" where
  "host_port gw port = addr_String gw @ '':'' @ show_int port"

definition listen_both :: "listen \<Rightarrow> addr \<Rightarrow> Runner \<Rightarrow> activeEgress result \<times> Runner" where
  "listen_both os gw r =
     (case open_socket (os 0 ''tcp'' (host_port gw (rn_ProxyPort (rn_cfg r)))) r of
        (Inl e, r1) \<Rightarrow> (Inl (Wrap ''egress runner: listen proxy'' e), r1)
      | (Inr (tcp, taddr), r1) \<Rightarrow>
          (case open_socket (os 1 ''udp'' (host_port gw (rn_DNSPort (rn_cfg r)))) r1 of
             (Inl e, r2) \<Rightarrow> (Inl (Wrap ''egress runner: listen dns'' e), close_sockets [tcp] r2)
           | (Inr (udp, uaddr), r2) \<Rightarrow>
               (Inr \<lparr>ae_tcp = Some tcp, ae_udp = Some udp, ae_transparent = None,
                     ae_endpoints = \<lparr>ep_ProxyAddr = taddr, ep_DNSAddr = uaddr, ep_TransparentAddr = []\<rparr>,
                     ae_sup = None\<rparr>, r2)))"

definition startOpenDNS :: "listen \<Rightarrow> Binding \<Rightarrow> Runner \<Rightarrow> Endpoints result \<times> Runner" where
  "startOpenDNS os b r =
     (if rn_active r (bd_SandboxID b) \<noteq> None
      then (Inl (Errorf ''egress runner: sandbox already started''), r)
      else
      (case NewResolver \<lparr>rc_SandboxID = bd_SandboxID b, rc_TaskID = bd_TaskID b, rc_hasAllowlist = False,
              rc_hasLookup = True, rc_hasAudit = rn_hasAudit (rn_cfg r), rc_hasClock = rn_hasClock (rn_cfg r),
              rc_ResolveAny = True, rc_MaxQueriesPerWindow = 0, rc_Window = 0, rc_NXDOMAINBurstThreshold = 0\<rparr> of
         Inl e \<Rightarrow> (Inl (Wrap ''egress runner'' (Wrap ''open-mode dns'' e)), r)
       | Inr resolver \<Rightarrow>
       (case NewDNSServer True (rn_hasLogger (rn_cfg r)) of
          Some e \<Rightarrow> (Inl (Wrap ''egress runner'' e), r)
        | None \<Rightarrow>
        (case open_socket (os 0 ''udp'' (host_port (bd_GatewayIP b) (rn_DNSPort (rn_cfg r)))) r of
           (Inl e, r1) \<Rightarrow> (Inl (Wrap ''egress runner: listen open-mode dns'' e), r1)
         | (Inr (udp, uaddr), r1) \<Rightarrow>
             (let ep = \<lparr>ep_ProxyAddr = [], ep_DNSAddr = uaddr, ep_TransparentAddr = []\<rparr> in
              (Inr ep, r1\<lparr>rn_active := (rn_active r1)(bd_SandboxID b \<mapsto>
                 \<lparr>ae_tcp = None, ae_udp = Some udp, ae_transparent = None, ae_endpoints = ep, ae_sup = None\<rparr>)\<rparr>))))))"

definition supervisor_config :: "Binding \<Rightarrow> Runner \<Rightarrow> SupervisorConfig" where
  "supervisor_config b r =
     \<lparr>sc_SandboxID = bd_SandboxID b, sc_TaskID = bd_TaskID b, sc_Policy = bd_Policy b,
      sc_hasAudit = rn_hasAudit (rn_cfg r), sc_hasLookup = rn_hasLookup (rn_cfg r),
      sc_hasDial = rn_hasDial (rn_cfg r), sc_hasClock = rn_hasClock (rn_cfg r),
      sc_hasLogger = rn_hasLogger (rn_cfg r), sc_hasOnDenial = rn_denialObserver r\<rparr>"

definition Start :: "listen \<Rightarrow> Binding \<Rightarrow> Runner \<Rightarrow> Endpoints result \<times> Runner" where
  "Start os b r =
     (if np_Mode (bd_Policy b) = NetworkModeNone then (Inr no_endpoints, r)
      else if np_Mode (bd_Policy b) = NetworkModeOpen then startOpenDNS os b r
      else if rn_active r (bd_SandboxID b) \<noteq> None
      then (Inl (Errorf ''egress runner: sandbox already started''), r)
      else
      (case NewSupervisor (supervisor_config b r) of
         Inl e \<Rightarrow> (Inl (Wrap ''egress runner'' e), r)
       | Inr sv \<Rightarrow>
       (case listen_both os (bd_GatewayIP b) r of
          (Inl e, r1) \<Rightarrow> (Inl e, r1)
        | (Inr ae0, r1) \<Rightarrow>
        (let ae = ae0\<lparr>ae_sup := Some sv\<rparr> in
         case NewTransparentProxy True of
           Some e \<Rightarrow> (Inl (Wrap ''egress runner'' e), closeListeners ae r1)
         | None \<Rightarrow>
         (case open_socket (os 2 ''tcp'' (host_port (bd_GatewayIP b) (rn_TransparentPort (rn_cfg r)))) r1 of
           (Inl e, r2) \<Rightarrow> (Inl (Wrap ''egress runner: listen transparent proxy'' e), closeListeners ae r2)
         | (Inr (tln, addr), r2) \<Rightarrow>
             (let ae' = ae\<lparr>ae_transparent := Some tln,
                           ae_endpoints := (ae_endpoints ae)\<lparr>ep_TransparentAddr := addr\<rparr>\<rparr>
              in (Inr (ae_endpoints ae'), r2\<lparr>rn_active := (rn_active r2)(bd_SandboxID b \<mapsto> ae')\<rparr>)))))))"

text \<open>
  \<open>Stop\<close>: the arguments \<open>err1\<close> and \<open>err2\<close> are what closing the proxy and the DNS
  socket report; a close that reports an error has still released the socket. The
  method value \<open>ae.udp.Close\<close> of a nil interface would panic.
\<close>

definition Stop :: "err option \<Rightarrow> err option \<Rightarrow> string \<Rightarrow> Runner \<Rightarrow> err option \<times> Runner" where
  "Stop err1 err2 sandboxID r =
     (case rn_active r sandboxID of
        None \<Rightarrow> (None, r)
      | Some ae \<Rightarrow>
          (let r1 = r\<lparr>rn_active := (rn_active r)(sandboxID := None)\<rparr>;
               r2 = close_sockets (opt_list (ae_tcp ae) @ opt_list (ae_transparent ae)) r1
           in case ae_udp ae of
                None \<Rightarrow> (Some (Panic ''nil PacketConn''), r2)
              | Some udp \<Rightarrow>
                  (if ae_tcp ae \<noteq> None \<and> err1 \<noteq> None
                   then map_option (Wrap ''egress runner: close proxy'') err1
                   else map_option (Wrap ''egress runner: close dns'') err2, close_sockets [udp] r2)))"

definition Running :: "string \<Rightarrow> Runner \<Rightarrow> bool" where
  "Running sandboxID r = (rn_active r sandboxID \<noteq> None)"

section \<open>Live grants\<close>

text \<open>
  \<open>netip.ParseAddrPort\<close>: the text is cut at its last colon, an IPv6 address must be
  in brackets and an IPv4 address must not, and the port is a decimal number of 16
  bits (\<open>strconv.ParseUint\<close>, which accepts no sign).
\<close>

definition parse_uint16 :: "string \<Rightarrow> int option" where
  "parse_uint16 s = (if s \<noteq> [] \<and> list_all is_digit s \<and> dec_value s < 65536 then Some (dec_value s) else None)"

definition ParseAddrPort :: "string \<Rightarrow> (addr \<times> int) option" where
  "ParseAddrPort s =
     (case split_last CHR '':'' s of
        None \<Rightarrow> None
      | Some (ip0, port) \<Rightarrow>
          if ip0 = [] \<or> port = [] then None
          else if hd ip0 = CHR ''['' \<and> (length ip0 < 2 \<or> last ip0 \<noteq> CHR '']'') then None
          else (let v6 = (hd ip0 = CHR ''['');
                    ip = (if v6 then butlast (tl ip0) else ip0)
                in case parse_uint16 port of
                     None \<Rightarrow> None
                   | Some p \<Rightarrow>
                       (case ParseAddr ip of
                          None \<Rightarrow> None
                        | Some a \<Rightarrow> if v6 \<and> Is4 a then None
                                    else if \<not> v6 \<and> Is6 a then None else Some (a, p))))"

definition parseGrantEntry :: "string \<Rightarrow> (addr \<times> int) result" where
  "parseGrantEntry entry =
     (case cut CHR '':'' entry of
        None \<Rightarrow> Inl (Errorf ''must be ip:port'')
      | Some (host, portStr) \<Rightarrow>
          (case ParseAddrPort entry of
             Some (ip, port) \<Rightarrow> Inr (Unmap ip, port)
           | None \<Rightarrow>
               (case ParseAddr host of
                  None \<Rightarrow> Inl (Errorf ''host must be a literal IP'')
                | Some ip \<Rightarrow>
                    (case atoi portStr of
                       None \<Rightarrow> Inl (Errorf ''invalid port'')
                     | Some port \<Rightarrow> if port < 1 \<or> port > 65535 then Inl (Errorf ''invalid port'')
                                    else Inr (Unmap ip, port)))))"

definition set_sup :: "string \<Rightarrow> activeEgress \<Rightarrow> Supervisor \<Rightarrow> Runner \<Rightarrow> Runner" where
  "set_sup sandboxID ae sv r = r\<lparr>rn_active := (rn_active r)(sandboxID \<mapsto> ae\<lparr>ae_sup := Some sv\<rparr>)\<rparr>"

definition set_allow :: "Allowlist \<Rightarrow> Supervisor \<Rightarrow> Supervisor" where
  "set_allow al sv = sv\<lparr>sv_stack := (sv_stack sv)\<lparr>es_allow := al\<rparr>\<rparr>"

abbreviation sup_allow :: "Supervisor \<Rightarrow> Allowlist" where
  "sup_allow sv \<equiv> es_allow (sv_stack sv)"

text \<open>\<open>ae.sup.Allowlist()\<close> reads a field of the supervisor, so it panics when there is none.\<close>

definition nil_supervisor :: err where
  "nil_supervisor = Panic ''nil pointer dereference: Supervisor.Allowlist''"

definition AllowEgress :: "string \<Rightarrow> string \<Rightarrow> Runner \<Rightarrow> err option \<times> Runner" where
  "AllowEgress sandboxID entry r =
     (case parseGrantEntry entry of
        Inl e \<Rightarrow> (Some (Wrap (''egress runner: grant '' @ entry) e), r)
      | Inr (ip, port) \<Rightarrow>
          (case rn_active r sandboxID of
             None \<Rightarrow> (Some (Errorf ''egress runner: grant: sandbox has no running egress stack''), r)
           | Some ae \<Rightarrow>
               (case ae_sup ae of
                  None \<Rightarrow> (Some nil_supervisor, r)
                | Some sv \<Rightarrow>
                    (case GrantIP (sup_allow sv) ip port of
                       Inl e \<Rightarrow> (Some (Wrap ''egress runner: grant'' e), r)
                     | Inr al \<Rightarrow> (None, set_sup sandboxID ae (set_allow al sv) r)))))"

definition RevokeAll :: "string \<Rightarrow> Runner \<Rightarrow> err option \<times> Runner" where
  "RevokeAll sandboxID r =
     (case rn_active r sandboxID of
        None \<Rightarrow> (None, r)
      | Some ae \<Rightarrow>
          (case ae_sup ae of
             None \<Rightarrow> (Some nil_supervisor, r)
           | Some sv \<Rightarrow> (None, set_sup sandboxID ae (set_allow (RevokeGrants (sup_allow sv)) sv) r)))"

definition allowlistFor :: "string \<Rightarrow> Runner \<Rightarrow> Allowlist option result" where
  "allowlistFor sandboxID r =
     (case rn_active r sandboxID of
        None \<Rightarrow> Inr None
      | Some ae \<Rightarrow> (case ae_sup ae of None \<Rightarrow> Inl nil_supervisor | Some sv \<Rightarrow> Inr (Some (sup_allow sv))))"

section \<open>Live policy changes (\<open>livepolicy.go\<close>)\<close>

record PolicyChange =
  pc_SandboxID :: string
  pc_Entries :: "string list"
  pc_RuleCount :: int
  pc_Killed :: int
  pc_Drained :: bool

record PolicyState =
  ps_SandboxID :: string
  ps_Entries :: "string list"
  ps_RuleCount :: int

definition Policy :: "string \<Rightarrow> Runner \<Rightarrow> PolicyState result" where
  "Policy sandboxID r =
     (case rn_active r sandboxID of
        None \<Rightarrow> Inl (Errorf ''egress runner: policy: sandbox has no running egress stack'')
      | Some ae \<Rightarrow>
          (case ae_sup ae of
             None \<Rightarrow> Inl nil_supervisor
           | Some sv \<Rightarrow> Inr \<lparr>ps_SandboxID = sandboxID, ps_Entries = Rules (sup_allow sv),
                             ps_RuleCount = Entries (sup_allow sv)\<rparr>))"

definition SetPolicy :: "string \<Rightarrow> string list \<Rightarrow> bool \<Rightarrow> Runner \<Rightarrow> PolicyChange result \<times> Runner" where
  "SetPolicy sandboxID entries drain r =
     (case rn_active r sandboxID of
        None \<Rightarrow> (Inl (Errorf ''egress runner: set policy: sandbox has no running egress stack''), r)
      | Some ae \<Rightarrow>
          (case ae_sup ae of
             None \<Rightarrow> (Inl nil_supervisor, r)
           | Some sv \<Rightarrow>
               (case SetRules (sup_allow sv) entries of
                  Inl e \<Rightarrow> (Inl (Wrap ''egress runner: set policy'' e), r)
                | Inr al \<Rightarrow>
                    (let sv1 = set_allow al sv;
                         change = \<lparr>pc_SandboxID = sandboxID, pc_Entries = entries, pc_RuleCount = Entries al,
                                   pc_Killed = 0, pc_Drained = drain\<rparr>
                     in if drain then (Inr change, set_sup sandboxID ae sv1 r)
                        else (case CloseAll (sv_flows sv1) of
                                (flows, conns, killed) \<Rightarrow>
                                  (Inr (change\<lparr>pc_Killed := killed\<rparr>),
                                   (set_sup sandboxID ae (sv1\<lparr>sv_flows := flows\<rparr>) r)
                                     \<lparr>rn_closed := rn_closed r @ conns\<rparr>))))))"

section \<open>Connections of a running sandbox\<close>

text \<open>
  A step of the data path of one sandbox; a sandbox without a supervisor has no
  transparent listener, so no connection reaches it.
\<close>

definition on_stack :: "string \<Rightarrow> (Supervisor \<Rightarrow> Supervisor \<times> nat list) \<Rightarrow> Runner \<Rightarrow> Runner" where
  "on_stack sandboxID f r =
     (case rn_active r sandboxID of
        None \<Rightarrow> r
      | Some ae \<Rightarrow>
          (case ae_sup ae of
             None \<Rightarrow> r
           | Some sv \<Rightarrow> (case f sv of (sv', closed) \<Rightarrow>
               (set_sup sandboxID ae sv' r)\<lparr>rn_closed := rn_closed r @ closed\<rparr>)))"

datatype runner_op =
    StartOp listen Binding
  | StopOp "err option" "err option" string
  | AllowOp string string
  | RevokeAllOp string
  | SetPolicyOp string "string list" bool
  | ConnOp string "string \<Rightarrow> addr list result" time nat "(addr \<times> int) result"
  | DialedOp string nat "nat result"
  | ConnEndOp string nat

fun runner_step :: "runner_op \<Rightarrow> Runner \<Rightarrow> Runner" where
  "runner_step (StartOp os b) r = snd (Start os b r)"
| "runner_step (StopOp e1 e2 sid) r = snd (Stop e1 e2 sid r)"
| "runner_step (AllowOp sid entry) r = snd (AllowEgress sid entry r)"
| "runner_step (RevokeAllOp sid) r = snd (RevokeAll sid r)"
| "runner_step (SetPolicyOp sid es drain) r = snd (SetPolicy sid es drain r)"
| "runner_step (ConnOp sid up now g dst) r = on_stack sid (handle_authorize up now g dst) r"
| "runner_step (DialedOp sid g dialed) r = on_stack sid (handle_dial g dialed) r"
| "runner_step (ConnEndOp sid k) r = on_stack sid (\<lambda>sv. (handle_end k sv, [])) r"

section \<open>Sockets\<close>

text \<open>
  What the runner keeps: the open sockets are exactly the ones of the active
  entries, no socket belongs to two entries, and an entry is either a full stack
  with three sockets or an open-mode resolver with one.
\<close>

definition entry_ok :: "activeEgress \<Rightarrow> bool" where
  "entry_ok ae \<longleftrightarrow> distinct (ae_sockets ae) \<and> ae_udp ae \<noteq> None \<and>
     (if ae_sup ae = None then ae_tcp ae = None \<and> ae_transparent ae = None
      else ae_tcp ae \<noteq> None \<and> ae_transparent ae \<noteq> None)"

definition sockets_ok :: "Runner \<Rightarrow> bool" where
  "sockets_ok r \<longleftrightarrow> distinct (rn_open r) \<and> (\<forall>k \<in> set (rn_open r). k < rn_next r)
     \<and> set (rn_open r) = (\<Union>ae \<in> ran (rn_active r). set (ae_sockets ae))
     \<and> (\<forall>ae \<in> ran (rn_active r). entry_ok ae)
     \<and> (\<forall>s t a b. rn_active r s = Some a \<and> rn_active r t = Some b \<and> s \<noteq> t \<longrightarrow> set (ae_sockets a) \<inter> set (ae_sockets b) = {})"

lemma sockets_okI:
  assumes "distinct (rn_open r)" "\<And>k. k \<in> set (rn_open r) \<Longrightarrow> k < rn_next r"
    and "set (rn_open r) = (\<Union>ae \<in> ran (rn_active r). set (ae_sockets ae))"
    and "\<And>ae. ae \<in> ran (rn_active r) \<Longrightarrow> entry_ok ae"
    and "\<And>s t a b. rn_active r s = Some a \<Longrightarrow> rn_active r t = Some b \<Longrightarrow> s \<noteq> t \<Longrightarrow>
           set (ae_sockets a) \<inter> set (ae_sockets b) = {}"
  shows "sockets_ok r"
  unfolding sockets_ok_def using assms(1,3) by (intro conjI allI impI ballI) (auto intro: assms(2,4) dest: assms(5))

lemma sockets_okD:
  assumes "sockets_ok r"
  shows "distinct (rn_open r)" "k \<in> set (rn_open r) \<Longrightarrow> k < rn_next r"
    "set (rn_open r) = (\<Union>ae \<in> ran (rn_active r). set (ae_sockets ae))"
    "ae \<in> ran (rn_active r) \<Longrightarrow> entry_ok ae"
    "rn_active r s = Some a \<Longrightarrow> rn_active r t = Some b \<Longrightarrow> s \<noteq> t \<Longrightarrow> set (ae_sockets a) \<inter> set (ae_sockets b) = {}"
  using assms unfolding sockets_ok_def by (simp, simp, simp, simp, metis)

lemma opt_list_simps [simp]: "opt_list None = []" "opt_list (Some a) = [a]"
  by (simp_all add: opt_list_def)

lemma close_fresh:
  "\<forall>k \<in> set (rn_open r). k < rn_next r \<Longrightarrow> set ks \<inter> {0..<rn_next r} = {} \<Longrightarrow>
     filter (\<lambda>k. k \<notin> set ks) (rn_open r) = rn_open r"
  by (rule filter_True) auto

text \<open>A start leaves the sockets as they were or adds one entry with new ones.\<close>

definition start_adds :: "Runner \<Rightarrow> string \<Rightarrow> Runner \<Rightarrow> bool" where
  "start_adds r sid r' \<longleftrightarrow> rn_active r sid = None \<and> rn_next r \<le> rn_next r' \<and>
     (\<exists>ae new. rn_active r' = (rn_active r)(sid \<mapsto> ae) \<and> rn_open r' = new @ rn_open r \<and> distinct new
        \<and> set new = set (ae_sockets ae) \<and> set new \<subseteq> {rn_next r..<rn_next r'} \<and> entry_ok ae)"

definition start_keeps :: "Runner \<Rightarrow> Runner \<Rightarrow> bool" where
  "start_keeps r r' \<longleftrightarrow> rn_active r' = rn_active r \<and> rn_open r' = rn_open r \<and> rn_next r \<le> rn_next r'"

lemma listen_both_cases:
  assumes "listen_both os gw r = (res, r1)" and fresh: "\<forall>k \<in> set (rn_open r). k < rn_next r"
  shows "(\<exists>e. res = Inl e \<and> start_keeps r r1) \<or>
    (\<exists>ep. res = Inr \<lparr>ae_tcp = Some (rn_next r), ae_udp = Some (Suc (rn_next r)), ae_transparent = None,
        ae_endpoints = ep, ae_sup = None\<rparr>
      \<and> r1 = r\<lparr>rn_open := [Suc (rn_next r), rn_next r] @ rn_open r, rn_next := Suc (Suc (rn_next r))\<rparr>)"
proof -
  have "filter (\<lambda>k. k \<noteq> rn_next r) (rn_open r) = rn_open r"
    by (rule filter_True) (use fresh in auto)
  then show ?thesis using assms(1)
    by (auto simp: listen_both_def open_socket_def close_sockets_def start_keeps_def split: sum.splits)
qed

lemma startOpenDNS_cases:
  "startOpenDNS os b r = (res, r') \<Longrightarrow> start_keeps r r' \<or> start_adds r (bd_SandboxID b) r'"
  by (auto simp: startOpenDNS_def start_keeps_def start_adds_def entry_ok_def ae_sockets_def open_socket_def
      Let_def split: if_splits sum.splits option.splits)

lemma Start_cases:
  assumes "Start os b r = (res, r')" and fresh: "\<forall>k \<in> set (rn_open r). k < rn_next r"
  shows "start_keeps r r' \<or> start_adds r (bd_SandboxID b) r'"
proof (cases "np_Mode (bd_Policy b) = NetworkModeNone \<or> np_Mode (bd_Policy b) = NetworkModeOpen
    \<or> rn_active r (bd_SandboxID b) \<noteq> None")
  case True
  then show ?thesis using assms(1) startOpenDNS_cases[of os b r res r']
    by (auto simp: Start_def start_keeps_def split: if_splits)
next
  case False
  note start = assms(1)[unfolded Start_def] and off = False
  show ?thesis
  proof (cases "NewSupervisor (supervisor_config b r)")
    case (Inl e)
    then show ?thesis using start False by (simp add: start_keeps_def)
  next
    case (Inr sv)
    obtain res1 r1 where l: "listen_both os (bd_GatewayIP b) r = (res1, r1)" by fastforce
    show ?thesis using listen_both_cases[OF l fresh]
    proof
      assume "\<exists>e. res1 = Inl e \<and> start_keeps r r1"
      then show ?thesis using start False Inr l by auto
    next
      let ?n = "rn_next r"
      assume "\<exists>ep. res1 = Inr \<lparr>ae_tcp = Some ?n, ae_udp = Some (Suc ?n), ae_transparent = None,
          ae_endpoints = ep, ae_sup = None\<rparr>
        \<and> r1 = r\<lparr>rn_open := [Suc ?n, ?n] @ rn_open r, rn_next := Suc (Suc ?n)\<rparr>"
      then obtain ep where res1: "res1 = Inr \<lparr>ae_tcp = Some ?n, ae_udp = Some (Suc ?n), ae_transparent = None,
          ae_endpoints = ep, ae_sup = None\<rparr>"
        and r1: "r1 = r\<lparr>rn_open := [Suc ?n, ?n] @ rn_open r, rn_next := Suc (Suc ?n)\<rparr>" by blast
      have gone: "filter (\<lambda>k. k \<noteq> ?n \<and> k \<noteq> Suc ?n) (rn_open r) = rn_open r"
        by (rule filter_True) (use fresh in auto)
      show ?thesis
      proof (cases "os 2 ''tcp'' (host_port (bd_GatewayIP b) (rn_TransparentPort (rn_cfg r)))")
        case (Inl e)
        then have "start_keeps r r'" using start False Inr l res1 r1 gone
          by (auto simp: open_socket_def NewTransparentProxy_def closeListeners_def close_sockets_def
              ae_sockets_def start_keeps_def)
        then show ?thesis ..
      next
        case (Inr addr)
        then have "r' = r1\<lparr>rn_open := Suc (Suc ?n) # rn_open r1, rn_next := Suc (Suc (Suc ?n)),
            rn_active := (rn_active r)(bd_SandboxID b \<mapsto> \<lparr>ae_tcp = Some ?n, ae_udp = Some (Suc ?n),
              ae_transparent = Some (Suc (Suc ?n)), ae_endpoints = ep\<lparr>ep_TransparentAddr := addr\<rparr>, ae_sup = Some sv\<rparr>)\<rparr>"
          using start False \<open>NewSupervisor (supervisor_config b r) = Inr sv\<close> l res1 r1
          by (simp add: open_socket_def NewTransparentProxy_def)
        then have "start_adds r (bd_SandboxID b) r'" using False r1
          by (auto simp: start_adds_def entry_ok_def ae_sockets_def
              intro!: exI[of _ "[Suc (Suc ?n), Suc ?n, ?n]"])
        then show ?thesis ..
      qed
    qed
  qed
qed

lemma start_adds_sockets_ok:
  assumes "sockets_ok r" "start_adds r sid r'"
  shows "sockets_ok r'"
proof -
  note ok = sockets_okD[OF assms(1)]
  from assms(2) obtain ae new where a: "rn_active r' = (rn_active r)(sid \<mapsto> ae)" "rn_open r' = new @ rn_open r"
    "distinct new" "set new = set (ae_sockets ae)" "set new \<subseteq> {rn_next r..<rn_next r'}" "entry_ok ae"
    and off: "rn_active r sid = None" and le: "rn_next r \<le> rn_next r'" unfolding start_adds_def by blast
  have ran: "ran (rn_active r') = insert ae (ran (rn_active r))" using a(1) off by simp
  have fresh: "set (rn_open r) \<inter> set new = {}" using ok(2) a(5) by fastforce
  have below: "set (ae_sockets b) \<inter> set (ae_sockets ae) = {}" if "rn_active r s = Some b" for s b
  proof -
    have "b \<in> ran (rn_active r)" using that by (rule ranI)
    then have "set (ae_sockets b) \<subseteq> set (rn_open r)" unfolding ok(3) by (rule UN_upper)
    then show ?thesis using fresh a(4) by fast
  qed
  show ?thesis
  proof (rule sockets_okI)
    show "distinct (rn_open r')" using a(2,3) ok(1) fresh by auto
    show "k < rn_next r'" if "k \<in> set (rn_open r')" for k
      using that a(2,5) ok(2)[of k] le by auto
    show "set (rn_open r') = (\<Union>b \<in> ran (rn_active r'). set (ae_sockets b))"
      unfolding ran a(2) using ok(3) a(4) by simp
    show "entry_ok b" if "b \<in> ran (rn_active r')" for b using that a(6) ok(4)[of b] unfolding ran by blast
    show "set (ae_sockets x) \<inter> set (ae_sockets y) = {}"
      if x: "rn_active r' s = Some x" and y: "rn_active r' t = Some y" and ne: "s \<noteq> t" for s t x y
    proof -
      consider "s = sid" "rn_active r t = Some y" "x = ae" | "t = sid" "rn_active r s = Some x" "y = ae"
        | "rn_active r s = Some x" "rn_active r t = Some y"
        using x y ne a(1) by (metis fun_upd_apply option.inject)
      then show ?thesis using below ok(5)[OF _ _ ne] by cases blast+
    qed
  qed
qed

lemma start_keeps_sockets_ok:
  assumes "sockets_ok r" "start_keeps r r'"
  shows "sockets_ok r'"
proof -
  note ok = sockets_okD[OF assms(1)]
  have same: "rn_active r' = rn_active r" "rn_open r' = rn_open r" "rn_next r \<le> rn_next r'"
    using assms(2) by (simp_all add: start_keeps_def)
  show ?thesis
  proof (rule sockets_okI)
    show "k < rn_next r'" if "k \<in> set (rn_open r')" for k
      using that ok(2)[of k] same(2,3) by simp
  qed (use ok(1,3,4,5) in \<open>simp_all add: same(1,2)\<close>)
qed

lemma Stop_sockets_ok:
  assumes "sockets_ok r"
  shows "sockets_ok (snd (Stop e1 e2 sid r))"
proof (cases "rn_active r sid")
  case None
  then show ?thesis using assms by (simp add: Stop_def)
next
  case (Some ae)
  note ok = sockets_okD[OF assms]
  let ?r = "snd (Stop e1 e2 sid r)"
  have "entry_ok ae" using ok(4) Some by (simp add: ranI)
  then obtain udp where udp: "ae_udp ae = Some udp" by (auto simp: entry_ok_def)
  have opened: "rn_open ?r = filter (\<lambda>k. k \<notin> set (ae_sockets ae)) (rn_open r)"
    using Some udp by (auto simp: Stop_def close_sockets_def ae_sockets_def intro: filter_cong)
  have act: "rn_active ?r = (rn_active r)(sid := None)" and nx: "rn_next ?r = rn_next r"
    using Some udp by (auto simp: Stop_def close_sockets_def)
  have other: "s \<noteq> sid \<and> rn_active r s = Some b" if "rn_active ?r s = Some b" for s b
    using that unfolding act by (simp split: if_splits)
  show ?thesis
  proof (rule sockets_okI)
    show "distinct (rn_open ?r)" using ok(1) by (simp add: opened)
    show "k < rn_next ?r" if "k \<in> set (rn_open ?r)" for k using that ok(2)[of k] by (simp add: opened nx)
    show "entry_ok b" if "b \<in> ran (rn_active ?r)" for b
      using that ok(4)[of b] other by (fastforce simp: ran_def)
    show "set (ae_sockets a) \<inter> set (ae_sockets b) = {}"
      if "rn_active ?r s = Some a" "rn_active ?r t = Some b" "s \<noteq> t" for s t a b
      using other[OF that(1)] other[OF that(2)] ok(5) that(3) by blast
    show "set (rn_open ?r) = (\<Union>b \<in> ran (rn_active ?r). set (ae_sockets b))"
    proof (rule set_eqI)
      fix k
      have held: "k \<in> set (rn_open r) \<longleftrightarrow> (\<exists>s b. rn_active r s = Some b \<and> k \<in> set (ae_sockets b))"
        unfolding ok(3) by (auto simp: ran_def)
      have "k \<notin> set (ae_sockets ae)" if "s \<noteq> sid" "rn_active r s = Some b" "k \<in> set (ae_sockets b)" for s b
        using ok(5)[OF Some that(2)] that by blast
      then have "k \<in> set (rn_open r) \<and> k \<notin> set (ae_sockets ae) \<longleftrightarrow>
          (\<exists>s b. s \<noteq> sid \<and> rn_active r s = Some b \<and> k \<in> set (ae_sockets b))"
        unfolding held using Some by (metis option.inject)
      then show "k \<in> set (rn_open ?r) \<longleftrightarrow> k \<in> (\<Union>b \<in> ran (rn_active ?r). set (ae_sockets b))"
        by (auto simp: opened act ran_def)
    qed
  qed
qed

text \<open>Every other operation changes at most the supervisor of one entry that has one.\<close>

definition touches_sup :: "Runner \<Rightarrow> Runner \<Rightarrow> bool" where
  "touches_sup r r' \<longleftrightarrow> rn_open r' = rn_open r \<and> rn_next r' = rn_next r \<and>
     (rn_active r' = rn_active r \<or>
      (\<exists>sid ae sv sv'. rn_active r sid = Some ae \<and> ae_sup ae = Some sv
         \<and> rn_active r' = (rn_active r)(sid \<mapsto> ae\<lparr>ae_sup := Some sv'\<rparr>)))"

lemma touches_sup_refl [simp]: "touches_sup r r"
  by (simp add: touches_sup_def)

lemma touches_set_sup:
  "rn_active r sid = Some ae \<Longrightarrow> ae_sup ae = Some sv \<Longrightarrow> touches_sup r (set_sup sid ae sv' r)"
  "rn_active r sid = Some ae \<Longrightarrow> ae_sup ae = Some sv \<Longrightarrow> touches_sup r ((set_sup sid ae sv' r)\<lparr>rn_closed := c\<rparr>)"
  by (auto simp: touches_sup_def set_sup_def)

lemma AllowEgress_touches: "touches_sup r (snd (AllowEgress sid entry r))"
  by (auto simp: AllowEgress_def touches_set_sup split: sum.splits option.splits prod.splits)

lemma RevokeAll_touches: "touches_sup r (snd (RevokeAll sid r))"
  by (auto simp: RevokeAll_def touches_set_sup split: option.splits)

lemma SetPolicy_touches: "touches_sup r (snd (SetPolicy sid es drain r))"
  by (auto simp: SetPolicy_def Let_def touches_set_sup split: option.splits sum.splits prod.splits)

lemma on_stack_touches: "touches_sup r (on_stack sid f r)"
  by (auto simp: on_stack_def touches_set_sup split: option.splits prod.splits)

lemma ae_sockets_sup [simp]: "ae_sockets (ae\<lparr>ae_sup := x\<rparr>) = ae_sockets ae"
  by (simp add: ae_sockets_def)

lemma entry_ok_sup: "ae_sup ae = Some sv \<Longrightarrow> entry_ok ae \<Longrightarrow> entry_ok (ae\<lparr>ae_sup := Some sv'\<rparr>)"
  by (simp add: entry_ok_def)

lemma touches_sockets_ok:
  assumes "sockets_ok r" "touches_sup r r'"
  shows "sockets_ok r'"
proof -
  note ok = sockets_okD[OF assms(1)]
  have same: "rn_open r' = rn_open r" "rn_next r' = rn_next r" using assms(2) by (auto simp: touches_sup_def)
  have fwd: "\<exists>b. rn_active r s = Some b \<and> ae_sockets b = ae_sockets a \<and> (entry_ok b \<longrightarrow> entry_ok a)"
    if "rn_active r' s = Some a" for s a
    using that assms(2) entry_ok_sup by (auto simp: touches_sup_def split: if_splits)
  have bwd: "\<exists>a. rn_active r' s = Some a \<and> ae_sockets b = ae_sockets a" if "rn_active r s = Some b" for s b
    using that assms(2) by (auto simp: touches_sup_def)
  show ?thesis
  proof (rule sockets_okI)
    show "distinct (rn_open r')" using ok(1) by (simp add: same)
    show "k < rn_next r'" if "k \<in> set (rn_open r')" for k using that ok(2) by (simp add: same)
    show "entry_ok b" if "b \<in> ran (rn_active r')" for b
      using that fwd ok(4) by (fastforce simp: ran_def)
    show "set (ae_sockets a) \<inter> set (ae_sockets b) = {}"
      if "rn_active r' s = Some a" "rn_active r' t = Some b" "s \<noteq> t" for s t a b
      using fwd[OF that(1)] fwd[OF that(2)] ok(5)[OF _ _ that(3)] by metis
    show "set (rn_open r') = (\<Union>b \<in> ran (rn_active r'). set (ae_sockets b))"
    proof (rule set_eqI)
      fix k
      have "(\<exists>s b. rn_active r s = Some b \<and> k \<in> set (ae_sockets b)) \<longleftrightarrow>
          (\<exists>s a. rn_active r' s = Some a \<and> k \<in> set (ae_sockets a))"
        using fwd bwd by metis
      then show "k \<in> set (rn_open r') \<longleftrightarrow> k \<in> (\<Union>b \<in> ran (rn_active r'). set (ae_sockets b))"
        unfolding same ok(3) by (auto simp: ran_def)
    qed
  qed
qed

lemma runner_step_sockets_ok:
  assumes "sockets_ok r"
  shows "sockets_ok (runner_step x r)"
proof (cases x)
  case (StartOp os b)
  have "\<forall>k \<in> set (rn_open r). k < rn_next r" using sockets_okD(2)[OF assms] by blast
  then have "start_keeps r (snd (Start os b r)) \<or> start_adds r (bd_SandboxID b) (snd (Start os b r))"
    by (rule Start_cases[OF prod.collapse[symmetric]])
  then have "sockets_ok (snd (Start os b r))"
    by (rule disjE) (rule start_keeps_sockets_ok[OF assms] start_adds_sockets_ok[OF assms], assumption)+
  then show ?thesis using StartOp by simp
qed (simp_all add: assms Stop_sockets_ok touches_sockets_ok[OF assms] AllowEgress_touches RevokeAll_touches
    SetPolicy_touches on_stack_touches)

interpretation sockets: invariant runner_step sockets_ok
  by unfold_locales (rule runner_step_sockets_ok)

section \<open>Properties of the runner\<close>

lemma NewRunner_sockets_ok: "NewRunner cfg = Inr r \<Longrightarrow> sockets_ok r"
  by (auto simp: NewRunner_def sockets_ok_def split: if_splits)

text \<open>
  C34. The runner leaks no socket. After any sequence of starts, stops, grants,
  policy changes and connections, with any listen or close failing, every open
  socket belongs to exactly one running sandbox and every socket of a running
  sandbox is open. A running sandbox has a DNS socket and either the whole allowlist
  stack (proxy, transparent listener, supervisor) or none of it; stopping it never
  trips over a missing socket.
\<close>

theorem runner_leaks_no_socket:
  assumes "NewRunner cfg = Inr r0" and "r = fold runner_step ops r0"
  shows "distinct (rn_open r)
    \<and> (\<forall>k. k \<in> set (rn_open r) \<longleftrightarrow> (\<exists>!sid. \<exists>ae. rn_active r sid = Some ae \<and> k \<in> set (ae_sockets ae)))
    \<and> (\<forall>sid ae. rn_active r sid = Some ae \<longrightarrow> ae_udp ae \<noteq> None
          \<and> (ae_sup ae = None \<longleftrightarrow> ae_tcp ae = None) \<and> (ae_sup ae = None \<longleftrightarrow> ae_transparent ae = None))
    \<and> (\<forall>sid. fst (Stop None None sid r) = None)"
proof -
  have "sockets_ok r" using assms by (simp add: sockets.run_inv NewRunner_sockets_ok)
  note ok = sockets_okD[OF this]
  have entry: "entry_ok ae" if "rn_active r sid = Some ae" for sid ae using ok(4) that by (simp add: ranI)
  have shape: "ae_udp ae \<noteq> None \<and> (ae_sup ae = None \<longleftrightarrow> ae_tcp ae = None)
      \<and> (ae_sup ae = None \<longleftrightarrow> ae_transparent ae = None)" if "rn_active r sid = Some ae" for sid ae
    using entry[OF that] by (auto simp: entry_ok_def split: if_splits)
  have stop: "fst (Stop None None sid r) = None" for sid
    using entry[of sid] by (fastforce simp: Stop_def entry_ok_def Let_def split: option.splits)
  have held: "k \<in> set (rn_open r) \<longleftrightarrow> (\<exists>s b. rn_active r s = Some b \<and> k \<in> set (ae_sockets b))" for k
    unfolding ok(3) by (auto simp: ran_def)
  have once: "s = t" if "rn_active r s = Some a" "k \<in> set (ae_sockets a)"
    "rn_active r t = Some b" "k \<in> set (ae_sockets b)" for k s t a b
    using ok(5)[OF that(1,3)] that(2,4) by blast
  have "k \<in> set (rn_open r) \<longleftrightarrow> (\<exists>!sid. \<exists>ae. rn_active r sid = Some ae \<and> k \<in> set (ae_sockets ae))" for k
    unfolding held using once by metis
  then show ?thesis using ok(1) shape stop by blast
qed

definition demo_runner_cfg :: RunnerConfig where
  "demo_runner_cfg = \<lparr>rn_hasAudit = True, rn_hasLookup = True, rn_hasDial = True, rn_hasClock = True,
     rn_hasLogger = True, rn_ProxyPort = 1080, rn_DNSPort = 53, rn_TransparentPort = 1081\<rparr>"

definition demo_runner :: Runner where
  "demo_runner = \<lparr>rn_cfg = demo_runner_cfg, rn_active = (\<lambda>_. None), rn_denialObserver = False,
     rn_open = [], rn_next = 0, rn_closed = []\<rparr>"

definition demo_listen :: listen where
  "demo_listen n net a = Inr a"

definition demo_binding :: "string \<Rightarrow> string list \<Rightarrow> Binding" where
  "demo_binding mode entries = \<lparr>bd_SandboxID = ''sb1'', bd_TaskID = ''MGIT-1'', bd_GatewayIP = V4 0x0A000001,
     bd_Policy = \<lparr>np_Mode = mode, np_Allowlist = entries\<rparr>\<rparr>"

definition demo_start :: runner_op where
  "demo_start = StartOp demo_listen (demo_binding NetworkModeAllowlist [''93.184.216.34''])"

definition third_listen_fails :: listen where
  "third_listen_fails n net a = (if n = 2 then Inl (Errorf ''address already in use'') else Inr a)"

theorem runner_leaks_no_socket_witness:
  "NewRunner demo_runner_cfg = Inr demo_runner
   \<and> rn_open (fold runner_step [demo_start] demo_runner) = [2, 1, 0]
   \<and> rn_open (fold runner_step [StartOp third_listen_fails (demo_binding NetworkModeAllowlist [''93.184.216.34''])]
        demo_runner) = []
   \<and> (\<exists>!sid. \<exists>ae. rn_active (fold runner_step [demo_start] demo_runner) sid = Some ae \<and> 2 \<in> set (ae_sockets ae))"
proof -
  have new: "NewRunner demo_runner_cfg = Inr demo_runner"
    by (simp add: NewRunner_def demo_runner_cfg_def demo_runner_def)
  have up: "rn_open (fold runner_step [demo_start] demo_runner) = [2, 1, 0]" by code_simp
  moreover have "rn_open (fold runner_step [StartOp third_listen_fails
      (demo_binding NetworkModeAllowlist [''93.184.216.34''])] demo_runner) = []" by code_simp
  moreover have "\<exists>!sid. \<exists>ae. rn_active (fold runner_step [demo_start] demo_runner) sid = Some ae
      \<and> 2 \<in> set (ae_sockets ae)"
    using runner_leaks_no_socket[OF new refl, of "[demo_start]", THEN conjunct2, THEN conjunct1, rule_format, of 2]
    unfolding up by simp
  ultimately show ?thesis using new by blast
qed

text \<open>
  Replacing the policy of a running sandbox without draining takes effect at
  once and reports what it did: the rules in force are exactly the compiled entries
  with no grant left, every established flow is closed on both sides and counted,
  no flow is tracked any more, and no other sandbox is touched. A policy that does
  not compile changes nothing.
\<close>

theorem policy_change_is_exact:
  assumes "rn_active r sid = Some ae" and "ae_sup ae = Some sv"
  shows "(\<forall>ch r'. SetPolicy sid es False r = (Inr ch, r') \<longrightarrow>
      (\<exists>sv'. rn_active r' = (rn_active r)(sid \<mapsto> ae\<lparr>ae_sup := Some sv'\<rparr>)
         \<and> Compile es = Inr (sup_allow sv') \<and> al_grants (sup_allow sv') = {}
         \<and> Policy sid r' = Inr \<lparr>ps_SandboxID = sid, ps_Entries = es, ps_RuleCount = pc_RuleCount ch\<rparr>
         \<and> fr_conns (sv_flows sv') = [] \<and> pc_Killed ch = Flows_Len (sv_flows sv)
         \<and> (\<forall>k a b. (k, a, b) \<in> set (fr_conns (sv_flows sv)) \<longrightarrow> a \<in> set (rn_closed r') \<and> b \<in> set (rn_closed r'))))
    \<and> ((\<exists>e. fst (SetPolicy sid es drain r) = Inl e) \<longleftrightarrow> (\<exists>e. Compile es = Inl e))
    \<and> (\<forall>e. fst (SetPolicy sid es drain r) = Inl e \<longrightarrow> snd (SetPolicy sid es drain r) = r)"
proof (cases "Compile es")
  case (Inl e)
  then have "SetPolicy sid es d r = (Inl (Wrap ''egress runner: set policy'' (Wrap ''egress policy'' e)), r)" for d
    using assms by (simp add: SetPolicy_def SetRules_def)
  then show ?thesis using Inl by simp
next
  case (Inr al)
  then have rules: "SetRules (sup_allow sv) es = Inr al" by (simp add: SetRules_Inr)
  let ?sv = "(set_allow al sv)\<lparr>sv_flows := (sv_flows sv)\<lparr>fr_conns := []\<rparr>\<rparr>"
  have change: "SetPolicy sid es False r =
      (Inr \<lparr>pc_SandboxID = sid, pc_Entries = es, pc_RuleCount = Entries al, pc_Killed = Flows_Len (sv_flows sv),
            pc_Drained = False\<rparr>,
       (set_sup sid ae ?sv r)\<lparr>rn_closed := rn_closed r @ concat (map (\<lambda>(_, a, b). [a, b]) (fr_conns (sv_flows sv)))\<rparr>)"
    using assms rules by (simp add: SetPolicy_def CloseAll_def set_allow_def Flows_Len_def)
  let ?closed = "concat (map (\<lambda>(_, a, b). [a, b]) (fr_conns (sv_flows sv)))"
  have both: "a \<in> set ?closed \<and> b \<in> set ?closed" if "(k, a, b) \<in> set (fr_conns (sv_flows sv))" for k a b
    using that by force
  have "\<exists>x. fst (SetPolicy sid es drain r) = Inr x"
    using assms rules by (cases drain) (auto simp: SetPolicy_def CloseAll_def Let_def)
  moreover have "al_grants al = {}" "al_source al = es" using Compile_facts[OF Inr] by auto
  moreover have "\<exists>sv'. rn_active r' = (rn_active r)(sid \<mapsto> ae\<lparr>ae_sup := Some sv'\<rparr>)
         \<and> Compile es = Inr (sup_allow sv') \<and> al_grants (sup_allow sv') = {}
         \<and> Policy sid r' = Inr \<lparr>ps_SandboxID = sid, ps_Entries = es, ps_RuleCount = pc_RuleCount ch\<rparr>
         \<and> fr_conns (sv_flows sv') = [] \<and> pc_Killed ch = Flows_Len (sv_flows sv)
         \<and> (\<forall>k a b. (k, a, b) \<in> set (fr_conns (sv_flows sv)) \<longrightarrow> a \<in> set (rn_closed r') \<and> b \<in> set (rn_closed r'))"
    if "SetPolicy sid es False r = (Inr ch, r')" for ch r'
  proof -
    from that change have r': "r' = (set_sup sid ae ?sv r)\<lparr>rn_closed := rn_closed r @ ?closed\<rparr>"
      and ch: "pc_RuleCount ch = Entries al" "pc_Killed ch = Flows_Len (sv_flows sv)" by auto
    have "rn_closed r' = rn_closed r @ ?closed" by (simp add: r')
    then have "\<forall>k a b. (k, a, b) \<in> set (fr_conns (sv_flows sv)) \<longrightarrow> a \<in> set (rn_closed r') \<and> b \<in> set (rn_closed r')"
      using both by simp
    moreover have "rn_active r' = (rn_active r)(sid \<mapsto> ae\<lparr>ae_sup := Some ?sv\<rparr>)" by (simp add: r' set_sup_def)
    ultimately show ?thesis using ch Compile_facts[OF Inr] Inr
      by (intro exI[of _ ?sv]) (simp add: set_allow_def Policy_def Rules_def)
  qed
  ultimately show ?thesis using Inr by auto
qed

definition demo_flow_runner :: Runner where
  "demo_flow_runner = fold runner_step
     [demo_start, ConnOp ''sb1'' (\<lambda>_. Inr []) 0 7 (Inr (V4 0x5DB8D822, 443)), DialedOp ''sb1'' 7 (Inr 8)] demo_runner"

lemma demo_flow_runner_entry:
  "\<exists>ae sv. rn_active demo_flow_runner ''sb1'' = Some ae \<and> ae_sup ae = Some sv \<and> fr_conns (sv_flows sv) = [(0, 7, 8)]"
proof -
  have "map_option (\<lambda>ae. map_option (\<lambda>sv. fr_conns (sv_flows sv)) (ae_sup ae)) (rn_active demo_flow_runner ''sb1'')
      = Some (Some [(0, 7, 8)])" by code_simp
  then show ?thesis by auto
qed

theorem policy_change_is_exact_witness:
  "\<exists>ae sv sv'. rn_active demo_flow_runner ''sb1'' = Some ae \<and> ae_sup ae = Some sv
     \<and> fr_conns (sv_flows sv) = [(0, 7, 8)]
     \<and> rn_active (snd (SetPolicy ''sb1'' [''example.com''] False demo_flow_runner)) ''sb1'' = Some (ae\<lparr>ae_sup := Some sv'\<rparr>)
     \<and> fr_conns (sv_flows sv') = [] \<and> Compile [''example.com''] = Inr (sup_allow sv')"
proof -
  obtain ae sv where e: "rn_active demo_flow_runner ''sb1'' = Some ae" "ae_sup ae = Some sv"
    "fr_conns (sv_flows sv) = [(0, 7, 8)]" using demo_flow_runner_entry by blast
  note exact = policy_change_is_exact[OF e(1,2), of "[''example.com'']" False]
  have "\<not> isl (Compile [''example.com''])" by code_simp
  then have "\<nexists>e. fst (SetPolicy ''sb1'' [''example.com''] False demo_flow_runner) = Inl e" using exact by auto
  then obtain ch where "SetPolicy ''sb1'' [''example.com''] False demo_flow_runner
      = (Inr ch, snd (SetPolicy ''sb1'' [''example.com''] False demo_flow_runner))"
    by (metis Inl_Inr_False prod.collapse sumE)
  then show ?thesis using exact[THEN conjunct1, rule_format] e by fastforce
qed

text \<open>
  The kill of a policy change misses connections that are being dialed. A
  connection the old policy admitted and whose dial returns after the change is
  tracked and spliced, on both sides open, although the policy in force, here one
  that allows nothing, would refuse it; the change closed only the flows that were
  tracked when it ran.
\<close>

theorem dialing_connection_survives_revoke:
  assumes "rn_active r sid = Some ae" and "ae_sup ae = Some sv"
    and "map_of (sv_dialing sv) guest = Some (ip, port)"
  shows "\<exists>r' sv'. r' = fold runner_step [SetPolicyOp sid [] False, DialedOp sid guest (Inr outbound)] r
    \<and> rn_active r' sid = Some (ae\<lparr>ae_sup := Some sv'\<rparr>)
    \<and> fr_conns (sv_flows sv') = [(fr_next (sv_flows sv), guest, outbound)]
    \<and> \<not> AllowsIP (sup_allow sv') ip port
    \<and> rn_closed r' = rn_closed r @ concat (map (\<lambda>(_, a, b). [a, b]) (fr_conns (sv_flows sv)))"
proof -
  have nil: "Compile [] = Inr empty_Allowlist" by (simp add: Compile_def empty_Allowlist_def)
  have rules: "SetRules (sup_allow sv) [] = Inr empty_Allowlist" by (simp add: SetRules_Inr nil)
  have none: "\<not> AllowsIP empty_Allowlist ip port"
    by (simp add: AllowsIP_def empty_Allowlist_def isGranted_def Let_def)
  show ?thesis using assms rules none
    by (simp add: SetPolicy_def CloseAll_def set_allow_def set_sup_def on_stack_def handle_dial_def Track_def Let_def)
      (rule exI, intro conjI, rule refl, simp_all)
qed

definition demo_dialing_runner :: Runner where
  "demo_dialing_runner = fold runner_step
     [demo_start, ConnOp ''sb1'' (\<lambda>_. Inr []) 0 7 (Inr (V4 0x5DB8D822, 443))] demo_runner"

theorem dialing_connection_survives_revoke_witness:
  "\<exists>ae sv'. rn_active (fold runner_step [SetPolicyOp ''sb1'' [] False, DialedOp ''sb1'' 7 (Inr 8)] demo_dialing_runner)
       ''sb1'' = Some (ae\<lparr>ae_sup := Some sv'\<rparr>)
     \<and> fr_conns (sv_flows sv') = [(0, 7, 8)] \<and> \<not> AllowsIP (sup_allow sv') (V4 0x5DB8D822) 443"
proof -
  have "map_option (\<lambda>ae. map_option (\<lambda>sv. (map_of (sv_dialing sv) 7, fr_next (sv_flows sv))) (ae_sup ae))
      (rn_active demo_dialing_runner ''sb1'') = Some (Some (Some (V4 0x5DB8D822, 443), 0))" by code_simp
  then obtain ae sv where e: "rn_active demo_dialing_runner ''sb1'' = Some ae" "ae_sup ae = Some sv"
    "map_of (sv_dialing sv) 7 = Some (V4 0x5DB8D822, 443)" "fr_next (sv_flows sv) = 0" by auto
  show ?thesis using dialing_connection_survives_revoke[OF e(1,2,3), of 8] e(4) by auto
qed

text \<open>
  In open mode the runner keeps an entry without a supervisor, so every later
  call that reads the live allowlist panics: revoking the grants at teardown,
  reporting the policy, replacing it, and applying a well-formed grant. Only
  stopping works.
\<close>

theorem open_mode_calls_panic:
  assumes "np_Mode (bd_Policy b) = NetworkModeOpen" and "Start os b r = (Inr ep, r')"
  shows "fst (RevokeAll (bd_SandboxID b) r') = Some nil_supervisor
    \<and> Policy (bd_SandboxID b) r' = Inl nil_supervisor
    \<and> (\<forall>es drain. fst (SetPolicy (bd_SandboxID b) es drain r') = Inl nil_supervisor)
    \<and> (\<forall>entry ip port. parseGrantEntry entry = Inr (ip, port) \<longrightarrow>
         fst (AllowEgress (bd_SandboxID b) entry r') = Some nil_supervisor)
    \<and> fst (Stop None None (bd_SandboxID b) r') = None"
proof -
  from assms have "startOpenDNS os b r = (Inr ep, r')" by (simp add: Start_def)
  then have "\<exists>ae udp. rn_active r' (bd_SandboxID b) = Some ae \<and> ae_sup ae = None \<and> ae_udp ae = Some udp \<and> ae_tcp ae = None"
    by (auto simp: startOpenDNS_def open_socket_def Let_def split: if_splits sum.splits option.splits)
  then show ?thesis by (auto simp: RevokeAll_def Policy_def SetPolicy_def AllowEgress_def Stop_def)
qed

theorem open_mode_calls_panic_witness:
  "fst (RevokeAll ''sb1'' (snd (Start demo_listen (demo_binding NetworkModeOpen []) demo_runner))) = Some nil_supervisor
   \<and> parseGrantEntry ''1.2.3.4:443'' = Inr (V4 0x01020304, 443)"
proof -
  have "\<not> isl (fst (Start demo_listen (demo_binding NetworkModeOpen []) demo_runner))" by code_simp
  then obtain ep where "fst (Start demo_listen (demo_binding NetworkModeOpen []) demo_runner) = Inr ep"
    by (metis sum.collapse(2))
  then have s: "Start demo_listen (demo_binding NetworkModeOpen []) demo_runner
      = (Inr ep, snd (Start demo_listen (demo_binding NetworkModeOpen []) demo_runner))" by (metis prod.collapse)
  have "parseGrantEntry ''1.2.3.4:443'' = Inr (V4 0x01020304, 443)" by code_simp
  then show ?thesis using open_mode_calls_panic[OF _ s] by (simp add: demo_binding_def)
qed

end
