(* ===== verification/Capability.thy ===== *)
theory Capability
  imports Egress_Runner Index_History
begin

text \<open>
  The escalation engine of \<open>internal/service/capability.go\<close>: a denial the host
  observed becomes a pending request, an operator's approval becomes a grant that is
  written to the audit trail, applied to the running egress stack and held for the
  lifetime of the sandbox. The service calls the egress engine through an interface;
  the locale \<open>egress_granter\<close> states what it relies on, the invariants of the service
  are proved in it, and the runner of \<open>runner.go\<close> is an instance. A call that panics
  is carried outward like an error, with the changes made before it.
\<close>

section \<open>Text\<close>

text \<open>
  \<open>strconv.Quote\<close>, the verb \<open>%q\<close>. The argument \<open>print\<close> is the table of printable
  runes above Latin-1; below it the rule is written out.
\<close>

definition rune_prints :: "(int \<Rightarrow> bool) \<Rightarrow> int \<Rightarrow> bool" where
  "rune_prints print r =
     (if r \<le> 0xFF then (0x20 \<le> r \<and> r < 0x7F) \<or> (0xA1 \<le> r \<and> r \<noteq> 0xAD) else print r)"

fun hex_pad :: "nat \<Rightarrow> int \<Rightarrow> string" where
  "hex_pad 0 r = []"
| "hex_pad (Suc n) r = hex_pad n (r div 16) @ [hex_digit (r mod 16)]"

definition short_escapes :: "(int \<times> string) list" where
  "short_escapes = [(7, [CHR 92, CHR ''a'']), (8, [CHR 92, CHR ''b'']), (12, [CHR 92, CHR ''f'']), (10, [CHR 92, CHR ''n'']),
     (13, [CHR 92, CHR ''r'']), (9, [CHR 92, CHR ''t'']), (11, [CHR 92, CHR ''v''])]"

definition quote_rune :: "(int \<Rightarrow> bool) \<Rightarrow> int \<Rightarrow> string \<Rightarrow> string" where
  "quote_rune print r bytes =
     (if r = 0x22 \<or> r = 0x5C then CHR 92 # bytes
      else if rune_prints print r then bytes
      else (case map_of short_escapes r of
              Some e \<Rightarrow> e
            | None \<Rightarrow> if r < 0x20 \<or> r = 0x7F then [CHR 92, CHR ''x''] @ hex_pad 2 r
                      else if r < 0x10000 then [CHR 92, CHR ''u''] @ hex_pad 4 r
                      else [CHR 92, CHR ''U''] @ hex_pad 8 r))"

function quote_body :: "(int \<Rightarrow> bool) \<Rightarrow> string \<Rightarrow> string" where
  "quote_body print [] = []"
| "quote_body print (c # s) =
     (let n = rune_size (c # s) in
      if n = 0 then [CHR 92, CHR ''x''] @ hex_pad 2 (of_char c) @ quote_body print s
      else quote_rune print (rune_value (take n (c # s))) (take n (c # s)) @ quote_body print (drop n (c # s)))"
  by pat_completeness auto
termination by (relation "measure (length \<circ> snd)") auto

definition go_quote :: "(int \<Rightarrow> bool) \<Rightarrow> string \<Rightarrow> string" where
  "go_quote print s = [CHR 0x22] @ quote_body print s @ [CHR 0x22]"

section \<open>The service\<close>

text \<open>
  The state the calls share: the two maps of the service, the index store that holds
  the audit trail, and the state of the egress engine.
\<close>

record 'g cap_state =
  cp_live :: "string \<rightharpoonup> CapabilityGrant list"
  cp_pending :: "string \<rightharpoonup> CapabilityRequest list"
  cp_index :: Store
  cp_granter :: 'g

type_synonym 'g allow_egress = "string \<Rightarrow> string \<Rightarrow> 'g \<Rightarrow> err option \<times> 'g"
type_synonym 'g revoke_all = "string \<Rightarrow> 'g \<Rightarrow> err option \<times> 'g"

text \<open>What a call reads from outside: the clocks, the database, the row ids, the rune table.\<close>

record cap_env =
  ce_ulid :: ulid_lib
  ce_io :: io
  ce_clock :: time
  ce_store_clock :: time
  ce_print :: "int \<Rightarrow> bool"

definition slice_of :: "(string \<rightharpoonup> 'a list) \<Rightarrow> string \<Rightarrow> 'a list" where
  "slice_of m k = (case m k of None \<Rightarrow> [] | Some xs \<Rightarrow> xs)"

definition NewCapabilityService :: "bool \<Rightarrow> bool \<Rightarrow> bool \<Rightarrow> Store \<Rightarrow> 'g \<Rightarrow> 'g cap_state result" where
  "NewCapabilityService hasEvents hasGranter hasClock s g =
     (if \<not> hasEvents then Inl (Errorf ''capability service: event appender must not be nil'')
      else if \<not> hasGranter then Inl (Errorf ''capability service: egress granter must not be nil'')
      else if \<not> hasClock then Inl (Errorf ''capability service: clock must not be nil'')
      else Inr \<lparr>cp_live = (\<lambda>_. None), cp_pending = (\<lambda>_. None), cp_index = s, cp_granter = g\<rparr>)"

definition grant_of :: "time \<Rightarrow> CapabilityRequest \<Rightarrow> CapabilityGrant" where
  "grant_of now req =
     \<lparr>cg_SandboxID = cr_SandboxID req, cg_TaskID = cr_TaskID req, cg_Capability = cr_Capability req,
      cg_ObservedDestIP = cr_ObservedDestIP req, cg_ObservedDestPort = cr_ObservedDestPort req,
      cg_Scope = GrantScopeSandboxLifetime, cg_GrantedAt = now\<rparr>"

definition jq :: "string \<Rightarrow> string" where
  "jq name = [CHR 0x22] @ name @ [CHR 0x22, CHR '':'']"

definition grantEvent :: "(int \<Rightarrow> bool) \<Rightarrow> CapabilityGrant \<Rightarrow> SandboxEvent" where
  "grantEvent print g =
     \<lparr>ev_ID = [], ev_SandboxID = cg_SandboxID g, ev_TaskID = cg_TaskID g, ev_EventType = EventPolicyGranted,
      ev_Backend = [], ev_ImageDigest = [], ev_NetworkMode = [],
      ev_Detail = ''{'' @ jq ''capability'' @ go_quote print (cg_Capability g)
        @ '','' @ jq ''scope'' @ go_quote print (cg_Scope g)
        @ '','' @ jq ''observed_dest_ip'' @ go_quote print (cg_ObservedDestIP g)
        @ '','' @ jq ''observed_dest_port'' @ show_int (cg_ObservedDestPort g) @ ''}'',
      ev_CreatedAt = zero_time\<rparr>"

definition hold_live :: "CapabilityGrant \<Rightarrow> 'g cap_state \<Rightarrow> 'g cap_state" where
  "hold_live g st = st\<lparr>cp_live := (cp_live st)(cg_SandboxID g \<mapsto> slice_of (cp_live st) (cg_SandboxID g) @ [g])\<rparr>"

definition Grant :: "cap_env \<Rightarrow> 'g allow_egress \<Rightarrow> CapabilityRequest \<Rightarrow> 'g cap_state
    \<Rightarrow> CapabilityGrant result \<times> 'g cap_state" where
  "Grant E allow_egress req st =
     (case CapabilityRequest_Validate req of
        Some e \<Rightarrow> (Inl (Wrap ''capability grant'' e), st)
      | None \<Rightarrow>
          (let grant = grant_of (ce_clock E) req in
           case AppendSandboxEvent (ce_ulid E) (ce_io E) (ce_store_clock E) (grantEvent (ce_print E) grant) (cp_index st) of
             (Some e, s) \<Rightarrow> (Inl (Wrap ''capability grant: audit'' e), st\<lparr>cp_index := s\<rparr>)
           | (None, s) \<Rightarrow>
               (let st1 = st\<lparr>cp_index := s\<rparr> in
                if cr_Capability req = CapabilityEgress then
                  (case allow_egress (cr_SandboxID req) (AllowlistEntry grant) (cp_granter st1) of
                     (Some e, g) \<Rightarrow> (Inl (Wrap ''capability grant: widen egress'' e), st1\<lparr>cp_granter := g\<rparr>)
                   | (None, g) \<Rightarrow> (Inr grant, hold_live grant (st1\<lparr>cp_granter := g\<rparr>)))
                else (Inr grant, hold_live grant st1))))"

definition RecordDenial :: "ObservedDenial \<Rightarrow> 'g cap_state \<Rightarrow> 'g cap_state" where
  "RecordDenial d st =
     (case RequestFromObservedDenial d of
        Inl e \<Rightarrow> st
      | Inr req \<Rightarrow>
          (let sid = cr_SandboxID req; key = CapabilityRequest_Key req in
           if list_ex (\<lambda>g. CapabilityGrant_Key g = key) (slice_of (cp_live st) sid) then st
           else if list_ex (\<lambda>p. CapabilityRequest_Key p = key) (slice_of (cp_pending st) sid) then st
           else st\<lparr>cp_pending := (cp_pending st)(sid \<mapsto> slice_of (cp_pending st) sid @ [req])\<rparr>))"

definition PendingRequests :: "string \<Rightarrow> 'g cap_state \<Rightarrow> CapabilityRequest list" where
  "PendingRequests sandboxID st = slice_of (cp_pending st) sandboxID"

definition removeRequest :: "CapabilityRequest list \<Rightarrow> string \<Rightarrow> CapabilityRequest list" where
  "removeRequest reqs key = filter (\<lambda>r. CapabilityRequest_Key r \<noteq> key) reqs"

definition Approve :: "cap_env \<Rightarrow> 'g allow_egress \<Rightarrow> string \<Rightarrow> string \<Rightarrow> 'g cap_state
    \<Rightarrow> CapabilityGrant result \<times> 'g cap_state" where
  "Approve E allow_egress sandboxID key st =
     (case find (\<lambda>r. CapabilityRequest_Key r = key) (slice_of (cp_pending st) sandboxID) of
        None \<Rightarrow> (Inl (Wrap sandboxID (Sentinel ErrCapabilityGrantNotFound)), st)
      | Some req \<Rightarrow>
          (case Grant E allow_egress req st of
             (Inl e, st1) \<Rightarrow> (Inl e, st1)
           | (Inr grant, st1) \<Rightarrow>
               (let left = removeRequest (slice_of (cp_pending st1) sandboxID) key in
                (Inr grant, st1\<lparr>cp_pending := (cp_pending st1)
                   (sandboxID := if left = [] then None else Some left)\<rparr>))))"

definition LiveGrants :: "string \<Rightarrow> 'g cap_state \<Rightarrow> CapabilityGrant list" where
  "LiveGrants sandboxID st = slice_of (cp_live st) sandboxID"

definition Revoke :: "'g revoke_all \<Rightarrow> string \<Rightarrow> 'g cap_state \<Rightarrow> err option \<times> 'g cap_state" where
  "Revoke revoke_all sandboxID st =
     (let st1 = st\<lparr>cp_live := (cp_live st)(sandboxID := None), cp_pending := (cp_pending st)(sandboxID := None)\<rparr>
      in case revoke_all sandboxID (cp_granter st1) of (e, g) \<Rightarrow> (e, st1\<lparr>cp_granter := g\<rparr>))"

fun replay_loop :: "'g allow_egress \<Rightarrow> string \<Rightarrow> CapabilityGrant list \<Rightarrow> 'g \<Rightarrow> err option \<times> 'g" where
  "replay_loop allow_egress sandboxID [] g = (None, g)"
| "replay_loop allow_egress sandboxID (gr # rest) g =
     (if cg_Capability gr \<noteq> CapabilityEgress then replay_loop allow_egress sandboxID rest g
      else (case allow_egress sandboxID (AllowlistEntry gr) g of
              (Some e, g') \<Rightarrow> (Some (Wrap ''capability replay: widen egress'' e), g')
            | (None, g') \<Rightarrow> replay_loop allow_egress sandboxID rest g'))"

definition ReplayGrants :: "'g allow_egress \<Rightarrow> string \<Rightarrow> 'g cap_state \<Rightarrow> err option \<times> 'g cap_state" where
  "ReplayGrants allow_egress sandboxID st =
     (case replay_loop allow_egress sandboxID (LiveGrants sandboxID st) (cp_granter st) of
        (e, g) \<Rightarrow> (e, st\<lparr>cp_granter := g\<rparr>))"

definition CapabilityGrantPrompt :: "(int \<Rightarrow> bool) \<Rightarrow> CapabilityRequest \<Rightarrow> string" where
  "CapabilityGrantPrompt print req =
     (let dest = cr_ObservedDestIP req @ '':'' @ show_int (cr_ObservedDestPort req);
          who = ''Task '' @ cr_TaskID req @ '' (sandbox '' @ cr_SandboxID req @ '')''
      in if cr_Capability req = CapabilityEgress
         then who @ '' was denied egress to '' @ dest @ '' (host-observed).'' @ [CHR 10]
              @ ''Grant egress to '' @ dest @ '' for this sandbox's lifetime only? [y/N]''
         else who @ '' requests the '' @ go_quote print (cr_Capability req) @ '' capability.'' @ [CHR 10]
              @ ''Grant it for this sandbox's lifetime only? [y/N]'')"

section \<open>Histories\<close>

text \<open>
  Any sequence of calls of the service, interleaved with anything else the engine
  does (\<open>EngineC\<close>) and any other call of the index store (\<open>StoreC\<close>).
\<close>

datatype 'o cap_op =
    GrantC cap_env CapabilityRequest
  | DenialC ObservedDenial
  | ApproveC cap_env string string
  | RevokeC string
  | ReplayC string
  | EngineC 'o
  | StoreC ulid_lib store_op

fun cap_step :: "'g allow_egress \<Rightarrow> 'g revoke_all \<Rightarrow> ('o \<Rightarrow> 'g \<Rightarrow> 'g) \<Rightarrow> 'o cap_op \<Rightarrow> 'g cap_state \<Rightarrow> 'g cap_state" where
  "cap_step al rv eng (GrantC E req) st = snd (Grant E al req st)"
| "cap_step al rv eng (DenialC d) st = RecordDenial d st"
| "cap_step al rv eng (ApproveC E sid key) st = snd (Approve E al sid key st)"
| "cap_step al rv eng (RevokeC sid) st = snd (Revoke rv sid st)"
| "cap_step al rv eng (ReplayC sid) st = snd (ReplayGrants al sid st)"
| "cap_step al rv eng (EngineC x) st = st\<lparr>cp_granter := eng x (cp_granter st)\<rparr>"
| "cap_step al rv eng (StoreC U x) st = st\<lparr>cp_index := store_step U x (cp_index st)\<rparr>"

definition audited :: "Store \<Rightarrow> CapabilityGrant \<Rightarrow> bool" where
  "audited s g \<longleftrightarrow> (\<exists>print i now. stored_event i now (grantEvent print g) \<in> set (sandbox_events s))"

definition live_audited :: "'g cap_state \<Rightarrow> bool" where
  "live_audited st \<longleftrightarrow> (\<forall>sid. \<forall>g \<in> set (slice_of (cp_live st) sid). cg_SandboxID g = sid \<and> audited (cp_index st) g)"

definition prompts_ok :: "string \<Rightarrow> CapabilityRequest list \<Rightarrow> bool" where
  "prompts_ok sid ps \<longleftrightarrow> distinct (map CapabilityRequest_Key ps)
     \<and> (\<forall>p \<in> set ps. cr_SandboxID p = sid \<and> cr_Capability p = CapabilityEgress \<and> CapabilityRequest_Validate p = None)"

definition one_prompt :: "'g cap_state \<Rightarrow> bool" where
  "one_prompt st \<longleftrightarrow> (\<forall>sid. prompts_ok sid (slice_of (cp_pending st) sid))"

lemma slice_of_upd [simp]:
  "slice_of (m(k \<mapsto> xs)) j = (if j = k then xs else slice_of m j)"
  "slice_of (m(k := None)) j = (if j = k then [] else slice_of m j)"
  "slice_of (m(k := if xs = [] then None else Some xs)) j = (if j = k then xs else slice_of m j)"
  "slice_of (\<lambda>_. None) j = []"
  by (auto simp: slice_of_def)

lemma audited_extends: "extends s s' \<Longrightarrow> audited s g \<Longrightarrow> audited s' g"
  unfolding extends_def audited_def by (metis Un_iff set_append)

lemma AppendSandboxEvent_extends: "AppendSandboxEvent U io now ev s = (e, s') \<Longrightarrow> extends s s'"
  using store_step_extends[of s U "OpEvent io now ev"] by (simp add: store_step_def)

lemma AppendSandboxEvent_audits:
  assumes "AppendSandboxEvent U io now (grantEvent print g) s = (None, s')"
  shows "audited s' g"
  using assms by (cases rule: AppendSandboxEvent_cases) (auto simp: audited_def newULID_state)

text \<open>What \<open>Grant\<close> does, case by case.\<close>

lemma Grant_cases:
  assumes "Grant E al req st = (res, st')"
  obtains (refused) e s where "res = Inl e" "st' = st\<lparr>cp_index := s\<rparr>" "extends (cp_index st) s"
  | (narrow) e e' s g where "res = Inl e" "CapabilityRequest_Validate req = None" "extends (cp_index st) s"
      "audited s (grant_of (ce_clock E) req)" "cr_Capability req = CapabilityEgress"
      "al (cr_SandboxID req) (AllowlistEntry (grant_of (ce_clock E) req)) (cp_granter st) = (Some e', g)"
      "st' = st\<lparr>cp_index := s, cp_granter := g\<rparr>"
  | (widened) s g where "res = Inr (grant_of (ce_clock E) req)" "CapabilityRequest_Validate req = None"
      "extends (cp_index st) s" "audited s (grant_of (ce_clock E) req)" "cr_Capability req = CapabilityEgress"
      "al (cr_SandboxID req) (AllowlistEntry (grant_of (ce_clock E) req)) (cp_granter st) = (None, g)"
      "st' = hold_live (grant_of (ce_clock E) req) (st\<lparr>cp_index := s, cp_granter := g\<rparr>)"
  | (other) s where "res = Inr (grant_of (ce_clock E) req)" "extends (cp_index st) s"
      "audited s (grant_of (ce_clock E) req)" "cr_Capability req \<noteq> CapabilityEgress"
      "st' = hold_live (grant_of (ce_clock E) req) (st\<lparr>cp_index := s\<rparr>)"
proof (cases "CapabilityRequest_Validate req")
  case (Some e)
  then have "res = Inl (Wrap ''capability grant'' e)" "st' = st\<lparr>cp_index := cp_index st\<rparr>"
    using assms by (simp_all add: Grant_def)
  then show thesis by (rule refused) (simp add: extends_def)
next
  case None
  let ?g = "grant_of (ce_clock E) req"
  obtain e s where a: "AppendSandboxEvent (ce_ulid E) (ce_io E) (ce_store_clock E)
      (grantEvent (ce_print E) ?g) (cp_index st) = (e, s)" by fastforce
  have ext: "extends (cp_index st) s" by (rule AppendSandboxEvent_extends[OF a])
  show thesis
  proof (cases e)
    case (Some e')
    then have "res = Inl (Wrap ''capability grant: audit'' e')" "st' = st\<lparr>cp_index := s\<rparr>"
      using assms a None by (simp_all add: Grant_def)
    then show thesis using ext by (rule refused)
  next
    case ok: None
    have aud: "audited s ?g" using AppendSandboxEvent_audits a ok by blast
    obtain e2 g where al: "al (cr_SandboxID req) (AllowlistEntry ?g) (cp_granter st) = (e2, g)" by fastforce
    show thesis
    proof (cases "cr_Capability req = CapabilityEgress")
      case True
      show thesis
      proof (cases e2)
        case (Some x)
        have "res = Inl (Wrap ''capability grant: widen egress'' x)" "st' = st\<lparr>cp_index := s, cp_granter := g\<rparr>"
          using assms a ok None al True Some by (simp_all add: Grant_def Let_def)
        moreover have "al (cr_SandboxID req) (AllowlistEntry ?g) (cp_granter st) = (Some x, g)" using al Some by simp
        ultimately show thesis using narrow None ext aud True by blast
      next
        case e2: None
        have "res = Inr ?g" "st' = hold_live ?g (st\<lparr>cp_index := s, cp_granter := g\<rparr>)"
          using assms a ok None al True e2 by (simp_all add: Grant_def Let_def)
        moreover have "al (cr_SandboxID req) (AllowlistEntry ?g) (cp_granter st) = (None, g)" using al e2 by simp
        ultimately show thesis using widened None ext aud True by blast
      qed
    next
      case False
      have "res = Inr ?g" "st' = hold_live ?g (st\<lparr>cp_index := s\<rparr>)"
        using assms a ok None False by (simp_all add: Grant_def Let_def)
      then show thesis using other ext aud False by blast
    qed
  qed
qed

lemma AllowlistEntry_Key: "cg_Capability g = CapabilityEgress \<Longrightarrow> CapabilityGrant_Key g = AllowlistEntry g"
  by (simp add: CapabilityGrant_Key_def AllowlistEntry_def)

lemma prompts_ok_snoc:
  "prompts_ok sid ps \<Longrightarrow> RequestFromObservedDenial d = Inr req \<Longrightarrow> cr_SandboxID req = sid \<Longrightarrow>
     \<not> list_ex (\<lambda>p. CapabilityRequest_Key p = CapabilityRequest_Key req) ps \<Longrightarrow> prompts_ok sid (ps @ [req])"
  using observed_denial_request[of d req] by (auto simp: prompts_ok_def list_ex_iff)

lemma prompts_ok_filter: "prompts_ok sid ps \<Longrightarrow> prompts_ok sid (removeRequest ps key)"
  by (auto simp: prompts_ok_def removeRequest_def intro: distinct_map_filter)

lemma Grant_pending: "cp_pending (snd (Grant E al req st)) = cp_pending st"
  by (rule Grant_cases[OF surjective_pairing[of "Grant E al req st"]]) (simp_all add: hold_live_def)

text \<open>One prompt per destination: no call makes a second one, whatever the engine does.\<close>

lemma one_prompt_step:
  assumes "one_prompt st"
  shows "one_prompt (cap_step al rv eng x st)"
proof (cases x)
  case (GrantC E req)
  then show ?thesis using assms by (simp add: one_prompt_def Grant_pending)
next
  case (DenialC d)
  then show ?thesis using assms prompts_ok_snoc
    by (simp add: one_prompt_def RecordDenial_def Let_def split: sum.split)
next
  case (ApproveC E sid key)
  show ?thesis
  proof (cases "find (\<lambda>r. CapabilityRequest_Key r = key) (slice_of (cp_pending st) sid)")
    case (Some req)
    obtain res st1 where g: "Grant E al req st = (res, st1)" by fastforce
    then have "cp_pending st1 = cp_pending st" using Grant_pending[of E al req st] by simp
    moreover have "prompts_ok s []" for s by (simp add: prompts_ok_def)
    ultimately show ?thesis using assms ApproveC Some g
      by (cases res) (simp_all add: one_prompt_def Approve_def Let_def prompts_ok_filter del: fun_upd_apply)
  qed (use assms ApproveC in \<open>simp add: Approve_def\<close>)
next
  case (RevokeC sid)
  then show ?thesis using assms
    by (simp add: one_prompt_def Revoke_def Let_def prompts_ok_def split: prod.split)
qed (use assms in \<open>simp_all add: one_prompt_def ReplayGrants_def split: prod.split\<close>)

interpretation prompts: invariant "cap_step al rv eng" one_prompt for al rv eng
  by unfold_locales (rule one_prompt_step)

section \<open>What the service needs from the egress engine\<close>

text \<open>
  \<open>EgressGranter\<close>: a successful widening admits exactly the destination its entry
  spells, for that sandbox only; a failed one admits nothing; a revocation that
  returns drops every grant of its sandbox. Everything else the engine does may
  drop grants but not make any.
\<close>

locale egress_granter =
  fixes al :: "'g allow_egress" and rv :: "'g revoke_all" and eng :: "'o \<Rightarrow> 'g \<Rightarrow> 'g"
    and granted :: "'g \<Rightarrow> string \<Rightarrow> (addr \<times> int) set" and meaning :: "string \<Rightarrow> (addr \<times> int) result"
  assumes allow_exact: "al sid entry g = (None, g') \<Longrightarrow>
      \<exists>dest. meaning entry = Inr dest \<and> granted g' = (granted g)(sid := insert dest (granted g sid))"
    and allow_refused: "al sid entry g = (Some e, g') \<Longrightarrow> granted g' = granted g"
    and revoke_drops: "rv sid g = (None, g') \<Longrightarrow> granted g' = (granted g)(sid := {})"
    and revoke_failed: "rv sid g = (Some e, g') \<Longrightarrow> granted g' = granted g"
    and engine_narrows: "granted (eng x g) sid \<subseteq> granted g sid"
begin

definition justified :: "Store \<Rightarrow> string \<Rightarrow> addr \<times> int \<Rightarrow> bool" where
  "justified s sid dest \<longleftrightarrow> (\<exists>g. audited s g \<and> cg_SandboxID g = sid \<and> cg_Capability g = CapabilityEgress
     \<and> meaning (AllowlistEntry g) = Inr dest)"

definition grants_audited :: "'g cap_state \<Rightarrow> bool" where
  "grants_audited st \<longleftrightarrow> live_audited st
     \<and> (\<forall>sid. \<forall>dest \<in> granted (cp_granter st) sid. justified (cp_index st) sid dest)"

lemma justified_extends: "extends s s' \<Longrightarrow> justified s sid dest \<Longrightarrow> justified s' sid dest"
  unfolding justified_def using audited_extends by blast

lemma grants_auditedI:
  assumes "grants_audited st" and "extends (cp_index st) (cp_index st')"
    and "\<And>sid g. g \<in> set (slice_of (cp_live st') sid) \<Longrightarrow>
           g \<in> set (slice_of (cp_live st) sid) \<or> cg_SandboxID g = sid \<and> audited (cp_index st') g"
    and "\<And>sid dest. dest \<in> granted (cp_granter st') sid \<Longrightarrow>
           dest \<in> granted (cp_granter st) sid \<or> justified (cp_index st') sid dest"
  shows "grants_audited st'"
proof -
  have "cg_SandboxID g = sid \<and> audited (cp_index st') g" if "g \<in> set (slice_of (cp_live st') sid)" for g sid
    using assms(1,2) assms(3)[OF that] audited_extends unfolding grants_audited_def live_audited_def by blast
  moreover have "justified (cp_index st') sid dest" if "dest \<in> granted (cp_granter st') sid" for sid dest
    using assms(1,2) assms(4)[OF that] justified_extends unfolding grants_audited_def by blast
  ultimately show ?thesis unfolding grants_audited_def live_audited_def by blast
qed

lemma Grant_audited:
  assumes "grants_audited st"
  shows "grants_audited (snd (Grant E al req st))"
proof -
  let ?g = "grant_of (ce_clock E) req"
  have id: "cg_SandboxID ?g = cr_SandboxID req" "cg_Capability ?g = cr_Capability req" by (simp_all add: grant_of_def)
  show ?thesis
  proof (rule Grant_cases[OF surjective_pairing[of "Grant E al req st"]], goal_cases)
    case (1 e s)
    then show ?case by (intro grants_auditedI[OF assms]) simp_all
  next
    case (2 e e' s g)
    then show ?case using allow_refused by (intro grants_auditedI[OF assms]) simp_all
  next
    case (3 s g)
    obtain dest where d: "meaning (AllowlistEntry ?g) = Inr dest"
      "granted g = (granted (cp_granter st))(cr_SandboxID req := insert dest (granted (cp_granter st) (cr_SandboxID req)))"
      using allow_exact[OF 3(6)] by blast
    have "justified s (cr_SandboxID req) dest" unfolding justified_def using 3 d(1) id by (intro exI[of _ ?g]) simp
    then show ?case using 3 d(2) id
      by (intro grants_auditedI[OF assms]) (auto simp: hold_live_def split: if_splits)
  next
    case (4 s)
    then show ?case using id by (intro grants_auditedI[OF assms]) (auto simp: hold_live_def split: if_splits)
  qed
qed

lemma replay_granted:
  "replay_loop al sid grs g = (e, g') \<Longrightarrow> dest \<in> granted g' s \<Longrightarrow>
     dest \<in> granted g s \<or> (s = sid \<and> (\<exists>gr \<in> set grs. cg_Capability gr = CapabilityEgress
        \<and> meaning (AllowlistEntry gr) = Inr dest))"
proof (induction grs arbitrary: g)
  case (Cons gr grs)
  show ?case
  proof (cases "cg_Capability gr = CapabilityEgress")
    case True
    obtain e1 g1 where a: "al sid (AllowlistEntry gr) g = (e1, g1)" by fastforce
    show ?thesis
    proof (cases e1)
      case None
      then have "dest \<in> granted g1 s \<or> (s = sid \<and> (\<exists>gr \<in> set grs. cg_Capability gr = CapabilityEgress
        \<and> meaning (AllowlistEntry gr) = Inr dest))" using Cons a True by auto
      moreover obtain d where "meaning (AllowlistEntry gr) = Inr d"
        "granted g1 = (granted g)(sid := insert d (granted g sid))" using allow_exact a None by blast
      ultimately show ?thesis using True by (auto split: if_splits)
    next
      case (Some x)
      then have "g' = g1" using Cons.prems(1) a True by simp
      then show ?thesis using Cons.prems(2) allow_refused a Some by auto
    qed
  qed (use Cons in auto)
qed auto

lemma cap_step_audited:
  assumes "grants_audited st"
  shows "grants_audited (cap_step al rv eng x st)"
proof (cases x)
  case (GrantC E req)
  then show ?thesis using Grant_audited[OF assms] by simp
next
  case (DenialC d)
  then show ?thesis using assms
    by (simp add: RecordDenial_def Let_def grants_audited_def live_audited_def split: sum.split)
next
  case (ApproveC E sid key)
  have "grants_audited (st'\<lparr>cp_pending := p\<rparr>)" if "grants_audited st'" for st' p
    using that by (simp add: grants_audited_def live_audited_def)
  then show ?thesis using assms ApproveC Grant_audited[OF assms, of E]
    by (auto simp: Approve_def Let_def split: option.split sum.split prod.split) (metis snd_conv)+
next
  case (RevokeC sid)
  obtain e g where r: "rv sid (cp_granter st) = (e, g)" by fastforce
  then have "granted g s \<subseteq> granted (cp_granter st) s" for s
    using revoke_drops revoke_failed by (cases e) auto
  then show ?thesis using RevokeC r
    by (intro grants_auditedI[OF assms]) (auto simp: Revoke_def Let_def extends_def split: if_splits)
next
  case (ReplayC sid)
  obtain e g where r: "replay_loop al sid (slice_of (cp_live st) sid) (cp_granter st) = (e, g)" by fastforce
  have "justified (cp_index st) s dest" if d: "dest \<in> granted g s" "dest \<notin> granted (cp_granter st) s" for s dest
  proof -
    obtain gr where "s = sid" "gr \<in> set (slice_of (cp_live st) sid)" "cg_Capability gr = CapabilityEgress"
      "meaning (AllowlistEntry gr) = Inr dest" using replay_granted[OF r d(1)] d(2) by blast
    then show ?thesis using assms unfolding justified_def grants_audited_def live_audited_def by blast
  qed
  then show ?thesis using ReplayC r
    by (intro grants_auditedI[OF assms]) (auto simp: ReplayGrants_def LiveGrants_def extends_def)
next
  case (EngineC op)
  then show ?thesis using engine_narrows by (intro grants_auditedI[OF assms]) (auto simp: extends_def)
next
  case (StoreC U op)
  then show ?thesis using store_step_extends by (intro grants_auditedI[OF assms]) auto
qed

end

sublocale egress_granter \<subseteq> audit: invariant "cap_step al rv eng" grants_audited
  by unfold_locales (rule cap_step_audited)

section \<open>The runner as the egress engine\<close>

definition granted_in :: "Runner \<Rightarrow> string \<Rightarrow> (addr \<times> int) set" where
  "granted_in r sid =
     (case rn_active r sid of
        None \<Rightarrow> {}
      | Some ae \<Rightarrow> (case ae_sup ae of None \<Rightarrow> {} | Some sv \<Rightarrow> al_grants (sup_allow sv)))"

text \<open>Only the capability service calls \<open>AllowEgress\<close>; every other step is the engine's own.\<close>

fun runner_env_step :: "runner_op \<Rightarrow> Runner \<Rightarrow> Runner" where
  "runner_env_step (AllowOp sid entry) r = r"
| "runner_env_step x r = runner_step x r"

lemma granted_set_sup:
  "granted_in (set_sup sid ae sv r) = (granted_in r)(sid := al_grants (sup_allow sv))"
  "granted_in (r\<lparr>rn_closed := c\<rparr>) = granted_in r"
  by (auto simp: granted_in_def set_sup_def fun_eq_iff)

lemma Authorize_es_allow: "es_allow (snd (Authorize upstream now cfg f st)) = es_allow st"
  using Authorize_settled[of cfg f st upstream now]
  by (auto simp: settled_def deny_log allow_log dns_extends_def)

lemma handle_authorize_allow: "sup_allow (fst (handle_authorize up now g dst sv)) = sup_allow sv"
proof -
  have "es_allow st = es_allow (sv_stack sv)" if "Authorize up now (sv_auth sv) f (sv_stack sv) = (v, st)" for f v st
    using Authorize_es_allow[of up now "sv_auth sv" f "sv_stack sv"] that by simp
  then show ?thesis by (auto simp: handle_authorize_def split: sum.split prod.split option.split)
qed

lemma handle_dial_allow: "sup_allow (fst (handle_dial g d sv)) = sup_allow sv"
  by (auto simp: handle_dial_def Let_def split: option.split sum.split)

lemma on_stack_granted:
  assumes "\<And>sv. sup_allow (fst (f sv)) = sup_allow sv"
  shows "granted_in (on_stack sid f r) = granted_in r"
proof -
  have "al_grants (sup_allow sv') = al_grants (sup_allow sv)" if "f sv = (sv', c)" for sv sv' c
    using assms[of sv] that by simp
  then show ?thesis
    by (auto simp: on_stack_def granted_set_sup fun_eq_iff split: option.split prod.split)
      (auto simp: granted_in_def)
qed

lemma NewSupervisor_grants: "NewSupervisor cfg = Inr sv \<Longrightarrow> al_grants (sup_allow sv) = {}"
  using Compile_facts by (fastforce simp: NewSupervisor_def split: if_splits sum.splits option.splits)

lemma Start_granted: "granted_in (snd (Start os b r)) sid \<subseteq> granted_in r sid"
proof -
  have keep: "rn_active r' = rn_active r \<Longrightarrow> granted_in r' sid \<subseteq> granted_in r sid" for r' by (simp add: granted_in_def)
  have sock: "rn_active r' = rn_active r''" if "open_socket a r'' = (x, r')" for a x r' r''
    using that by (auto simp: open_socket_def split: sum.splits)
  have both: "rn_active r1 = rn_active r" if "listen_both os gw r = (x, r1)" for gw x r1
    using that by (auto simp: listen_both_def close_sockets_def split: sum.splits prod.splits dest!: sock)
  have none: "granted_in r' sid \<subseteq> granted_in r sid"
    if "rn_active r' = (rn_active r)(bd_SandboxID b \<mapsto> ae)" "\<And>sv. ae_sup ae = Some sv \<Longrightarrow> al_grants (sup_allow sv) = {}" for r' ae
    using that by (auto simp: granted_in_def split: option.splits)
  have dns: "granted_in (snd (startOpenDNS os b r)) sid \<subseteq> granted_in r sid"
    by (auto simp: startOpenDNS_def open_socket_def granted_in_def Let_def split: sum.splits option.splits if_splits)
  show ?thesis
  proof (cases "np_Mode (bd_Policy b) \<in> {NetworkModeNone, NetworkModeOpen} \<or> rn_active r (bd_SandboxID b) \<noteq> None")
    case True
    then show ?thesis using dns by (auto simp: Start_def)
  next
    case False
    show ?thesis
    proof (cases "NewSupervisor (supervisor_config b r)")
      case (Inr sv)
      obtain x r1 where l: "listen_both os (bd_GatewayIP b) r = (x, r1)" by fastforce
      obtain y r2 where o2: "open_socket (os 2 ''tcp'' (host_port (bd_GatewayIP b) (rn_TransparentPort (rn_cfg r)))) r1 = (y, r2)"
        by fastforce
      have act: "rn_active r1 = rn_active r" "rn_active r2 = rn_active r" using both[OF l] sock[OF o2] by auto
      show ?thesis
      proof (cases x)
        case (Inl e)
        then show ?thesis using False Inr l act by (simp add: Start_def keep)
      next
        case x: (Inr ae0)
        show ?thesis
        proof (cases y)
          case (Inl e)
          then show ?thesis using False Inr l x o2 act
            by (simp add: Start_def NewTransparentProxy_def closeListeners_def close_sockets_def keep)
        next
          case y: (Inr ta)
          obtain tln addr where ta: "ta = (tln, addr)" by fastforce
          have "rn_active (snd (Start os b r)) = (rn_active r)(bd_SandboxID b \<mapsto> ae0\<lparr>ae_sup := Some sv,
              ae_transparent := Some tln, ae_endpoints := (ae_endpoints ae0)\<lparr>ep_TransparentAddr := addr\<rparr>\<rparr>)"
            using False Inr l x o2 y ta act by (simp add: Start_def NewTransparentProxy_def)
          then show ?thesis by (rule none) (use NewSupervisor_grants[OF Inr] in simp)
        qed
      qed
    qed (use False in \<open>simp add: Start_def\<close>)
  qed
qed

lemma Stop_granted: "granted_in (snd (Stop e1 e2 s r)) sid \<subseteq> granted_in r sid"
  by (auto simp: Stop_def close_sockets_def granted_in_def Let_def split: option.splits if_splits)

lemma RevokeAll_granted:
  "RevokeAll sid r = (None, r') \<Longrightarrow> granted_in r' = (granted_in r)(sid := {})"
  "RevokeAll sid r = (Some e, r') \<Longrightarrow> r' = r"
  by (auto simp: RevokeAll_def granted_set_sup set_allow_def RevokeGrants_def fun_eq_iff
      split: option.splits) (auto simp: granted_in_def)

lemma SetPolicy_granted: "granted_in (snd (SetPolicy s es drain r)) sid \<subseteq> granted_in r sid"
proof -
  have "al_grants al' = {}" if "SetRules al es = Inr al'" for al al'
    using that Compile_facts by (auto simp: SetRules_Inr)
  then show ?thesis
    by (auto simp: SetPolicy_def Let_def granted_set_sup set_allow_def split: option.splits sum.splits prod.splits if_splits)
qed

lemma AllowEgress_exact:
  assumes "AllowEgress sid entry r = (None, r')"
  shows "\<exists>dest. parseGrantEntry entry = Inr dest \<and> granted_in r' = (granted_in r)(sid := insert dest (granted_in r sid))"
proof -
  have fixed: "Unmap ip = ip" if "parseGrantEntry entry = Inr (ip, port)" for ip port
    using that by (auto simp: parseGrantEntry_def split: option.splits if_splits)
  from assms obtain ip port where p: "parseGrantEntry entry = Inr (ip, port)"
    by (auto simp: AllowEgress_def split: sum.splits)
  with assms obtain ae sv where e: "rn_active r sid = Some ae" "ae_sup ae = Some sv"
    by (auto simp: AllowEgress_def split: option.splits)
  have "r' = set_sup sid ae (set_allow ((sup_allow sv)\<lparr>al_grants := insert (ip, port) (al_grants (sup_allow sv))\<rparr>) sv) r"
    using assms p e fixed[OF p] by (auto simp: AllowEgress_def GrantIP_def split: if_splits)
  then have "granted_in r' = (granted_in r)(sid := insert (ip, port) (granted_in r sid))"
    using e by (simp add: granted_set_sup set_allow_def) (simp add: granted_in_def)
  then show ?thesis using p by blast
qed

lemma AllowEgress_refused: "AllowEgress sid entry r = (Some e, r') \<Longrightarrow> r' = r"
  by (auto simp: AllowEgress_def split: sum.splits option.splits prod.splits)

lemma runner_env_granted: "granted_in (runner_env_step x r) sid \<subseteq> granted_in r sid"
proof (cases x)
  case (RevokeAllOp s)
  then show ?thesis using RevokeAll_granted[of s r] by (cases "RevokeAll s r"; cases "fst (RevokeAll s r)") auto
next
  case (ConnEndOp s k)
  then show ?thesis by (simp add: on_stack_granted handle_end_def)
qed (simp_all add: Start_granted Stop_granted SetPolicy_granted on_stack_granted handle_authorize_allow handle_dial_allow)

interpretation escalation: egress_granter AllowEgress RevokeAll runner_env_step granted_in parseGrantEntry
proof unfold_locales
  show "AllowEgress sid entry g = (Some e, g') \<Longrightarrow> granted_in g' = granted_in g" for sid entry g e g'
    using AllowEgress_refused by blast
  show "RevokeAll sid g = (Some e, g') \<Longrightarrow> granted_in g' = granted_in g" for sid g e g'
    using RevokeAll_granted(2) by blast
qed (fact AllowEgress_exact RevokeAll_granted(1) runner_env_granted)+

section \<open>Grant entries\<close>

lemma split_last_append: "d \<notin> set b \<Longrightarrow> split_last d (a @ d # b) = Some (a, b)"
proof -
  assume "d \<notin> set b"
  then have none: "split_last d b = None" by (induction b) auto
  show ?thesis by (induction a) (simp_all add: none)
qed

lemma ParseAddr_bracket: "ParseAddr (CHR ''['' # s) = None"
proof -
  have "parse_octets (CHR ''['' # s) = None"
    by (auto simp: parse_octets_def parse_octet_def is_digit_def split: list.split option.split)
  moreover have "parse6_tail None (CHR ''['' # u) z = None" for u z
    by (simp add: parse6_tail_def numeral_eq_Suc is_hex_def hex_val_def)
  then have "parseIPv6 (CHR ''['' # s) = None"
    by (auto simp: parseIPv6_def cut_prefix_def has_prefix_def split: option.split prod.split)
  ultimately show ?thesis by (auto simp: ParseAddr_def parseIPv4_def split: list.split)
qed

lemma port_text: "1 \<le> p \<Longrightarrow> p \<le> 65535 \<Longrightarrow>
    show_int p \<noteq> [] \<and> CHR '':'' \<notin> set (show_int p) \<and> parse_uint16 (show_int p) = Some p"
  using show_dec_digits[of p] digit_not_sign by (auto simp: show_int_def parse_uint16_def list_all_iff)

lemma ParseAddrPort_entry:
  assumes "ParseAddr s = Some a" "1 \<le> p" "p \<le> 65535"
  shows "ParseAddrPort (s @ '':'' @ show_int p) = (if Is6 a then None else Some (a, p))"
proof -
  note port = port_text[OF assms(2,3)]
  have ne: "s \<noteq> []" using assms(1) by (auto simp: ParseAddr_def)
  moreover have "hd s \<noteq> CHR ''[''" using assms(1) ParseAddr_bracket ne by (cases s) auto
  ultimately show ?thesis
    using port assms(1) split_last_append[of "CHR '':''" "show_int p" s]
    by (simp add: ParseAddrPort_def Let_def)
qed

text \<open>An entry for an IPv4 address means that address and port; one for an IPv6 address means nothing.\<close>

lemma parse_v4_entry:
  assumes "ParseAddr s = Some (V4 w)" "1 \<le> p" "p \<le> 65535"
  shows "parseGrantEntry (s @ '':'' @ show_int p) = Inr (V4 w, p)"
proof -
  have "cut CHR '':'' (s @ '':'' @ show_int p) \<noteq> None" by (simp add: cut_None)
  then show ?thesis using ParseAddrPort_entry[OF assms] by (auto simp: parseGrantEntry_def)
qed

lemma parse_v6_entry:
  assumes "ParseAddr s = Some (V6 w z)" "1 \<le> p" "p \<le> 65535"
  shows "parseGrantEntry (s @ '':'' @ show_int p) = Inl (Errorf ''host must be a literal IP'')"
proof -
  let ?sep = "\<lambda>c. c \<notin> {CHR ''.'', CHR '':'', CHR ''%''}"
  have "\<exists>t. dropWhile ?sep s = CHR '':'' # t"
  proof (cases "dropWhile ?sep s")
    case Nil
    show ?thesis using assms(1) unfolding ParseAddr_def Nil by simp
  next
    case (Cons c t)
    show ?thesis using assms(1) unfolding ParseAddr_def Cons by (simp add: parseIPv4_def split: if_splits)
  qed
  then obtain t where t: "dropWhile ?sep s = CHR '':'' # t" ..
  have s: "takeWhile ?sep s @ CHR '':'' # t = s" using takeWhile_dropWhile_id[of ?sep s] unfolding t .
  have host: "CHR '':'' \<notin> set (takeWhile ?sep s)" by (auto dest: set_takeWhileD)
  have "(takeWhile ?sep s @ CHR '':'' # t) @ '':'' @ show_int p
      = takeWhile ?sep s @ CHR '':'' # (t @ '':'' @ show_int p)" by simp
  then have "s @ '':'' @ show_int p = takeWhile ?sep s @ CHR '':'' # (t @ '':'' @ show_int p)"
    unfolding s .
  then have "cut CHR '':'' (s @ '':'' @ show_int p) = Some (takeWhile ?sep s, t @ '':'' @ show_int p)"
    by (simp only: cut_append[OF host])
  moreover have "dropWhile ?sep (takeWhile ?sep s) = []"
    unfolding dropWhile_eq_Nil_conv by (blast dest: set_takeWhileD)
  then have "ParseAddr (takeWhile ?sep s) = None" unfolding ParseAddr_def by (simp only: list.case)
  ultimately show ?thesis using ParseAddrPort_entry[OF assms] by (simp add: parseGrantEntry_def)
qed

section \<open>Properties\<close>

lemma NewRunner_granted: "NewRunner cfg = Inr r \<Longrightarrow> granted_in r sid = {}"
  by (auto simp: NewRunner_def granted_in_def split: if_splits)

text \<open>
  C4. No capability takes effect unaudited. Whatever sequence of denials, grants,
  approvals, revocations, replays, starts, stops, policy changes, connections and
  store calls has happened, with any fault of the database or the network, every
  address and port a running allowlist admits through a grant is the one a
  \<open>policy_granted\<close> row of the audit table names for that sandbox, and so is every
  grant the service holds live.
\<close>

theorem grants_are_audited:
  assumes "NewRunner cfg = Inr r0" and "NewCapabilityService True True True s0 r0 = Inr st0"
    and "st = fold (cap_step AllowEgress RevokeAll runner_env_step) ops st0"
  shows "(\<forall>sid ae sv dest. rn_active (cp_granter st) sid = Some ae \<and> ae_sup ae = Some sv
        \<and> dest \<in> al_grants (sup_allow sv) \<longrightarrow>
      (\<exists>g print i now. stored_event i now (grantEvent print g) \<in> set (sandbox_events (cp_index st))
         \<and> cg_SandboxID g = sid \<and> cg_Capability g = CapabilityEgress \<and> parseGrantEntry (AllowlistEntry g) = Inr dest))
    \<and> (\<forall>sid. \<forall>g \<in> set (LiveGrants sid st). cg_SandboxID g = sid \<and>
      (\<exists>print i now. stored_event i now (grantEvent print g) \<in> set (sandbox_events (cp_index st))))"
proof -
  have st0: "cp_granter st0 = r0" "slice_of (cp_live st0) sid = []" for sid
    using assms(2) by (auto simp: NewCapabilityService_def)
  then have "escalation.grants_audited st0"
    using NewRunner_granted[OF assms(1)] by (simp add: escalation.grants_audited_def live_audited_def)
  then have inv: "escalation.grants_audited st" unfolding assms(3) by (rule escalation.audit.run_inv)
  have "dest \<in> granted_in (cp_granter st) sid"
    if "rn_active (cp_granter st) sid = Some ae" "ae_sup ae = Some sv" "dest \<in> al_grants (sup_allow sv)" for sid ae sv dest
    using that by (simp add: granted_in_def)
  then show ?thesis using inv
    unfolding escalation.grants_audited_def escalation.justified_def live_audited_def audited_def LiveGrants_def by blast
qed

text \<open>
  One prompt per destination. After any such history the requests pending for a
  sandbox have pairwise different destinations, each is a valid egress request of
  that sandbox, and a denial repeated for a destination that is pending or granted
  changes nothing.
\<close>

theorem one_prompt_per_destination:
  assumes "NewCapabilityService True True True s0 r0 = Inr st0"
    and "st = fold (cap_step AllowEgress RevokeAll runner_env_step) ops st0"
  shows "distinct (map CapabilityRequest_Key (PendingRequests sid st))
    \<and> (\<forall>p \<in> set (PendingRequests sid st). cr_SandboxID p = sid \<and> cr_Capability p = CapabilityEgress
         \<and> CapabilityRequest_Validate p = None)
    \<and> (\<forall>d req. RequestFromObservedDenial d = Inr req \<and> cr_SandboxID req = sid
         \<and> (\<exists>k. (k \<in> CapabilityRequest_Key ` set (PendingRequests sid st) \<or> k \<in> CapabilityGrant_Key ` set (LiveGrants sid st))
               \<and> k = CapabilityRequest_Key req)
         \<longrightarrow> RecordDenial d st = st)"
proof -
  have "one_prompt st0" using assms(1) by (auto simp: NewCapabilityService_def one_prompt_def prompts_ok_def)
  then have "one_prompt st" unfolding assms(2)
    by (rule prompts.run_inv)
  then show ?thesis
    by (auto simp: one_prompt_def prompts_ok_def PendingRequests_def LiveGrants_def RecordDenial_def Let_def list_ex_iff)
qed

lemma pending_request:
  assumes "one_prompt st" "p \<in> set (PendingRequests sid st)"
  shows "cr_SandboxID p = sid" "cr_Capability p = CapabilityEgress" "CapabilityRequest_Validate p = None"
    "1 \<le> cr_ObservedDestPort p" "cr_ObservedDestPort p \<le> 65535"
proof -
  show "cr_SandboxID p = sid" and cap: "cr_Capability p = CapabilityEgress"
    and valid: "CapabilityRequest_Validate p = None"
    using assms by (auto simp: one_prompt_def prompts_ok_def PendingRequests_def)
  show "1 \<le> cr_ObservedDestPort p" "cr_ObservedDestPort p \<le> 65535"
    using valid cap unfolding CapabilityRequest_Validate_def andthen_None guard_err_None by auto
qed

lemma pending_found:
  assumes "one_prompt st" "p \<in> set (PendingRequests sid st)"
  shows "find (\<lambda>r. CapabilityRequest_Key r = CapabilityRequest_Key p) (slice_of (cp_pending st) sid) = Some p"
proof -
  let ?ps = "slice_of (cp_pending st) sid" and ?req = "\<lambda>r. CapabilityRequest_Key r = CapabilityRequest_Key p"
  have p: "p \<in> set ?ps" and d: "distinct (map CapabilityRequest_Key ?ps)"
    using assms by (auto simp: PendingRequests_def one_prompt_def prompts_ok_def)
  then obtain r where r: "find ?req ?ps = Some r" by (cases "find ?req ?ps") (auto simp: find_None_iff)
  then have "r \<in> set ?ps" "?req r" by (auto simp: find_Some_iff in_set_conv_nth)
  then have "r = p" using d p by (metis distinct_map inj_onD)
  then show ?thesis using r by simp
qed

text \<open>
  An approval works for IPv4. When a request for an IPv4 address outside the
  denied ranges is pending for a sandbox whose stack runs, and the audit row can be
  written, approving it succeeds, is on record, removes the prompt, holds the grant,
  admits exactly that address and port in addition to what was admitted before, and
  the same connection attempt is then authorized to that very address.
\<close>

theorem approved_destination_is_admitted:
  assumes "one_prompt st" and "p \<in> set (PendingRequests sid st)"
    and "ParseAddr (cr_ObservedDestIP p) = Some (V4 w)" and "IsUnconditionallyDenied (V4 w) = None"
    and "rn_active (cp_granter st) sid = Some ae" and "ae_sup ae = Some sv"
    and "AppendSandboxEvent (ce_ulid E) (ce_io E) (ce_store_clock E)
           (grantEvent (ce_print E) (grant_of (ce_clock E) p)) (cp_index st) = (None, s')"
  shows "\<exists>st' sv'. Approve E AllowEgress sid (CapabilityRequest_Key p) st = (Inr (grant_of (ce_clock E) p), st')
    \<and> cp_index st' = s' \<and> p \<notin> set (PendingRequests sid st') \<and> grant_of (ce_clock E) p \<in> set (LiveGrants sid st')
    \<and> rn_active (cp_granter st') = (rn_active (cp_granter st))(sid \<mapsto> ae\<lparr>ae_sup := Some sv'\<rparr>)
    \<and> (\<forall>ip port. AllowsIP (sup_allow sv') ip port \<longleftrightarrow>
         AllowsIP (sup_allow sv) ip port \<or> (Unmap ip = V4 w \<and> port = cr_ObservedDestPort p))
    \<and> (\<forall>upstream now g. handle_authorize upstream now g (Inr (V4 w, cr_ObservedDestPort p)) sv'
         = (sv'\<lparr>sv_stack := snd (Authorize upstream now (sv_auth sv') \<lparr>fl_Protocol = ''tcp'',
              fl_Host = addr_String (V4 w), fl_Port = cr_ObservedDestPort p\<rparr> (sv_stack sv')),
            sv_dialing := (g, V4 w, cr_ObservedDestPort p) # sv_dialing sv'\<rparr>, []))"
proof -
  let ?port = "cr_ObservedDestPort p" and ?key = "CapabilityRequest_Key p" and ?g = "grant_of (ce_clock E) p"
  note p = pending_request[OF assms(1,2)]
  note port = p(4,5)
  note found = pending_found[OF assms(1,2)]
  have entry: "parseGrantEntry (AllowlistEntry ?g) = Inr (V4 w, ?port)"
    using parse_v4_entry[OF assms(3) port] by (simp add: AllowlistEntry_def grant_of_def)
  let ?al = "(sup_allow sv)\<lparr>al_grants := insert (V4 w, ?port) (al_grants (sup_allow sv))\<rparr>"
  let ?sv = "set_allow ?al sv"
  have "AllowEgress sid (AllowlistEntry ?g) (cp_granter st) = (None, set_sup sid ae ?sv (cp_granter st))"
    using entry assms(5,6) port by (simp add: AllowEgress_def GrantIP_def IsValid_def)
  then have grant: "Grant E AllowEgress p st =
      (Inr ?g, hold_live ?g (st\<lparr>cp_index := s', cp_granter := set_sup sid ae ?sv (cp_granter st)\<rparr>))"
    using assms(7) p by (simp add: Grant_def Let_def)
  let ?left = "removeRequest (slice_of (cp_pending st) sid) ?key"
  let ?st = "(hold_live ?g (st\<lparr>cp_index := s', cp_granter := set_sup sid ae ?sv (cp_granter st)\<rparr>))
      \<lparr>cp_pending := (cp_pending st)(sid := if ?left = [] then None else Some ?left)\<rparr>"
  have approve: "Approve E AllowEgress sid ?key st = (Inr ?g, ?st)"
    using found grant by (simp add: Approve_def Let_def hold_live_def)
  have allows: "AllowsIP (sup_allow ?sv) ip q \<longleftrightarrow> AllowsIP (sup_allow sv) ip q \<or> (Unmap ip = V4 w \<and> q = ?port)" for ip q
    by (auto simp: AllowsIP_def isGranted_def set_allow_def Let_def)
  have "ParseAddr (addr_String (V4 w)) = Some (V4 w)" by (rule ParseAddr_addr_String) (simp_all add: IsValid_def)
  then have "Authorize up now cfg \<lparr>fl_Protocol = ''tcp'', fl_Host = addr_String (V4 w), fl_Port = ?port\<rparr> (sv_stack ?sv)
      = allow cfg \<lparr>fl_Protocol = ''tcp'', fl_Host = addr_String (V4 w), fl_Port = ?port\<rparr> (V4 w) ''ip allowlisted'' (sv_stack ?sv)"
    for up now cfg using port assms(4) allows[of "V4 w" ?port]
    by (simp add: Authorize_def authorizeRawIP_def del: addr_String.simps)
  then have "handle_authorize up now g (Inr (V4 w, ?port)) ?sv
      = (?sv\<lparr>sv_stack := snd (Authorize up now (sv_auth ?sv) \<lparr>fl_Protocol = ''tcp'', fl_Host = addr_String (V4 w), fl_Port = ?port\<rparr> (sv_stack ?sv)),
          sv_dialing := (g, V4 w, ?port) # sv_dialing ?sv\<rparr>, [])" for up now g
    by (simp add: handle_authorize_def allow_def del: addr_String.simps)
  moreover have "p \<notin> set (PendingRequests sid ?st)" "?g \<in> set (LiveGrants sid ?st)"
    using p by (simp_all add: PendingRequests_def LiveGrants_def removeRequest_def hold_live_def grant_of_def)
  moreover have "rn_active (cp_granter ?st) = (rn_active (cp_granter st))(sid \<mapsto> ae\<lparr>ae_sup := Some ?sv\<rparr>)"
    "cp_index ?st = s'" by (simp_all add: hold_live_def set_sup_def)
  ultimately show ?thesis using approve allows by blast
qed

definition demo_cap_env :: cap_env where
  "demo_cap_env = \<lparr>ce_ulid = demo_ulid, ce_io = no_fault, ce_clock = 5, ce_store_clock = 5, ce_print = (\<lambda>_. True)\<rparr>"

definition demo_caps :: "Runner cap_state" where
  "demo_caps = \<lparr>cp_live = (\<lambda>_. None), cp_pending = (\<lambda>_. None), cp_index = empty_Store, cp_granter = demo_runner\<rparr>"

definition demo_denial :: "addr \<Rightarrow> ObservedDenial" where
  "demo_denial ip = \<lparr>od_SandboxID = ''sb1'', od_TaskID = ''MGIT-1'', od_DestIP = ip, od_DestPort = 443, od_Rule = []\<rparr>"

definition demo_denied :: "addr \<Rightarrow> Runner cap_state" where
  "demo_denied ip = fold (cap_step AllowEgress RevokeAll runner_env_step) [EngineC demo_start, DenialC (demo_denial ip)] demo_caps"

lemma demo_caps_new: "NewCapabilityService True True True empty_Store demo_runner = Inr demo_caps"
  "NewRunner demo_runner_cfg = Inr demo_runner"
  by (simp_all add: NewCapabilityService_def demo_caps_def NewRunner_def demo_runner_cfg_def demo_runner_def)

lemma demo_denied_prompt: "one_prompt (demo_denied ip)"
  unfolding demo_denied_def
  by (rule prompts.run_inv) (simp add: one_prompt_def demo_caps_def prompts_ok_def)

theorem grants_are_audited_witness:
  "\<exists>st g print i now. st = fold (cap_step AllowEgress RevokeAll runner_env_step)
       [EngineC demo_start, DenialC (demo_denial (V4 0x08080808)), ApproveC demo_cap_env ''sb1'' ''8.8.8.8:443''] demo_caps
     \<and> granted_in (cp_granter st) ''sb1'' = {(V4 0x08080808, 443)}
     \<and> stored_event i now (grantEvent print g) \<in> set (sandbox_events (cp_index st))
     \<and> parseGrantEntry (AllowlistEntry g) = Inr (V4 0x08080808, 443)"
proof -
  let ?ops = "[EngineC demo_start, DenialC (demo_denial (V4 0x08080808)), ApproveC demo_cap_env ''sb1'' ''8.8.8.8:443'']"
  let ?st = "fold (cap_step AllowEgress RevokeAll runner_env_step) ?ops demo_caps"
  have g: "granted_in (cp_granter ?st) ''sb1'' = {(V4 0x08080808, 443)}" by code_simp
  then obtain ae sv where "rn_active (cp_granter ?st) ''sb1'' = Some ae" "ae_sup ae = Some sv"
    "(V4 0x08080808, 443) \<in> al_grants (sup_allow sv)" by (auto simp: granted_in_def split: option.splits)
  then show ?thesis
    using grants_are_audited[OF demo_caps_new(2,1) refl, of ?ops] g by blast
qed

theorem one_prompt_per_destination_witness:
  "length (PendingRequests ''sb1'' (demo_denied (V4 0x08080808))) = 1
   \<and> RecordDenial (demo_denial (V4 0x08080808)) (demo_denied (V4 0x08080808)) = demo_denied (V4 0x08080808)"
proof -
  let ?st = "demo_denied (V4 0x08080808)"
  obtain req where r: "RequestFromObservedDenial (demo_denial (V4 0x08080808)) = Inr req" "cr_SandboxID req = ''sb1''"
    "CapabilityRequest_Key req = ''8.8.8.8:443''"
  proof -
    have "case RequestFromObservedDenial (demo_denial (V4 0x08080808)) of Inl e \<Rightarrow> False
      | Inr req \<Rightarrow> cr_SandboxID req = ''sb1'' \<and> CapabilityRequest_Key req = ''8.8.8.8:443''" by code_simp
    then show thesis using that by (auto split: sum.splits)
  qed
  have k: "map CapabilityRequest_Key (PendingRequests ''sb1'' ?st) = [''8.8.8.8:443'']" by code_simp
  then have "length (PendingRequests ''sb1'' ?st) = 1" by (metis One_nat_def length_Cons length_map list.size(3))
  moreover have "''8.8.8.8:443'' \<in> CapabilityRequest_Key ` set (PendingRequests ''sb1'' ?st)"
    using k by (metis list.set_intros(1) list.set_map)
  moreover have "RecordDenial (demo_denial (V4 0x08080808)) ?st = ?st"
    by (rule one_prompt_per_destination[OF demo_caps_new(1) demo_denied_def, of "''sb1''" "V4 0x08080808",
          THEN conjunct2, THEN conjunct2, rule_format, of _ req]) (simp add: r calculation(2))
  ultimately show ?thesis by blast
qed

theorem approved_destination_is_admitted_witness:
  "\<exists>g st'. Approve demo_cap_env AllowEgress ''sb1'' ''8.8.8.8:443'' (demo_denied (V4 0x08080808)) = (Inr g, st')
     \<and> cg_ObservedDestIP g = ''8.8.8.8'' \<and> g \<in> set (LiveGrants ''sb1'' st')"
proof -
  let ?st = "demo_denied (V4 0x08080808)"
  have "map (\<lambda>p. (CapabilityRequest_Key p, cr_ObservedDestIP p)) (PendingRequests ''sb1'' ?st)
      = [(''8.8.8.8:443'', ''8.8.8.8'')]" by code_simp
  then obtain p where p: "p \<in> set (PendingRequests ''sb1'' ?st)" "CapabilityRequest_Key p = ''8.8.8.8:443''"
    "cr_ObservedDestIP p = ''8.8.8.8''" by auto
  have "map_option (\<lambda>ae. ae_sup ae \<noteq> None) (rn_active (cp_granter ?st) ''sb1'') = Some True" by code_simp
  then obtain ae sv where e: "rn_active (cp_granter ?st) ''sb1'' = Some ae" "ae_sup ae = Some sv" by auto
  have "list_all (\<lambda>p. fst (AppendSandboxEvent demo_ulid no_fault 5 (grantEvent (\<lambda>_. True) (grant_of 5 p)) (cp_index ?st)) = None)
      (PendingRequests ''sb1'' ?st)" by code_simp
  then have "fst (AppendSandboxEvent demo_ulid no_fault 5 (grantEvent (\<lambda>_. True) (grant_of 5 p)) (cp_index ?st)) = None"
    using p(1) by (simp add: list_all_iff)
  then obtain s' where a: "AppendSandboxEvent (ce_ulid demo_cap_env) (ce_io demo_cap_env) (ce_store_clock demo_cap_env)
      (grantEvent (ce_print demo_cap_env) (grant_of (ce_clock demo_cap_env) p)) (cp_index ?st) = (None, s')"
    by (metis cap_env.select_convs(1,2,3,4,5) demo_cap_env_def prod.collapse)
  have v: "ParseAddr (cr_ObservedDestIP p) = Some (V4 0x08080808)" unfolding p(3) by code_simp
  have d: "IsUnconditionallyDenied (V4 0x08080808) = None" by code_simp
  show ?thesis
    using approved_destination_is_admitted[OF demo_denied_prompt p(1) v d e a] p(2,3) by (auto simp: grant_of_def)
qed

text \<open>
  An approval never works for IPv6. The entry of a grant joins address and port
  with a colon and no brackets, and the runner cannot read that for an IPv6 address:
  approving such a request always fails and changes neither the allowlist nor the
  prompts nor the live grants, but the audit trail has gained a \<open>policy_granted\<close> row.
\<close>

theorem ipv6_grant_never_applies:
  assumes "one_prompt st" and "p \<in> set (PendingRequests sid st)"
    and "ParseAddr (cr_ObservedDestIP p) = Some (V6 w z)"
    and "AppendSandboxEvent (ce_ulid E) (ce_io E) (ce_store_clock E)
           (grantEvent (ce_print E) (grant_of (ce_clock E) p)) (cp_index st) = (None, s')"
  shows "\<exists>e. Approve E AllowEgress sid (CapabilityRequest_Key p) st = (Inl e, st\<lparr>cp_index := s'\<rparr>)
    \<and> (\<exists>i. sandbox_events s' = sandbox_events (cp_index st)
         @ [stored_event i (ce_store_clock E) (grantEvent (ce_print E) (grant_of (ce_clock E) p))])"
proof -
  let ?g = "grant_of (ce_clock E) p"
  note p = pending_request[OF assms(1,2)]
  have "parseGrantEntry (AllowlistEntry ?g) = Inl (Errorf ''host must be a literal IP'')"
    using parse_v6_entry[OF assms(3) p(4,5)] by (simp add: AllowlistEntry_def grant_of_def)
  then have "\<exists>e. Grant E AllowEgress p st = (Inl e, st\<lparr>cp_index := s'\<rparr>)"
    using assms(4) p by (simp add: Grant_def AllowEgress_def Let_def)
  then have "\<exists>e. Approve E AllowEgress sid (CapabilityRequest_Key p) st = (Inl e, st\<lparr>cp_index := s'\<rparr>)"
    using pending_found[OF assms(1,2)] by (auto simp: Approve_def)
  moreover have "\<exists>i. sandbox_events s' = sandbox_events (cp_index st)
      @ [stored_event i (ce_store_clock E) (grantEvent (ce_print E) ?g)]"
    using assms(4) by (cases rule: AppendSandboxEvent_cases) (auto simp: newULID_state)
  ultimately show ?thesis by blast
qed

theorem ipv6_grant_never_applies_witness:
  "\<exists>e st'. Approve demo_cap_env AllowEgress ''sb1'' ''2606::1:443'' (demo_denied (V6 0x26060000000000000000000000000001 []))
       = (Inl e, st') \<and> length (sandbox_events (cp_index st')) = 1
     \<and> granted_in (cp_granter st') ''sb1'' = {}"
proof -
  let ?st = "demo_denied (V6 0x26060000000000000000000000000001 [])"
  have "map (\<lambda>p. (CapabilityRequest_Key p, cr_ObservedDestIP p)) (PendingRequests ''sb1'' ?st)
      = [(''2606::1:443'', ''2606::1'')]" by code_simp
  then obtain p where p: "p \<in> set (PendingRequests ''sb1'' ?st)" "CapabilityRequest_Key p = ''2606::1:443''"
    "cr_ObservedDestIP p = ''2606::1''" by auto
  have "list_all (\<lambda>p. fst (AppendSandboxEvent demo_ulid no_fault 5 (grantEvent (\<lambda>_. True) (grant_of 5 p)) (cp_index ?st)) = None)
      (PendingRequests ''sb1'' ?st)" by code_simp
  then have "fst (AppendSandboxEvent demo_ulid no_fault 5 (grantEvent (\<lambda>_. True) (grant_of 5 p)) (cp_index ?st)) = None"
    using p(1) by (simp add: list_all_iff)
  then obtain s' where a: "AppendSandboxEvent (ce_ulid demo_cap_env) (ce_io demo_cap_env) (ce_store_clock demo_cap_env)
      (grantEvent (ce_print demo_cap_env) (grant_of (ce_clock demo_cap_env) p)) (cp_index ?st) = (None, s')"
    by (metis cap_env.select_convs(1,2,3,4,5) demo_cap_env_def prod.collapse)
  have v: "ParseAddr (cr_ObservedDestIP p) = Some (V6 0x26060000000000000000000000000001 [])" unfolding p(3) by code_simp
  have "sandbox_events (cp_index ?st) = []" "granted_in (cp_granter ?st) ''sb1'' = {}" by code_simp+
  then show ?thesis using ipv6_grant_never_applies[OF demo_denied_prompt p(1) v a] p(2) by auto
qed

end
