(* ===== verification/Guest_Exec.thy ===== *)
theory Guest_Exec
  imports Sandbox_Records "HOL-Library.Sublist"
begin

text \<open>
  The guest's command channel as the manager of microVMs drives it
  (\<open>internal/sandboxd/backend/microvm/manager.go\<close>): waiting for the guest to answer, retrying
  the first command, the bounded readiness probe and the handshake. One exchange with the
  guest (\<open>execOnce\<close>, \<open>DialGuest\<close>) is an argument: its outcome and how long it took. Instants
  are nanoseconds; a wait may last longer than the poll interval, never less.
\<close>

section \<open>Exchanges\<close>

abbreviation (input) guestReadyTimeoutDefault :: int where "guestReadyTimeoutDefault \<equiv> 15000000000"
abbreviation (input) guestReadyPollInterval :: int where "guestReadyPollInterval \<equiv> 50000000"

abbreviation (input) ProtocolVersion :: int where "ProtocolVersion \<equiv> 1"

record wire_result =
  wr_ExitCode :: int
  wr_RanAs :: "GuestIdentity option"
  wr_GuestProtocol :: int
  wr_GuestBuild :: string

record ExecResult =
  xr_Stdout :: "byte list"
  xr_Stderr :: "byte list"
  xr_ExitCode :: int
  xr_RanAs :: "GuestIdentity option"

text \<open>
  The \<open>n\<close>-th exchange of a loop: what \<open>execOnce\<close> returned, how long it took, whether the guest
  had by then never answered, whether the context ended during the wait that follows, and how
  much longer than the poll interval that wait lasted.
\<close>

record exchange =
  ea_result :: wire_result
  ea_stdout :: "byte list"
  ea_stderr :: "byte list"
  ea_err :: "err option"
  ea_took :: nat
  ea_never :: bool
  ea_cancelled :: bool
  ea_late :: nat

definition isSilentDisconnect :: "err \<Rightarrow> byte list \<Rightarrow> byte list \<Rightarrow> bool" where
  "isSilentDisconnect e stdout stderr =
     (if length stdout \<noteq> 0 \<or> length stderr \<noteq> 0 then False
      else errors_is e IoEOF \<or> errors_is e ECONNRESET \<or> errors_is e EPIPE)"

definition dropSuspect :: "err \<Rightarrow> bool" where
  "dropSuspect e = (errors_is e IoEOF \<or> errors_is e IoErrUnexpectedEOF \<or> errors_is e ECONNRESET)"

section \<open>The first command\<close>

definition exec_reply :: "exchange \<Rightarrow> ExecResult" where
  "exec_reply a = \<lparr>xr_Stdout = ea_stdout a, xr_Stderr = ea_stderr a, xr_ExitCode = wr_ExitCode (ea_result a),
     xr_RanAs = wr_RanAs (ea_result a)\<rparr>"

text \<open>The loop of \<open>execUntilTheGuestAnswers\<close>; the second component counts the exchanges made.\<close>

function exec_loop :: "(nat \<Rightarrow> exchange) \<Rightarrow> nat \<Rightarrow> int \<Rightarrow> int \<Rightarrow> ExecResult result \<times> nat" where
  "exec_loop att n now deadline =
     (let a = att n; now1 = now + int (ea_took a) in
      case ea_err a of
        None \<Rightarrow> (Inr (exec_reply a), Suc n)
      | Some e \<Rightarrow>
          if \<not> ea_never a \<or> \<not> isSilentDisconnect e (ea_stdout a) (ea_stderr a)
             \<or> \<not> now1 + guestReadyPollInterval < deadline
          then (Inl (Wrap (if dropSuspect e then ''exec (suspect: the guest process exited)'' else ''exec'') e), Suc n)
          else if ea_cancelled a then (Inl (Wrap ''exec'' e), Suc n)
          else exec_loop att (Suc n) (now1 + guestReadyPollInterval + int (ea_late a)) deadline)"
  by pat_completeness auto
termination
  by (relation "measure (\<lambda>(att, n, now, deadline). nat (deadline - now))") auto

declare exec_loop.simps [simp del]

definition execUntilTheGuestAnswers :: "(nat \<Rightarrow> exchange) \<Rightarrow> int \<Rightarrow> int \<Rightarrow> ExecResult result \<times> nat" where
  "execUntilTheGuestAnswers att timeout now = exec_loop att 0 now (now + timeout)"

section \<open>The readiness probe\<close>

abbreviation (input) probeOutputCapBytes :: int where "probeOutputCapBytes \<equiv> 65536"
abbreviation (input) probeFrameCap :: int where "probeFrameCap \<equiv> 256"
abbreviation (input) maxGuestBuildChars :: nat where "maxGuestBuildChars \<equiv> 64"

record probeSink =
  pk_bytes :: int
  pk_frames :: int

definition probe_Write :: "byte list \<Rightarrow> probeSink \<Rightarrow> int result \<times> probeSink" where
  "probe_Write b p =
     (let p1 = p\<lparr>pk_frames := pk_frames p + 1, pk_bytes := pk_bytes p + int (length b)\<rparr> in
      if pk_bytes p1 > probeOutputCapBytes \<or> pk_frames p1 > probeFrameCap
      then (Inl (Wrap ''the guest sent more than the probe allows'' (Sentinel ErrGuestProbeOutput)), p1)
      else (Inr (int (length b)), p1))"

text \<open>The frames a reader hands to the sink, up to the write that is refused.\<close>

fun probe_read :: "byte list list \<Rightarrow> probeSink \<Rightarrow> err option \<times> probeSink \<times> byte list list" where
  "probe_read [] p = (None, p, [])"
| "probe_read (b # bs) p =
     (case probe_Write b p of
        (Inl e, p1) \<Rightarrow> (Some e, p1, [])
      | (Inr _, p1) \<Rightarrow> (case probe_read bs p1 of (e, p2, taken) \<Rightarrow> (e, p2, b # taken)))"

text \<open>
  \<open>for _, r := range s\<close> skips every rune that is not printable ASCII. The bytes of a longer or
  an invalid sequence are all at least 0x80, so it is a filter of bytes.
\<close>

definition printable :: "char \<Rightarrow> bool" where
  "printable c \<longleftrightarrow> \<not> ((of_char c :: nat) < 0x20 \<or> (of_char c :: nat) > 0x7E)"

fun printable_loop :: "nat \<Rightarrow> nat \<Rightarrow> string \<Rightarrow> string" where
  "printable_loop n mx [] = []"
| "printable_loop n mx (c # s) =
     (if \<not> printable c then printable_loop n mx s
      else if n = mx then ''...''
      else c # printable_loop (Suc n) mx s)"

definition printableBounded :: "string \<Rightarrow> nat \<Rightarrow> string" where
  "printableBounded s mx = printable_loop 0 mx s"

definition guest_says :: "wire_result \<Rightarrow> string" where
  "guest_says r =
     (let says = (if wr_GuestProtocol r \<noteq> 0
                  then ''speaks exec protocol '' @ show_int (wr_GuestProtocol r) @ '' (this daemon speaks '' @ show_int ProtocolVersion @ '')''
                  else ''predates the version handshake'');
          b = printableBounded (wr_GuestBuild r) maxGuestBuildChars
      in if b \<noteq> [] then says @ '', build '' @ b else says)"

definition checkGuestHello :: "wire_result \<Rightarrow> err option" where
  "checkGuestHello r =
     (if wr_GuestProtocol r = ProtocolVersion then None
      else Some (Wrap (guest_says r) (Sentinel ErrGuestVersionSkew)))"

text \<open>The loop of \<open>awaitGuestServing\<close>.\<close>

function await_loop :: "(nat \<Rightarrow> exchange) \<Rightarrow> nat \<Rightarrow> int \<Rightarrow> int \<Rightarrow> err option \<times> nat" where
  "await_loop att n now deadline =
     (let a = att n; now1 = now + int (ea_took a) in
      case ea_err a of
        None \<Rightarrow> (checkGuestHello (ea_result a), Suc n)
      | Some e \<Rightarrow>
          if errors_is e ErrGuestProbeOutput then (Some e, Suc n)
          else if errors_is e ErrGuestReported then (checkGuestHello (ea_result a), Suc n)
          else if \<not> now1 + guestReadyPollInterval < deadline
          then (Some (Wrap2 (Sentinel ErrGuestNotServing) e), Suc n)
          else if ea_cancelled a then (Some (Wrap2 (Sentinel ErrGuestNotServing) (Sentinel ContextCanceled)), Suc n)
          else await_loop att (Suc n) (now1 + guestReadyPollInterval + int (ea_late a)) deadline)"
  by pat_completeness auto
termination
  by (relation "measure (\<lambda>(att, n, now, deadline). nat (deadline - now))") auto

declare await_loop.simps [simp del]

definition awaitGuestServing :: "(nat \<Rightarrow> exchange) \<Rightarrow> int \<Rightarrow> int \<Rightarrow> err option \<times> nat" where
  "awaitGuestServing att timeout now = await_loop att 0 now (now + timeout)"

section \<open>Dialling\<close>

record dial_attempt =
  da_ctx_err :: "err option"
  da_conn :: "nat result"
  da_took :: nat
  da_cancelled :: bool
  da_late :: nat

function dial_loop :: "(nat \<Rightarrow> dial_attempt) \<Rightarrow> err option \<Rightarrow> nat \<Rightarrow> int \<Rightarrow> int \<Rightarrow> nat result" where
  "dial_loop att lastErr n now deadline =
     (let a = att n in
      case da_ctx_err a of
        Some e \<Rightarrow> Inl (case lastErr of Some le \<Rightarrow> Wrap ''guest not ready'' le | None \<Rightarrow> e)
      | None \<Rightarrow>
          (case da_conn a of
             Inr conn \<Rightarrow> Inr conn
           | Inl e \<Rightarrow>
               (let now1 = now + int (da_took a) in
                if \<not> now1 + guestReadyPollInterval < deadline then Inl (Wrap ''guest vsock not ready'' e)
                else if da_cancelled a then Inl (Wrap ''guest not ready'' e)
                else dial_loop att (Some e) (Suc n) (now1 + guestReadyPollInterval + int (da_late a)) deadline)))"
  by pat_completeness auto
termination
  by (relation "measure (\<lambda>(att, lastErr, n, now, deadline). nat (deadline - now))") auto

declare dial_loop.simps [simp del]

definition dialGuestReady :: "(nat \<Rightarrow> dial_attempt) \<Rightarrow> int option \<Rightarrow> int \<Rightarrow> int \<Rightarrow> nat result" where
  "dialGuestReady att ctx_deadline timeout now =
     (let deadline = now + timeout in
      dial_loop att None 0 now (case ctx_deadline of Some d \<Rightarrow> if d < deadline then d else deadline | None \<Rightarrow> deadline))"

section \<open>The console\<close>

definition TailFile :: "string option \<Rightarrow> nat \<Rightarrow> string" where
  "TailFile content maxBytes =
     (case content of
        None \<Rightarrow> []
      | Some b \<Rightarrow> if length b > maxBytes then drop (length b - maxBytes) b else b)"

section \<open>How the loops behave\<close>

text \<open>The exchanges before the last left the loop running.\<close>

definition resent :: "exchange \<Rightarrow> bool" where
  "resent a \<longleftrightarrow> ea_never a \<and> \<not> ea_cancelled a \<and>
     (\<exists>e. ea_err a = Some e \<and> isSilentDisconnect e (ea_stdout a) (ea_stderr a))"

lemma exec_loop_trace:
  assumes "exec_loop att n now deadline = (r, m)"
  shows "n < m \<and> (\<forall>i. n \<le> i \<and> Suc i < m \<longrightarrow> resent (att i))
    \<and> (Suc n < m \<longrightarrow> now + int (m - Suc n) * guestReadyPollInterval < deadline)
    \<and> (case r of Inr x \<Rightarrow> ea_err (att (m - 1)) = None \<and> x = exec_reply (att (m - 1))
       | Inl _ \<Rightarrow> ea_err (att (m - 1)) \<noteq> None)"
  using assms
proof (induction att n now deadline arbitrary: r m rule: exec_loop.induct)
  case (1 att n now deadline)
  let ?now = "now + int (ea_took (att n)) + guestReadyPollInterval + int (ea_late (att n))"
  consider (stop) "m = Suc n" "case r of Inr x \<Rightarrow> ea_err (att n) = None \<and> x = exec_reply (att n) | Inl _ \<Rightarrow> ea_err (att n) \<noteq> None"
    | (again) e where "ea_err (att n) = Some e"
        "\<not> (\<not> ea_never (att n) \<or> \<not> isSilentDisconnect e (ea_stdout (att n)) (ea_stderr (att n))
             \<or> \<not> now + int (ea_took (att n)) + guestReadyPollInterval < deadline)"
        "\<not> ea_cancelled (att n)" "exec_loop att (Suc n) ?now deadline = (r, m)"
    using "1.prems"
    by (subst (asm) exec_loop.simps) (auto simp: Let_def split: option.splits if_splits)
  then show ?case
  proof cases
    case stop
    then show ?thesis by (auto split: sum.splits)
  next
    case again
    note ih = "1.IH"[OF refl refl again]
    have first: "resent (att n)" "now + int (ea_took (att n)) + guestReadyPollInterval < deadline"
      using again by (auto simp: resent_def)
    have "resent (att i)" if i: "n \<le> i" "Suc i < m" for i
      using ih first(1) i by (cases "i = n") auto
    moreover have "now + int (m - Suc n) * guestReadyPollInterval < deadline"
    proof (cases "Suc (Suc n) < m")
      case True
      then have "int (m - Suc n) = int (m - Suc (Suc n)) + 1" by simp
      then show ?thesis using ih True by (simp add: algebra_simps)
    next
      case False
      then have "m = Suc (Suc n)" using ih by simp
      then show ?thesis using first(2) by simp
    qed
    ultimately show ?thesis using ih by auto
  qed
qed

text \<open>
  C35. A command is sent again only after silence: whatever the guest does, the loop ends, and
  every exchange but the last was a disconnect with no output, made while the guest had never
  answered; the repeats fit in the readiness window. The answer reported is the last
  exchange's, and an error is reported only if that one failed.
\<close>

theorem resend_only_after_silence:
  assumes "execUntilTheGuestAnswers att timeout now = (r, m)"
  shows "0 < m \<and> (\<forall>i. Suc i < m \<longrightarrow> resent (att i))
    \<and> (1 < m \<longrightarrow> int (m - 1) * guestReadyPollInterval < timeout)
    \<and> (case r of Inr x \<Rightarrow> ea_err (att (m - 1)) = None \<and> x = exec_reply (att (m - 1))
       | Inl _ \<Rightarrow> ea_err (att (m - 1)) \<noteq> None)"
  using exec_loop_trace[OF assms[unfolded execUntilTheGuestAnswers_def]] by auto

definition quiet_exchange :: exchange where
  "quiet_exchange = \<lparr>ea_result = \<lparr>wr_ExitCode = 0, wr_RanAs = None, wr_GuestProtocol = 0, wr_GuestBuild = []\<rparr>,
     ea_stdout = [], ea_stderr = [], ea_err = Some (Wrap ''read frame'' (Sentinel ECONNRESET)), ea_took = 1000000,
     ea_never = True, ea_cancelled = False, ea_late = 0\<rparr>"

definition booting :: "nat \<Rightarrow> nat \<Rightarrow> exchange" where
  "booting k n = (if n < k then quiet_exchange
     else quiet_exchange\<lparr>ea_err := None, ea_stdout := [111, 107],
       ea_result := \<lparr>wr_ExitCode = 0, wr_RanAs = None, wr_GuestProtocol = 1, wr_GuestBuild = ''dev''\<rparr>\<rparr>)"

lemma booting_run: "execUntilTheGuestAnswers (booting 2) guestReadyTimeoutDefault 0 = (Inr (exec_reply (booting 2 2)), 3)"
  unfolding execUntilTheGuestAnswers_def
  by (subst exec_loop.simps, simp add: booting_def quiet_exchange_def isSilentDisconnect_def)+

theorem resend_only_after_silence_witness:
  "execUntilTheGuestAnswers (booting 2) guestReadyTimeoutDefault 0 = (Inr (exec_reply (booting 2 2)), 3)
   \<and> resent (booting 2 0) \<and> resent (booting 2 1) \<and> (2::int) * guestReadyPollInterval < guestReadyTimeoutDefault"
proof -
  have t: "(0::nat) < 3 \<and> (\<forall>i. Suc i < 3 \<longrightarrow> resent (booting 2 i)) \<and> (1 < (3::nat) \<longrightarrow> int (3 - 1) * guestReadyPollInterval < guestReadyTimeoutDefault)"
    using resend_only_after_silence[OF booting_run] by (auto simp del: One_nat_def)
  have "resent (booting 2 0)" "resent (booting 2 1)" using t by auto
  then show ?thesis using booting_run by simp
qed

text \<open>What counts as an answer to the probe, and as silence.\<close>

definition answered :: "exchange \<Rightarrow> bool" where
  "answered a \<longleftrightarrow> (case ea_err a of None \<Rightarrow> True | Some e \<Rightarrow> \<not> errors_is e ErrGuestProbeOutput \<and> errors_is e ErrGuestReported)"

definition unreached :: "exchange \<Rightarrow> bool" where
  "unreached a \<longleftrightarrow> \<not> ea_cancelled a \<and> (\<exists>e. ea_err a = Some e \<and> \<not> errors_is e ErrGuestProbeOutput \<and> \<not> errors_is e ErrGuestReported)"

lemma await_loop_None:
  assumes "await_loop att n now deadline = (None, m)"
  shows "n < m \<and> answered (att (m - 1)) \<and> wr_GuestProtocol (ea_result (att (m - 1))) = ProtocolVersion
    \<and> (\<forall>i. n \<le> i \<and> Suc i < m \<longrightarrow> unreached (att i))"
  using assms
proof (induction att n now deadline arbitrary: m rule: await_loop.induct)
  case (1 att n now deadline)
  let ?now = "now + int (ea_took (att n)) + guestReadyPollInterval + int (ea_late (att n))"
  consider (stop) "m = Suc n" "answered (att n)" "checkGuestHello (ea_result (att n)) = None"
    | (again) e where "ea_err (att n) = Some e" "\<not> errors_is e ErrGuestProbeOutput" "\<not> errors_is e ErrGuestReported"
        "\<not> \<not> now + int (ea_took (att n)) + guestReadyPollInterval < deadline" "\<not> ea_cancelled (att n)"
        "await_loop att (Suc n) ?now deadline = (None, m)"
    using "1.prems"
    by (subst (asm) await_loop.simps) (auto simp: Let_def answered_def split: option.splits if_splits)
  then show ?case
  proof cases
    case stop
    then show ?thesis by (auto simp: checkGuestHello_def split: if_splits)
  next
    case again
    note ih = "1.IH"[OF refl refl again]
    have "unreached (att n)" using again by (auto simp: unreached_def)
    then have "unreached (att i)" if "n \<le> i" "Suc i < m" for i using ih that by (cases "i = n") auto
    then show ?thesis using ih by auto
  qed
qed

lemma await_loop_reaches:
  assumes "\<forall>i. n \<le> i \<and> i < n + k \<longrightarrow> unreached (att i)" "answered (att (n + k))"
    "now + (\<Sum>i = n..<n + k. int (ea_took (att i)) + int (ea_late (att i)) + guestReadyPollInterval) < deadline"
  shows "await_loop att n now deadline = (checkGuestHello (ea_result (att (n + k))), Suc (n + k))"
  using assms
proof (induction k arbitrary: n now)
  case 0
  then show ?case by (subst await_loop.simps) (auto simp: answered_def Let_def split: option.splits)
next
  case (Suc k)
  let ?f = "\<lambda>i. int (ea_took (att i)) + int (ea_late (att i)) + guestReadyPollInterval"
  obtain e where e: "ea_err (att n) = Some e" "\<not> errors_is e ErrGuestProbeOutput" "\<not> errors_is e ErrGuestReported" "\<not> ea_cancelled (att n)"
    using Suc.prems(1) by (fastforce simp: unreached_def)
  have sum: "(\<Sum>i = n..<n + Suc k. ?f i) = ?f n + (\<Sum>i = Suc n..<Suc n + k. ?f i)"
    by (simp add: sum.atLeast_Suc_lessThan)
  have "0 \<le> (\<Sum>i = Suc n..<Suc n + k. ?f i)" by (rule sum_nonneg) simp
  then have w: "now + int (ea_took (att n)) + guestReadyPollInterval < deadline" using Suc.prems(3) sum by simp
  have "await_loop att (Suc n) (now + int (ea_took (att n)) + guestReadyPollInterval + int (ea_late (att n))) deadline
      = (checkGuestHello (ea_result (att (Suc n + k))), Suc (Suc n + k))"
    using Suc.prems sum by (intro Suc.IH) auto
  then show ?case using e w by (subst await_loop.simps) (simp add: Let_def)
qed

text \<open>
  A launch is confirmed exactly by the right guest: the wait ends with success only at an
  exchange the guest answered with this daemon's protocol number, every earlier one having
  reached nobody; and if the guest does answer so within the readiness window, after any number
  of exchanges that reached nobody, the wait succeeds there.
\<close>

theorem launch_waits_for_its_guest:
  "(\<forall>m. awaitGuestServing att timeout now = (None, m) \<longrightarrow>
      0 < m \<and> answered (att (m - 1)) \<and> wr_GuestProtocol (ea_result (att (m - 1))) = ProtocolVersion
      \<and> (\<forall>i. Suc i < m \<longrightarrow> unreached (att i)))
   \<and> (\<forall>k. (\<forall>i < k. unreached (att i)) \<and> answered (att k) \<and> wr_GuestProtocol (ea_result (att k)) = ProtocolVersion
        \<and> (\<Sum>i < k. int (ea_took (att i)) + int (ea_late (att i)) + guestReadyPollInterval) < timeout
      \<longrightarrow> awaitGuestServing att timeout now = (None, Suc k))"
proof (intro conjI allI impI)
  fix m assume "awaitGuestServing att timeout now = (None, m)"
  from await_loop_None[OF this[unfolded awaitGuestServing_def]]
  show "0 < m" "answered (att (m - 1))" "wr_GuestProtocol (ea_result (att (m - 1))) = ProtocolVersion"
    "\<And>i. Suc i < m \<Longrightarrow> unreached (att i)" by auto
next
  fix k assume "(\<forall>i < k. unreached (att i)) \<and> answered (att k) \<and> wr_GuestProtocol (ea_result (att k)) = ProtocolVersion
        \<and> (\<Sum>i < k. int (ea_took (att i)) + int (ea_late (att i)) + guestReadyPollInterval) < timeout"
  then show "awaitGuestServing att timeout now = (None, Suc k)"
    using await_loop_reaches[of 0 k att now "now + timeout"]
    by (simp add: awaitGuestServing_def checkGuestHello_def lessThan_atLeast0)
qed

theorem launch_waits_for_its_guest_witness:
  "awaitGuestServing (booting 3) guestReadyTimeoutDefault 7 = (None, 4)"
proof -
  have "(\<forall>i < 3. unreached (booting 3 i)) \<and> answered (booting 3 3) \<and> wr_GuestProtocol (ea_result (booting 3 3)) = ProtocolVersion
     \<and> (\<Sum>i < 3. int (ea_took (booting 3 i)) + int (ea_late (booting 3 i)) + guestReadyPollInterval) < guestReadyTimeoutDefault"
    by (simp add: booting_def quiet_exchange_def unreached_def answered_def lessThan_nat_numeral)
  then show ?thesis
    using launch_waits_for_its_guest[of "booting 3" guestReadyTimeoutDefault 7, THEN conjunct2, rule_format, of 3] by simp
qed

lemma printable_loop_bounded:
  "n \<le> mx \<Longrightarrow> length (printable_loop n mx s) \<le> mx - n + 3 \<and> (\<forall>c \<in> set (printable_loop n mx s). printable c)"
proof (induction s arbitrary: n)
  case (Cons c s)
  have dots: "\<forall>c \<in> set ''...''. printable c" by (simp add: printable_def)
  consider "\<not> printable c" | "printable c" "n = mx" | "printable c" "n < mx" using Cons.prems by linarith
  then show ?case
  proof cases
    case 3
    then show ?thesis using Cons.IH[of "Suc n"] by (simp add: Suc_leI) linarith
  qed (use Cons dots in simp_all)
qed simp

text \<open>
  What a hostile guest can make the host hold or quote before it is trusted is bounded:
  the frames taken by the probe's sink never exceed 64 KiB in 256 frames, whatever was sent,
  and the build string quoted in an error is printable ASCII of at most 64 characters and an
  ellipsis.
\<close>

theorem guest_output_bounded:
  "(case probe_read frames \<lparr>pk_bytes = 0, pk_frames = 0\<rparr> of
      (e, p, taken) \<Rightarrow> (\<Sum>b \<leftarrow> taken. length b) \<le> 65536 \<and> length taken \<le> 256
        \<and> prefix taken frames \<and> (e = None \<longrightarrow> taken = frames)
        \<and> (\<forall>x. e = Some x \<longrightarrow> errors_is x ErrGuestProbeOutput))
   \<and> length (printableBounded build maxGuestBuildChars) \<le> 67
   \<and> (\<forall>c \<in> set (printableBounded build maxGuestBuildChars). printable c)"
proof -
  have "case probe_read frames p of (e, p', taken) \<Rightarrow>
      pk_bytes p + int (\<Sum>b \<leftarrow> taken. length b) \<le> 65536 \<and> pk_frames p + int (length taken) \<le> 256
        \<and> prefix taken frames \<and> (e = None \<longrightarrow> taken = frames) \<and> (\<forall>x. e = Some x \<longrightarrow> errors_is x ErrGuestProbeOutput)"
    if "pk_bytes p \<le> 65536" "pk_frames p \<le> 256" for p
    using that
  proof (induction frames arbitrary: p)
    case (Cons b bs)
    let ?p = "p\<lparr>pk_frames := pk_frames p + 1, pk_bytes := pk_bytes p + int (length b)\<rparr>"
    show ?case
    proof (cases "pk_bytes ?p > 65536 \<or> pk_frames ?p > 256")
      case False
      then have "probe_Write b p = (Inr (int (length b)), ?p)" by (auto simp: probe_Write_def Let_def)
      then show ?thesis using Cons.IH[of ?p] False by (auto split: prod.splits)
    qed (use Cons.prems in \<open>simp add: probe_Write_def Let_def\<close>)
  qed simp
  from this[of "\<lparr>pk_bytes = 0, pk_frames = 0\<rparr>"]
  have "case probe_read frames \<lparr>pk_bytes = 0, pk_frames = 0\<rparr> of
      (e, p, taken) \<Rightarrow> (\<Sum>b \<leftarrow> taken. length b) \<le> 65536 \<and> length taken \<le> 256
        \<and> prefix taken frames \<and> (e = None \<longrightarrow> taken = frames)
        \<and> (\<forall>x. e = Some x \<longrightarrow> errors_is x ErrGuestProbeOutput)"
    by (auto split: prod.splits)
  moreover have "length (printableBounded build maxGuestBuildChars) \<le> 67"
    "\<forall>c \<in> set (printableBounded build maxGuestBuildChars). printable c"
    using printable_loop_bounded[of 0 maxGuestBuildChars build] by (auto simp: printableBounded_def)
  ultimately show ?thesis by blast
qed

end
