(* ===== verification/Go_Filepath.thy ===== *)
theory Go_Filepath
  imports Go_Strings "HOL-Library.Sublist"
begin

text \<open>
  The functions of Go's \<open>path/filepath\<close> that the sandbox code uses, on a host whose
  separator is the slash: \<open>Clean\<close> (from \<open>Go_Strings\<close>), \<open>Join\<close>, \<open>Dir\<close> and \<open>Rel\<close>.
  On clean absolute paths they are operations on lists of names, which is how the
  rest of the development reasons about containment.
\<close>

section \<open>Definitions\<close>

definition filepath_join :: "string list \<Rightarrow> string" where
  "filepath_join ws = (case filter (\<lambda>w. w \<noteq> []) ws of [] \<Rightarrow> [] | vs \<Rightarrow> path_clean (join_with CHR ''/'' vs))"

definition path_dir :: "string \<Rightarrow> string" where
  "path_dir p = path_clean (rev (dropWhile (\<lambda>c. c \<noteq> CHR ''/'') (rev p)))"

definition path_comps :: "string \<Rightarrow> string list" where
  "path_comps p = filter (\<lambda>w. w \<noteq> []) (split_on CHR ''/'' p)"

fun drop_common :: "string list \<Rightarrow> string list \<Rightarrow> string list \<times> string list" where
  "drop_common (b # bs) (t # ts) = (if b = t then drop_common bs ts else (b # bs, t # ts))"
| "drop_common bs ts = (bs, ts)"

definition path_rel :: "string \<Rightarrow> string \<Rightarrow> string option" where
  "path_rel basepath targpath =
     (let base0 = path_clean basepath; targ = path_clean targpath in
      if targ = base0 then Some ''.''
      else (let base = (if base0 = ''.'' then [] else base0) in
        if path_is_abs base \<noteq> path_is_abs targ then None
        else (case drop_common (path_comps base) (path_comps targ) of
                (bs, ts) \<Rightarrow>
                  if bs \<noteq> [] \<and> hd bs = ''..'' then None
                  else Some (join_with CHR ''/'' (replicate (length bs) ''..'' @ ts)))))"

section \<open>Clean absolute paths\<close>

definition abs_path :: "string list \<Rightarrow> string" where
  "abs_path ws = CHR ''/'' # join_with CHR ''/'' ws"

definition names_ok :: "string list \<Rightarrow> bool" where
  "names_ok ws \<longleftrightarrow> (\<forall>w \<in> set ws. plain_comp w \<and> CHR ''/'' \<notin> set w)"

lemma names_ok_simps [simp]:
  "names_ok []" "names_ok (w # ws) \<longleftrightarrow> plain_comp w \<and> CHR ''/'' \<notin> set w \<and> names_ok ws"
  "names_ok (ws @ vs) \<longleftrightarrow> names_ok ws \<and> names_ok vs"
  by (auto simp: names_ok_def)

lemma clean_comps_rooted:
  "\<forall>w \<in> set acc. plain_comp w \<Longrightarrow> w \<in> set (clean_comps True acc ws) \<Longrightarrow> plain_comp w"
  by (induction True acc ws rule: clean_comps.induct) (auto simp: plain_comp_def split: if_splits list.splits)

lemma path_clean_abs:
  assumes "path_is_abs p"
  shows "\<exists>ws. names_ok ws \<and> path_clean p = abs_path ws"
proof -
  let ?ws = "clean_comps True [] (split_on CHR ''/'' p)"
  have "names_ok ?ws"
    using clean_comps_rooted[of "[]"] clean_comps_sep[of "[]" "CHR ''/''" "split_on CHR ''/'' p" _ True] split_on_words
    by (auto simp: names_ok_def)
  then show ?thesis using assms by (auto simp: path_clean_def abs_path_def)
qed

lemma abs_path_is_abs [simp]: "path_is_abs (abs_path ws)"
  by (simp add: abs_path_def path_is_abs_def)

lemma split_abs_path: "names_ok ws \<Longrightarrow> ws \<noteq> [] \<Longrightarrow> split_on CHR ''/'' (abs_path ws) = [] # ws"
  by (simp add: abs_path_def split_join names_ok_def)

lemma path_comps_abs [simp]: "names_ok ws \<Longrightarrow> path_comps (abs_path ws) = ws"
proof (cases "ws = []")
  case False
  assume "names_ok ws"
  then have "filter (\<lambda>w. w \<noteq> []) ws = ws" by (auto simp: names_ok_def plain_comp_def filter_id_conv)
  then show ?thesis using split_abs_path[OF \<open>names_ok ws\<close> False] by (simp add: path_comps_def)
qed (simp add: path_comps_def abs_path_def)

lemma path_clean_id [simp]: "names_ok ws \<Longrightarrow> path_clean (abs_path ws) = abs_path ws"
proof (cases "ws = []")
  case False
  assume ok: "names_ok ws"
  then have "clean_comps True [] ws = ws" by (simp add: clean_comps_plain names_ok_def)
  then show ?thesis using split_abs_path[OF ok False] by (simp add: path_clean_def abs_path_def path_is_abs_def)
qed (simp add: path_clean_def abs_path_def path_is_abs_def)

lemma abs_path_inj [simp]: "names_ok ws \<Longrightarrow> names_ok vs \<Longrightarrow> abs_path ws = abs_path vs \<longleftrightarrow> ws = vs"
  using path_comps_abs by metis

lemma join_with_snoc: "ws \<noteq> [] \<Longrightarrow> join_with d (ws @ [w]) = join_with d ws @ d # w"
  by (induction d ws rule: join_with.induct) auto

lemma join_with_append: "ws \<noteq> [] \<Longrightarrow> vs \<noteq> [] \<Longrightarrow> join_with d (ws @ vs) = join_with d ws @ d # join_with d vs"
proof (induction d ws rule: join_with.induct)
  case (2 sep w)
  then show ?case by (cases vs) auto
qed auto

lemma path_clean_append:
  assumes "names_ok ws" "names_ok vs" "vs \<noteq> []"
  shows "path_clean (abs_path ws @ CHR ''/'' # join_with CHR ''/'' vs) = abs_path (ws @ vs)"
proof (cases "ws = []")
  case True
  have "split_on CHR ''/'' (''//'' @ join_with CHR ''/'' vs) = [] # [] # vs"
    using assms by (simp add: split_join names_ok_def)
  moreover have "clean_comps True [] vs = vs" using assms by (simp add: clean_comps_plain names_ok_def)
  ultimately show ?thesis using True by (simp add: path_clean_def abs_path_def path_is_abs_def)
next
  case False
  then have "abs_path ws @ CHR ''/'' # join_with CHR ''/'' vs = abs_path (ws @ vs)"
    using assms by (simp add: abs_path_def join_with_append)
  then show ?thesis using assms by simp
qed

lemma filepath_join_abs:
  assumes "names_ok ws" "names_ok vs" "vs \<noteq> []"
  shows "filepath_join [abs_path ws, join_with CHR ''/'' vs] = abs_path (ws @ vs)"
proof -
  have "join_with CHR ''/'' vs \<noteq> []" using assms by (cases vs) (auto simp: join_with_eq_Nil plain_comp_def)
  then show ?thesis using path_clean_append[OF assms] by (simp add: filepath_join_def abs_path_def)
qed

lemma path_dir_abs:
  assumes "names_ok (ws @ [w])"
  shows "path_dir (abs_path (ws @ [w])) = abs_path ws"
proof -
  have nosl: "CHR ''/'' \<notin> set w" and ok: "names_ok ws" using assms by simp_all
  have drop: "rev (dropWhile (\<lambda>c. c \<noteq> CHR ''/'') (rev (q @ CHR ''/'' # w))) = q @ [CHR ''/'']" for q
    using nosl by (simp add: dropWhile_append)
  show ?thesis
  proof (cases "ws = []")
    case True
    have "path_dir (abs_path (ws @ [w])) = path_clean ''/''"
      using drop[of "[]"] True by (simp add: path_dir_def abs_path_def)
    then show ?thesis using True by (simp add: path_clean_def path_is_abs_def abs_path_def)
  next
    case False
    then have "abs_path (ws @ [w]) = abs_path ws @ CHR ''/'' # w" by (simp add: abs_path_def join_with_snoc)
    then have "path_dir (abs_path (ws @ [w])) = path_clean (abs_path ws @ ''/'')" using drop by (simp add: path_dir_def)
    also have "\<dots> = abs_path ws"
    proof -
      have "split_on CHR ''/'' (join_with CHR ''/'' ws @ ''/'') = split_on CHR ''/'' (join_with CHR ''/'' (ws @ [[]]))"
        using False by (simp add: join_with_snoc)
      also have "\<dots> = ws @ [[]]" using ok by (intro split_join) (auto simp: names_ok_def)
      finally have "split_on CHR ''/'' (abs_path ws @ ''/'') = [] # ws @ [[]]" by (simp add: abs_path_def)
      moreover have "clean_comps True acc (ws @ [[]]) = rev acc @ ws" for acc
        using ok by (induction ws arbitrary: acc) (auto simp: plain_comp_def)
      ultimately show ?thesis by (simp add: path_clean_def abs_path_def path_is_abs_def)
    qed
    finally show ?thesis .
  qed
qed

section \<open>Containment\<close>

lemma drop_common_prefix: "drop_common ws (ws @ vs) = ([], vs)"
  by (induction ws) (cases vs; simp)+

lemma drop_common_left: "fst (drop_common bs ts) = [] \<longleftrightarrow> prefix bs ts"
  by (induction bs ts rule: drop_common.induct) auto

lemma drop_common_parts: "drop_common bs ts = (br, tr) \<Longrightarrow> \<exists>c. bs = c @ br \<and> ts = c @ tr"
proof (induction bs ts rule: drop_common.induct)
  case (1 b bs t ts)
  show ?case
  proof (cases "b = t")
    case True
    then obtain c where "bs = c @ br" "ts = c @ tr" using 1 by auto
    then show ?thesis using True by (intro exI[of _ "b # c"]) simp
  qed (use 1 in auto)
qed auto

lemma path_rel_abs:
  assumes "names_ok bs" "names_ok ts" "bs \<noteq> ts"
  shows "\<exists>br tr. drop_common bs ts = (br, tr) \<and>
    path_rel (abs_path bs) (abs_path ts) = Some (join_with CHR ''/'' (replicate (length br) ''..'' @ tr))"
proof -
  obtain br tr where d: "drop_common bs ts = (br, tr)" by fastforce
  obtain c where "bs = c @ br" using drop_common_parts[OF d] by blast
  then have "br \<noteq> [] \<Longrightarrow> hd br \<noteq> ''..''" using assms(1) by (cases br) (auto simp: plain_comp_def)
  moreover have "abs_path bs \<noteq> ''.''" by (simp add: abs_path_def)
  ultimately show ?thesis using assms d by (auto simp: path_rel_def Let_def)
qed

section \<open>Termination of walks towards the root\<close>

definition names_size :: "string list \<Rightarrow> nat" where
  "names_size ws = (\<Sum>w \<leftarrow> ws. Suc (length w))"

lemma names_size_simps [simp]:
  "names_size [] = 0" "names_size (w # ws) = Suc (length w) + names_size ws"
  "names_size (ws @ vs) = names_size ws + names_size vs" "names_size (rev ws) = names_size ws"
  by (simp_all add: names_size_def rev_map[symmetric] sum_list_rev)

lemma length_join: "ws \<noteq> [] \<Longrightarrow> Suc (length (join_with d ws)) = names_size ws"
  by (induction d ws rule: join_with.induct) auto

lemma names_size_split: "names_size (split_on d s) = Suc (length s)"
  by (induction s) (auto split: list.splits)

lemma names_size_clean: "names_size (clean_comps r acc ws) \<le> names_size acc + names_size ws"
  by (induction r acc ws rule: clean_comps.induct) (auto split: list.splits)

lemma length_path_clean:
  assumes "p \<noteq> []"
  shows "length (path_clean p) \<le> length p"
proof (cases "path_is_abs p")
  case True
  then obtain s where p: "p = CHR ''/'' # s" by (cases p) (auto simp: path_is_abs_def)
  let ?cs = "clean_comps True [] (split_on CHR ''/'' s)"
  have "names_size ?cs \<le> Suc (length s)"
    using names_size_clean[of True "[]" "split_on CHR ''/'' s"] by (simp add: names_size_split)
  then have "length (join_with CHR ''/'' ?cs) \<le> length s" using length_join[of ?cs "CHR ''/''"] by (cases "?cs = []") auto
  then show ?thesis using p by (simp add: path_clean_def path_is_abs_def)
next
  case False
  let ?cs = "clean_comps False [] (split_on CHR ''/'' p)"
  have "names_size ?cs \<le> Suc (length p)"
    using names_size_clean[of False "[]" "split_on CHR ''/'' p"] by (simp add: names_size_split)
  then have "length (join_with CHR ''/'' ?cs) \<le> length p" using length_join[of ?cs "CHR ''/''"] by (cases "?cs = []") auto
  then show ?thesis using False assms by (cases p) (auto simp: path_clean_def Let_def)
qed

lemma path_clean_slash: "q \<noteq> [] \<Longrightarrow> path_clean (q @ ''/'') = path_clean q"
proof -
  assume "q \<noteq> []"
  have snoc: "clean_comps r acc (ws @ [[]]) = clean_comps r acc ws" for r acc ws
    by (induction r acc ws rule: clean_comps.induct) (auto split: list.splits)
  have "split_on CHR ''/'' (q @ ''/'') = split_on CHR ''/'' q @ [[]]" for q
    by (induction q) (auto split: list.splits)
  moreover have "path_is_abs (q @ ''/'') = path_is_abs q" using \<open>q \<noteq> []\<close> by (cases q) (auto simp: path_is_abs_def)
  ultimately show ?thesis by (simp add: path_clean_def snoc)
qed

definition path_measure :: "string \<Rightarrow> nat" where
  "path_measure p = (if p = ''.'' then 0 else Suc (length p))"

lemma path_dir_shorter:
  assumes "path_dir p \<noteq> p"
  shows "path_measure (path_dir p) < path_measure p"
proof (cases "CHR ''/'' \<in> set p")
  case False
  then have d: "dropWhile (\<lambda>c. c \<noteq> CHR ''/'') (rev p) = []" by (auto simp: dropWhile_eq_Nil_conv)
  have "path_dir p = ''.''" unfolding path_dir_def d by (simp add: path_clean_def path_is_abs_def)
  then show ?thesis using assms by (simp add: path_measure_def)
next
  case True
  then obtain q r where p: "p = q @ CHR ''/'' # r" "CHR ''/'' \<notin> set r" using split_list_last by metis
  then have "path_dir p = path_clean (q @ ''/'')" by (simp add: path_dir_def dropWhile_append)
  show ?thesis
  proof (cases "q = []")
    case True
    then have "path_dir p = ''/''" using \<open>path_dir p = _\<close> by (simp add: path_clean_def path_is_abs_def)
    then show ?thesis using p True assms by (cases r) (auto simp: path_measure_def)
  next
    case False
    then have "length (path_dir p) < length p"
      using \<open>path_dir p = _\<close> length_path_clean[OF False] p(1) by (simp add: path_clean_slash)
    moreover have "p \<noteq> ''.''" using True by auto
    ultimately show ?thesis by (simp add: path_measure_def)
  qed
qed

section \<open>Paths beneath a directory\<close>

lemma split_on_append_sep: "split_on d (a @ d # b) = split_on d a @ split_on d b"
  by (induction a) (auto split: list.splits)

text \<open>The test \<open>c == p || strings.HasPrefix(c, p+"/")\<close> compares lists of path elements.\<close>

lemma beneath_split:
  "(c = p \<or> has_prefix c (p @ ''/'')) \<longleftrightarrow> prefix (split_on CHR ''/'' p) (split_on CHR ''/'' c)"
proof
  assume "c = p \<or> has_prefix c (p @ ''/'')"
  then show "prefix (split_on CHR ''/'' p) (split_on CHR ''/'' c)"
    by (auto simp: has_prefix_iff split_on_append_sep)
next
  assume "prefix (split_on CHR ''/'' p) (split_on CHR ''/'' c)"
  then obtain us where us: "split_on CHR ''/'' c = split_on CHR ''/'' p @ us" by (auto simp: prefix_def)
  have "c = join_with CHR ''/'' (split_on CHR ''/'' p @ us)" using us join_split by metis
  then show "c = p \<or> has_prefix c (p @ ''/'')"
    by (cases "us = []") (auto simp: join_with_append has_prefix_iff)
qed

lemma clean_comps_append:
  "clean_comps r acc (us @ vs) = clean_comps r (rev (clean_comps r acc us)) vs"
  by (induction r acc us rule: clean_comps.induct) (auto split: list.splits)

lemma clean_comps_filter:
  "''..'' \<notin> set ws \<Longrightarrow> clean_comps r acc ws = rev acc @ filter (\<lambda>w. w \<noteq> [] \<and> w \<noteq> ''.'') ws"
  by (induction ws arbitrary: acc) auto

text \<open>Joining a path with no \<open>..\<close> element to a clean directory stays beneath it.\<close>

lemma filepath_join_below:
  assumes "names_ok ws" "rel \<noteq> []" "''..'' \<notin> set (split_on CHR ''/'' rel)"
  shows "\<exists>vs. names_ok vs \<and> filepath_join [abs_path ws, rel] = abs_path (ws @ vs)"
proof -
  let ?rs = "split_on CHR ''/'' rel"
  let ?vs = "filter (\<lambda>w. w \<noteq> [] \<and> w \<noteq> ''.'') ?rs"
  have vs: "names_ok ?vs" using assms(3) split_on_words by (auto simp: names_ok_def plain_comp_def)
  have "clean_comps True [] (split_on CHR ''/'' (abs_path ws)) = ws"
  proof (cases "ws = []")
    case False
    then show ?thesis using split_abs_path[OF assms(1) False] assms(1) by (simp add: clean_comps_plain names_ok_def)
  qed (simp add: abs_path_def)
  then have "clean_comps True [] (split_on CHR ''/'' (abs_path ws @ CHR ''/'' # rel)) = ws @ ?vs"
    using assms(3) by (simp add: split_on_append_sep clean_comps_append clean_comps_filter)
  moreover have "filepath_join [abs_path ws, rel] = path_clean (abs_path ws @ CHR ''/'' # rel)"
    using assms(2) by (simp add: filepath_join_def abs_path_def)
  moreover have "path_is_abs (abs_path ws @ CHR ''/'' # rel)" by (simp add: abs_path_def path_is_abs_def)
  ultimately have "filepath_join [abs_path ws, rel] = abs_path (ws @ ?vs)" by (simp add: path_clean_def abs_path_def)
  then show ?thesis using vs by blast
qed

end
