(* ===== verification/Quarantine.thy ===== *)
theory Quarantine
  imports Go_Filepath Sandbox_Records
begin

text \<open>
  The guest filesystem plan of \<open>internal/sandboxd/quarantine/quarantine.go\<close>: which
  host directories a sandbox mounts (\<open>BuildPlan\<close>), how the private object store
  takes the place of \<open>.mgit\<close> (\<open>BindPrivateStore\<close>), the check that the shared store
  stays out of reach (\<open>CheckSharedStore\<close>), and the matching of host-trusted paths.

  The file system is a parameter: what \<open>os.Lstat\<close> finds, the identity \<open>os.SameFile\<close>
  compares and what \<open>filepath.EvalSymlinks\<close> answers. The host separator is the slash.
\<close>

section \<open>Definitions\<close>

record host_fs =
  hf_lstat :: "string \<Rightarrow> bool"
  hf_stat :: "string \<Rightarrow> nat option"
  hf_eval :: "string \<Rightarrow> string option"

definition guestStoreName :: string where
  "guestStoreName = ''.mgit''"

record Mount =
  mt_HostPath :: string
  mt_GuestPath :: string
  mt_ReadOnly :: bool

record Plan =
  pl_WorktreePath :: string
  pl_PrivateStorePath :: string
  pl_Mounts :: "Mount list"

definition trim_slashes :: "string \<Rightarrow> string" where
  "trim_slashes s = rev (dropWhile (\<lambda>c. c = CHR ''/'') (rev (dropWhile (\<lambda>c. c = CHR ''/'') s)))"

definition normalizePattern :: "string \<Rightarrow> string" where
  "normalizePattern pattern = trim_slashes pattern"

definition sensitive_mount :: "host_fs \<Rightarrow> string \<Rightarrow> string \<Rightarrow> Mount list" where
  "sensitive_mount fs clean pattern =
     (let rel = normalizePattern pattern in
      if rel = [] then []
      else (let host = filepath_join [clean, rel] in
        if \<not> hf_lstat fs host then []
        else [\<lparr>mt_HostPath = host, mt_GuestPath = host, mt_ReadOnly = True\<rparr>]))"

definition BuildPlan :: "host_fs \<Rightarrow> string \<Rightarrow> string list \<Rightarrow> Plan result" where
  "BuildPlan fs worktreePath sens =
     (if \<not> path_is_abs worktreePath then Inl (Errorf ''quarantine: worktree path must be absolute'')
      else (let clean = path_clean worktreePath in
        Inr \<lparr>pl_WorktreePath = clean, pl_PrivateStorePath = [],
             pl_Mounts = \<lparr>mt_HostPath = clean, mt_GuestPath = clean, mt_ReadOnly = False\<rparr>
               # concat (map (sensitive_mount fs clean) sens)\<rparr>))"

definition isWithin :: "string \<Rightarrow> string \<Rightarrow> bool" where
  "isWithin path dir =
     (if path = dir then True
      else (case path_rel dir path of
              None \<Rightarrow> False
            | Some rel \<Rightarrow> rel \<noteq> ''..'' \<and> \<not> has_prefix rel ''../'' \<and> \<not> path_is_abs rel))"

text \<open>The loop of \<open>storeBeneath\<close>: from \<open>p\<close> upwards, is one of the directories the file \<open>wt\<close>?\<close>

function ancestor_is :: "host_fs \<Rightarrow> nat \<Rightarrow> string \<Rightarrow> bool" where
  "ancestor_is fs wt p =
     (if hf_stat fs p = Some wt then True
      else if path_dir p = p then False
      else ancestor_is fs wt (path_dir p))"
  by pat_completeness auto
termination
  by (relation "measure (\<lambda>(fs, wt, p). path_measure p)") (auto intro: path_dir_shorter)

declare ancestor_is.simps [simp del]

definition storeBeneath :: "host_fs \<Rightarrow> string \<Rightarrow> string \<Rightarrow> bool" where
  "storeBeneath fs worktree shared =
     (case hf_stat fs worktree of
        None \<Rightarrow> False
      | Some wt \<Rightarrow> ancestor_is fs wt (case hf_eval fs shared of Some resolved \<Rightarrow> resolved | None \<Rightarrow> shared))"

definition CheckSharedStore :: "host_fs \<Rightarrow> string \<Rightarrow> string \<Rightarrow> err option" where
  "CheckSharedStore fs worktree0 shared0 =
     (let shared = path_clean shared0; worktree = path_clean worktree0 in
      if isWithin shared worktree \<or> storeBeneath fs worktree shared then
        Some (Wrap ''shared store is inside the mounted worktree'' (Sentinel ErrSharedStoreReachable))
      else if isWithin worktree shared \<or> storeBeneath fs shared worktree then
        Some (Wrap ''the mounted worktree is inside the shared store'' (Sentinel ErrSharedStoreReachable))
      else None)"

definition bound_mounts :: "Plan \<Rightarrow> string \<Rightarrow> Mount list" where
  "bound_mounts p priv =
     (let storeGuestPath = filepath_join [pl_WorktreePath p, guestStoreName] in
      filter (\<lambda>m. \<not> isWithin (mt_GuestPath m) storeGuestPath) (pl_Mounts p)
        @ [\<lparr>mt_HostPath = priv, mt_GuestPath = storeGuestPath, mt_ReadOnly = False\<rparr>])"

definition BindPrivateStore :: "host_fs \<Rightarrow> Plan \<Rightarrow> string \<Rightarrow> string \<Rightarrow> Plan result" where
  "BindPrivateStore fs p privateStoreDir sharedStoreDir =
     (if \<not> path_is_abs privateStoreDir then Inl (Errorf ''quarantine: private store dir must be absolute'')
      else if \<not> path_is_abs sharedStoreDir then Inl (Errorf ''quarantine: shared store dir must be absolute'')
      else (let priv = path_clean privateStoreDir; shared = path_clean sharedStoreDir in
        case CheckSharedStore fs (pl_WorktreePath p) shared of
          Some e \<Rightarrow> Inl e
        | None \<Rightarrow>
            if isWithin priv (pl_WorktreePath p) then
              Inl (Errorf ''quarantine: private store must be outside the worktree'')
            else if isWithin priv shared then
              Inl (Wrap ''private store resolves into the shared store'' (Sentinel ErrSharedStoreReachable))
            else (let mounts = bound_mounts p priv in
              if \<exists>m \<in> set mounts. isWithin (mt_HostPath m) shared then
                Inl (Wrap ''mount is inside the shared store'' (Sentinel ErrSharedStoreReachable))
              else Inr (p\<lparr>pl_Mounts := mounts, pl_PrivateStorePath := priv\<rparr>))))"

definition mountFor :: "Plan \<Rightarrow> string \<Rightarrow> Mount option" where
  "mountFor p host = List.find (\<lambda>m. mt_HostPath m = path_clean host) (pl_Mounts p)"

definition WorktreeMount :: "Plan \<Rightarrow> Mount option" where
  "WorktreeMount p = mountFor p (pl_WorktreePath p)"

definition cleanRel :: "string \<Rightarrow> string" where
  "cleanRel relPath = path_clean relPath"

definition normalizePatterns :: "string list \<Rightarrow> string list" where
  "normalizePatterns patterns = filter (\<lambda>n. n \<noteq> []) (map normalizePattern patterns)"

definition matchesAny :: "string \<Rightarrow> string list \<Rightarrow> bool" where
  "matchesAny clean normPatterns = list_ex (\<lambda>p. clean = p \<or> has_prefix clean (p @ ''/'')) normPatterns"

definition IsSensitive :: "string \<Rightarrow> string list \<Rightarrow> bool" where
  "IsSensitive relPath patterns = matchesAny (cleanRel relPath) (normalizePatterns patterns)"

definition CheckModifications :: "string list \<Rightarrow> string list \<Rightarrow> err option" where
  "CheckModifications modified patterns =
     (let norm = normalizePatterns patterns in
      first_err (\<lambda>path. if matchesAny (cleanRel path) norm
                         then Some (Wrap path (Sentinel ErrSensitivePathModified)) else None) modified)"

section \<open>Containment is a prefix of names\<close>

lemma isWithin_prefix [simp]:
  assumes "names_ok ws" "names_ok ds"
  shows "isWithin (abs_path ws) (abs_path ds) \<longleftrightarrow> prefix ds ws"
proof (cases "ws = ds")
  case False
  obtain br tr where d: "drop_common ds ws = (br, tr)"
    and rel: "path_rel (abs_path ds) (abs_path ws) = Some (join_with CHR ''/'' (replicate (length br) ''..'' @ tr))"
    using path_rel_abs[OF assms(2,1)] False by metis
  have ne: "abs_path ws \<noteq> abs_path ds" using assms False by simp
  show ?thesis
  proof (cases br)
    case Nil
    obtain c where "ws = c @ tr" "ds = c @ br" using drop_common_parts[OF d] by blast
    then obtain v vs where tr: "tr = v # vs" "plain_comp v" "CHR ''/'' \<notin> set v"
      using assms(1) False Nil by (cases tr) auto
    have "split_on CHR ''/'' (join_with CHR ''/'' tr) = tr"
      using \<open>ws = c @ tr\<close> assms(1) tr(1) by (intro split_join) (auto simp: names_ok_def)
    then have "\<not> (join_with CHR ''/'' tr = ''..'' \<or> has_prefix (join_with CHR ''/'' tr) ''../'')"
      using beneath_split[of "join_with CHR ''/'' tr" "''..''"] tr by (auto simp: plain_comp_def)
    moreover have "\<not> path_is_abs (join_with CHR ''/'' tr)"
      using tr by (cases v; cases vs) (auto simp: path_is_abs_def plain_comp_def)
    ultimately have "\<not> has_prefix (join_with CHR ''/'' tr) ''../''" "join_with CHR ''/'' tr \<noteq> ''..''"
      "\<not> path_is_abs (join_with CHR ''/'' tr)" by auto
    then show ?thesis using rel Nil ne drop_common_left[of ds ws] d by (simp add: isWithin_def)
  next
    case (Cons b bs)
    then have "join_with CHR ''/'' (replicate (length br) ''..'' @ tr) = ''..''
       \<or> has_prefix (join_with CHR ''/'' (replicate (length br) ''..'' @ tr)) ''../''"
      by (cases "replicate (length bs) ''..'' @ tr") (auto simp: has_prefix_def)
    then show ?thesis using rel Cons ne drop_common_left[of ds ws] d by (auto simp: isWithin_def)
  qed
qed (simp add: isWithin_def)

text \<open>The walk of \<open>storeBeneath\<close> visits every ancestor of a clean absolute path.\<close>

lemma ancestor_is_prefix:
  "names_ok ws \<Longrightarrow> ancestor_is fs wt (abs_path ws) \<longleftrightarrow> (\<exists>vs. prefix vs ws \<and> hf_stat fs (abs_path vs) = Some wt)"
proof (induction ws rule: rev_induct)
  case Nil
  have "path_dir (abs_path []) = abs_path []" by (simp add: path_dir_def abs_path_def path_clean_def path_is_abs_def)
  then show ?case by (subst ancestor_is.simps) simp
next
  case (snoc w ws)
  then have "abs_path ws \<noteq> abs_path (ws @ [w])" by simp
  then show ?case using snoc path_dir_abs[OF snoc.prems]
    by (subst ancestor_is.simps) auto
qed

lemma storeBeneath_prefix:
  assumes "names_ok rs" "(case hf_eval fs shared of Some r \<Rightarrow> r | None \<Rightarrow> shared) = abs_path rs"
  shows "storeBeneath fs worktree shared \<longleftrightarrow>
    hf_stat fs worktree \<noteq> None \<and> (\<exists>vs. prefix vs rs \<and> hf_stat fs (abs_path vs) = hf_stat fs worktree)"
  using assms ancestor_is_prefix[OF assms(1)] by (auto simp: storeBeneath_def split: option.splits)

section \<open>What a plan mounts\<close>

lemma BuildPlan_Inr:
  assumes "BuildPlan fs wt sens = Inr p"
  obtains ws where "names_ok ws" "path_clean wt = abs_path ws" "pl_WorktreePath p = abs_path ws"
    "pl_Mounts p = \<lparr>mt_HostPath = abs_path ws, mt_GuestPath = abs_path ws, mt_ReadOnly = False\<rparr>
               # concat (map (sensitive_mount fs (abs_path ws)) sens)"
  using assms path_clean_abs[of wt] by (auto simp: BuildPlan_def Let_def split: if_splits)

lemma sensitive_mount_below:
  assumes "m \<in> set (sensitive_mount fs (abs_path ws) pat)" "names_ok ws"
    "''..'' \<notin> set (split_on CHR ''/'' (normalizePattern pat))"
  shows "\<exists>vs. names_ok vs \<and> m = \<lparr>mt_HostPath = abs_path (ws @ vs), mt_GuestPath = abs_path (ws @ vs), mt_ReadOnly = True\<rparr>"
  using assms filepath_join_below[OF assms(2) _ assms(3)]
  by (auto simp: sensitive_mount_def Let_def split: if_splits)

lemma BindPrivateStore_Inr:
  assumes "BindPrivateStore fs p priv shared = Inr q"
  shows "path_is_abs priv" "path_is_abs shared"
    "CheckSharedStore fs (pl_WorktreePath p) (path_clean shared) = None"
    "\<not> isWithin (path_clean priv) (pl_WorktreePath p)" "\<not> isWithin (path_clean priv) (path_clean shared)"
    "q = p\<lparr>pl_Mounts := bound_mounts p (path_clean priv), pl_PrivateStorePath := path_clean priv\<rparr>"
    "m \<in> set (bound_mounts p (path_clean priv)) \<Longrightarrow> \<not> isWithin (mt_HostPath m) (path_clean shared)"
  using assms by (auto simp: BindPrivateStore_def Let_def split: if_splits option.splits)

lemma mgit_name [simp]: "plain_comp guestStoreName" "CHR ''/'' \<notin> set guestStoreName"
  by (simp_all add: guestStoreName_def plain_comp_def)

lemma guest_store_path [simp]: "names_ok ws \<Longrightarrow> filepath_join [abs_path ws, guestStoreName] = abs_path (ws @ [guestStoreName])"
  using filepath_join_abs[of ws "[guestStoreName]"] by simp

lemma plan_mount_cases:
  assumes build: "BuildPlan fs wt sens = Inr p" and bind: "BindPrivateStore fs p priv shared = Inr q"
    and pats: "\<forall>pat \<in> set sens. ''..'' \<notin> set (split_on CHR ''/'' (normalizePattern pat))"
    and ws: "names_ok ws" "path_clean wt = abs_path ws" and m: "m \<in> set (pl_Mounts q)"
  shows "m = \<lparr>mt_HostPath = path_clean priv, mt_GuestPath = abs_path (ws @ [guestStoreName]), mt_ReadOnly = False\<rparr>
    \<or> (\<exists>vs. names_ok vs \<and> mt_HostPath m = abs_path (ws @ vs) \<and> mt_GuestPath m = abs_path (ws @ vs)
         \<and> (mt_ReadOnly m \<or> vs = []) \<and> \<not> prefix [guestStoreName] vs)"
proof -
  obtain us where "names_ok us" "path_clean wt = abs_path us" "pl_WorktreePath p = abs_path us"
    "pl_Mounts p = \<lparr>mt_HostPath = abs_path us, mt_GuestPath = abs_path us, mt_ReadOnly = False\<rparr>
               # concat (map (sensitive_mount fs (abs_path us)) sens)"
    using BuildPlan_Inr[OF build] by metis
  then have p: "pl_WorktreePath p = abs_path ws"
    "pl_Mounts p = \<lparr>mt_HostPath = abs_path ws, mt_GuestPath = abs_path ws, mt_ReadOnly = False\<rparr>
               # concat (map (sensitive_mount fs (abs_path ws)) sens)" using ws by auto
  have "pl_Mounts q = bound_mounts p (path_clean priv)" using BindPrivateStore_Inr(6)[OF bind] by simp
  then consider "m = \<lparr>mt_HostPath = path_clean priv, mt_GuestPath = abs_path (ws @ [guestStoreName]), mt_ReadOnly = False\<rparr>"
    | "m \<in> set (pl_Mounts p)" "\<not> isWithin (mt_GuestPath m) (abs_path (ws @ [guestStoreName]))"
    using m p(1) ws(1) by (auto simp: bound_mounts_def Let_def)
  then show ?thesis
  proof cases
    case 2
    have "\<exists>vs. names_ok vs \<and> mt_HostPath m = abs_path (ws @ vs) \<and> mt_GuestPath m = abs_path (ws @ vs)
         \<and> (mt_ReadOnly m \<or> vs = [])"
    proof (cases "mt_ReadOnly m \<or> m \<in> set (concat (map (sensitive_mount fs (abs_path ws)) sens))")
      case True
      then obtain pat where "pat \<in> set sens" "m \<in> set (sensitive_mount fs (abs_path ws) pat)" using 2(1) p(2) by auto
      then show ?thesis using sensitive_mount_below[OF _ ws(1)] pats by fastforce
    next
      case False
      then have "m = \<lparr>mt_HostPath = abs_path ws, mt_GuestPath = abs_path ws, mt_ReadOnly = False\<rparr>" using 2(1) p(2) by auto
      then show ?thesis by (intro exI[of _ "[]"]) simp
    qed
    then obtain vs where vs: "names_ok vs" "mt_HostPath m = abs_path (ws @ vs)" "mt_GuestPath m = abs_path (ws @ vs)"
      "mt_ReadOnly m \<or> vs = []" by blast
    then have "\<not> prefix [guestStoreName] vs" using 2(2) ws(1) by simp
    then show ?thesis using vs by blast
  qed blast
qed


definition demo_fs :: host_fs where
  "demo_fs = \<lparr>hf_lstat = (\<lambda>p. p \<in> {''/w/.claude'', ''/w/.mgit/hooks'', ''/etc'', ''/w/CLAUDE.md''}), hf_stat = (\<lambda>p. None), hf_eval = (\<lambda>p. None)\<rparr>"

lemmas quarantine_eval = BuildPlan_def BindPrivateStore_def CheckSharedStore_def storeBeneath_def bound_mounts_def
  sensitive_mount_def isWithin_def path_rel_def filepath_join_def path_comps_def path_clean_def path_is_abs_def
  normalizePattern_def trim_slashes_def guestStoreName_def demo_fs_def has_prefix_def

lemma demo_plan:
  "\<exists>p q. BuildPlan demo_fs ''/w'' [''.claude/'', ''.mgit/hooks''] = Inr p
    \<and> BindPrivateStore demo_fs p ''/state/store'' ''/repo/.mgit'' = Inr q
    \<and> pl_Mounts q = [\<lparr>mt_HostPath = ''/w'', mt_GuestPath = ''/w'', mt_ReadOnly = False\<rparr>,
        \<lparr>mt_HostPath = ''/w/.claude'', mt_GuestPath = ''/w/.claude'', mt_ReadOnly = True\<rparr>,
        \<lparr>mt_HostPath = ''/state/store'', mt_GuestPath = ''/w/.mgit'', mt_ReadOnly = False\<rparr>]"
  by (simp add: quarantine_eval Let_def)


text \<open>
  What the shared-store check refuses, exactly: with both paths clean and
  absolute and symbolic links resolved to clean paths, it passes when and only when
  neither directory's names are a prefix of the other's, no ancestor of the resolved
  store is the worktree by file identity, and no ancestor of the resolved worktree
  is the store. Every refusal wraps \<open>ErrSharedStoreReachable\<close>.
\<close>

theorem shared_store_check_exact:
  assumes ok: "names_ok w" "names_ok s" "names_ok w'" "names_ok s'"
    and eval: "hf_eval fs (abs_path w) = Some (abs_path w')" "hf_eval fs (abs_path s) = Some (abs_path s')"
  shows "(CheckSharedStore fs (abs_path w) (abs_path s) = None \<longleftrightarrow>
      \<not> prefix w s \<and> \<not> prefix s w
      \<and> (hf_stat fs (abs_path w) = None \<or> (\<forall>a. prefix a s' \<longrightarrow> hf_stat fs (abs_path a) \<noteq> hf_stat fs (abs_path w)))
      \<and> (hf_stat fs (abs_path s) = None \<or> (\<forall>a. prefix a w' \<longrightarrow> hf_stat fs (abs_path a) \<noteq> hf_stat fs (abs_path s))))
    \<and> (\<forall>e. CheckSharedStore fs (abs_path w) (abs_path s) = Some e \<longrightarrow> (\<exists>msg. e = Wrap msg (Sentinel ErrSharedStoreReachable)))"
proof -
  have wt: "storeBeneath fs (abs_path w) (abs_path s) \<longleftrightarrow> hf_stat fs (abs_path w) \<noteq> None
      \<and> (\<exists>a. prefix a s' \<and> hf_stat fs (abs_path a) = hf_stat fs (abs_path w))"
    by (rule storeBeneath_prefix[OF ok(4)]) (simp add: eval)
  have st: "storeBeneath fs (abs_path s) (abs_path w) \<longleftrightarrow> hf_stat fs (abs_path s) \<noteq> None
      \<and> (\<exists>a. prefix a w' \<and> hf_stat fs (abs_path a) = hf_stat fs (abs_path s))"
    by (rule storeBeneath_prefix[OF ok(3)]) (simp add: eval)
  have "CheckSharedStore fs (abs_path w) (abs_path s) = None \<longleftrightarrow>
      \<not> prefix w s \<and> \<not> prefix s w
      \<and> (hf_stat fs (abs_path w) = None \<or> (\<forall>a. prefix a s' \<longrightarrow> hf_stat fs (abs_path a) \<noteq> hf_stat fs (abs_path w)))
      \<and> (hf_stat fs (abs_path s) = None \<or> (\<forall>a. prefix a w' \<longrightarrow> hf_stat fs (abs_path a) \<noteq> hf_stat fs (abs_path s)))"
    using ok wt st by (auto simp: CheckSharedStore_def Let_def)
  moreover have "\<exists>msg. e = Wrap msg (Sentinel ErrSharedStoreReachable)"
    if "CheckSharedStore fs (abs_path w) (abs_path s) = Some e" for e
    using that by (auto simp: CheckSharedStore_def Let_def split: if_splits)
  ultimately show ?thesis by blast
qed

definition linked_fs :: host_fs where
  "linked_fs = \<lparr>hf_lstat = (\<lambda>p. True), hf_stat = (\<lambda>p. if p \<in> {''/link'', ''/repo''} then Some 7 else None),
     hf_eval = (\<lambda>p. if p = ''/link'' then Some ''/repo'' else Some p)\<rparr>"

lemma shared_store_check_exact_witness:
  "CheckSharedStore linked_fs ''/link'' ''/repo/.mgit'' \<noteq> None \<and> CheckSharedStore linked_fs ''/w'' ''/repo/.mgit'' = None"
proof -
  have ok: "names_ok [''link'']" "names_ok [''repo'']" "names_ok [''w'']" "names_ok [''repo'', ''.mgit'']"
    by (simp_all add: plain_comp_def)
  have p: "abs_path [''link''] = ''/link''" "abs_path [''repo''] = ''/repo''" "abs_path [''w''] = ''/w''"
    "abs_path [''repo'', ''.mgit''] = ''/repo/.mgit''" by (simp_all add: abs_path_def)
  have st: "hf_stat linked_fs ''/repo'' = Some 7" "hf_stat linked_fs ''/link'' = Some 7"
      "hf_stat linked_fs ''/w'' = None" "hf_stat linked_fs ''/repo/.mgit'' = None" by (simp_all add: linked_fs_def)
  have ev: "hf_eval linked_fs ''/link'' = Some ''/repo''" "hf_eval linked_fs ''/w'' = Some ''/w''"
      "hf_eval linked_fs ''/repo/.mgit'' = Some ''/repo/.mgit''" by (simp_all add: linked_fs_def)
  have pre: "prefix [''repo''] [''repo'', ''.mgit'']" by simp
  have "CheckSharedStore linked_fs ''/link'' ''/repo/.mgit'' \<noteq> None"
    using shared_store_check_exact[OF ok(1,4,2,4), of linked_fs, THEN conjunct1, unfolded p st ev] pre p(2) st(1) by fastforce
  moreover have "CheckSharedStore linked_fs ''/w'' ''/repo/.mgit'' = None"
    using shared_store_check_exact[OF ok(3,4,3,4), of linked_fs, THEN conjunct1, unfolded p st ev] by simp
  ultimately show ?thesis by blast
qed

text \<open>
  The land-time test of host-trusted paths is exact, element by element: a
  modification passes when and only when no non-empty normalised pattern is an
  initial run of the cleaned path's elements, and a refusal names a modified path
  that \<open>IsSensitive\<close> flags. So \<open>.claude/\<close> covers its whole subtree and \<open>CLAUDE.md\<close>
  does not cover \<open>CLAUDE.md.txt\<close>.
\<close>

theorem sensitive_check_exact:
  "(CheckModifications modified patterns = None \<longleftrightarrow>
      (\<forall>path \<in> set modified. \<forall>pat \<in> set patterns. normalizePattern pat \<noteq> [] \<longrightarrow>
        \<not> prefix (split_on CHR ''/'' (normalizePattern pat)) (split_on CHR ''/'' (cleanRel path))))
   \<and> (\<forall>e. CheckModifications modified patterns = Some e \<longrightarrow>
        (\<exists>path \<in> set modified. IsSensitive path patterns \<and> e = Wrap path (Sentinel ErrSensitivePathModified)))"
proof -
  have match: "matchesAny c (normalizePatterns patterns) \<longleftrightarrow>
      (\<exists>pat \<in> set patterns. normalizePattern pat \<noteq> [] \<and> prefix (split_on CHR ''/'' (normalizePattern pat)) (split_on CHR ''/'' c))" for c
    by (auto simp: matchesAny_def normalizePatterns_def list_ex_iff beneath_split)
  have "CheckModifications modified patterns = None \<longleftrightarrow> (\<forall>path \<in> set modified. \<not> matchesAny (cleanRel path) (normalizePatterns patterns))"
    by (simp add: CheckModifications_def Let_def)
  moreover have "\<exists>path \<in> set modified. IsSensitive path patterns \<and> e = Wrap path (Sentinel ErrSensitivePathModified)"
    if "CheckModifications modified patterns = Some e" for e
    using that by (auto simp: CheckModifications_def Let_def IsSensitive_def dest!: first_err_Some split: if_splits)
  ultimately show ?thesis using match by auto
qed

lemma sensitive_check_exact_witness:
  "CheckModifications [''src/main.go'', ''CLAUDE.md.txt''] [''.claude/'', ''CLAUDE.md''] = None
   \<and> CheckModifications [''src/../.claude/settings.json''] [''.claude/'', ''CLAUDE.md''] \<noteq> None"
proof -
  have "prefix (split_on CHR ''/'' (normalizePattern ''.claude/'')) (split_on CHR ''/'' (cleanRel ''src/../.claude/settings.json''))"
    by (simp add: normalizePattern_def trim_slashes_def cleanRel_def path_clean_def path_is_abs_def)
  then have "CheckModifications [''src/../.claude/settings.json''] [''.claude/'', ''CLAUDE.md''] \<noteq> None"
    using sensitive_check_exact[of "[''src/../.claude/settings.json'']" "[''.claude/'', ''CLAUDE.md'']", THEN conjunct1]
    by (auto simp: normalizePattern_def trim_slashes_def)
  moreover have "CheckModifications [''src/main.go'', ''CLAUDE.md.txt''] [''.claude/'', ''CLAUDE.md''] = None"
    by (subst sensitive_check_exact[THEN conjunct1])
       (simp add: normalizePattern_def trim_slashes_def cleanRel_def path_clean_def path_is_abs_def)
  ultimately show ?thesis by blast
qed

text \<open>
  Where the plan is weaker than its documentation. A private store that
  contains the shared one is accepted (only the other direction is checked), so the
  shared objects are mounted writable; a policy that passes \<open>Validate\<close> may list a
  pattern that climbs out of the worktree, and the directory it names is mounted;
  and the two halves that should agree on a pattern do not: \<open>./CLAUDE.md\<close> is mounted
  read-only but the modification check does not match it.
\<close>

theorem plan_gaps:
  "(\<exists>p q. BuildPlan demo_fs ''/w'' [] = Inr p \<and> BindPrivateStore demo_fs p ''/repo'' ''/repo/.mgit'' = Inr q
      \<and> \<lparr>mt_HostPath = ''/repo'', mt_GuestPath = ''/w/.mgit'', mt_ReadOnly = False\<rparr> \<in> set (pl_Mounts q))
   \<and> SandboxPolicy_Validate (DefaultSandboxPolicy\<lparr>sp_SensitivePaths := [''../etc'']\<rparr>) = None
   \<and> (\<exists>p. BuildPlan demo_fs ''/w'' [''../etc''] = Inr p
      \<and> \<lparr>mt_HostPath = ''/etc'', mt_GuestPath = ''/etc'', mt_ReadOnly = True\<rparr> \<in> set (pl_Mounts p))
   \<and> (\<exists>p. BuildPlan demo_fs ''/w'' [''./CLAUDE.md''] = Inr p
      \<and> \<lparr>mt_HostPath = ''/w/CLAUDE.md'', mt_GuestPath = ''/w/CLAUDE.md'', mt_ReadOnly = True\<rparr> \<in> set (pl_Mounts p))
   \<and> \<not> IsSensitive ''CLAUDE.md'' [''./CLAUDE.md'']"
proof (intro conjI)
  show "SandboxPolicy_Validate (DefaultSandboxPolicy\<lparr>sp_SensitivePaths := [''../etc'']\<rparr>) = None"
    by code_simp
qed (simp_all add: quarantine_eval IsSensitive_def cleanRel_def matchesAny_def normalizePatterns_def Let_def)

end
