(* ===== verification/Store_Files.thy ===== *)
theory Store_Files
  imports Land_Objects Task_Id Go_Filepath "HOL-Library.List_Lexorder" "HOL-Library.Char_ord"
begin

text \<open>
  The small files of a store directory: the list of files mgit generated into a worktree
  (\<open>internal/store/git/worktree_generated.go\<close>) and the task a private store is bound to
  (\<open>internal/store/git/store_task_binding.go\<close>). Both are text that one side writes and the
  other parses, so the theorems are round trips. A directory is a map from names to contents;
  the errors of the file operations are arguments.
\<close>

type_synonym dir_files = "string \<rightharpoonup> string"

abbreviation (input) newline :: char where "newline \<equiv> CHR 0x0A"

section \<open>Project paths (\<open>worktree_fs.go\<close>)\<close>

definition excludedNames :: "string list" where
  "excludedNames = [''.mgit'', ''.git'']"

definition isExcludedPath :: "string \<Rightarrow> bool" where
  "isExcludedPath rel = list_ex (\<lambda>part. part \<in> set excludedNames) (split_on CHR ''/'' rel)"

definition validateRelPath :: "string \<Rightarrow> err option" where
  "validateRelPath rel =
     (if rel = [] then Some (Errorf ''path must not be empty'')
      else (let clean = path_clean rel in
        if path_is_abs rel \<or> has_prefix clean ''../'' \<or> clean = ''..'' then Some (Errorf ''path escapes project root'')
        else if isExcludedPath clean then Some (Errorf ''path is in an excluded directory'')
        else None))"

section \<open>The generated list\<close>

definition generatedFileName :: string where "generatedFileName = ''generated''"

text \<open>Errors of the calls that write a file: \<open>MkdirAll\<close>, \<open>WriteFile\<close> of the temporary, \<open>Rename\<close>.\<close>

record file_io =
  fio_mkdir :: "err option"
  fio_write :: "err option"
  fio_rename :: "err option"

definition file_ok :: file_io where
  "file_ok = \<lparr>fio_mkdir = None, fio_write = None, fio_rename = None\<rparr>"

text \<open>Temporary file, then rename: the rename replaces the old file at once.\<close>

definition write_renamed :: "file_io \<Rightarrow> string \<Rightarrow> string \<Rightarrow> string \<Rightarrow> dir_files \<Rightarrow> err option \<times> dir_files" where
  "write_renamed io msg name content fs =
     (case fio_write io of
        Some e \<Rightarrow> (Some (Wrap msg e), fs)
      | None \<Rightarrow>
          (case fio_rename io of
             Some e \<Rightarrow> (Some (Wrap msg e), fs(name @ ''.tmp'' \<mapsto> content))
           | None \<Rightarrow> (None, fs(name \<mapsto> content, name @ ''.tmp'' := None))))"

definition manifest_header :: "string list" where
  "manifest_header = [''# Files mgit generated into this worktree (MGIT-80).'',
     ''# Excluded from bulk staging; `mgit add <path>` still stages them.'']"

definition manifest_text :: "string list \<Rightarrow> string" where
  "manifest_text paths = concat (map (\<lambda>l. l @ [newline]) (manifest_header @ paths))"

definition writeManifestIn :: "file_io \<Rightarrow> string list \<Rightarrow> dir_files \<Rightarrow> err option \<times> dir_files" where
  "writeManifestIn io paths fs =
     (case fio_mkdir io of
        Some e \<Rightarrow> (Some (Wrap ''generated manifest: mkdir'' e), fs)
      | None \<Rightarrow> write_renamed io ''generated manifest'' generatedFileName (manifest_text paths) fs)"

text \<open>
  \<open>bufio.Scanner\<close> with \<open>ScanLines\<close>: pieces between newlines without a final carriage return,
  nothing after a final newline, and \<open>ErrTooLong\<close> at a piece of 65536 bytes or more.
\<close>

definition scan_lines :: "string \<Rightarrow> string list" where
  "scan_lines text = (let ls = split_on newline text in if last ls = [] then butlast ls else ls)"

definition drop_cr :: "string \<Rightarrow> string" where
  "drop_cr l = (if l \<noteq> [] \<and> last l = CHR 0x0D then butlast l else l)"

definition manifest_line :: "string \<Rightarrow> string list" where
  "manifest_line text =
     (let line = trim_space (drop_cr text) in
      if line = [] \<or> has_prefix line ''#'' then []
      else (let rel = path_clean line in
        if validateRelPath rel \<noteq> None then [] else [rel]))"

definition parseGeneratedManifest :: "string \<Rightarrow> string list result" where
  "parseGeneratedManifest text =
     (if list_ex (\<lambda>l. length l \<ge> 65536) (scan_lines text)
      then Inl (Wrap ''read generated manifest'' (Errorf ''bufio.Scanner: token too long''))
      else Inr (concat (map manifest_line (scan_lines text))))"

text \<open>\<open>os.Open\<close>'s error other than not-existing is the argument.\<close>

definition ReadGeneratedPaths :: "err option \<Rightarrow> dir_files \<Rightarrow> string list result" where
  "ReadGeneratedPaths open_err fs =
     (case open_err of
        Some e \<Rightarrow> Inl (Wrap ''open generated manifest'' e)
      | None \<Rightarrow> (case fs generatedFileName of None \<Rightarrow> Inr [] | Some text \<Rightarrow> parseGeneratedManifest text))"

definition WriteGeneratedPathsInStore :: "file_io \<Rightarrow> string list \<Rightarrow> dir_files \<Rightarrow> err option \<times> dir_files" where
  "WriteGeneratedPathsInStore io paths fs = (if paths = [] then (None, fs) else writeManifestIn io paths fs)"

fun clean_all :: "string list \<Rightarrow> string list result" where
  "clean_all [] = Inr []"
| "clean_all (rel # rels) =
     (case validateRelPath rel of
        Some e \<Rightarrow> Inl (Wrap ''record generated path'' e)
      | None \<Rightarrow> bind_result (clean_all rels) (\<lambda>cs. Inr (path_clean rel # cs)))"

definition RecordGeneratedPaths :: "err option \<Rightarrow> file_io \<Rightarrow> string list \<Rightarrow> dir_files \<Rightarrow> err option \<times> dir_files" where
  "RecordGeneratedPaths open_err io rels fs =
     (case clean_all rels of
        Inl e \<Rightarrow> (Some e, fs)
      | Inr cleaned \<Rightarrow>
          if cleaned = [] then (None, fs)
          else (case ReadGeneratedPaths open_err fs of
                  Inl e \<Rightarrow> (Some e, fs)
                | Inr existing \<Rightarrow>
                    writeManifestIn io (sorted_list_of_set (set (existing @ cleaned))) fs))"

text \<open>
  What \<open>ReadGeneratedPathsNoFollow\<close> finds at the worktree's \<open>.mgit\<close> and in it: the first four
  are the outcomes of opening the directory, the others of opening the list in it.
\<close>

datatype list_state =
    NoStore | StoreStatError err | StoreNotDir | StoreOpenError err
  | NoList | ListStatError err | ListNotRegular | ListOpenError err | ListReplaced | ListFile string

definition ReadGeneratedPathsNoFollow :: "list_state \<Rightarrow> string list result" where
  "ReadGeneratedPathsNoFollow ls =
     (case ls of
        NoStore \<Rightarrow> Inr []
      | StoreStatError e \<Rightarrow> Inl (Wrap ''inspect'' e)
      | StoreNotDir \<Rightarrow> Inl (Errorf ''not a directory; refusing to read the generated list through it'')
      | StoreOpenError e \<Rightarrow> Inl e
      | NoList \<Rightarrow> Inr []
      | ListStatError e \<Rightarrow> Inl (Wrap ''inspect generated list'' e)
      | ListNotRegular \<Rightarrow> Inl (Errorf ''the generated list is not a regular file; refusing to follow it'')
      | ListOpenError e \<Rightarrow> Inl (Wrap ''open generated list'' e)
      | ListReplaced \<Rightarrow> Inl (Errorf ''the generated list was replaced while it was read; refusing it'')
      | ListFile text \<Rightarrow> parseGeneratedManifest text)"

section \<open>The bound task\<close>

definition boundTaskFileName :: string where "boundTaskFileName = ''bound-task''"

definition maxBoundTaskBytes :: nat where "maxBoundTaskBytes = 256"

definition WriteBoundTaskInStore :: "file_io \<Rightarrow> string \<Rightarrow> dir_files \<Rightarrow> err option \<times> dir_files" where
  "WriteBoundTaskInStore io taskID fs =
     (case ParseTaskID taskID of
        Inl e \<Rightarrow> (Some (Wrap ''bound task'' e), fs)
      | Inr _ \<Rightarrow> write_renamed io ''bound task'' boundTaskFileName (taskID @ [newline]) fs)"

text \<open>The errors of \<open>Lstat\<close> (not-existing apart), of a file that is not regular and of the read, in one argument.\<close>

definition ReadBoundTaskInStore :: "err option \<Rightarrow> dir_files \<Rightarrow> string result" where
  "ReadBoundTaskInStore read_err fs =
     (case read_err of
        Some e \<Rightarrow> Inl (Wrap ''bound task'' e)
      | None \<Rightarrow>
          (case fs boundTaskFileName of
             None \<Rightarrow> Inr []
           | Some text \<Rightarrow>
               (let data = take (Suc maxBoundTaskBytes) text in
                if length data > maxBoundTaskBytes then Inl (Errorf ''the bound task is over 256 bytes'')
                else (let i = trim_space data in
                  case ParseTaskID i of Inl e \<Rightarrow> Inl (Wrap ''the bound task'' e) | Inr _ \<Rightarrow> Inr i))))"

section \<open>White space\<close>

lemma trim_left_id:
  assumes "s = [] \<or> (\<forall>w \<in> set ws. w \<noteq> [] \<longrightarrow> hd w \<noteq> hd s)"
  shows "trim_left ws s = s"
proof -
  have "List.find (\<lambda>w. w \<noteq> [] \<and> has_prefix s w) ws = None"
    using assms by (auto simp: find_None_iff has_prefix_iff hd_append)
  then show ?thesis by (subst trim_left.simps) simp
qed

definition graph_char :: "char \<Rightarrow> bool" where
  "graph_char c \<longleftrightarrow> 0x21 \<le> (of_char c :: nat) \<and> (of_char c :: nat) \<le> 0x7E"

lemma graph_not_space:
  assumes "graph_char c"
  shows "w \<in> set space_encodings \<Longrightarrow> hd w \<noteq> c" "w \<in> set (map rev space_encodings) \<Longrightarrow> hd w \<noteq> c"
  using assms by (auto simp: space_encodings_def graph_char_def)

lemma trim_space_id:
  assumes "s \<noteq> []" "graph_char (hd s)" "graph_char (last s)"
  shows "trim_space s = s"
proof -
  have "trim_left space_encodings s = s" using graph_not_space(1)[OF assms(2)] by (intro trim_left_id) blast
  moreover have "trim_left (map rev space_encodings) (rev s) = rev s"
    using graph_not_space(2)[OF assms(3)] assms(1) by (intro trim_left_id) (auto simp: hd_rev)
  ultimately show ?thesis by (simp add: trim_space_def)
qed

lemma trim_space_newline:
  assumes "s \<noteq> []" "graph_char (hd s)" "graph_char (last s)"
  shows "trim_space (s @ [newline]) = s"
proof -
  have hd: "hd (s @ [newline]) = hd s" using assms(1) by simp
  have "trim_left space_encodings (s @ [newline]) = s @ [newline]"
    using graph_not_space(1)[OF assms(2)] hd by (intro trim_left_id) metis
  moreover have "trim_left (map rev space_encodings) (newline # rev s) = rev s"
  proof -
    have "List.find (\<lambda>w. w \<noteq> [] \<and> has_prefix (newline # rev s) w) (map rev space_encodings) = Some [newline]"
      by (simp add: space_encodings_def has_prefix_def)
    then have "trim_left (map rev space_encodings) (newline # rev s) = trim_left (map rev space_encodings) (rev s)"
      by (subst trim_left.simps) simp
    also have "\<dots> = rev s" using graph_not_space(2)[OF assms(3)] assms(1) by (intro trim_left_id) (auto simp: hd_rev)
    finally show ?thesis .
  qed
  ultimately show ?thesis by (simp add: trim_space_def)
qed

section \<open>Round trips\<close>

lemma write_renamed_ok [simp]:
  "write_renamed file_ok msg name content fs = (None, fs(name \<mapsto> content, name @ ''.tmp'' := None))"
  by (simp add: write_renamed_def file_ok_def)

lemma task_chars_graph: "in_class word_cls c \<or> in_class sep_cls c \<or> in_class alnum c \<Longrightarrow> graph_char c"
  by (auto simp: in_class_def word_cls_def sep_cls_def alnum_def graph_char_def less_eq_char_def)

lemma task_id_graph:
  assumes "ParseTaskID t = Inr tid"
  shows "t \<noteq> []" "\<forall>c \<in> set t. graph_char c"
proof -
  have w: "wf_TaskID tid" "t = TaskID_String tid" using assms ParseTaskID_Inr by auto
  have "graph_char CHR ''-''" by (simp add: graph_char_def)
  then show "t \<noteq> []" "\<forall>c \<in> set t. graph_char c"
    using w seg_ok_chars[of False "tid_parts tid"] task_chars_graph
    by (auto simp: wf_TaskID_def TaskID_String_def)
qed

text \<open>
  The task binding of a private store round-trips up to the reader's size cap: whatever
  was in the directory, a valid task id is written and read back when it has at most 255
  bytes. A longer id is valid everywhere else and is written, but every read of it fails.
\<close>

theorem bound_task_roundtrip:
  assumes "ParseTaskID t = Inr tid"
  shows "\<exists>fs'. WriteBoundTaskInStore file_ok t fs = (None, fs') \<and>
    ReadBoundTaskInStore None fs' =
      (if length t \<le> 255 then Inr t else Inl (Errorf ''the bound task is over 256 bytes''))"
proof -
  let ?fs = "fs(boundTaskFileName \<mapsto> t @ [newline], boundTaskFileName @ ''.tmp'' := None)"
  have "WriteBoundTaskInStore file_ok t fs = (None, ?fs)" using assms by (simp add: WriteBoundTaskInStore_def)
  moreover have "?fs boundTaskFileName = Some (t @ [newline])" by simp
  moreover have "trim_space (t @ [newline]) = t" using task_id_graph[OF assms] by (intro trim_space_newline) auto
  ultimately show ?thesis using assms
    by (auto simp: ReadBoundTaskInStore_def maxBoundTaskBytes_def Let_def min_def)
qed

theorem bound_task_roundtrip_witness:
  "\<exists>fs'. WriteBoundTaskInStore file_ok ''MGIT-4.2'' Map.empty = (None, fs') \<and> ReadBoundTaskInStore None fs' = Inr ''MGIT-4.2''"
proof -
  have "ParseTaskID ''MGIT-4.2'' = Inr \<lparr>tid_prefix = ''MGIT'', tid_parts = ''4.2''\<rparr>" by code_simp
  from bound_task_roundtrip[OF this, of Map.empty] show ?thesis by simp
qed

text \<open>A path the list can carry: clean, valid, one line, and not mistaken for a comment or white space.\<close>

definition listable :: "string \<Rightarrow> bool" where
  "listable p \<longleftrightarrow> validateRelPath p = None \<and> path_clean p = p \<and> newline \<notin> set p \<and> CHR 0x0D \<notin> set p
     \<and> hd p \<noteq> CHR ''#'' \<and> graph_char (hd p) \<and> graph_char (last p) \<and> length p < 65536"

lemma scan_lines_text:
  assumes "\<forall>l \<in> set ls. newline \<notin> set l"
  shows "scan_lines (concat (map (\<lambda>l. l @ [newline]) ls)) = ls"
proof -
  have "split_on newline (concat (map (\<lambda>l. l @ [newline]) ls)) = ls @ [[]]"
    using assms by (induction ls) (auto simp: split_on_append)
  then show ?thesis by (simp add: scan_lines_def)
qed

lemma manifest_line_listable: "listable p \<Longrightarrow> manifest_line p = [p]"
proof -
  assume l: "listable p"
  then have "p \<noteq> []" by (auto simp: listable_def validateRelPath_def)
  moreover have "\<not> graph_char (CHR 0x0D)" by (simp add: graph_char_def)
  ultimately have "drop_cr p = p" "trim_space p = p" "\<not> has_prefix p ''#''"
    using l trim_space_id[of p] by (auto simp: listable_def drop_cr_def has_prefix_iff)
  then show ?thesis using l \<open>p \<noteq> []\<close> by (simp add: manifest_line_def listable_def)
qed

lemma header_lines: "l \<in> set manifest_header \<Longrightarrow> newline \<notin> set l \<and> length l < 65536 \<and> manifest_line l = []"
proof -
  have "trim_space l = l" if "hd l = CHR ''#''" "l \<noteq> []" "graph_char (last l)" for l
    using that by (intro trim_space_id) (auto simp: graph_char_def)
  then show "l \<in> set manifest_header \<Longrightarrow> newline \<notin> set l \<and> length l < 65536 \<and> manifest_line l = []"
    by (auto simp: manifest_header_def manifest_line_def drop_cr_def has_prefix_def graph_char_def)
qed

lemma manifest_parse:
  assumes "\<forall>p \<in> set ps. listable p"
  shows "parseGeneratedManifest (manifest_text ps) = Inr ps"
proof -
  have ok: "\<forall>l \<in> set (manifest_header @ ps). newline \<notin> set l \<and> length l < 65536"
    using assms header_lines by (auto simp: listable_def)
  then have lines: "scan_lines (manifest_text ps) = manifest_header @ ps"
    unfolding manifest_text_def by (intro scan_lines_text) blast
  have short: "\<not> list_ex (\<lambda>l. length l \<ge> 65536) (manifest_header @ ps)"
    using ok unfolding list_ex_iff by (meson not_le)
  have "concat (map manifest_line manifest_header) = []" using header_lines by simp
  moreover have "concat (map manifest_line ps) = ps" using assms by (induction ps) (auto simp: manifest_line_listable)
  ultimately show ?thesis using lines short by (simp add: parseGeneratedManifest_def)
qed

lemma clean_all_Inr: "clean_all rels = Inr cs \<Longrightarrow> cs = map path_clean rels \<and> (\<forall>r \<in> set rels. validateRelPath r = None)"
  by (induction rels arbitrary: cs) (auto split: option.splits)

text \<open>
  The generated list is a growing set: after recording valid paths, reading gives
  exactly the sorted union of what was listed and the cleaned new paths, without duplicates,
  so recording again changes nothing; a path that fails validation writes nothing.
\<close>

theorem generated_list_is_a_set:
  assumes "ReadGeneratedPaths None fs = Inr existing" "\<forall>p \<in> set existing. listable p"
    "\<forall>r \<in> set rels. validateRelPath r = None \<and> listable (path_clean r)"
  shows "\<exists>fs'. RecordGeneratedPaths None file_ok rels fs = (None, fs')
    \<and> (rels \<noteq> [] \<longrightarrow> ReadGeneratedPaths None fs' = Inr (sorted_list_of_set (set existing \<union> path_clean ` set rels)))
    \<and> RecordGeneratedPaths None file_ok rels fs' = (None, fs')"
proof (cases "rels = []")
  case False
  let ?ps = "sorted_list_of_set (set existing \<union> path_clean ` set rels)"
  let ?fs = "fs(generatedFileName \<mapsto> manifest_text ?ps, generatedFileName @ ''.tmp'' := None)"
  have c: "clean_all rels = Inr (map path_clean rels)" using assms(3) by (induction rels) auto
  have mk: "fio_mkdir file_ok = None" by (simp add: file_ok_def)
  have w: "RecordGeneratedPaths None file_ok rels g
      = (None, g(generatedFileName \<mapsto> manifest_text (sorted_list_of_set (set ex \<union> path_clean ` set rels)), generatedFileName @ ''.tmp'' := None))"
    if "ReadGeneratedPaths None g = Inr ex" for g ex
    using c that False mk by (simp add: RecordGeneratedPaths_def writeManifestIn_def)
  have "\<forall>p \<in> set ?ps. listable p" using assms(2,3) by auto
  then have r: "ReadGeneratedPaths None ?fs = Inr ?ps" by (simp add: ReadGeneratedPaths_def manifest_parse)
  have "set ?ps \<union> path_clean ` set rels = set existing \<union> path_clean ` set rels" by auto
  then have "RecordGeneratedPaths None file_ok rels ?fs = (None, ?fs)" using w[OF r] by (simp add: fun_eq_iff)
  then show ?thesis using w[OF assms(1)] r by blast
qed (simp add: RecordGeneratedPaths_def)

theorem generated_list_is_a_set_witness:
  "\<exists>fs'. RecordGeneratedPaths None file_ok [''./CLAUDE.md'', ''.claude/settings.json'', ''CLAUDE.md''] Map.empty = (None, fs')
    \<and> ReadGeneratedPaths None fs' = Inr [''.claude/settings.json'', ''CLAUDE.md'']"
proof -
  let ?rels = "[''./CLAUDE.md'', ''.claude/settings.json'', ''CLAUDE.md'']"
  have r: "ReadGeneratedPaths None Map.empty = Inr []" by (simp add: ReadGeneratedPaths_def)
  have v: "\<forall>r \<in> set ?rels. validateRelPath r = None \<and> listable (path_clean r)"
    by (simp add: listable_def validateRelPath_def isExcludedPath_def excludedNames_def path_clean_def path_is_abs_def
          has_prefix_def graph_char_def)
  have "set [] \<union> path_clean ` set ?rels = {''.claude/settings.json'', ''CLAUDE.md''}"
    by (simp add: path_clean_def path_is_abs_def insert_commute)
  then have "sorted_list_of_set (set [] \<union> path_clean ` set ?rels) = [''.claude/settings.json'', ''CLAUDE.md'']"
    by (simp add: less_eq_char_def less_char_def)
  then show ?thesis using generated_list_is_a_set[OF r _ v] by auto
qed

end
