(* ===== verification/Provision.thy ===== *)
theory Provision
  imports Store_Files
begin

text \<open>
  Seeding a sandbox's private object store (\<open>internal/sandboxd/provision/store.go\<close>): the walk
  that copies the objects reachable from the base commit (\<open>copyReachable\<close>), the choice of the
  base (\<open>resolveBase\<close>), and \<open>Provision\<close> with its clean-up on every failure.

  go-git is an argument: the decoders of commits and trees, object hashes, and what the
  references of the shared store resolve to. Disk failures are arguments too.
\<close>

section \<open>The seeding walk\<close>

datatype filemode = Dir | Submodule | OtherMode

record mode_entry =
  me_Mode :: filemode
  me_Hash :: string

text \<open>\<open>tl_Entries\<close> is what \<open>object.GetTree\<close> decodes from a tree object's bytes.\<close>

record seed_lib =
  sl_git :: git_lib
  sl_Entries :: "byte list \<Rightarrow> mode_entry list result"

text \<open>Disk errors of the two stores, by the object read or written.\<close>

record seed_io =
  sio_read :: "string \<Rightarrow> err option"
  sio_write :: "string \<Rightarrow> err option"

record objItem =
  oi_hash :: string
  oi_typ :: byte

definition EncodedObject :: "seed_io \<Rightarrow> object_db \<Rightarrow> byte \<Rightarrow> string \<Rightarrow> Object result" where
  "EncodedObject io src typ h =
     (case sio_read io h of
        Some e \<Rightarrow> Inl e
      | None \<Rightarrow> (case map_of src h of
                   Some ob \<Rightarrow> if ob_Type ob = typ then Inr ob else Inl (Errorf ''object not found'')
                 | None \<Rightarrow> Inl (Errorf ''object not found'')))"

definition copyObject :: "seed_lib \<Rightarrow> seed_io \<Rightarrow> object_db \<Rightarrow> object_db \<Rightarrow> byte \<Rightarrow> string \<Rightarrow> object_db result" where
  "copyObject L io src dst typ h =
     (case EncodedObject io src typ h of
        Inl e \<Rightarrow> Inl (Wrap ''read object'' e)
      | Inr ob \<Rightarrow>
          (case sio_write io h of
             Some e \<Rightarrow> Inl (Wrap ''write object'' e)
           | None \<Rightarrow> Inr (AList.update (git_hash (sl_git L) (ob_Type ob) (ob_Data ob)) ob dst)))"

definition tree_children :: "mode_entry list \<Rightarrow> objItem list" where
  "tree_children es = concat (map (\<lambda>e. case me_Mode e of
      Dir \<Rightarrow> [\<lparr>oi_hash = me_Hash e, oi_typ = ObjTree\<rparr>]
    | Submodule \<Rightarrow> []
    | OtherMode \<Rightarrow> [\<lparr>oi_hash = me_Hash e, oi_typ = ObjBlob\<rparr>]) es)"

definition children :: "seed_lib \<Rightarrow> seed_io \<Rightarrow> object_db \<Rightarrow> byte \<Rightarrow> string \<Rightarrow> objItem list result" where
  "children L io src typ h =
     (if typ = ObjCommit then
        (case bind_result (EncodedObject io src ObjCommit h) (\<lambda>ob. git_Decode (sl_git L) (ob_Data ob)) of
           Inl e \<Rightarrow> Inl (Wrap ''read commit'' e)
         | Inr c \<Rightarrow> Inr (\<lparr>oi_hash = gc_TreeHash c, oi_typ = ObjTree\<rparr>
                        # map (\<lambda>p. \<lparr>oi_hash = p, oi_typ = ObjCommit\<rparr>) (gc_ParentHashes c)))
      else if typ = ObjTree then
        (case bind_result (EncodedObject io src ObjTree h) (\<lambda>ob. sl_Entries L (ob_Data ob)) of
           Inl e \<Rightarrow> Inl (Wrap ''read tree'' e)
         | Inr es \<Rightarrow> Inr (tree_children es))
      else Inr [])"

lemma EncodedObject_Inr: "EncodedObject io src typ h = Inr ob \<Longrightarrow> map_of src h = Some ob \<and> ob_Type ob = typ"
  by (auto simp: EncodedObject_def split: option.splits if_splits)

lemma copyObject_Inr:
  "copyObject L io src dst typ h = Inr dst' \<Longrightarrow>
     \<exists>ob. map_of src h = Some ob \<and> ob_Type ob = typ \<and> dst' = AList.update (git_hash (sl_git L) typ (ob_Data ob)) ob dst"
  by (auto simp: copyObject_def split: sum.splits option.splits dest!: EncodedObject_Inr)

text \<open>
  The loop of \<open>copyReachable\<close>. The work list is a stack whose top is the end of the Go slice,
  held here in reverse: appending \<open>next\<close> to the slice puts its last element on top. The loop
  returns the store it reached together with the error it stopped at.
\<close>

function copy_loop :: "seed_lib \<Rightarrow> seed_io \<Rightarrow> object_db \<Rightarrow> string list \<Rightarrow> objItem list \<Rightarrow> object_db \<Rightarrow> err option \<times> object_db" where
  "copy_loop L io src seen [] dst = (None, dst)"
| "copy_loop L io src seen (it # work) dst =
     (if oi_hash it = ZeroHash \<or> oi_hash it \<in> set seen then copy_loop L io src seen work dst
      else (case copyObject L io src dst (oi_typ it) (oi_hash it) of
              Inl e \<Rightarrow> (Some e, dst)
            | Inr dst1 \<Rightarrow>
                (case children L io src (oi_typ it) (oi_hash it) of
                   Inl e \<Rightarrow> (Some e, dst1)
                 | Inr nxt \<Rightarrow> copy_loop L io src (oi_hash it # seen) (rev nxt @ work) dst1)))"
  by pat_completeness auto

lemma fresh_key_decreases:
  assumes "copyObject L io src dst typ h = Inr dst1" "h \<notin> set seen"
  shows "card (fst ` set src - insert h (set seen)) < card (fst ` set src - set seen)"
proof -
  have "h \<in> fst ` set src" using copyObject_Inr[OF assms(1)] map_of_SomeD by force
  then show ?thesis using assms(2) by (intro psubset_card_mono) auto
qed

termination copy_loop
  by (relation "measures [\<lambda>(L, io, src, seen, work, dst). card (fst ` set src - set seen),
                          \<lambda>(L, io, src, seen, work, dst). length work]")
     (auto intro: fresh_key_decreases)

definition copyReachable :: "seed_lib \<Rightarrow> seed_io \<Rightarrow> object_db \<Rightarrow> object_db \<Rightarrow> string \<Rightarrow> err option \<times> object_db" where
  "copyReachable L io src dst head =
     (if head = ZeroHash then (None, dst)
      else copy_loop L io src [] [\<lparr>oi_hash = head, oi_typ = ObjCommit\<rparr>] dst)"

section \<open>Provisioning\<close>

text \<open>
  The shared store as the provisioner reads it: its objects, what \<open>Reference\<close> answers for a
  name (the hash of the reference) and what \<open>HEAD\<close> resolves to.
\<close>

record shared_store =
  sh_objects :: object_db
  sh_Reference :: "string \<Rightarrow> string option"
  sh_Head :: "string option"

datatype ref_value = HashReference string | SymbolicReference string

record priv_dir =
  pd_objects :: object_db
  pd_refs :: "string \<rightharpoonup> ref_value"
  pd_files :: dir_files

record PrivateStore =
  ps_Dir :: string
  ps_SharedDir :: string

text \<open>
  The outcome of each disk operation of \<open>Provision\<close>; \<open>pio_Init\<close> is the fresh store that
  go-git's \<open>Init\<close> leaves, and \<open>pio_RemoveAll\<close> whether the clean-up succeeds.
\<close>

record prov_io =
  pio_MkdirAll :: "err option"
  pio_Init :: "priv_dir result"
  pio_seed :: seed_io
  pio_branch :: "err option"
  pio_HEAD :: "err option"
  pio_generated :: file_io
  pio_task :: file_io
  pio_RemoveAll :: bool

definition SharedDir :: "string \<Rightarrow> string" where
  "SharedDir repoRoot = filepath_join [repoRoot, ''.mgit'']"

definition generatedList :: "string \<Rightarrow> list_state \<Rightarrow> string list result" where
  "generatedList worktreePath ls =
     (if worktreePath = [] then Inl (Errorf ''provision: the worktree path must not be empty'')
      else (case ReadGeneratedPathsNoFollow ls of Inl e \<Rightarrow> Inl (Wrap ''provision'' e) | Inr g \<Rightarrow> Inr g))"

definition branch_ref :: "string \<Rightarrow> string" where
  "branch_ref taskID = ''refs/heads/'' @ TaskBranchName taskID"

definition resolveBase :: "shared_store \<Rightarrow> string \<Rightarrow> string result" where
  "resolveBase sh branch =
     (case sh_Reference sh branch of
        Some h \<Rightarrow> Inr h
      | None \<Rightarrow>
          (case sh_Head sh of
             None \<Rightarrow> Inl (Wrap ''no task branch and no resolvable HEAD'' (Sentinel ErrBranchNotFound))
           | Some h \<Rightarrow> if h = ZeroHash then Inl (Wrap ''no task branch and no resolvable HEAD'' (Sentinel ErrBranchNotFound))
                       else Inr h))"

text \<open>\<open>_ = os.RemoveAll(privateDir)\<close>: gone, or left as it is when the removal fails.\<close>

definition removed :: "prov_io \<Rightarrow> priv_dir \<Rightarrow> priv_dir option" where
  "removed io d = (if pio_RemoveAll io then None else Some d)"

text \<open>The part of \<open>Provision\<close> after \<open>Init\<close>: seed, point the branch and \<open>HEAD\<close>, carry the two files.\<close>

definition seed_store :: "seed_lib \<Rightarrow> prov_io \<Rightarrow> object_db \<Rightarrow> string list \<Rightarrow> string \<Rightarrow> string \<Rightarrow> priv_dir \<Rightarrow> err option \<times> priv_dir" where
  "seed_store L io src generated taskID base d =
     (case copyReachable L (pio_seed io) src (pd_objects d) base of
        (Some e, objs) \<Rightarrow> (Some (Wrap ''provision: seed base commit'' e), d\<lparr>pd_objects := objs\<rparr>)
      | (None, objs) \<Rightarrow>
          (let d1 = d\<lparr>pd_objects := objs\<rparr>; branch = branch_ref taskID in
           case pio_branch io of
             Some e \<Rightarrow> (Some (Wrap ''provision: set private branch'' e), d1)
           | None \<Rightarrow>
               (let d2 = d1\<lparr>pd_refs := (pd_refs d1)(branch \<mapsto> HashReference base)\<rparr> in
                case pio_HEAD io of
                  Some e \<Rightarrow> (Some (Wrap ''provision: set private HEAD'' e), d2)
                | None \<Rightarrow>
                    (let d3 = d2\<lparr>pd_refs := (pd_refs d2)(''HEAD'' \<mapsto> SymbolicReference branch)\<rparr> in
                     case WriteGeneratedPathsInStore (pio_generated io) generated (pd_files d3) of
                       (Some e, fs) \<Rightarrow> (Some (Wrap ''provision: carry the generated list'' e), d3\<lparr>pd_files := fs\<rparr>)
                     | (None, fs) \<Rightarrow>
                         (case WriteBoundTaskInStore (pio_task io) taskID fs of
                            (Some e, fs') \<Rightarrow> (Some (Wrap ''provision: carry the task binding'' e), d3\<lparr>pd_files := fs'\<rparr>)
                          | (None, fs') \<Rightarrow> (None, d3\<lparr>pd_files := fs'\<rparr>))))))"

definition Provision :: "seed_lib \<Rightarrow> prov_io \<Rightarrow> string \<Rightarrow> shared_store option \<Rightarrow> list_state \<Rightarrow> string \<Rightarrow> string \<Rightarrow> string
    \<Rightarrow> priv_dir option \<Rightarrow> PrivateStore result \<times> priv_dir option" where
  "Provision L io repoRoot shared ls taskID worktreePath privateDir disk =
     (case shared of
        None \<Rightarrow> (Inl (Wrap ''shared store not found'' (Sentinel ErrStorageError)), disk)
      | Some sh \<Rightarrow>
          if disk \<noteq> None then (Inl (Errorf ''provision: private store already exists''), disk)
          else (case generatedList worktreePath ls of
            Inl e \<Rightarrow> (Inl e, disk)
          | Inr generated \<Rightarrow>
              (case resolveBase sh (branch_ref taskID) of
                 Inl e \<Rightarrow> (Inl e, disk)
               | Inr base \<Rightarrow>
                   (case pio_MkdirAll io of
                      Some e \<Rightarrow> (Inl (Wrap ''provision: create private store dir'' e), disk)
                    | None \<Rightarrow>
                        (case pio_Init io of
                           Inl e \<Rightarrow> (Inl (Wrap ''provision: init go-git private store'' e),
                                     removed io \<lparr>pd_objects = [], pd_refs = Map.empty, pd_files = Map.empty\<rparr>)
                         | Inr d \<Rightarrow>
                             (case seed_store L io (sh_objects sh) generated taskID base d of
                                (Some e, d') \<Rightarrow> (Inl e, removed io d')
                              | (None, d') \<Rightarrow> (Inr \<lparr>ps_Dir = privateDir, ps_SharedDir = SharedDir repoRoot\<rparr>, Some d')))))))"

section \<open>What the walk copies\<close>

text \<open>
  The objects the base commit reaches, by the decoded objects alone: a commit links to its tree
  and all its parents, a tree to every entry that is not a submodule, a blob to nothing.
\<close>

definition links :: "seed_lib \<Rightarrow> Object \<Rightarrow> string set" where
  "links L ob =
     (if ob_Type ob = ObjCommit then
        (case git_Decode (sl_git L) (ob_Data ob) of Inl _ \<Rightarrow> {} | Inr c \<Rightarrow> insert (gc_TreeHash c) (set (gc_ParentHashes c)))
      else if ob_Type ob = ObjTree then
        (case sl_Entries L (ob_Data ob) of Inl _ \<Rightarrow> {} | Inr es \<Rightarrow> me_Hash ` {e \<in> set es. me_Mode e \<noteq> Submodule})
      else {})"

inductive reachable :: "seed_lib \<Rightarrow> object_db \<Rightarrow> string \<Rightarrow> string \<Rightarrow> bool" for L src head where
  base: "head \<noteq> ZeroHash \<Longrightarrow> reachable L src head head"
| link: "reachable L src head h \<Longrightarrow> map_of src h = Some ob \<Longrightarrow> k \<in> links L ob \<Longrightarrow> k \<noteq> ZeroHash
    \<Longrightarrow> reachable L src head k"

lemma tree_children_hashes: "oi_hash ` set (tree_children es) = me_Hash ` {e \<in> set es. me_Mode e \<noteq> Submodule}"
  by (induction es) (auto simp: tree_children_def image_iff split: filemode.splits)

lemma children_links:
  assumes "map_of src h = Some ob" "children L io src (ob_Type ob) h = Inr cs"
  shows "oi_hash ` set cs = links L ob"
  using assms by (auto simp: children_def links_def EncodedObject_def bind_result_def image_image tree_children_hashes[symmetric]
      split: sum.splits option.splits if_splits)

definition content_addressed :: "git_lib \<Rightarrow> object_db \<Rightarrow> bool" where
  "content_addressed G db \<longleftrightarrow> (\<forall>h ob. map_of db h = Some ob \<longrightarrow> git_hash G (ob_Type ob) (ob_Data ob) = h)"

text \<open>A store with nothing missing: every object decodes and its children are present with their types.\<close>

definition seed_closed :: "seed_lib \<Rightarrow> seed_io \<Rightarrow> object_db \<Rightarrow> bool" where
  "seed_closed L io src \<longleftrightarrow> (\<forall>h ob. map_of src h = Some ob \<longrightarrow>
     (\<exists>cs. children L io src (ob_Type ob) h = Inr cs
        \<and> (\<forall>it \<in> set cs. oi_hash it = ZeroHash \<or> (\<exists>ob'. map_of src (oi_hash it) = Some ob' \<and> ob_Type ob' = oi_typ it))))"

definition covered :: "string set \<Rightarrow> objItem list \<Rightarrow> bool" where
  "covered V items \<longleftrightarrow> (\<forall>it \<in> set items. oi_hash it = ZeroHash \<or> oi_hash it \<in> V)"

lemma covered_simps [simp]:
  "covered V []" "covered V (it # items) \<longleftrightarrow> (oi_hash it = ZeroHash \<or> oi_hash it \<in> V) \<and> covered V items"
  "covered V (rev items) = covered V items" "covered V (xs @ ys) \<longleftrightarrow> covered V xs \<and> covered V ys"
  by (auto simp: covered_def)

definition expanded :: "seed_lib \<Rightarrow> seed_io \<Rightarrow> object_db \<Rightarrow> string set \<Rightarrow> string \<Rightarrow> bool" where
  "expanded L io src V h \<longleftrightarrow> (\<exists>ob cs. map_of src h = Some ob \<and> children L io src (ob_Type ob) h = Inr cs \<and> covered V cs)"

definition edge_closed :: "seed_lib \<Rightarrow> seed_io \<Rightarrow> object_db \<Rightarrow> string set \<Rightarrow> bool" where
  "edge_closed L io src R \<longleftrightarrow> (\<forall>h ob cs. h \<in> R \<and> map_of src h = Some ob \<and> children L io src (ob_Type ob) h = Inr cs
     \<longrightarrow> covered R cs)"

lemma copy_loop_visits:
  assumes "copy_loop L io src seen work dst = (None, dst')" "content_addressed (sl_git L) src"
    "edge_closed L io src R" "covered R work"
  shows "\<exists>V. covered (set seen \<union> V) work \<and> (\<forall>h \<in> V. expanded L io src (set seen \<union> V) h) \<and> V \<subseteq> R
    \<and> (\<forall>k. map_of dst' k = (if k \<in> V then map_of src k else map_of dst k))"
  using assms
proof (induction L io src seen work dst rule: copy_loop.induct)
  case (1 L io src seen dst)
  then show ?case by (intro exI[of _ "{}"]) simp
next
  case (2 L io src seen it work dst)
  show ?case
  proof (cases "oi_hash it = ZeroHash \<or> oi_hash it \<in> set seen")
    case True
    then have "copy_loop L io src seen work dst = (None, dst')" using "2.prems"(1) by (simp only: copy_loop.simps if_True)
    then obtain V where "covered (set seen \<union> V) work" "\<forall>h \<in> V. expanded L io src (set seen \<union> V) h" "V \<subseteq> R"
      "\<forall>k. map_of dst' k = (if k \<in> V then map_of src k else map_of dst k)"
      using "2.IH"(1)[OF True _ "2.prems"(2,3)] "2.prems"(4) by auto
    then show ?thesis using True by (intro exI[of _ V]) auto
  next
    case False
    obtain dst1 where d1: "copyObject L io src dst (oi_typ it) (oi_hash it) = Inr dst1"
      using "2.prems"(1) False by (simp add: copy_loop.simps split: sum.splits)
    obtain nxt where nx: "children L io src (oi_typ it) (oi_hash it) = Inr nxt"
      using "2.prems"(1) False d1 by (simp add: copy_loop.simps split: sum.splits)
    have rec: "copy_loop L io src (oi_hash it # seen) (rev nxt @ work) dst1 = (None, dst')"
      using "2.prems"(1) False d1 nx by simp
    obtain ob where ob: "map_of src (oi_hash it) = Some ob" "ob_Type ob = oi_typ it"
      "dst1 = AList.update (git_hash (sl_git L) (oi_typ it) (ob_Data ob)) ob dst"
      using copyObject_Inr[OF d1] by blast
    moreover have "git_hash (sl_git L) (oi_typ it) (ob_Data ob) = oi_hash it"
      using "2.prems"(2) ob(1,2) by (force simp: content_addressed_def)
    ultimately have upd: "map_of dst1 = (map_of dst)(oi_hash it \<mapsto> ob)" by (simp add: update_conv')
    have inR: "oi_hash it \<in> R" using "2.prems"(4) False by simp
    then have "covered R nxt" using "2.prems"(3) ob(1) nx unfolding edge_closed_def ob(2)[symmetric] by blast
    then obtain V where V: "covered (insert (oi_hash it) (set seen \<union> V)) (rev nxt @ work)"
      "\<forall>h \<in> V. expanded L io src (insert (oi_hash it) (set seen \<union> V)) h" "V \<subseteq> R"
      "\<forall>k. map_of dst' k = (if k \<in> V then map_of src k else map_of dst1 k)"
      using "2.IH"(2)[OF False d1 nx rec "2.prems"(2,3)] "2.prems"(4) by auto
    have "expanded L io src (set seen \<union> insert (oi_hash it) V) (oi_hash it)"
      using V(1) ob nx by (auto simp: expanded_def)
    then show ?thesis using V inR upd ob(1) by (intro exI[of _ "insert (oi_hash it) V"]) auto
  qed
qed

lemma copyReachable_copies:
  assumes "copyReachable L io src dst head = (None, dst')" "content_addressed (sl_git L) src"
  shows "map_of dst' k = (if reachable L src head k then map_of src k else map_of dst k)"
proof (cases "head = ZeroHash")
  case True
  have "\<not> reachable L src ZeroHash k" for k
    by (rule notI) (induction k rule: reachable.induct, auto)
  then show ?thesis using assms True by (simp add: copyReachable_def)
next
  case False
  let ?R = "Collect (reachable L src head)"
  have run: "copy_loop L io src [] [\<lparr>oi_hash = head, oi_typ = ObjCommit\<rparr>] dst = (None, dst')"
    using assms(1) False by (simp add: copyReachable_def)
  have "edge_closed L io src ?R" unfolding edge_closed_def covered_def by (auto intro: reachable.link dest: children_links)
  moreover have "covered ?R [\<lparr>oi_hash = head, oi_typ = ObjCommit\<rparr>]" using False reachable.base by simp
  ultimately have "\<exists>V. covered (set [] \<union> V) [\<lparr>oi_hash = head, oi_typ = ObjCommit\<rparr>]
    \<and> (\<forall>h \<in> V. expanded L io src (set [] \<union> V) h) \<and> V \<subseteq> ?R
    \<and> (\<forall>k. map_of dst' k = (if k \<in> V then map_of src k else map_of dst k))"
    by (rule copy_loop_visits[OF run assms(2)])
  then obtain V where V: "covered V [\<lparr>oi_hash = head, oi_typ = ObjCommit\<rparr>]"
    "\<forall>h \<in> V. expanded L io src V h" "V \<subseteq> ?R" "\<forall>k. map_of dst' k = (if k \<in> V then map_of src k else map_of dst k)"
    by (simp only: set_simps(1) Un_empty_left) blast
  have "k \<in> V" if "reachable L src head k" for k
    using that
  proof induction
    case (link h ob k)
    then obtain cs where cs: "children L io src (ob_Type ob) h = Inr cs" "covered V cs" using V(2) by (fastforce simp: expanded_def)
    then have "k \<in> oi_hash ` set cs" using children_links[OF link.hyps(2) cs(1)] link.hyps(3) by simp
    then show ?case using cs(2) link.hyps(4) by (auto simp: covered_def)
  qed (use V(1) False in simp)
  then show ?thesis using V(3,4) by auto
qed

lemma copy_loop_succeeds:
  assumes "seed_closed L io src" "\<forall>h. sio_read io h = None \<and> sio_write io h = None"
    "\<forall>it \<in> set work. oi_hash it = ZeroHash \<or> (\<exists>ob. map_of src (oi_hash it) = Some ob \<and> ob_Type ob = oi_typ it)"
  shows "fst (copy_loop L io src seen work dst) = None"
  using assms
proof (induction L io src seen work dst rule: copy_loop.induct)
  case (2 L io src seen it work dst)
  show ?case
  proof (cases "oi_hash it = ZeroHash \<or> oi_hash it \<in> set seen")
    case False
    then obtain ob where ob: "map_of src (oi_hash it) = Some ob" "ob_Type ob = oi_typ it" using "2.prems"(3) by auto
    then obtain cs where cs: "children L io src (oi_typ it) (oi_hash it) = Inr cs"
      "\<forall>it \<in> set cs. oi_hash it = ZeroHash \<or> (\<exists>ob'. map_of src (oi_hash it) = Some ob' \<and> ob_Type ob' = oi_typ it)"
      using "2.prems"(1)[unfolded seed_closed_def, rule_format, OF ob(1)] by auto
    obtain dst1 where d1: "copyObject L io src dst (oi_typ it) (oi_hash it) = Inr dst1"
      using ob "2.prems"(2) by (simp add: copyObject_def EncodedObject_def)
    show ?thesis using "2.IH"(2)[OF False d1 cs(1) "2.prems"(1,2)] cs "2.prems"(3) False d1 by auto
  qed (use 2 in simp)
qed simp

section \<open>What provisioning promises\<close>

lemma seed_store_None:
  assumes "seed_store L io src generated taskID base d = (None, d')"
  obtains objs fs fs' where "copyReachable L (pio_seed io) src (pd_objects d) base = (None, objs)"
    "WriteGeneratedPathsInStore (pio_generated io) generated (pd_files d) = (None, fs)"
    "WriteBoundTaskInStore (pio_task io) taskID fs = (None, fs')"
    "d' = d\<lparr>pd_objects := objs,
       pd_refs := (pd_refs d)(branch_ref taskID \<mapsto> HashReference base, ''HEAD'' \<mapsto> SymbolicReference (branch_ref taskID)),
       pd_files := fs'\<rparr>"
  using assms by (auto simp: seed_store_def Let_def split: prod.splits option.splits)

lemma Provision_Inr:
  assumes "Provision L io repoRoot shared ls taskID worktreePath privateDir disk = (Inr ps, disk')"
  obtains sh generated base d d' where "shared = Some sh" "disk = None" "generatedList worktreePath ls = Inr generated"
    "resolveBase sh (branch_ref taskID) = Inr base" "pio_Init io = Inr d"
    "seed_store L io (sh_objects sh) generated taskID base d = (None, d')" "disk' = Some d'"
  using assms by (auto simp: Provision_def split: option.splits sum.splits prod.splits if_splits)

lemma write_renamed_None: "write_renamed io msg name content fs = (None, fs') \<Longrightarrow> fs' = fs(name \<mapsto> content, name @ ''.tmp'' := None)"
  by (auto simp: write_renamed_def split: option.splits)

lemma WriteBoundTask_None:
  assumes "WriteBoundTaskInStore io taskID fs = (None, fs')"
  shows "\<exists>tid. ParseTaskID taskID = Inr tid" "fs' boundTaskFileName = Some (taskID @ [newline])"
  using assms write_renamed_None[of io "''bound task''" boundTaskFileName "taskID @ [newline]" fs fs']
  by (auto simp: WriteBoundTaskInStore_def split: sum.splits)

text \<open>
  C6. The guest's store is exactly the base's pool: when provisioning succeeds, the private
  store holds the objects the base commit reaches, each as the shared store has it, and no
  other object; the task branch points at the base, \<open>HEAD\<close> at the task branch, and the
  binding names a valid task id. Objects of other branches and tasks are not in it.
\<close>

theorem seeded_store_is_exact:
  assumes run: "Provision L io repoRoot (Some sh) ls taskID worktreePath privateDir disk = (Inr ps, Some d')"
    and keys: "content_addressed (sl_git L) (sh_objects sh)"
    and init: "pio_Init io = Inr d" "pd_objects d = []"
    and base: "resolveBase sh (branch_ref taskID) = Inr base"
  shows "(\<forall>k. map_of (pd_objects d') k =
            (if reachable L (sh_objects sh) base k then map_of (sh_objects sh) k else None))
    \<and> pd_refs d' (branch_ref taskID) = Some (HashReference base)
    \<and> pd_refs d' ''HEAD'' = Some (SymbolicReference (branch_ref taskID))
    \<and> (\<exists>tid. ParseTaskID taskID = Inr tid) \<and> pd_files d' boundTaskFileName = Some (taskID @ [newline])"
proof -
  obtain generated where s: "seed_store L io (sh_objects sh) generated taskID base d = (None, d')"
    using Provision_Inr[OF run] init base by fastforce
  then obtain objs fs fs' where c: "copyReachable L (pio_seed io) (sh_objects sh) (pd_objects d) base = (None, objs)"
    and w: "WriteBoundTaskInStore (pio_task io) taskID fs = (None, fs')"
    and d': "d' = d\<lparr>pd_objects := objs,
       pd_refs := (pd_refs d)(branch_ref taskID \<mapsto> HashReference base, ''HEAD'' \<mapsto> SymbolicReference (branch_ref taskID)),
       pd_files := fs'\<rparr>"
    by (rule seed_store_None)
  have "branch_ref taskID \<noteq> ''HEAD''" by (simp add: branch_ref_def)
  then show ?thesis using copyReachable_copies[OF c keys] WriteBoundTask_None[OF w] d' init(2) by simp
qed

definition toy_hash :: "byte \<Rightarrow> byte list \<Rightarrow> string" where
  "toy_hash t d = map (\<lambda>b. char_of (unat b)) (t # d)"

definition toy_git :: git_lib where
  "toy_git = \<lparr>git_hash = toy_hash, git_NewHash = (\<lambda>s. s),
     git_Decode = (\<lambda>d. if d = [1] then Inr \<lparr>gc_Hash = [], gc_Message = [], gc_AuthorName = [], gc_AuthorWhen = 0,
        gc_ParentHashes = [], gc_TreeHash = toy_hash ObjTree [2]\<rparr> else Inl (Errorf ''bad commit'')),
     git_WalkTree = (\<lambda>_ _. Inl (Errorf ''unused''))\<rparr>"

definition toy_seed :: seed_lib where
  "toy_seed = \<lparr>sl_git = toy_git, sl_Entries = (\<lambda>d. if d = [2]
     then Inr [\<lparr>me_Mode = OtherMode, me_Hash = toy_hash ObjBlob [3]\<rparr>, \<lparr>me_Mode = Submodule, me_Hash = ''elsewhere''\<rparr>]
     else Inl (Errorf ''bad tree''))\<rparr>"

definition toy_objects :: object_db where
  "toy_objects = map (\<lambda>ob. (toy_hash (ob_Type ob) (ob_Data ob), ob))
     [\<lparr>ob_Type = ObjCommit, ob_Data = [1]\<rparr>, \<lparr>ob_Type = ObjTree, ob_Data = [2]\<rparr>,
      \<lparr>ob_Type = ObjBlob, ob_Data = [3]\<rparr>, \<lparr>ob_Type = ObjBlob, ob_Data = [9]\<rparr>]"

definition toy_shared :: shared_store where
  "toy_shared = \<lparr>sh_objects = toy_objects, sh_Reference = (\<lambda>_. None), sh_Head = Some (toy_hash ObjCommit [1])\<rparr>"

definition toy_priv :: priv_dir where
  "toy_priv = \<lparr>pd_objects = [], pd_refs = Map.empty, pd_files = Map.empty\<rparr>"

definition toy_prov_io :: prov_io where
  "toy_prov_io = \<lparr>pio_MkdirAll = None, pio_Init = Inr toy_priv,
     pio_seed = \<lparr>sio_read = (\<lambda>_. None), sio_write = (\<lambda>_. None)\<rparr>, pio_branch = None, pio_HEAD = None,
     pio_generated = file_ok, pio_task = file_ok, pio_RemoveAll = True\<rparr>"

lemmas seed_eval = toy_seed_def toy_git_def toy_objects_def toy_hash_def toy_shared_def toy_prov_io_def toy_priv_def
  copyObject_def EncodedObject_def children_def tree_children_def copyReachable_def

lemma toy_hash_nonzero [simp]: "[a, b] \<noteq> ZeroHash"
  by (auto dest: arg_cong[of _ _ length])

lemma toy_keys: "content_addressed (sl_git toy_seed) (sh_objects toy_shared)"
  by (auto simp: content_addressed_def toy_seed_def toy_git_def toy_objects_def toy_shared_def split: if_splits)

lemma toy_base: "resolveBase toy_shared (branch_ref ''MGIT-1'') = Inr (toy_hash ObjCommit [1])"
  by (simp add: resolveBase_def toy_shared_def toy_hash_def)

lemma toy_task: "ParseTaskID ''MGIT-1'' = Inr \<lparr>tid_prefix = ''MGIT'', tid_parts = ''1''\<rparr>"
  by code_simp

lemma toy_copy:
  "copyReachable toy_seed (pio_seed toy_prov_io) toy_objects [] (toy_hash ObjCommit [1]) =
     (None, map (\<lambda>ob. (toy_hash (ob_Type ob) (ob_Data ob), ob))
       [\<lparr>ob_Type = ObjCommit, ob_Data = [1]\<rparr>, \<lparr>ob_Type = ObjTree, ob_Data = [2]\<rparr>, \<lparr>ob_Type = ObjBlob, ob_Data = [3]\<rparr>])"
  by (simp add: seed_eval)

lemma toy_provision:
  "\<exists>d'. Provision toy_seed toy_prov_io ''/repo'' (Some toy_shared) NoStore ''MGIT-1'' ''/w'' ''/state/ps'' None
    = (Inr \<lparr>ps_Dir = ''/state/ps'', ps_SharedDir = SharedDir ''/repo''\<rparr>, Some d')"
proof -
  have "pd_objects toy_priv = []" "pio_Init toy_prov_io = Inr toy_priv" "sh_objects toy_shared = toy_objects"
    "pio_MkdirAll toy_prov_io = None" "pio_branch toy_prov_io = None" "pio_HEAD toy_prov_io = None" "pio_task toy_prov_io = file_ok"
    by (simp_all add: toy_priv_def toy_prov_io_def toy_shared_def)
  then show ?thesis using toy_copy toy_base toy_task
    by (simp add: Provision_def seed_store_def generatedList_def ReadGeneratedPathsNoFollow_def
          WriteGeneratedPathsInStore_def WriteBoundTaskInStore_def Let_def)
qed

theorem seeded_store_is_exact_witness:
  "\<exists>d'. Provision toy_seed toy_prov_io ''/repo'' (Some toy_shared) NoStore ''MGIT-1'' ''/w'' ''/state/ps'' None
      = (Inr \<lparr>ps_Dir = ''/state/ps'', ps_SharedDir = SharedDir ''/repo''\<rparr>, Some d')
    \<and> pd_refs d' (branch_ref ''MGIT-1'') = Some (HashReference (toy_hash ObjCommit [1]))
    \<and> (\<forall>k. map_of (pd_objects d') k =
            (if reachable toy_seed toy_objects (toy_hash ObjCommit [1]) k then map_of toy_objects k else None))"
proof -
  obtain d' where run: "Provision toy_seed toy_prov_io ''/repo'' (Some toy_shared) NoStore ''MGIT-1'' ''/w'' ''/state/ps'' None
      = (Inr \<lparr>ps_Dir = ''/state/ps'', ps_SharedDir = SharedDir ''/repo''\<rparr>, Some d')" using toy_provision by blast
  have init: "pio_Init toy_prov_io = Inr toy_priv" "pd_objects toy_priv = []" by (simp_all add: toy_prov_io_def toy_priv_def)
  have sh: "sh_objects toy_shared = toy_objects" by (simp add: toy_shared_def)
  show ?thesis using seeded_store_is_exact[OF run toy_keys init toy_base, unfolded sh] run by blast
qed

text \<open>
  Provisioning is all or nothing: if it fails and its clean-up can remove the directory,
  the disk is as it was before, and a private store that already existed is never touched.
\<close>

theorem provision_leaves_nothing:
  assumes "Provision L io repoRoot shared ls taskID worktreePath privateDir disk = (Inl e, disk')" "pio_RemoveAll io"
  shows "disk' = disk"
  using assms by (auto simp: Provision_def removed_def split: option.splits sum.splits prod.splits if_splits)

theorem provision_leaves_nothing_witness:
  "snd (Provision toy_seed (toy_prov_io\<lparr>pio_HEAD := Some (Errorf ''disk full'')\<rparr>) ''/repo'' (Some toy_shared) NoStore ''MGIT-1'' ''/w'' ''/state/ps'' None) = None"
proof -
  let ?io = "toy_prov_io\<lparr>pio_HEAD := Some (Errorf ''disk full'')\<rparr>"
  have "pio_seed ?io = pio_seed toy_prov_io" "pd_objects toy_priv = []" "pio_Init ?io = Inr toy_priv" "sh_objects toy_shared = toy_objects"
    "pio_MkdirAll ?io = None" "pio_branch ?io = None" "pio_HEAD ?io = Some (Errorf ''disk full'')"
    by (simp_all add: toy_priv_def toy_prov_io_def toy_shared_def)
  then obtain e disk' where run: "Provision toy_seed ?io ''/repo'' (Some toy_shared) NoStore ''MGIT-1'' ''/w'' ''/state/ps'' None = (Inl e, disk')"
    using toy_copy toy_base
    by (simp add: Provision_def seed_store_def generatedList_def ReadGeneratedPathsNoFollow_def Let_def)
  have "pio_RemoveAll ?io" by (simp add: toy_prov_io_def)
  from provision_leaves_nothing[OF run this] show ?thesis using run by simp
qed

text \<open>
  Provisioning succeeds when nothing is wrong: with a shared store whose objects are all
  present, a base that is one of its commits, a valid task id, a readable generated list and
  no disk errors, the walk ends and the store is created.
\<close>

theorem provision_succeeds:
  assumes store: "seed_closed L (pio_seed io) (sh_objects sh)"
    and base: "resolveBase sh (branch_ref taskID) = Inr base"
      "\<exists>ob. map_of (sh_objects sh) base = Some ob \<and> ob_Type ob = ObjCommit"
    and inputs: "ParseTaskID taskID = Inr tid" "generatedList worktreePath ls = Inr generated"
    and disk: "\<forall>h. sio_read (pio_seed io) h = None \<and> sio_write (pio_seed io) h = None" "pio_MkdirAll io = None"
      "pio_Init io = Inr d" "pio_branch io = None" "pio_HEAD io = None" "pio_generated io = file_ok" "pio_task io = file_ok"
  shows "\<exists>d'. Provision L io repoRoot (Some sh) ls taskID worktreePath privateDir None
    = (Inr \<lparr>ps_Dir = privateDir, ps_SharedDir = SharedDir repoRoot\<rparr>, Some d')"
proof -
  have "fst (copyReachable L (pio_seed io) (sh_objects sh) (pd_objects d) base) = None"
    using copy_loop_succeeds[OF store disk(1), of "[\<lparr>oi_hash = base, oi_typ = ObjCommit\<rparr>]"] base(2)
    by (simp add: copyReachable_def del: copy_loop.simps)
  then obtain objs where c: "copyReachable L (pio_seed io) (sh_objects sh) (pd_objects d) base = (None, objs)"
    by (metis prod.collapse)
  obtain fs where g: "WriteGeneratedPathsInStore file_ok generated (pd_files d) = (None, fs)"
    by (cases "generated = []")
       (simp_all add: WriteGeneratedPathsInStore_def writeManifestIn_def, simp add: file_ok_def write_renamed_def)
  have "seed_store L io (sh_objects sh) generated taskID base d = (None, d\<lparr>pd_objects := objs,
       pd_refs := (pd_refs d)(branch_ref taskID \<mapsto> HashReference base, ''HEAD'' \<mapsto> SymbolicReference (branch_ref taskID)),
       pd_files := snd (WriteBoundTaskInStore file_ok taskID fs)\<rparr>)"
    using c g disk inputs(1) by (simp add: seed_store_def Let_def WriteBoundTaskInStore_def)
  then show ?thesis using base inputs disk by (simp add: Provision_def)
qed

theorem provision_succeeds_witness:
  "\<exists>d'. Provision toy_seed toy_prov_io ''/repo'' (Some toy_shared) NoStore ''MGIT-1'' ''/w'' ''/state/ps'' None
    = (Inr \<lparr>ps_Dir = ''/state/ps'', ps_SharedDir = SharedDir ''/repo''\<rparr>, Some d')"
proof -
  have c: "seed_closed toy_seed (pio_seed toy_prov_io) (sh_objects toy_shared)"
    by (auto simp: seed_closed_def seed_eval split: if_splits)
  have b: "\<exists>ob. map_of (sh_objects toy_shared) (toy_hash ObjCommit [1]) = Some ob \<and> ob_Type ob = ObjCommit"
    by (simp add: toy_shared_def toy_objects_def toy_hash_def)
  have g: "generatedList ''/w'' NoStore = Inr []" by (simp add: generatedList_def ReadGeneratedPathsNoFollow_def)
  show ?thesis
    by (rule provision_succeeds[OF c toy_base b toy_task g]) (simp_all add: toy_prov_io_def)
qed

end
