(* ===== verification/Microvm.thy ===== *)
theory Microvm
  imports Guest_Exec Quarantine Provision
begin

text \<open>
  The manager of microVMs (\<open>internal/sandboxd/backend/microvm/manager.go\<close> and \<open>shape.go\<close>): the
  registry of supervised sandboxes, the per-sandbox state directory with its overlay, and the
  operations Launch, Exec, Stop, Remove, List and Resolve. The hypervisor, the image resolver,
  the disk and the guest are arguments, one record of outcomes per call. A launch is split at
  the point where the sandbox becomes visible, so that interleaved launches can be composed
  from its parts.
\<close>

section \<open>Data\<close>

record ImagePaths =
  ip_KernelPath :: string
  ip_RootfsPath :: string
  ip_Cmdline :: string

record VMConfig =
  vc_SandboxID :: string
  vc_StateDir :: string
  vc_TaskID :: string
  vc_CPUs :: int
  vc_MemoryMB :: int
  vc_KernelPath :: string
  vc_RootfsPath :: string
  vc_RootfsReadOnly :: bool
  vc_Cmdline :: string
  vc_OverlayPath :: string
  vc_WorktreePath :: string
  vc_PrivateStorePath :: string
  vc_NoGuestRepo :: bool
  vc_WorktreeTag :: string
  vc_AttachNIC :: bool
  vc_NetworkMode :: string
  vc_NetworkAllowlist :: "string list"
  vc_VsockEnabled :: bool
  vc_BalloonEnabled :: bool
  vc_PublishPorts :: "int list"

text \<open>
  A VM handle: what it answers when it implements \<open>PeerIdentifier\<close>, \<open>NotifyListenerProvider\<close>
  and \<open>ConsoleTailer\<close>, \<open>None\<close> when it does not.
\<close>

record vm_handle =
  vh_PeerIdentity :: "string option"
  vh_NotifySocketPath :: "string option"
  vh_ConsoleTail :: "string option"

text \<open>The configuration; \<open>mc_SharedDir\<close> is the provisioner's shared store, \<open>None\<close> when none is wired.\<close>

record mv_config =
  mc_Backend :: string
  mc_WorkDir :: string
  mc_GuestDialer :: bool
  mc_PeerBinder :: bool
  mc_NotifyRegistrar :: bool
  mc_SharedDir :: "string option"
  mc_SensitivePaths :: "string list"
  mc_NetworkModeCheck :: "(string \<Rightarrow> err option) option"
  mc_GuestReadyTimeout :: int

record sandbox =
  sn_info :: SandboxInfo
  sn_vm :: vm_handle
  sn_dir :: string
  sn_privateStore :: string
  sn_guestReady :: bool

text \<open>
  The manager with what it controls outside its own memory: the state directories (whether each
  holds an overlay), the VMs the hypervisor runs, the peer bindings and the notify listeners.
\<close>

record Manager =
  mv_sandboxes :: "(string \<times> sandbox) list"
  mv_disk :: "string \<rightharpoonup> bool"
  mv_vms :: "string list"
  mv_peers :: "string \<rightharpoonup> string"
  mv_listeners :: "string list"

text \<open>The outcomes of the calls one launch makes.\<close>

record launch_env =
  le_fs :: host_fs
  le_Resolve :: "string \<Rightarrow> ImagePaths result"
  le_stat :: "string \<Rightarrow> bool option"
  le_newID :: "string result"
  le_mkdir :: "err option"
  le_open :: "err option"
  le_truncate :: "err option"
  le_Provision :: "string \<Rightarrow> string \<Rightarrow> string \<Rightarrow> PrivateStore result"
  le_CreateVM :: "VMConfig \<Rightarrow> vm_handle result"
  le_Start :: "err option"
  le_cleanup :: bool
  le_now :: time
  le_Register :: "err option"
  le_probe :: "nat \<Rightarrow> exchange"
  le_Stop :: "err option"
  le_Stop2 :: "err option"
  le_RemoveAll :: "err option"

section \<open>Launch: before the sandbox is visible\<close>

abbreviation (input) BackendKVM :: string where "BackendKVM \<equiv> ''kvm''"
abbreviation (input) BackendVZF :: string where "BackendVZF \<equiv> ''vzf''"
abbreviation (input) BackendLibkrun :: string where "BackendLibkrun \<equiv> ''libkrun''"

definition checkBootShape :: "launch_env \<Rightarrow> string \<Rightarrow> ImagePaths \<Rightarrow> err option" where
  "checkBootShape E backend images =
     (case le_stat E (ip_RootfsPath images) of
        None \<Rightarrow> None
      | Some isDir \<Rightarrow>
          if backend = BackendLibkrun then
            guard_err (\<not> isDir) (Wrap ''the libkrun backend boots a directory guest root'' (Sentinel ErrGuestBaseUnbootable))
          else if backend = BackendKVM \<or> backend = BackendVZF then
            (if isDir then Some (Wrap ''is a directory'' (Sentinel ErrGuestBaseUnbootable))
             else if ip_KernelPath images = [] then Some (Wrap ''has a rootfs but no kernel'' (Sentinel ErrGuestBaseUnbootable))
             else None)
          else None)"

abbreviation (input) stateDirSegmentLen :: nat where "stateDirSegmentLen \<equiv> 8"
abbreviation (input) defaultOverlaySizeMB :: int where "defaultOverlaySizeMB \<equiv> 4096"

definition SandboxStateDir :: "string \<Rightarrow> string \<Rightarrow> string" where
  "SandboxStateDir workDir sandboxID =
     filepath_join [workDir,
       if length sandboxID > stateDirSegmentLen then drop (length sandboxID - stateDirSegmentLen) sandboxID else sandboxID]"

text \<open>\<open>int64(sizeMB) << 20\<close>.\<close>

definition overlay_bytes :: "int \<Rightarrow> int" where
  "overlay_bytes sizeMB = wrap64 ((if sizeMB \<le> 0 then defaultOverlaySizeMB else sizeMB) * 2 ^ 20)"

text \<open>
  \<open>O_EXCL\<close>: an overlay that is already there is an error. A negative size is refused by
  \<open>Truncate\<close>. The file that was created stays when sizing it fails.
\<close>

definition createOverlay :: "launch_env \<Rightarrow> string \<Rightarrow> int \<Rightarrow> (string \<rightharpoonup> bool) \<Rightarrow> string result \<times> (string \<rightharpoonup> bool)" where
  "createOverlay E dir sizeMB disk =
     (case le_mkdir E of
        Some e \<Rightarrow> (Inl (Wrap ''create sandbox dir'' e), disk)
      | None \<Rightarrow>
          (let disk1 = (case disk dir of None \<Rightarrow> disk(dir \<mapsto> False) | Some _ \<Rightarrow> disk) in
           if disk1 dir = Some True then (Inl (Wrap ''create overlay'' (Errorf ''file exists'')), disk1)
           else (case le_open E of
             Some e \<Rightarrow> (Inl (Wrap ''create overlay'' e), disk1)
           | None \<Rightarrow>
               (let disk2 = disk1(dir \<mapsto> True) in
                if overlay_bytes sizeMB < 0 then (Inl (Wrap ''size overlay'' (Errorf ''invalid argument'')), disk2)
                else (case le_truncate E of
                  Some e \<Rightarrow> (Inl (Wrap ''size overlay'' e), disk2)
                | None \<Rightarrow> (Inr (filepath_join [dir, ''overlay.img'']), disk2))))))"

definition quarantine :: "mv_config \<Rightarrow> launch_env \<Rightarrow> string \<Rightarrow> string \<Rightarrow> string \<Rightarrow> string result" where
  "quarantine C E taskID worktreePath stateDir =
     (if mc_SharedDir C = None then Inr []
      else (case le_Provision E taskID worktreePath (filepath_join [stateDir, ''private-store'']) of
        Inl e \<Rightarrow> Inl (Wrap ''provision private store'' e)
      | Inr store \<Rightarrow>
          (case BuildPlan (le_fs E) worktreePath (mc_SensitivePaths C) of
             Inl e \<Rightarrow> Inl (Wrap ''build quarantine plan'' e)
           | Inr plan \<Rightarrow>
               (case BindPrivateStore (le_fs E) plan (ps_Dir store) (ps_SharedDir store) of
                  Inl e \<Rightarrow> Inl (Wrap ''bind private store'' e)
                | Inr _ \<Rightarrow> Inr (ps_Dir store)))))"

definition guestPublishPorts :: "PortPublish list \<Rightarrow> int list" where
  "guestPublishPorts ports = map GuestPort ports"

definition vmConfig :: "string \<Rightarrow> string \<Rightarrow> SandboxLaunchOptions \<Rightarrow> ImagePaths \<Rightarrow> string \<Rightarrow> string \<Rightarrow> VMConfig" where
  "vmConfig i stateDir opts images overlay privateStore =
     \<lparr>vc_SandboxID = i, vc_StateDir = stateDir, vc_TaskID = lo_TaskID opts, vc_CPUs = lo_CPUs opts,
      vc_MemoryMB = lo_MemoryMB opts, vc_KernelPath = ip_KernelPath images, vc_RootfsPath = ip_RootfsPath images,
      vc_RootfsReadOnly = True, vc_Cmdline = ip_Cmdline images, vc_OverlayPath = overlay,
      vc_WorktreePath = lo_WorktreePath opts, vc_PrivateStorePath = privateStore, vc_NoGuestRepo = lo_NoGuestRepo opts,
      vc_WorktreeTag = ''work'', vc_AttachNIC = (np_Mode (lo_Network opts) \<noteq> NetworkModeNone),
      vc_NetworkMode = np_Mode (lo_Network opts), vc_NetworkAllowlist = np_Allowlist (lo_Network opts),
      vc_VsockEnabled = True, vc_BalloonEnabled = True, vc_PublishPorts = guestPublishPorts (lo_PublishPorts opts)\<rparr>"

definition GuestRepo :: "VMConfig \<Rightarrow> bool" where
  "GuestRepo c = (\<not> vc_NoGuestRepo c)"

definition imageDigest :: "string \<Rightarrow> string" where
  "imageDigest imageRef = (case cut CHR ''@'' imageRef of None \<Rightarrow> [] | Some (_, digest) \<Rightarrow> digest)"

definition newSandboxInfo :: "mv_config \<Rightarrow> time \<Rightarrow> string \<Rightarrow> SandboxLaunchOptions \<Rightarrow> SandboxInfo" where
  "newSandboxInfo C now i opts =
     \<lparr>si_ID = i, si_TaskID = lo_TaskID opts, si_WorktreePath = lo_WorktreePath opts, si_Backend = mc_Backend C,
      si_ImageDigest = imageDigest (lo_ImageRef opts), si_NetworkMode = np_Mode (lo_Network opts),
      si_NetworkAllowlist = np_Allowlist (lo_Network opts), si_State = StateRunning, si_MemoryMB = lo_MemoryMB opts,
      si_CPUs = 0, si_DiskQuotaMB = 0, si_CreatedAt = now,
      si_ExpiresAt = (if lo_TTL opts > 0 then now + lo_TTL opts else zero_time),
      si_PublishPorts = lo_PublishPorts opts, si_LastBootFailure = None\<rparr>"

text \<open>\<open>_ = os.RemoveAll(dir)\<close>, whose failure is ignored.\<close>

definition clean_dir :: "launch_env \<Rightarrow> string \<Rightarrow> Manager \<Rightarrow> Manager" where
  "clean_dir E dir st = (if le_cleanup E then st\<lparr>mv_disk := (mv_disk st)(dir := None)\<rparr> else st)"

definition launch_id :: "launch_env \<Rightarrow> SandboxLaunchOptions \<Rightarrow> string result" where
  "launch_id E opts = (if lo_SandboxID opts \<noteq> [] then Inr (lo_SandboxID opts) else le_newID E)"

text \<open>From the state directory to a started VM.\<close>

definition launch_vm :: "mv_config \<Rightarrow> launch_env \<Rightarrow> SandboxLaunchOptions \<Rightarrow> ImagePaths \<Rightarrow> string \<Rightarrow> string \<Rightarrow> Manager \<Rightarrow> sandbox result \<times> Manager" where
  "launch_vm C E opts images i overlay st =
     (let dir = SandboxStateDir (mc_WorkDir C) i in
      case quarantine C E (lo_TaskID opts) (lo_WorktreePath opts) dir of
        Inl e \<Rightarrow> (Inl (Wrap ''launch'' e), clean_dir E dir st)
      | Inr privateStore \<Rightarrow>
          (case le_CreateVM E (vmConfig i dir opts images overlay privateStore) of
             Inl e \<Rightarrow> (Inl (Wrap ''launch: create vm'' e), clean_dir E dir st)
           | Inr vm \<Rightarrow>
               (case le_Start E of
                  Some e \<Rightarrow> (Inl (Wrap ''launch: start vm'' e), clean_dir E dir st)
                | None \<Rightarrow>
                    (Inr \<lparr>sn_info = newSandboxInfo C (le_now E) i opts, sn_vm = vm, sn_dir = dir,
                          sn_privateStore = privateStore, sn_guestReady = False\<rparr>,
                     st\<lparr>mv_vms := i # mv_vms st\<rparr>))))"

definition launch_start :: "mv_config \<Rightarrow> launch_env \<Rightarrow> SandboxLaunchOptions \<Rightarrow> Manager \<Rightarrow> (string \<times> sandbox) result \<times> Manager" where
  "launch_start C E opts st =
     (case SandboxLaunchOptions_Validate opts of
        Some e \<Rightarrow> (Inl (Wrap ''launch'' e), st)
      | None \<Rightarrow>
          (case le_Resolve E (lo_ImageRef opts) of
             Inl e \<Rightarrow> (Inl (Wrap ''launch: resolve image'' e), st)
           | Inr images \<Rightarrow>
               (case checkBootShape E (mc_Backend C) images of
                  Some e \<Rightarrow> (Inl (Wrap ''launch'' e), st)
                | None \<Rightarrow>
                    (case launch_id E opts of
                       Inl e \<Rightarrow> (Inl (Wrap ''launch'' e), st)
                     | Inr i \<Rightarrow>
                         (case createOverlay E (SandboxStateDir (mc_WorkDir C) i) (lo_DiskQuotaMB opts) (mv_disk st) of
                            (Inl e, disk) \<Rightarrow> (Inl (Wrap ''launch'' e), st\<lparr>mv_disk := disk\<rparr>)
                          | (Inr overlay, disk) \<Rightarrow>
                              (case launch_vm C E opts images i overlay (st\<lparr>mv_disk := disk\<rparr>) of
                                 (Inl e, st1) \<Rightarrow> (Inl e, st1)
                               | (Inr sb, st1) \<Rightarrow> (Inr (i, sb), st1)))))))"

section \<open>Launch: visible\<close>

definition peerIdentity :: "vm_handle \<Rightarrow> string \<Rightarrow> string" where
  "peerIdentity vm sandboxID = (case vh_PeerIdentity vm of Some p \<Rightarrow> p | None \<Rightarrow> sandboxID)"

definition registerNotify :: "mv_config \<Rightarrow> launch_env \<Rightarrow> vm_handle \<Rightarrow> string \<Rightarrow> Manager \<Rightarrow> Manager" where
  "registerNotify C E vm sandboxID st =
     (if \<not> mc_NotifyRegistrar C then st
      else (case vh_NotifySocketPath vm of
        None \<Rightarrow> st
      | Some socketPath \<Rightarrow>
          if socketPath = [] then st
          else (case le_Register E of
                  Some _ \<Rightarrow> st
                | None \<Rightarrow> st\<lparr>mv_listeners := sandboxID # mv_listeners st\<rparr>)))"

definition launch_register :: "mv_config \<Rightarrow> launch_env \<Rightarrow> string \<Rightarrow> sandbox \<Rightarrow> Manager \<Rightarrow> Manager" where
  "launch_register C E i sb st =
     (let st1 = st\<lparr>mv_sandboxes := AList.update i sb (mv_sandboxes st)\<rparr>;
          st2 = (if mc_PeerBinder C then st1\<lparr>mv_peers := (mv_peers st1)(i \<mapsto> peerIdentity (sn_vm sb) i)\<rparr> else st1)
      in registerNotify C E (sn_vm sb) i st2)"

definition stop_vm :: "string \<Rightarrow> err option \<Rightarrow> Manager \<Rightarrow> Manager" where
  "stop_vm i outcome st = (case outcome of None \<Rightarrow> st\<lparr>mv_vms := removeAll i (mv_vms st)\<rparr> | Some _ \<Rightarrow> st)"

definition mgr_Stop :: "err option \<Rightarrow> string \<Rightarrow> Manager \<Rightarrow> err option \<times> Manager" where
  "mgr_Stop vm_stop i st =
     (case map_of (mv_sandboxes st) i of
        None \<Rightarrow> (Some (Wrap i (Sentinel ErrSandboxNotFound)), st)
      | Some sb \<Rightarrow>
          (case vm_stop of
             Some e \<Rightarrow> (Some (Wrap ''stop'' e), st)
           | None \<Rightarrow>
               (None, (stop_vm i None st)\<lparr>mv_sandboxes :=
                  AList.update i (sb\<lparr>sn_info := (sn_info sb)\<lparr>si_State := StateSuspended\<rparr>\<rparr>) (mv_sandboxes st)\<rparr>)))"

definition mgr_Remove :: "mv_config \<Rightarrow> err option \<Rightarrow> err option \<Rightarrow> string \<Rightarrow> bool \<Rightarrow> Manager \<Rightarrow> err option \<times> Manager" where
  "mgr_Remove C vm_stop remove_all i force st =
     (case map_of (mv_sandboxes st) i of
        None \<Rightarrow> (Some (Wrap i (Sentinel ErrSandboxNotFound)), st)
      | Some sb \<Rightarrow>
          (let running = (si_State (sn_info sb) = StateRunning) in
           if running \<and> vm_stop \<noteq> None \<and> \<not> force then (Some (Wrap ''remove: stop'' (the vm_stop)), st)
           else (let st1 = (if running then stop_vm i vm_stop st else st) in
             case remove_all of
               Some e \<Rightarrow> (Some (Wrap ''remove: clear sandbox dir'' e), st1)
             | None \<Rightarrow>
                 (None, st1\<lparr>mv_disk := (mv_disk st1)(sn_dir sb := None),
                            mv_sandboxes := AList.delete i (mv_sandboxes st1),
                            mv_peers := (if mc_PeerBinder C then (mv_peers st1)(i := None) else mv_peers st1),
                            mv_listeners := (if mc_NotifyRegistrar C then removeAll i (mv_listeners st1) else mv_listeners st1)\<rparr>))))"

definition join_errs :: "err option list \<Rightarrow> err option" where
  "join_errs es = (case concat (map (\<lambda>e. case e of None \<Rightarrow> [] | Some x \<Rightarrow> [x]) es) of
                     [] \<Rightarrow> None | x # xs \<Rightarrow> Some (foldl Wrap2 x xs))"

definition confirmGuestServing :: "mv_config \<Rightarrow> launch_env \<Rightarrow> string \<Rightarrow> Manager \<Rightarrow> err option \<times> Manager" where
  "confirmGuestServing C E i st =
     (if \<not> mc_GuestDialer C then (None, st)
      else (case awaitGuestServing (le_probe E) (mc_GuestReadyTimeout C) (le_now E) of
        (None, _) \<Rightarrow> (None, st)
      | (Some e, _) \<Rightarrow>
          (case mgr_Stop (le_Stop E) i st of
             (e1, st1) \<Rightarrow>
               (case mgr_Remove C (le_Stop2 E) (le_RemoveAll E) i True st1 of
                  (e2, st2) \<Rightarrow> (join_errs [Some (Wrap ''launch'' e), e1, e2], st2)))))"

definition mgr_Launch :: "mv_config \<Rightarrow> launch_env \<Rightarrow> SandboxLaunchOptions \<Rightarrow> Manager \<Rightarrow> SandboxInfo result \<times> Manager" where
  "mgr_Launch C E opts st =
     (case launch_start C E opts st of
        (Inl e, st1) \<Rightarrow> (Inl e, st1)
      | (Inr (i, sb), st1) \<Rightarrow>
          (case confirmGuestServing C E i (launch_register C E i sb st1) of
             (Some e, st2) \<Rightarrow> (Inl e, st2)
           | (None, st2) \<Rightarrow> (Inr (sn_info sb), st2)))"

section \<open>The other operations\<close>

definition SupportsNetworkMode :: "mv_config \<Rightarrow> string \<Rightarrow> err option" where
  "SupportsNetworkMode C mode = (case mc_NetworkModeCheck C of None \<Rightarrow> None | Some f \<Rightarrow> f mode)"

definition CheckWorktreeLayout :: "mv_config \<Rightarrow> host_fs \<Rightarrow> string \<Rightarrow> err option" where
  "CheckWorktreeLayout C fs worktreePath =
     (case mc_SharedDir C of None \<Rightarrow> None | Some shared \<Rightarrow> CheckSharedStore fs worktreePath shared)"

definition mgr_List :: "Manager \<Rightarrow> SandboxInfo list" where
  "mgr_List st = map (sn_info \<circ> snd) (mv_sandboxes st)"

definition mgr_Resolve :: "string \<Rightarrow> Manager \<Rightarrow> SandboxInfo result" where
  "mgr_Resolve i st =
     (case map_of (mv_sandboxes st) i of
        Some sb \<Rightarrow> Inr (sn_info sb)
      | None \<Rightarrow> Inl (Wrap i (Sentinel ErrSandboxNotFound)))"

text \<open>
  Exec; the synchronisation of the worktree before the command is an argument. The exchanges
  carry their own answer to \<open>guestNeverAnswered\<close>; a served command closes the retry window.
\<close>

definition mgr_Exec :: "mv_config \<Rightarrow> err option \<Rightarrow> (nat \<Rightarrow> exchange) \<Rightarrow> int \<Rightarrow> string \<Rightarrow> ExecRequest \<Rightarrow> Manager \<Rightarrow> ExecResult result \<times> Manager" where
  "mgr_Exec C sync_err att now i req st =
     (case ExecRequest_Validate req of
        Some e \<Rightarrow> (Inl (Wrap ''exec'' e), st)
      | None \<Rightarrow>
          (case map_of (mv_sandboxes st) i of
             None \<Rightarrow> (Inl (Wrap i (Sentinel ErrSandboxNotFound)), st)
           | Some sb \<Rightarrow>
               if si_State (sn_info sb) \<noteq> StateRunning then (Inl (Wrap i (Sentinel ErrSandboxNotRunning)), st)
               else (case sync_err of
                 Some e \<Rightarrow> (Inl e, st)
               | None \<Rightarrow>
                   if \<not> mc_GuestDialer C then (Inl (Wrap ''exec requires the guest vsock transport'' (Sentinel ErrSandboxBackendUnavailable)), st)
                   else (case execUntilTheGuestAnswers att (mc_GuestReadyTimeout C) now of
                     (Inl e, _) \<Rightarrow> (Inl e, st)
                   | (Inr r, _) \<Rightarrow>
                       (Inr r, st\<lparr>mv_sandboxes := AList.update i (sb\<lparr>sn_guestReady := True\<rparr>) (mv_sandboxes st)\<rparr>)))))"

definition guestNeverAnswered :: "string \<Rightarrow> Manager \<Rightarrow> bool" where
  "guestNeverAnswered i st = (case map_of (mv_sandboxes st) i of Some sb \<Rightarrow> \<not> sn_guestReady sb | None \<Rightarrow> False)"

section \<open>Interleaved operations\<close>

text \<open>
  The manager's lock covers single accesses to the registry, so launches overlap each other and
  the other operations. A system state is the manager with the launches that have a started VM
  but are not yet visible; every step is one operation or one part of a launch.
\<close>

type_synonym mv_sys = "Manager \<times> (string \<times> sandbox) list"

inductive mv_step :: "mv_config \<Rightarrow> mv_sys \<Rightarrow> mv_sys \<Rightarrow> bool" for C where
  start: "launch_start C E opts st = (Inr (i, sb), st') \<Longrightarrow> mv_step C (st, pend) (st', (i, sb) # pend)"
| start_fails: "launch_start C E opts st = (Inl e, st') \<Longrightarrow> mv_step C (st, pend) (st', pend)"
| register: "mv_step C (st, us @ (i, sb) # vs) (launch_register C E i sb st, us @ vs)"
| confirm: "confirmGuestServing C E i st = (r, st') \<Longrightarrow> mv_step C (st, pend) (st', pend)"
| stop: "mgr_Stop out i st = (r, st') \<Longrightarrow> mv_step C (st, pend) (st', pend)"
| remove: "mgr_Remove C out rm i force st = (r, st') \<Longrightarrow> mv_step C (st, pend) (st', pend)"
| exec: "mgr_Exec C sync att now i req st = (r, st') \<Longrightarrow> mv_step C (st, pend) (st', pend)"

inductive_cases mv_stepE: "mv_step C s s'"

text \<open>Every owned directory, registered or pending, holds its overlay and has one owner.\<close>

definition owned :: "mv_sys \<Rightarrow> (string \<times> sandbox) list" where
  "owned s = mv_sandboxes (fst s) @ snd s"

definition mv_inv :: "mv_config \<Rightarrow> mv_sys \<Rightarrow> bool" where
  "mv_inv C s \<longleftrightarrow> distinct (map (sn_dir \<circ> snd) (owned s))
     \<and> (\<forall>(i, sb) \<in> set (owned s). sn_dir sb = SandboxStateDir (mc_WorkDir C) i \<and> mv_disk (fst s) (sn_dir sb) = Some True
          \<and> si_ID (sn_info sb) = i)"

lemma mv_invD:
  assumes "mv_inv C s"
  shows "distinct (map (sn_dir \<circ> snd) (owned s))" "(i, sb) \<in> set (owned s) \<Longrightarrow> sn_dir sb = SandboxStateDir (mc_WorkDir C) i"
    "(i, sb) \<in> set (owned s) \<Longrightarrow> mv_disk (fst s) (SandboxStateDir (mc_WorkDir C) i) = Some True"
    "(i, sb) \<in> set (owned s) \<Longrightarrow> si_ID (sn_info sb) = i"
  using assms by (simp_all add: mv_inv_def) (fastforce+)

lemma mv_inv_keys:
  assumes "mv_inv C s"
  shows "distinct (map fst (owned s))"
proof -
  have "map (sn_dir \<circ> snd) (owned s) = map (SandboxStateDir (mc_WorkDir C)) (map fst (owned s))"
    using mv_invD(2)[OF assms] by auto
  then have "distinct (map (SandboxStateDir (mc_WorkDir C)) (map fst (owned s)))" using mv_invD(1)[OF assms] by (simp only:)
  then show ?thesis by (rule distinct_map[THEN iffD1, THEN conjunct1])
qed

lemma createOverlay_disk:
  assumes "createOverlay E dir sizeMB disk = (r, disk')"
  shows "\<forall>d. d \<noteq> dir \<longrightarrow> disk' d = disk d" "disk dir = Some True \<Longrightarrow> disk' = disk \<and> (\<exists>e. r = Inl e)"
    "r = Inr x \<Longrightarrow> disk dir \<noteq> Some True \<and> disk' dir = Some True"
  using assms by (auto simp: createOverlay_def Let_def split: option.splits if_splits)

lemma launch_vm_cases:
  assumes "launch_vm C E opts images i overlay st = (r, st')"
  shows "mv_sandboxes st' = mv_sandboxes st" "mv_peers st' = mv_peers st" "mv_listeners st' = mv_listeners st"
    "\<forall>d. d \<noteq> SandboxStateDir (mc_WorkDir C) i \<longrightarrow> mv_disk st' d = mv_disk st d"
    "r = Inr sb \<Longrightarrow> mv_disk st' = mv_disk st \<and> sn_dir sb = SandboxStateDir (mc_WorkDir C) i
       \<and> sn_info sb = newSandboxInfo C (le_now E) i opts \<and> mv_vms st' = i # mv_vms st"
    "r = Inl e \<Longrightarrow> st' = clean_dir E (SandboxStateDir (mc_WorkDir C) i) st"
  using assms by (auto simp: launch_vm_def clean_dir_def Let_def split: sum.splits option.splits if_splits)

lemma launch_start_cases:
  assumes "launch_start C E opts st = (r, st')"
  obtains (early) e where "r = Inl e" "st' = st"
    | (overlay) e e' j disk where "createOverlay E (SandboxStateDir (mc_WorkDir C) j) (lo_DiskQuotaMB opts) (mv_disk st) = (Inl e, disk)"
        "st' = st\<lparr>mv_disk := disk\<rparr>" "r = Inl e'" "launch_id E opts = Inr j"
    | (vm) j ov disk images r1 where "createOverlay E (SandboxStateDir (mc_WorkDir C) j) (lo_DiskQuotaMB opts) (mv_disk st) = (Inr ov, disk)"
        "launch_vm C E opts images j ov (st\<lparr>mv_disk := disk\<rparr>) = (r1, st')" "r = (case r1 of Inl e \<Rightarrow> Inl e | Inr sb \<Rightarrow> Inr (j, sb))"
        "launch_id E opts = Inr j"
proof (cases "SandboxLaunchOptions_Validate opts")
  case v: None
  show thesis
  proof (cases "le_Resolve E (lo_ImageRef opts)")
    case im: (Inr images)
    show thesis
    proof (cases "checkBootShape E (mc_Backend C) images")
      case sh: None
      show thesis
      proof (cases "launch_id E opts")
        case j: (Inr j)
        obtain r0 disk where o: "createOverlay E (SandboxStateDir (mc_WorkDir C) j) (lo_DiskQuotaMB opts) (mv_disk st) = (r0, disk)"
          by fastforce
        show thesis
        proof (cases r0)
          case (Inl e)
          then show thesis using overlay[of j e disk] assms v im sh j o by (auto simp: launch_start_def)
        next
          case (Inr ov)
          obtain r1 st1 where l: "launch_vm C E opts images j ov (st\<lparr>mv_disk := disk\<rparr>) = (r1, st1)" by fastforce
          then have "r = (case r1 of Inl e \<Rightarrow> Inl e | Inr sb \<Rightarrow> Inr (j, sb)) \<and> st' = st1"
            using assms v im sh j o Inr by (cases r1) (auto simp: launch_start_def)
          then show thesis using vm[of j ov disk images r1] o Inr l j by simp
        qed
      next
        case (Inl e)
        then have "(\<exists>e. r = Inl e) \<and> st' = st" using assms v im sh by (auto simp: launch_start_def)
        then show thesis using early by blast
      qed
    next
      case (Some e)
      then have "(\<exists>e. r = Inl e) \<and> st' = st" using assms v im by (auto simp: launch_start_def)
      then show thesis using early by blast
    qed
  next
    case (Inl e)
    then have "(\<exists>e. r = Inl e) \<and> st' = st" using assms v by (auto simp: launch_start_def)
    then show thesis using early by blast
  qed
next
  case (Some e)
  then have "(\<exists>e. r = Inl e) \<and> st' = st" using assms  by (auto simp: launch_start_def)
  then show thesis using early by blast
qed

lemma launch_start_frame:
  assumes "launch_start C E opts st = (r, st')"
  shows "mv_sandboxes st' = mv_sandboxes st" "mv_disk st d = Some True \<Longrightarrow> mv_disk st' d = Some True"
    "r = Inr (i, sb) \<Longrightarrow> sn_dir sb = SandboxStateDir (mc_WorkDir C) i \<and> mv_disk st (sn_dir sb) \<noteq> Some True
       \<and> mv_disk st' (sn_dir sb) = Some True \<and> si_ID (sn_info sb) = i \<and> si_MemoryMB (sn_info sb) = lo_MemoryMB opts"
proof -
  have all: "mv_sandboxes st' = mv_sandboxes st \<and> (mv_disk st d = Some True \<longrightarrow> mv_disk st' d = Some True)
    \<and> (\<forall>i sb. r = Inr (i, sb) \<longrightarrow> sn_dir sb = SandboxStateDir (mc_WorkDir C) i \<and> mv_disk st (sn_dir sb) \<noteq> Some True
       \<and> mv_disk st' (sn_dir sb) = Some True \<and> si_ID (sn_info sb) = i \<and> si_MemoryMB (sn_info sb) = lo_MemoryMB opts)"
    using assms
  proof (cases rule: launch_start_cases)
    case (overlay e e' j disk)
    have "mv_disk st d = Some True \<Longrightarrow> disk d = Some True"
      using createOverlay_disk(1,2)[OF overlay(1)] by (cases "d = SandboxStateDir (mc_WorkDir C) j") auto
    then show ?thesis using overlay by auto
  next
    case (vm j ov disk images r1)
    note o = createOverlay_disk[OF vm(1)] and v = launch_vm_cases[OF vm(2)]
    have A: "mv_disk st' d = Some True" if "mv_disk st d = Some True"
      using o(1) o(3)[OF refl] v(4) that by (cases "d = SandboxStateDir (mc_WorkDir C) j") auto
    have B: "sn_dir sb = SandboxStateDir (mc_WorkDir C) i \<and> mv_disk st (sn_dir sb) \<noteq> Some True
       \<and> mv_disk st' (sn_dir sb) = Some True \<and> si_ID (sn_info sb) = i \<and> si_MemoryMB (sn_info sb) = lo_MemoryMB opts" if r: "r = Inr (i, sb)" for i sb
    proof -
      have "r1 = Inr sb" "j = i" using r vm(3) by (cases r1; simp)+
      then show ?thesis using v(5)[of sb] o(3)[OF refl] by (simp add: newSandboxInfo_def)
    qed
    have "mv_sandboxes st' = mv_sandboxes st" using v(1) by simp
    moreover have "\<forall>i sb. r = Inr (i, sb) \<longrightarrow> sn_dir sb = SandboxStateDir (mc_WorkDir C) i \<and> mv_disk st (sn_dir sb) \<noteq> Some True
       \<and> mv_disk st' (sn_dir sb) = Some True \<and> si_ID (sn_info sb) = i \<and> si_MemoryMB (sn_info sb) = lo_MemoryMB opts"
      by (intro allI impI B)
    ultimately show ?thesis using A by blast
  qed auto
  show "mv_sandboxes st' = mv_sandboxes st" by (rule all[THEN conjunct1])
  show "mv_disk st d = Some True \<Longrightarrow> mv_disk st' d = Some True" by (rule all[THEN conjunct2, THEN conjunct1, rule_format])
  show "r = Inr (i, sb) \<Longrightarrow> sn_dir sb = SandboxStateDir (mc_WorkDir C) i \<and> mv_disk st (sn_dir sb) \<noteq> Some True
       \<and> mv_disk st' (sn_dir sb) = Some True \<and> si_ID (sn_info sb) = i \<and> si_MemoryMB (sn_info sb) = lo_MemoryMB opts"
    by (rule all[THEN conjunct2, THEN conjunct2, rule_format])
qed

lemma alist_update_new: "i \<notin> fst ` set xs \<Longrightarrow> AList.update i v xs = xs @ [(i, v)]"
  by (induction xs) auto

lemma alist_update_mem: "(i, v) \<in> set (AList.update i v xs)"
  by (induction xs) auto

lemma alist_update_append: "i \<notin> fst ` set xs \<Longrightarrow> AList.update i v (xs @ ys) = xs @ AList.update i v ys"
  by (induction xs) auto

lemma alist_update_dirs:
  "map_of xs i = Some sb \<Longrightarrow> sn_dir sb' = sn_dir sb \<Longrightarrow> map (sn_dir \<circ> snd) (AList.update i sb' xs) = map (sn_dir \<circ> snd) xs"
  by (induction xs) (auto split: if_splits)

lemma alist_update_set: "(j, x) \<in> set (AList.update i v xs) \<Longrightarrow> (j, x) = (i, v) \<or> (j, x) \<in> set xs"
  by (induction xs) (auto split: if_splits)

lemma mv_invI:
  assumes "distinct (map (sn_dir \<circ> snd) (owned s))"
    "\<And>i sb. (i, sb) \<in> set (owned s) \<Longrightarrow> sn_dir sb = SandboxStateDir (mc_WorkDir C) i"
    "\<And>i sb. (i, sb) \<in> set (owned s) \<Longrightarrow> mv_disk (fst s) (SandboxStateDir (mc_WorkDir C) i) = Some True"
    "\<And>i sb. (i, sb) \<in> set (owned s) \<Longrightarrow> si_ID (sn_info sb) = i"
  shows "mv_inv C s"
  using assms by (auto simp: mv_inv_def)

text \<open>An operation that replaces one entry by one with the same directory and id keeps the invariant.\<close>

lemma mv_inv_replace:
  assumes "mv_inv C (st, pend)" "map_of (mv_sandboxes st) i = Some sb" "sn_dir sb' = sn_dir sb"
    "si_ID (sn_info sb') = si_ID (sn_info sb)" "mv_sandboxes st' = AList.update i sb' (mv_sandboxes st)" "mv_disk st' = mv_disk st"
  shows "mv_inv C (st', pend)"
proof -
  note I = mv_invD[OF assms(1)]
  have old: "(i, sb) \<in> set (owned (st, pend))" using assms(2) map_of_SomeD by (fastforce simp: owned_def)
  have dirs: "map (sn_dir \<circ> snd) (owned (st', pend)) = map (sn_dir \<circ> snd) (owned (st, pend))"
    using alist_update_dirs[OF assms(2,3)] assms(5) by (simp add: owned_def)
  have new: "(j, x) = (i, sb') \<or> (j, x) \<in> set (owned (st, pend))" if "(j, x) \<in> set (owned (st', pend))" for j x
    using that alist_update_set[of j x i sb' "mv_sandboxes st"] assms(5) by (auto simp: owned_def)
  show ?thesis
  proof (rule mv_invI)
    show "distinct (map (sn_dir \<circ> snd) (owned (st', pend)))" unfolding dirs by (rule I(1))
    fix j x assume "(j, x) \<in> set (owned (st', pend))"
    then consider "j = i" "x = sb'" | "(j, x) \<in> set (owned (st, pend))" using new by blast
    then show "sn_dir x = SandboxStateDir (mc_WorkDir C) j" "mv_disk (fst (st', pend)) (SandboxStateDir (mc_WorkDir C) j) = Some True"
      "si_ID (sn_info x) = j"
      using I(2-4) old assms(3,4,6) by (cases; simp)+
  qed
qed

lemma mv_inv_frame:
  assumes "mv_inv C (st, pend)" "mv_sandboxes st' = mv_sandboxes st" "\<And>d. mv_disk st d = Some True \<Longrightarrow> mv_disk st' d = Some True"
  shows "mv_inv C (st', pend)"
  using mv_invD[OF assms(1)] assms(2,3) by (intro mv_invI) (auto simp: owned_def)

lemma mgr_Stop_inv:
  assumes "mgr_Stop out i st = (r, st')" "mv_inv C (st, pend)"
  shows "mv_inv C (st', pend)"
proof (cases "map_of (mv_sandboxes st) i")
  case (Some sb)
  show ?thesis
  proof (cases out)
    case None
    let ?sb = "sb\<lparr>sn_info := (sn_info sb)\<lparr>si_State := StateSuspended\<rparr>\<rparr>"
    have "st' = (stop_vm i None st)\<lparr>mv_sandboxes := AList.update i ?sb (mv_sandboxes st)\<rparr>"
      using assms(1) Some None by (simp add: mgr_Stop_def)
    then show ?thesis by (intro mv_inv_replace[OF assms(2) Some, of ?sb]) (simp_all add: stop_vm_def)
  qed (use assms Some in \<open>simp add: mgr_Stop_def\<close>)
qed (use assms in \<open>simp add: mgr_Stop_def\<close>)

lemma mgr_Remove_inv:
  assumes "mgr_Remove C' out rm i force st = (r, st')" "mv_inv C (st, pend)"
  shows "mv_inv C (st', pend)"
proof (cases "map_of (mv_sandboxes st) i")
  case (Some sb)
  note I = mv_invD[OF assms(2)]
  have old: "(i, sb) \<in> set (owned (st, pend))" using Some map_of_SomeD by (fastforce simp: owned_def)
  show ?thesis
  proof (cases "r = None")
    case False
    then have "mv_sandboxes st' = mv_sandboxes st \<and> mv_disk st' = mv_disk st"
      using assms(1) Some by (auto simp: mgr_Remove_def Let_def stop_vm_def split: if_splits option.splits)
    then show ?thesis using mv_inv_frame[OF assms(2)] by simp
  next
    case True
    then have st': "mv_sandboxes st' = AList.delete i (mv_sandboxes st)" "mv_disk st' = (mv_disk st)(sn_dir sb := None)"
      using assms(1) Some by (auto simp: mgr_Remove_def Let_def stop_vm_def split: if_splits option.splits)
    have keys: "distinct (map fst (owned (st, pend)))" by (rule mv_inv_keys[OF assms(2)])
    have sub: "(j, x) \<in> set (owned (st, pend)) \<and> j \<noteq> i" if "(j, x) \<in> set (owned (st', pend))" for j x
      using that st'(1) keys old Some map_of_SomeD[OF Some] by (auto simp: owned_def AList.delete_eq rev_image_eqI)
    have "map (sn_dir \<circ> snd) (owned (st', pend)) = map (sn_dir \<circ> snd) (filter (\<lambda>(k, _). i \<noteq> k) (mv_sandboxes st)) @ map (sn_dir \<circ> snd) pend"
      using st'(1) by (simp add: owned_def AList.delete_eq)
    moreover have "distinct (map (sn_dir \<circ> snd) (filter (\<lambda>(k, _). i \<noteq> k) (mv_sandboxes st)))"
      using I(1) by (intro distinct_map_filter) (simp add: owned_def)
    moreover have "set (map (sn_dir \<circ> snd) (filter (\<lambda>(k, _). i \<noteq> k) (mv_sandboxes st))) \<subseteq> set (map (sn_dir \<circ> snd) (mv_sandboxes st))"
      by auto
    moreover have "distinct (map (sn_dir \<circ> snd) (mv_sandboxes st) @ map (sn_dir \<circ> snd) pend)" using I(1) by (simp add: owned_def)
    ultimately have D: "distinct (map (sn_dir \<circ> snd) (owned (st', pend)))" unfolding distinct_append by (simp only: distinct_append) blast
    have K: "mv_disk st' (SandboxStateDir (mc_WorkDir C) j) = Some True" if "(j, x) \<in> set (owned (st', pend))" for j x
    proof -
      have jx: "(j, x) \<in> set (owned (st, pend))" "j \<noteq> i" using sub[OF that] by auto
      then have "sn_dir x \<noteq> sn_dir sb" using I(1) old inj_onD[of "sn_dir \<circ> snd" "set (owned (st, pend))" "(j, x)" "(i, sb)"]
        by (auto simp: distinct_map)
      then show ?thesis using I(2,3)[OF jx(1)] st'(2) by auto
    qed
    show ?thesis
    proof (rule mv_invI)
      show "distinct (map (sn_dir \<circ> snd) (owned (st', pend)))" by (rule D)
      fix j x assume jx: "(j, x) \<in> set (owned (st', pend))"
      show "mv_disk (fst (st', pend)) (SandboxStateDir (mc_WorkDir C) j) = Some True" using K[OF jx] by simp
      show "sn_dir x = SandboxStateDir (mc_WorkDir C) j" "si_ID (sn_info x) = j" using sub[OF jx] I(2,4) by simp_all
    qed
  qed
qed (use assms in \<open>simp add: mgr_Remove_def\<close>)

lemma launch_register_inv:
  assumes "mv_inv C (st, us @ (i, sb) # vs)"
  shows "mv_inv C (launch_register C' E i sb st, us @ vs)"
proof -
  have "i \<notin> fst ` set (mv_sandboxes st)" using mv_inv_keys[OF assms] by (auto simp: owned_def)
  then have st': "mv_sandboxes (launch_register C' E i sb st) = mv_sandboxes st @ [(i, sb)]"
    "mv_disk (launch_register C' E i sb st) = mv_disk st"
    by (auto simp: launch_register_def registerNotify_def Let_def alist_update_new split: option.splits)
  have m: "mset (owned (launch_register C' E i sb st, us @ vs)) = mset (owned (st, us @ (i, sb) # vs))"
    using st'(1) by (simp add: owned_def)
  have "set (owned (launch_register C' E i sb st, us @ vs)) = set (owned (st, us @ (i, sb) # vs))" by (rule mset_eq_setD[OF m])
  moreover have "distinct (map (sn_dir \<circ> snd) (owned (launch_register C' E i sb st, us @ vs)))"
    using mv_invD(1)[OF assms] mset_eq_imp_distinct_iff[of "map (sn_dir \<circ> snd) (owned (launch_register C' E i sb st, us @ vs))"
      "map (sn_dir \<circ> snd) (owned (st, us @ (i, sb) # vs))"] m by (simp only: mset_map)
  ultimately show ?thesis using assms st'(2) by (simp add: mv_inv_def)
qed

lemma mgr_Exec_state:
  assumes "mgr_Exec C sync att now i req st = (r, st')"
  shows "st' = st \<or> (\<exists>sb. map_of (mv_sandboxes st) i = Some sb
    \<and> st' = st\<lparr>mv_sandboxes := AList.update i (sb\<lparr>sn_guestReady := True\<rparr>) (mv_sandboxes st)\<rparr>)"
proof (cases "map_of (mv_sandboxes st) i")
  case None
  then have "snd (mgr_Exec C sync att now i req st) = st" by (simp add: mgr_Exec_def split: option.splits)
  then show ?thesis using assms by simp
next
  case (Some sb)
  have "snd (mgr_Exec C sync att now i req st) \<in> {st, st\<lparr>mv_sandboxes := AList.update i (sb\<lparr>sn_guestReady := True\<rparr>) (mv_sandboxes st)\<rparr>}"
    using Some by (simp add: mgr_Exec_def split: option.splits sum.splits prod.splits)
  then show ?thesis using assms Some by auto
qed

lemma mv_step_inv:
  assumes "mv_step C s s'" "mv_inv C s"
  shows "mv_inv C s'"
  using assms
proof induction
  case (start E opts st i sb st' pend)
  note f = launch_start_frame[OF start(1)] and I = mv_invD[OF start(2)]
  have n: "sn_dir sb = SandboxStateDir (mc_WorkDir C) i" "mv_disk st (sn_dir sb) \<noteq> Some True" "mv_disk st' (sn_dir sb) = Some True"
    "si_ID (sn_info sb) = i" using f(3)[OF refl] by auto
  have mem: "(j, x) \<in> set (owned (st', (i, sb) # pend)) \<longleftrightarrow> (j, x) = (i, sb) \<or> (j, x) \<in> set (owned (st, pend))" for j x
    using f(1) by (auto simp: owned_def)
  have "sn_dir x \<noteq> sn_dir sb" if "(j, x) \<in> set (owned (st, pend))" for j x using I(2,3)[OF that] n(2) by auto
  then have "sn_dir sb \<notin> set (map (sn_dir \<circ> snd) (owned (st, pend)))" by force
  then have "distinct (map (sn_dir \<circ> snd) (owned (st', (i, sb) # pend)))"
    using I(1) f(1) unfolding owned_def by simp
  moreover have "sn_dir x = SandboxStateDir (mc_WorkDir C) j \<and> mv_disk st' (SandboxStateDir (mc_WorkDir C) j) = Some True \<and> si_ID (sn_info x) = j"
    if "(j, x) \<in> set (owned (st', (i, sb) # pend))" for j x
    using that unfolding mem using n I(2-4)[of j x] f(2) by auto
  ultimately show ?case by (intro mv_invI) auto
next
  case (start_fails E opts st e st' pend)
  then show ?case using launch_start_frame(1,2)[OF start_fails(1)] mv_inv_frame by blast
next
  case (register st us i sb vs E)
  then show ?case by (rule launch_register_inv)
next
  case (confirm E i st r st' pend)
  obtain e1 st1 where s1: "mgr_Stop (le_Stop E) i st = (e1, st1)" by fastforce
  obtain e2 st2 where s2: "mgr_Remove C (le_Stop2 E) (le_RemoveAll E) i True st1 = (e2, st2)" by fastforce
  have "st' = st \<or> st' = st2" using confirm(1) s1 s2 by (auto simp: confirmGuestServing_def split: if_splits prod.splits option.splits)
  then show ?case using confirm(2) mgr_Remove_inv[OF s2 mgr_Stop_inv[OF s1 confirm(2)]] by blast
next
  case (stop out i st r st' pend)
  then show ?case using mgr_Stop_inv by blast
next
  case (remove out rm i force st r st' pend)
  then show ?case using mgr_Remove_inv by blast
next
  case (exec sync att now i req st r st' pend)
  consider "st' = st" | sb where "map_of (mv_sandboxes st) i = Some sb"
      "st' = st\<lparr>mv_sandboxes := AList.update i (sb\<lparr>sn_guestReady := True\<rparr>) (mv_sandboxes st)\<rparr>"
    using mgr_Exec_state[OF exec(1)] by blast
  then show ?case
  proof cases
    case 2
    then show ?thesis by (intro mv_inv_replace[OF exec(2) 2(1), of "sb\<lparr>sn_guestReady := True\<rparr>"]) simp_all
  qed (use exec in simp)
qed

section \<open>Properties\<close>

definition empty_Manager :: Manager where
  "empty_Manager = \<lparr>mv_sandboxes = [], mv_disk = Map.empty, mv_vms = [], mv_peers = Map.empty, mv_listeners = []\<rparr>"

lemma mv_inv_empty: "mv_inv C (empty_Manager, [])"
  by (simp add: mv_inv_def owned_def empty_Manager_def)

lemma mv_reachable_inv: "(mv_step C)\<^sup>*\<^sup>* s s' \<Longrightarrow> mv_inv C s \<Longrightarrow> mv_inv C s'"
  by (induction rule: rtranclp_induct) (auto intro: mv_step_inv)


definition demo_mv :: mv_config where
  "demo_mv = \<lparr>mc_Backend = ''kvm'', mc_WorkDir = ''/run/mgit'', mc_GuestDialer = True, mc_PeerBinder = True,
     mc_NotifyRegistrar = False, mc_SharedDir = Some ''/repo/.mgit'', mc_SensitivePaths = [''.claude/''],
     mc_NetworkModeCheck = None, mc_GuestReadyTimeout = guestReadyTimeoutDefault\<rparr>"

definition demo_vm :: vm_handle where
  "demo_vm = \<lparr>vh_PeerIdentity = Some ''cid-3'', vh_NotifySocketPath = None, vh_ConsoleTail = None\<rparr>"

definition demo_env :: launch_env where
  "demo_env = \<lparr>le_fs = demo_fs, le_Resolve = (\<lambda>_. Inr \<lparr>ip_KernelPath = ''/img/vmlinux'', ip_RootfsPath = ''/img/rootfs'', ip_Cmdline = []\<rparr>),
     le_stat = (\<lambda>_. Some False), le_newID = Inl (Errorf ''unused''), le_mkdir = None, le_open = None, le_truncate = None,
     le_Provision = (\<lambda>_ _ p. Inr \<lparr>ps_Dir = p, ps_SharedDir = ''/repo/.mgit''\<rparr>), le_CreateVM = (\<lambda>_. Inr demo_vm),
     le_Start = None, le_cleanup = True, le_now = 0, le_Register = None, le_probe = booting 1, le_Stop = None,
     le_Stop2 = None, le_RemoveAll = None\<rparr>"

definition demo_opts :: "string \<Rightarrow> SandboxLaunchOptions" where
  "demo_opts i = zero_launch_options\<lparr>lo_SandboxID := i, lo_TaskID := ''MGIT-1'', lo_WorktreePath := ''/w'',
     lo_ImageRef := demo_image, lo_Network := \<lparr>np_Mode = NetworkModeNone, np_Allowlist = []\<rparr>, lo_MemoryMB := 512\<rparr>"

lemma demo_opts_valid: "SandboxLaunchOptions_Validate (demo_opts ''SANDBOX1'') = None"
  by code_simp

lemma demo_state_dir: "SandboxStateDir (mc_WorkDir demo_mv) ''SANDBOX1'' = ''/run/mgit/SANDBOX1''"
  by (simp add: SandboxStateDir_def demo_mv_def filepath_join_def path_clean_def path_is_abs_def)

lemma demo_quarantine: "quarantine demo_mv demo_env ''MGIT-1'' ''/w'' ''/run/mgit/SANDBOX1'' = Inr ''/run/mgit/SANDBOX1/private-store''"
  by (simp add: quarantine_def demo_mv_def demo_env_def quarantine_eval Let_def)

definition demo_sandbox :: sandbox where
  "demo_sandbox = \<lparr>sn_info = newSandboxInfo demo_mv 0 ''SANDBOX1'' (demo_opts ''SANDBOX1''), sn_vm = demo_vm,
     sn_dir = ''/run/mgit/SANDBOX1'', sn_privateStore = ''/run/mgit/SANDBOX1/private-store'', sn_guestReady = False\<rparr>"

lemma demo_launch_start:
  "launch_start demo_mv demo_env (demo_opts ''SANDBOX1'') empty_Manager =
     (Inr (''SANDBOX1'', demo_sandbox), empty_Manager\<lparr>mv_disk := [''/run/mgit/SANDBOX1'' \<mapsto> True], mv_vms := [''SANDBOX1'']\<rparr>)"
proof -
  have "lo_SandboxID (demo_opts ''SANDBOX1'') = ''SANDBOX1''" "lo_TaskID (demo_opts ''SANDBOX1'') = ''MGIT-1''"
    "lo_WorktreePath (demo_opts ''SANDBOX1'') = ''/w''" "lo_DiskQuotaMB (demo_opts ''SANDBOX1'') = 0"
    by (simp_all add: demo_opts_def zero_launch_options_def)
  moreover have "le_now demo_env = 0" "le_Start demo_env = None" "le_CreateVM demo_env c = Inr demo_vm" "le_mkdir demo_env = None"
    "le_open demo_env = None" "le_truncate demo_env = None" "le_stat demo_env f = Some False"
    "le_Resolve demo_env r = Inr \<lparr>ip_KernelPath = ''/img/vmlinux'', ip_RootfsPath = ''/img/rootfs'', ip_Cmdline = []\<rparr>" for c f r
    by (simp_all add: demo_env_def)
  moreover have "mc_Backend demo_mv = ''kvm''" by (simp add: demo_mv_def)
  moreover have "overlay_bytes 0 \<ge> 0" by (simp add: overlay_bytes_def wrap64_def)
  ultimately show ?thesis
    using demo_opts_valid demo_quarantine demo_state_dir
    by (simp add: launch_start_def checkBootShape_def launch_id_def createOverlay_def launch_vm_def demo_sandbox_def empty_Manager_def Let_def)
qed

lemma demo_registered:
  "(mv_step demo_mv)\<^sup>*\<^sup>* (empty_Manager, []) (launch_register demo_mv demo_env ''SANDBOX1'' demo_sandbox
      (empty_Manager\<lparr>mv_disk := [''/run/mgit/SANDBOX1'' \<mapsto> True], mv_vms := [''SANDBOX1'']\<rparr>), [])"
proof -
  let ?st = "empty_Manager\<lparr>mv_disk := [''/run/mgit/SANDBOX1'' \<mapsto> True], mv_vms := [''SANDBOX1'']\<rparr>"
  have "mv_step demo_mv (empty_Manager, []) (?st, [(''SANDBOX1'', demo_sandbox)])" by (rule mv_step.start[OF demo_launch_start])
  moreover have "mv_step demo_mv (?st, [] @ (''SANDBOX1'', demo_sandbox) # []) (launch_register demo_mv demo_env ''SANDBOX1'' demo_sandbox ?st, [] @ [])"
    by (rule mv_step.register)
  ultimately show ?thesis by (simp add: converse_rtranclp_into_rtranclp)
qed

lemma demo_registered_sandboxes:
  "mv_sandboxes (launch_register demo_mv demo_env ''SANDBOX1'' demo_sandbox
      (empty_Manager\<lparr>mv_disk := [''/run/mgit/SANDBOX1'' \<mapsto> True], mv_vms := [''SANDBOX1'']\<rparr>)) = [(''SANDBOX1'', demo_sandbox)]"
  by (simp add: launch_register_def registerNotify_def demo_mv_def demo_vm_def demo_sandbox_def empty_Manager_def)


lemma overlay_blocks_launch:
  assumes "mv_disk st (SandboxStateDir (mc_WorkDir C) (lo_SandboxID opts)) = Some True" "lo_SandboxID opts \<noteq> []"
  shows "\<exists>e. mgr_Launch C E opts st = (Inl e, st)"
proof -
  obtain r st' where r: "launch_start C E opts st = (r, st')" by fastforce
  have "(\<exists>e. r = Inl e) \<and> st' = st"
    using r
  proof (cases rule: launch_start_cases)
    case (overlay e e' j disk)
    then have "j = lo_SandboxID opts" using assms(2) by (simp add: launch_id_def)
    then have "disk = mv_disk st" using createOverlay_disk(2)[OF overlay(1)] assms(1) by simp
    then show ?thesis using overlay by simp
  next
    case (vm j ov disk images r1)
    then have "j = lo_SandboxID opts" using assms(2) by (simp add: launch_id_def)
    then show ?thesis using createOverlay_disk(3)[OF vm(1) refl] assms(1) by simp
  qed auto
  then show ?thesis using r by (auto simp: mgr_Launch_def)
qed

text \<open>
  A sandbox that was stopped cannot be booted again. \<open>Stop\<close> keeps the state directory and
  \<open>Launch\<close> insists on creating the overlay, so from any reachable state, after a successful stop,
  every launch with the same id is refused, whatever the host does, and changes nothing; and the
  same holds once sizing a new overlay has failed, because the file is left behind. The idle
  suspend promises that the next command resumes the sandbox.
\<close>

theorem stopped_sandbox_cannot_boot:
  assumes "(mv_step C)\<^sup>*\<^sup>* (empty_Manager, []) (st, pend)" "i \<noteq> []"
  shows "(\<forall>st'. mgr_Stop None i st = (None, st') \<longrightarrow>
      (\<forall>E opts. lo_SandboxID opts = i \<longrightarrow> (\<exists>e. mgr_Launch C E opts st' = (Inl e, st'))))
    \<and> (\<forall>E0 size e disk'. createOverlay E0 (SandboxStateDir (mc_WorkDir C) i) size (mv_disk st) = (Inl e, disk')
        \<and> le_mkdir E0 = None \<and> le_open E0 = None
      \<longrightarrow> (\<forall>E opts. lo_SandboxID opts = i \<longrightarrow>
            (\<exists>e'. mgr_Launch C E opts (st\<lparr>mv_disk := disk'\<rparr>) = (Inl e', st\<lparr>mv_disk := disk'\<rparr>))))"
proof (intro conjI allI impI)
  fix st' E and opts :: SandboxLaunchOptions
  assume s: "mgr_Stop None i st = (None, st')" and o: "lo_SandboxID opts = i"
  obtain sb where sb: "map_of (mv_sandboxes st) i = Some sb" using s by (auto simp: mgr_Stop_def split: option.splits)
  have "mv_disk st (SandboxStateDir (mc_WorkDir C) i) = Some True"
    using mv_invD(3)[OF mv_reachable_inv[OF assms(1) mv_inv_empty]] map_of_SomeD[OF sb] by (auto simp: owned_def)
  then have "mv_disk st' (SandboxStateDir (mc_WorkDir C) i) = Some True" using s sb by (auto simp: mgr_Stop_def stop_vm_def)
  then show "\<exists>e. mgr_Launch C E opts st' = (Inl e, st')" using overlay_blocks_launch o assms(2) by simp
next
  fix E0 size e disk' E and opts :: SandboxLaunchOptions
  assume f: "createOverlay E0 (SandboxStateDir (mc_WorkDir C) i) size (mv_disk st) = (Inl e, disk')
        \<and> le_mkdir E0 = None \<and> le_open E0 = None" and o: "lo_SandboxID opts = i"
  then have "disk' (SandboxStateDir (mc_WorkDir C) i) = Some True"
    by (auto simp: createOverlay_def Let_def split: option.splits if_splits)
  then show "\<exists>e'. mgr_Launch C E opts (st\<lparr>mv_disk := disk'\<rparr>) = (Inl e', st\<lparr>mv_disk := disk'\<rparr>)"
    using overlay_blocks_launch[of "st\<lparr>mv_disk := disk'\<rparr>" C opts] o assms(2) by simp
qed

theorem stopped_sandbox_cannot_boot_witness:
  "\<exists>st st'. mv_sandboxes st = [(''SANDBOX1'', demo_sandbox)] \<and> mgr_Stop None ''SANDBOX1'' st = (None, st')
     \<and> (\<exists>e. mgr_Launch demo_mv demo_env (demo_opts ''SANDBOX1'') st' = (Inl e, st'))"
proof -
  let ?st = "launch_register demo_mv demo_env ''SANDBOX1'' demo_sandbox
      (empty_Manager\<lparr>mv_disk := [''/run/mgit/SANDBOX1'' \<mapsto> True], mv_vms := [''SANDBOX1'']\<rparr>)"
  obtain st' where s: "mgr_Stop None ''SANDBOX1'' ?st = (None, st')" by (simp add: mgr_Stop_def demo_registered_sandboxes)
  have o: "lo_SandboxID (demo_opts ''SANDBOX1'') = ''SANDBOX1''" by (simp add: demo_opts_def)
  have "\<exists>e. mgr_Launch demo_mv demo_env (demo_opts ''SANDBOX1'') st' = (Inl e, st')"
    using stopped_sandbox_cannot_boot[OF demo_registered, of "''SANDBOX1''", THEN conjunct1] s o by simp
  then show ?thesis using s demo_registered_sandboxes by blast
qed

text \<open>A sandbox id that is new to the manager and to everything it controls.\<close>

definition fresh_id :: "string \<Rightarrow> Manager \<Rightarrow> bool" where
  "fresh_id i st \<longleftrightarrow> i \<notin> fst ` set (mv_sandboxes st) \<and> i \<notin> set (mv_vms st) \<and> mv_peers st i = None \<and> i \<notin> set (mv_listeners st)"

lemma launch_register_Stop:
  assumes "fresh_id i st"
  shows "\<exists>st2. mgr_Stop None i (launch_register C E i sb (st\<lparr>mv_vms := i # mv_vms st\<rparr>)) = (None, st2)
    \<and> mv_sandboxes st2 = mv_sandboxes st @ [(i, sb\<lparr>sn_info := (sn_info sb)\<lparr>si_State := StateSuspended\<rparr>\<rparr>)]
    \<and> mv_vms st2 = mv_vms st \<and> mv_disk st2 = mv_disk st \<and> (\<forall>j. j \<noteq> i \<longrightarrow> mv_peers st2 j = mv_peers st j)
    \<and> (mc_PeerBinder C \<or> mv_peers st2 = mv_peers st) \<and> removeAll i (mv_listeners st2) = mv_listeners st
    \<and> (mc_NotifyRegistrar C \<or> mv_listeners st2 = mv_listeners st)"
proof -
  let ?st1 = "launch_register C E i sb (st\<lparr>mv_vms := i # mv_vms st\<rparr>)"
  let ?sb = "sb\<lparr>sn_info := (sn_info sb)\<lparr>si_State := StateSuspended\<rparr>\<rparr>"
  have new: "i \<notin> fst ` set (mv_sandboxes st)" "i \<notin> set (mv_vms st)" "mv_peers st i = None" "i \<notin> set (mv_listeners st)"
    using assms by (simp_all add: fresh_id_def)
  have s1: "mv_sandboxes ?st1 = mv_sandboxes st @ [(i, sb)]" "mv_vms ?st1 = i # mv_vms st" "mv_disk ?st1 = mv_disk st"
    "mv_peers ?st1 = (if mc_PeerBinder C then (mv_peers st)(i \<mapsto> peerIdentity (sn_vm sb) i) else mv_peers st)"
    "mv_listeners ?st1 = mv_listeners st \<or> mc_NotifyRegistrar C \<and> mv_listeners ?st1 = i # mv_listeners st"
    using new(1) by (auto simp: launch_register_def registerNotify_def Let_def alist_update_new split: option.splits)
  have "map_of (mv_sandboxes ?st1) i = Some sb" using s1(1) new(1) by (simp add: map_add_def map_of_eq_None_iff[THEN iffD2])
  moreover have "AList.update i ?sb (mv_sandboxes st @ [(i, sb)]) = mv_sandboxes st @ [(i, ?sb)]"
    using new(1) by (simp add: alist_update_append)
  ultimately have "mgr_Stop None i ?st1 = (None, ?st1\<lparr>mv_vms := removeAll i (mv_vms ?st1), mv_sandboxes := mv_sandboxes st @ [(i, ?sb)]\<rparr>)"
    using s1(1) by (simp add: mgr_Stop_def stop_vm_def)
  moreover have "removeAll i (mv_listeners st) = mv_listeners st" "removeAll i (mv_vms st) = mv_vms st" using new(2,4) by simp_all
  ultimately show ?thesis using s1 by auto
qed

lemma removed_after_Stop:
  assumes "mv_sandboxes st2 = xs @ [(i, sb)]" "i \<notin> fst ` set xs" "si_State (sn_info sb) = StateSuspended"
  shows "mgr_Remove C out None i True st2 = (None, st2\<lparr>mv_disk := (mv_disk st2)(sn_dir sb := None), mv_sandboxes := xs,
    mv_peers := (if mc_PeerBinder C then (mv_peers st2)(i := None) else mv_peers st2),
    mv_listeners := (if mc_NotifyRegistrar C then removeAll i (mv_listeners st2) else mv_listeners st2)\<rparr>)"
proof -
  have "map_of (mv_sandboxes st2) i = Some sb" using assms(1,2) by (simp add: map_add_def map_of_eq_None_iff[THEN iffD2])
  moreover have "AList.delete i (mv_sandboxes st2) = xs"
    using assms(1,2) by (auto simp: AList.delete_eq filter_id_conv intro: rev_image_eqI)
  ultimately show ?thesis using assms(3) by (simp add: mgr_Remove_def Let_def)
qed

lemma launch_start_started:
  assumes "launch_start C E opts st = (Inr (i, sb), st1)"
  shows "mv_vms st1 = i # mv_vms st" "mv_sandboxes st1 = mv_sandboxes st" "mv_peers st1 = mv_peers st" "mv_listeners st1 = mv_listeners st"
    "launch_id E opts = Inr i" "mv_disk st (SandboxStateDir (mc_WorkDir C) i) \<noteq> Some True" "sn_dir sb = SandboxStateDir (mc_WorkDir C) i"
    "\<forall>d. d \<noteq> SandboxStateDir (mc_WorkDir C) i \<longrightarrow> mv_disk st1 d = mv_disk st d"
proof -
  from assms obtain ov disk images where c: "createOverlay E (SandboxStateDir (mc_WorkDir C) i) (lo_DiskQuotaMB opts) (mv_disk st) = (Inr ov, disk)"
    "launch_vm C E opts images i ov (st\<lparr>mv_disk := disk\<rparr>) = (Inr sb, st1)" "launch_id E opts = Inr i"
  proof (cases rule: launch_start_cases)
    case (vm j ov disk images r1)
    then have "r1 = Inr sb" "j = i" by (cases r1; simp)+
    then show ?thesis using that vm by simp
  qed auto
  note o = createOverlay_disk[OF c(1)] and v = launch_vm_cases[OF c(2)]
  show "mv_vms st1 = i # mv_vms st" "mv_sandboxes st1 = mv_sandboxes st" "mv_peers st1 = mv_peers st" "mv_listeners st1 = mv_listeners st"
    "launch_id E opts = Inr i" "mv_disk st (SandboxStateDir (mc_WorkDir C) i) \<noteq> Some True" "sn_dir sb = SandboxStateDir (mc_WorkDir C) i"
    using c(3) o(3)[OF refl] v(1-3) v(5)[OF refl] by simp_all
  show "\<forall>d. d \<noteq> SandboxStateDir (mc_WorkDir C) i \<longrightarrow> mv_disk st1 d = mv_disk st d" using o(1) v(4) by simp
qed

lemma launch_start_failed:
  assumes "launch_start C E opts st = (Inl e, st')" "le_cleanup E" "launch_id E opts = Inr i"
  shows "mv_sandboxes st' = mv_sandboxes st \<and> mv_vms st' = mv_vms st \<and> mv_peers st' = mv_peers st \<and> mv_listeners st' = mv_listeners st
     \<and> (\<forall>d. d \<noteq> SandboxStateDir (mc_WorkDir C) i \<longrightarrow> mv_disk st' d = mv_disk st d)"
  using assms(1)
proof (cases rule: launch_start_cases)
  case (overlay e0 e' j disk)
  then show ?thesis using createOverlay_disk(1)[OF overlay(1)] assms(3) by simp
next
  case (vm j ov disk images r1)
  then obtain e1 where "r1 = Inl e1" by (cases r1) auto
  then have "st' = clean_dir E (SandboxStateDir (mc_WorkDir C) i) (st\<lparr>mv_disk := disk\<rparr>)"
    using launch_vm_cases(6)[OF vm(2)] vm(4) assms(3) by simp
  then show ?thesis using createOverlay_disk(1)[OF vm(1)] vm(4) assms(2,3) by (simp add: clean_dir_def)
qed auto

text \<open>
  A launch that fails leaves nothing running or registered: for a sandbox id new to the
  manager, if stopping the VM and removing its directory work, then after a failure at any point,
  a guest that never answered included, the registry, the VMs, the peer bindings and the notify
  listeners are exactly what they were, and no other sandbox's directory has changed.
\<close>

theorem failed_launch_leaves_nothing:
  assumes fail: "mgr_Launch C E opts st = (Inl e, st')" and i: "launch_id E opts = Inr i" "fresh_id i st"
    and host: "le_cleanup E" "le_Stop E = None" "le_RemoveAll E = None"
  shows "mv_sandboxes st' = mv_sandboxes st \<and> mv_vms st' = mv_vms st \<and> mv_peers st' = mv_peers st
    \<and> mv_listeners st' = mv_listeners st
    \<and> (\<forall>d. d \<noteq> SandboxStateDir (mc_WorkDir C) i \<longrightarrow> mv_disk st' d = mv_disk st d)"
proof -
  obtain r st1 where s: "launch_start C E opts st = (r, st1)" by fastforce
  show ?thesis
  proof (cases r)
    case (Inl e1)
    then have "st' = st1" using fail s by (simp add: mgr_Launch_def)
    then show ?thesis using launch_start_failed[OF s[unfolded Inl] host(1) i(1)] by simp
  next
    case (Inr x)
    obtain j sb where "x = (j, sb)" by fastforce
    then have s': "launch_start C E opts st = (Inr (i, sb), st1)" using s Inr launch_start_started(5) i(1) by fastforce
    note b = launch_start_started[OF s']
    have st1: "st1 = (st1\<lparr>mv_vms := mv_vms st\<rparr>)\<lparr>mv_vms := i # mv_vms (st1\<lparr>mv_vms := mv_vms st\<rparr>)\<rparr>" using b(1) by simp
    have "fresh_id i (st1\<lparr>mv_vms := mv_vms st\<rparr>)" using i(2) b by (simp add: fresh_id_def)
    from launch_register_Stop[OF this, of C E sb, folded st1]
    obtain st2 where q: "mgr_Stop None i (launch_register C E i sb st1) = (None, st2)"
      "mv_sandboxes st2 = mv_sandboxes st @ [(i, sb\<lparr>sn_info := (sn_info sb)\<lparr>si_State := StateSuspended\<rparr>\<rparr>)]"
      "mv_vms st2 = mv_vms st" "mv_disk st2 = mv_disk st1" "\<forall>j. j \<noteq> i \<longrightarrow> mv_peers st2 j = mv_peers st j"
      "mc_PeerBinder C \<or> mv_peers st2 = mv_peers st" "removeAll i (mv_listeners st2) = mv_listeners st"
      "mc_NotifyRegistrar C \<or> mv_listeners st2 = mv_listeners st" using b by auto
    have "i \<notin> fst ` set (mv_sandboxes st)" "mv_peers st i = None" using i(2) by (simp_all add: fresh_id_def)
    note rm = removed_after_Stop[OF q(2) this(1), of C "le_Stop2 E"]
    have "st' = snd (mgr_Remove C (le_Stop2 E) None i True st2)"
      using fail s' q(1) host(2,3)
      by (auto simp: mgr_Launch_def confirmGuestServing_def split: if_splits prod.splits option.splits)
    then have "st' = st2\<lparr>mv_disk := (mv_disk st2)(sn_dir sb := None), mv_sandboxes := mv_sandboxes st,
      mv_peers := (if mc_PeerBinder C then (mv_peers st2)(i := None) else mv_peers st2),
      mv_listeners := (if mc_NotifyRegistrar C then removeAll i (mv_listeners st2) else mv_listeners st2)\<rparr>"
      using rm by simp
    moreover have "(mv_peers st2)(i := None) = mv_peers st" using q(5) \<open>mv_peers st i = None\<close> by auto
    ultimately show ?thesis using q(3-8) b(7,8) by auto
  qed
qed

theorem failed_launch_leaves_nothing_witness:
  "\<exists>e st'. mgr_Launch (demo_mv\<lparr>mc_GuestReadyTimeout := 1\<rparr>) (demo_env\<lparr>le_probe := \<lambda>_. quiet_exchange\<rparr>) (demo_opts ''SANDBOX1'') empty_Manager = (Inl e, st')
     \<and> mv_sandboxes st' = [] \<and> mv_vms st' = [] \<and> mv_peers st' = Map.empty"
proof -
  let ?C = "demo_mv\<lparr>mc_GuestReadyTimeout := 1\<rparr>" and ?E = "demo_env\<lparr>le_probe := \<lambda>_. quiet_exchange\<rparr>"
  have same: "launch_start ?C ?E opts st = launch_start demo_mv demo_env opts st" for opts st
    by (simp add: launch_start_def launch_vm_def checkBootShape_def launch_id_def createOverlay_def quarantine_def clean_dir_def newSandboxInfo_def Let_def
          cong: option.case_cong sum.case_cong prod.case_cong if_cong)
  have "awaitGuestServing (\<lambda>_. quiet_exchange) 1 0
      = (Some (Wrap2 (Sentinel ErrGuestNotServing) (Wrap ''read frame'' (Sentinel ECONNRESET))), 1)"
    unfolding awaitGuestServing_def by (subst await_loop.simps) (simp add: quiet_exchange_def)
  then have conf: "\<exists>e st'. confirmGuestServing ?C ?E i st = (Some e, st')" for i st
    by (auto simp: confirmGuestServing_def demo_mv_def demo_env_def join_errs_def split: prod.splits)
  obtain e st' where "confirmGuestServing ?C ?E ''SANDBOX1'' (launch_register ?C ?E ''SANDBOX1'' demo_sandbox
      (empty_Manager\<lparr>mv_disk := [''/run/mgit/SANDBOX1'' \<mapsto> True], mv_vms := [''SANDBOX1'']\<rparr>)) = (Some e, st')"
    using conf by blast
  then have f: "mgr_Launch ?C ?E (demo_opts ''SANDBOX1'') empty_Manager = (Inl e, st')"
    using demo_launch_start by (simp add: mgr_Launch_def same)
  have i: "launch_id ?E (demo_opts ''SANDBOX1'') = Inr ''SANDBOX1''" by (simp add: launch_id_def demo_opts_def)
  have "fresh_id ''SANDBOX1'' empty_Manager" by (simp add: fresh_id_def empty_Manager_def)
  from failed_launch_leaves_nothing[OF f i this]
  have "mv_sandboxes st' = mv_sandboxes empty_Manager \<and> mv_vms st' = mv_vms empty_Manager \<and> mv_peers st' = mv_peers empty_Manager"
    by (simp add: demo_env_def)
  then show ?thesis using f by (auto simp: empty_Manager_def)
qed

text \<open>
  C18. No guest boots outside the quarantine: when a store provisioner is wired and a launch
  succeeds, the VM was created from a description whose root is read-only and whose private
  store is the one provisioned for it, and the quarantine accepted the plan that mounts the
  worktree with that store; the VM has a network device only if the policy's mode is not
  \<open>none\<close>; and the sandbox is visible in \<open>List\<close> when \<open>Launch\<close> returns.
\<close>

theorem launched_vm_is_quarantined:
  assumes run: "mgr_Launch C E opts st = (Inr info, st')" and wired: "mc_SharedDir C = Some shared"
  shows "\<exists>c vm store plan q. le_CreateVM E c = Inr vm \<and> vc_RootfsReadOnly c
    \<and> le_Provision E (lo_TaskID opts) (lo_WorktreePath opts) (filepath_join [vc_StateDir c, ''private-store'']) = Inr store
    \<and> vc_PrivateStorePath c = ps_Dir store \<and> vc_WorktreePath c = lo_WorktreePath opts
    \<and> BuildPlan (le_fs E) (lo_WorktreePath opts) (mc_SensitivePaths C) = Inr plan
    \<and> BindPrivateStore (le_fs E) plan (ps_Dir store) (ps_SharedDir store) = Inr q
    \<and> (vc_AttachNIC c \<longleftrightarrow> np_Mode (lo_Network opts) \<noteq> NetworkModeNone)
    \<and> vc_SandboxID c = si_ID info \<and> info \<in> set (mgr_List st')"
proof -
  obtain i sb st1 where s: "launch_start C E opts st = (Inr (i, sb), st1)"
    and c: "confirmGuestServing C E i (launch_register C E i sb st1) = (None, st')" and info: "info = sn_info sb"
    using run by (auto simp: mgr_Launch_def split: prod.splits sum.splits option.splits)
  from s obtain ov disk images where v: "launch_vm C E opts images i ov (st\<lparr>mv_disk := disk\<rparr>) = (Inr sb, st1)"
  proof (cases rule: launch_start_cases)
    case (vm j ov disk images r1)
    then have "r1 = Inr sb" "j = i" by (cases r1; simp)+
    then show ?thesis using that vm by simp
  qed auto
  let ?dir = "SandboxStateDir (mc_WorkDir C) i"
  from v obtain priv vm where q: "quarantine C E (lo_TaskID opts) (lo_WorktreePath opts) ?dir = Inr priv"
    and vm: "le_CreateVM E (vmConfig i ?dir opts images ov priv) = Inr vm"
    by (auto simp: launch_vm_def Let_def split: sum.splits option.splits)
  from q wired obtain store plan q' where "le_Provision E (lo_TaskID opts) (lo_WorktreePath opts) (filepath_join [?dir, ''private-store'']) = Inr store"
    "BuildPlan (le_fs E) (lo_WorktreePath opts) (mc_SensitivePaths C) = Inr plan"
    "BindPrivateStore (le_fs E) plan (ps_Dir store) (ps_SharedDir store) = Inr q'" "priv = ps_Dir store"
    by (auto simp: quarantine_def split: sum.splits)
  moreover have "si_ID info = i" using launch_start_frame(3)[OF s refl] info by simp
  moreover have "info \<in> set (mgr_List st')"
  proof -
    have "st' = launch_register C E i sb st1" using c by (auto simp: confirmGuestServing_def join_errs_def split: if_splits prod.splits option.splits)
    then have "(i, sb) \<in> set (mv_sandboxes st')"
      using alist_update_mem[of i sb "mv_sandboxes st1"]
      by (auto simp: launch_register_def registerNotify_def Let_def split: option.splits)
    then show ?thesis using info by (force simp: mgr_List_def)
  qed
  ultimately show ?thesis using vm by (intro exI[of _ "vmConfig i ?dir opts images ov priv"]) (auto simp: vmConfig_def)
qed

theorem launched_vm_is_quarantined_witness:
  "\<exists>info st'. mgr_Launch demo_mv demo_env (demo_opts ''SANDBOX1'') empty_Manager = (Inr info, st') \<and> info \<in> set (mgr_List st')"
proof -
  have "awaitGuestServing (booting 1) guestReadyTimeoutDefault 0 = (None, 2)"
    unfolding awaitGuestServing_def
    by (subst await_loop.simps, simp add: booting_def quiet_exchange_def checkGuestHello_def)+
  then have "confirmGuestServing demo_mv demo_env i st = (None, st)" for i st
    by (simp add: confirmGuestServing_def demo_mv_def demo_env_def)
  then obtain info st' where r: "mgr_Launch demo_mv demo_env (demo_opts ''SANDBOX1'') empty_Manager = (Inr info, st')"
    using demo_launch_start by (simp add: mgr_Launch_def)
  have "mc_SharedDir demo_mv = Some ''/repo/.mgit''" by (simp add: demo_mv_def)
  from launched_vm_is_quarantined[OF r this] show ?thesis using r by blast
qed

end
