(* ===== verification/Ceiling.thy ===== *)
theory Ceiling
  imports Microvm
begin

text \<open>
  The host-wide ceiling (\<open>internal/sandboxd/ceiling.go\<close>): a decorator of the manager that admits
  a launch against the number of sandboxes and their declared memory, holding a reservation
  while the launch runs outside its lock. The backend is an interface: what it lists, and which
  of its steps make a sandbox visible. The theorem is proved for any backend that keeps the
  promise the code states (a sandbox is visible before its launch returns, and declares the
  memory it asked for), and the manager of microVMs is shown to keep it.
\<close>

section \<open>Definitions\<close>

abbreviation (input) fallbackAccountedMemoryMB :: int where "fallbackAccountedMemoryMB \<equiv> 2048"

record CeilingManager =
  cm_maxConcurrent :: int
  cm_maxTotalMemoryMB :: int
  cm_defaultMemoryMB :: int
  cm_reservedCount :: int
  cm_reservedMB :: int

definition NewCeilingManager :: "int \<Rightarrow> int \<Rightarrow> int \<Rightarrow> CeilingManager" where
  "NewCeilingManager maxConcurrent maxTotalMemoryMB defaultMemoryMB =
     \<lparr>cm_maxConcurrent = maxConcurrent, cm_maxTotalMemoryMB = maxTotalMemoryMB,
      cm_defaultMemoryMB = (if defaultMemoryMB \<le> 0 then fallbackAccountedMemoryMB else defaultMemoryMB),
      cm_reservedCount = 0, cm_reservedMB = 0\<rparr>"

definition accounted :: "int \<Rightarrow> int \<Rightarrow> int" where
  "accounted def mb = (if mb \<le> 0 then def else mb)"

text \<open>\<open>usage\<close>, with Go's wrapping addition; the error is the backend's \<open>List\<close> failing.\<close>

definition usage :: "CeilingManager \<Rightarrow> SandboxInfo list result \<Rightarrow> (int \<times> int) result" where
  "usage c listed =
     (case listed of
        Inl e \<Rightarrow> Inl e
      | Inr sandboxes \<Rightarrow>
          Inr (foldl (\<lambda>(n, usedMB) sb.
                 if si_State sb = StateDestroyed then (n, usedMB)
                 else (n + 1, wrap64 (usedMB + (if si_MemoryMB sb > 0 then si_MemoryMB sb else cm_defaultMemoryMB c))))
               (0, 0) sandboxes))"

definition admit :: "CeilingManager \<Rightarrow> int \<Rightarrow> int \<Rightarrow> int \<Rightarrow> err option" where
  "admit c n usedMB requestMB =
     (if cm_maxConcurrent c > 0 \<and> n \<ge> cm_maxConcurrent c then
        Some (Wrap ''the host is already running or admitting too many sandboxes'' (Sentinel ErrSandboxCeilingExceeded))
      else if cm_maxTotalMemoryMB c \<le> 0 then None
      else if requestMB > cm_maxTotalMemoryMB c then
        Some (Wrap ''this launch cannot be admitted even on a completely idle host'' (Sentinel ErrSandboxCeilingExceeded))
      else if wrap64 (usedMB + requestMB) > cm_maxTotalMemoryMB c then
        Some (Wrap ''in use or admitted and requested exceeds the host-wide ceiling'' (Sentinel ErrSandboxCeilingExceeded))
      else None)"

definition reserve :: "SandboxInfo list result \<Rightarrow> int \<Rightarrow> CeilingManager \<Rightarrow> err option \<times> CeilingManager" where
  "reserve listed requestMB c =
     (case usage c listed of
        Inl e \<Rightarrow> (Some (Wrap ''ceiling admission'' e), c)
      | Inr (n, usedMB) \<Rightarrow>
          (case admit c (n + cm_reservedCount c) (wrap64 (usedMB + cm_reservedMB c)) requestMB of
             Some e \<Rightarrow> (Some e, c)
           | None \<Rightarrow> (None, c\<lparr>cm_reservedCount := cm_reservedCount c + 1, cm_reservedMB := wrap64 (cm_reservedMB c + requestMB)\<rparr>)))"

definition unreserve :: "int \<Rightarrow> CeilingManager \<Rightarrow> CeilingManager" where
  "unreserve requestMB c = c\<lparr>cm_reservedCount := cm_reservedCount c - 1, cm_reservedMB := wrap64 (cm_reservedMB c - requestMB)\<rparr>"

definition request_mb :: "CeilingManager \<Rightarrow> SandboxLaunchOptions \<Rightarrow> int" where
  "request_mb c opts = accounted (cm_defaultMemoryMB c) (lo_MemoryMB opts)"

text \<open>\<open>Launch\<close> as one caller sees it; \<open>inner\<close> is the backend's launch.\<close>

definition ceiling_Launch :: "(SandboxLaunchOptions \<Rightarrow> 'm \<Rightarrow> SandboxInfo result \<times> 'm) \<Rightarrow> ('m \<Rightarrow> SandboxInfo list result)
    \<Rightarrow> SandboxLaunchOptions \<Rightarrow> CeilingManager \<times> 'm \<Rightarrow> SandboxInfo result \<times> CeilingManager \<times> 'm" where
  "ceiling_Launch inner listing opts cm =
     (case cm of (c, m) \<Rightarrow>
        (case reserve (listing m) (request_mb c opts) c of
           (Some e, c1) \<Rightarrow> (Inl e, c1, m)
         | (None, c1) \<Rightarrow> (case inner opts m of (r, m1) \<Rightarrow> (r, unreserve (request_mb c opts) c1, m1))))"

text \<open>
  The optional checks the decorator forwards (\<open>SupportsNetworkMode\<close>, \<open>CheckWorktreeLayout\<close>):
  a backend without the check has no objection.
\<close>

definition forwarded_check :: "(string \<Rightarrow> err option) option \<Rightarrow> string \<Rightarrow> err option" where
  "forwarded_check inner arg = (case inner of Some f \<Rightarrow> f arg | None \<Rightarrow> None)"

section \<open>Interleaved launches\<close>

text \<open>
  A launch in flight holds its reservation; \<open>fl_visible\<close> says whether its sandbox has become
  visible. Between the lock's critical sections any other step may happen.
\<close>

record flight =
  fl_opts :: SandboxLaunchOptions
  fl_visible :: bool

record 'm host =
  ho_ceiling :: CeilingManager
  ho_backend :: 'm
  ho_flights :: "flight list"

text \<open>
  \<open>quiet\<close> are the backend's steps that make nothing visible (preparing a launch, confirming or
  rolling it back, stop, remove, exec); \<open>appear opts\<close> is the step that makes the sandbox of a
  launch with these options visible.
\<close>

inductive host_step :: "('m \<Rightarrow> SandboxInfo list) \<Rightarrow> ('m \<Rightarrow> 'm \<Rightarrow> bool) \<Rightarrow> (SandboxLaunchOptions \<Rightarrow> 'm \<Rightarrow> 'm \<Rightarrow> bool)
    \<Rightarrow> 'm host \<Rightarrow> 'm host \<Rightarrow> bool" for listing quiet appear where
  admitted: "reserve (Inr (listing (ho_backend h))) (request_mb (ho_ceiling h) opts) (ho_ceiling h) = (None, c) \<Longrightarrow>
    host_step listing quiet appear h (h\<lparr>ho_ceiling := c, ho_flights := \<lparr>fl_opts = opts, fl_visible = False\<rparr> # ho_flights h\<rparr>)"
| refused: "reserve listed (request_mb (ho_ceiling h) opts) (ho_ceiling h) = (Some e, c) \<Longrightarrow>
    host_step listing quiet appear h (h\<lparr>ho_ceiling := c\<rparr>)"
| quiet: "quiet (ho_backend h) m \<Longrightarrow> host_step listing quiet appear h (h\<lparr>ho_backend := m\<rparr>)"
| appear: "ho_flights h = us @ f # vs \<Longrightarrow> \<not> fl_visible f \<Longrightarrow> appear (fl_opts f) (ho_backend h) m \<Longrightarrow>
    host_step listing quiet appear h (h\<lparr>ho_backend := m, ho_flights := us @ f\<lparr>fl_visible := True\<rparr> # vs\<rparr>)"
| returned: "ho_flights h = us @ f # vs \<Longrightarrow>
    host_step listing quiet appear h
      (h\<lparr>ho_ceiling := unreserve (request_mb (ho_ceiling h) (fl_opts f)) (ho_ceiling h), ho_flights := us @ vs\<rparr>)"

section \<open>What is in use\<close>

definition live :: "SandboxInfo list \<Rightarrow> SandboxInfo list" where
  "live infos = filter (\<lambda>sb. si_State sb \<noteq> StateDestroyed) infos"

definition used_mb :: "int \<Rightarrow> SandboxInfo list \<Rightarrow> int" where
  "used_mb def infos = (\<Sum>sb \<leftarrow> live infos. accounted def (si_MemoryMB sb))"

definition flights_mb :: "int \<Rightarrow> flight list \<Rightarrow> int" where
  "flights_mb def fs = (\<Sum>f \<leftarrow> fs. accounted def (lo_MemoryMB (fl_opts f)))"

abbreviation hidden :: "flight list \<Rightarrow> flight list" where
  "hidden fs \<equiv> filter (\<lambda>f. \<not> fl_visible f) fs"

lemma wrap64_add_left: "wrap64 (wrap64 a + b) = wrap64 (a + b)"
  by (simp add: wrap64_def mod_simps add_ac)

lemma usage_sum:
  "usage c (Inr infos) = Inr (int (length (live infos)), wrap64 (used_mb (cm_defaultMemoryMB c) infos))"
proof -
  let ?f = "\<lambda>(n, usedMB) sb.
     if si_State sb = StateDestroyed then (n, usedMB)
     else (n + 1, wrap64 (usedMB + (if si_MemoryMB sb > 0 then si_MemoryMB sb else cm_defaultMemoryMB c)))"
  have "foldl ?f (n, wrap64 u) infos = (n + int (length (live infos)), wrap64 (u + used_mb (cm_defaultMemoryMB c) infos))" for n u
    by (induction infos arbitrary: n u)
       (auto simp: live_def used_mb_def accounted_def wrap64_add_left add.assoc)
  from this[of 0 0] show ?thesis by (simp add: usage_def wrap64_def)
qed

lemma accounted_pos: "0 < d \<Longrightarrow> 0 < accounted d mb"
  by (simp add: accounted_def)

lemma used_mb_nonneg: "0 < d \<Longrightarrow> 0 \<le> used_mb d infos"
  unfolding used_mb_def by (rule sum_list_nonneg) (auto simp: accounted_def)

lemma flights_mb_nonneg: "0 < d \<Longrightarrow> 0 \<le> flights_mb d fs"
  unfolding flights_mb_def by (rule sum_list_nonneg) (auto simp: accounted_def)

lemma flights_mb_simps [simp]:
  "flights_mb d [] = 0" "flights_mb d (f # fs) = accounted d (lo_MemoryMB (fl_opts f)) + flights_mb d fs"
  "flights_mb d (fs @ gs) = flights_mb d fs + flights_mb d gs"
  by (simp_all add: flights_mb_def)

lemma hidden_le: "0 < d \<Longrightarrow> flights_mb d (hidden fs) \<le> flights_mb d fs"
  by (induction fs) (auto simp: accounted_def)

lemma reserve_None:
  assumes "reserve (Inr infos) r c = (None, c')"
  shows "c' = c\<lparr>cm_reservedCount := cm_reservedCount c + 1, cm_reservedMB := wrap64 (cm_reservedMB c + r)\<rparr>"
    "admit c (int (length (live infos)) + cm_reservedCount c) (wrap64 (used_mb (cm_defaultMemoryMB c) infos + cm_reservedMB c)) r = None"
  using assms by (auto simp: reserve_def usage_sum wrap64_add_left split: option.splits)

lemma reserve_Some: "reserve listed r c = (Some e, c') \<Longrightarrow> c' = c"
  by (auto simp: reserve_def split: sum.splits option.splits prod.splits)

section \<open>The ceiling holds\<close>

text \<open>What is visible and what is admitted but not yet visible, together, stay under the ceiling.\<close>

definition ceiling_inv :: "('m \<Rightarrow> SandboxInfo list) \<Rightarrow> 'm host \<Rightarrow> bool" where
  "ceiling_inv listing h \<longleftrightarrow>
     (let c = ho_ceiling h; d = cm_defaultMemoryMB c; fs = ho_flights h; infos = listing (ho_backend h) in
      0 < d \<and> cm_reservedCount c = int (length fs) \<and> cm_reservedMB c = wrap64 (flights_mb d fs)
      \<and> (cm_maxConcurrent c > 0 \<longrightarrow> int (length (live infos)) + int (length (hidden fs)) \<le> cm_maxConcurrent c)
      \<and> (cm_maxTotalMemoryMB c > 0 \<longrightarrow> flights_mb d fs \<le> cm_maxTotalMemoryMB c
           \<and> used_mb d infos + flights_mb d (hidden fs) \<le> cm_maxTotalMemoryMB c))"

text \<open>
  The promise a backend makes: only making a sandbox visible adds to what it lists, and then one
  sandbox with the memory of its launch. The predicate \<open>ok\<close> is the backend's own invariant.
\<close>

locale admitting_backend =
  fixes listing :: "'m \<Rightarrow> SandboxInfo list"
    and quiet :: "'m \<Rightarrow> 'm \<Rightarrow> bool"
    and appear :: "SandboxLaunchOptions \<Rightarrow> 'm \<Rightarrow> 'm \<Rightarrow> bool"
    and ok :: "'m \<Rightarrow> bool"
  assumes quiet_ok: "ok m \<Longrightarrow> quiet m m' \<Longrightarrow> ok m'"
    and appear_ok: "ok m \<Longrightarrow> appear opts m m' \<Longrightarrow> ok m'"
    and quiet_count: "ok m \<Longrightarrow> quiet m m' \<Longrightarrow> length (live (listing m')) \<le> length (live (listing m))"
    and quiet_mb: "ok m \<Longrightarrow> quiet m m' \<Longrightarrow> 0 < d \<Longrightarrow> used_mb d (listing m') \<le> used_mb d (listing m)"
    and appear_count: "ok m \<Longrightarrow> appear opts m m' \<Longrightarrow> length (live (listing m')) \<le> Suc (length (live (listing m)))"
    and appear_mb: "ok m \<Longrightarrow> appear opts m m' \<Longrightarrow> 0 < d \<Longrightarrow>
      used_mb d (listing m') \<le> used_mb d (listing m) + accounted d (lo_MemoryMB opts)"
begin

lemma admitted_inv:
  assumes "ceiling_inv listing h" "cm_maxTotalMemoryMB (ho_ceiling h) < 2 ^ 61"
    "reserve (Inr (listing (ho_backend h))) (request_mb (ho_ceiling h) opts) (ho_ceiling h) = (None, c)"
  shows "ceiling_inv listing (h\<lparr>ho_ceiling := c, ho_flights := \<lparr>fl_opts = opts, fl_visible = False\<rparr> # ho_flights h\<rparr>)"
proof -
  define c0 d fs infos r where defs: "c0 = ho_ceiling h" "d = cm_defaultMemoryMB c0" "fs = ho_flights h"
    "infos = listing (ho_backend h)" "r = accounted d (lo_MemoryMB opts)"
  have I: "0 < d" "cm_reservedCount c0 = int (length fs)" "cm_reservedMB c0 = wrap64 (flights_mb d fs)"
    "cm_maxConcurrent c0 > 0 \<Longrightarrow> int (length (live infos)) + int (length (hidden fs)) \<le> cm_maxConcurrent c0"
    "cm_maxTotalMemoryMB c0 > 0 \<Longrightarrow> flights_mb d fs \<le> cm_maxTotalMemoryMB c0"
    "cm_maxTotalMemoryMB c0 > 0 \<Longrightarrow> used_mb d infos + flights_mb d (hidden fs) \<le> cm_maxTotalMemoryMB c0"
    using assms(1) by (simp_all add: ceiling_inv_def Let_def defs)
  note R = reserve_None[OF assms(3), folded defs(1)]
  have r: "request_mb c0 opts = r" by (simp add: request_mb_def defs)
  have c: "c = c0\<lparr>cm_reservedCount := int (length fs) + 1, cm_reservedMB := wrap64 (flights_mb d fs + r)\<rparr>"
    using R(1) I(2,3) r by (simp add: defs(1)[symmetric] wrap64_add_left)
  have adm: "admit c0 (int (length (live infos)) + int (length fs)) (wrap64 (used_mb d infos + flights_mb d fs)) r = None"
  proof -
    have "wrap64 (used_mb d infos + wrap64 (flights_mb d fs)) = wrap64 (used_mb d infos + flights_mb d fs)"
      using wrap64_add_left[of "flights_mb d fs" "used_mb d infos"] by (simp add: add.commute)
    then show ?thesis using R(2) I(2,3) r by (simp add: defs(1-4)[symmetric])
  qed
  have cnt: "int (length (live infos)) + int (length fs) < cm_maxConcurrent c0" if "cm_maxConcurrent c0 > 0"
    using adm that by (auto simp: admit_def split: if_splits)
  have mem: "used_mb d infos + flights_mb d fs + r \<le> cm_maxTotalMemoryMB c0" if m: "cm_maxTotalMemoryMB c0 > 0"
  proof -
    have rle: "r \<le> cm_maxTotalMemoryMB c0" and w: "wrap64 (wrap64 (used_mb d infos + flights_mb d fs) + r) \<le> cm_maxTotalMemoryMB c0"
      using adm m by (auto simp: admit_def split: if_splits)
    have n: "0 \<le> used_mb d infos" "0 \<le> flights_mb d fs" "0 \<le> flights_mb d (hidden fs)" "0 < r"
      using I(1) by (simp_all add: used_mb_nonneg flights_mb_nonneg accounted_pos defs(5))
    have u: "used_mb d infos \<le> cm_maxTotalMemoryMB c0" using I(6)[OF m] n(3) by linarith
    have "used_mb d infos + flights_mb d fs + r \<le> max_int64"
      using u I(5)[OF m] rle assms(2) by (simp add: max_int64_def defs(1))
    then have "wrap64 (used_mb d infos + flights_mb d fs + r) = used_mb d infos + flights_mb d fs + r"
      using n by (intro wrap64_id) (simp_all add: min_int64_def)
    then show ?thesis using w by (simp add: wrap64_add_left)
  qed
  have hid: "int (length (hidden fs)) \<le> int (length fs)" "flights_mb d (hidden fs) \<le> flights_mb d fs"
    using hidden_le[OF I(1)] by simp_all
  have "cm_maxConcurrent c0 > 0 \<Longrightarrow> int (length (live infos)) + (int (length (hidden fs)) + 1) \<le> cm_maxConcurrent c0"
    using cnt hid(1) by linarith
  moreover have "cm_maxTotalMemoryMB c0 > 0 \<Longrightarrow> r + flights_mb d fs \<le> cm_maxTotalMemoryMB c0
      \<and> used_mb d infos + (r + flights_mb d (hidden fs)) \<le> cm_maxTotalMemoryMB c0"
    using mem hid(2) used_mb_nonneg[OF I(1), of infos] by linarith
  moreover have "wrap64 (flights_mb d fs + r) = wrap64 (r + flights_mb d fs)" by (simp add: add.commute)
  ultimately show ?thesis using I(1) c by (simp add: ceiling_inv_def Let_def defs add.commute)
qed

lemma host_step_inv:
  assumes "host_step listing quiet appear h h'" "ceiling_inv listing h" "ok (ho_backend h)"
    "cm_maxTotalMemoryMB (ho_ceiling h) < 2 ^ 61"
  shows "ceiling_inv listing h' \<and> ok (ho_backend h') \<and> cm_maxTotalMemoryMB (ho_ceiling h') = cm_maxTotalMemoryMB (ho_ceiling h)
    \<and> cm_maxConcurrent (ho_ceiling h') = cm_maxConcurrent (ho_ceiling h)
    \<and> cm_defaultMemoryMB (ho_ceiling h') = cm_defaultMemoryMB (ho_ceiling h)"
  using assms
proof cases
  case (admitted opts c)
  then show ?thesis using admitted_inv[OF assms(2,4) admitted(2)] reserve_None(1)[OF admitted(2)] assms(3) by simp
next
  case (refused listed opts e c)
  then show ?thesis using reserve_Some[OF refused(2)] assms(2,3) by simp
next
  case (quiet m)
  let ?d = "cm_defaultMemoryMB (ho_ceiling h)"
  have "0 < ?d" using assms(2) by (simp add: ceiling_inv_def Let_def)
  then have "length (live (listing m)) \<le> length (live (listing (ho_backend h)))" "used_mb ?d (listing m) \<le> used_mb ?d (listing (ho_backend h))"
    using quiet_count[OF assms(3) quiet(2)] quiet_mb[OF assms(3) quiet(2)] by auto
  then show ?thesis using assms(2) quiet_ok[OF assms(3) quiet(2)] unfolding quiet(1)
    by (auto simp: ceiling_inv_def Let_def)
next
  case (appear us f vs m)
  let ?d = "cm_defaultMemoryMB (ho_ceiling h)" and ?b = "ho_backend h"
  have d: "0 < ?d" using assms(2) by (simp add: ceiling_inv_def Let_def)
  have g: "length (live (listing m)) \<le> Suc (length (live (listing ?b)))"
    "used_mb ?d (listing m) \<le> used_mb ?d (listing ?b) + accounted ?d (lo_MemoryMB (fl_opts f))"
    using appear_count[OF assms(3) appear(4)] appear_mb[OF assms(3) appear(4) d] by simp_all
  then show ?thesis using assms(2) appear_ok[OF assms(3) appear(4)] appear(2,3) unfolding appear(1)
    by (auto simp: ceiling_inv_def Let_def)
next
  case (returned us f vs)
  let ?c = "ho_ceiling h" let ?d = "cm_defaultMemoryMB ?c" let ?r = "accounted ?d (lo_MemoryMB (fl_opts f))"
  have d: "0 < ?d" and mb: "cm_reservedMB ?c = wrap64 (flights_mb ?d (us @ f # vs))"
    using assms(2) returned(2) by (simp_all add: ceiling_inv_def Let_def)
  have "wrap64 (cm_reservedMB ?c - ?r) = wrap64 (flights_mb ?d (us @ vs))"
    using wrap64_add_left[of "flights_mb ?d (us @ f # vs)" "- ?r"] mb by (simp add: algebra_simps)
  then show ?thesis using assms(2,3) returned(2) accounted_pos[OF d, of "lo_MemoryMB (fl_opts f)"] unfolding returned(1)
    by (auto simp: ceiling_inv_def Let_def unreserve_def request_mb_def split: if_splits)
qed

lemma host_run_inv:
  assumes "(host_step listing quiet appear)\<^sup>*\<^sup>* h h'" "ceiling_inv listing h" "ok (ho_backend h)"
    "cm_maxTotalMemoryMB (ho_ceiling h) < 2 ^ 61"
  shows "ceiling_inv listing h' \<and> ok (ho_backend h') \<and> cm_maxTotalMemoryMB (ho_ceiling h') = cm_maxTotalMemoryMB (ho_ceiling h)
    \<and> cm_maxConcurrent (ho_ceiling h') = cm_maxConcurrent (ho_ceiling h)
    \<and> cm_defaultMemoryMB (ho_ceiling h') = cm_defaultMemoryMB (ho_ceiling h)"
  using assms
proof (induction rule: rtranclp_induct)
  case (step y z)
  then have "ceiling_inv listing y" "ok (ho_backend y)" "cm_maxTotalMemoryMB (ho_ceiling y) < 2 ^ 61" by auto
  from host_step_inv[OF step.hyps(2) this] show ?case using step by simp
qed simp


end

section \<open>MicroVMs keep the promise\<close>

definition mv_listing :: "mv_sys \<Rightarrow> SandboxInfo list" where
  "mv_listing s = mgr_List (fst s)"

text \<open>Every step but registration leaves the pending launches pending.\<close>

definition mv_quiet :: "mv_config \<Rightarrow> mv_sys \<Rightarrow> mv_sys \<Rightarrow> bool" where
  "mv_quiet C s s' \<longleftrightarrow> mv_step C s s' \<and> length (snd s) \<le> length (snd s')"

definition mv_appear :: "mv_config \<Rightarrow> SandboxLaunchOptions \<Rightarrow> mv_sys \<Rightarrow> mv_sys \<Rightarrow> bool" where
  "mv_appear C opts s s' \<longleftrightarrow> (\<exists>us i sb vs E. snd s = us @ (i, sb) # vs \<and> si_MemoryMB (sn_info sb) = lo_MemoryMB opts
     \<and> s' = (launch_register C E i sb (fst s), us @ vs))"

definition mv_states :: "mv_sys \<Rightarrow> bool" where
  "mv_states s \<longleftrightarrow> (\<forall>(i, sb) \<in> set (owned s). si_State (sn_info sb) \<in> {StateRunning, StateSuspended})"

definition entry_mb :: "int \<Rightarrow> (string \<times> sandbox) list \<Rightarrow> int" where
  "entry_mb d xs = (\<Sum>(i, sb) \<leftarrow> xs. accounted d (si_MemoryMB (sn_info sb)))"

lemma live_all:
  assumes "\<forall>(i, sb) \<in> set xs. si_State (sn_info sb) \<in> {StateRunning, StateSuspended}"
  shows "live (map (sn_info \<circ> snd) xs) = map (sn_info \<circ> snd) xs"
  using assms by (auto simp: live_def filter_id_conv)

lemma mv_usage:
  assumes "mv_states s"
  shows "length (live (mv_listing s)) = length (mv_sandboxes (fst s))" "used_mb d (mv_listing s) = entry_mb d (mv_sandboxes (fst s))"
proof -
  have l: "live (mv_listing s) = map (sn_info \<circ> snd) (mv_sandboxes (fst s))"
    unfolding mv_listing_def mgr_List_def using assms by (intro live_all) (auto simp: mv_states_def owned_def)
  then show "length (live (mv_listing s)) = length (mv_sandboxes (fst s))" by simp
  show "used_mb d (mv_listing s) = entry_mb d (mv_sandboxes (fst s))"
    unfolding used_mb_def l entry_mb_def by (simp add: case_prod_unfold comp_def)
qed

lemma update_usage:
  assumes "0 < d"
  shows "length (AList.update i sb xs) \<le> Suc (length xs)"
    "entry_mb d (AList.update i sb xs) \<le> entry_mb d xs + accounted d (si_MemoryMB (sn_info sb))"
proof -
  have "0 < accounted d mb" for mb using assms by (rule accounted_pos)
  then have "0 \<le> accounted d mb" for mb using less_imp_le by blast
  then show "entry_mb d (AList.update i sb xs) \<le> entry_mb d xs + accounted d (si_MemoryMB (sn_info sb))"
    by (induction xs) (auto simp: entry_mb_def)
  show "length (AList.update i sb xs) \<le> Suc (length xs)" by (induction xs) auto
qed

lemma replace_usage:
  assumes "map_of xs i = Some sb" "si_MemoryMB (sn_info sb') = si_MemoryMB (sn_info sb)"
  shows "length (AList.update i sb' xs) = length xs" "entry_mb d (AList.update i sb' xs) = entry_mb d xs"
  using assms by (induction xs) (auto simp: entry_mb_def split: if_splits)

lemma delete_usage:
  assumes "0 < d"
  shows "length (AList.delete i xs) \<le> length xs" "entry_mb d (AList.delete i xs) \<le> entry_mb d xs"
proof -
  show "length (AList.delete i xs) \<le> length xs" by (simp add: AList.delete_eq)
  have "0 \<le> accounted d mb" for mb using accounted_pos[OF assms, of mb] by simp
  then show "entry_mb d (AList.delete i xs) \<le> entry_mb d xs" by (induction xs) (auto simp: entry_mb_def AList.delete_eq intro: add_increasing)
qed

text \<open>What each operation may do to the registry's entries.\<close>

lemma mgr_Stop_entries:
  "mgr_Stop out i st = (r, st') \<Longrightarrow> mv_sandboxes st' = mv_sandboxes st \<or>
    (\<exists>sb. map_of (mv_sandboxes st) i = Some sb
      \<and> mv_sandboxes st' = AList.update i (sb\<lparr>sn_info := (sn_info sb)\<lparr>si_State := StateSuspended\<rparr>\<rparr>) (mv_sandboxes st))"
  by (auto simp: mgr_Stop_def split: option.splits)

lemma mgr_Remove_entries:
  "mgr_Remove C out rm i force st = (r, st') \<Longrightarrow> mv_sandboxes st' = mv_sandboxes st \<or> mv_sandboxes st' = AList.delete i (mv_sandboxes st)"
  by (auto simp: mgr_Remove_def stop_vm_def Let_def split: option.splits if_splits)

definition shrinks :: "(string \<times> sandbox) list \<Rightarrow> (string \<times> sandbox) list \<Rightarrow> bool" where
  "shrinks ys xs \<longleftrightarrow> length ys \<le> length xs \<and> (\<forall>d > 0. entry_mb d ys \<le> entry_mb d xs)
     \<and> ((\<forall>(i, sb) \<in> set xs. si_State (sn_info sb) \<in> {StateRunning, StateSuspended})
          \<longrightarrow> (\<forall>(i, sb) \<in> set ys. si_State (sn_info sb) \<in> {StateRunning, StateSuspended}))"

lemma shrinks_refl: "shrinks xs xs"
  by (simp add: shrinks_def)

lemma shrinks_trans: "shrinks zs ys \<Longrightarrow> shrinks ys xs \<Longrightarrow> shrinks zs xs"
  unfolding shrinks_def by (meson order_trans)

lemma shrinks_replace:
  assumes "map_of xs i = Some sb" "si_MemoryMB (sn_info sb') = si_MemoryMB (sn_info sb)"
    "si_State (sn_info sb') \<in> {si_State (sn_info sb), StateSuspended}"
  shows "shrinks (AList.update i sb' xs) xs"
  using replace_usage[OF assms(1,2)] map_of_SomeD[OF assms(1)] alist_update_set[of _ _ i sb' xs] assms(3)
  unfolding shrinks_def by fastforce

lemma shrinks_delete: "shrinks (AList.delete i xs) xs"
  using delete_usage[of _ i xs] by (auto simp: shrinks_def AList.delete_eq)

lemma mgr_Stop_shrinks: "mgr_Stop out i st = (r, st') \<Longrightarrow> shrinks (mv_sandboxes st') (mv_sandboxes st)"
  using mgr_Stop_entries shrinks_refl shrinks_replace[of "mv_sandboxes st" i] by fastforce

lemma mgr_Remove_shrinks: "mgr_Remove C out rm i force st = (r, st') \<Longrightarrow> shrinks (mv_sandboxes st') (mv_sandboxes st)"
  using mgr_Remove_entries shrinks_refl shrinks_delete by fastforce

lemma launch_start_state:
  assumes "launch_start C E opts st = (Inr (i, sb), st')"
  shows "si_State (sn_info sb) = StateRunning"
  using assms
proof (cases rule: launch_start_cases)
  case (vm j ov disk images r1)
  then have "r1 = Inr sb" by (cases r1; simp)
  then show ?thesis using launch_vm_cases(5)[OF vm(2)] by (simp add: newSandboxInfo_def)
qed auto

lemma mv_quiet_shrinks:
  assumes "mv_quiet C s s'"
  shows "shrinks (mv_sandboxes (fst s')) (mv_sandboxes (fst s))
    \<and> (\<forall>(i, sb) \<in> set (snd s'). (i, sb) \<in> set (snd s) \<or> si_State (sn_info sb) = StateRunning)"
proof -
  have step: "mv_step C s s'" and len: "length (snd s) \<le> length (snd s')" using assms by (simp_all add: mv_quiet_def)
  from step len show ?thesis
  proof cases
    case (start E opts st i sb st' pend)
    then show ?thesis using launch_start_frame(1)[OF start(3)] launch_start_state[OF start(3)] by (auto simp: shrinks_refl)
  next
    case (start_fails E opts st e st' pend)
    then show ?thesis using launch_start_frame(1)[OF start_fails(3)] by (auto simp: shrinks_refl)
  next
    case (confirm E i st r st' pend)
    obtain e1 st1 where s1: "mgr_Stop (le_Stop E) i st = (e1, st1)" by fastforce
    obtain e2 st2 where s2: "mgr_Remove C (le_Stop2 E) (le_RemoveAll E) i True st1 = (e2, st2)" by fastforce
    have "st' = st \<or> st' = st2" using confirm(3) s1 s2 by (auto simp: confirmGuestServing_def split: if_splits prod.splits option.splits)
    then have "shrinks (mv_sandboxes st') (mv_sandboxes st)"
      using shrinks_trans[OF mgr_Remove_shrinks[OF s2] mgr_Stop_shrinks[OF s1]] shrinks_refl by blast
    then show ?thesis using confirm by auto
  next
    case (stop out i st r st' pend)
    then show ?thesis using mgr_Stop_shrinks[OF stop(3)] by auto
  next
    case (remove out rm i force st r st' pend)
    then show ?thesis using mgr_Remove_shrinks[OF remove(3)] by auto
  next
    case (exec sync att now i req st r st' pend)
    have "shrinks (mv_sandboxes st') (mv_sandboxes st)"
      using mgr_Exec_state[OF exec(3)] shrinks_refl shrinks_replace[of "mv_sandboxes st" i] by fastforce
    then show ?thesis using exec by auto
  qed auto
qed

lemma mv_quiet_states:
  assumes "mv_quiet C s s'" "mv_states s"
  shows "mv_states s'"
  using mv_quiet_shrinks[OF assms(1)] assms(2) unfolding mv_states_def owned_def shrinks_def by fastforce

lemma mv_appear_entries:
  assumes "mv_appear C opts s s'"
  obtains us i sb vs where "snd s = us @ (i, sb) # vs" "si_MemoryMB (sn_info sb) = lo_MemoryMB opts" "snd s' = us @ vs"
    "mv_sandboxes (fst s') = AList.update i sb (mv_sandboxes (fst s))"
  using assms by (auto simp: mv_appear_def launch_register_def registerNotify_def Let_def split: option.splits if_splits)

lemma mv_appear_states:
  assumes "mv_appear C opts s s'" "mv_states s"
  shows "mv_states s'"
proof -
  obtain us i sb vs where a: "snd s = us @ (i, sb) # vs" "si_MemoryMB (sn_info sb) = lo_MemoryMB opts" "snd s' = us @ vs"
    "mv_sandboxes (fst s') = AList.update i sb (mv_sandboxes (fst s))" using assms(1) by (rule mv_appear_entries)
  have "(j, x) \<in> set (owned s)" if "(j, x) \<in> set (owned s')" for j x
    using that a alist_update_set[of j x i sb "mv_sandboxes (fst s)"] by (auto simp: owned_def)
  then show ?thesis using assms(2) unfolding mv_states_def by fast
qed

interpretation microvm_ceiling: admitting_backend mv_listing "mv_quiet C" "mv_appear C" mv_states for C
proof unfold_locales
  fix m m' and opts :: SandboxLaunchOptions and d :: int
  show "mv_states m \<Longrightarrow> mv_quiet C m m' \<Longrightarrow> mv_states m'" by (rule mv_quiet_states)
  show "mv_states m \<Longrightarrow> mv_appear C opts m m' \<Longrightarrow> mv_states m'" by (rule mv_appear_states)
  show "length (live (mv_listing m')) \<le> length (live (mv_listing m))" if "mv_states m" "mv_quiet C m m'"
    using mv_quiet_shrinks[OF that(2)] mv_usage(1)[OF that(1)] mv_usage(1)[OF mv_quiet_states[OF that(2,1)]] by (simp add: shrinks_def)
  show "used_mb d (mv_listing m') \<le> used_mb d (mv_listing m)" if "mv_states m" "mv_quiet C m m'" "0 < d"
    using mv_quiet_shrinks[OF that(2)] mv_usage(2)[OF that(1)] mv_usage(2)[OF mv_quiet_states[OF that(2,1)]] that(3) by (simp add: shrinks_def)
  show "length (live (mv_listing m')) \<le> Suc (length (live (mv_listing m)))" if "mv_states m" "mv_appear C opts m m'"
    using mv_usage(1)[OF that(1)] mv_usage(1)[OF mv_appear_states[OF that(2,1)]] update_usage(1)[of 1]
    by (rule_tac mv_appear_entries[OF that(2)]) simp
  show "used_mb d (mv_listing m') \<le> used_mb d (mv_listing m) + accounted d (lo_MemoryMB opts)"
    if "mv_states m" "mv_appear C opts m m'" "0 < d"
    using mv_usage(2)[OF that(1)] mv_usage(2)[OF mv_appear_states[OF that(2,1)]] update_usage(2)[OF that(3)]
    by (rule_tac mv_appear_entries[OF that(2)]) (simp, metis)
qed

section \<open>Properties\<close>

definition new_host :: "CeilingManager \<Rightarrow> mv_sys host" where
  "new_host c = \<lparr>ho_ceiling = c, ho_backend = (empty_Manager, []), ho_flights = []\<rparr>"

lemma new_host_inv:
  "ceiling_inv mv_listing (new_host (NewCeilingManager maxc maxmb def))" "mv_states (ho_backend (new_host c))"
  by (auto simp: ceiling_inv_def new_host_def NewCeilingManager_def Let_def mv_listing_def mgr_List_def empty_Manager_def
        live_def used_mb_def wrap64_def mv_states_def owned_def)

text \<open>
  C7. The host-wide ceiling is never exceeded: however launches, failures, stops, removals
  and commands of a microVM daemon interleave, the sandboxes it supervises never outnumber the
  cap, and the memory they declare, the default counted for one that declares none, never
  exceeds the memory ceiling; a cap of zero or less is no cap.
\<close>

theorem ceiling_never_exceeded:
  assumes run: "(host_step mv_listing (mv_quiet C) (mv_appear C))\<^sup>*\<^sup>* (new_host (NewCeilingManager maxc maxmb def)) h"
    and range: "maxmb < 2 ^ 61"
  shows "(maxc > 0 \<longrightarrow> int (length (live (mv_listing (ho_backend h)))) \<le> maxc)
    \<and> (maxmb > 0 \<longrightarrow> used_mb (if def \<le> 0 then 2048 else def) (mv_listing (ho_backend h)) \<le> maxmb)"
proof -
  let ?c = "NewCeilingManager maxc maxmb def"
  have I: "ceiling_inv mv_listing h" "cm_maxTotalMemoryMB (ho_ceiling h) = maxmb" "cm_maxConcurrent (ho_ceiling h) = maxc"
    "cm_defaultMemoryMB (ho_ceiling h) = (if def \<le> 0 then 2048 else def)"
    using microvm_ceiling.host_run_inv[OF run new_host_inv(1,2)] range by (simp_all add: new_host_def NewCeilingManager_def)
  have "0 \<le> flights_mb (cm_defaultMemoryMB (ho_ceiling h)) (hidden (ho_flights h))"
    using I(1) by (intro flights_mb_nonneg) (simp add: ceiling_inv_def Let_def)
  then show ?thesis using I(1) unfolding ceiling_inv_def Let_def I(2,3,4)[symmetric] by auto
qed

lemma demo_admitted:
  "reserve (Inr (mv_listing (empty_Manager, []))) (request_mb (NewCeilingManager 1 1024 0) (demo_opts ''SANDBOX1'')) (NewCeilingManager 1 1024 0)
     = (None, (NewCeilingManager 1 1024 0)\<lparr>cm_reservedCount := 1, cm_reservedMB := 512\<rparr>)"
  by (simp add: reserve_def usage_def admit_def mv_listing_def mgr_List_def empty_Manager_def NewCeilingManager_def request_mb_def
        accounted_def demo_opts_def wrap64_def)

theorem ceiling_never_exceeded_witness:
  "\<exists>h. (host_step mv_listing (mv_quiet demo_mv) (mv_appear demo_mv))\<^sup>*\<^sup>* (new_host (NewCeilingManager 1 1024 0)) h
     \<and> mv_sandboxes (fst (ho_backend h)) = [(''SANDBOX1'', demo_sandbox)]
     \<and> length (live (mv_listing (ho_backend h))) \<le> 1 \<and> used_mb 2048 (mv_listing (ho_backend h)) \<le> 1024"
proof -
  let ?c = "NewCeilingManager 1 1024 0" and ?o = "demo_opts ''SANDBOX1''"
  let ?step = "host_step mv_listing (mv_quiet demo_mv) (mv_appear demo_mv)"
  define st where "st = empty_Manager\<lparr>mv_disk := [''/run/mgit/SANDBOX1'' \<mapsto> True], mv_vms := [''SANDBOX1'']\<rparr>"
  define h1 where "h1 = (new_host ?c)\<lparr>ho_ceiling := ?c\<lparr>cm_reservedCount := 1, cm_reservedMB := 512\<rparr>, ho_flights := [\<lparr>fl_opts = ?o, fl_visible = False\<rparr>]\<rparr>"
  define h2 where "h2 = h1\<lparr>ho_backend := (st, [(''SANDBOX1'', demo_sandbox)])\<rparr>"
  define h3 where "h3 = h2\<lparr>ho_backend := (launch_register demo_mv demo_env ''SANDBOX1'' demo_sandbox st, []), ho_flights := [\<lparr>fl_opts = ?o, fl_visible = True\<rparr>]\<rparr>"
  have "?step (new_host ?c) h1"
    using host_step.admitted[of mv_listing "new_host ?c" ?o] demo_admitted by (simp add: new_host_def h1_def)
  moreover have "?step h1 h2"
  proof -
    have "mv_quiet demo_mv (empty_Manager, []) (st, [(''SANDBOX1'', demo_sandbox)])"
      using mv_step.start[OF demo_launch_start] by (simp add: mv_quiet_def st_def)
    then show ?thesis using host_step.quiet[of "mv_quiet demo_mv" h1] by (simp add: h1_def h2_def new_host_def)
  qed
  moreover have "?step h2 h3"
  proof -
    have "si_MemoryMB (sn_info demo_sandbox) = lo_MemoryMB ?o" by (simp add: demo_sandbox_def newSandboxInfo_def)
    then have "mv_appear demo_mv ?o (ho_backend h2) (launch_register demo_mv demo_env ''SANDBOX1'' demo_sandbox st, [])"
      unfolding mv_appear_def
      by (intro exI[of _ "[]"] exI[of _ "''SANDBOX1''"] exI[of _ demo_sandbox] exI[of _ demo_env]) (simp add: h2_def)
    then show ?thesis
      using host_step.appear[of h2 "[]" "\<lparr>fl_opts = ?o, fl_visible = False\<rparr>" "[]" "mv_appear demo_mv"] by (simp add: h1_def h2_def h3_def)
  qed
  ultimately have run: "?step\<^sup>*\<^sup>* (new_host ?c) h3" by (meson converse_rtranclp_into_rtranclp rtranclp.rtrancl_refl)
  have "mv_sandboxes (fst (ho_backend h3)) = [(''SANDBOX1'', demo_sandbox)]" using demo_registered_sandboxes by (simp add: h3_def st_def)
  then show ?thesis using ceiling_never_exceeded[OF run] run by auto
qed

text \<open>
  C36. Admission is exact, and every refusal blames the host: with sums in range, a launch is
  admitted when and only when the count is below its cap and the memory in use, reserved and
  requested fits; every refusal wraps \<open>ErrSandboxCeilingExceeded\<close> and reserves nothing, and an
  admission that is released again leaves the reservations as they were.
\<close>

theorem admission_is_exact:
  assumes "cm_reservedCount c = n" "0 \<le> cm_reservedMB c" "0 < r" "0 < cm_defaultMemoryMB c"
    "used_mb (cm_defaultMemoryMB c) infos + cm_reservedMB c + r \<le> max_int64"
  shows "(fst (reserve (Inr infos) r c) = None \<longleftrightarrow>
      (cm_maxConcurrent c > 0 \<longrightarrow> int (length (live infos)) + n < cm_maxConcurrent c)
      \<and> (cm_maxTotalMemoryMB c > 0 \<longrightarrow> used_mb (cm_defaultMemoryMB c) infos + cm_reservedMB c + r \<le> cm_maxTotalMemoryMB c))
    \<and> (\<forall>e. fst (reserve (Inr infos) r c) = Some e \<longrightarrow> errors_is e ErrSandboxCeilingExceeded \<and> snd (reserve (Inr infos) r c) = c)
    \<and> (fst (reserve (Inr infos) r c) = None \<longrightarrow> unreserve r (snd (reserve (Inr infos) r c)) = c)"
proof -
  have u: "0 \<le> used_mb (cm_defaultMemoryMB c) infos" using assms(4) by (rule used_mb_nonneg)
  have w: "wrap64 (used_mb (cm_defaultMemoryMB c) infos + cm_reservedMB c) = used_mb (cm_defaultMemoryMB c) infos + cm_reservedMB c"
    "wrap64 (used_mb (cm_defaultMemoryMB c) infos + cm_reservedMB c + r) = used_mb (cm_defaultMemoryMB c) infos + cm_reservedMB c + r"
    "wrap64 (cm_reservedMB c) = cm_reservedMB c"
    using u assms(2,3,5) by (intro wrap64_id; simp add: min_int64_def)+
  have res: "reserve (Inr infos) r c = (case admit c (int (length (live infos)) + n) (used_mb (cm_defaultMemoryMB c) infos + cm_reservedMB c) r of
      Some e \<Rightarrow> (Some e, c) | None \<Rightarrow> (None, c\<lparr>cm_reservedCount := cm_reservedCount c + 1, cm_reservedMB := wrap64 (cm_reservedMB c + r)\<rparr>))"
    using assms(1) w(1) by (simp add: reserve_def usage_sum wrap64_add_left)
  have A: "fst (reserve (Inr infos) r c) = None \<longleftrightarrow> admit c (int (length (live infos)) + n) (used_mb (cm_defaultMemoryMB c) infos + cm_reservedMB c) r = None"
    unfolding res by (simp split: option.splits)
  have B: "admit c (int (length (live infos)) + n) (used_mb (cm_defaultMemoryMB c) infos + cm_reservedMB c) r = None \<longleftrightarrow>
      (cm_maxConcurrent c > 0 \<longrightarrow> int (length (live infos)) + n < cm_maxConcurrent c)
      \<and> (cm_maxTotalMemoryMB c > 0 \<longrightarrow> used_mb (cm_defaultMemoryMB c) infos + cm_reservedMB c + r \<le> cm_maxTotalMemoryMB c)"
    using u assms(2) by (auto simp: admit_def w(2))
  have C: "errors_is e ErrSandboxCeilingExceeded \<and> snd (reserve (Inr infos) r c) = c" if "fst (reserve (Inr infos) r c) = Some e" for e
    using that unfolding res by (auto simp: admit_def split: option.splits if_splits)
  have D: "unreserve r (snd (reserve (Inr infos) r c)) = c" if "fst (reserve (Inr infos) r c) = None"
    using that wrap64_add_left[of "cm_reservedMB c + r" "- r"] w(3) assms(1) unfolding res
    by (auto simp: unreserve_def split: option.splits)
  show ?thesis by (intro conjI[OF trans[OF A B]] conjI allI impI) (simp_all add: C D)
qed

theorem admission_is_exact_witness:
  "fst (reserve (Inr []) 512 (NewCeilingManager 1 1024 0)) = None \<and> fst (reserve (Inr []) 2048 (NewCeilingManager 1 1024 0)) \<noteq> None"
proof -
  have "fst (reserve (Inr []) r (NewCeilingManager 1 1024 0)) = None \<longleftrightarrow> r \<le> 1024" if "0 < r" "r \<le> max_int64" for r
    using admission_is_exact[of "NewCeilingManager 1 1024 0" 0 r "[]", THEN conjunct1] that
    by (simp add: NewCeilingManager_def used_mb_def live_def)
  then show ?thesis by (simp add: max_int64_def)
qed

end
