(* ===== verification/Worktree_Plan.thy ===== *)
theory Worktree_Plan
  imports Mgit_Prelude "HOL-Library.List_Lexorder" "HOL-Library.Char_ord" "HOL-Library.Sublist"
begin

text \<open>
  The decision of a worktree sync (\<open>internal/sandboxd/worktreesync/plan.go\<close>, \<open>verify.go\<close>): from
  what the host last delivered, what it has now and what the guest has, which paths are written,
  which deleted and which refuse the sync. A Go map is an association list with distinct keys, in
  the order the iteration happens to take; the theorems hold for every such order. The policy is
  stated once as a table over three optional entries (\<open>verdict\<close>), and the loops are shown to
  compute it.
\<close>

section \<open>Entries and plans\<close>

definition storePrefix :: string where "storePrefix = ''.mgit/''"

definition storeRoot :: string where "storeRoot = ''.mgit''"

record Entry =
  en_Hash :: string
  en_Mode :: "32 word"

type_synonym Manifest = "(string \<times> Entry) list"

datatype Reason = ReasonModifiedInGuest | ReasonCreatedInGuest

record Conflict =
  cf_Path :: string
  cf_Reason :: Reason
  cf_HostAbsent :: bool

record SyncPlan =
  pn_Update :: "string list"
  pn_Delete :: "string list"
  pn_Conflicts :: "Conflict list"
  pn_forced :: bool

definition plan_Empty :: "SyncPlan \<Rightarrow> bool" where
  "plan_Empty p \<longleftrightarrow> pn_Update p = [] \<and> pn_Delete p = [] \<and> pn_Conflicts p = []"

definition plan_Blocked :: "SyncPlan \<Rightarrow> bool" where
  "plan_Blocked p \<longleftrightarrow> \<not> pn_forced p \<and> pn_Conflicts p \<noteq> []"

definition Overridden :: "SyncPlan \<Rightarrow> string list" where
  "Overridden p = (if \<not> pn_forced p then [] else map cf_Path (pn_Conflicts p))"

fun forced_loop :: "Conflict list \<Rightarrow> SyncPlan \<Rightarrow> SyncPlan" where
  "forced_loop [] p = p"
| "forced_loop (c # cs) p =
     forced_loop cs (if cf_HostAbsent c then p\<lparr>pn_Delete := pn_Delete p @ [cf_Path c]\<rparr>
                     else p\<lparr>pn_Update := pn_Update p @ [cf_Path c]\<rparr>)"

definition plan_Forced :: "SyncPlan \<Rightarrow> SyncPlan" where
  "plan_Forced p =
     (let q = forced_loop (pn_Conflicts p) (p\<lparr>pn_forced := True\<rparr>)
      in q\<lparr>pn_Update := sort (pn_Update q), pn_Delete := sort (pn_Delete q)\<rparr>)"

section \<open>The classification\<close>

definition skipPath :: "string \<Rightarrow> bool" where
  "skipPath path \<longleftrightarrow> path = storeRoot \<or> prefix storePrefix path \<or> path = ''.git'' \<or> prefix ''.git/'' path"

definition compute_path :: "Manifest \<Rightarrow> Manifest \<Rightarrow> string \<times> Entry \<Rightarrow> SyncPlan \<Rightarrow> SyncPlan" where
  "compute_path delivered guest x p =
     (case x of (path, hostEntry) \<Rightarrow>
        if skipPath path then p
        else if map_of delivered path = Some hostEntry then p
        else if map_of delivered path = None \<and> map_of guest path \<noteq> None then
          p\<lparr>pn_Conflicts := pn_Conflicts p @ [\<lparr>cf_Path = path, cf_Reason = ReasonCreatedInGuest, cf_HostAbsent = False\<rparr>]\<rparr>
        else if map_of delivered path \<noteq> None \<and> map_of guest path \<noteq> None \<and> map_of guest path \<noteq> map_of delivered path then
          p\<lparr>pn_Conflicts := pn_Conflicts p @ [\<lparr>cf_Path = path, cf_Reason = ReasonModifiedInGuest, cf_HostAbsent = False\<rparr>]\<rparr>
        else p\<lparr>pn_Update := pn_Update p @ [path]\<rparr>)"

definition delete_path :: "Manifest \<Rightarrow> Manifest \<Rightarrow> string \<times> Entry \<Rightarrow> SyncPlan \<Rightarrow> SyncPlan" where
  "delete_path host guest x p =
     (case x of (path, deliveredEntry) \<Rightarrow>
        if skipPath path then p
        else if map_of host path \<noteq> None then p
        else (case map_of guest path of
          None \<Rightarrow> p
        | Some guestEntry \<Rightarrow>
            if guestEntry \<noteq> deliveredEntry then
              p\<lparr>pn_Conflicts := pn_Conflicts p @ [\<lparr>cf_Path = path, cf_Reason = ReasonModifiedInGuest, cf_HostAbsent = True\<rparr>]\<rparr>
            else p\<lparr>pn_Delete := pn_Delete p @ [path]\<rparr>))"

definition appendDeletes :: "Manifest \<Rightarrow> Manifest \<Rightarrow> Manifest \<Rightarrow> SyncPlan \<Rightarrow> SyncPlan" where
  "appendDeletes delivered host guest p = fold (delete_path host guest) delivered p"

definition Compute :: "Manifest \<Rightarrow> Manifest \<Rightarrow> Manifest \<Rightarrow> SyncPlan" where
  "Compute delivered host guest =
     (let p = fold (compute_path delivered guest) host \<lparr>pn_Update = [], pn_Delete = [], pn_Conflicts = [], pn_forced = False\<rparr>;
          q = appendDeletes delivered host guest p
      in q\<lparr>pn_Update := sort (pn_Update q), pn_Delete := sort (pn_Delete q), pn_Conflicts := sort_key cf_Path (pn_Conflicts q)\<rparr>)"

section \<open>Reading the delivery back\<close>

datatype undelivered = Absent string | StaleContent string | WrongMode string | StillPresent string

definition update_missing :: "Manifest \<Rightarrow> Manifest \<Rightarrow> string \<Rightarrow> undelivered list" where
  "update_missing intended actual path =
     (case map_of intended path of
        None \<Rightarrow> []
      | Some want \<Rightarrow>
          (case map_of actual path of
             None \<Rightarrow> [Absent path]
           | Some got \<Rightarrow>
               if en_Hash got \<noteq> en_Hash want then [StaleContent path]
               else if en_Mode got \<noteq> en_Mode want then [WrongMode path]
               else []))"

definition delete_missing :: "Manifest \<Rightarrow> string \<Rightarrow> undelivered list" where
  "delete_missing actual path = (if map_of actual path \<noteq> None then [StillPresent path] else [])"

definition VerifyDelivery :: "SyncPlan \<Rightarrow> Manifest \<Rightarrow> Manifest \<Rightarrow> undelivered list" where
  "VerifyDelivery plan intended actual =
     concat (map (update_missing intended actual) (pn_Update plan)) @ concat (map (delete_missing actual) (pn_Delete plan))"

definition deliveredEntries :: "Manifest \<Rightarrow> string list \<Rightarrow> Manifest" where
  "deliveredEntries host updated =
     concat (map (\<lambda>path. case map_of host path of None \<Rightarrow> [] | Some e \<Rightarrow> [(path, e)]) updated)"

section \<open>The policy\<close>

datatype decision = Keep | Write | Erase | Refuse Reason bool

text \<open>
  The collision policy of one path, from what was delivered, what the host has and what the guest
  has.
\<close>

fun verdict :: "Entry option \<Rightarrow> Entry option \<Rightarrow> Entry option \<Rightarrow> decision" where
  "verdict None None g = Keep"
| "verdict None (Some h) None = Write"
| "verdict None (Some h) (Some g) = Refuse ReasonCreatedInGuest False"
| "verdict (Some d) None None = Keep"
| "verdict (Some d) None (Some g) = (if g = d then Erase else Refuse ReasonModifiedInGuest True)"
| "verdict (Some d) (Some h) None = (if h = d then Keep else Write)"
| "verdict (Some d) (Some h) (Some g) =
     (if h = d then Keep else if g = d then Write else Refuse ReasonModifiedInGuest False)"

definition path_verdict :: "Manifest \<Rightarrow> Manifest \<Rightarrow> Manifest \<Rightarrow> string \<Rightarrow> decision" where
  "path_verdict delivered host guest path =
     (if skipPath path then Keep else verdict (map_of delivered path) (map_of host path) (map_of guest path))"


text \<open>What the two loops see of it: a path the host has, and a delivered path the host lacks.\<close>

definition host_verdict :: "Manifest \<Rightarrow> Manifest \<Rightarrow> string \<times> Entry \<Rightarrow> decision" where
  "host_verdict delivered guest x =
     (if skipPath (fst x) then Keep else verdict (map_of delivered (fst x)) (Some (snd x)) (map_of guest (fst x)))"

definition gone_verdict :: "Manifest \<Rightarrow> Manifest \<Rightarrow> string \<times> Entry \<Rightarrow> decision" where
  "gone_verdict host guest x =
     (if skipPath (fst x) \<or> map_of host (fst x) \<noteq> None then Keep else verdict (Some (snd x)) None (map_of guest (fst x)))"

definition refusal :: "string \<times> Entry \<Rightarrow> decision \<Rightarrow> Conflict list" where
  "refusal x v = (case v of Refuse r gone \<Rightarrow> [\<lparr>cf_Path = fst x, cf_Reason = r, cf_HostAbsent = gone\<rparr>] | _ \<Rightarrow> [])"

lemma compute_path_verdict:
  "compute_path delivered guest x p =
     p\<lparr>pn_Update := pn_Update p @ (if host_verdict delivered guest x = Write then [fst x] else []),
       pn_Conflicts := pn_Conflicts p @ refusal x (host_verdict delivered guest x)\<rparr>"
  by (cases x; cases "map_of delivered (fst x)"; cases "map_of guest (fst x)")
    (auto simp: compute_path_def host_verdict_def refusal_def)

lemma delete_path_verdict:
  "delete_path host guest x p =
     p\<lparr>pn_Delete := pn_Delete p @ (if gone_verdict host guest x = Erase then [fst x] else []),
       pn_Conflicts := pn_Conflicts p @ refusal x (gone_verdict host guest x)\<rparr>"
  by (cases x; cases "map_of guest (fst x)") (auto simp: delete_path_def gone_verdict_def refusal_def)

lemma fold_compute_path:
  "fold (compute_path delivered guest) xs p =
     p\<lparr>pn_Update := pn_Update p @ map fst (filter (\<lambda>x. host_verdict delivered guest x = Write) xs),
       pn_Conflicts := pn_Conflicts p @ concat (map (\<lambda>x. refusal x (host_verdict delivered guest x)) xs)\<rparr>"
  by (induction xs arbitrary: p) (simp_all add: compute_path_verdict)

lemma fold_delete_path:
  "fold (delete_path host guest) xs p =
     p\<lparr>pn_Delete := pn_Delete p @ map fst (filter (\<lambda>x. gone_verdict host guest x = Erase) xs),
       pn_Conflicts := pn_Conflicts p @ concat (map (\<lambda>x. refusal x (gone_verdict host guest x)) xs)\<rparr>"
  by (induction xs arbitrary: p) (simp_all add: delete_path_verdict)

lemmas Compute_lists = Compute_def appendDeletes_def Let_def fold_compute_path fold_delete_path

lemma host_verdict_path: "map_of host path = Some h \<Longrightarrow> host_verdict delivered guest (path, h) = path_verdict delivered host guest path"
  by (simp add: host_verdict_def path_verdict_def)

lemma gone_verdict_path:
  assumes "map_of delivered path = Some d"
  shows "gone_verdict host guest (path, d) = (if map_of host path = None then path_verdict delivered host guest path else Keep)"
  using assms by (auto simp: gone_verdict_def path_verdict_def)

lemma verdict_Write: "verdict d h g = Write \<Longrightarrow> \<exists>e. h = Some e \<and> d \<noteq> Some e"
  by (cases "(d, h, g)" rule: verdict.cases) (auto split: if_splits)

lemma verdict_Erase: "verdict d h g = Erase \<Longrightarrow> h = None \<and> d \<noteq> None \<and> g = d"
  by (cases "(d, h, g)" rule: verdict.cases) (auto split: if_splits)

lemma verdict_Refuse: "verdict d h g = Refuse r gone \<Longrightarrow> g \<noteq> None \<and> g \<noteq> d \<and> h \<noteq> d \<and> (gone \<longleftrightarrow> h = None)"
  by (cases "(d, h, g)" rule: verdict.cases) (auto split: if_splits)

lemma path_verdict_eq: "path_verdict delivered host guest path = v \<Longrightarrow> v \<noteq> Keep \<Longrightarrow>
    \<not> skipPath path \<and> verdict (map_of delivered path) (map_of host path) (map_of guest path) = v"
  by (auto simp: path_verdict_def split: if_splits)

lemma Compute_Update:
  assumes "distinct (map fst host)"
  shows "path \<in> set (pn_Update (Compute delivered host guest)) \<longleftrightarrow> path_verdict delivered host guest path = Write"
proof -
  have "path \<in> set (pn_Update (Compute delivered host guest)) \<longleftrightarrow>
      (\<exists>h. map_of host path = Some h \<and> host_verdict delivered guest (path, h) = Write)"
    using assms by (force simp: Compute_lists)
  then show ?thesis using path_verdict_eq[of delivered host guest path Write]
    by (auto simp: host_verdict_path dest!: verdict_Write)
qed

lemma Compute_Delete:
  assumes "distinct (map fst delivered)"
  shows "path \<in> set (pn_Delete (Compute delivered host guest)) \<longleftrightarrow> path_verdict delivered host guest path = Erase"
proof -
  have "path \<in> set (pn_Delete (Compute delivered host guest)) \<longleftrightarrow>
      (\<exists>d. map_of delivered path = Some d \<and> gone_verdict host guest (path, d) = Erase)"
    using assms by (force simp: Compute_lists)
  then show ?thesis using path_verdict_eq[of delivered host guest path Erase]
    by (auto simp: gone_verdict_path split: if_splits dest!: verdict_Erase)
qed

lemma refusal_mem: "c \<in> set (refusal x v) \<longleftrightarrow> v = Refuse (cf_Reason c) (cf_HostAbsent c) \<and> cf_Path c = fst x"
  by (auto simp: refusal_def split: decision.splits)

lemma Compute_Conflicts:
  assumes "distinct (map fst delivered)" "distinct (map fst host)"
  shows "c \<in> set (pn_Conflicts (Compute delivered host guest)) \<longleftrightarrow>
    path_verdict delivered host guest (cf_Path c) = Refuse (cf_Reason c) (cf_HostAbsent c)"
proof -
  let ?v = "path_verdict delivered host guest (cf_Path c)"
  have "c \<in> set (pn_Conflicts (Compute delivered host guest)) \<longleftrightarrow>
      (\<exists>h. map_of host (cf_Path c) = Some h \<and> host_verdict delivered guest (cf_Path c, h) = Refuse (cf_Reason c) (cf_HostAbsent c))
      \<or> (\<exists>d. map_of delivered (cf_Path c) = Some d \<and> gone_verdict host guest (cf_Path c, d) = Refuse (cf_Reason c) (cf_HostAbsent c))"
    using assms by (force simp: Compute_lists refusal_mem)
  also have "\<dots> \<longleftrightarrow> (\<exists>h. map_of host (cf_Path c) = Some h) \<and> ?v = Refuse (cf_Reason c) (cf_HostAbsent c)
      \<or> (\<exists>d. map_of delivered (cf_Path c) = Some d) \<and> map_of host (cf_Path c) = None \<and> ?v = Refuse (cf_Reason c) (cf_HostAbsent c)"
    by (auto simp: host_verdict_path gone_verdict_path split: if_splits)
  also have "\<dots> \<longleftrightarrow> ?v = Refuse (cf_Reason c) (cf_HostAbsent c)"
    using path_verdict_eq[of delivered host guest "cf_Path c" "Refuse (cf_Reason c) (cf_HostAbsent c)"]
    by (auto dest!: verdict_Refuse)
  finally show ?thesis .
qed

lemma Compute_sorted:
  assumes "distinct (map fst delivered)" "distinct (map fst host)"
  shows "sorted (pn_Update (Compute delivered host guest)) \<and> distinct (pn_Update (Compute delivered host guest))"
    and "sorted (pn_Delete (Compute delivered host guest)) \<and> distinct (pn_Delete (Compute delivered host guest))"
    and "sorted (map cf_Path (pn_Conflicts (Compute delivered host guest)))"
    and "\<not> pn_forced (Compute delivered host guest)"
  using assms by (simp_all add: Compute_lists distinct_map_filter)

lemma forced_loop_lists:
  "forced_loop cs p = p\<lparr>pn_Update := pn_Update p @ map cf_Path (filter (\<lambda>c. \<not> cf_HostAbsent c) cs),
     pn_Delete := pn_Delete p @ map cf_Path (filter cf_HostAbsent cs)\<rparr>"
  by (induction cs arbitrary: p) simp_all

lemma plan_Forced_sets:
  "set (pn_Update (plan_Forced p)) = set (pn_Update p) \<union> cf_Path ` {c \<in> set (pn_Conflicts p). \<not> cf_HostAbsent c}"
  "set (pn_Delete (plan_Forced p)) = set (pn_Delete p) \<union> cf_Path ` {c \<in> set (pn_Conflicts p). cf_HostAbsent c}"
  "pn_Conflicts (plan_Forced p) = pn_Conflicts p" "pn_forced (plan_Forced p)"
  by (simp_all add: plan_Forced_def forced_loop_lists Let_def)

text \<open>The plan does not depend on the order in which the maps are iterated.\<close>

lemma Compute_order:
  assumes "distinct (map fst delivered)" "distinct (map fst host)"
  shows "pn_Update (Compute delivered host guest) = sorted_list_of_set {p. path_verdict delivered host guest p = Write}"
    and "pn_Delete (Compute delivered host guest) = sorted_list_of_set {p. path_verdict delivered host guest p = Erase}"
proof -
  have "{p. path_verdict delivered host guest p = Write} = set (pn_Update (Compute delivered host guest))"
    "{p. path_verdict delivered host guest p = Erase} = set (pn_Delete (Compute delivered host guest))"
    using Compute_Update[OF assms(2)] Compute_Delete[OF assms(1)] by auto
  then show "pn_Update (Compute delivered host guest) = sorted_list_of_set {p. path_verdict delivered host guest p = Write}"
    "pn_Delete (Compute delivered host guest) = sorted_list_of_set {p. path_verdict delivered host guest p = Erase}"
    using Compute_sorted[OF assms] by (simp_all add: sorted_list_of_set.idem_if_sorted_distinct)
qed



end
