(* ===== verification/Host_Disk.thy ===== *)
theory Host_Disk
  imports Go_Filepath "HOL-Library.AList"
begin

text \<open>
  The part of the operating system's file interface that the sources use to write trees of files:
  \<open>os.Lstat\<close>, \<open>os.MkdirAll\<close>, \<open>os.Remove\<close>, \<open>os.OpenFile\<close> with \<open>O_CREATE|O_TRUNC\<close>, \<open>os.Symlink\<close> and
  \<open>os.Truncate\<close>. A disk maps the elements of an absolute name, free of links, to a node; the
  kernel resolves the directory part of every name it is given, following links, at most forty of
  them. Permissions to search or write a directory are not modelled: a refusal by the system is an
  argument of the operation that meets it.
\<close>

section \<open>Nodes and name resolution\<close>

datatype node = Directory | Regular "32 word" "byte list" | Symlink string

type_synonym disk = "(string list \<times> node) list"

abbreviation (input) ENOENT :: err where "ENOENT \<equiv> Errorf ''no such file or directory''"
abbreviation (input) ENOTDIR :: err where "ENOTDIR \<equiv> Errorf ''not a directory''"
abbreviation (input) ELOOP :: err where "ELOOP \<equiv> Errorf ''too many levels of symbolic links''"
abbreviation (input) EEXIST :: err where "EEXIST \<equiv> Errorf ''file exists''"
abbreviation (input) EISDIR :: err where "EISDIR \<equiv> Errorf ''is a directory''"
abbreviation (input) ENOTEMPTY :: err where "ENOTEMPTY \<equiv> Errorf ''directory not empty''"

definition IsNotExist :: "err \<Rightarrow> bool" where
  "IsNotExist e \<longleftrightarrow> e = ENOENT"

text \<open>The directory a name denotes, links followed; the first argument bounds the links.\<close>

function dir_walk :: "nat \<Rightarrow> disk \<Rightarrow> string list \<Rightarrow> string list \<Rightarrow> string list result" where
  "dir_walk n D cur [] = Inr cur"
| "dir_walk n D cur (c # cs) =
     (if c = [] \<or> c = ''.'' then dir_walk n D cur cs
      else if c = ''..'' then dir_walk n D (butlast cur) cs
      else (case map_of D (cur @ [c]) of
        None \<Rightarrow> Inl ENOENT
      | Some Directory \<Rightarrow> dir_walk n D (cur @ [c]) cs
      | Some (Regular _ _) \<Rightarrow> Inl ENOTDIR
      | Some (Symlink t) \<Rightarrow>
          (case n of 0 \<Rightarrow> Inl ELOOP
           | Suc m \<Rightarrow> dir_walk m D (if path_is_abs t then [] else cur) (split_on CHR ''/'' t @ cs))))"
  by pat_completeness auto
termination by (relation "measures [\<lambda>(n, _, _, _). n, \<lambda>(_, _, _, cs). length cs]") auto

definition max_links :: nat where "max_links = 40"

definition real_dir :: "disk \<Rightarrow> string list \<Rightarrow> string list result" where
  "real_dir D ws = dir_walk max_links D [] ws"

text \<open>The name of an entry itself: its directory resolved, the last element not followed.\<close>

definition real_name :: "disk \<Rightarrow> string list \<Rightarrow> string list result" where
  "real_name D ws = (case real_dir D (butlast ws) of Inl e \<Rightarrow> Inl e | Inr r \<Rightarrow> Inr (r @ [last ws]))"

definition os_Lstat :: "disk \<Rightarrow> string list \<Rightarrow> node result" where
  "os_Lstat D ws =
     (case real_name D ws of
        Inl e \<Rightarrow> Inl e
      | Inr r \<Rightarrow> (case map_of D r of None \<Rightarrow> Inl ENOENT | Some nd \<Rightarrow> Inr nd))"

section \<open>Operations\<close>

text \<open>\<open>os.MkdirAll\<close>, prefix by prefix: a prefix that is a directory, links followed, is passed.\<close>

fun mkdir_all :: "disk \<Rightarrow> string list \<Rightarrow> string list \<Rightarrow> err option \<times> disk" where
  "mkdir_all D pre [] = (None, D)"
| "mkdir_all D pre (c # cs) =
     (case real_dir D (pre @ [c]) of
        Inr _ \<Rightarrow> mkdir_all D (pre @ [c]) cs
      | Inl e \<Rightarrow>
          (case real_name D (pre @ [c]) of
             Inl e' \<Rightarrow> (Some e', D)
           | Inr r \<Rightarrow> if map_of D r = None then mkdir_all (AList.update r Directory D) (pre @ [c]) cs
                     else (Some e, D)))"

definition os_MkdirAll :: "string list \<Rightarrow> disk \<Rightarrow> err option \<times> disk" where
  "os_MkdirAll ws D = mkdir_all D [] ws"

definition os_Remove :: "string list \<Rightarrow> disk \<Rightarrow> err option \<times> disk" where
  "os_Remove ws D =
     (case real_name D ws of
        Inl e \<Rightarrow> (Some e, D)
      | Inr r \<Rightarrow>
          (case map_of D r of
             None \<Rightarrow> (Some ENOENT, D)
           | Some nd \<Rightarrow>
               if nd = Directory \<and> (\<exists>x \<in> set D. strict_prefix r (fst x)) then (Some ENOTEMPTY, D)
               else (None, AList.delete r D)))"

text \<open>
  \<open>os.OpenFile\<close> with \<open>O_CREATE|O_TRUNC\<close>. With \<open>O_NOFOLLOW\<close> a link as the last element is refused.
  The opened file is returned as its name on the disk.
\<close>

definition open_trunc_nofollow :: "string list \<Rightarrow> 32 word \<Rightarrow> disk \<Rightarrow> string list result \<times> disk" where
  "open_trunc_nofollow ws perm D =
     (case real_name D ws of
        Inl e \<Rightarrow> (Inl e, D)
      | Inr r \<Rightarrow>
          (case map_of D r of
             None \<Rightarrow> (Inr r, AList.update r (Regular perm []) D)
           | Some (Regular p _) \<Rightarrow> (Inr r, AList.update r (Regular p []) D)
           | Some Directory \<Rightarrow> (Inl EISDIR, D)
           | Some (Symlink _) \<Rightarrow> (Inl ELOOP, D)))"

definition os_Symlink :: "string \<Rightarrow> string list \<Rightarrow> disk \<Rightarrow> err option \<times> disk" where
  "os_Symlink target ws D =
     (case real_name D ws of
        Inl e \<Rightarrow> (Some e, D)
      | Inr r \<Rightarrow> if map_of D r \<noteq> None then (Some EEXIST, D) else (None, AList.update r (Symlink target) D))"

section \<open>Disks without links on the way\<close>

definition all_dirs :: "disk \<Rightarrow> string list \<Rightarrow> string list \<Rightarrow> bool" where
  "all_dirs D cur cs \<longleftrightarrow> (\<forall>a. prefix a cs \<and> a \<noteq> [] \<longrightarrow> map_of D (cur @ a) = Some Directory)"

definition no_links :: "disk \<Rightarrow> string list \<Rightarrow> string list \<Rightarrow> bool" where
  "no_links D cur cs \<longleftrightarrow> (\<forall>a t. prefix a cs \<and> a \<noteq> [] \<longrightarrow> map_of D (cur @ a) \<noteq> Some (Symlink t))"

lemma all_dirs_Nil [simp]: "all_dirs D cur []"
  by (simp add: all_dirs_def)

lemma all_dirs_Cons [simp]: "all_dirs D cur (c # cs) \<longleftrightarrow> map_of D (cur @ [c]) = Some Directory \<and> all_dirs D (cur @ [c]) cs"
  by (auto simp: all_dirs_def prefix_Cons)

lemma no_links_Nil [simp]: "no_links D cur []"
  by (simp add: no_links_def)

lemma no_links_Cons [simp]:
  "no_links D cur (c # cs) \<longleftrightarrow> (\<forall>t. map_of D (cur @ [c]) \<noteq> Some (Symlink t)) \<and> no_links D (cur @ [c]) cs"
  by (auto simp: no_links_def prefix_Cons)

lemma dir_walk_plain:
  assumes "names_ok cs" "no_links D cur cs"
  shows "dir_walk n D cur cs = Inr r \<longleftrightarrow> r = cur @ cs \<and> all_dirs D cur cs"
  using assms
proof (induction cs arbitrary: cur)
  case (Cons c cs)
  then have "c \<noteq> []" "c \<noteq> ''.''" "c \<noteq> ''..''" by (auto simp: plain_comp_def)
  then show ?case using Cons by (auto split: option.splits node.splits)
qed auto

lemma real_dir_plain: "names_ok ws \<Longrightarrow> no_links D [] ws \<Longrightarrow> real_dir D ws = Inr r \<longleftrightarrow> r = ws \<and> all_dirs D [] ws"
  using dir_walk_plain[of ws D "[]"] by (simp add: real_dir_def)

lemma real_name_plain:
  assumes "names_ok ws" "ws \<noteq> []" "no_links D [] (butlast ws)"
  shows "real_name D ws = Inr r \<longleftrightarrow> r = ws \<and> all_dirs D [] (butlast ws)"
proof -
  have "names_ok (butlast ws)" using assms(1) by (meson in_set_butlastD names_ok_def)
  then have dir: "real_dir D (butlast ws) = Inr q \<longleftrightarrow> q = butlast ws \<and> all_dirs D [] (butlast ws)" for q
    using real_dir_plain assms(3) by blast
  have "butlast ws @ [last ws] = ws" using assms(2) by simp
  then show ?thesis
  proof (cases "real_dir D (butlast ws)")
    case (Inl e)
    then show ?thesis using dir[of "butlast ws"] by (simp add: real_name_def)
  next
    case (Inr q)
    then show ?thesis using dir[of q] \<open>butlast ws @ [last ws] = ws\<close> by (auto simp: real_name_def)
  qed
qed

lemma no_links_prefix: "no_links D cur cs \<Longrightarrow> prefix as cs \<Longrightarrow> no_links D cur as"
  unfolding no_links_def by (meson prefix_order.trans)

lemma all_dirs_prefix: "all_dirs D cur cs \<Longrightarrow> prefix as cs \<Longrightarrow> all_dirs D cur as"
  unfolding all_dirs_def by (meson prefix_order.trans)

lemma all_dirs_no_links: "all_dirs D cur cs \<Longrightarrow> no_links D cur cs"
  by (auto simp: all_dirs_def no_links_def)

lemma all_dirs_append [simp]: "all_dirs D cur (as @ bs) \<longleftrightarrow> all_dirs D cur as \<and> all_dirs D (cur @ as) bs"
  by (induction as arbitrary: cur) auto

lemma no_links_append [simp]: "no_links D cur (as @ bs) \<longleftrightarrow> no_links D cur as \<and> no_links D (cur @ as) bs"
  by (induction as arbitrary: cur) auto

section \<open>What an operation may change\<close>

text \<open>\<open>D'\<close> is \<open>D\<close> but for the names in \<open>P\<close> and for directories that were added.\<close>

definition changes_at :: "string list set \<Rightarrow> disk \<Rightarrow> disk \<Rightarrow> bool" where
  "changes_at P D D' \<longleftrightarrow> (\<forall>q. q \<notin> P \<longrightarrow> map_of D' q = map_of D q \<or> map_of D q = None \<and> map_of D' q = Some Directory)"

lemma changes_at_refl [simp, intro]: "changes_at P D D"
  by (simp add: changes_at_def)

lemma changes_at_trans: "changes_at P D D1 \<Longrightarrow> changes_at Q D1 D2 \<Longrightarrow> changes_at (P \<union> Q) D D2"
  unfolding changes_at_def by (metis UnCI option.distinct(1))

lemma changes_at_mono: "changes_at P D D' \<Longrightarrow> P \<subseteq> Q \<Longrightarrow> changes_at Q D D'"
  unfolding changes_at_def by blast

lemma changes_at_trans_same: "changes_at P D D1 \<Longrightarrow> changes_at P D1 D2 \<Longrightarrow> changes_at P D D2"
  using changes_at_trans[of P D D1 P D2] by simp

lemma changes_at_update [intro]: "p \<in> P \<Longrightarrow> changes_at P D (AList.update p nd D)"
  by (auto simp: changes_at_def update_conv')

lemma changes_at_delete [intro]: "p \<in> P \<Longrightarrow> changes_at P D (AList.delete p D)"
  by (auto simp: changes_at_def delete_conv')

lemma changes_at_leaf: "changes_at P D D' \<Longrightarrow> q \<notin> P \<Longrightarrow> map_of D q = Some nd \<Longrightarrow> map_of D' q = Some nd"
  unfolding changes_at_def by (metis option.distinct(1))

lemma changes_at_no_links:
  assumes "changes_at P D D'" "no_links D cur cs" "\<forall>a. prefix a cs \<and> a \<noteq> [] \<longrightarrow> cur @ a \<notin> P"
  shows "no_links D' cur cs"
  unfolding no_links_def
proof (intro allI impI)
  fix a t assume a: "prefix a cs \<and> a \<noteq> []"
  then have "map_of D (cur @ a) \<noteq> Some (Symlink t)" using assms(2) by (auto simp: no_links_def)
  moreover have "cur @ a \<notin> P" using a assms(3) by blast
  ultimately show "map_of D' (cur @ a) \<noteq> Some (Symlink t)" using assms(1) by (force simp: changes_at_def)
qed

lemma mkdir_all_changes: "mkdir_all D pre cs = (r, D') \<Longrightarrow> changes_at {} D D'"
proof (induction D pre cs rule: mkdir_all.induct)
  case (2 D pre c cs)
  show ?case
  proof (cases "real_dir D (pre @ [c])")
    case (Inl e)
    show ?thesis
    proof (cases "real_name D (pre @ [c])")
      case (Inr q)
      show ?thesis
      proof (cases "map_of D q = None")
        case True
        have "changes_at {} (AList.update q Directory D) D'" using 2 Inl Inr True by simp
        moreover have "changes_at {} D (AList.update q Directory D)" using True by (simp add: changes_at_def update_conv')
        ultimately show ?thesis by (blast intro: changes_at_trans_same)
      qed (use 2 Inl Inr in \<open>simp split: if_splits\<close>)
    qed (use 2 Inl in simp)
  qed (use 2 in simp)
qed simp

lemma os_MkdirAll_changes: "os_MkdirAll ws D = (r, D') \<Longrightarrow> changes_at {} D D'"
  by (simp add: os_MkdirAll_def mkdir_all_changes)

lemma mkdir_all_dirs:
  assumes "mkdir_all D pre cs = (None, D')" "names_ok (pre @ cs)" "no_links D [] (pre @ cs)" "all_dirs D [] pre"
  shows "all_dirs D' [] (pre @ cs)"
  using assms
proof (induction D pre cs rule: mkdir_all.induct)
  case (2 D pre c cs)
  have pre: "real_dir D (pre @ [c]) = Inr r \<longleftrightarrow> r = pre @ [c] \<and> all_dirs D [] (pre @ [c])" for r
    using 2 real_dir_plain[of "pre @ [c]" D] by simp
  have nm: "real_name D (pre @ [c]) = Inr (pre @ [c])"
    using "2.prems" real_name_plain[of "pre @ [c]" D "pre @ [c]"] all_dirs_no_links by simp
  show ?case
  proof (cases "real_dir D (pre @ [c])")
    case (Inr r)
    then have "all_dirs D [] (pre @ [c])" using pre[of r] by simp
    then show ?thesis using "2.IH"(2)[OF Inr] "2.prems" Inr by simp
  next
    case (Inl e)
    then have none: "map_of D (pre @ [c]) = None" and run: "mkdir_all (AList.update (pre @ [c]) Directory D) (pre @ [c]) cs = (None, D')"
      using "2.prems"(1) nm by (auto split: if_splits)
    have ch: "changes_at {} D (AList.update (pre @ [c]) Directory D)" using none by (simp add: changes_at_def update_conv')
    have "no_links (AList.update (pre @ [c]) Directory D) [] (pre @ c # cs)"
      by (rule changes_at_no_links[OF ch "2.prems"(3)]) simp
    moreover have "all_dirs (AList.update (pre @ [c]) Directory D) [] (pre @ [c])"
      using "2.prems"(4) by (auto simp: all_dirs_def update_conv' prefix_snoc)
    ultimately show ?thesis using "2.IH"(1)[OF Inl nm none run] "2.prems"(2) by simp
  qed
qed simp

lemma os_MkdirAll_dirs:
  "os_MkdirAll ws D = (None, D') \<Longrightarrow> names_ok ws \<Longrightarrow> no_links D [] ws \<Longrightarrow> all_dirs D' [] ws"
  using mkdir_all_dirs[of D "[]" ws D'] by (simp add: os_MkdirAll_def)

lemma mkdir_all_ok:
  assumes "names_ok (pre @ cs)" "all_dirs D [] pre"
    "\<forall>a. prefix a cs \<and> a \<noteq> [] \<longrightarrow> map_of D (pre @ a) = None \<or> map_of D (pre @ a) = Some Directory"
  shows "\<exists>D'. mkdir_all D pre cs = (None, D')"
  using assms
proof (induction D pre cs rule: mkdir_all.induct)
  case (2 D pre c cs)
  have c: "map_of D (pre @ [c]) = None \<or> map_of D (pre @ [c]) = Some Directory" using "2.prems"(3) by simp
  have rest: "prefix a cs \<and> a \<noteq> [] \<Longrightarrow> map_of D ((pre @ [c]) @ a) = None \<or> map_of D ((pre @ [c]) @ a) = Some Directory" for a
    using "2.prems"(3)[rule_format, of "c # a"] by simp
  have nl: "no_links D [] pre" using all_dirs_no_links "2.prems"(2) by blast
  have pre: "real_dir D (pre @ [c]) = Inr r \<longleftrightarrow> r = pre @ [c] \<and> all_dirs D [] (pre @ [c])" for r
  proof (rule real_dir_plain)
    show "no_links D [] (pre @ [c])" using nl c by auto
  qed (use "2.prems"(1) in simp)
  have nm: "real_name D (pre @ [c]) = Inr (pre @ [c])"
    using "2.prems"(1,2) nl real_name_plain[of "pre @ [c]" D "pre @ [c]"] by simp
  show ?case
  proof (cases "real_dir D (pre @ [c])")
    case (Inr r)
    then have "all_dirs D [] (pre @ [c])" using pre[of r] by simp
    then show ?thesis using "2.IH"(2)[OF Inr] "2.prems"(1) Inr rest by simp
  next
    case (Inl e)
    have "map_of D (pre @ [c]) = None" using c pre[of "pre @ [c]"] Inl "2.prems"(2) by auto
    moreover have "all_dirs (AList.update (pre @ [c]) Directory D) [] (pre @ [c])"
      using "2.prems"(2) by (auto simp: all_dirs_def update_conv' prefix_snoc)
    moreover have "\<forall>a. prefix a cs \<and> a \<noteq> [] \<longrightarrow> map_of (AList.update (pre @ [c]) Directory D) ((pre @ [c]) @ a) = None
        \<or> map_of (AList.update (pre @ [c]) Directory D) ((pre @ [c]) @ a) = Some Directory"
      using rest by (auto simp: update_conv')
    ultimately show ?thesis using "2.IH"(1)[OF Inl nm] "2.prems"(1) Inl nm by simp
  qed
qed simp

lemma os_Remove_changes:
  assumes "os_Remove ws D = (r, D')" "real_name D ws = Inr ws \<or> (\<exists>e. real_name D ws = Inl e)"
  shows "changes_at {ws} D D'"
  using assms by (auto simp: os_Remove_def split: option.splits if_splits)

lemma os_Symlink_changes:
  assumes "os_Symlink t ws D = (r, D')" "real_name D ws = Inr ws \<or> (\<exists>e. real_name D ws = Inl e)"
  shows "changes_at {ws} D D'"
  using assms by (auto simp: os_Symlink_def split: option.splits if_splits)

lemma open_trunc_changes:
  assumes "open_trunc_nofollow ws perm D = (r, D')" "real_name D ws = Inr ws \<or> (\<exists>e. real_name D ws = Inl e)"
  shows "changes_at {ws} D D'" "\<And>q. r = Inr q \<Longrightarrow> q = ws"
  using assms by (auto simp: open_trunc_nofollow_def split: option.splits node.splits)

text \<open>A name all of whose ancestors are plain is its own, or has no directory.\<close>

lemma real_name_cases:
  assumes "names_ok ws" "ws \<noteq> []" "no_links D [] (butlast ws)"
  shows "real_name D ws = Inr ws \<or> (\<exists>e. real_name D ws = Inl e)"
  using real_name_plain[OF assms] by (cases "real_name D ws") auto

lemma dir_walk_dirs: "names_ok as \<Longrightarrow> all_dirs D cur as \<Longrightarrow> dir_walk n D cur (as @ bs) = dir_walk n D (cur @ as) bs"
proof (induction as arbitrary: cur)
  case (Cons a as)
  then have "a \<noteq> []" "a \<noteq> ''.''" "a \<noteq> ''..''" by (auto simp: plain_comp_def)
  then show ?case using Cons by simp
qed simp

lemma real_dir_dirs: "names_ok ws \<Longrightarrow> all_dirs D [] ws \<Longrightarrow> real_dir D ws = Inr ws"
  using dir_walk_dirs[of ws D "[]" max_links "[]"] by (simp add: real_dir_def)

lemma mkdir_all_passes:
  assumes "\<forall>a. prefix a cs \<and> a \<noteq> [] \<longrightarrow> (\<exists>r. real_dir D (pre @ a) = Inr r)"
  shows "mkdir_all D pre cs = (None, D)"
  using assms
proof (induction D pre cs rule: mkdir_all.induct)
  case (2 D pre c cs)
  obtain r where r: "real_dir D (pre @ [c]) = Inr r" using 2(3) by (auto dest!: spec[of _ "[c]"])
  have "\<forall>a. prefix a cs \<and> a \<noteq> [] \<longrightarrow> (\<exists>r. real_dir D ((pre @ [c]) @ a) = Inr r)"
    using 2(3) by (auto dest!: spec[of _ "c # a" for a])
  then show ?case using 2(2)[OF r] r by simp
qed simp

lemma mkdir_all_near:
  assumes "mkdir_all D pre cs = (r, D')" "names_ok (pre @ cs)" "no_links D [] (pre @ cs)" "\<not> prefix q (pre @ cs)"
  shows "map_of D' q = map_of D q"
  using assms
proof (induction D pre cs rule: mkdir_all.induct)
  case (2 D pre c cs)
  show ?case
  proof (cases "real_dir D (pre @ [c])")
    case (Inr d)
    then show ?thesis using "2.IH"(2)[OF Inr] "2.prems" by simp
  next
    case (Inl e)
    show ?thesis
    proof (cases "real_name D (pre @ [c])")
      case (Inr p)
      have p: "p = pre @ [c]" using real_name_plain[of "pre @ [c]" D p] Inr "2.prems"(2,3) by simp
      show ?thesis
      proof (cases "map_of D p = None")
        case True
        have ch: "changes_at {} D (AList.update p Directory D)" using True by (simp add: changes_at_def update_conv')
        have "no_links (AList.update p Directory D) [] (pre @ c # cs)"
          by (rule changes_at_no_links[OF ch "2.prems"(3)]) simp
        then have "map_of D' q = map_of (AList.update p Directory D) q"
          using "2.IH"(1)[OF Inl Inr True] "2.prems" Inl Inr True by simp
        moreover have "q \<noteq> p" using "2.prems"(4) p by auto
        ultimately show ?thesis by (simp add: update_conv')
      qed (use "2.prems"(1) Inl Inr in \<open>simp split: if_splits\<close>)
    qed (use "2.prems"(1) Inl in simp)
  qed
qed simp

end
