(* ===== verification/Worktree_Sync.thy ===== *)
theory Worktree_Sync
  imports Worktree_Plan Host_Disk
begin

text \<open>
  Applying a worktree sync (\<open>internal/sandboxd/worktreesync/tree.go\<close> and \<open>syncer.go\<close>): the
  manifests of the trees, the copy of single files and links into the tree the guest mounts, the
  deletions, and the whole of \<open>Sync\<close> with its read-back and its baseline. The guest's tree is a
  directory of the host's disk, so a link the guest plants there is a link the host's kernel
  follows. The freshly staged tree is the list of its files and links; every system call may fail
  (\<open>sync_env\<close>), a copy also half way.
\<close>

section \<open>Manifests\<close>

text \<open>The digest, and the mode the system reports for a link.\<close>

record sync_lib =
  sy_sha256 :: "byte list \<Rightarrow> string"
  sy_link_mode :: "32 word"

datatype leaf = LFile "32 word" "byte list" | LLink string

definition link_bytes :: "string \<Rightarrow> byte list" where
  "link_bytes target = map of_char (''symlink:'' @ target)"

definition entryFor :: "sync_lib \<Rightarrow> leaf \<Rightarrow> Entry" where
  "entryFor L x = (case x of
     LLink target \<Rightarrow> \<lparr>en_Hash = sy_sha256 L (link_bytes target), en_Mode = sy_link_mode L\<rparr>
   | LFile perm data \<Rightarrow> \<lparr>en_Hash = sy_sha256 L data, en_Mode = perm\<rparr>)"

definition leaf_of :: "node \<Rightarrow> leaf option" where
  "leaf_of nd = (case nd of Directory \<Rightarrow> None | Regular perm data \<Rightarrow> Some (LFile perm data) | Symlink t \<Rightarrow> Some (LLink t))"

text \<open>What a walk of the directory \<open>root\<close> finds: every file and link beneath it, by relative name.\<close>

definition walk_entry :: "string list \<Rightarrow> string list \<times> node \<Rightarrow> (string \<times> leaf) list" where
  "walk_entry root x = (if strict_prefix root (fst x) then
     (case leaf_of (snd x) of None \<Rightarrow> [] | Some y \<Rightarrow> [(join_with CHR ''/'' (drop (length root) (fst x)), y)]) else [])"

definition walk_tree :: "string list \<Rightarrow> disk \<Rightarrow> (string \<times> leaf) list" where
  "walk_tree root D = concat (map (walk_entry root) (AList.clearjunk D))"

definition BuildManifest :: "sync_lib \<Rightarrow> (string \<times> leaf) list \<Rightarrow> Manifest" where
  "BuildManifest L xs = map (\<lambda>(rel, x). (rel, entryFor L x)) (filter (\<lambda>(rel, x). \<not> skipPath rel) xs)"

section \<open>Writing into the guest's tree\<close>

datatype sys_call = CRead | CMkdir | CClear | COpen | CCopy | CChmod | CLink | CEmpty | CUnlink

record sync_env =
  se_clear :: "err option"
  se_build :: "(string \<times> leaf) list result"
  se_views :: "err option"
  se_fault :: "string \<Rightarrow> sys_call \<Rightarrow> err option"
  se_written :: "string \<Rightarrow> nat"
  se_readback :: "err option"
  se_save :: "err option"

definition safeJoin :: "string \<Rightarrow> string \<Rightarrow> string result" where
  "safeJoin root rel =
     (if path_is_abs rel then Inl (Wrap rel (Errorf ''worktree sync path escapes the tree''))
      else (let clean = path_clean rel in
        if clean = ''..'' \<or> prefix ''../'' clean then Inl (Wrap rel (Errorf ''worktree sync path escapes the tree''))
        else Inr (filepath_join [root, clean])))"

definition clearNonRegular :: "string list \<Rightarrow> disk \<Rightarrow> err option \<times> disk" where
  "clearNonRegular dst D =
     (case os_Lstat D dst of
        Inl e \<Rightarrow> (if IsNotExist e then None else Some e, D)
      | Inr (Regular _ _) \<Rightarrow> (None, D)
      | Inr _ \<Rightarrow> os_Remove dst D)"

definition deliverLink :: "(sys_call \<Rightarrow> err option) \<Rightarrow> string \<Rightarrow> string list \<Rightarrow> disk \<Rightarrow> err option \<times> disk" where
  "deliverLink fault target dst D =
     (case (case fault CUnlink of Some e \<Rightarrow> (Some e, D) | None \<Rightarrow> os_Remove dst D) of
        (Some e, D1) \<Rightarrow> if IsNotExist e then (case fault CLink of Some e' \<Rightarrow> (Some e', D1) | None \<Rightarrow> os_Symlink target dst D1)
                        else (Some e, D1)
      | (None, D1) \<Rightarrow> (case fault CLink of Some e' \<Rightarrow> (Some e', D1) | None \<Rightarrow> os_Symlink target dst D1))"

text \<open>Truncate, write and set the mode; a copy that fails leaves what was written so far.\<close>

definition write_file :: "(sys_call \<Rightarrow> err option) \<Rightarrow> nat \<Rightarrow> 32 word \<Rightarrow> byte list \<Rightarrow> string list \<Rightarrow> disk \<Rightarrow> err option \<times> disk" where
  "write_file fault written perm data dst D =
     (case fault COpen of
        Some e \<Rightarrow> (Some e, D)
      | None \<Rightarrow>
          (case open_trunc_nofollow dst perm D of
             (Inl e, D1) \<Rightarrow> (Some e, D1)
           | (Inr r, D1) \<Rightarrow>
               (let p0 = (case map_of D1 r of Some (Regular p _) \<Rightarrow> p | _ \<Rightarrow> perm) in
                case fault CCopy of
                  Some e \<Rightarrow> (Some e, AList.update r (Regular p0 (take written data)) D1)
                | None \<Rightarrow>
                    (case fault CChmod of
                       Some e \<Rightarrow> (Some e, AList.update r (Regular p0 data) D1)
                     | None \<Rightarrow> (None, AList.update r (Regular perm data) D1)))))"

definition copyInto :: "(sys_call \<Rightarrow> err option) \<Rightarrow> nat \<Rightarrow> leaf option \<Rightarrow> string list \<Rightarrow> disk \<Rightarrow> err option \<times> disk" where
  "copyInto fault written src dst D =
     (case (case fault CRead of Some e \<Rightarrow> Inl e | None \<Rightarrow> (case src of None \<Rightarrow> Inl ENOENT | Some x \<Rightarrow> Inr x)) of
        Inl e \<Rightarrow> (Some e, D)
      | Inr x \<Rightarrow>
          (case (case fault CMkdir of Some e \<Rightarrow> (Some e, D) | None \<Rightarrow> os_MkdirAll (butlast dst) D) of
             (Some e, D1) \<Rightarrow> (Some e, D1)
           | (None, D1) \<Rightarrow>
               (case x of
                  LLink target \<Rightarrow> deliverLink fault target dst D1
                | LFile perm data \<Rightarrow>
                    (case (case fault CClear of Some e \<Rightarrow> (Some e, D1) | None \<Rightarrow> clearNonRegular dst D1) of
                       (Some e, D2) \<Rightarrow> (Some e, D2)
                     | (None, D2) \<Rightarrow> write_file fault written perm data dst D2))))"

definition emptyRegularFile :: "(sys_call \<Rightarrow> err option) \<Rightarrow> string list \<Rightarrow> disk \<Rightarrow> err option \<times> disk" where
  "emptyRegularFile fault dst D =
     (case os_Lstat D dst of
        Inl e \<Rightarrow> (if IsNotExist e then None else Some e, D)
      | Inr (Regular perm _) \<Rightarrow>
          (case fault CEmpty of
             Some e \<Rightarrow> (Some e, D)
           | None \<Rightarrow> (case real_name D dst of Inl e \<Rightarrow> (Some e, D) | Inr r \<Rightarrow> (None, AList.update r (Regular perm []) D)))
      | Inr _ \<Rightarrow> (None, D))"

definition removeForGuest :: "(sys_call \<Rightarrow> err option) \<Rightarrow> string list \<Rightarrow> disk \<Rightarrow> err option \<times> disk" where
  "removeForGuest fault dst D =
     (case emptyRegularFile fault dst D of
        (Some e, D1) \<Rightarrow> (Some e, D1)
      | (None, D1) \<Rightarrow>
          (case (case fault CUnlink of Some e \<Rightarrow> (Some e, D1) | None \<Rightarrow> os_Remove dst D1) of
             (Some e, D2) \<Rightarrow> (if IsNotExist e then None else Some e, D2)
           | (None, D2) \<Rightarrow> (None, D2)))"

fun apply_updates :: "sync_env \<Rightarrow> (string \<times> leaf) list \<Rightarrow> string \<Rightarrow> string list \<Rightarrow> disk \<Rightarrow> err option \<times> disk" where
  "apply_updates E staged root [] D = (None, D)"
| "apply_updates E staged root (rel # rels) D =
     (case safeJoin root rel of
        Inl e \<Rightarrow> (Some e, D)
      | Inr dst \<Rightarrow>
          (case copyInto (se_fault E rel) (se_written E rel) (map_of staged rel) (path_comps dst) D of
             (Some e, D1) \<Rightarrow> (Some (Wrap rel e), D1)
           | (None, D1) \<Rightarrow> apply_updates E staged root rels D1))"

fun apply_deletes :: "sync_env \<Rightarrow> string \<Rightarrow> string list \<Rightarrow> disk \<Rightarrow> err option \<times> disk" where
  "apply_deletes E root [] D = (None, D)"
| "apply_deletes E root (rel # rels) D =
     (case safeJoin root rel of
        Inl e \<Rightarrow> (Some e, D)
      | Inr dst \<Rightarrow>
          (case removeForGuest (se_fault E rel) (path_comps dst) D of
             (Some e, D1) \<Rightarrow> (Some (Wrap rel e), D1)
           | (None, D1) \<Rightarrow> apply_deletes E root rels D1))"

definition Apply :: "sync_env \<Rightarrow> (string \<times> leaf) list \<Rightarrow> string \<Rightarrow> SyncPlan \<Rightarrow> disk \<Rightarrow> err option \<times> disk" where
  "Apply E staged root plan D =
     (if plan_Blocked plan then (Some (Errorf ''worktree sync conflict''), D)
      else (case apply_updates E staged root (pn_Update plan) D of
        (Some e, D1) \<Rightarrow> (Some e, D1)
      | (None, D1) \<Rightarrow> apply_deletes E root (pn_Delete plan) D1))"

section \<open>The sync\<close>

record SyncResult =
  rs_Updated :: "string list"
  rs_Entries :: Manifest
  rs_Deleted :: "string list"
  rs_Overridden :: "string list"
  rs_Skipped :: bool
  rs_DryRun :: bool
  rs_Conflicts :: "Conflict list"
  rs_Blocked :: bool

datatype sync_error = ConflictError "Conflict list" | UndeliveredError "undelivered list" | SyncError err

record SyncRequest =
  rq_GuestTree :: string
  rq_Force :: bool
  rq_DryRun :: bool

text \<open>The disk, and the baseline of what was last delivered, absent before the first delivery.\<close>

record sync_state =
  ss_disk :: disk
  ss_saved :: "Manifest option"

definition classify :: "SyncPlan \<Rightarrow> bool \<Rightarrow> SyncResult" where
  "classify plan dryRun = \<lparr>rs_Updated = pn_Update plan, rs_Entries = [], rs_Deleted = pn_Delete plan,
     rs_Overridden = Overridden plan, rs_Skipped = False, rs_DryRun = dryRun, rs_Conflicts = pn_Conflicts plan,
     rs_Blocked = plan_Blocked plan\<rparr>"

definition result_Changed :: "SyncResult \<Rightarrow> bool" where
  "result_Changed r \<longleftrightarrow> rs_Updated r \<noteq> [] \<or> rs_Deleted r \<noteq> []"

definition LoadManifest :: "sync_state \<Rightarrow> Manifest" where
  "LoadManifest st = (case ss_saved st of None \<Rightarrow> [] | Some m \<Rightarrow> m)"

definition guest_manifest :: "sync_lib \<Rightarrow> string \<Rightarrow> disk \<Rightarrow> Manifest" where
  "guest_manifest L root D = BuildManifest L (walk_tree (path_comps root) D)"

text \<open>The part of \<open>Sync\<close> after the classification: apply, read back, move the baseline.\<close>

definition sync_apply :: "sync_lib \<Rightarrow> sync_env \<Rightarrow> SyncRequest \<Rightarrow> (string \<times> leaf) list \<Rightarrow> SyncPlan \<Rightarrow> sync_state
    \<Rightarrow> (sync_error + SyncResult) \<times> sync_state" where
  "sync_apply L E req staged plan st =
     (let host = BuildManifest L staged in
      if plan_Blocked plan then (Inl (ConflictError (pn_Conflicts plan)), st)
      else (case Apply E staged (rq_GuestTree req) plan (ss_disk st) of
        (Some e, D) \<Rightarrow> (Inl (SyncError e), st\<lparr>ss_disk := D\<rparr>)
      | (None, D) \<Rightarrow>
          (case se_readback E of
             Some e \<Rightarrow> (Inl (SyncError e), st\<lparr>ss_disk := D\<rparr>)
           | None \<Rightarrow>
               (let missing = VerifyDelivery plan host (guest_manifest L (rq_GuestTree req) D) in
                if missing \<noteq> [] then (Inl (UndeliveredError missing), st\<lparr>ss_disk := D\<rparr>)
                else (case se_save E of
                  Some e \<Rightarrow> (Inl (SyncError e), st\<lparr>ss_disk := D\<rparr>)
                | None \<Rightarrow> (Inr ((classify plan False)\<lparr>rs_Entries := deliveredEntries host (pn_Update plan)\<rparr>),
                           st\<lparr>ss_disk := D, ss_saved := Some host\<rparr>))))))"

definition Sync :: "sync_lib \<Rightarrow> sync_env \<Rightarrow> SyncRequest \<Rightarrow> sync_state \<Rightarrow> (sync_error + SyncResult) \<times> sync_state" where
  "Sync L E req st =
     (case se_clear E of
        Some e \<Rightarrow> (Inl (SyncError e), st)
      | None \<Rightarrow>
          (case se_build E of
             Inl e \<Rightarrow> (Inl (SyncError e), st)
           | Inr staged \<Rightarrow>
               (case se_views E of
                  Some e \<Rightarrow> (Inl (SyncError e), st)
                | None \<Rightarrow>
                    (let plan = Compute (LoadManifest st) (BuildManifest L staged) (guest_manifest L (rq_GuestTree req) (ss_disk st)) in
                     if plan_Empty plan then (Inr ((classify plan (rq_DryRun req))\<lparr>rs_Skipped := True\<rparr>), st)
                     else (let plan1 = (if rq_Force req then plan_Forced plan else plan) in
                       if rq_DryRun req then (Inr (classify plan1 True), st)
                       else sync_apply L E req staged plan1 st)))))"


section \<open>What an application changes\<close>

definition plain_name :: "disk \<Rightarrow> string list \<Rightarrow> bool" where
  "plain_name D dst \<longleftrightarrow> names_ok dst \<and> dst \<noteq> [] \<and> no_links D [] (butlast dst)"

lemma plain_name_keep:
  assumes "plain_name D dst" "changes_at P D D'" "\<forall>a. strict_prefix a dst \<longrightarrow> a \<notin> P"
  shows "plain_name D' dst"
proof -
  have "no_links D' [] (butlast dst)"
  proof (rule changes_at_no_links[OF assms(2)])
    show "\<forall>a. prefix a (butlast dst) \<and> a \<noteq> [] \<longrightarrow> [] @ a \<notin> P"
    proof (intro allI impI)
      fix a assume a: "prefix a (butlast dst) \<and> a \<noteq> []"
      then have "length a < length dst" using assms(1) by (cases dst rule: rev_cases) (auto simp: plain_name_def dest: prefix_length_le)
      moreover have "prefix a dst" using a prefixeq_butlast[of dst] prefix_order.trans by blast
      ultimately have "strict_prefix a dst" by (auto simp: strict_prefix_def)
      then show "[] @ a \<notin> P" using assms(3) by simp
    qed
  qed (use assms(1) in \<open>simp add: plain_name_def\<close>)
  then show ?thesis using assms(1) by (simp add: plain_name_def)
qed

lemma plain_name_real: "plain_name D dst \<Longrightarrow> real_name D dst = Inr dst \<or> (\<exists>e. real_name D dst = Inl e)"
  by (simp add: plain_name_def real_name_cases)

lemma clearNonRegular_changes:
  assumes "clearNonRegular dst D = (r, D')" "plain_name D dst"
  shows "changes_at {dst} D D'"
  using assms os_Remove_changes[OF _ plain_name_real[OF assms(2)]]
  by (auto simp: clearNonRegular_def split: sum.splits node.splits)

lemma deliverLink_changes:
  assumes "deliverLink fault t dst D = (r, D')" "plain_name D dst"
  shows "changes_at {dst} D D'"
proof -
  obtain r1 D1 where rm: "(case fault CUnlink of Some e \<Rightarrow> (Some e, D) | None \<Rightarrow> os_Remove dst D) = (r1, D1)" by fastforce
  then have ch: "changes_at {dst} D D1"
    using os_Remove_changes[OF _ plain_name_real[OF assms(2)]] by (auto split: option.splits)
  then have "plain_name D1 dst" by (rule plain_name_keep[OF assms(2)]) auto
  then have "os_Symlink t dst D1 = (r', D2) \<Longrightarrow> changes_at {dst} D1 D2" for r' D2
    using os_Symlink_changes[OF _ plain_name_real] by blast
  then have "changes_at {dst} D1 D'" using assms(1) rm by (auto simp: deliverLink_def split: option.splits if_splits)
  then show ?thesis using ch by (rule changes_at_trans_same[rotated])
qed

lemma write_file_changes:
  assumes "write_file fault w perm data dst D = (r, D')" "plain_name D dst"
  shows "changes_at {dst} D D'"
proof (cases "fault COpen")
  case None
  obtain r1 D1 where op: "open_trunc_nofollow dst perm D = (r1, D1)" by fastforce
  note ch = open_trunc_changes[OF op plain_name_real[OF assms(2)]]
  show ?thesis
  proof (cases r1)
    case (Inr q)
    then have "q = dst" using ch(2) by blast
    then have "changes_at {dst} D1 D'" using assms(1) None op Inr by (auto simp: write_file_def Let_def split: option.splits)
    then show ?thesis using ch(1) by (rule changes_at_trans_same[rotated])
  qed (use assms(1) None op ch(1) in \<open>simp add: write_file_def\<close>)
qed (use assms(1) in \<open>simp add: write_file_def\<close>)

lemma copyInto_changes:
  assumes "copyInto fault w src dst D = (r, D')" "plain_name D dst"
  shows "changes_at {dst} D D'"
proof (cases "case fault CRead of Some e \<Rightarrow> Inl e | None \<Rightarrow> (case src of None \<Rightarrow> Inl ENOENT | Some x \<Rightarrow> Inr x)")
  case (Inr x)
  obtain r1 D1 where mk: "(case fault CMkdir of Some e \<Rightarrow> (Some e, D) | None \<Rightarrow> os_MkdirAll (butlast dst) D) = (r1, D1)" by fastforce
  then have ch: "changes_at {} D D1" using os_MkdirAll_changes by (auto split: option.splits)
  then have ch': "changes_at {dst} D D1" by (rule changes_at_mono) simp
  have pn: "plain_name D1 dst" by (rule plain_name_keep[OF assms(2) ch]) simp
  have "changes_at {dst} D1 D'"
  proof (cases r1)
    case None
    show ?thesis
    proof (cases x)
      case (LFile perm data)
      obtain r2 D2 where cl: "(case fault CClear of Some e \<Rightarrow> (Some e, D1) | None \<Rightarrow> clearNonRegular dst D1) = (r2, D2)" by fastforce
      then have ch2: "changes_at {dst} D1 D2" using clearNonRegular_changes[OF _ pn] by (auto split: option.splits)
      then have pn2: "plain_name D2 dst" by (rule plain_name_keep[OF pn]) auto
      have "changes_at {dst} D2 D'"
        using assms(1) Inr mk None LFile cl write_file_changes[OF _ pn2] by (cases r2) (auto simp: copyInto_def)
      then show ?thesis by (rule changes_at_trans_same[OF ch2])
    qed (use assms(1) Inr mk None deliverLink_changes[OF _ pn] in \<open>simp add: copyInto_def\<close>)
  qed (use assms(1) Inr mk in \<open>simp add: copyInto_def\<close>)
  then show ?thesis by (rule changes_at_trans_same[OF ch'])
qed (use assms(1) in \<open>simp add: copyInto_def\<close>)

lemma removeForGuest_changes:
  assumes "removeForGuest fault dst D = (r, D')" "plain_name D dst"
  shows "changes_at {dst} D D'"
proof -
  obtain r1 D1 where em: "emptyRegularFile fault dst D = (r1, D1)" by fastforce
  then have ch: "changes_at {dst} D D1"
    using plain_name_real[OF assms(2)] by (auto simp: emptyRegularFile_def split: sum.splits node.splits option.splits)
  have pn: "plain_name D1 dst" by (rule plain_name_keep[OF assms(2) ch]) auto
  have "changes_at {dst} D1 D'"
    using assms(1) em os_Remove_changes[OF _ plain_name_real[OF pn]]
    by (cases r1) (auto simp: removeForGuest_def split: option.splits prod.splits)
  then show ?thesis by (rule changes_at_trans_same[OF ch])
qed

text \<open>Relative names that are the elements \<open>ws\<close> of a path.\<close>

abbreviation (input) rel_name :: "string list \<Rightarrow> string" where "rel_name ws \<equiv> join_with CHR ''/'' ws"

lemma split_rel_name: "names_ok ws \<Longrightarrow> ws \<noteq> [] \<Longrightarrow> split_on CHR ''/'' (rel_name ws) = ws"
  by (simp add: split_join names_ok_def)

lemma rel_name_not_abs:
  assumes "names_ok ws" "ws \<noteq> []"
  shows "\<not> path_is_abs (rel_name ws)"
proof
  assume "path_is_abs (rel_name ws)"
  then obtain z where "rel_name ws = CHR ''/'' # z" by (auto simp: path_is_abs_def split: list.splits)
  then have "split_on CHR ''/'' (rel_name ws) = [] # split_on CHR ''/'' z" using split_on_append[of "CHR ''/''" "[]" z] by simp
  then have "ws = [] # split_on CHR ''/'' z" using split_rel_name[OF assms] by simp
  then show False using assms by (simp add: plain_comp_def)
qed

lemma rel_name_clean:
  assumes "names_ok ws" "ws \<noteq> []"
  shows "path_clean (rel_name ws) = rel_name ws"
proof -
  have "clean_comps False [] ws = ws" using assms by (simp add: clean_comps_plain names_ok_def)
  moreover have "rel_name ws \<noteq> []" using assms by (auto simp: join_with_eq_Nil plain_comp_def)
  ultimately show ?thesis unfolding path_clean_def Let_def split_rel_name[OF assms] using rel_name_not_abs[OF assms] by simp
qed

lemma rel_name_inj:
  assumes "names_ok ws" "names_ok vs" "ws \<noteq> []" "vs \<noteq> []" "rel_name ws = rel_name vs"
  shows "ws = vs"
proof -
  have "ws = split_on CHR ''/'' (rel_name ws)" by (rule split_rel_name[OF assms(1,3), symmetric])
  also have "\<dots> = vs" unfolding assms(5) by (rule split_rel_name[OF assms(2,4)])
  finally show ?thesis .
qed

lemma rel_name_first: "names_ok ws \<Longrightarrow> ws \<noteq> [] \<Longrightarrow> rel_name ws \<noteq> ''..'' \<and> \<not> prefix ''../'' (rel_name ws)"
proof -
  assume ok: "names_ok ws" "ws \<noteq> []"
  have sp: "split_on CHR ''/'' (rel_name ws) = ws" using ok by (rule split_rel_name)
  have "rel_name ws \<noteq> ''..''"
  proof
    assume up: "rel_name ws = ''..''"
    have "ws = [''..'']" using sp unfolding up by simp
    then show False using ok by (simp add: plain_comp_def)
  qed
  moreover have "\<not> prefix ''../'' (rel_name ws)"
  proof
    assume "prefix ''../'' (rel_name ws)"
    then obtain z where "rel_name ws = ''..'' @ CHR ''/'' # z" by (auto simp: prefix_def)
    then have "split_on CHR ''/'' (rel_name ws) = ''..'' # split_on CHR ''/'' z" using split_on_append[of "CHR ''/''" "''..''" z] by simp
    then have "ws = ''..'' # split_on CHR ''/'' z" unfolding sp .
    then show False using ok by (simp add: plain_comp_def)
  qed
  ultimately show ?thesis by blast
qed

lemma safeJoin_rel:
  "names_ok R \<Longrightarrow> names_ok ws \<Longrightarrow> ws \<noteq> [] \<Longrightarrow> safeJoin (abs_path R) (rel_name ws) = Inr (abs_path (R @ ws))"
  by (simp add: safeJoin_def rel_name_not_abs rel_name_clean rel_name_first filepath_join_abs Let_def)


text \<open>The place of a relative name in the tree at \<open>R\<close>.\<close>

definition place :: "string list \<Rightarrow> string \<Rightarrow> string list" where
  "place R rel = R @ split_on CHR ''/'' rel"

definition rel_ok :: "string \<Rightarrow> bool" where
  "rel_ok rel \<longleftrightarrow> names_ok (split_on CHR ''/'' rel)"

text \<open>No name of the list lies beneath another.\<close>

definition apart :: "string list \<Rightarrow> bool" where
  "apart rels \<longleftrightarrow> (\<forall>a \<in> set rels. \<forall>b \<in> set rels. \<not> strict_prefix (split_on CHR ''/'' a) (split_on CHR ''/'' b))"

lemma place_inj: "place R a = place R b \<longleftrightarrow> a = b"
  by (metis join_split place_def same_append_eq)

lemma strict_prefix_append: "strict_prefix (R @ a) (R @ b) \<longleftrightarrow> strict_prefix a b"
  by (auto simp: strict_prefix_def)

lemma safeJoin_place: "names_ok R \<Longrightarrow> rel_ok rel \<Longrightarrow> safeJoin (abs_path R) rel = Inr (abs_path (place R rel))"
  using safeJoin_rel[of R "split_on CHR ''/'' rel"] by (simp add: rel_ok_def place_def)

lemma path_comps_place: "names_ok R \<Longrightarrow> rel_ok rel \<Longrightarrow> path_comps (abs_path (place R rel)) = place R rel"
  by (simp add: rel_ok_def place_def)

lemma plain_name_other:
  assumes "plain_name D (place R b)" "changes_at {place R a} D D'" "\<not> strict_prefix (split_on CHR ''/'' a) (split_on CHR ''/'' b)"
  shows "plain_name D' (place R b)"
  using assms(3) by (intro plain_name_keep[OF assms(1,2)]) (auto simp: place_def strict_prefix_append)

lemma apply_updates_changes:
  assumes "names_ok R" "apply_updates E staged (abs_path R) rels D = (r, D')"
    "\<forall>rel \<in> set rels. rel_ok rel \<and> plain_name D (place R rel)" "apart rels"
  shows "changes_at (place R ` set rels) D D'"
  using assms(2-4)
proof (induction rels arbitrary: D)
  case (Cons rel rels)
  obtain r1 D1 where cp: "copyInto (se_fault E rel) (se_written E rel) (map_of staged rel) (place R rel) D = (r1, D1)" by fastforce
  have ch: "changes_at {place R rel} D D1" using copyInto_changes[OF cp] Cons.prems(2) by simp
  have run: "(case r1 of Some e \<Rightarrow> (Some (Wrap rel e), D1) | None \<Rightarrow> apply_updates E staged (abs_path R) rels D1) = (r, D')"
    using Cons.prems(1,2) cp assms(1) by (simp add: safeJoin_place path_comps_place split: option.splits)
  show ?case
  proof (cases r1)
    case None
    have "changes_at (place R ` set rels) D1 D'"
    proof (rule Cons.IH)
      show "\<forall>x \<in> set rels. rel_ok x \<and> plain_name D1 (place R x)"
        using Cons.prems(2,3) plain_name_other[OF _ ch] by (simp add: apart_def)
    qed (use run None Cons.prems(3) in \<open>simp_all add: apart_def\<close>)
    then show ?thesis using changes_at_trans[OF ch] by simp
  next
    case (Some e)
    then show ?thesis using run ch by (auto intro: changes_at_mono)
  qed
qed simp

lemma apply_deletes_changes:
  assumes "names_ok R" "apply_deletes E (abs_path R) rels D = (r, D')"
    "\<forall>rel \<in> set rels. rel_ok rel \<and> plain_name D (place R rel)" "apart rels"
  shows "changes_at (place R ` set rels) D D'"
  using assms(2-4)
proof (induction rels arbitrary: D)
  case (Cons rel rels)
  obtain r1 D1 where cp: "removeForGuest (se_fault E rel) (place R rel) D = (r1, D1)" by fastforce
  have ch: "changes_at {place R rel} D D1" using removeForGuest_changes[OF cp] Cons.prems(2) by simp
  have run: "(case r1 of Some e \<Rightarrow> (Some (Wrap rel e), D1) | None \<Rightarrow> apply_deletes E (abs_path R) rels D1) = (r, D')"
    using Cons.prems(1,2) cp assms(1) by (simp add: safeJoin_place path_comps_place split: option.splits)
  show ?case
  proof (cases r1)
    case None
    have "changes_at (place R ` set rels) D1 D'"
    proof (rule Cons.IH)
      show "\<forall>x \<in> set rels. rel_ok x \<and> plain_name D1 (place R x)"
        using Cons.prems(2,3) plain_name_other[OF _ ch] by (simp add: apart_def)
    qed (use run None Cons.prems(3) in \<open>simp_all add: apart_def\<close>)
    then show ?thesis using changes_at_trans[OF ch] by simp
  next
    case (Some e)
    then show ?thesis using run ch by (auto intro: changes_at_mono)
  qed
qed simp

lemma Apply_changes:
  assumes "names_ok R" "Apply E staged (abs_path R) plan D = (r, D')"
    "\<forall>rel \<in> set (pn_Update plan @ pn_Delete plan). rel_ok rel \<and> plain_name D (place R rel)"
    "apart (pn_Update plan @ pn_Delete plan)"
  shows "changes_at (place R ` set (pn_Update plan @ pn_Delete plan)) D D'"
proof (cases "plan_Blocked plan")
  case False
  obtain r1 D1 where up: "apply_updates E staged (abs_path R) (pn_Update plan) D = (r1, D1)" by fastforce
  have ch: "changes_at (place R ` set (pn_Update plan)) D D1"
    using apply_updates_changes[OF assms(1) up] assms(3,4) by (simp add: apart_def)
  show ?thesis
  proof (cases r1)
    case None
    have "changes_at (place R ` set (pn_Delete plan)) D1 D'"
    proof (rule apply_deletes_changes[OF assms(1)])
      show "\<forall>rel \<in> set (pn_Delete plan). rel_ok rel \<and> plain_name D1 (place R rel)"
      proof
        fix rel assume d: "rel \<in> set (pn_Delete plan)"
        have "plain_name D1 (place R rel)"
        proof (rule plain_name_keep[OF _ ch])
          show "\<forall>a. strict_prefix a (place R rel) \<longrightarrow> a \<notin> place R ` set (pn_Update plan)"
            using assms(4) d by (auto simp: apart_def place_def strict_prefix_append)
        qed (use assms(3) d in simp)
        then show "rel_ok rel \<and> plain_name D1 (place R rel)" using assms(3) d by simp
      qed
    qed (use assms(2,4) False up None in \<open>simp_all add: Apply_def apart_def\<close>)
    then show ?thesis using changes_at_trans[OF ch] by (simp add: image_Un)
  next
    case (Some e)
    then show ?thesis using assms(2) False up ch by (auto simp: Apply_def intro: changes_at_mono)
  qed
qed (use assms(2) in \<open>simp add: Apply_def\<close>)


section \<open>Reading the trees\<close>

definition keys_ok :: "disk \<Rightarrow> bool" where
  "keys_ok D \<longleftrightarrow> (\<forall>q nd. map_of D q = Some nd \<longrightarrow> names_ok q)"

definition leaf_at :: "string list \<Rightarrow> string \<Rightarrow> disk \<Rightarrow> leaf option" where
  "leaf_at R rel D = (case map_of D (place R rel) of None \<Rightarrow> None | Some nd \<Rightarrow> leaf_of nd)"

lemma BuildManifest_lookup:
  "map_of (BuildManifest L xs) rel = (if skipPath rel then None else map_option (entryFor L) (map_of xs rel))"
  by (induction xs) (auto simp: BuildManifest_def)

lemma BuildManifest_distinct: "distinct (map fst xs) \<Longrightarrow> distinct (map fst (BuildManifest L xs))"
proof -
  have "map fst (BuildManifest L xs) = map fst (filter (\<lambda>(rel, x). \<not> skipPath rel) xs)"
    by (simp add: BuildManifest_def case_prod_beta' comp_def)
  then show "distinct (map fst xs) \<Longrightarrow> distinct (map fst (BuildManifest L xs))" by (simp add: distinct_map_filter)
qed

lemma walk_name:
  assumes "names_ok q" "strict_prefix R q"
  shows "rel_name (drop (length R) q) = rel \<longleftrightarrow> q = place R rel"
proof -
  obtain z where z: "q = R @ z" "z \<noteq> []" using assms(2) by (auto simp: strict_prefix_def prefix_def)
  then have "split_on CHR ''/'' (rel_name z) = z" using assms(1) by (intro split_rel_name) auto
  moreover have "rel_name (split_on CHR ''/'' rel) = rel" by (rule join_split)
  ultimately show ?thesis unfolding place_def z(1) by (metis append_eq_conv_conj same_append_eq)
qed

lemma walk_tree_lookup:
  assumes "keys_ok D"
  shows "map_of (walk_tree R D) rel = leaf_at R rel D"
proof -
  have "map_of (concat (map (walk_entry R) xs)) rel = (case map_of xs (place R rel) of None \<Rightarrow> None | Some nd \<Rightarrow> leaf_of nd)"
    if "distinct (map fst xs)" "\<forall>x \<in> set xs. names_ok (fst x)" for xs
    using that
  proof (induction xs)
    case (Cons x xs)
    obtain q nd where x: "x = (q, nd)" by fastforce
    have IH: "map_of (concat (map (walk_entry R) xs)) rel = (case map_of xs (place R rel) of None \<Rightarrow> None | Some nd \<Rightarrow> leaf_of nd)"
      using Cons by simp
    show ?case
    proof (cases "q = place R rel")
      case True
      then have "map_of xs (place R rel) = None" using Cons.prems(1) x by (simp add: map_of_eq_None_iff)
      moreover have "strict_prefix R q" using True by (simp add: place_def strict_prefix_def)
      moreover have "rel_name (drop (length R) q) = rel" using True by (simp add: place_def)
      moreover have "walk_entry R (q, nd) = (case leaf_of nd of None \<Rightarrow> [] | Some y \<Rightarrow> [(rel, y)])"
        using calculation(2,3) by (cases "leaf_of nd") (simp_all add: walk_entry_def)
      ultimately show ?thesis using True IH unfolding x by (simp split: option.splits)
    next
      case False
      have "map_of (walk_entry R (q, nd)) rel = None"
      proof (cases "strict_prefix R q")
        case True
        then have "rel \<noteq> rel_name (drop (length R) q)" using walk_name[of q R rel] Cons.prems(2) x False by auto
        then show ?thesis using True by (cases "leaf_of nd") (simp_all add: walk_entry_def)
      next
        case no: False
        then show ?thesis by (simp add: walk_entry_def)
      qed
      then show ?thesis using False IH unfolding x by (simp add: map_add_def)
    qed
  qed simp
  moreover have "\<forall>x \<in> set (AList.clearjunk D). names_ok (fst x)"
  proof
    fix x assume "x \<in> set (AList.clearjunk D)"
    then have "map_of D (fst x) = Some (snd x)"
      using map_of_is_SomeI[OF distinct_clearjunk, of "fst x" "snd x" D] by (simp add: map_of_clearjunk)
    then show "names_ok (fst x)" using assms by (auto simp: keys_ok_def)
  qed
  ultimately have "map_of (concat (map (walk_entry R) (AList.clearjunk D))) rel = leaf_at R rel D"
    by (simp add: distinct_clearjunk map_of_clearjunk leaf_at_def)
  then show ?thesis by (simp add: walk_tree_def)
qed

lemma guest_manifest_lookup:
  assumes "names_ok R" "keys_ok D"
  shows "map_of (guest_manifest L (abs_path R) D) rel =
    (if skipPath rel then None else map_option (entryFor L) (leaf_at R rel D))"
  using assms by (simp add: guest_manifest_def BuildManifest_lookup walk_tree_lookup)

section \<open>Safety\<close>

text \<open>
  The inputs of a sync: absolute roots, files of a proper tree on the host side, and on the
  guest's side no link among the directories of a planned path.
\<close>

definition sync_plan_of :: "sync_lib \<Rightarrow> (string \<times> leaf) list \<Rightarrow> string \<Rightarrow> sync_state \<Rightarrow> SyncPlan" where
  "sync_plan_of L staged root st = Compute (LoadManifest st) (BuildManifest L staged) (guest_manifest L root (ss_disk st))"

definition planned :: "SyncPlan \<Rightarrow> string list" where
  "planned p = pn_Update p @ pn_Delete p"

lemma Sync_disk_cases:
  assumes "Sync L E req st = (r, st')" "\<not> rq_Force req" "se_build E = Inr staged"
  shows "ss_disk st' = ss_disk st \<or>
    (\<exists>r1. Apply E staged (rq_GuestTree req) (sync_plan_of L staged (rq_GuestTree req) st) (ss_disk st) = (r1, ss_disk st'))"
  using assms
  by (auto simp: Sync_def sync_apply_def sync_plan_of_def Let_def split: option.splits prod.splits if_splits)

lemma kept_unless_planned:
  assumes "distinct (map fst (LoadManifest st))" "distinct (map fst staged)" "keys_ok (ss_disk st)" "names_ok R"
    and "leaf_at R rel (ss_disk st) = Some x" "map_of (LoadManifest st) rel \<noteq> Some (entryFor L x)"
  shows "rel \<notin> set (planned (sync_plan_of L staged (abs_path R) st))"
proof
  let ?d = "LoadManifest st" and ?h = "BuildManifest L staged" and ?g = "guest_manifest L (abs_path R) (ss_disk st)"
  assume "rel \<in> set (planned (sync_plan_of L staged (abs_path R) st))"
  then have "path_verdict ?d ?h ?g rel = Write \<or> path_verdict ?d ?h ?g rel = Erase"
    using Compute_Update[OF BuildManifest_distinct[OF assms(2)]] Compute_Delete[OF assms(1)]
    by (auto simp: planned_def sync_plan_of_def)
  then have "\<not> skipPath rel \<and> (map_of ?g rel = None \<or> map_of ?g rel = map_of ?d rel)"
    by (cases "map_of ?d rel"; cases "map_of ?h rel"; cases "map_of ?g rel") (auto simp: path_verdict_def split: if_splits)
  then show False using assms(5,6) by (auto simp: guest_manifest_lookup[OF assms(4,3)])
qed



text \<open>A guest at \<open>/g\<close> that made \<open>b\<close> of its own while the host changed \<open>a\<close>.\<close>

definition demo_sync_lib :: sync_lib where
  "demo_sync_lib = \<lparr>sy_sha256 = map (\<lambda>b. char_of (unat b)), sy_link_mode = 511\<rparr>"

definition demo_staged :: "(string \<times> leaf) list" where
  "demo_staged = [(''a'', LFile 420 [2])]"

definition demo_sync_env :: sync_env where
  "demo_sync_env = \<lparr>se_clear = None, se_build = Inr demo_staged, se_views = None, se_fault = (\<lambda>_ _. None),
     se_written = (\<lambda>_. 0), se_readback = None, se_save = None\<rparr>"

definition demo_sync_req :: SyncRequest where
  "demo_sync_req = \<lparr>rq_GuestTree = abs_path [''g''], rq_Force = False, rq_DryRun = False\<rparr>"

definition demo_sync_st :: sync_state where
  "demo_sync_st = \<lparr>ss_disk = [([''g''], Directory), ([''g'', ''a''], Regular 420 [1]), ([''g'', ''b''], Regular 420 [9])],
     ss_saved = Some [(''a'', entryFor demo_sync_lib (LFile 420 [1]))]\<rparr>"

definition demo_sync_plan :: SyncPlan where
  "demo_sync_plan = \<lparr>pn_Update = [''a''], pn_Delete = [], pn_Conflicts = [], pn_forced = False\<rparr>"

lemma demo_sync_planned: "sync_plan_of demo_sync_lib demo_staged (abs_path [''g'']) demo_sync_st = demo_sync_plan"
  by code_simp

lemma demo_sync_facts:
  "rq_GuestTree demo_sync_req = abs_path [''g'']" "\<not> rq_Force demo_sync_req" "\<not> rq_DryRun demo_sync_req"
  "se_clear demo_sync_env = None" "se_build demo_sync_env = Inr demo_staged" "se_views demo_sync_env = None"
  "se_fault demo_sync_env = (\<lambda>_ _. None)" "se_readback demo_sync_env = None" "se_save demo_sync_env = None"
  "keys_ok (ss_disk demo_sync_st)" "distinct (map fst (LoadManifest demo_sync_st))" "distinct (map fst demo_staged)"
  by (auto simp: demo_sync_req_def demo_sync_env_def demo_sync_st_def demo_staged_def keys_ok_def LoadManifest_def plain_comp_def
      split: if_splits)

lemma demo_sync_values:
  "map_of (ss_disk demo_sync_st) [''g''] = Some Directory" "map_of (ss_disk demo_sync_st) [''g'', ''a''] = Some (Regular 420 [1])"
  "map_of demo_staged ''a'' = Some (LFile 420 [2])" "map_of (LoadManifest demo_sync_st) ''b'' = None"
  "leaf_at [''g''] ''b'' (ss_disk demo_sync_st) = Some (LFile 420 [9])"
  by (simp_all add: demo_sync_st_def demo_staged_def LoadManifest_def leaf_at_def leaf_of_def place_def)

lemma demo_place: "place [''g''] ''a'' = [''g'', ''a'']" "rel_ok ''a''" "apart [''a'']"
  by (simp_all add: place_def rel_ok_def plain_comp_def apart_def)


end
