(* ===== verification/Guest_Settle.thy ===== *)
theory Guest_Settle
  imports Guest_Exec Store_Files Attest Worktree_Sync
begin

text \<open>
  Asking a running guest what it reads (\<open>internal/sandboxd/backend/microvm/settle.go\<close>, with the
  registry of \<open>internal_exec_sites.go\<close>): the probe that hashes the delivered files from inside the
  guest, the record kept before it, the identity the guest confirms, and the verdict. The guest is
  an argument: its answer to the \<open>n\<close>-th command of a probe. What the probe does to the outside, in
  order, is returned as a list of acts.
\<close>

section \<open>Requests and views\<close>

record settleRequest =
  sq_sandboxID :: string
  sq_taskID :: string
  sq_network :: string
  sq_worktree :: string
  sq_want :: Manifest
  sq_deleted :: "string list"

record settle_view =
  sw_stale :: "string list"
  sw_unverifiable :: string

datatype guest_act = Recorded SandboxEvent | Ran ExecRequest

text \<open>
  The execution channel, the audit sink when one is wired (its answer), the identity internal
  commands run as, the text of an error, and the order of a map's iteration.
\<close>

record settler =
  gx_exec :: "nat \<Rightarrow> ExecRequest \<Rightarrow> ExecResult result"
  gx_audit :: "err option option"
  gx_identity :: "GuestIdentity option"
  gx_text :: "err \<Rightarrow> string"
  gx_order :: "(string \<times> string) list \<Rightarrow> (string \<times> string) list"

definition settleShell :: string where "settleShell = ''/bin/sh''"
definition settleArgvChunk :: nat where "settleArgvChunk = 2000"
definition settleExecTimeout :: int where "settleExecTimeout = 20000000000"

text \<open>The two scripts; a double quote and a backslash by their codes.\<close>

definition sha256sumScript :: string where
  "sha256sumScript = (let q = CHR 0x22 in
     ''for c in /usr/bin/sha256sum /bin/sha256sum; do [ -x '' @ [q] @ ''$c'' @ [q] @ '' ] && exec '' @ [q] @ ''$c'' @ [q] @ '' -- ''
     @ [q] @ ''$@'' @ [q] @ ''; done; exit 127'')"

definition presentScript :: string where
  "presentScript = (let q = CHR 0x22 in
     ''for p in '' @ [q] @ ''$@'' @ [q] @ ''; do [ -e '' @ [q] @ ''$p'' @ [q] @ '' ] || [ -L '' @ [q] @ ''$p'' @ [q] @ '' ] && printf ''
     @ [CHR 0x27] @ ''%s'' @ [CHR 0x5C] @ ''n'' @ [CHR 0x27] @ '' '' @ [q] @ ''$p'' @ [q] @ ''; done; exit 0'')"

definition dropCaches :: string where
  "dropCaches = ''sync; echo 2 > /proc/sys/vm/drop_caches''"

section \<open>Reading the answers\<close>

definition char_bytes :: "byte list \<Rightarrow> string" where
  "char_bytes bs = map (\<lambda>b. char_of (unat b)) bs"

text \<open>\<open>strings.Cut\<close> at a separator of any length.\<close>

fun cut_at :: "string \<Rightarrow> string \<Rightarrow> (string \<times> string) option" where
  "cut_at sep [] = (if sep = [] then Some ([], []) else None)"
| "cut_at sep (c # s) = (if has_prefix (c # s) sep then Some ([], drop (length sep) (c # s))
     else map_option (\<lambda>(a, b). (c # a, b)) (cut_at sep s))"

definition sha_line :: "string \<Rightarrow> (string \<times> string) list \<Rightarrow> (string \<times> string) list" where
  "sha_line line got =
     (case cut_at ''  '' line of
        None \<Rightarrow> got
      | Some (hash, path) \<Rightarrow>
          if length hash \<noteq> 64 \<and> length hash < 6 \<or> CHR '' '' \<in> set hash \<or> CHR '':'' \<in> set hash then got
          else AList.update (case cut_prefix path ''*'' of None \<Rightarrow> path | Some p \<Rightarrow> p) hash got)"

definition parseSha256sum :: "string \<Rightarrow> (string \<times> string) list" where
  "parseSha256sum out = fold sha_line (split_on newline out) []"

definition ModeSymlink :: "32 word" where "ModeSymlink = 0x8000000"

definition regularPaths :: "Manifest \<Rightarrow> string list" where
  "regularPaths want = sort (map fst (filter (\<lambda>(path, entry). and (en_Mode entry) ModeSymlink = 0) want))"

text \<open>The batches; a size of zero, with which the loop would not end, is passed by no caller.\<close>

function chunkPaths :: "nat \<Rightarrow> string list \<Rightarrow> string list list" where
  "chunkPaths n paths =
     (if n = 0 then [paths]
      else if length paths > n then take n paths # chunkPaths n (drop n paths)
      else if paths \<noteq> [] then [paths] else [])"
  by pat_completeness auto
termination by (relation "measure (length \<circ> snd)") auto

declare chunkPaths.simps [simp del]

definition absolute :: "string \<Rightarrow> string list \<Rightarrow> string list" where
  "absolute root rels = map (\<lambda>rel. filepath_join [root, rel]) rels"

definition relative :: "string \<Rightarrow> string \<Rightarrow> string" where
  "relative root path = (case path_rel root path of Some rel \<Rightarrow> rel | None \<Rightarrow> path)"

definition toolMissing :: "settler \<Rightarrow> string \<Rightarrow> ExecResult result \<Rightarrow> string option" where
  "toolMissing S tool r =
     (let note = ''the guest has no '' @ tool @ '', so what it reads cannot be verified from inside it'' in
      case r of
        Inl e \<Rightarrow> if contains_str (gx_text S e) ''not found'' \<or> contains_str (gx_text S e) ''no such file or directory''
                then Some note else None
      | Inr res \<Rightarrow> if xr_ExitCode res = 127 then Some note else None)"

definition classifyGuestView :: "Manifest \<Rightarrow> (string \<times> string) list \<Rightarrow> string list \<Rightarrow> string list \<Rightarrow> settle_view" where
  "classifyGuestView want got deleted stillPresent =
     \<lparr>sw_stale =
        concat (map (\<lambda>path. case map_of got path of
            None \<Rightarrow> [path @ '' (guest cannot read it)'']
          | Some hash \<Rightarrow> if map_option en_Hash (map_of want path) \<noteq> Some hash
                         then [path @ '' (guest reads bytes that were not delivered)''] else []) (regularPaths want))
        @ map (\<lambda>path. path @ '' (still present in the guest)'') (filter (\<lambda>path. path \<in> set deleted) stillPresent),
      sw_unverifiable = []\<rparr>"

section \<open>The probe\<close>

text \<open>The registry of the programs the daemon runs inside a guest: name, program, whether it is audited.\<close>

definition internalExecSites :: "(string \<times> string \<times> bool) list" where
  "internalExecSites = [(''settle read-back'', settleShell, True), (''readiness probe'', ''/nonexistent/mgit-guest-readiness-probe'', False)]"

definition isAuditedInternalProgram :: "string \<Rightarrow> bool" where
  "isAuditedInternalProgram prog = list_ex (\<lambda>(_, p, audited). audited \<and> p = prog) internalExecSites"

definition settle_run :: "settler \<Rightarrow> nat \<Rightarrow> string list \<Rightarrow> ExecResult result \<times> guest_act list" where
  "settle_run S n argv =
     (case argv of
        [] \<Rightarrow> (Inl (Errorf ''settle: not a registered audited internal exec program''), [])
      | prog # _ \<Rightarrow>
          if \<not> isAuditedInternalProgram prog then (Inl (Errorf ''settle: not a registered audited internal exec program''), [])
          else (let req = \<lparr>er_Command = argv, er_Dir = [], er_Env = [], er_Timeout = settleExecTimeout,
                          er_RunAs = gx_identity S, er_AsRoot = False\<rparr> in
                (gx_exec S n req, [Ran req])))"

definition verifyIdentity :: "settler \<Rightarrow> ExecResult \<Rightarrow> bool result" where
  "verifyIdentity S res =
     (case gx_identity S of
        None \<Rightarrow> Inr False
      | Some i \<Rightarrow>
          if Verified (VerdictOnExecIdentity (Some i) (xr_RanAs res)) then Inr False
          else if xr_RanAs res = None then Inr True
          else Inl (Sentinel ErrGuestExecIdentityMismatch))"

definition escalation_detail :: "nat \<Rightarrow> string" where
  "escalation_detail args = (let q = [CHR 0x22] in
     ''{'' @ q @ ''program'' @ q @ '':'' @ q @ settleShell @ q @ '','' @ q @ ''args'' @ q @ '':'' @ show_int (int args) @ ''}'')"

definition settle_event :: "settleRequest \<Rightarrow> SandboxEvent" where
  "settle_event req = \<lparr>ev_ID = [], ev_SandboxID = sq_sandboxID req, ev_TaskID = sq_taskID req, ev_EventType = EventExecPrivileged,
     ev_Backend = [], ev_ImageDigest = [], ev_NetworkMode = sq_network req,
     ev_Detail = escalation_detail (length (regularPaths (sq_want req))), ev_CreatedAt = zero_time\<rparr>"

definition auditInternalExec :: "settler \<Rightarrow> settleRequest \<Rightarrow> err option \<times> guest_act list" where
  "auditInternalExec S req =
     (case gx_audit S of
        None \<Rightarrow> (None, [])
      | Some (Some e) \<Rightarrow> (Some e, [])
      | Some None \<Rightarrow> (None, [Recorded (settle_event req)]))"

fun probe_chunks :: "settler \<Rightarrow> settleRequest \<Rightarrow> nat \<Rightarrow> string list list \<Rightarrow> (string \<times> string) list \<Rightarrow> bool
    \<Rightarrow> (string + (string \<times> string) list \<times> bool) result \<times> guest_act list" where
  "probe_chunks S req n [] got unc = (Inr (Inr (got, unc)), [])"
| "probe_chunks S req n (chunk # chunks) got unc =
     (case settle_run S n ([settleShell, ''-c'', sha256sumScript, ''sh''] @ absolute (sq_worktree req) chunk) of
        (r, acts) \<Rightarrow>
          (case toolMissing S ''sha256sum'' r of
             Some note \<Rightarrow> (Inr (Inl note), acts)
           | None \<Rightarrow>
               (case r of
                  Inl e \<Rightarrow> (Inl e, acts)
                | Inr res \<Rightarrow>
                    (case verifyIdentity S res of
                       Inl e \<Rightarrow> (Inl e, acts)
                     | Inr u \<Rightarrow>
                         (let got1 = fold (\<lambda>(path, hash). AList.update (relative (sq_worktree req) path) hash)
                                       (gx_order S (parseSha256sum (char_bytes (xr_Stdout res)))) got in
                          case probe_chunks S req (Suc n) chunks got1 (unc \<or> u) of
                            (out, acts') \<Rightarrow> (out, acts @ acts'))))))"

text \<open>The deleted paths the guest still sees, a note when it could not be asked, and whether its identity is unconfirmed.\<close>

definition stillPresent :: "settler \<Rightarrow> settleRequest \<Rightarrow> nat \<Rightarrow> (string list \<times> string \<times> bool) result \<times> guest_act list" where
  "stillPresent S req n =
     (if sq_deleted req = [] then (Inr ([], [], False), [])
      else (case settle_run S n ([settleShell, ''-c'', presentScript, ''sh''] @ absolute (sq_worktree req) (sq_deleted req)) of
        (r, acts) \<Rightarrow>
          (case toolMissing S ''sh'' r of
             Some note \<Rightarrow> (Inr ([], note, False), acts)
           | None \<Rightarrow>
               (case r of
                  Inl e \<Rightarrow> (Inl e, acts)
                | Inr res \<Rightarrow>
                    (case verifyIdentity S res of
                       Inl e \<Rightarrow> (Inl e, acts)
                     | Inr unc \<Rightarrow>
                         (Inr (map (relative (sq_worktree req))
                            (filter (\<lambda>line. line \<noteq> []) (split_on newline (trim_space (char_bytes (xr_Stdout res))))), [], unc), acts))))))"

definition probe_verdict :: "settleRequest \<Rightarrow> (string \<times> string) list \<Rightarrow> string list \<Rightarrow> bool \<Rightarrow> settle_view" where
  "probe_verdict req got still unc =
     (let view = classifyGuestView (sq_want req) got (sq_deleted req) still in
      if unc \<and> sw_stale view = []
      then view\<lparr>sw_unverifiable := ''the guest did not confirm the identity it ran the read-back as''\<rparr> else view)"

definition Probe :: "settler \<Rightarrow> settleRequest \<Rightarrow> settle_view result \<times> guest_act list" where
  "Probe S req =
     (case auditInternalExec S req of
        (Some e, acts0) \<Rightarrow> (Inl (Wrap ''recording the settle probe'' e), acts0)
      | (None, acts0) \<Rightarrow>
          (let (_, acts1) = settle_run S 0 [settleShell, ''-c'', dropCaches];
               chunks = chunkPaths settleArgvChunk (regularPaths (sq_want req)) in
           case probe_chunks S req 1 chunks [] False of
             (Inl e, acts2) \<Rightarrow> (Inl e, acts0 @ acts1 @ acts2)
           | (Inr (Inl note), acts2) \<Rightarrow> (Inr \<lparr>sw_stale = [], sw_unverifiable = note\<rparr>, acts0 @ acts1 @ acts2)
           | (Inr (Inr (got, unc)), acts2) \<Rightarrow>
               (case stillPresent S req (Suc (length chunks)) of
                  (Inl e, acts3) \<Rightarrow> (Inl e, acts0 @ acts1 @ acts2 @ acts3)
                | (Inr (still, note, unc1), acts3) \<Rightarrow>
                    (if note \<noteq> [] then Inr \<lparr>sw_stale = [], sw_unverifiable = note\<rparr>
                     else Inr (probe_verdict req got still (unc \<or> unc1)), acts0 @ acts1 @ acts2 @ acts3))))"

definition noExec_Probe :: "settle_view result" where
  "noExec_Probe = Inr \<lparr>sw_stale = [], sw_unverifiable = ''this backend has no exec channel into the guest''\<rparr>"

section \<open>Every command is on record\<close>

lemma settle_run_acts:
  "settle_run S n (settleShell # argv) = (r, acts) \<Longrightarrow>
   \<exists>q. acts = [Ran q] \<and> er_Command q = settleShell # argv \<and> er_RunAs q = gx_identity S \<and> er_Timeout q = settleExecTimeout"
  by (auto simp: settle_run_def isAuditedInternalProgram_def internalExecSites_def Let_def)

definition audited_run :: "settler \<Rightarrow> guest_act \<Rightarrow> bool" where
  "audited_run S a \<longleftrightarrow> (\<exists>q argv. a = Ran q \<and> er_Command q = settleShell # argv \<and> er_RunAs q = gx_identity S \<and> er_Timeout q = settleExecTimeout)"

lemma settle_run_audited: "settle_run S n (settleShell # argv) = (r, acts) \<Longrightarrow> \<forall>a \<in> set acts. audited_run S a"
  by (auto dest!: settle_run_acts simp: audited_run_def)

lemma probe_chunks_audited:
  "probe_chunks S req n chunks got unc = (r, acts) \<Longrightarrow> \<forall>a \<in> set acts. audited_run S a"
proof (induction chunks arbitrary: n got unc r acts)
  case (Cons c chunks)
  obtain r0 acts0 where run: "settle_run S n (settleShell # [''-c'', sha256sumScript, ''sh''] @ absolute (sq_worktree req) c) = (r0, acts0)"
    by fastforce
  note Cons.prems settle_run_audited[OF run] run Cons.IH
  then show ?case
    by (auto simp: Let_def split: option.splits sum.splits prod.splits)
qed simp

lemma stillPresent_audited: "stillPresent S req n = (r, acts) \<Longrightarrow> \<forall>a \<in> set acts. audited_run S a"
proof -
  assume a: "stillPresent S req n = (r, acts)"
  obtain r0 acts0 where run: "settle_run S n (settleShell # [''-c'', presentScript, ''sh''] @ absolute (sq_worktree req) (sq_deleted req)) = (r0, acts0)"
    by fastforce
  show ?thesis using a settle_run_audited[OF run] run
    by (auto simp: stillPresent_def split: option.splits sum.splits prod.splits if_splits)
qed

text \<open>
  The daemon never runs a command of its own in a guest without a record of it: with an audit
  sink wired, a probe whose record is refused runs nothing and fails, and otherwise the record
  comes first and everything after it is a run of the registered shell, as the internal identity
  and under the fixed timeout.
\<close>

theorem probe_records_before_running:
  assumes "gx_audit S = Some a" "Probe S req = (r, acts)"
  shows "(case a of Some e \<Rightarrow> acts = [] \<and> r = Inl (Wrap ''recording the settle probe'' e)
    | None \<Rightarrow> \<exists>runs. acts = Recorded (settle_event req) # runs \<and> (\<forall>x \<in> set runs. audited_run S x))"
proof (cases a)
  case (Some e)
  then show ?thesis using assms by (simp add: Probe_def auditInternalExec_def)
next
  case None
  obtain r0 acts1 where d: "settle_run S 0 (settleShell # [''-c'', dropCaches]) = (r0, acts1)" by fastforce
  obtain r1 acts2 where c: "probe_chunks S req 1 (chunkPaths settleArgvChunk (regularPaths (sq_want req))) [] False = (r1, acts2)" by fastforce
  obtain r2 acts3 where p: "stillPresent S req (Suc (length (chunkPaths settleArgvChunk (regularPaths (sq_want req))))) = (r2, acts3)" by fastforce
  note audited = settle_run_audited[OF d] probe_chunks_audited[OF c] stillPresent_audited[OF p]
  have "\<exists>runs. acts = Recorded (settle_event req) # runs \<and> set runs \<subseteq> set acts1 \<union> set acts2 \<union> set acts3"
    using assms None c p d
    by (auto simp: Probe_def auditInternalExec_def Let_def split: sum.splits prod.splits)
  then show ?thesis using None audited by auto blast
qed

section \<open>A guest that answers\<close>

text \<open>
  What \<open>sha256sum\<close> and the shell print in a guest where reading a name yields \<open>rd\<close> and \<open>ex\<close> tells
  which names exist: a line for each readable name, the digest, two blanks and the name (names
  with a newline or a backslash, which the tool escapes, are left out below), and the names that
  exist.
\<close>

definition sha_out :: "(byte list \<Rightarrow> string) \<Rightarrow> (string \<Rightarrow> byte list option) \<Rightarrow> string list \<Rightarrow> string" where
  "sha_out sha rd paths = concat (map (\<lambda>p. case rd p of None \<Rightarrow> [] | Some d \<Rightarrow> (sha d @ ''  '' @ p) @ [newline]) paths)"

definition present_out :: "(string \<Rightarrow> bool) \<Rightarrow> string list \<Rightarrow> string" where
  "present_out ex paths = concat (map (\<lambda>p. p @ [newline]) (filter ex paths))"

definition guest_answer :: "(byte list \<Rightarrow> string) \<Rightarrow> (string \<Rightarrow> byte list option) \<Rightarrow> (string \<Rightarrow> bool) \<Rightarrow> ExecRequest \<Rightarrow> ExecResult" where
  "guest_answer sha rd ex q =
     (let script = er_Command q ! 2; paths = drop 4 (er_Command q);
          out = (if script = sha256sumScript then sha_out sha rd paths
                 else if script = presentScript then present_out ex paths else []) in
      \<lparr>xr_Stdout = bytes_of out, xr_Stderr = [],
       xr_ExitCode = (if script = sha256sumScript \<and> (\<exists>p \<in> set paths. rd p = None) then 1 else 0), xr_RanAs = er_RunAs q\<rparr>)"

lemma sha_script_ne [simp]: "sha256sumScript \<noteq> presentScript" "presentScript \<noteq> sha256sumScript"
  by (simp_all add: sha256sumScript_def presentScript_def Let_def)

lemma char_bytes_of [simp]: "char_bytes (bytes_of s) = s"
  by (simp add: char_bytes_def)

definition digest_ok :: "(byte list \<Rightarrow> string) \<Rightarrow> bool" where
  "digest_ok sha \<longleftrightarrow> (\<forall>d. length (sha d) = 64 \<and> set (sha d) \<subseteq> set ''0123456789abcdef'')"

lemma cut_at_blanks: "CHR '' '' \<notin> set h \<Longrightarrow> cut_at ''  '' (h @ CHR '' '' # CHR '' '' # p) = Some (h, p)"
  by (induction h) (auto simp: has_prefix_def)

lemma sha_line_reads:
  assumes "digest_ok sha" "p = CHR ''/'' # q"
  shows "sha_line (sha d @ ''  '' @ p) got = AList.update p (sha d) got"
proof -
  have "CHR '' '' \<notin> set (sha d)" "CHR '':'' \<notin> set (sha d)" "length (sha d) = 64" using assms(1) by (auto simp: digest_ok_def)
  then show ?thesis using assms(2) cut_at_blanks[of "sha d" p] by (simp add: sha_line_def cut_prefix_def has_prefix_def)
qed

lemma digest_no_newline: "digest_ok sha \<Longrightarrow> newline \<notin> set (sha d)"
  by (auto simp: digest_ok_def)

lemma fold_sha_lines:
  assumes "digest_ok sha" "\<forall>p \<in> set paths. (\<exists>q. p = CHR ''/'' # q) \<and> newline \<notin> set p"
  shows "fold sha_line (split_on newline (sha_out sha rd paths)) got =
    fold (\<lambda>(p, h). AList.update p h) (concat (map (\<lambda>p. case rd p of None \<Rightarrow> [] | Some d \<Rightarrow> [(p, sha d)]) paths)) got"
  using assms(2)
proof (induction paths arbitrary: got)
  case Nil
  then show ?case by (simp add: sha_out_def sha_line_def)
next
  case (Cons p paths)
  obtain q where q: "p = CHR ''/'' # q" using Cons.prems by auto
  have out: "sha_out sha rd (p # paths) = (case rd p of None \<Rightarrow> [] | Some d \<Rightarrow> (sha d @ ''  '' @ p) @ [newline]) @ sha_out sha rd paths"
    by (simp add: sha_out_def)
  show ?case
  proof (cases "rd p")
    case None
    then show ?thesis using Cons out by simp
  next
    case (Some d)
    have "newline \<notin> set (sha d @ ''  '' @ p)" using digest_no_newline[OF assms(1)] Cons.prems by simp
    from split_on_append[OF this, of "sha_out sha rd paths"]
    have "split_on newline (sha_out sha rd (p # paths)) = (sha d @ ''  '' @ p) # split_on newline (sha_out sha rd paths)"
      using out Some by simp
    then show ?thesis using Cons Some sha_line_reads[OF assms(1) q, of d got] by simp
  qed
qed

lemma fold_update_lookup:
  assumes "\<forall>(k, v) \<in> set xs. v = G (f k)"
  shows "map_of (fold (\<lambda>(k, v). AList.update (f k) v) xs acc) q = (if q \<in> f ` fst ` set xs then Some (G q) else map_of acc q)"
  using assms by (induction xs arbitrary: acc) (auto simp: update_conv')

lemma fold_update_keys: "set (fold (\<lambda>(k, v). AList.update k v) xs acc) \<subseteq> set xs \<union> set acc"
proof (induction xs arbitrary: acc)
  case (Cons x xs)
  have "set (AList.update k v acc) \<subseteq> insert (k, v) (set acc)" for k v by (induction acc) auto
  then show ?case using Cons[of "AList.update (fst x) (snd x) acc"] by (cases x) fastforce
qed simp

lemma fold_update_fst: "fst ` set (fold (\<lambda>(k, v). AList.update k v) xs acc) = fst ` set xs \<union> fst ` set acc"
proof (induction xs arbitrary: acc)
  case (Cons x xs)
  have "fst ` set (AList.update k v acc) = insert k (fst ` set acc)" for k v using dom_update[of k v acc] by (simp add: dom_map_of_conv_image_fst)
  then show ?case using Cons by (cases x) auto
qed simp

section \<open>What a probe reports\<close>

lemma relative_absolute:
  assumes "names_ok W" "rel_ok rel"
  shows "relative (abs_path W) (filepath_join [abs_path W, rel]) = rel"
    "filepath_join [abs_path W, rel] = abs_path (place W rel)"
proof -
  let ?vs = "split_on CHR ''/'' rel"
  have j: "filepath_join [abs_path W, rel] = abs_path (W @ ?vs)"
    using filepath_join_abs[of W ?vs] assms by (simp add: rel_ok_def)
  have "drop_common W (W @ ?vs) = ([], ?vs)" by (induction W) (cases ?vs, auto)
  then have "path_rel (abs_path W) (abs_path (W @ ?vs)) = Some rel"
    using path_rel_abs[of W "W @ ?vs"] assms by (auto simp: rel_ok_def)
  then show "relative (abs_path W) (filepath_join [abs_path W, rel]) = rel" using j by (simp add: relative_def)
  show "filepath_join [abs_path W, rel] = abs_path (place W rel)" using j by (simp add: place_def)
qed

lemma concat_chunkPaths: "concat (chunkPaths n paths) = paths"
  by (induction n paths rule: chunkPaths.induct) (subst chunkPaths.simps, simp)

text \<open>The names a probe handles in this guest: proper, one line each, and not ending in white space.\<close>

definition plain_path :: "string \<Rightarrow> bool" where
  "plain_path p \<longleftrightarrow> rel_ok p \<and> newline \<notin> set p \<and> CHR 0x5C \<notin> set p \<and> graph_char (last p)"

definition guest_path :: "string list \<Rightarrow> string \<Rightarrow> string" where
  "guest_path W p = filepath_join [abs_path W, p]"

lemma guest_path_shape:
  assumes "names_ok W" "rel_ok p"
  shows "guest_path W p = (if W = [] then [] else abs_path W) @ CHR ''/'' # p"
proof -
  have "guest_path W p = abs_path (W @ split_on CHR ''/'' p)"
    using relative_absolute(2)[OF assms] by (simp add: guest_path_def place_def)
  then show ?thesis by (simp add: abs_path_def join_with_append)
qed

lemma guest_path_plain:
  assumes "names_ok W" "newline \<notin> set (abs_path W)" "plain_path p"
  shows "\<exists>q. guest_path W p = CHR ''/'' # q" "newline \<notin> set (guest_path W p)" "graph_char (last (guest_path W p))"
    "relative (abs_path W) (guest_path W p) = p" "hd (guest_path W p) = CHR ''/''"
proof -
  have ok: "rel_ok p" using assms(3) by (simp add: plain_path_def)
  then have "p \<noteq> []" by (auto simp: rel_ok_def plain_comp_def)
  note sh = guest_path_shape[OF assms(1) ok]
  show "\<exists>q. guest_path W p = CHR ''/'' # q" "hd (guest_path W p) = CHR ''/''" by (simp_all add: sh abs_path_def)
  show "newline \<notin> set (guest_path W p)" using assms(2,3) by (simp add: sh plain_path_def)
  show "graph_char (last (guest_path W p))" using assms(3) \<open>p \<noteq> []\<close> by (simp add: sh plain_path_def)
  show "relative (abs_path W) (guest_path W p) = p" using relative_absolute(1)[OF assms(1) ok] by (simp add: guest_path_def)
qed

definition answers :: "settler \<Rightarrow> (byte list \<Rightarrow> string) \<Rightarrow> (string \<Rightarrow> byte list option) \<Rightarrow> (string \<Rightarrow> bool) \<Rightarrow> bool" where
  "answers S sha rd ex \<longleftrightarrow> (\<forall>n q. gx_exec S n q = Inr (guest_answer sha rd ex q)) \<and> (\<forall>xs. mset (gx_order S xs) = mset xs)"

lemma verified_echo [simp]: "xr_RanAs res = gx_identity S \<Longrightarrow> verifyIdentity S res = Inr False"
  by (auto simp: verifyIdentity_def VerdictOnExecIdentity_def Let_def split: option.splits)

lemma settle_run_answer:
  assumes "answers S sha rd ex"
  shows "\<exists>res acts. settle_run S n ([settleShell, ''-c'', script, ''sh''] @ paths) = (Inr res, acts)
    \<and> xr_ExitCode res \<noteq> 127 \<and> xr_RanAs res = gx_identity S
    \<and> char_bytes (xr_Stdout res) = (if script = sha256sumScript then sha_out sha rd paths
                                   else if script = presentScript then present_out ex paths else [])"
  using assms
  by (simp add: settle_run_def isAuditedInternalProgram_def internalExecSites_def answers_def guest_answer_def Let_def)

lemma line_keys:
  "fst ` set (concat (map (\<lambda>p. case rd p of None \<Rightarrow> [] | Some d \<Rightarrow> [(p, sha d)]) ps)) = {p \<in> set ps. rd p \<noteq> None}"
proof (induction ps)
  case (Cons p ps)
  then show ?case unfolding list.map concat.simps set_append image_Un by (cases "rd p") (auto simp del: set_concat)
qed simp

lemma chunk_hashes:
  assumes "answers S sha rd ex" "digest_ok sha" "names_ok W" "newline \<notin> set (abs_path W)" "\<forall>p \<in> set ps. plain_path p"
  shows "map_of (fold (\<lambda>(path, hash). AList.update (relative (abs_path W) path) hash)
      (gx_order S (parseSha256sum (sha_out sha rd (absolute (abs_path W) ps)))) got) q =
    (if q \<in> set ps \<and> rd (guest_path W q) \<noteq> None then map_option sha (rd (guest_path W q)) else map_of got q)"
proof -
  let ?rel = "relative (abs_path W)" and ?paths = "absolute (abs_path W) ps"
  let ?lines = "concat (map (\<lambda>p. case rd p of None \<Rightarrow> [] | Some d \<Rightarrow> [(p, sha d)]) ?paths)"
  let ?xs = "gx_order S (parseSha256sum (sha_out sha rd ?paths))"
  have abs: "?paths = map (guest_path W) ps" by (simp add: absolute_def guest_path_def)
  note plain = guest_path_plain[OF assms(3,4)]
  have parse: "parseSha256sum (sha_out sha rd ?paths) = fold (\<lambda>(p, h). AList.update p h) ?lines []"
    unfolding parseSha256sum_def by (rule fold_sha_lines[OF assms(2)]) (use plain assms(5) in \<open>auto simp: abs\<close>)
  have "set ?xs = set (parseSha256sum (sha_out sha rd ?paths))" using assms(1) by (metis answers_def set_mset_mset)
  then have sub: "set ?xs \<subseteq> set ?lines" and keys: "fst ` set ?xs = fst ` set ?lines"
    using fold_update_keys[of ?lines "[]"] fold_update_fst[of ?lines "[]"] parse by auto
  have "\<forall>(k, v) \<in> set ?xs. v = (\<lambda>r. sha (the (rd (guest_path W r)))) (?rel k)"
  proof clarify
    fix k v assume "(k, v) \<in> set ?xs"
    then have "(k, v) \<in> set ?lines" using sub by blast
    then obtain p where p: "p \<in> set ps" "(k, v) \<in> set (case rd (guest_path W p) of None \<Rightarrow> [] | Some d \<Rightarrow> [(guest_path W p, sha d)])"
      by (auto simp: abs)
    then obtain d where "k = guest_path W p" "rd k = Some d" "v = sha d" by (cases "rd (guest_path W p)") auto
    then show "v = sha (the (rd (guest_path W (?rel k))))" using plain(4) assms(5) p(1) by simp
  qed
  from fold_update_lookup[where G = "\<lambda>r. sha (the (rd (guest_path W r)))" and f = ?rel, OF this, of got q]
  have look: "map_of (fold (\<lambda>(path, hash). AList.update (?rel path) hash) ?xs got) q =
    (if q \<in> ?rel ` fst ` set ?xs then Some (sha (the (rd (guest_path W q)))) else map_of got q)" .
  have "fst ` set ?lines = guest_path W ` {p \<in> set ps. rd (guest_path W p) \<noteq> None}"
    unfolding line_keys by (auto simp: abs)
  then have "q \<in> ?rel ` fst ` set ?xs \<longleftrightarrow> q \<in> set ps \<and> rd (guest_path W q) \<noteq> None"
    unfolding keys using assms(5) plain(4) by (auto simp: image_iff)
  then show ?thesis using look by auto
qed

lemma probe_chunks_answer:
  assumes "answers S sha rd ex" "digest_ok sha" "names_ok W" "newline \<notin> set (abs_path W)" "sq_worktree req = abs_path W"
    and "\<forall>p \<in> set (concat chunks). plain_path p"
  shows "\<exists>got1 acts. probe_chunks S req n chunks got unc = (Inr (Inr (got1, unc)), acts)
    \<and> (\<forall>q. map_of got1 q = (if q \<in> set (concat chunks) \<and> rd (guest_path W q) \<noteq> None
                             then map_option sha (rd (guest_path W q)) else map_of got q))"
  using assms(6)
proof (induction chunks arbitrary: n got)
  case (Cons c chunks)
  obtain res acts where run: "settle_run S n ([settleShell, ''-c'', sha256sumScript, ''sh''] @ absolute (abs_path W) c) = (Inr res, acts)"
    "xr_ExitCode res \<noteq> 127" "xr_RanAs res = gx_identity S" "char_bytes (xr_Stdout res) = sha_out sha rd (absolute (abs_path W) c)"
    using settle_run_answer[OF assms(1), of n sha256sumScript "absolute (abs_path W) c"] by auto
  let ?got = "fold (\<lambda>(path, hash). AList.update (relative (abs_path W) path) hash)
      (gx_order S (parseSha256sum (sha_out sha rd (absolute (abs_path W) c)))) got"
  obtain got1 acts1 where rest: "probe_chunks S req (Suc n) chunks ?got unc = (Inr (Inr (got1, unc)), acts1)"
    "\<forall>q. map_of got1 q = (if q \<in> set (concat chunks) \<and> rd (guest_path W q) \<noteq> None
                             then map_option sha (rd (guest_path W q)) else map_of ?got q)"
    using Cons.IH[of "Suc n" ?got] Cons.prems by auto
  have "toolMissing S ''sha256sum'' (Inr res) = None" using run(2) by (simp add: toolMissing_def Let_def)
  then have "probe_chunks S req n (c # chunks) got unc = (Inr (Inr (got1, unc)), acts @ acts1)"
    using run rest(1) assms(5) by simp
  then show ?case using rest(2) chunk_hashes[OF assms(1-4), of c got] Cons.prems by auto
qed simp

lemma present_lines:
  assumes "\<forall>p \<in> set ps. p \<noteq> [] \<and> newline \<notin> set p \<and> graph_char (hd p) \<and> graph_char (last p)"
  shows "filter (\<lambda>line. line \<noteq> []) (split_on newline (trim_space (concat (map (\<lambda>p. p @ [newline]) ps)))) = ps"
proof (cases "ps = []")
  case True
  have "trim_left space_encodings [] = []" "trim_left (map rev space_encodings) [] = []"
    by (subst trim_left.simps, simp add: space_encodings_def has_prefix_def)+
  then show ?thesis using True by (simp add: trim_space_def)
next
  case False
  have "concat (map (\<lambda>p. p @ [newline]) ps) = join_with newline ps @ [newline]"
    using False by (induction ps rule: induct_list012) auto
  moreover have "join_with newline ps \<noteq> []" "hd (join_with newline ps) = hd (hd ps)" "last (join_with newline ps) = last (last ps)"
    using False assms by (induction ps rule: induct_list012) (auto simp: join_with_eq_Nil)
  moreover have "graph_char (hd (hd ps))" "graph_char (last (last ps))" using False assms by (auto simp: hd_in_set)
  ultimately have "trim_space (concat (map (\<lambda>p. p @ [newline]) ps)) = join_with newline ps"
    using trim_space_newline[of "join_with newline ps"] by simp
  moreover have "split_on newline (join_with newline ps) = ps" using False assms by (intro split_join) auto
  moreover have "filter (\<lambda>line. line \<noteq> []) ps = ps" using assms by (auto simp: filter_id_conv)
  ultimately show ?thesis by simp
qed

lemma stillPresent_answer:
  assumes "answers S sha rd ex" "names_ok W" "newline \<notin> set (abs_path W)" "sq_worktree req = abs_path W"
    and "\<forall>p \<in> set (sq_deleted req). plain_path p"
  shows "\<exists>acts. stillPresent S req n = (Inr (filter (\<lambda>p. ex (guest_path W p)) (sq_deleted req), [], False), acts)"
proof (cases "sq_deleted req = []")
  case False
  let ?ps = "absolute (abs_path W) (sq_deleted req)"
  have abs: "?ps = map (guest_path W) (sq_deleted req)" by (simp add: absolute_def guest_path_def)
  note plain = guest_path_plain[OF assms(2,3)]
  obtain res acts where run: "settle_run S n ([settleShell, ''-c'', presentScript, ''sh''] @ ?ps) = (Inr res, acts)"
    "xr_ExitCode res \<noteq> 127" "xr_RanAs res = gx_identity S" "char_bytes (xr_Stdout res) = present_out ex ?ps"
    using settle_run_answer[OF assms(1), of n presentScript ?ps] by auto
  have "filter (\<lambda>line. line \<noteq> []) (split_on newline (trim_space (present_out ex ?ps))) = filter ex ?ps"
    unfolding present_out_def
    by (rule present_lines) (use plain assms(5) in \<open>fastforce simp: abs graph_char_def\<close>)
  moreover have "map (relative (abs_path W)) (filter ex ?ps) = filter (\<lambda>p. ex (guest_path W p)) (sq_deleted req)"
    using assms(5) plain(4) by (simp add: abs filter_map comp_def) (rule map_idI, simp)
  moreover have "toolMissing S ''sh'' (Inr res) = None" using run(2) by (simp add: toolMissing_def Let_def)
  ultimately show ?thesis using run False assms(4) by (simp add: stillPresent_def)
qed (simp add: stillPresent_def)

text \<open>The view such a guest should give, computed from what it has.\<close>

definition guest_view :: "(byte list \<Rightarrow> string) \<Rightarrow> (string \<Rightarrow> byte list option) \<Rightarrow> (string \<Rightarrow> bool) \<Rightarrow> string list \<Rightarrow> settleRequest \<Rightarrow> settle_view" where
  "guest_view sha rd ex W req = \<lparr>sw_stale =
      concat (map (\<lambda>p. case rd (guest_path W p) of
          None \<Rightarrow> [p @ '' (guest cannot read it)'']
        | Some d \<Rightarrow> if map_option en_Hash (map_of (sq_want req) p) = Some (sha d) then []
                   else [p @ '' (guest reads bytes that were not delivered)'']) (regularPaths (sq_want req)))
      @ map (\<lambda>p. p @ '' (still present in the guest)'') (filter (\<lambda>p. ex (guest_path W p)) (sq_deleted req)),
    sw_unverifiable = []\<rparr>"

lemma guest_view_settled:
  "sw_stale (guest_view sha rd ex W req) = [] \<longleftrightarrow>
     (\<forall>p \<in> set (regularPaths (sq_want req)). \<exists>d. rd (guest_path W p) = Some d \<and> map_option en_Hash (map_of (sq_want req) p) = Some (sha d))
     \<and> (\<forall>p \<in> set (sq_deleted req). \<not> ex (guest_path W p))"
  "sw_unverifiable (guest_view sha rd ex W req) = []"
proof -
  have "(case rd (guest_path W p) of None \<Rightarrow> [p @ '' (guest cannot read it)'']
        | Some d \<Rightarrow> if map_option en_Hash (map_of (sq_want req) p) = Some (sha d) then []
                   else [p @ '' (guest reads bytes that were not delivered)'']) = []
    \<longleftrightarrow> (\<exists>d. rd (guest_path W p) = Some d \<and> map_option en_Hash (map_of (sq_want req) p) = Some (sha d))" for p
    by (cases "rd (guest_path W p)") auto
  then show "sw_stale (guest_view sha rd ex W req) = [] \<longleftrightarrow>
     (\<forall>p \<in> set (regularPaths (sq_want req)). \<exists>d. rd (guest_path W p) = Some d \<and> map_option en_Hash (map_of (sq_want req) p) = Some (sha d))
     \<and> (\<forall>p \<in> set (sq_deleted req). \<not> ex (guest_path W p))"
    by (simp add: guest_view_def filter_empty_conv)
qed (simp add: guest_view_def)

lemma Probe_answer:
  assumes "answers S sha rd ex" "digest_ok sha" "gx_audit S \<in> {None, Some None}"
    and "names_ok W" "newline \<notin> set (abs_path W)" "sq_worktree req = abs_path W"
    and "\<forall>p \<in> set (regularPaths (sq_want req)) \<union> set (sq_deleted req). plain_path p"
  shows "fst (Probe S req) = Inr (guest_view sha rd ex W req)"
proof -
  let ?chunks = "chunkPaths settleArgvChunk (regularPaths (sq_want req))"
  obtain got acts where ch: "probe_chunks S req 1 ?chunks [] False = (Inr (Inr (got, False)), acts)"
    and got: "\<forall>q. map_of got q = (if q \<in> set (regularPaths (sq_want req)) \<and> rd (guest_path W q) \<noteq> None
                then map_option sha (rd (guest_path W q)) else None)"
    using probe_chunks_answer[OF assms(1,2,4-6), of ?chunks 1 "[]" False] assms(7) by (auto simp: concat_chunkPaths)
  obtain acts1 where still: "stillPresent S req (Suc (length ?chunks)) =
      (Inr (filter (\<lambda>p. ex (guest_path W p)) (sq_deleted req), [], False), acts1)"
    using stillPresent_answer[OF assms(1,4-6)] assms(7) by blast
  have cls: "concat (map (\<lambda>path. case map_of got path of
            None \<Rightarrow> [path @ '' (guest cannot read it)'']
          | Some hash \<Rightarrow> if map_option en_Hash (map_of (sq_want req) path) \<noteq> Some hash
                         then [path @ '' (guest reads bytes that were not delivered)''] else []) (regularPaths (sq_want req)))
     = concat (map (\<lambda>p. case rd (guest_path W p) of
          None \<Rightarrow> [p @ '' (guest cannot read it)'']
        | Some d \<Rightarrow> if map_option en_Hash (map_of (sq_want req) p) = Some (sha d) then []
                   else [p @ '' (guest reads bytes that were not delivered)'']) (regularPaths (sq_want req)))"
    by (intro arg_cong[where f = concat] map_cong) (auto simp: got split: option.splits)
  have fl: "filter (\<lambda>p. ex (guest_path W p) \<and> p \<in> set (sq_deleted req)) (sq_deleted req) =
      filter (\<lambda>p. ex (guest_path W p)) (sq_deleted req)" by (rule filter_cong) auto
  show ?thesis using assms(3) ch still
    by (auto simp: Probe_def auditInternalExec_def Let_def probe_verdict_def classifyGuestView_def guest_view_def cls fl split: prod.split)
qed

text \<open>
  C25. A probe reports what the guest reads: of a guest that answers, whatever the number of files
  and however they are batched, the view names exactly the delivered files it cannot read, the
  ones it reads differently, and the deleted paths it still sees, in that order, and nothing else;
  it is settled exactly when there are none.
\<close>

theorem probe_reads_the_guest:
  assumes "answers S sha rd ex" "digest_ok sha" "gx_audit S \<in> {None, Some None}"
    and "names_ok W" "newline \<notin> set (abs_path W)" "sq_worktree req = abs_path W"
    and "\<forall>p \<in> set (regularPaths (sq_want req)) \<union> set (sq_deleted req). plain_path p"
  shows "\<exists>view. fst (Probe S req) = Inr view \<and> view = guest_view sha rd ex W req
    \<and> (sw_stale view = [] \<and> sw_unverifiable view = [] \<longleftrightarrow>
         (\<forall>p \<in> set (regularPaths (sq_want req)). \<exists>d. rd (guest_path W p) = Some d \<and> map_option en_Hash (map_of (sq_want req) p) = Some (sha d))
         \<and> (\<forall>p \<in> set (sq_deleted req). \<not> ex (guest_path W p)))"
  using Probe_answer[OF assms] guest_view_settled by metis

section \<open>A guest with one file left over\<close>

definition demo_settler :: "(string \<Rightarrow> byte list option) \<Rightarrow> (string \<Rightarrow> bool) \<Rightarrow> settler" where
  "demo_settler rd ex = \<lparr>gx_exec = (\<lambda>n q. Inr (guest_answer (\<lambda>d. replicate 64 CHR ''a'') rd ex q)), gx_audit = Some None,
     gx_identity = Some RootIdentity, gx_text = (\<lambda>e. []), gx_order = (\<lambda>xs. xs)\<rparr>"

definition demo_settle_req :: settleRequest where
  "demo_settle_req = \<lparr>sq_sandboxID = ''s1'', sq_taskID = ''T-1'', sq_network = ''none'', sq_worktree = ''/w'',
     sq_want = [(''a'', \<lparr>en_Hash = replicate 64 CHR ''a'', en_Mode = 420\<rparr>)], sq_deleted = [''b'']\<rparr>"

lemma demo_settler_answers: "answers (demo_settler rd ex) (\<lambda>d. replicate 64 CHR ''a'') rd ex" "digest_ok (\<lambda>d. replicate 64 CHR ''a'')"
  by (simp_all add: answers_def demo_settler_def digest_ok_def)

theorem probe_records_before_running_witness:
  "\<exists>runs. snd (Probe (demo_settler (\<lambda>_. None) (\<lambda>_. False)) demo_settle_req) = Recorded (settle_event demo_settle_req) # runs
    \<and> (\<forall>x \<in> set runs. audited_run (demo_settler (\<lambda>_. None) (\<lambda>_. False)) x)"
proof -
  obtain r acts where run: "Probe (demo_settler (\<lambda>_. None) (\<lambda>_. False)) demo_settle_req = (r, acts)" by fastforce
  from probe_records_before_running[OF _ run, of None] show ?thesis using run by (simp add: demo_settler_def)
qed

theorem probe_reads_the_guest_witness:
  "fst (Probe (demo_settler (\<lambda>_. Some []) (\<lambda>_. True)) demo_settle_req) =
    Inr \<lparr>sw_stale = [''b (still present in the guest)''], sw_unverifiable = []\<rparr>"
proof -
  have reg: "regularPaths (sq_want demo_settle_req) = [''a'']"
    by (simp add: regularPaths_def demo_settle_req_def ModeSymlink_def)
  have pl: "plain_path ''a''" "plain_path ''b''" by (simp_all add: plain_path_def rel_ok_def plain_comp_def graph_char_def)
  have ok: "names_ok [''w'']" "newline \<notin> set (abs_path [''w''])" "sq_worktree demo_settle_req = abs_path [''w'']"
    "gx_audit (demo_settler (\<lambda>_. Some []) (\<lambda>_. True)) \<in> {None, Some None}"
    by (simp_all add: plain_comp_def abs_path_def demo_settle_req_def demo_settler_def)
  show ?thesis
    using probe_reads_the_guest[OF demo_settler_answers ok(4,1-3)] reg pl by (simp add: demo_settle_req_def guest_view_def)
qed

end
