(* ===== verification/Worktree_Delivery.thy ===== *)
theory Worktree_Delivery
  imports Worktree_Sync
begin

text \<open>
  What a worktree sync delivers when nothing is in its way: the calls succeed, no planned path
  lies beneath another, and the directories of the planned paths are plain.
\<close>

definition node_of :: "leaf \<Rightarrow> node" where
  "node_of x = (case x of LFile perm data \<Rightarrow> Regular perm data | LLink t \<Rightarrow> Symlink t)"

lemma leaf_of_node_of [simp]: "leaf_of (node_of x) = Some x"
  by (cases x) (simp_all add: node_of_def leaf_of_def)

text \<open>A place where a file can be written: its ancestors are directories or missing, and it is no directory itself.\<close>

definition writable :: "disk \<Rightarrow> string list \<Rightarrow> bool" where
  "writable D dst \<longleftrightarrow> names_ok dst \<and> dst \<noteq> [] \<and> map_of D dst \<noteq> Some Directory
     \<and> (\<forall>a. strict_prefix a dst \<and> a \<noteq> [] \<longrightarrow> map_of D a = None \<or> map_of D a = Some Directory)"

lemma prefix_butlast: "dst \<noteq> [] \<Longrightarrow> prefix a (butlast dst) \<longleftrightarrow> strict_prefix a dst"
  by (cases dst rule: rev_cases) (auto simp: strict_prefix_def prefix_snoc)

lemma writable_plain: "writable D dst \<Longrightarrow> plain_name D dst"
  by (force simp: writable_def plain_name_def no_links_def prefix_butlast)

lemma copyInto_ok:
  assumes "writable D dst"
  shows "\<exists>D'. copyInto (\<lambda>_. None) w (Some x) dst D = (None, D') \<and> map_of D' dst = Some (node_of x)
    \<and> (\<forall>q. \<not> prefix q dst \<longrightarrow> map_of D' q = map_of D q)"
proof -
  have ne: "dst \<noteq> []" and ok: "names_ok (butlast dst)" using assms by (auto simp: writable_def names_ok_def dest: in_set_butlastD)
  have nl: "no_links D [] (butlast dst)" using writable_plain[OF assms] by (simp add: plain_name_def)
  obtain D1 where mk: "os_MkdirAll (butlast dst) D = (None, D1)"
    using mkdir_all_ok[of "[]" "butlast dst" D] ok assms ne by (auto simp: os_MkdirAll_def writable_def prefix_butlast)
  have near: "map_of D1 q = map_of D q" if "\<not> strict_prefix q dst" for q
    using mkdir_all_near[of D "[]" "butlast dst" None D1 q] mk ok nl that ne by (simp add: os_MkdirAll_def prefix_butlast)
  have "all_dirs D1 [] (butlast dst)" by (rule os_MkdirAll_dirs[OF mk ok nl])
  then have real: "real_name D1 dst = Inr dst"
    using real_name_plain[of dst D1 dst] all_dirs_no_links assms by (auto simp: writable_def)
  have "all_dirs (AList.delete dst D1) [] (butlast dst)"
    using \<open>all_dirs D1 [] (butlast dst)\<close> ne by (auto simp: all_dirs_def delete_conv' prefix_butlast)
  then have real_deleted: "real_name (AList.delete dst D1) dst = Inr dst"
    using real_name_plain[of dst _ dst] all_dirs_no_links assms by (auto simp: writable_def)
  have dst: "map_of D1 dst \<noteq> Some Directory" using near[of dst] assms by (simp add: writable_def)
  have "\<exists>D'. (case x of LLink t \<Rightarrow> deliverLink (\<lambda>_. None) t dst D1
       | LFile perm data \<Rightarrow> (case clearNonRegular dst D1 of
           (Some e, D2) \<Rightarrow> (Some e, D2) | (None, D2) \<Rightarrow> write_file (\<lambda>_. None) w perm data dst D2)) = (None, D')
      \<and> map_of D' = (map_of D1)(dst \<mapsto> node_of x)"
  proof (cases x)
    case (LLink t)
    then show ?thesis using real_deleted real dst
      by (cases "map_of D1 dst") (auto simp: deliverLink_def os_Remove_def os_Symlink_def IsNotExist_def node_of_def update_conv' delete_conv')
  next
    case (LFile perm data)
    show ?thesis
    proof (cases "map_of D1 dst")
      case (Some nd)
      then show ?thesis
      proof (cases nd)
        case (Symlink t)
        then show ?thesis using Some LFile real real_deleted
          by (auto simp: clearNonRegular_def os_Lstat_def os_Remove_def write_file_def open_trunc_nofollow_def node_of_def
              update_conv' delete_conv' Let_def)
      qed (use Some dst LFile real in \<open>auto simp: clearNonRegular_def os_Lstat_def write_file_def open_trunc_nofollow_def
          node_of_def update_conv' Let_def\<close>)
    qed (use LFile real in \<open>auto simp: clearNonRegular_def os_Lstat_def IsNotExist_def write_file_def open_trunc_nofollow_def
        node_of_def update_conv' Let_def\<close>)
  qed
  then obtain D' where run: "(case x of LLink t \<Rightarrow> deliverLink (\<lambda>_. None) t dst D1
       | LFile perm data \<Rightarrow> (case clearNonRegular dst D1 of
           (Some e, D2) \<Rightarrow> (Some e, D2) | (None, D2) \<Rightarrow> write_file (\<lambda>_. None) w perm data dst D2)) = (None, D')"
    and D': "map_of D' = (map_of D1)(dst \<mapsto> node_of x)" by blast
  have "copyInto (\<lambda>_. None) w (Some x) dst D = (None, D')" using mk run by (cases x) (simp_all add: copyInto_def)
  moreover have "map_of D' q = map_of D q" if "\<not> prefix q dst" for q
    using that near[of q] D' by (auto simp: strict_prefix_def)
  ultimately show ?thesis using D' by auto
qed


lemma writable_other:
  assumes "writable D b" "changes_at {a} D D1" "\<forall>q. \<not> prefix q a \<longrightarrow> map_of D1 q = map_of D q"
    "\<not> strict_prefix a b" "\<not> prefix b a"
  shows "writable D1 b"
  unfolding writable_def
proof (intro conjI allI impI)
  fix c assume c: "strict_prefix c b \<and> c \<noteq> []"
  then have "c \<notin> {a}" using assms(4) by auto
  then show "map_of D1 c = None \<or> map_of D1 c = Some Directory"
    using assms(1,2) c by (metis changes_at_def writable_def)
qed (use assms in \<open>auto simp: writable_def\<close>)

lemma place_apart:
  assumes "apart rels" "a \<in> set rels" "b \<in> set rels" "a \<noteq> b"
  shows "\<not> strict_prefix (place R a) (place R b)" "\<not> prefix (place R b) (place R a)"
proof -
  have no: "\<not> strict_prefix (place R u) (place R v)" if "u \<in> set rels" "v \<in> set rels" for u v
    using assms(1) that by (simp add: apart_def place_def strict_prefix_append)
  show "\<not> strict_prefix (place R a) (place R b)" using no assms(2,3) by blast
  have "place R b \<noteq> place R a" using assms(4) by (simp add: place_inj)
  then show "\<not> prefix (place R b) (place R a)" using no[OF assms(3,2)] by (simp add: strict_prefix_def)
qed

lemma place_mem [simp]: "place R p \<in> place R ` S \<longleftrightarrow> p \<in> S"
  by (auto simp: place_inj)

lemma apply_updates_ok:
  assumes "names_ok R" "se_fault E = (\<lambda>_ _. None)" "\<forall>x \<in> set rels. rel_ok x \<and> writable D (place R x) \<and> map_of staged x \<noteq> None"
    "apart rels" "distinct rels"
  shows "\<exists>D'. apply_updates E staged (abs_path R) rels D = (None, D')
    \<and> (\<forall>x \<in> set rels. map_of D' (place R x) = map_option node_of (map_of staged x))
    \<and> (\<forall>q. (\<forall>x \<in> set rels. \<not> prefix q (place R x)) \<longrightarrow> map_of D' q = map_of D q)"
  using assms(3-5)
proof (induction rels arbitrary: D)
  case (Cons x xs)
  obtain y where y: "map_of staged x = Some y" using Cons.prems(1) by auto
  have wx: "writable D (place R x)" using Cons.prems(1) by simp
  obtain D1 where cp: "copyInto (\<lambda>_. None) (se_written E x) (Some y) (place R x) D = (None, D1)"
    and at: "map_of D1 (place R x) = Some (node_of y)" and near: "\<forall>q. \<not> prefix q (place R x) \<longrightarrow> map_of D1 q = map_of D q"
    using copyInto_ok[OF wx] by blast
  have ch: "changes_at {place R x} D D1" by (rule copyInto_changes[OF cp writable_plain[OF wx]])
  have rest: "\<forall>z \<in> set xs. rel_ok z \<and> writable D1 (place R z) \<and> map_of staged z \<noteq> None"
  proof
    fix z assume z: "z \<in> set xs"
    then have "x \<noteq> z" using Cons.prems(3) by auto
    then show "rel_ok z \<and> writable D1 (place R z) \<and> map_of staged z \<noteq> None"
      using writable_other[OF _ ch near, of "place R z"] place_apart[OF Cons.prems(2), of x z] Cons.prems(1) z by auto
  qed
  have ap: "apart xs" using Cons.prems(2) by (simp add: apart_def)
  obtain D' where run: "apply_updates E staged (abs_path R) xs D1 = (None, D')"
    and xs: "\<forall>z \<in> set xs. map_of D' (place R z) = map_option node_of (map_of staged z)"
    and far: "\<forall>q. (\<forall>z \<in> set xs. \<not> prefix q (place R z)) \<longrightarrow> map_of D' q = map_of D1 q"
    using Cons.IH[OF rest ap] Cons.prems(3) by auto
  have "changes_at (place R ` set xs) D1 D'"
    using apply_updates_changes[OF assms(1) run _ ap] rest writable_plain by blast
  moreover have "place R x \<notin> place R ` set xs" using Cons.prems(3) by (auto simp: place_inj)
  ultimately have "map_of D' (place R x) = Some (node_of y)" using at changes_at_leaf by blast
  then show ?case using run xs far near cp y Cons.prems(1) assms(1,2) by (auto simp: safeJoin_place path_comps_place)
qed simp

lemma removeForGuest_ok:
  assumes "plain_name D dst" "all_dirs D [] (butlast dst)" "map_of D dst = Some nd" "nd \<noteq> Directory"
  shows "\<exists>D'. removeForGuest (\<lambda>_. None) dst D = (None, D') \<and> map_of D' = (map_of D)(dst := None)"
proof -
  have real: "real_name D dst = Inr dst" using real_name_plain[of dst D dst] assms(1,2) by (simp add: plain_name_def)
  show ?thesis
  proof (cases nd)
    case (Regular perm data)
    have "all_dirs (AList.update dst (Regular perm []) D) [] (butlast dst)"
      using assms(1,2) by (auto simp: all_dirs_def update_conv' plain_name_def prefix_butlast)
    then have "real_name (AList.update dst (Regular perm []) D) dst = Inr dst"
      using real_name_plain[of dst _ dst] all_dirs_no_links assms(1) by (auto simp: plain_name_def)
    then show ?thesis using Regular real assms(3)
      by (auto simp: removeForGuest_def emptyRegularFile_def os_Lstat_def os_Remove_def update_conv' delete_conv')
  qed (use real assms(3,4) in \<open>auto simp: removeForGuest_def emptyRegularFile_def os_Lstat_def os_Remove_def delete_conv'\<close>)
qed

definition deletable :: "disk \<Rightarrow> string list \<Rightarrow> bool" where
  "deletable D dst \<longleftrightarrow> plain_name D dst \<and> all_dirs D [] (butlast dst) \<and> (\<exists>nd. map_of D dst = Some nd \<and> nd \<noteq> Directory)"

lemma deletable_keep:
  assumes "deletable D b" "changes_at P D D1" "b \<notin> P" "\<forall>a. strict_prefix a b \<longrightarrow> a \<notin> P"
  shows "deletable D1 b"
proof -
  have "all_dirs D1 [] (butlast b)"
    using assms changes_at_leaf[OF assms(2)] by (auto simp: deletable_def all_dirs_def plain_name_def prefix_butlast)
  then show ?thesis using assms plain_name_keep[OF _ assms(2,4)] changes_at_leaf[OF assms(2,3)] by (auto simp: deletable_def)
qed

lemma apply_deletes_ok:
  assumes "names_ok R" "se_fault E = (\<lambda>_ _. None)" "\<forall>x \<in> set rels. rel_ok x \<and> deletable D (place R x)"
    "apart rels" "distinct rels"
  shows "\<exists>D'. apply_deletes E (abs_path R) rels D = (None, D') \<and> (\<forall>x \<in> set rels. map_of D' (place R x) = None)
    \<and> (\<forall>q. q \<notin> place R ` set rels \<longrightarrow> map_of D' q = map_of D q)"
  using assms(3-5)
proof (induction rels arbitrary: D)
  case (Cons x xs)
  obtain D1 where rm: "removeForGuest (\<lambda>_. None) (place R x) D = (None, D1)" and D1: "map_of D1 = (map_of D)(place R x := None)"
    using removeForGuest_ok Cons.prems(1) unfolding deletable_def by (metis list.set_intros(1))
  have ch: "changes_at {place R x} D D1" by (simp add: changes_at_def D1)
  have "\<forall>z \<in> set xs. rel_ok z \<and> deletable D1 (place R z)"
  proof
    fix z assume z: "z \<in> set xs"
    then have "x \<noteq> z" using Cons.prems(3) by auto
    then show "rel_ok z \<and> deletable D1 (place R z)"
      using deletable_keep[OF _ ch, of "place R z"] place_apart(1)[OF Cons.prems(2), of x z] Cons.prems(1) z by (auto simp: place_inj)
  qed
  then obtain D' where D': "apply_deletes E (abs_path R) xs D1 = (None, D')" "\<forall>z \<in> set xs. map_of D' (place R z) = None"
    "\<forall>q. q \<notin> place R ` set xs \<longrightarrow> map_of D' q = map_of D1 q"
    using Cons.IH[of D1] Cons.prems(2,3) by (auto simp: apart_def)
  moreover have "map_of D' (place R x) = None" using D'(3) D1 Cons.prems(3) by simp
  ultimately show ?case using rm D1 Cons.prems(1,3) assms(1,2) by (auto simp: safeJoin_place path_comps_place place_inj)
qed simp


lemma keys_after_apply:
  assumes "keys_ok D" "\<forall>p \<in> set up. writable D (place R p)"
    and "\<forall>q. (\<forall>p \<in> set up. \<not> prefix q (place R p)) \<longrightarrow> map_of D1 q = map_of D q"
    and "\<forall>p \<in> set del. map_of D' (place R p) = None" "\<forall>q. q \<notin> place R ` set del \<longrightarrow> map_of D' q = map_of D1 q"
  shows "keys_ok D'"
proof -
  have "names_ok q" if q: "map_of D' q = Some nd" for q nd
  proof (cases "\<exists>p \<in> set up. prefix q (place R p)")
    case True
    then show ?thesis using assms(2) by (auto simp: writable_def prefix_def)
  next
    case False
    then have "map_of D1 q = map_of D q" using assms(3) by blast
    then have "map_of D q = Some nd" using q assms(4,5) by (cases "q \<in> place R ` set del") auto
    then show ?thesis using assms(1) by (auto simp: keys_ok_def)
  qed
  then show ?thesis by (auto simp: keys_ok_def)
qed

lemma deletable_after_updates:
  assumes "changes_at (place R ` set (pn_Update plan)) D D1" "apart (planned plan)" "set (pn_Update plan) \<inter> set (pn_Delete plan) = {}"
    and "\<forall>p \<in> set (pn_Delete plan). rel_ok p \<and> deletable D (place R p)"
  shows "\<forall>p \<in> set (pn_Delete plan). rel_ok p \<and> deletable D1 (place R p)"
proof
  fix p assume p: "p \<in> set (pn_Delete plan)"
  have "place R p \<notin> place R ` set (pn_Update plan)" using p assms(3) by (auto simp: place_inj)
  moreover have "\<forall>a. strict_prefix a (place R p) \<longrightarrow> a \<notin> place R ` set (pn_Update plan)"
    using assms(2) p by (auto simp: apart_def planned_def place_def strict_prefix_append)
  ultimately show "rel_ok p \<and> deletable D1 (place R p)" using deletable_keep[OF _ assms(1)] assms(4) p by blast
qed

text \<open>Applying an unhindered plan puts the host's files at the updated paths and nothing at the deleted ones.\<close>

lemma clean_apply:
  assumes tree: "names_ok R" "keys_ok D" "se_fault E = (\<lambda>_ _. None)"
    and plan: "\<not> plan_Blocked plan" "distinct (pn_Update plan)" "distinct (pn_Delete plan)" "set (pn_Update plan) \<inter> set (pn_Delete plan) = {}" "apart (planned plan)"
      "\<forall>p \<in> set (pn_Update plan). rel_ok p \<and> writable D (place R p)" "\<forall>p \<in> set (pn_Delete plan). rel_ok p \<and> deletable D (place R p)"
      "\<forall>p \<in> set (pn_Update plan). map_of staged p \<noteq> None"
  shows "\<exists>D'. Apply E staged (abs_path R) plan D = (None, D') \<and> keys_ok D'
    \<and> (\<forall>p \<in> set (pn_Update plan). leaf_at R p D' = map_of staged p) \<and> (\<forall>p \<in> set (pn_Delete plan). leaf_at R p D' = None)
    \<and> (\<forall>p. p \<notin> set (planned plan) \<longrightarrow> leaf_at R p D' = leaf_at R p D)"
proof -
  have ap: "apart (pn_Update plan)" "apart (pn_Delete plan)" using plan(5) by (auto simp: apart_def planned_def)
  obtain D1 where up: "apply_updates E staged (abs_path R) (pn_Update plan) D = (None, D1)"
    and at: "\<forall>p \<in> set (pn_Update plan). map_of D1 (place R p) = map_option node_of (map_of staged p)"
    and far: "\<forall>q. (\<forall>p \<in> set (pn_Update plan). \<not> prefix q (place R p)) \<longrightarrow> map_of D1 q = map_of D q"
    using apply_updates_ok[OF tree(1,3) _ ap(1) plan(2)] plan(6,8) by blast
  have ch1: "changes_at (place R ` set (pn_Update plan)) D D1"
    using apply_updates_changes[OF tree(1) up _ ap(1)] plan(6) writable_plain by blast
  obtain D' where del: "apply_deletes E (abs_path R) (pn_Delete plan) D1 = (None, D')"
    "\<forall>p \<in> set (pn_Delete plan). map_of D' (place R p) = None"
    "\<forall>q. q \<notin> place R ` set (pn_Delete plan) \<longrightarrow> map_of D' q = map_of D1 q"
    using apply_deletes_ok[OF tree(1,3) deletable_after_updates[OF ch1 plan(5,4,7)] ap(2) plan(3)] by blast
  have run: "Apply E staged (abs_path R) plan D = (None, D')" using up del(1) plan(1) by (simp add: Apply_def)
  have upd: "leaf_at R p D' = map_of staged p" if p: "p \<in> set (pn_Update plan)" for p
  proof -
    have "map_of D' (place R p) = map_option node_of (map_of staged p)" using p at del(3) plan(4) by (metis IntI empty_iff place_mem)
    then show ?thesis using plan(8) p by (auto simp: leaf_at_def)
  qed
  have other: "leaf_at R p D' = leaf_at R p D" if p: "p \<notin> set (planned plan)" for p
  proof -
    have "place R p \<notin> place R ` set (pn_Update plan)" "place R p \<notin> place R ` set (pn_Delete plan)"
      using p by (simp_all add: planned_def)
    then have "map_of D' (place R p) = map_of D (place R p) \<or> map_of D (place R p) = None \<and> map_of D' (place R p) = Some Directory"
      using ch1 del(3) by (auto simp: changes_at_def)
    then show ?thesis by (auto simp: leaf_at_def leaf_of_def)
  qed
  have "keys_ok D'" using keys_after_apply[OF tree(2) _ far del(2,3)] plan(6) by blast
  then show ?thesis using run upd other del(2) by (auto simp: leaf_at_def)
qed

lemma delivered_verifies:
  assumes "names_ok R" "keys_ok D'" "\<forall>p \<in> set (pn_Update plan). leaf_at R p D' = map_of staged p" "\<forall>p \<in> set (pn_Delete plan). leaf_at R p D' = None"
  shows "VerifyDelivery plan (BuildManifest L staged) (guest_manifest L (abs_path R) D') = []"
proof -
  have "update_missing (BuildManifest L staged) (guest_manifest L (abs_path R) D') p = []" if "p \<in> set (pn_Update plan)" for p
    using assms(3) that by (simp add: update_missing_def guest_manifest_lookup[OF assms(1,2)] BuildManifest_lookup split: option.split)
  moreover have "delete_missing (guest_manifest L (abs_path R) D') p = []" if "p \<in> set (pn_Delete plan)" for p
    using assms(4) that by (simp add: delete_missing_def guest_manifest_lookup[OF assms(1,2)])
  ultimately show ?thesis by (simp add: VerifyDelivery_def)
qed

lemma nothing_new_to_sync:
  assumes "distinct (map fst h)"
  shows "plan_Empty (Compute h h g)"
proof -
  have v: "path_verdict h h g p = Keep" for p by (cases "map_of h p"; cases "map_of g p") (auto simp: path_verdict_def)
  then have "pn_Conflicts (Compute h h g) = []"
    using Compute_Conflicts[OF assms assms, of _ g] by (simp add: set_empty[symmetric] set_eq_iff del: set_empty)
  then show ?thesis using Compute_order[OF assms assms] v by (simp add: plan_Empty_def)
qed




end
