(* ===== verification/Worktree_Faults.thy ===== *)
theory Worktree_Faults
  imports Worktree_Sync
begin

text \<open>
  Where a worktree sync falls short of its promises: a retry after a failure that came late, a
  path that changes between a file and a directory, and a guest that plants a link in the tree it
  shares with the host.
\<close>

section \<open>A retry after a late failure\<close>

lemma verified_update:
  assumes "VerifyDelivery plan host actual = []" "p \<in> set (pn_Update plan)" "map_of host p = Some e"
  shows "map_of actual p = Some e"
proof -
  have "update_missing host actual p = []" using assms(1,2) by (auto simp: VerifyDelivery_def)
  then obtain g where g: "map_of actual p = Some g" "en_Hash g = en_Hash e" "en_Mode g = en_Mode e"
    using assms(3) by (auto simp: update_missing_def split: option.splits if_splits)
  then have "g = e" by (cases g; cases e) simp
  then show ?thesis using g(1) by simp
qed

lemma rewritten_is_refused:
  assumes "path_verdict delivered host guest p = Write" "map_of guest' p = map_of host p"
  shows "\<exists>r. path_verdict delivered host guest' p = Refuse r False"
  using assms path_verdict_eq[OF assms(1)]
  by (cases "map_of delivered p"; cases "map_of host p"; cases "map_of guest p") (auto simp: path_verdict_def split: if_splits)

text \<open>
  A sync that fails after it applied its plan cannot be repeated: when the new baseline cannot
  be written, the guest already holds the delivered files but the record says otherwise, so the
  next sync, with nothing changed on either side, refuses as a conflict every path the first one
  wrote, as modified in the guest. The documentation promises that a failed sync derives the same
  work again.
\<close>

theorem interrupted_sync_refuses_retry:
  assumes req: "\<not> rq_Force req" "\<not> rq_DryRun req" "plan = sync_plan_of L staged (rq_GuestTree req) st"
    and first: "se_clear E = None" "se_build E = Inr staged" "se_views E = None"
      "Apply E staged (rq_GuestTree req) plan (ss_disk st) = (None, Dn)" "se_readback E = None"
      "VerifyDelivery plan (BuildManifest L staged) (guest_manifest L (rq_GuestTree req) Dn) = []" "se_save E = Some e"
    and again: "se_clear E2 = None" "se_build E2 = Inr staged" "se_views E2 = None"
    and maps: "distinct (map fst (LoadManifest st))" "distinct (map fst staged)" "pn_Update plan \<noteq> []"
  shows "\<exists>st1 cs. Sync L E req st = (Inl (SyncError e), st1) \<and> Sync L E2 req st1 = (Inl (ConflictError cs), st1)
    \<and> set (pn_Update plan) \<subseteq> cf_Path ` set cs"
proof -
  let ?h = "BuildManifest L staged" and ?st1 = "st\<lparr>ss_disk := Dn\<rparr>"
  let ?plan2 = "sync_plan_of L staged (rq_GuestTree req) ?st1"
  have nb: "\<not> plan_Blocked plan" using first(4) by (auto simp: Apply_def)
  have "\<not> plan_Empty plan" using maps(3) by (simp add: plan_Empty_def)
  then have run1: "Sync L E req st = (Inl (SyncError e), ?st1)"
    using req first nb by (simp add: Sync_def sync_apply_def sync_plan_of_def Let_def)
  have load: "LoadManifest ?st1 = LoadManifest st" by (simp add: LoadManifest_def)
  have hd: "distinct (map fst ?h)" using maps(2) by (rule BuildManifest_distinct)
  have again_refused: "p \<in> cf_Path ` set (pn_Conflicts ?plan2)" if p: "p \<in> set (pn_Update plan)" for p
  proof -
    have w: "path_verdict (LoadManifest st) ?h (guest_manifest L (rq_GuestTree req) (ss_disk st)) p = Write"
      using p Compute_Update[OF hd] req(3) by (simp add: sync_plan_of_def)
    then obtain w' where "map_of ?h p = Some w'" using path_verdict_eq[OF w] by (auto dest!: verdict_Write)
    then have "map_of (guest_manifest L (rq_GuestTree req) Dn) p = map_of ?h p"
      using verified_update[OF first(6) p] by simp
    then obtain r where "path_verdict (LoadManifest st) ?h (guest_manifest L (rq_GuestTree req) Dn) p = Refuse r False"
      using rewritten_is_refused[OF w] by blast
    then have "\<lparr>cf_Path = p, cf_Reason = r, cf_HostAbsent = False\<rparr> \<in> set (pn_Conflicts ?plan2)"
      using Compute_Conflicts[OF maps(1) hd] load by (simp add: sync_plan_of_def)
    then show ?thesis by (force simp: image_iff)
  qed
  then have ne: "pn_Conflicts ?plan2 \<noteq> []" using hd_in_set[OF maps(3)] by fastforce
  moreover have "\<not> pn_forced ?plan2" using Compute_sorted(4)[OF maps(1) hd] load by (simp add: sync_plan_of_def)
  ultimately have "plan_Blocked ?plan2" "\<not> plan_Empty ?plan2" by (simp_all add: plan_Blocked_def plan_Empty_def)
  then have "Sync L E2 req ?st1 = (Inl (ConflictError (pn_Conflicts ?plan2)), ?st1)"
    using again req(1,2) by (simp add: Sync_def sync_apply_def sync_plan_of_def Let_def)
  then show ?thesis using run1 again_refused by blast
qed

section \<open>A file that becomes a directory\<close>

lemma apply_updates_reaches:
  assumes "names_ok R" "apply_updates E staged (abs_path R) rels D = (None, D')" "rel \<in> set rels"
    "\<forall>x \<in> set rels. rel_ok x \<and> plain_name D (place R x)" "apart rels"
  shows "\<exists>D1 D2. changes_at (place R ` (set rels - {rel})) D D1
    \<and> copyInto (se_fault E rel) (se_written E rel) (map_of staged rel) (place R rel) D1 = (None, D2)"
  using assms(2-5)
proof (induction rels arbitrary: D)
  case (Cons x xs)
  obtain D1 where cp: "copyInto (se_fault E x) (se_written E x) (map_of staged x) (place R x) D = (None, D1)"
    and run: "apply_updates E staged (abs_path R) xs D1 = (None, D')"
    using Cons.prems(1,3) assms(1) by (auto simp: safeJoin_place path_comps_place split: prod.splits option.splits)
  have ch: "changes_at {place R x} D D1" using copyInto_changes[OF cp] Cons.prems(3) by simp
  show ?case
  proof (cases "rel = x")
    case False
    have "\<forall>y \<in> set xs. rel_ok y \<and> plain_name D1 (place R y)"
      using Cons.prems(3,4) plain_name_other[OF _ ch] by (simp add: apart_def)
    then obtain D2 D3 where "changes_at (place R ` (set xs - {rel})) D1 D2"
      "copyInto (se_fault E rel) (se_written E rel) (map_of staged rel) (place R rel) D2 = (None, D3)"
      using Cons.IH[OF run] Cons.prems(2,4) False by (auto simp: apart_def)
    moreover from this(1) have "changes_at (place R ` (set (x # xs) - {rel})) D D2"
      by (rule changes_at_mono[OF changes_at_trans[OF ch]]) (use False in auto)
    ultimately show ?thesis by blast
  qed (use cp in auto)
qed simp

lemma copyInto_needs_dirs:
  assumes "copyInto fault w src dst D = (None, D')" "plain_name D dst"
  shows "\<exists>D1. all_dirs D1 [] (butlast dst) \<and> changes_at {} D D1"
proof -
  obtain D1 where mk: "os_MkdirAll (butlast dst) D = (None, D1)"
    using assms(1) by (auto simp: copyInto_def split: option.splits sum.splits prod.splits)
  have "names_ok (butlast dst)" using assms(2) by (meson plain_name_def in_set_butlastD names_ok_def)
  then show ?thesis using os_MkdirAll_dirs[OF mk] os_MkdirAll_changes[OF mk] assms(2) by (auto simp: plain_name_def)
qed

lemma copyInto_refuses_filled:
  assumes "copyInto fault w src dst D = (None, D')" "plain_name D dst"
    and "map_of D dst = Some Directory" "strict_prefix dst q" "map_of D q = Some nd"
  shows False
proof -
  obtain x D1 where mk: "os_MkdirAll (butlast dst) D = (None, D1)"
    and rest: "(case x of LLink t \<Rightarrow> deliverLink fault t dst D1
       | LFile perm data \<Rightarrow> (case (case fault CClear of Some e \<Rightarrow> (Some e, D1) | None \<Rightarrow> clearNonRegular dst D1) of
           (Some e, D2) \<Rightarrow> (Some e, D2) | (None, D2) \<Rightarrow> write_file fault w perm data dst D2)) = (None, D')"
    using assms(1) by (auto simp: copyInto_def split: option.splits sum.splits prod.splits)
  have ch: "changes_at {} D D1" by (rule os_MkdirAll_changes[OF mk])
  then have d: "map_of D1 dst = Some Directory" "map_of D1 q = Some nd" using changes_at_leaf assms(3,5) by blast+
  have "names_ok (butlast dst)" using assms(2) by (meson plain_name_def in_set_butlastD names_ok_def)
  then have "all_dirs D1 [] (butlast dst)" using os_MkdirAll_dirs[OF mk] assms(2) by (simp add: plain_name_def)
  moreover have "plain_name D1 dst" by (rule plain_name_keep[OF assms(2) ch]) simp
  ultimately have real: "real_name D1 dst = Inr dst" using real_name_plain[of dst D1 dst] by (simp add: plain_name_def)
  have "\<exists>x \<in> set D1. strict_prefix dst (fst x)" using d(2) assms(4) by (metis fst_conv map_of_SomeD)
  then have rm: "os_Remove dst D1 = (Some ENOTEMPTY, D1)" using real d(1) by (simp add: os_Remove_def)
  then have "clearNonRegular dst D1 = (Some ENOTEMPTY, D1)" using real d(1) by (simp add: clearNonRegular_def os_Lstat_def)
  moreover have "os_Symlink t dst D1 \<noteq> (None, D')" for t using real d(1) by (simp add: os_Symlink_def)
  ultimately show False using rest rm by (cases x) (auto simp: deliverLink_def IsNotExist_def split: option.splits if_splits)
qed


text \<open>What the application of a plan means for an unforced sync.\<close>

lemma Sync_success:
  assumes "Sync L E req st = (Inr res, st')" "\<not> rq_Force req" "\<not> rq_DryRun req" "se_build E = Inr staged"
    "plan = sync_plan_of L staged (rq_GuestTree req) st" "\<not> plan_Empty plan"
  shows "\<exists>D1. Apply E staged (rq_GuestTree req) plan (ss_disk st) = (None, D1)
    \<and> VerifyDelivery plan (BuildManifest L staged) (guest_manifest L (rq_GuestTree req) D1) = []
    \<and> st' = st\<lparr>ss_disk := D1, ss_saved := Some (BuildManifest L staged)\<rparr>"
  using assms by (auto simp: Sync_def sync_apply_def sync_plan_of_def Let_def split: option.splits prod.splits if_splits)

lemma Sync_failure_saved:
  assumes "Sync L E req st = (Inl e, st')"
  shows "ss_saved st' = ss_saved st"
  using assms by (auto simp: Sync_def sync_apply_def Let_def split: option.splits sum.splits prod.splits if_splits)

text \<open>
  A path that turns from a file into a directory, or back, is never synced: writes are applied
  before deletions, so the old file blocks the new directory and the delivered content of the old
  directory blocks the new file. Every sync of such a change fails, whatever else it carries and
  whatever the host does, records nothing, and leaves the old file in the guest, so the next one
  fails in the same way.
\<close>

theorem kind_change_never_syncs:
  assumes req: "\<not> rq_Force req" "\<not> rq_DryRun req" "rq_GuestTree req = abs_path R" "se_build E = Inr staged"
    and tree: "names_ok R" "keys_ok (ss_disk st)" "distinct (map fst (LoadManifest st))" "distinct (map fst staged)"
    and plan: "plan = sync_plan_of L staged (abs_path R) st" "apart (pn_Update plan)"
      "\<forall>p \<in> set (planned plan). rel_ok p \<and> plain_name (ss_disk st) (place R p)"
    and kind: "new \<in> set (pn_Update plan)" "old \<in> set (pn_Delete plan)"
      "strict_prefix (split_on CHR ''/'' old) (split_on CHR ''/'' new)
       \<or> strict_prefix (split_on CHR ''/'' new) (split_on CHR ''/'' old) \<and> map_of (ss_disk st) (place R new) = Some Directory"
  shows "\<exists>e st'. Sync L E req st = (Inl e, st') \<and> ss_saved st' = ss_saved st
    \<and> leaf_at R old (ss_disk st') = leaf_at R old (ss_disk st)"
proof -
  let ?h = "BuildManifest L staged" and ?g = "guest_manifest L (abs_path R) (ss_disk st)"
  obtain r st' where run: "Sync L E req st = (r, st')" by fastforce
  have hd: "distinct (map fst ?h)" using tree(4) by (rule BuildManifest_distinct)
  have er: "path_verdict (LoadManifest st) ?h ?g old = Erase"
    using kind(2) plan(1) Compute_Delete[OF tree(3)] by (simp add: sync_plan_of_def)
  have notup: "old \<notin> set (pn_Update plan)" using er plan(1) Compute_Update[OF hd] by (simp add: sync_plan_of_def)
  have "map_of ?g old \<noteq> None" using path_verdict_eq[OF er] by (auto dest!: verdict_Erase)
  then obtain nd where nd: "map_of (ss_disk st) (place R old) = Some nd" "nd \<noteq> Directory"
    by (auto simp: guest_manifest_lookup[OF tree(1,2)] leaf_at_def leaf_of_def split: if_splits option.splits node.splits)
  have pu: "\<forall>x \<in> set (pn_Update plan). rel_ok x \<and> plain_name (ss_disk st) (place R x)" using plan(3) by (simp add: planned_def)
  have stuck: "fst (apply_updates E staged (abs_path R) (pn_Update plan) (ss_disk st)) \<noteq> None"
  proof
    assume "fst (apply_updates E staged (abs_path R) (pn_Update plan) (ss_disk st)) = None"
    then obtain D' where "apply_updates E staged (abs_path R) (pn_Update plan) (ss_disk st) = (None, D')" by (metis prod.collapse)
    then obtain D1 D2 where ch: "changes_at (place R ` (set (pn_Update plan) - {new})) (ss_disk st) D1"
      and cp: "copyInto (se_fault E new) (se_written E new) (map_of staged new) (place R new) D1 = (None, D2)"
      using apply_updates_reaches[OF tree(1) _ kind(1) pu plan(2)] by blast
    have pn: "plain_name D1 (place R new)"
      by (rule plain_name_keep[OF _ ch]) (use pu kind(1) plan(2) in \<open>auto simp: apart_def place_def strict_prefix_append\<close>)
    have "place R old \<notin> place R ` (set (pn_Update plan) - {new})" using notup by (auto simp: place_inj)
    then have old1: "map_of D1 (place R old) = Some nd" using changes_at_leaf[OF ch] nd(1) by blast
    from kind(3) show False
    proof
      assume "strict_prefix (split_on CHR ''/'' old) (split_on CHR ''/'' new)"
      then have "prefix (place R old) (butlast (place R new))"
        by (auto simp: place_def strict_prefix_def prefix_def butlast_append)
      moreover obtain D3 where "all_dirs D3 [] (butlast (place R new))" "changes_at {} D1 D3"
        using copyInto_needs_dirs[OF cp pn] by blast
      moreover have "map_of D3 (place R old) = Some nd" using \<open>changes_at {} D1 D3\<close> old1 changes_at_leaf by blast
      moreover have "place R old \<noteq> []" by (simp add: place_def)
      ultimately show False using nd(2) by (auto simp: all_dirs_def)
    next
      assume d: "strict_prefix (split_on CHR ''/'' new) (split_on CHR ''/'' old) \<and> map_of (ss_disk st) (place R new) = Some Directory"
      have "place R new \<notin> place R ` (set (pn_Update plan) - {new})" by (auto simp: place_inj)
      then have "map_of D1 (place R new) = Some Directory" using changes_at_leaf[OF ch] d by blast
      then show False using copyInto_refuses_filled[OF cp pn _ _ old1] d by (simp add: place_def strict_prefix_append)
    qed
  qed
  have unapplied: "Apply E staged (abs_path R) plan (ss_disk st) \<noteq> (None, D1)" for D1
    using stuck by (auto simp: Apply_def split: prod.splits option.splits)
  have "\<not> plan_Empty plan" using kind(1) by (auto simp: plan_Empty_def)
  then have "r \<noteq> Inr res" for res
    using Sync_success[of L E req st res st' staged plan] run req plan(1) unapplied by auto
  then obtain e where r: "r = Inl e" by (cases r) auto
  have "ss_disk st' = ss_disk st \<or> (\<exists>r1. Apply E staged (abs_path R) plan (ss_disk st) = (r1, ss_disk st'))"
    using Sync_disk_cases[OF run req(1,4)] req(3) plan(1) by simp
  moreover have "map_of (ss_disk st') (place R old) = Some nd" if ap: "Apply E staged (abs_path R) plan (ss_disk st) = (r1, ss_disk st')" for r1
  proof (cases "plan_Blocked plan")
    case False
    then have "apply_updates E staged (abs_path R) (pn_Update plan) (ss_disk st) = (r1, ss_disk st')"
      using ap stuck by (auto simp: Apply_def split: prod.splits option.splits)
    then have "changes_at (place R ` set (pn_Update plan)) (ss_disk st) (ss_disk st')"
      by (rule apply_updates_changes[OF tree(1) _ pu plan(2)])
    moreover have "place R old \<notin> place R ` set (pn_Update plan)" using notup by (auto simp: place_inj)
    ultimately show ?thesis using nd(1) changes_at_leaf by blast
  qed (use ap nd in \<open>simp add: Apply_def\<close>)
  ultimately have "leaf_at R old (ss_disk st') = leaf_at R old (ss_disk st)" using nd(1) by (auto simp: leaf_at_def)
  then show ?thesis using run r Sync_failure_saved[of L E req st e st'] by blast
qed


section \<open>A link planted by the guest\<close>

lemma planted_dir:
  assumes "names_ok R" "all_dirs D [] R" "names_ok [d, x]" "map_of D (R @ [d]) = Some (Symlink (abs_path T))" "names_ok T" "T \<noteq> []" "all_dirs D [] T"
  shows "os_MkdirAll (R @ [d]) D = (None, D)" "real_name D (R @ [d, x]) = Inr (T @ [x])"
proof -
  have dpl: "d \<noteq> []" "d \<noteq> ''.''" "d \<noteq> ''..''" using assms(3) by (auto simp: plain_comp_def)
  have "real_dir D (R @ [d]) = dir_walk max_links D R [d]"
    using dir_walk_dirs[OF assms(1,2), of max_links "[d]"] by (simp add: real_dir_def)
  also have "\<dots> = dir_walk 39 D [] ([] # T)" using dpl assms(4) split_abs_path[OF assms(5,6)] by (simp add: max_links_def)
  also have "\<dots> = Inr T" using dir_walk_dirs[OF assms(5,7), of 39 "[]"] by simp
  finally have walk: "real_dir D (R @ [d]) = Inr T" .
  have "\<exists>r. real_dir D a = Inr r" if "prefix a (R @ [d])" "a \<noteq> []" for a
  proof (cases "a = R @ [d]")
    case False
    then have "prefix a R" using that by (simp add: prefix_snoc)
    then have "names_ok a" "all_dirs D [] a" using assms(1,2) all_dirs_prefix by (auto simp: prefix_def)
    then show ?thesis using real_dir_dirs by blast
  qed (use walk in simp)
  then show "os_MkdirAll (R @ [d]) D = (None, D)" using mkdir_all_passes[of "R @ [d]" D "[]"] by (simp add: os_MkdirAll_def)
  show "real_name D (R @ [d, x]) = Inr (T @ [x])" using walk by (simp add: real_name_def butlast_append)
qed

lemma planted_copy:
  assumes "os_MkdirAll (R @ [d]) D = (None, D)" "real_name D (R @ [d, x]) = Inr (T @ [x])"
    and "map_of D (T @ [x]) = None \<or> (\<exists>p0 old. map_of D (T @ [x]) = Some (Regular p0 old))"
  shows "\<exists>D'. (\<forall>w. copyInto (\<lambda>_. None) w (Some (LFile perm data)) (R @ [d, x]) D = (None, D')) \<and> map_of D' = (map_of D)(T @ [x] \<mapsto> Regular perm data)"
proof -
  have cl: "clearNonRegular (R @ [d, x]) D = (None, D)"
    using assms(2,3) by (auto simp: clearNonRegular_def os_Lstat_def IsNotExist_def)
  obtain D' where wr: "write_file (\<lambda>_. None) w perm data (R @ [d, x]) D = (None, D')"
    and D': "map_of D' = (map_of D)(T @ [x] \<mapsto> Regular perm data)" for w
    using assms(2,3) by (auto simp: write_file_def open_trunc_nofollow_def update_conv' Let_def fun_upd_idem_iff)
  have "copyInto (\<lambda>_. None) w (Some (LFile perm data)) (R @ [d, x]) D = (None, D')" for w
    using assms(1) cl wr by (simp add: copyInto_def butlast_append)
  then show ?thesis using D' by blast
qed

text \<open>The plan for one delivered path that the host changed and the guest no longer shows.\<close>

lemma one_update_plan:
  assumes "\<not> skipPath rel" "e0 \<noteq> e1" "map_of g rel = None"
  shows "pn_Update (Compute [(rel, e0)] [(rel, e1)] g) = [rel]" "pn_Delete (Compute [(rel, e0)] [(rel, e1)] g) = []"
    "pn_Conflicts (Compute [(rel, e0)] [(rel, e1)] g) = []"
proof -
  let ?P = "Compute [(rel, e0)] [(rel, e1)] g"
  have v: "path_verdict [(rel, e0)] [(rel, e1)] g p = (if p = rel then Write else Keep)" for p
    using assms by (cases "map_of g p") (auto simp: path_verdict_def)
  then have "{p. path_verdict [(rel, e0)] [(rel, e1)] g p = Write} = {rel}" "{p. path_verdict [(rel, e0)] [(rel, e1)] g p = Erase} = {}" by auto
  then show "pn_Update ?P = [rel]" "pn_Delete ?P = []" using Compute_order[of "[(rel, e0)]" "[(rel, e1)]" g] by simp_all
  have "c \<notin> set (pn_Conflicts ?P)" for c
    using Compute_Conflicts[of "[(rel, e0)]" "[(rel, e1)]" c g] v[of "cf_Path c"] by (auto split: if_splits)
  then show "pn_Conflicts ?P = []" by (cases "pn_Conflicts ?P") auto
qed

text \<open>
  C37. The host writes where the guest points it. \<open>safeJoin\<close> compares names and \<open>O_NOFOLLOW\<close>
  guards the last element only: when the guest replaces a delivered directory by a link to any
  directory of the host, the next change of a file in it makes the daemon write that file's new
  content into the directory the link names, over a file already there. The read-back then
  reports that the guest does not have the file, after the write.
\<close>

theorem planted_link_redirects_write:
  assumes root: "names_ok R" "all_dirs (ss_disk st) [] R" "rq_GuestTree req = abs_path R" "\<not> rq_Force req" "\<not> rq_DryRun req"
    and link: "names_ok [d, x]" "map_of (ss_disk st) (R @ [d]) = Some (Symlink (abs_path T))"
    and target: "names_ok T" "T \<noteq> []" "all_dirs (ss_disk st) [] T"
      "map_of (ss_disk st) (T @ [x]) = None \<or> (\<exists>p0 old. map_of (ss_disk st) (T @ [x]) = Some (Regular p0 old))"
    and disk: "keys_ok (ss_disk st)" "map_of (ss_disk st) (R @ [d, x]) = None"
    and host: "rel = join_with CHR ''/'' [d, x]" "\<not> skipPath rel" "se_build E = Inr [(rel, LFile perm data)]"
      "ss_saved st = Some [(rel, e0)]" "e0 \<noteq> entryFor L (LFile perm data)"
    and calls: "se_clear E = None" "se_views E = None" "se_fault E = (\<lambda>_ _. None)" "se_readback E = None"
  shows "\<exists>D'. Sync L E req st = (Inl (UndeliveredError [Absent rel]), st\<lparr>ss_disk := D'\<rparr>)
    \<and> map_of D' (T @ [x]) = Some (Regular perm data)"
proof -
  let ?D = "ss_disk st" and ?staged = "[(rel, LFile perm data)]"
  let ?h = "BuildManifest L ?staged" and ?g = "guest_manifest L (abs_path R) ?D"
  let ?plan = "sync_plan_of L ?staged (abs_path R) st"
  have split: "split_on CHR ''/'' rel = [d, x]" using split_rel_name[OF link(1)] host(1) by simp
  have pl: "place R rel = R @ [d, x]" by (simp add: place_def split)
  have ok: "rel_ok rel" using link(1) by (simp add: rel_ok_def split)
  have h: "?h = [(rel, entryFor L (LFile perm data))]" using host(2) by (simp add: BuildManifest_def)
  have load: "LoadManifest st = [(rel, e0)]" using host(4) by (simp add: LoadManifest_def)
  have g: "map_of ?g rel = None" using disk by (simp add: guest_manifest_lookup[OF root(1) disk(1)] leaf_at_def pl)
  have plan: "pn_Update ?plan = [rel]" "pn_Delete ?plan = []" "pn_Conflicts ?plan = []"
    using one_update_plan[OF host(2,5) g] load h by (simp_all add: sync_plan_of_def)
  obtain D' where cp: "\<forall>w. copyInto (\<lambda>_. None) w (Some (LFile perm data)) (R @ [d, x]) ?D = (None, D')"
    and D': "map_of D' = (map_of ?D)(T @ [x] \<mapsto> Regular perm data)"
    using planted_copy[OF planted_dir[OF root(1,2) link target(1-3)] target(4)] by blast
  have ap: "Apply E ?staged (abs_path R) ?plan ?D = (None, D')"
    using cp plan calls(3) pl safeJoin_place[OF root(1) ok] path_comps_place[OF root(1) ok]
    by (simp add: Apply_def plan_Blocked_def)
  have "T @ [x] \<noteq> R @ [d, x]"
  proof
    assume "T @ [x] = R @ [d, x]"
    then have "T = R @ [d]" by simp
    then show False using target(2,3) link(2) by (simp add: all_dirs_def)
  qed
  moreover have "keys_ok D'" using disk(1) target(1) link(1) by (auto simp: keys_ok_def D')
  ultimately have "map_of (guest_manifest L (abs_path R) D') rel = None"
    using disk(2) by (simp add: guest_manifest_lookup[OF root(1)] leaf_at_def pl D')
  then have "VerifyDelivery ?plan ?h (guest_manifest L (abs_path R) D') = [Absent rel]"
    using plan h by (simp add: VerifyDelivery_def update_missing_def)
  then have "Sync L E req st = (Inl (UndeliveredError [Absent rel]), st\<lparr>ss_disk := D'\<rparr>)"
    using root(3-5) host(3) calls ap plan by (simp add: Sync_def sync_apply_def sync_plan_of_def[symmetric] plan_Empty_def plan_Blocked_def Let_def)
  then show ?thesis using D' by (intro exI[of _ D']) simp
qed


section \<open>The failures on concrete disks\<close>

definition broken_save :: sync_env where
  "broken_save = demo_sync_env\<lparr>se_save := Some (Errorf ''no space left on device'')\<rparr>"

theorem interrupted_sync_refuses_retry_witness:
  "\<exists>st1 cs. Sync demo_sync_lib broken_save demo_sync_req demo_sync_st = (Inl (SyncError (Errorf ''no space left on device'')), st1)
    \<and> Sync demo_sync_lib demo_sync_env demo_sync_req st1 = (Inl (ConflictError cs), st1) \<and> {''a''} \<subseteq> cf_Path ` set cs"
proof -
  obtain r D1 where ap: "Apply broken_save demo_staged (abs_path [''g'']) demo_sync_plan (ss_disk demo_sync_st) = (r, D1)" by fastforce
  have ok: "fst (Apply broken_save demo_staged (abs_path [''g'']) demo_sync_plan (ss_disk demo_sync_st)) = None
    \<and> VerifyDelivery demo_sync_plan (BuildManifest demo_sync_lib demo_staged)
        (guest_manifest demo_sync_lib (abs_path [''g'']) (snd (Apply broken_save demo_staged (abs_path [''g'']) demo_sync_plan (ss_disk demo_sync_st)))) = []"
    by code_simp
  have "\<exists>st1 cs. Sync demo_sync_lib broken_save demo_sync_req demo_sync_st = (Inl (SyncError (Errorf ''no space left on device'')), st1)
    \<and> Sync demo_sync_lib demo_sync_env demo_sync_req st1 = (Inl (ConflictError cs), st1)
    \<and> set (pn_Update demo_sync_plan) \<subseteq> cf_Path ` set cs"
    by (rule interrupted_sync_refuses_retry[where Dn = D1 and staged = demo_staged])
      (use ap ok in \<open>simp_all add: demo_sync_facts demo_sync_planned broken_save_def demo_sync_plan_def\<close>)
  then show ?thesis by (simp add: demo_sync_plan_def)
qed

definition dir_staged :: "(string \<times> leaf) list" where "dir_staged = [(''d/x'', LFile 420 [2])]"

definition dir_env :: sync_env where "dir_env = demo_sync_env\<lparr>se_build := Inr dir_staged\<rparr>"

definition file_st :: sync_state where
  "file_st = \<lparr>ss_disk = [([''g''], Directory), ([''g'', ''d''], Regular 420 [1])],
     ss_saved = Some [(''d'', entryFor demo_sync_lib (LFile 420 [1]))]\<rparr>"

lemma dir_plan: "sync_plan_of demo_sync_lib dir_staged (abs_path [''g'']) file_st =
    \<lparr>pn_Update = [''d/x''], pn_Delete = [''d''], pn_Conflicts = [], pn_forced = False\<rparr>"
  by code_simp

theorem kind_change_never_syncs_witness:
  "\<exists>e st'. Sync demo_sync_lib dir_env demo_sync_req file_st = (Inl e, st') \<and> ss_saved st' = ss_saved file_st
    \<and> leaf_at [''g''] ''d'' (ss_disk st') = leaf_at [''g''] ''d'' (ss_disk file_st)"
  by (rule kind_change_never_syncs[where staged = dir_staged and new = "''d/x''" and
        plan = "\<lparr>pn_Update = [''d/x''], pn_Delete = [''d''], pn_Conflicts = [], pn_forced = False\<rparr>"])
    (auto simp: demo_sync_facts dir_plan[unfolded file_st_def dir_staged_def] dir_env_def planned_def apart_def rel_ok_def plain_name_def place_def plain_comp_def
      file_st_def keys_ok_def LoadManifest_def dir_staged_def strict_prefix_def prefix_Cons split: if_splits)

definition linked_st :: sync_state where
  "linked_st = \<lparr>ss_disk = [([''g''], Directory), ([''g'', ''d''], Symlink ''/etc''), ([''etc''], Directory),
       ([''etc'', ''x''], Regular 384 [7])],
     ss_saved = Some [(''d/x'', entryFor demo_sync_lib (LFile 420 [1]))]\<rparr>"

theorem planted_link_redirects_write_witness:
  "\<exists>D'. Sync demo_sync_lib dir_env demo_sync_req linked_st = (Inl (UndeliveredError [Absent ''d/x'']), linked_st\<lparr>ss_disk := D'\<rparr>)
    \<and> map_of D' [''etc'', ''x''] = Some (Regular 420 [2])"
proof -
  have "\<exists>D'. Sync demo_sync_lib dir_env demo_sync_req linked_st = (Inl (UndeliveredError [Absent ''d/x'']), linked_st\<lparr>ss_disk := D'\<rparr>)
    \<and> map_of D' ([''etc''] @ [''x'']) = Some (Regular 420 [2])"
    by (rule planted_link_redirects_write[where R = "[''g'']" and d = "''d''"])
      (auto simp: demo_sync_facts dir_env_def dir_staged_def linked_st_def keys_ok_def plain_comp_def abs_path_def skipPath_def
        storeRoot_def storePrefix_def entryFor_def demo_sync_lib_def split: if_splits)
  then show ?thesis by simp
qed

end
