(* ===== verification/Sandbox_Sync.thy ===== *)
theory Sandbox_Sync
  imports Microvm Guest_Settle Worktree_Delivery Worktree_Faults
begin

text \<open>
  The sync of a running sandbox (\<open>internal/sandboxd/backend/microvm/sync.go\<close> and the wait of
  \<open>settle.go\<close>): the explicit verb, and the one that every command makes first. A delivery is not
  reported until the guest itself was asked what it reads; the probes are an argument, one answer
  per probe.
\<close>

section \<open>Waiting for the guest to read it\<close>

text \<open>One probe: its answer, and whether the caller gave up in the pause after it.\<close>

type_synonym probe = "settle_view result \<times> bool"

definition ErrGuestViewNotSettled :: err where
  "ErrGuestViewNotSettled = Errorf ''the guest's view of the worktree did not settle''"

function settle_loop :: "(nat \<Rightarrow> probe) \<Rightarrow> nat \<Rightarrow> nat \<Rightarrow> string result" where
  "settle_loop ask probes attempt =
     (case ask attempt of
        (Inl e, _) \<Rightarrow> Inl (Wrap ''asking the guest what it reads'' e)
      | (Inr view, cancelled) \<Rightarrow>
          if sw_unverifiable view \<noteq> [] then
            Inr (''delivered on the host, but not verified from inside the guest: '' @ sw_unverifiable view)
          else if sw_stale view = [] then Inr []
          else if attempt \<ge> probes then Inl (Wrap ''retry the sync'' ErrGuestViewNotSettled)
          else if cancelled then Inl (Sentinel ContextCanceled)
          else settle_loop ask probes (Suc attempt))"
  by pat_completeness auto
termination by (relation "measure (\<lambda>(ask, probes, attempt). probes - attempt)") auto

declare settle_loop.simps [simp del]

definition settleGuest :: "(nat \<Rightarrow> probe) \<Rightarrow> int \<Rightarrow> int \<Rightarrow> SyncResult \<Rightarrow> string result" where
  "settleGuest ask settleBudget settlePoll res =
     (if rs_DryRun res \<or> rs_Skipped res \<or> length (rs_Updated res) + length (rs_Deleted res) = 0 then Inr []
      else settle_loop ask (nat (settleBudget div settlePoll) + 1) 1)"

section \<open>The report\<close>

definition reason_text :: "Reason \<Rightarrow> string" where
  "reason_text r = (case r of
     ReasonModifiedInGuest \<Rightarrow> ''modified in the guest since it was delivered''
   | ReasonCreatedInGuest \<Rightarrow> ''created in the guest; the host now has a file of the same name'')"

definition toConflicts :: "Conflict list \<Rightarrow> WorktreeSyncConflict list" where
  "toConflicts cs = map (\<lambda>c. \<lparr>wc_Path = cf_Path c, wc_Reason = reason_text (cf_Reason c)\<rparr>) cs"

definition empty_report :: WorktreeSyncReport where
  "empty_report = \<lparr>sr_Updated = [], sr_Deleted = [], sr_Overridden = [], sr_Conflicts = [], sr_Skipped = False,
     sr_DryRun = False, sr_Refused = False, sr_Detail = [], sr_Truncated = False, sr_UpdatedTotal = 0, sr_DeletedTotal = 0,
     sr_OverriddenTotal = 0, sr_ConflictsTotal = 0\<rparr>"

definition toReport :: "SyncResult \<Rightarrow> WorktreeSyncReport" where
  "toReport res = empty_report\<lparr>sr_Updated := sort (rs_Updated res), sr_Deleted := sort (rs_Deleted res),
     sr_Overridden := sort (rs_Overridden res), sr_Conflicts := toConflicts (rs_Conflicts res), sr_Skipped := rs_Skipped res,
     sr_DryRun := rs_DryRun res, sr_Refused := rs_Blocked res\<rparr>"

definition refusalReport :: "sync_error \<Rightarrow> WorktreeSyncReport option" where
  "refusalReport e = (case e of
     ConflictError cs \<Rightarrow> Some (empty_report\<lparr>sr_Refused := True, sr_Conflicts := toConflicts cs\<rparr>)
   | _ \<Rightarrow> None)"

text \<open>The error values: a conflict is \<open>ErrWorktreeSyncConflict\<close>.\<close>

definition sync_err :: "sync_error \<Rightarrow> err" where
  "sync_err e = (case e of
     ConflictError _ \<Rightarrow> Sentinel ErrWorktreeSyncConflict
   | UndeliveredError _ \<Rightarrow> Errorf ''worktree sync: the guest's tree does not contain what was just synced into it''
   | SyncError x \<Rightarrow> x)"

section \<open>The sync of one sandbox\<close>

text \<open>The directory a virtiofs backend shares with the guest, empty when there is none.\<close>

definition stagedTreePath :: "disk \<Rightarrow> string \<Rightarrow> string" where
  "stagedTreePath D stateDir =
     (let p = filepath_join [stateDir, ''worktree-staging''] in
      case real_dir D (path_comps p) of Inr _ \<Rightarrow> p | Inl _ \<Rightarrow> [])"

text \<open>
  How the guest is asked: the settler of each attempt (\<open>None\<close> for a manager with no exec channel,
  \<open>defaultSettler\<close>), whether the caller gave up in the pause after it, and the bounds.
\<close>

record settle_env =
  st_settler :: "(nat \<Rightarrow> settler) option"
  st_cancelled :: "nat \<Rightarrow> bool"
  st_budget :: int
  st_poll :: int

definition settle_request :: "sandbox \<Rightarrow> SyncResult \<Rightarrow> settleRequest" where
  "settle_request sb res = \<lparr>sq_sandboxID = si_ID (sn_info sb), sq_taskID = si_TaskID (sn_info sb), sq_network = si_NetworkMode (sn_info sb),
     sq_worktree = si_WorktreePath (sn_info sb), sq_want = rs_Entries res, sq_deleted = rs_Deleted res\<rparr>"

definition settler_Probe :: "settle_env \<Rightarrow> settleRequest \<Rightarrow> nat \<Rightarrow> probe" where
  "settler_Probe S req n =
     (case st_settler S of None \<Rightarrow> noExec_Probe | Some f \<Rightarrow> fst (Probe (f n) req), st_cancelled S n)"

definition syncLocked :: "sync_lib \<Rightarrow> sync_env \<Rightarrow> settle_env \<Rightarrow> sandbox \<Rightarrow> bool \<Rightarrow> bool \<Rightarrow> sync_state
    \<Rightarrow> WorktreeSyncReport option \<times> err option \<times> sync_state" where
  "syncLocked L E S sb force dryRun st =
     (let staged = stagedTreePath (ss_disk st) (sn_dir sb) in
      if staged = [] then
        (None, Some (Wrap ''the backend delivers the worktree as a launch-time image'' (Sentinel ErrSandboxSyncUnsupported)), st)
      else if si_WorktreePath (sn_info sb) = [] \<or> sn_privateStore sb = [] then
        (Some (empty_report\<lparr>sr_Skipped := True, sr_DryRun := dryRun,
           sr_Detail := ''this sandbox was launched without a worktree, so there is nothing to propagate''\<rparr>), None, st)
      else (case Sync L E \<lparr>rq_GuestTree = staged, rq_Force = force, rq_DryRun = dryRun\<rparr> st of
        (Inl e, st1) \<Rightarrow> (refusalReport e, Some (sync_err e), st1)
      | (Inr res, st1) \<Rightarrow>
          (case settleGuest (settler_Probe S (settle_request sb res)) (st_budget S) (st_poll S) res of
             Inl e \<Rightarrow> (None, Some e, st1)
           | Inr msg \<Rightarrow> (Some ((toReport res)\<lparr>sr_Detail := msg\<rparr>), None, st1))))"

definition SyncWorktree :: "sync_lib \<Rightarrow> sync_env \<Rightarrow> settle_env \<Rightarrow> string \<Rightarrow> bool \<Rightarrow> bool \<Rightarrow> Manager \<Rightarrow> sync_state
    \<Rightarrow> WorktreeSyncReport option \<times> err option \<times> sync_state" where
  "SyncWorktree L E S i force dryRun m st =
     (case map_of (mv_sandboxes m) i of
        None \<Rightarrow> (None, Some (Wrap i (Sentinel ErrSandboxNotFound)), st)
      | Some sb \<Rightarrow>
          if si_State (sn_info sb) \<noteq> StateRunning then (None, Some (Wrap i (Sentinel ErrSandboxNotRunning)), st)
          else syncLocked L E S sb force dryRun st)"

definition syncBeforeExec :: "sync_lib \<Rightarrow> sync_env \<Rightarrow> settle_env \<Rightarrow> sandbox \<Rightarrow> sync_state \<Rightarrow> err option \<times> sync_state" where
  "syncBeforeExec L E S sb st =
     (if stagedTreePath (ss_disk st) (sn_dir sb) = [] then (None, st)
      else (case syncLocked L E S sb False False st of
        (_, None, st1) \<Rightarrow> (None, st1)
      | (_, Some e, st1) \<Rightarrow>
          if errors_is e ErrSandboxSyncUnsupported then (None, st1)
          else if errors_is e ErrWorktreeSyncConflict then (Some (Wrap ''exec refused: the host worktree changed'' e), st1)
          else (Some (Wrap ''exec refused: could not sync the host worktree'' e), st1)))"

text \<open>The doctor's question: one probe about everything that was last delivered.\<close>

record GuestViewReport =
  gv_Checked :: nat
  gv_Stale :: "string list"
  gv_Unverifiable :: string

definition VerifyGuestView :: "settle_env \<Rightarrow> string \<Rightarrow> Manager \<Rightarrow> sync_state \<Rightarrow> GuestViewReport result" where
  "VerifyGuestView S i m st =
     (let cannot = (\<lambda>why. Inr \<lparr>gv_Checked = 0, gv_Stale = [], gv_Unverifiable = why\<rparr>) in
      case map_of (mv_sandboxes m) i of
        None \<Rightarrow> Inl (Wrap i (Sentinel ErrSandboxNotFound))
      | Some sb \<Rightarrow>
          if si_State (sn_info sb) \<noteq> StateRunning then cannot ''the sandbox is not running''
          else if stagedTreePath (ss_disk st) (sn_dir sb) = [] then cannot ''this backend delivers the worktree as a launch-time image''
          else (let delivered = LoadManifest st in
            if delivered = [] then cannot ''nothing has been delivered to this sandbox yet''
            else (case fst (settler_Probe S ((settle_request sb (classify \<lparr>pn_Update = [], pn_Delete = [], pn_Conflicts = [], pn_forced = False\<rparr> False))
                              \<lparr>sq_want := delivered\<rparr>) 1) of
                Inl e \<Rightarrow> Inl (Wrap ''asking the guest what it reads'' e)
              | Inr view \<Rightarrow> Inr \<lparr>gv_Checked = length delivered, gv_Stale = sw_stale view, gv_Unverifiable = sw_unverifiable view\<rparr>)))"

section \<open>What a command may count on\<close>

lemma settle_loop_settled:
  "settle_loop ask probes k = Inr msg \<Longrightarrow> k \<le> probes \<Longrightarrow>
   \<exists>n view c. k \<le> n \<and> n \<le> probes \<and> ask n = (Inr view, c) \<and> (sw_unverifiable view \<noteq> [] \<or> sw_stale view = [])"
proof (induction ask probes k rule: settle_loop.induct)
  case (1 ask probes k)
  obtain r c where a: "ask k = (r, c)" by fastforce
  from 1(2) obtain view where v: "r = Inr view" by (subst (asm) settle_loop.simps) (auto simp: a split: sum.splits)
  show ?case
  proof (cases "sw_unverifiable view \<noteq> [] \<or> sw_stale view = []")
    case True
    then show ?thesis using a v 1(3) by blast
  next
    case False
    then have "k < probes" "\<not> c" "settle_loop ask probes (Suc k) = Inr msg"
      using 1(2) by (subst (asm) settle_loop.simps; simp add: a v split: if_splits)+
    then show ?thesis using 1(1)[OF a[symmetric] v] False by fastforce
  qed
qed

lemma settleGuest_settled:
  assumes "settleGuest ask budget poll res = Inr msg" "\<not> rs_DryRun res" "\<not> rs_Skipped res" "result_Changed res"
  shows "\<exists>n view c. 1 \<le> n \<and> n \<le> nat (budget div poll) + 1 \<and> ask n = (Inr view, c)
    \<and> (sw_unverifiable view \<noteq> [] \<or> sw_stale view = [])"
  using assms settle_loop_settled[of ask "nat (budget div poll) + 1" 1 msg]
  by (auto simp: settleGuest_def result_Changed_def)

lemma syncBeforeExec_passes:
  assumes "syncBeforeExec L E S sb st = (None, st')" "stagedTreePath (ss_disk st) (sn_dir sb) \<noteq> []"
    "si_WorktreePath (sn_info sb) \<noteq> []" "sn_privateStore sb \<noteq> []"
    "\<forall>e. fst (snd (syncLocked L E S sb False False st)) = Some e \<longrightarrow> \<not> errors_is e ErrSandboxSyncUnsupported"
  shows "\<exists>res msg. Sync L E \<lparr>rq_GuestTree = stagedTreePath (ss_disk st) (sn_dir sb), rq_Force = False, rq_DryRun = False\<rparr> st = (Inr res, st')
    \<and> settleGuest (settler_Probe S (settle_request sb res)) (st_budget S) (st_poll S) res = Inr msg"
proof -
  obtain rep e st1 where run: "syncLocked L E S sb False False st = (rep, e, st1)" by (metis prod_cases3)
  then have "e = None" "st1 = st'" using assms(1,2,5) by (auto simp: syncBeforeExec_def split: option.splits if_splits)
  then show ?thesis using run assms(2-4)
    by (auto simp: syncLocked_def Let_def split: sum.splits prod.splits if_splits)
qed

lemma Sync_result:
  assumes "Sync L E req st = (Inr res, st')" "\<not> rq_Force req" "\<not> rq_DryRun req" "se_build E = Inr staged"
    "plan = sync_plan_of L staged (rq_GuestTree req) st" "\<not> plan_Empty plan"
  shows "\<not> plan_Blocked plan" "res = (classify plan False)\<lparr>rs_Entries := deliveredEntries (BuildManifest L staged) (pn_Update plan)\<rparr>"
  using assms by (auto simp: Sync_def sync_apply_def sync_plan_of_def Let_def split: option.splits prod.splits if_splits)

lemma deliveredEntries_lookup:
  "map_of (deliveredEntries host ps) p = (if p \<in> set ps then map_of host p else None)"
  by (induction ps) (auto simp: deliveredEntries_def map_add_def split: option.splits)

lemma sync_plan_unforced:
  "distinct (map fst (LoadManifest st)) \<Longrightarrow> distinct (map fst staged) \<Longrightarrow> \<not> pn_forced (sync_plan_of L staged root st)"
  using Compute_sorted[OF _ BuildManifest_distinct] by (simp add: sync_plan_of_def)

lemma file_is_regular: "perm < 512 \<Longrightarrow> and perm ModeSymlink = 0"
proof -
  assume "perm < (512 :: 32 word)"
  then have "unat perm < 512" by (simp add: word_less_nat_alt)
  then have "\<not> bit (unat perm) 27" by (simp add: bit_iff_odd)
  then have "\<not> bit perm 27" by (simp add: bit_unsigned_iff)
  then show ?thesis using and_exp_eq_0_iff_not_bit[of perm 27] by (simp add: ModeSymlink_def)
qed

text \<open>
  C16. A command runs against the host's files: when the sync before a command lets it through,
  the plan had no conflict, and within the bounded number of probes the guest itself read, for
  every file the sync wrote, bytes with the digest of the host's file, and saw none of the deleted
  paths. The guest's tools answer truthfully, the planned names are plain, and no failing call
  carries the sentinel of an unsupported sync.
\<close>

theorem command_sees_the_hosts_files:
  assumes pass: "syncBeforeExec L E S sb st = (None, st')"
    and sandbox: "stagedTreePath (ss_disk st) (sn_dir sb) = root" "root \<noteq> []" "si_WorktreePath (sn_info sb) = abs_path W" "names_ok W"
      "newline \<notin> set (abs_path W)" "sn_privateStore sb \<noteq> []"
    and sys: "\<forall>e. fst (snd (syncLocked L E S sb False False st)) = Some e \<longrightarrow> \<not> errors_is e ErrSandboxSyncUnsupported"
    and host: "se_build E = Inr staged" "distinct (map fst staged)" "\<forall>p perm data. map_of staged p = Some (LFile perm data) \<longrightarrow> perm < 512"
    and plan: "plan = sync_plan_of L staged root st" "distinct (map fst (LoadManifest st))" "\<forall>p \<in> set (planned plan). plain_path p"
    and guest: "st_settler S = Some f" "\<forall>n. answers (f n) (sy_sha256 L) (rd n) (ex n) \<and> gx_audit (f n) \<in> {None, Some None}"
      "digest_ok (sy_sha256 L)"
  shows "pn_Conflicts plan = [] \<and> (\<exists>n \<le> nat (st_budget S div st_poll S) + 1.
      (\<forall>p \<in> set (pn_Update plan). \<forall>perm data. map_of staged p = Some (LFile perm data) \<longrightarrow>
         (\<exists>d. rd n (guest_path W p) = Some d \<and> sy_sha256 L d = sy_sha256 L data))
      \<and> (\<forall>p \<in> set (pn_Delete plan). \<not> ex n (guest_path W p)))"
proof (cases "plan_Empty plan")
  case True
  then show ?thesis by (auto simp: plan_Empty_def)
next
  case False
  let ?req = "\<lparr>rq_GuestTree = root, rq_Force = False, rq_DryRun = False\<rparr>"
  obtain res msg where sync: "Sync L E ?req st = (Inr res, st')"
    and settled: "settleGuest (settler_Probe S (settle_request sb res)) (st_budget S) (st_poll S) res = Inr msg"
    using syncBeforeExec_passes[OF pass _ _ sandbox(6) sys] sandbox(1-3) by (auto simp: abs_path_def)
  have nb: "\<not> plan_Blocked plan"
    and res: "res = (classify plan False)\<lparr>rs_Entries := deliveredEntries (BuildManifest L staged) (pn_Update plan)\<rparr>"
    using Sync_result[OF sync _ _ host(1) _ False] plan(1) by simp_all
  have nc: "pn_Conflicts plan = []" using nb sync_plan_unforced[OF plan(2) host(2)] plan(1) by (simp add: plan_Blocked_def)
  have ch: "\<not> rs_DryRun res" "\<not> rs_Skipped res" "result_Changed res"
    using False nc by (auto simp: res classify_def result_Changed_def plan_Empty_def)
  obtain n view c where n: "n \<le> nat (st_budget S div st_poll S) + 1" "settler_Probe S (settle_request sb res) n = (Inr view, c)"
    "sw_unverifiable view \<noteq> [] \<or> sw_stale view = []"
    using settleGuest_settled[OF settled ch] by blast
  let ?q = "settle_request sb res"
  have want: "sq_want ?q = deliveredEntries (BuildManifest L staged) (pn_Update plan)" "sq_deleted ?q = pn_Delete plan"
    "sq_worktree ?q = abs_path W" using sandbox(3) by (simp_all add: settle_request_def res classify_def)
  have sub: "set (regularPaths (sq_want ?q)) \<subseteq> set (pn_Update plan)"
    by (auto simp: regularPaths_def want deliveredEntries_def split: option.splits)
  have view: "Inr view = fst (Probe (f n) ?q)" using n(2) guest(1) by (simp add: settler_Probe_def)
  have "fst (Probe (f n) ?q) = Inr (guest_view (sy_sha256 L) (rd n) (ex n) W ?q)"
    by (rule Probe_answer) (use guest sandbox(4,5) want(3) plan(3) sub in \<open>auto simp: planned_def want(2)\<close>)
  then have gv: "view = guest_view (sy_sha256 L) (rd n) (ex n) W ?q" using view by simp
  then have stale: "sw_stale (guest_view (sy_sha256 L) (rd n) (ex n) W ?q) = []" using n(3) guest_view_settled(2) by blast
  have "\<exists>d. rd n (guest_path W p) = Some d \<and> sy_sha256 L d = sy_sha256 L data"
    if p: "p \<in> set (pn_Update plan)" and x: "map_of staged p = Some (LFile perm data)" for p perm data
  proof -
    have "path_verdict (LoadManifest st) (BuildManifest L staged) (guest_manifest L root (ss_disk st)) p = Write"
      using p Compute_Update[OF BuildManifest_distinct[OF host(2)]] plan(1) by (simp add: sync_plan_of_def)
    then have "\<not> skipPath p" by (auto simp: path_verdict_def split: if_splits)
    then have e: "map_of (sq_want ?q) p = Some (entryFor L (LFile perm data))"
      using p x by (simp add: want deliveredEntries_lookup BuildManifest_lookup)
    then have "p \<in> set (regularPaths (sq_want ?q))"
      using map_of_SomeD[OF e] file_is_regular host(3) x by (force simp: regularPaths_def entryFor_def)
    then show ?thesis using stale e unfolding guest_view_settled(1) by (force simp: entryFor_def)
  qed
  then show ?thesis using n(1) nc stale unfolding guest_view_settled(1) want(2) by blast
qed

section \<open>A delivery the guest did not read\<close>

lemma Sync_again_skips:
  assumes "ss_saved st = Some (BuildManifest L staged)" "distinct (map fst staged)"
    and "se_clear E = None" "se_build E = Inr staged" "se_views E = None"
  shows "\<exists>res. Sync L E req st = (Inr res, st) \<and> rs_Skipped res"
proof -
  let ?h = "BuildManifest L staged"
  have hd: "distinct (map fst ?h)" using assms(2) by (rule BuildManifest_distinct)
  have keep: "path_verdict ?h ?h g p = Keep" for g p
    by (cases "map_of ?h p"; cases "map_of g p") (auto simp: path_verdict_def)
  have "pn_Conflicts (Compute ?h ?h g) = []" for g
    using Compute_Conflicts[OF hd hd, of _ g] keep by (simp add: set_empty[symmetric] set_eq_iff del: set_empty)
  then have "plan_Empty (Compute ?h ?h g)" for g using Compute_order[OF hd hd] keep by (simp add: plan_Empty_def)
  then show ?thesis using assms by (simp add: Sync_def LoadManifest_def Let_def)
qed

lemma Sync_changed_saves:
  assumes "Sync L E req st = (Inr res, st')" "\<not> rq_Force req" "\<not> rq_DryRun req" "se_build E = Inr staged" "\<not> rs_Skipped res"
  shows "ss_saved st' = Some (BuildManifest L staged) \<and> se_clear E = None \<and> se_views E = None"
  using assms by (auto simp: Sync_def sync_apply_def Let_def split: option.splits prod.splits if_splits)

text \<open>
  The refusal of an unsettled delivery does not survive a retry. When the guest has not read
  what was delivered within the bound, the sync before the command fails and tells the caller to
  retry the sync; but the baseline has moved by then, so the retry finds nothing to do, asks the
  guest nothing, whatever it would answer, and the command runs.
\<close>

theorem unsettled_retry_passes:
  assumes "stagedTreePath (ss_disk st) (sn_dir sb) = root" "root \<noteq> []" "si_WorktreePath (sn_info sb) \<noteq> []" "sn_privateStore sb \<noteq> []"
    and "se_build E = Inr staged" "distinct (map fst staged)"
    and sync: "Sync L E \<lparr>rq_GuestTree = root, rq_Force = False, rq_DryRun = False\<rparr> st = (Inr res, st1)"
    and unsettled: "settleGuest (settler_Probe S (settle_request sb res)) (st_budget S) (st_poll S) res = Inl (Wrap ''retry the sync'' ErrGuestViewNotSettled)"
  shows "(\<exists>e. syncBeforeExec L E S sb st = (Some e, st1)) \<and> (\<forall>S'. syncBeforeExec L E S' sb st1 = (None, st1))"
proof
  show "\<exists>e. syncBeforeExec L E S sb st = (Some e, st1)"
    using assms by (simp add: syncBeforeExec_def syncLocked_def ErrGuestViewNotSettled_def)
  have ns: "\<not> rs_Skipped res" using unsettled by (auto simp: settleGuest_def split: if_splits)
  have saved: "ss_saved st1 = Some (BuildManifest L staged)" "se_clear E = None" "se_views E = None"
    using Sync_changed_saves[OF sync _ _ assms(5) ns] by simp_all
  show "\<forall>S'. syncBeforeExec L E S' sb st1 = (None, st1)"
  proof
    fix S'
    show "syncBeforeExec L E S' sb st1 = (None, st1)"
    proof (cases "stagedTreePath (ss_disk st1) (sn_dir sb) = []")
      case False
      obtain res' where "Sync L E \<lparr>rq_GuestTree = stagedTreePath (ss_disk st1) (sn_dir sb), rq_Force = False, rq_DryRun = False\<rparr> st1 = (Inr res', st1)"
        "rs_Skipped res'" using Sync_again_skips[OF saved(1) assms(6) saved(2) assms(5) saved(3)] by blast
      then show ?thesis using False assms(3,4) by (simp add: syncBeforeExec_def syncLocked_def settleGuest_def)
    qed (simp add: syncBeforeExec_def)
  qed
qed

section \<open>A sandbox whose guest lags\<close>

definition lag_lib :: sync_lib where
  "lag_lib = \<lparr>sy_sha256 = (\<lambda>d. replicate 64 (if d = [2] then CHR ''b'' else CHR ''a'')), sy_link_mode = 0x80001FF\<rparr>"

definition lag_sandbox :: sandbox where
  "lag_sandbox = demo_sandbox\<lparr>sn_info := (sn_info demo_sandbox)\<lparr>si_WorktreePath := ''/w''\<rparr>, sn_dir := ''/s'', sn_privateStore := ''/p''\<rparr>"

definition lag_st :: sync_state where
  "lag_st = \<lparr>ss_disk = [([''s''], Directory), ([''s'', ''worktree-staging''], Directory), ([''s'', ''worktree-staging'', ''a''], Regular 420 [1])],
     ss_saved = Some [(''a'', entryFor lag_lib (LFile 420 [1]))]\<rparr>"

definition lag_settler :: "byte list \<Rightarrow> settler" where
  "lag_settler d = \<lparr>gx_exec = (\<lambda>n q. Inr (guest_answer (sy_sha256 lag_lib) (\<lambda>p. Some d) (\<lambda>p. False) q)), gx_audit = None,
     gx_identity = None, gx_text = (\<lambda>e. []), gx_order = (\<lambda>xs. xs)\<rparr>"

definition lag_guest :: "byte list \<Rightarrow> settle_env" where
  "lag_guest d = \<lparr>st_settler = Some (\<lambda>n. lag_settler d), st_cancelled = (\<lambda>n. False), st_budget = 1, st_poll = 1\<rparr>"

lemma lag_root: "stagedTreePath (ss_disk lag_st) (sn_dir lag_sandbox) = ''/s/worktree-staging''"
  by code_simp

lemma lag_plan: "sync_plan_of lag_lib demo_staged ''/s/worktree-staging'' lag_st =
    \<lparr>pn_Update = [''a''], pn_Delete = [], pn_Conflicts = [], pn_forced = False\<rparr>"
  by code_simp

lemma lag_answers: "answers (lag_settler d) (sy_sha256 lag_lib) (\<lambda>p. Some d) (\<lambda>p. False)" "digest_ok (sy_sha256 lag_lib)"
  by (auto simp: answers_def lag_settler_def digest_ok_def lag_lib_def)

definition lag_res :: SyncResult where
  "lag_res = (classify \<lparr>pn_Update = [''a''], pn_Delete = [], pn_Conflicts = [], pn_forced = False\<rparr> False)
     \<lparr>rs_Entries := [(''a'', entryFor lag_lib (LFile 420 [2]))]\<rparr>"

lemma lag_sync: "fst (Sync lag_lib demo_sync_env \<lparr>rq_GuestTree = ''/s/worktree-staging'', rq_Force = False, rq_DryRun = False\<rparr> lag_st) = Inr lag_res"
  by code_simp

lemma lag_info: "si_WorktreePath (sn_info lag_sandbox) = abs_path [''w'']" "sn_privateStore lag_sandbox = ''/p''"
  by (simp_all add: lag_sandbox_def abs_path_def)

lemma lag_plain: "plain_path ''a''"
  by (simp add: plain_path_def rel_ok_def plain_comp_def graph_char_def)

lemma lag_probe:
  "fst (Probe (lag_settler d) (settle_request lag_sandbox lag_res)) =
    Inr \<lparr>sw_stale = (if d = [2] then [] else [''a (guest reads bytes that were not delivered)'']), sw_unverifiable = []\<rparr>"
proof -
  let ?q = "settle_request lag_sandbox lag_res"
  have q: "sq_want ?q = [(''a'', entryFor lag_lib (LFile 420 [2]))]" "sq_deleted ?q = []" "sq_worktree ?q = abs_path [''w'']"
    by (simp_all add: settle_request_def lag_res_def classify_def lag_info)
  have reg0: "regularPaths [(''a'', entryFor lag_lib (LFile 420 [2]))] = [''a'']"
    by (simp add: regularPaths_def entryFor_def ModeSymlink_def)
  then have reg: "regularPaths (sq_want ?q) = [''a'']" by (simp add: q)
  have "fst (Probe (lag_settler d) ?q) = Inr (guest_view (sy_sha256 lag_lib) (\<lambda>p. Some d) (\<lambda>p. False) [''w''] ?q)"
    by (rule Probe_answer[OF lag_answers])
      (simp_all add: reg0 q lag_plain, simp_all add: lag_settler_def plain_comp_def abs_path_def)
  moreover have "guest_view (sy_sha256 lag_lib) (\<lambda>p. Some d) (\<lambda>p. False) [''w''] ?q =
      \<lparr>sw_stale = (if d = [2] then [] else [''a (guest reads bytes that were not delivered)'']), sw_unverifiable = []\<rparr>"
    by (simp add: guest_view_def reg) (simp add: q entryFor_def lag_lib_def)
  ultimately show ?thesis by simp
qed

lemma lag_settle:
  "settleGuest (settler_Probe (lag_guest d) (settle_request lag_sandbox lag_res)) (st_budget (lag_guest d)) (st_poll (lag_guest d)) lag_res =
    (if d = [2] then Inr [] else Inl (Wrap ''retry the sync'' ErrGuestViewNotSettled))"
proof -
  have "\<not> rs_DryRun lag_res" "\<not> rs_Skipped lag_res" "rs_Updated lag_res = [''a'']" by (simp_all add: lag_res_def classify_def)
  then show ?thesis by (simp add: settleGuest_def settle_loop.simps settler_Probe_def lag_guest_def lag_probe)
qed

lemma lag_locked: "\<exists>rep st1. syncLocked lag_lib demo_sync_env (lag_guest [2]) lag_sandbox False False lag_st = (rep, None, st1)"
proof -
  obtain st1 where "Sync lag_lib demo_sync_env \<lparr>rq_GuestTree = ''/s/worktree-staging'', rq_Force = False, rq_DryRun = False\<rparr> lag_st = (Inr lag_res, st1)"
    using lag_sync by (metis prod.collapse)
  then show ?thesis using lag_settle[of "[2]"] by (simp add: syncLocked_def lag_root lag_info abs_path_def)
qed

theorem command_sees_the_hosts_files_witness:
  "\<exists>st'. syncBeforeExec lag_lib demo_sync_env (lag_guest [2]) lag_sandbox lag_st = (None, st')
    \<and> pn_Conflicts (sync_plan_of lag_lib demo_staged ''/s/worktree-staging'' lag_st) = []"
proof -
  obtain rep st1 where l: "syncLocked lag_lib demo_sync_env (lag_guest [2]) lag_sandbox False False lag_st = (rep, None, st1)"
    using lag_locked by blast
  then have pass: "syncBeforeExec lag_lib demo_sync_env (lag_guest [2]) lag_sandbox lag_st = (None, st1)"
    by (simp add: syncBeforeExec_def lag_root)
  have parts: "st_settler (lag_guest [2]) = Some (\<lambda>n. lag_settler [2])" "gx_audit (lag_settler [2]) = None"
    "names_ok [''w'']" "newline \<notin> set (abs_path [''w''])" "distinct (map fst (LoadManifest lag_st))"
    "\<forall>p perm data. map_of demo_staged p = Some (LFile perm data) \<longrightarrow> perm < 512"
    by (simp_all add: lag_guest_def lag_settler_def plain_comp_def abs_path_def lag_st_def LoadManifest_def demo_staged_def)
  have ans: "\<forall>n. answers (lag_settler [2]) (sy_sha256 lag_lib) (\<lambda>p. Some [2]) (\<lambda>p. False) \<and> gx_audit (lag_settler [2]) \<in> {None, Some None}"
    using lag_answers parts(2) by simp
  have pl: "\<forall>p \<in> set (planned (sync_plan_of lag_lib demo_staged ''/s/worktree-staging'' lag_st)). plain_path p"
    by (simp add: lag_plan planned_def lag_plain)
  have rest: "''/s/worktree-staging'' \<noteq> []" "sn_privateStore lag_sandbox \<noteq> []"
    "\<forall>e. fst (snd (syncLocked lag_lib demo_sync_env (lag_guest [2]) lag_sandbox False False lag_st)) = Some e \<longrightarrow> \<not> errors_is e ErrSandboxSyncUnsupported"
    by (simp_all add: lag_info l)
  have "pn_Conflicts (sync_plan_of lag_lib demo_staged ''/s/worktree-staging'' lag_st) = []"
    using command_sees_the_hosts_files[OF pass lag_root rest(1) lag_info(1) parts(3,4) rest(2,3) demo_sync_facts(5,12) parts(6) refl parts(5) pl parts(1) ans lag_answers(2)]
    by blast
  then show ?thesis using pass by blast
qed

theorem unsettled_retry_passes_witness:
  "\<exists>e st1. syncBeforeExec lag_lib demo_sync_env (lag_guest [1]) lag_sandbox lag_st = (Some e, st1)
    \<and> syncBeforeExec lag_lib demo_sync_env (lag_guest [1]) lag_sandbox st1 = (None, st1)"
proof -
  obtain st1 where s: "Sync lag_lib demo_sync_env \<lparr>rq_GuestTree = ''/s/worktree-staging'', rq_Force = False, rq_DryRun = False\<rparr> lag_st = (Inr lag_res, st1)"
    using lag_sync by (metis prod.collapse)
  show ?thesis
    using unsettled_retry_passes[OF lag_root _ _ _ _ _ s, of demo_staged "lag_guest [1]"] lag_settle[of "[1]"]
    by (auto simp: demo_sync_facts lag_info abs_path_def)
qed

end
