(* ===== verification/Git_Tree.thy ===== *)
theory Git_Tree
  imports Go_Strings "HOL-Library.AList" "HOL-Library.List_Lexorder" "HOL-Library.Char_ord" "HOL-Library.Countable"
begin

text \<open>
  The tree plumbing of the store (\<open>internal/store/git/plumbing.go\<close>): a flat map of paths to blobs
  written as one tree object per directory, and what such a tree means. A Go map is
  an association list with distinct keys, in the order its iteration happens to take. The object
  encoding and its hash belong to go-git and are arguments (\<open>tree_lib\<close>).
\<close>

section \<open>Entries\<close>

record blobEntry =
  be_hash :: string
  be_mode :: "32 word"

type_synonym file_map = "(string \<times> blobEntry) list"

abbreviation (input) mode_Dir :: "32 word" where "mode_Dir \<equiv> 0x4000"
abbreviation (input) mode_Regular :: "32 word" where "mode_Regular \<equiv> 0x81A4"
abbreviation (input) mode_Executable :: "32 word" where "mode_Executable \<equiv> 0x81ED"
abbreviation (input) mode_Symlink :: "32 word" where "mode_Symlink \<equiv> 0xA000"

record tree_item =
  ti_Name :: string
  ti_Mode :: "32 word"
  ti_Hash :: string

text \<open>Encoding and storing a tree object may fail; the hash is of the entries in their order.\<close>

record tree_lib =
  tl_hash :: "tree_item list \<Rightarrow> string"
  tl_encode :: "tree_item list \<Rightarrow> err option"
  tl_store :: "tree_item list \<Rightarrow> err option"

type_synonym tree_store = "(string \<times> tree_item list) list"

definition order_name :: "tree_item \<Rightarrow> string" where
  "order_name a = (if ti_Mode a = mode_Dir then ti_Name a @ ''/'' else ti_Name a)"

definition treeEntryLess :: "tree_item \<Rightarrow> tree_item \<Rightarrow> bool" where
  "treeEntryLess a b \<longleftrightarrow> order_name a < order_name b"

definition writeFlatTree :: "tree_lib \<Rightarrow> tree_item list \<Rightarrow> tree_store \<Rightarrow> string result \<times> tree_store" where
  "writeFlatTree lib entries st =
     (let s = sort_key order_name entries in
      case tl_encode lib s of
        Some e \<Rightarrow> (Inl (Wrap ''encode tree'' e), st)
      | None \<Rightarrow>
          (case tl_store lib s of
             Some e \<Rightarrow> (Inl (Wrap ''store tree'' e), st)
           | None \<Rightarrow> (Inr (tl_hash lib s), AList.update (tl_hash lib s) s st)))"

section \<open>A directory per level\<close>

definition add_child :: "string \<times> blobEntry \<Rightarrow> file_map \<times> (string \<times> file_map) list \<Rightarrow> file_map \<times> (string \<times> file_map) list" where
  "add_child x acc = (case x of (path, entry) \<Rightarrow> case acc of (fc, dc) \<Rightarrow>
     (case cut CHR ''/'' path of
        None \<Rightarrow> (AList.update path entry fc, dc)
      | Some (name, rest) \<Rightarrow>
          (fc, AList.update name (AList.update rest entry (case map_of dc name of None \<Rightarrow> [] | Some m \<Rightarrow> m)) dc)))"

definition levels :: "file_map \<Rightarrow> file_map \<times> (string \<times> file_map) list" where
  "levels files = fold add_child files ([], [])"

definition path_cost :: "file_map \<Rightarrow> nat" where
  "path_cost fs = sum_list (map (\<lambda>x. Suc (length (fst x))) fs)"

definition dirs_cost :: "(string \<times> file_map) list \<Rightarrow> nat" where
  "dirs_cost dc = sum_list (map (\<lambda>x. 2 * path_cost (snd x) + 2) dc)"

lemma path_cost_update: "path_cost (AList.update p e fs) \<le> path_cost fs + Suc (length p)"
  by (induction fs) (auto simp: path_cost_def)

lemma dirs_cost_update:
  "dirs_cost (AList.update name (AList.update rest e (case map_of dc name of None \<Rightarrow> [] | Some m \<Rightarrow> m)) dc)
     \<le> dirs_cost dc + 2 * length rest + 4"
proof (induction dc)
  case Nil
  then show ?case using path_cost_update[of rest e "[]"] by (simp add: dirs_cost_def path_cost_def)
next
  case (Cons d dc)
  then show ?case using path_cost_update[of rest e "snd d"] by (cases d) (auto simp: dirs_cost_def split: option.splits)
qed

lemma add_child_cost: "dirs_cost (snd (add_child x acc)) \<le> dirs_cost (snd acc) + 2 * Suc (length (fst x))"
proof (cases "cut CHR ''/'' (fst x)")
  case (Some nr)
  obtain name rest where nr: "nr = (name, rest)" by fastforce
  then have "fst x = name @ CHR ''/'' # rest" using Some by (simp add: cut_Some)
  then have len: "length (fst x) = length name + length rest + 1" by simp
  have "dirs_cost (snd (add_child x acc)) \<le> dirs_cost (snd acc) + 2 * length rest + 4"
    using Some nr dirs_cost_update[of name rest "snd x" "snd acc"] by (cases x; cases acc) (simp add: add_child_def)
  then show ?thesis using len by simp
qed (cases x; cases acc; simp add: add_child_def)

lemma levels_cost: "dirs_cost (snd (levels files)) \<le> 2 * path_cost files"
proof -
  have "dirs_cost (snd (fold add_child files acc)) \<le> dirs_cost (snd acc) + 2 * path_cost files" for acc
  proof (induction files arbitrary: acc)
    case (Cons x files)
    have "path_cost (x # files) = Suc (length (fst x)) + path_cost files" by (simp add: path_cost_def)
    then show ?case using Cons[of "add_child x acc"] add_child_cost[of x acc] by simp
  qed (simp add: path_cost_def)
  from this[of "([], [])"] show ?thesis by (simp add: levels_def dirs_cost_def)
qed

definition file_item :: "string \<times> blobEntry \<Rightarrow> tree_item" where
  "file_item x = \<lparr>ti_Name = fst x, ti_Mode = be_mode (snd x), ti_Hash = be_hash (snd x)\<rparr>"

function writeNestedTree :: "tree_lib \<Rightarrow> file_map \<Rightarrow> tree_store \<Rightarrow> string result \<times> tree_store"
  and write_dirs :: "tree_lib \<Rightarrow> (string \<times> file_map) list \<Rightarrow> tree_store \<Rightarrow> tree_item list result \<times> tree_store" where
  "writeNestedTree lib files st =
     (case write_dirs lib (snd (levels files)) st of
        (Inl e, st1) \<Rightarrow> (Inl e, st1)
      | (Inr ds, st1) \<Rightarrow> writeFlatTree lib (map file_item (fst (levels files)) @ ds) st1)"
| "write_dirs lib [] st = (Inr [], st)"
| "write_dirs lib (d # dc) st =
     (case writeNestedTree lib (snd d) st of
        (Inl e, st1) \<Rightarrow> (Inl e, st1)
      | (Inr h, st1) \<Rightarrow>
          (case write_dirs lib dc st1 of
             (Inl e, st2) \<Rightarrow> (Inl e, st2)
           | (Inr ds, st2) \<Rightarrow> (Inr (\<lparr>ti_Name = fst d, ti_Mode = mode_Dir, ti_Hash = h\<rparr> # ds), st2)))"
  by pat_completeness auto
termination
proof (relation "measure (\<lambda>x. case x of Inl (lib, files, st) \<Rightarrow> 2 * path_cost files + 1 | Inr (lib, dc, st) \<Rightarrow> dirs_cost dc)", goal_cases)
  case (2 lib files st)
  then show ?case using levels_cost[of files] by simp
qed (auto simp: dirs_cost_def)

declare writeNestedTree.simps [simp del]

section \<open>What the levels hold\<close>

lemma map_of_snoc: "k \<notin> fst ` set xs \<Longrightarrow> map_of (xs @ [(k, v)]) p = (if p = k then Some v else map_of xs p)"
proof -
  assume k: "k \<notin> fst ` set xs"
  then have "map_of xs k = None" by (simp add: map_of_eq_None_iff)
  then show ?thesis by (simp add: map_add_def split: option.split)
qed

lemma levels_lookup:
  assumes "distinct (map fst files)"
  shows "distinct (map fst (fst (levels files))) \<and> distinct (map fst (snd (levels files)))
    \<and> (\<forall>n sub. map_of (snd (levels files)) n = Some sub \<longrightarrow> distinct (map fst sub) \<and> CHR ''/'' \<notin> set n \<and> sub \<noteq> [])
    \<and> (\<forall>n. map_of (fst (levels files)) n = (if CHR ''/'' \<in> set n then None else map_of files n))
    \<and> (\<forall>n r. CHR ''/'' \<notin> set n \<longrightarrow> (case map_of (snd (levels files)) n of None \<Rightarrow> None | Some sub \<Rightarrow> map_of sub r) = map_of files (n @ CHR ''/'' # r))"
  using assms
proof (induction files rule: rev_induct)
  case Nil
  then show ?case by (simp add: levels_def)
next
  case (snoc x xs)
  obtain k v where x: "x = (k, v)" by fastforce
  obtain fc dc where l: "levels xs = (fc, dc)" by fastforce
  have lv: "levels (xs @ [x]) = add_child (k, v) (fc, dc)" using l x by (simp add: levels_def)
  have k: "k \<notin> fst ` set xs" using snoc.prems x by simp
  note look = map_of_snoc[OF k, of v]
  have IH: "distinct (map fst fc)" "distinct (map fst dc)"
    "\<And>n sub. map_of dc n = Some sub \<Longrightarrow> distinct (map fst sub) \<and> CHR ''/'' \<notin> set n \<and> sub \<noteq> []"
    "\<And>n. map_of fc n = (if CHR ''/'' \<in> set n then None else map_of xs n)"
    "\<And>n r. CHR ''/'' \<notin> set n \<Longrightarrow> (case map_of dc n of None \<Rightarrow> None | Some sub \<Rightarrow> map_of sub r) = map_of xs (n @ CHR ''/'' # r)"
    using snoc l by simp_all
  show ?case
  proof (cases "cut CHR ''/'' k")
    case None
    then have "levels (xs @ [x]) = (AList.update k v fc, dc)" "CHR ''/'' \<notin> set k" using lv by (simp_all add: add_child_def cut_None[symmetric])
    then show ?thesis using IH by (auto simp: x look update_conv' distinct_update simp del: map_of_append)
  next
    case (Some nr)
    then obtain n0 r0 where k0: "k = n0 @ CHR ''/'' # r0" "CHR ''/'' \<notin> set n0" "nr = (n0, r0)" by (cases nr) (auto simp: cut_Some)
    let ?sub = "case map_of dc n0 of None \<Rightarrow> [] | Some m \<Rightarrow> m"
    have lv': "levels (xs @ [x]) = (fc, AList.update n0 (AList.update r0 v ?sub) dc)" using lv Some k0(3) by (simp add: add_child_def)
    have "distinct (map fst (AList.update r0 v ?sub))" using IH(3)[of n0] by (intro distinct_update) (auto split: option.splits)
    moreover have "AList.update r0 v ?sub \<noteq> []" by simp
    moreover have "(case map_of (AList.update n0 (AList.update r0 v ?sub) dc) n of None \<Rightarrow> None | Some sub \<Rightarrow> map_of sub r)
        = map_of (xs @ [x]) (n @ CHR ''/'' # r)" if n: "CHR ''/'' \<notin> set n" for n r
    proof -
      have eq: "n @ CHR ''/'' # r = k \<longleftrightarrow> n = n0 \<and> r = r0"
      proof
        assume "n @ CHR ''/'' # r = k"
        then have "cut CHR ''/'' k = Some (n, r)" using cut_append[OF n, of r] by metis
        then show "n = n0 \<and> r = r0" using Some k0(3) by simp
      qed (simp add: k0(1))
      have sub: "map_of ?sub r = map_of xs (n0 @ CHR ''/'' # r)" using IH(5)[OF k0(2), of r] by (simp split: option.splits)
      show ?thesis
      proof (cases "n = n0")
        case True
        then show ?thesis using sub eq by (simp add: x look update_conv' del: map_of_append)
      next
        case False
        then show ?thesis using IH(5)[OF n, of r] eq by (simp add: x look update_conv' del: map_of_append)
      qed
    qed
    moreover have "map_of fc n = (if CHR ''/'' \<in> set n then None else map_of (xs @ [x]) n)" for n
    proof -
      have "n \<noteq> k" if "CHR ''/'' \<notin> set n" using that k0(1) by auto
      then show ?thesis using IH(4)[of n] by (simp add: x look del: map_of_append)
    qed
    ultimately show ?thesis using lv' IH(1-3) k0(2) by (simp add: update_conv' distinct_update del: map_of_append)
  qed
qed

section \<open>What a tree object means\<close>

text \<open>The files beneath a tree object, by following its entries.\<close>

inductive has_file :: "(string \<rightharpoonup> tree_item list) \<Rightarrow> string \<Rightarrow> string \<Rightarrow> blobEntry \<Rightarrow> bool" for T where
  leaf: "T h = Some items \<Longrightarrow> it \<in> set items \<Longrightarrow> ti_Mode it \<noteq> mode_Dir \<Longrightarrow>
         has_file T h (ti_Name it) \<lparr>be_hash = ti_Hash it, be_mode = ti_Mode it\<rparr>"
| below: "T h = Some items \<Longrightarrow> it \<in> set items \<Longrightarrow> ti_Mode it = mode_Dir \<Longrightarrow> has_file T (ti_Hash it) r e \<Longrightarrow>
          has_file T h (ti_Name it @ CHR ''/'' # r) e"

lemma has_file_unfold:
  assumes "T h = Some items"
  shows "has_file T h p e \<longleftrightarrow>
    (\<exists>it \<in> set items. ti_Mode it \<noteq> mode_Dir \<and> p = ti_Name it \<and> e = \<lparr>be_hash = ti_Hash it, be_mode = ti_Mode it\<rparr>) \<or>
    (\<exists>it \<in> set items. ti_Mode it = mode_Dir \<and> (\<exists>r. p = ti_Name it @ CHR ''/'' # r \<and> has_file T (ti_Hash it) r e))"
proof
  assume "has_file T h p e"
  then show "(\<exists>it \<in> set items. ti_Mode it \<noteq> mode_Dir \<and> p = ti_Name it \<and> e = \<lparr>be_hash = ti_Hash it, be_mode = ti_Mode it\<rparr>) \<or>
    (\<exists>it \<in> set items. ti_Mode it = mode_Dir \<and> (\<exists>r. p = ti_Name it @ CHR ''/'' # r \<and> has_file T (ti_Hash it) r e))"
    using assms by (cases rule: has_file.cases) auto
qed (use assms in \<open>auto intro: has_file.intros\<close>)

definition store_ok :: "tree_lib \<Rightarrow> tree_store \<Rightarrow> bool" where
  "store_ok lib st \<longleftrightarrow> (\<forall>h s. map_of st h = Some s \<longrightarrow> h = tl_hash lib s)"

lemma writeFlatTree_ok:
  assumes "inj (tl_hash lib)" "store_ok lib st" "tl_encode lib = (\<lambda>_. None)" "tl_store lib = (\<lambda>_. None)"
  shows "\<exists>st'. writeFlatTree lib es st = (Inr (tl_hash lib (sort_key order_name es)), st') \<and> store_ok lib st'
    \<and> map_of st \<subseteq>\<^sub>m map_of st' \<and> map_of st' (tl_hash lib (sort_key order_name es)) = Some (sort_key order_name es)"
  using assms by (auto simp: writeFlatTree_def Let_def store_ok_def update_conv' map_le_def dest: injD)

lemma file_item_simps [simp]:
  "ti_Name (file_item x) = fst x" "\<lparr>be_hash = ti_Hash (file_item x), be_mode = ti_Mode (file_item x)\<rparr> = snd x"
  by (simp_all add: file_item_def)

text \<open>No entry of a file map is a directory.\<close>

definition blobs_only :: "file_map \<Rightarrow> bool" where
  "blobs_only files \<longleftrightarrow> (\<forall>p e. map_of files p = Some e \<longrightarrow> be_mode e \<noteq> mode_Dir)"

lemma levels_facts:
  assumes "distinct (map fst files)" "blobs_only files"
  shows "\<forall>(n, sub) \<in> set (snd (levels files)). distinct (map fst sub) \<and> blobs_only sub \<and> CHR ''/'' \<notin> set n"
    "\<And>n e. (n, e) \<in> set (fst (levels files)) \<longleftrightarrow> CHR ''/'' \<notin> set n \<and> map_of files n = Some e"
    "\<And>n r e. CHR ''/'' \<notin> set n \<Longrightarrow> (\<exists>sub. (n, sub) \<in> set (snd (levels files)) \<and> map_of sub r = Some e) \<longleftrightarrow> map_of files (n @ CHR ''/'' # r) = Some e"
proof -
  note L = levels_lookup[OF assms(1)]
  have mem: "(n, sub) \<in> set (snd (levels files)) \<longleftrightarrow> map_of (snd (levels files)) n = Some sub" for n sub using L by simp
  show d: "\<And>n r e. CHR ''/'' \<notin> set n \<Longrightarrow> (\<exists>sub. (n, sub) \<in> set (snd (levels files)) \<and> map_of sub r = Some e) \<longleftrightarrow> map_of files (n @ CHR ''/'' # r) = Some e"
  proof -
    fix n r e assume "CHR ''/'' \<notin> set n"
    then have "(case map_of (snd (levels files)) n of None \<Rightarrow> None | Some sub \<Rightarrow> map_of sub r) = map_of files (n @ CHR ''/'' # r)" using L by blast
    then show "(\<exists>sub. (n, sub) \<in> set (snd (levels files)) \<and> map_of sub r = Some e) \<longleftrightarrow> map_of files (n @ CHR ''/'' # r) = Some e"
      unfolding mem by (cases "map_of (snd (levels files)) n") auto
  qed
  show "\<And>n e. (n, e) \<in> set (fst (levels files)) \<longleftrightarrow> CHR ''/'' \<notin> set n \<and> map_of files n = Some e"
    using L by (metis map_of_eq_Some_iff option.distinct(1))
  show "\<forall>(n, sub) \<in> set (snd (levels files)). distinct (map fst sub) \<and> blobs_only sub \<and> CHR ''/'' \<notin> set n"
  proof clarify
    fix n sub assume m: "(n, sub) \<in> set (snd (levels files))"
    then have n: "distinct (map fst sub)" "CHR ''/'' \<notin> set n" using L mem by blast+
    have "be_mode e \<noteq> mode_Dir" if "map_of sub r = Some e" for r e
      using d[OF n(2), of r e] m that assms(2) unfolding blobs_only_def by blast
    then show "distinct (map fst sub) \<and> blobs_only sub \<and> CHR ''/'' \<notin> set n" using n by (simp add: blobs_only_def)
  qed
qed

definition faultless :: "tree_lib \<Rightarrow> bool" where
  "faultless lib \<longleftrightarrow> inj (tl_hash lib) \<and> (\<forall>s. tl_encode lib s = None \<and> tl_store lib s = None)"

lemma writeFlatTree_meaning:
  assumes "faultless lib" "store_ok lib st"
  shows "\<exists>h st'. writeFlatTree lib es st = (Inr h, st') \<and> store_ok lib st' \<and> map_of st \<subseteq>\<^sub>m map_of st'
    \<and> (\<forall>T p e. map_of st' \<subseteq>\<^sub>m T \<longrightarrow> has_file T h p e \<longleftrightarrow>
         (\<exists>it \<in> set es. ti_Mode it \<noteq> mode_Dir \<and> p = ti_Name it \<and> e = \<lparr>be_hash = ti_Hash it, be_mode = ti_Mode it\<rparr>) \<or>
         (\<exists>it \<in> set es. ti_Mode it = mode_Dir \<and> (\<exists>r. p = ti_Name it @ CHR ''/'' # r \<and> has_file T (ti_Hash it) r e)))"
proof -
  let ?s = "sort_key order_name es"
  obtain st' where w: "writeFlatTree lib es st = (Inr (tl_hash lib ?s), st')" "store_ok lib st'" "map_of st \<subseteq>\<^sub>m map_of st'"
    "map_of st' (tl_hash lib ?s) = Some ?s"
    using writeFlatTree_ok[of lib st es] assms by (auto simp: faultless_def fun_eq_iff)
  have "T (tl_hash lib ?s) = Some ?s" if "map_of st' \<subseteq>\<^sub>m T" for T using w(4) that by (metis domI map_le_def)
  then have "has_file T (tl_hash lib ?s) p e \<longleftrightarrow>
         (\<exists>it \<in> set es. ti_Mode it \<noteq> mode_Dir \<and> p = ti_Name it \<and> e = \<lparr>be_hash = ti_Hash it, be_mode = ti_Mode it\<rparr>) \<or>
         (\<exists>it \<in> set es. ti_Mode it = mode_Dir \<and> (\<exists>r. p = ti_Name it @ CHR ''/'' # r \<and> has_file T (ti_Hash it) r e))"
    if "map_of st' \<subseteq>\<^sub>m T" for T p e using has_file_unfold[of T "tl_hash lib ?s" ?s p e] that by simp
  then show ?thesis using w(1-3) by blast
qed

lemma nested_tree_meaning:
  "faultless lib \<Longrightarrow> store_ok lib st \<Longrightarrow> distinct (map fst files) \<Longrightarrow> blobs_only files \<Longrightarrow>
      \<exists>h st'. writeNestedTree lib files st = (Inr h, st') \<and> store_ok lib st' \<and> map_of st \<subseteq>\<^sub>m map_of st'
        \<and> (\<forall>T p e. map_of st' \<subseteq>\<^sub>m T \<longrightarrow> has_file T h p e \<longleftrightarrow> map_of files p = Some e)"
  "faultless lib \<Longrightarrow> store_ok lib st \<Longrightarrow> \<forall>(n, sub) \<in> set dc. distinct (map fst sub) \<and> blobs_only sub \<Longrightarrow>
      \<exists>ds st'. write_dirs lib dc st = (Inr ds, st') \<and> store_ok lib st' \<and> map_of st \<subseteq>\<^sub>m map_of st'
        \<and> (\<forall>d \<in> set ds. ti_Mode d = mode_Dir)
        \<and> (\<forall>T n r e. map_of st' \<subseteq>\<^sub>m T \<longrightarrow> (\<exists>d \<in> set ds. ti_Name d = n \<and> has_file T (ti_Hash d) r e) \<longleftrightarrow> (\<exists>sub. (n, sub) \<in> set dc \<and> map_of sub r = Some e))"
proof (induction lib files st and lib dc st rule: writeNestedTree_write_dirs.induct)
  case (1 lib files st)
  note L = levels_facts[OF "1.prems"(3,4)]
  have "\<forall>(n, sub) \<in> set (snd (levels files)). distinct (map fst sub) \<and> blobs_only sub" using L(1) by blast
  then obtain ds st1 where d: "write_dirs lib (snd (levels files)) st = (Inr ds, st1)" "store_ok lib st1" "map_of st \<subseteq>\<^sub>m map_of st1"
    "\<forall>d \<in> set ds. ti_Mode d = mode_Dir"
    "\<And>T n r e. map_of st1 \<subseteq>\<^sub>m T \<Longrightarrow> (\<exists>d \<in> set ds. ti_Name d = n \<and> has_file T (ti_Hash d) r e) \<longleftrightarrow> (\<exists>sub. (n, sub) \<in> set (snd (levels files)) \<and> map_of sub r = Some e)"
    using "1.IH" "1.prems"(1,2) by blast
  let ?es = "map file_item (fst (levels files)) @ ds"
  obtain h st' where f: "writeFlatTree lib ?es st1 = (Inr h, st')" "store_ok lib st'" "map_of st1 \<subseteq>\<^sub>m map_of st'"
    "\<And>T p e. map_of st' \<subseteq>\<^sub>m T \<Longrightarrow> has_file T h p e \<longleftrightarrow>
         (\<exists>it \<in> set ?es. ti_Mode it \<noteq> mode_Dir \<and> p = ti_Name it \<and> e = \<lparr>be_hash = ti_Hash it, be_mode = ti_Mode it\<rparr>) \<or>
         (\<exists>it \<in> set ?es. ti_Mode it = mode_Dir \<and> (\<exists>r. p = ti_Name it @ CHR ''/'' # r \<and> has_file T (ti_Hash it) r e))"
    using writeFlatTree_meaning[OF "1.prems"(1) d(2), of ?es] by blast
  have leafs: "ti_Mode (file_item x) \<noteq> mode_Dir" if "x \<in> set (fst (levels files))" for x
    using that L(2)[of "fst x" "snd x"] "1.prems"(4) by (auto simp: file_item_def blobs_only_def)
  have "has_file T h p e \<longleftrightarrow> map_of files p = Some e" if T: "map_of st' \<subseteq>\<^sub>m T" for T p e
  proof -
    have T1: "map_of st1 \<subseteq>\<^sub>m T" using f(3) T map_le_trans by blast
    have "(\<exists>it \<in> set ?es. ti_Mode it \<noteq> mode_Dir \<and> p = ti_Name it \<and> e = \<lparr>be_hash = ti_Hash it, be_mode = ti_Mode it\<rparr>)
        \<longleftrightarrow> (p, e) \<in> set (fst (levels files))"
    proof
      assume "\<exists>it \<in> set ?es. ti_Mode it \<noteq> mode_Dir \<and> p = ti_Name it \<and> e = \<lparr>be_hash = ti_Hash it, be_mode = ti_Mode it\<rparr>"
      then obtain x where "x \<in> set (fst (levels files))" "p = ti_Name (file_item x)"
        "e = \<lparr>be_hash = ti_Hash (file_item x), be_mode = ti_Mode (file_item x)\<rparr>" using d(4) by auto
      then show "(p, e) \<in> set (fst (levels files))" by simp
    next
      assume m: "(p, e) \<in> set (fst (levels files))"
      then have "file_item (p, e) \<in> set ?es" by simp
      then show "\<exists>it \<in> set ?es. ti_Mode it \<noteq> mode_Dir \<and> p = ti_Name it \<and> e = \<lparr>be_hash = ti_Hash it, be_mode = ti_Mode it\<rparr>"
        using leafs[OF m] by (metis file_item_simps fst_conv snd_conv)
    qed
    also have "\<dots> \<longleftrightarrow> CHR ''/'' \<notin> set p \<and> map_of files p = Some e" by (rule L(2))
    finally have a: "(\<exists>it \<in> set ?es. ti_Mode it \<noteq> mode_Dir \<and> p = ti_Name it \<and> e = \<lparr>be_hash = ti_Hash it, be_mode = ti_Mode it\<rparr>)
        \<longleftrightarrow> CHR ''/'' \<notin> set p \<and> map_of files p = Some e" .
    have "(\<exists>it \<in> set ?es. ti_Mode it = mode_Dir \<and> (\<exists>r. p = ti_Name it @ CHR ''/'' # r \<and> has_file T (ti_Hash it) r e))
        \<longleftrightarrow> (\<exists>n r. p = n @ CHR ''/'' # r \<and> (\<exists>d \<in> set ds. ti_Name d = n \<and> has_file T (ti_Hash d) r e))"
      using d(4) leafs by auto
    also have "\<dots> \<longleftrightarrow> (\<exists>n r. p = n @ CHR ''/'' # r \<and> (\<exists>sub. (n, sub) \<in> set (snd (levels files)) \<and> map_of sub r = Some e))"
      using d(5)[OF T1] by blast
    also have "\<dots> \<longleftrightarrow> CHR ''/'' \<in> set p \<and> map_of files p = Some e"
    proof
      assume "\<exists>n r. p = n @ CHR ''/'' # r \<and> (\<exists>sub. (n, sub) \<in> set (snd (levels files)) \<and> map_of sub r = Some e)"
      then obtain n r sub where n: "p = n @ CHR ''/'' # r" "(n, sub) \<in> set (snd (levels files))" "map_of sub r = Some e" by blast
      then have "CHR ''/'' \<notin> set n" using L(1) by blast
      then show "CHR ''/'' \<in> set p \<and> map_of files p = Some e" using L(3)[of n r e] n by auto
    next
      assume p: "CHR ''/'' \<in> set p \<and> map_of files p = Some e"
      then obtain n r where n: "p = n @ CHR ''/'' # r" "CHR ''/'' \<notin> set n" using split_list_first[of "CHR ''/''" p] by blast
      then show "\<exists>n r. p = n @ CHR ''/'' # r \<and> (\<exists>sub. (n, sub) \<in> set (snd (levels files)) \<and> map_of sub r = Some e)"
        using L(3)[OF n(2), of r e] p by blast
    qed
    finally show ?thesis using f(4)[OF T, of p e] a by blast
  qed
  then show ?case using d(1,3) f(1-3) map_le_trans by (auto simp: writeNestedTree.simps)
next
  case (2 lib st)
  then show ?case by simp
next
  case (3 lib d dc st)
  obtain n0 sub0 where dd: "d = (n0, sub0)" by fastforce
  have sub: "distinct (map fst (snd d))" "blobs_only (snd d)" using "3.prems"(3) by (auto simp: dd)
  obtain h st1 where a: "writeNestedTree lib (snd d) st = (Inr h, st1)" "store_ok lib st1" "map_of st \<subseteq>\<^sub>m map_of st1"
    "\<And>T p e. map_of st1 \<subseteq>\<^sub>m T \<Longrightarrow> has_file T h p e \<longleftrightarrow> map_of (snd d) p = Some e"
    using "3.IH"(1)[OF "3.prems"(1,2) sub] by blast
  have "\<forall>(n, sub) \<in> set dc. distinct (map fst sub) \<and> blobs_only sub" using "3.prems"(3) by simp
  then obtain ds st2 where b: "write_dirs lib dc st1 = (Inr ds, st2)" "store_ok lib st2" "map_of st1 \<subseteq>\<^sub>m map_of st2"
    "\<forall>d \<in> set ds. ti_Mode d = mode_Dir"
    "\<And>T n r e. map_of st2 \<subseteq>\<^sub>m T \<Longrightarrow> (\<exists>d \<in> set ds. ti_Name d = n \<and> has_file T (ti_Hash d) r e) \<longleftrightarrow> (\<exists>sub. (n, sub) \<in> set dc \<and> map_of sub r = Some e)"
    using "3.IH"(2)[OF a(1)[symmetric] refl "3.prems"(1) a(2)] by blast
  let ?ds = "\<lparr>ti_Name = fst d, ti_Mode = mode_Dir, ti_Hash = h\<rparr> # ds"
  have "(\<exists>x \<in> set ?ds. ti_Name x = n \<and> has_file T (ti_Hash x) r e) \<longleftrightarrow> (\<exists>sub. (n, sub) \<in> set (d # dc) \<and> map_of sub r = Some e)"
    if T: "map_of st2 \<subseteq>\<^sub>m T" for T n r e
    using b(5)[OF T, of n r e] a(4)[OF map_le_trans[OF b(3) T], of r e] by (auto simp: dd)
  then show ?case using a(1,3) b(1-4) map_le_trans[OF a(3) b(3)] by simp
qed

section \<open>Proper trees\<close>

text \<open>
  A tree object git accepts: no slash in a name, no two entries of one name, the entries in git's order, and every
  directory among them proper in turn. A map with a path that is also a directory of another has
  no such tree.
\<close>

inductive proper_tree :: "(string \<rightharpoonup> tree_item list) \<Rightarrow> string \<Rightarrow> bool" for T where
  "T h = Some items \<Longrightarrow> \<forall>it \<in> set items. CHR ''/'' \<notin> set (ti_Name it) \<Longrightarrow>
   distinct (map ti_Name items) \<Longrightarrow> sorted_wrt treeEntryLess items \<Longrightarrow>
   (\<And>it. it \<in> set items \<Longrightarrow> ti_Mode it = mode_Dir \<Longrightarrow> proper_tree T (ti_Hash it)) \<Longrightarrow> proper_tree T h"

definition prefix_free :: "file_map \<Rightarrow> bool" where
  "prefix_free files \<longleftrightarrow> (\<forall>p q. map_of files p \<noteq> None \<longrightarrow> map_of files (p @ CHR ''/'' # q) = None)"

lemma prefix_free_levels:
  assumes "distinct (map fst files)" "blobs_only files" "prefix_free files"
  shows "\<forall>(n, sub) \<in> set (snd (levels files)). prefix_free sub"
    "n \<in> fst ` set (fst (levels files)) \<Longrightarrow> n \<notin> fst ` set (snd (levels files))"
proof -
  note L = levels_facts[OF assms(1,2)]
  show "\<forall>(n, sub) \<in> set (snd (levels files)). prefix_free sub"
  proof clarify
    fix n sub assume m: "(n, sub) \<in> set (snd (levels files))"
    then have n: "CHR ''/'' \<notin> set n" using L(1) by blast
    have up: "map_of files (n @ CHR ''/'' # r) = Some e" if "map_of sub r = Some e" for r e using L(3)[OF n] m that by blast
    have "map_of sub (p @ CHR ''/'' # q) = None" if p: "map_of sub p \<noteq> None" for p q
    proof (rule ccontr)
      assume "map_of sub (p @ CHR ''/'' # q) \<noteq> None"
      then have "map_of files ((n @ CHR ''/'' # p) @ CHR ''/'' # q) \<noteq> None" "map_of files (n @ CHR ''/'' # p) \<noteq> None"
        using up p by fastforce+
      then show False using assms(3)[unfolded prefix_free_def, rule_format, of "n @ CHR ''/'' # p" q] by simp
    qed
    then show "prefix_free sub" by (simp add: prefix_free_def)
  qed
  assume n: "n \<in> fst ` set (fst (levels files))"
  then have f: "CHR ''/'' \<notin> set n" "map_of files n \<noteq> None" using L(2) by auto
  show "n \<notin> fst ` set (snd (levels files))"
  proof
    assume "n \<in> fst ` set (snd (levels files))"
    then obtain sub where sub: "(n, sub) \<in> set (snd (levels files))" by auto
    moreover have "sub \<noteq> []" using levels_lookup[OF assms(1)] sub by (auto simp: map_of_eq_Some_iff)
    then have "map_of sub (fst (hd sub)) = Some (snd (hd sub))" by (cases sub) simp_all
    then obtain r e where "map_of sub r = Some e" by blast
    ultimately have "map_of files (n @ CHR ''/'' # r) = Some e" using L(3)[OF f(1)] by blast
    then show False using assms(3)[unfolded prefix_free_def, rule_format, OF f(2), of r] by simp
  qed
qed

lemma order_name_inj:
  "CHR ''/'' \<notin> set (ti_Name a) \<Longrightarrow> CHR ''/'' \<notin> set (ti_Name b) \<Longrightarrow> order_name a = order_name b \<Longrightarrow> ti_Name a = ti_Name b"
proof -
  have "CHR ''/'' \<in> set (x @ ''/'')" for x by simp
  then show "CHR ''/'' \<notin> set (ti_Name a) \<Longrightarrow> CHR ''/'' \<notin> set (ti_Name b) \<Longrightarrow> order_name a = order_name b \<Longrightarrow> ti_Name a = ti_Name b"
    by (metis append_same_eq order_name_def)
qed

lemma flat_tree_order:
  assumes "distinct (map ti_Name es)" "\<forall>it \<in> set es. CHR ''/'' \<notin> set (ti_Name it)"
  shows "distinct (map ti_Name (sort_key order_name es))" "sorted_wrt treeEntryLess (sort_key order_name es)"
proof -
  let ?s = "sort_key order_name es"
  have "mset (map ti_Name ?s) = mset (map ti_Name es)" by simp
  then show d: "distinct (map ti_Name ?s)" using assms(1) by (metis mset_eq_imp_distinct_iff)
  have "distinct (map order_name ?s)"
    using d assms(2) order_name_inj by (auto simp: distinct_map inj_on_def)
  then have "sorted_wrt (<) (map order_name ?s)" using sorted_sort_key[of order_name es] by (simp add: strict_sorted_iff)
  then show "sorted_wrt treeEntryLess ?s" by (simp add: sorted_wrt_map treeEntryLess_def[abs_def])
qed

lemma writeFlatTree_proper:
  assumes "faultless lib" "store_ok lib st" "writeFlatTree lib es st = (Inr h, st')" "map_of st' \<subseteq>\<^sub>m T"
    and "distinct (map ti_Name es)" "\<forall>it \<in> set es. CHR ''/'' \<notin> set (ti_Name it)"
    and "\<And>it. it \<in> set es \<Longrightarrow> ti_Mode it = mode_Dir \<Longrightarrow> proper_tree T (ti_Hash it)"
  shows "proper_tree T h"
proof -
  let ?s = "sort_key order_name es"
  have "tl_encode lib = (\<lambda>_. None)" "tl_store lib = (\<lambda>_. None)" "inj (tl_hash lib)" using assms(1) by (auto simp: faultless_def)
  from writeFlatTree_ok[OF this(3) assms(2) this(1,2), of es]
  have w: "h = tl_hash lib ?s" "map_of st' h = Some ?s" using assms(3) by auto
  then have "T h = Some ?s" using assms(4) by (metis domI map_le_def)
  then show ?thesis by (rule proper_tree.intros) (use flat_tree_order[OF assms(5,6)] assms(6,7) in simp_all)
qed

lemma nested_tree_proper:
  "faultless lib \<Longrightarrow> store_ok lib st \<Longrightarrow> distinct (map fst files) \<Longrightarrow> blobs_only files \<Longrightarrow> prefix_free files \<Longrightarrow>
     writeNestedTree lib files st = (Inr h, st') \<Longrightarrow> map_of st' \<subseteq>\<^sub>m T \<Longrightarrow> proper_tree T h"
  "faultless lib \<Longrightarrow> store_ok lib st \<Longrightarrow> \<forall>(n, sub) \<in> set dc. distinct (map fst sub) \<and> blobs_only sub \<and> prefix_free sub \<Longrightarrow>
     write_dirs lib dc st = (Inr ds, st') \<Longrightarrow> map_of st' \<subseteq>\<^sub>m T \<Longrightarrow>
     map ti_Name ds = map fst dc \<and> (\<forall>d \<in> set ds. proper_tree T (ti_Hash d))"
proof (induction lib files st and lib dc st arbitrary: h st' T and ds st' T rule: writeNestedTree_write_dirs.induct)
  case (1 lib files st)
  note L = levels_facts[OF "1.prems"(3,4)] and P = prefix_free_levels[OF "1.prems"(3-5)]
  have sub: "\<forall>(n, sub) \<in> set (snd (levels files)). distinct (map fst sub) \<and> blobs_only sub" using L(1) by blast
  obtain ds st1 where d: "write_dirs lib (snd (levels files)) st = (Inr ds, st1)" "store_ok lib st1"
    "\<forall>d \<in> set ds. ti_Mode d = mode_Dir"
    using nested_tree_meaning(2)[OF "1.prems"(1,2) sub] by blast
  then have w: "writeFlatTree lib (map file_item (fst (levels files)) @ ds) st1 = (Inr h, st')"
    using "1.prems"(6) by (simp add: writeNestedTree.simps)
  have "map_of st1 \<subseteq>\<^sub>m map_of st'" using writeFlatTree_meaning[OF "1.prems"(1) d(2), of "map file_item (fst (levels files)) @ ds"] w by auto
  then have T1: "map_of st1 \<subseteq>\<^sub>m T" using "1.prems"(7) map_le_trans by blast
  have sub': "\<forall>(n, sub) \<in> set (snd (levels files)). distinct (map fst sub) \<and> blobs_only sub \<and> prefix_free sub" using L(1) P(1) by blast
  have ds: "map ti_Name ds = map fst (snd (levels files))" "\<forall>d \<in> set ds. proper_tree T (ti_Hash d)"
    using "1.IH"[OF "1.prems"(1,2) sub' d(1) T1] by blast+
  have names: "map ti_Name (map file_item (fst (levels files)) @ ds) = map fst (fst (levels files)) @ map fst (snd (levels files))"
    using ds(1) by (simp add: comp_def)
  have dist: "distinct (map ti_Name (map file_item (fst (levels files)) @ ds))"
    unfolding names using levels_lookup[OF "1.prems"(3)] P(2) by auto
  have slash: "\<forall>it \<in> set (map file_item (fst (levels files)) @ ds). CHR ''/'' \<notin> set (ti_Name it)"
  proof
    fix it assume "it \<in> set (map file_item (fst (levels files)) @ ds)"
    then have "ti_Name it \<in> set (map fst (fst (levels files)) @ map fst (snd (levels files)))" using names by (metis image_eqI list.set_map)
    then show "CHR ''/'' \<notin> set (ti_Name it)" using L(1,2) by fastforce
  qed
  have leafs: "ti_Mode (file_item x) \<noteq> mode_Dir" if "x \<in> set (fst (levels files))" for x
    using that L(2)[of "fst x" "snd x"] "1.prems"(4) by (auto simp: file_item_def blobs_only_def)
  show ?case by (rule writeFlatTree_proper[OF "1.prems"(1) d(2) w "1.prems"(7) dist slash]) (use leafs ds(2) in auto)
next
  case (2 lib st)
  then show ?case by simp
next
  case (3 lib d dc st)
  obtain n0 sub0 where dd: "d = (n0, sub0)" by fastforce
  have sub: "distinct (map fst (snd d))" "blobs_only (snd d)" "prefix_free (snd d)" using "3.prems"(3) by (auto simp: dd)
  obtain h st1 where a: "writeNestedTree lib (snd d) st = (Inr h, st1)" "store_ok lib st1"
    using nested_tree_meaning(1)[OF "3.prems"(1,2) sub(1,2)] by blast
  have sd: "\<forall>(n, sub) \<in> set dc. distinct (map fst sub) \<and> blobs_only sub \<and> prefix_free sub" using "3.prems"(3) by simp
  then have "\<forall>(n, sub) \<in> set dc. distinct (map fst sub) \<and> blobs_only sub" by blast
  then obtain ds1 st2 where b: "write_dirs lib dc st1 = (Inr ds1, st2)" "map_of st1 \<subseteq>\<^sub>m map_of st2"
    using nested_tree_meaning(2)[OF "3.prems"(1) a(2)] by blast
  have r: "ds = \<lparr>ti_Name = fst d, ti_Mode = mode_Dir, ti_Hash = h\<rparr> # ds1" "st' = st2" using "3.prems"(4) a(1) b(1) by auto
  have "proper_tree T h" using "3.IH"(1)[OF "3.prems"(1,2) sub a(1)] b(2) "3.prems"(5) r(2) map_le_trans by blast
  moreover have "map ti_Name ds1 = map fst dc \<and> (\<forall>d \<in> set ds1. proper_tree T (ti_Hash d))"
    using "3.IH"(2)[OF a(1)[symmetric] refl "3.prems"(1) a(2) sd b(1)] "3.prems"(5) r(2) by blast
  ultimately show ?case using r(1) by simp
qed


section \<open>A small tree\<close>

definition demo_tree_lib :: tree_lib where
  "demo_tree_lib = \<lparr>tl_hash = (\<lambda>s. replicate (to_nat (map (\<lambda>i. (ti_Name i, unat (ti_Mode i), ti_Hash i)) s)) CHR ''a''),
     tl_encode = (\<lambda>_. None), tl_store = (\<lambda>_. None)\<rparr>"

lemma demo_tree_lib_ok: "faultless demo_tree_lib"
proof -
  have "inj (\<lambda>i :: tree_item. (ti_Name i, unat (ti_Mode i), ti_Hash i))" by (auto simp: inj_def word_unat_eq_iff intro!: tree_item.equality)
  then have "inj (map (\<lambda>i :: tree_item. (ti_Name i, unat (ti_Mode i), ti_Hash i)))" by (simp add: inj_mapI)
  then have "inj (tl_hash demo_tree_lib)" by (auto simp: demo_tree_lib_def inj_def)
  then show ?thesis by (simp add: faultless_def demo_tree_lib_def)
qed

definition demo_files :: file_map where
  "demo_files = [(''land/x.go'', \<lparr>be_hash = ''1'', be_mode = mode_Regular\<rparr>), (''land.go'', \<lparr>be_hash = ''2'', be_mode = mode_Executable\<rparr>)]"


end
