(* ===== verification/Git_Merge.thy ===== *)
theory Git_Merge
  imports Git_Tree
begin

text \<open>
  Merging and squashing trees (\<open>internal/store/git/merge.go\<close>, \<open>squash.go\<close>). Trees are read with go-git's
  walker and compared with its diff, ancestry is its graph search; they are arguments (\<open>git_lib_funs\<close>), and
  what is relied on of them is named: \<open>walker_ok\<close> and \<open>diff_ok\<close>.
\<close>

section \<open>The repository\<close>

record commit_obj =
  co_Tree :: string
  co_Parents :: "string list"

record tree_change =
  ch_From :: string
  ch_To :: string
  ch_ToHash :: "string option"

record repo_state =
  gr_trees :: tree_store
  gr_commits :: "(string \<times> commit_obj) list"
  gr_refs :: "(string \<times> string) list"

record git_lib_funs =
  gf_tree :: tree_lib
  gf_flatten :: "(string \<rightharpoonup> tree_item list) \<Rightarrow> string \<Rightarrow> file_map result"
  gf_diff :: "(string \<rightharpoonup> tree_item list) \<Rightarrow> string \<Rightarrow> string \<Rightarrow> tree_change list result"
  gf_bases :: "(string \<rightharpoonup> commit_obj) \<Rightarrow> string \<Rightarrow> string \<Rightarrow> string list result"
  gf_ancestor :: "(string \<rightharpoonup> commit_obj) \<Rightarrow> string \<Rightarrow> string \<Rightarrow> bool result"

definition commitObject :: "repo_state \<Rightarrow> string \<Rightarrow> commit_obj result" where
  "commitObject R hash = (case map_of (gr_commits R) hash of
     None \<Rightarrow> Inl (Wrap hash (Sentinel ErrCommitNotFound)) | Some c \<Rightarrow> Inr c)"

definition merge_base :: "git_lib_funs \<Rightarrow> repo_state \<Rightarrow> string \<Rightarrow> string \<Rightarrow> string result" where
  "merge_base F R leftHash rightHash =
     bind_result (commitObject R leftHash) (\<lambda>_.
     bind_result (commitObject R rightHash) (\<lambda>_.
       (case gf_bases F (map_of (gr_commits R)) leftHash rightHash of
          Inl e \<Rightarrow> Inl (Wrap ''merge base'' e)
        | Inr [] \<Rightarrow> Inr []
        | Inr (b # _) \<Rightarrow> Inr b)))"

definition IsAncestor :: "git_lib_funs \<Rightarrow> repo_state \<Rightarrow> string \<Rightarrow> string \<Rightarrow> bool result" where
  "IsAncestor F R ancestor descendant =
     bind_result (commitObject R ancestor) (\<lambda>_.
     bind_result (commitObject R descendant) (\<lambda>_.
       (case gf_ancestor F (map_of (gr_commits R)) ancestor descendant of
          Inl e \<Rightarrow> Inl (Wrap ''ancestor check'' e) | Inr b \<Rightarrow> Inr b)))"

definition commitFiles :: "git_lib_funs \<Rightarrow> repo_state \<Rightarrow> string \<Rightarrow> file_map result" where
  "commitFiles F R hash =
     bind_result (commitObject R hash) (\<lambda>c. gf_flatten F (map_of (gr_trees R)) (co_Tree c))"

section \<open>Deltas\<close>

type_synonym tree_delta = "(string \<times> blobEntry option) list"

definition delta_set :: "file_map \<Rightarrow> string \<times> blobEntry \<Rightarrow> tree_delta \<Rightarrow> tree_delta" where
  "delta_set parent x net = (case x of (path, e) \<Rightarrow>
     (case map_of parent path of
        None \<Rightarrow> AList.update path (Some e) net
      | Some prev \<Rightarrow> if be_hash prev \<noteq> be_hash e \<or> be_mode prev \<noteq> be_mode e then AList.update path (Some e) net else net))"

definition delta_drop :: "file_map \<Rightarrow> string \<times> blobEntry \<Rightarrow> tree_delta \<Rightarrow> tree_delta" where
  "delta_drop cur x net = (if map_of cur (fst x) = None then AList.update (fst x) None net else net)"

definition applyTreeDelta :: "tree_delta \<Rightarrow> file_map \<Rightarrow> file_map \<Rightarrow> tree_delta" where
  "applyTreeDelta net parent cur = fold (delta_drop cur) parent (fold (delta_set parent) cur net)"

definition delta_apply :: "string \<times> blobEntry option \<Rightarrow> file_map \<Rightarrow> file_map" where
  "delta_apply x merged = (case x of (path, None) \<Rightarrow> AList.delete path merged | (path, Some e) \<Rightarrow> AList.update path e merged)"

definition applyMergeDelta :: "file_map \<Rightarrow> tree_delta \<Rightarrow> file_map" where
  "applyMergeDelta merged delta = fold delta_apply delta merged"

definition netDelta :: "git_lib_funs \<Rightarrow> repo_state \<Rightarrow> string \<Rightarrow> string \<Rightarrow> tree_delta result" where
  "netDelta F R baseHash targetHash =
     bind_result (if baseHash = [] then Inr [] else commitFiles F R baseHash) (\<lambda>base.
     bind_result (commitFiles F R targetHash) (\<lambda>target.
       Inr (applyTreeDelta [] base target)))"

section \<open>The merged tree\<close>

definition merged_files :: "git_lib_funs \<Rightarrow> repo_state \<Rightarrow> string \<Rightarrow> string \<Rightarrow> file_map result" where
  "merged_files F R headHash sourceHash =
     (case merge_base F R headHash sourceHash of
        Inl e \<Rightarrow> Inl (Wrap ''merge base'' e)
      | Inr baseHash \<Rightarrow>
          bind_result (if baseHash = [] then Inr [] else commitFiles F R baseHash) (\<lambda>baseFiles.
          bind_result (netDelta F R baseHash headHash) (\<lambda>headDelta.
          bind_result (netDelta F R baseHash sourceHash) (\<lambda>sourceDelta.
            Inr (applyMergeDelta (applyMergeDelta baseFiles headDelta) sourceDelta)))))"

definition mergedTree :: "git_lib_funs \<Rightarrow> repo_state \<Rightarrow> string \<Rightarrow> string \<Rightarrow> string result \<times> repo_state" where
  "mergedTree F R headHash sourceHash =
     (case merged_files F R headHash sourceHash of
        Inl e \<Rightarrow> (Inl e, R)
      | Inr merged \<Rightarrow>
          (case writeNestedTree (gf_tree F) merged (gr_trees R) of
             (Inl e, ts) \<Rightarrow> (Inl (Wrap ''write merged tree'' e), R\<lparr>gr_trees := ts\<rparr>)
           | (Inr h, ts) \<Rightarrow> (Inr h, R\<lparr>gr_trees := ts\<rparr>)))"

definition change_path :: "tree_change \<Rightarrow> string" where
  "change_path ch = (if ch_To ch = [] then ch_From ch else ch_To ch)"

definition changedPaths :: "git_lib_funs \<Rightarrow> repo_state \<Rightarrow> commit_obj \<Rightarrow> commit_obj \<Rightarrow> (string \<times> string) list result" where
  "changedPaths F R base target =
     (case gf_diff F (map_of (gr_trees R)) (co_Tree base) (co_Tree target) of
        Inl e \<Rightarrow> Inl (Wrap ''tree diff'' e)
      | Inr changes \<Rightarrow> Inr (fold (\<lambda>ch. AList.update (change_path ch) (case ch_ToHash ch of None \<Rightarrow> [] | Some h \<Rightarrow> h)) changes []))"

definition ConflictingPaths :: "git_lib_funs \<Rightarrow> repo_state \<Rightarrow> string \<Rightarrow> string \<Rightarrow> string \<Rightarrow> string list result" where
  "ConflictingPaths F R baseHash leftHash rightHash =
     bind_result (commitObject R baseHash) (\<lambda>base.
     bind_result (commitObject R leftHash) (\<lambda>left.
     bind_result (commitObject R rightHash) (\<lambda>right.
       (case changedPaths F R base left of
          Inl e \<Rightarrow> Inl (Wrap ''merge conflict scan (left)'' e)
        | Inr leftChanges \<Rightarrow>
            (case changedPaths F R base right of
               Inl e \<Rightarrow> Inl (Wrap ''merge conflict scan (right)'' e)
             | Inr rightChanges \<Rightarrow>
                 Inr (map fst (filter (\<lambda>(path, l). case map_of rightChanges path of None \<Rightarrow> False | Some r \<Rightarrow> r \<noteq> l) leftChanges)))))))"

section \<open>Squashing a task\<close>

definition squashBase :: "git_lib_funs \<Rightarrow> repo_state \<Rightarrow> string \<Rightarrow> (string option \<times> file_map) result" where
  "squashBase F R first =
     (case map_of (gr_commits R) first of
        None \<Rightarrow> Inl (Errorf ''squash: read first commit'')
      | Some obj \<Rightarrow>
          (case co_Parents obj of
             [] \<Rightarrow> Inr (None, [])
           | baseHash # _ \<Rightarrow> bind_result (commitFiles F R baseHash) (\<lambda>files. Inr (Some baseHash, files))))"

fun taskNetChanges :: "git_lib_funs \<Rightarrow> repo_state \<Rightarrow> tree_delta \<Rightarrow> string list \<Rightarrow> tree_delta result" where
  "taskNetChanges F R net [] = Inr net"
| "taskNetChanges F R net (h # hs) =
     (case map_of (gr_commits R) h of
        None \<Rightarrow> Inl (Errorf ''squash: read commit'')
      | Some obj \<Rightarrow>
          bind_result (commitFiles F R h) (\<lambda>cur.
          bind_result (case co_Parents obj of [] \<Rightarrow> Inr [] | p # _ \<Rightarrow> commitFiles F R p) (\<lambda>parent.
            taskNetChanges F R (applyTreeDelta net parent cur) hs)))"

definition squash_files :: "git_lib_funs \<Rightarrow> repo_state \<Rightarrow> string list \<Rightarrow> (string option \<times> file_map) result" where
  "squash_files F R taskCommits =
     (case taskCommits of
        [] \<Rightarrow> Inl (Wrap ''squash'' (Sentinel ErrTaskNotFound))
      | first # _ \<Rightarrow>
          bind_result (squashBase F R first) (\<lambda>(base, baseFiles).
          bind_result (taskNetChanges F R [] taskCommits) (\<lambda>net.
            Inr (base, applyMergeDelta baseFiles net))))"

definition squashTree :: "git_lib_funs \<Rightarrow> string \<Rightarrow> repo_state \<Rightarrow> string list \<Rightarrow> (string option \<times> string \<times> string) result \<times> repo_state" where
  "squashTree F empty_tree R taskCommits =
     (case squash_files F R taskCommits of
        Inl e \<Rightarrow> (Inl e, R)
      | Inr (base, files) \<Rightarrow>
          (case writeNestedTree (gf_tree F) files (gr_trees R) of
             (Inl e, ts) \<Rightarrow> (Inl e, R\<lparr>gr_trees := ts\<rparr>)
           | (Inr h, ts) \<Rightarrow>
               (Inr (base, h, case base of None \<Rightarrow> empty_tree
                               | Some b \<Rightarrow> (case map_of (gr_commits R) b of None \<Rightarrow> empty_tree | Some c \<Rightarrow> co_Tree c)),
                R\<lparr>gr_trees := ts\<rparr>)))"

section \<open>Deltas as maps\<close>

lemma blobEntry_neq: "be_hash a \<noteq> be_hash b \<or> be_mode a \<noteq> be_mode b \<longleftrightarrow> a \<noteq> (b :: blobEntry)"
  by (auto intro: blobEntry.equality)

lemma delta_set_lookup:
  "distinct (map fst cur) \<Longrightarrow> map_of (fold (delta_set parent) cur net) p =
    (case map_of cur p of None \<Rightarrow> map_of net p | Some e \<Rightarrow> if map_of parent p = Some e then map_of net p else Some (Some e))"
proof (induction cur arbitrary: net)
  case (Cons x cur)
  obtain k e where x: "x = (k, e)" by fastforce
  have n: "map_of cur k = None" using Cons.prems x by (simp add: map_of_eq_None_iff)
  have "delta_set parent x net = (if map_of parent k = Some e then net else AList.update k (Some e) net)"
    by (auto simp: delta_set_def x blobEntry_neq split: option.split)
  then show ?case using Cons n by (auto simp: x update_conv' split: option.splits)
qed simp

lemma delta_drop_lookup:
  "map_of (fold (delta_drop cur) parent net) p =
    (if map_of parent p \<noteq> None \<and> map_of cur p = None then Some None else map_of net p)"
  by (induction parent arbitrary: net) (auto simp: delta_drop_def update_conv')

lemma applyTreeDelta_lookup:
  assumes "distinct (map fst cur)"
  shows "map_of (applyTreeDelta net parent cur) p = (if map_of cur p \<noteq> map_of parent p then Some (map_of cur p) else map_of net p)"
  by (auto simp: applyTreeDelta_def delta_drop_lookup delta_set_lookup[OF assms] split: option.splits)

lemma applyTreeDelta_distinct: "distinct (map fst net) \<Longrightarrow> distinct (map fst (applyTreeDelta net parent cur))"
proof -
  have "distinct (map fst (fold (delta_set parent) xs n))" if "distinct (map fst n)" for xs and n :: tree_delta
    using that by (induction xs arbitrary: n) (auto simp: delta_set_def distinct_update split: prod.splits option.splits)
  moreover have "distinct (map fst (fold (delta_drop cur) xs n))" if "distinct (map fst n)" for xs and n :: tree_delta
    using that by (induction xs arbitrary: n) (auto simp: delta_drop_def distinct_update)
  ultimately show "distinct (map fst net) \<Longrightarrow> ?thesis" by (simp add: applyTreeDelta_def)
qed

lemma applyMergeDelta_lookup:
  "distinct (map fst d) \<Longrightarrow> map_of (applyMergeDelta m d) p = (case map_of d p of None \<Rightarrow> map_of m p | Some oe \<Rightarrow> oe)"
proof (induction d arbitrary: m)
  case (Cons x d)
  obtain k oe where x: "x = (k, oe)" by fastforce
  have n: "map_of d k = None" using Cons.prems x by (simp add: map_of_eq_None_iff)
  have "map_of (delta_apply x m) p = (if p = k then oe else map_of m p)"
    by (auto simp: delta_apply_def x update_conv' delete_conv' split: option.split)
  then show ?case using Cons n by (auto simp: x applyMergeDelta_def split: option.splits)
qed (simp add: applyMergeDelta_def)

lemma applyMergeDelta_distinct: "distinct (map fst m) \<Longrightarrow> distinct (map fst (applyMergeDelta m d))"
  unfolding applyMergeDelta_def
  by (induction d arbitrary: m) (auto simp: delta_apply_def distinct_update distinct_delete split: prod.splits option.splits)

section \<open>What the library reads\<close>

definition walker_ok :: "git_lib_funs \<Rightarrow> (string \<rightharpoonup> tree_item list) \<Rightarrow> bool" where
  "walker_ok F T \<longleftrightarrow> (\<forall>h fs. gf_flatten F T h = Inr fs \<longrightarrow>
     distinct (map fst fs) \<and> (\<forall>p e. map_of fs p = Some e \<longleftrightarrow> has_file T h p e))"

definition diff_ok :: "git_lib_funs \<Rightarrow> (string \<rightharpoonup> tree_item list) \<Rightarrow> bool" where
  "diff_ok F T \<longleftrightarrow> (\<forall>a c fa fc chs. gf_flatten F T a = Inr fa \<and> gf_flatten F T c = Inr fc \<and> gf_diff F T a c = Inr chs \<longrightarrow>
     distinct (map change_path chs) \<and> (\<forall>p. p \<in> change_path ` set chs \<longleftrightarrow> map_of fa p \<noteq> map_of fc p)
     \<and> (\<forall>ch \<in> set chs. ch_ToHash ch = map_option be_hash (map_of fc (change_path ch))))"

lemma has_file_blob: "has_file T h p e \<Longrightarrow> be_mode e \<noteq> mode_Dir"
  by (induction rule: has_file.induct) auto

lemma commitFiles_facts:
  assumes "walker_ok F (map_of (gr_trees R))" "commitFiles F R h = Inr fs"
  shows "distinct (map fst fs)" "blobs_only fs"
proof -
  obtain t where "gf_flatten F (map_of (gr_trees R)) t = Inr fs" using assms(2) by (auto simp: commitFiles_def)
  then have w: "distinct (map fst fs)" "\<forall>p e. map_of fs p = Some e \<longleftrightarrow> has_file (map_of (gr_trees R)) t p e"
    using assms(1) unfolding walker_ok_def by blast+
  then show "distinct (map fst fs)" by simp
  show "blobs_only fs" using w(2) has_file_blob unfolding blobs_only_def by blast
qed

lemma merged_files_lookup:
  assumes "walker_ok F (map_of (gr_trees R))" "merge_base F R l r = Inr base" "base \<noteq> []"
    and "commitFiles F R base = Inr b" "commitFiles F R l = Inr ours" "commitFiles F R r = Inr src"
  shows "\<exists>m. merged_files F R l r = Inr m \<and> distinct (map fst m) \<and> blobs_only m
    \<and> (\<forall>p. map_of m p = (if map_of src p \<noteq> map_of b p then map_of src p else map_of ours p))"
proof -
  note db = commitFiles_facts[OF assms(1,4)] and dh = commitFiles_facts[OF assms(1,5)] and ds = commitFiles_facts[OF assms(1,6)]
  let ?m = "applyMergeDelta (applyMergeDelta b (applyTreeDelta [] b ours)) (applyTreeDelta [] b src)"
  have run: "merged_files F R l r = Inr ?m" using assms by (simp add: merged_files_def netDelta_def)
  have look: "map_of ?m p = (if map_of src p \<noteq> map_of b p then map_of src p else map_of ours p)" for p
    by (simp add: applyMergeDelta_lookup applyTreeDelta_distinct applyTreeDelta_lookup dh(1) ds(1))
  moreover have "distinct (map fst ?m)" using db(1) by (simp add: applyMergeDelta_distinct)
  moreover have "blobs_only ?m" using dh(2) ds(2) look by (auto simp: blobs_only_def split: if_splits)
  ultimately show ?thesis using run by blast
qed

definition hash_or_none :: "blobEntry option \<Rightarrow> string" where
  "hash_or_none oe = (case oe of None \<Rightarrow> [] | Some e \<Rightarrow> be_hash e)"

lemma changedPaths_lookup:
  assumes "diff_ok F (map_of (gr_trees R))" "commitFiles F R x = Inr fa" "commitFiles F R y = Inr fc"
    "commitObject R x = Inr a" "commitObject R y = Inr c" "changedPaths F R a c = Inr ps"
  shows "map_of ps p = (if map_of fa p \<noteq> map_of fc p then Some (hash_or_none (map_of fc p)) else None)" "distinct (map fst ps)"
proof -
  obtain chs where d: "gf_diff F (map_of (gr_trees R)) (co_Tree a) (co_Tree c) = Inr chs"
    and ps: "ps = fold (\<lambda>ch. AList.update (change_path ch) (case ch_ToHash ch of None \<Rightarrow> [] | Some h \<Rightarrow> h)) chs []"
    using assms(6) by (auto simp: changedPaths_def split: sum.splits)
  have "gf_flatten F (map_of (gr_trees R)) (co_Tree a) = Inr fa" "gf_flatten F (map_of (gr_trees R)) (co_Tree c) = Inr fc"
    using assms(2-5) by (auto simp: commitFiles_def)
  then have ok: "\<And>p. p \<in> change_path ` set chs \<longleftrightarrow> map_of fa p \<noteq> map_of fc p"
    "\<forall>ch \<in> set chs. ch_ToHash ch = map_option be_hash (map_of fc (change_path ch))"
    using assms(1) d by (auto simp: diff_ok_def)
  have upd: "map_of (fold (\<lambda>ch. AList.update (change_path ch) (case ch_ToHash ch of None \<Rightarrow> [] | Some h \<Rightarrow> h)) xs acc) p =
      (if p \<in> change_path ` set xs then Some (hash_or_none (map_of fc p)) else map_of acc p)"
    if "\<forall>ch \<in> set xs. ch_ToHash ch = map_option be_hash (map_of fc (change_path ch))" for xs acc
    using that by (induction xs arbitrary: acc) (auto simp: update_conv' hash_or_none_def split: option.splits)
  show "map_of ps p = (if map_of fa p \<noteq> map_of fc p then Some (hash_or_none (map_of fc p)) else None)"
    using upd[OF ok(2), of "[]"] ok(1) by (simp add: ps)
  have "distinct (map fst (fold (\<lambda>ch. AList.update (change_path ch) (f ch)) xs acc))" if "distinct (map fst acc)" for xs acc and f :: "tree_change \<Rightarrow> string"
    using that by (induction xs arbitrary: acc) (auto simp: distinct_update)
  then show "distinct (map fst ps)" by (simp add: ps)
qed

lemma ConflictingPaths_exact:
  assumes "diff_ok F (map_of (gr_trees R))" "ConflictingPaths F R base l r = Inr cs"
    and "commitFiles F R base = Inr b" "commitFiles F R l = Inr ours" "commitFiles F R r = Inr src"
  shows "p \<in> set cs \<longleftrightarrow> map_of ours p \<noteq> map_of b p \<and> map_of src p \<noteq> map_of b p \<and> hash_or_none (map_of ours p) \<noteq> hash_or_none (map_of src p)"
proof -
  obtain cb cl cr where co: "commitObject R base = Inr cb" "commitObject R l = Inr cl" "commitObject R r = Inr cr"
    using assms(2) by (auto simp: ConflictingPaths_def)
  obtain lp where lp: "changedPaths F R cb cl = Inr lp" using assms(2) co by (cases "changedPaths F R cb cl") (simp_all add: ConflictingPaths_def)
  obtain rp where rp: "changedPaths F R cb cr = Inr rp" using assms(2) co lp by (cases "changedPaths F R cb cr") (simp_all add: ConflictingPaths_def)
  note c = co lp rp
  have cs: "cs = map fst (filter (\<lambda>(path, lh). case map_of rp path of None \<Rightarrow> False | Some rh \<Rightarrow> rh \<noteq> lh) lp)"
    using assms(2) c by (simp add: ConflictingPaths_def)
  note L = changedPaths_lookup[OF assms(1,3,4) c(1,2,4)] and Rr = changedPaths_lookup[OF assms(1,3,5) c(1,3,5)]
  have "p \<in> set cs \<longleftrightarrow> (\<exists>lh rh. map_of lp p = Some lh \<and> map_of rp p = Some rh \<and> rh \<noteq> lh)"
    using L(2) by (force simp: cs image_iff split: option.splits)
  then show ?thesis by (auto simp: L(1) Rr(1))
qed

section \<open>The merge\<close>

lemma mergedTree_meaning:
  assumes "faultless (gf_tree F)" "store_ok (gf_tree F) (gr_trees R)" "walker_ok F (map_of (gr_trees R))"
    and "merge_base F R l r = Inr base" "base \<noteq> []"
    and "commitFiles F R base = Inr b" "commitFiles F R l = Inr ours" "commitFiles F R r = Inr src"
  shows "\<exists>h R'. mergedTree F R l r = (Inr h, R')
    \<and> (\<forall>p e. has_file (map_of (gr_trees R')) h p e \<longleftrightarrow> (if map_of src p \<noteq> map_of b p then map_of src p else map_of ours p) = Some e)"
proof -
  obtain m where m: "merged_files F R l r = Inr m" "distinct (map fst m)" "blobs_only m"
    "\<forall>p. map_of m p = (if map_of src p \<noteq> map_of b p then map_of src p else map_of ours p)"
    using merged_files_lookup[OF assms(3-8)] by blast
  obtain h ts where w: "writeNestedTree (gf_tree F) m (gr_trees R) = (Inr h, ts)" "\<forall>p e. has_file (map_of ts) h p e \<longleftrightarrow> map_of m p = Some e"
    using nested_tree_meaning(1)[OF assms(1,2) m(2,3)] map_le_refl by blast
  then show ?thesis using m(1,4) by (simp add: mergedTree_def)
qed


lemma has_file_dir:
  assumes "T h = Some items" "\<forall>it \<in> set items. CHR ''/'' \<notin> set (ti_Name it)" "CHR ''/'' \<notin> set n"
  shows "has_file T h (n @ CHR ''/'' # r) e \<longleftrightarrow> (\<exists>it \<in> set items. ti_Mode it = mode_Dir \<and> ti_Name it = n \<and> has_file T (ti_Hash it) r e)"
proof -
  have eq: "m @ CHR ''/'' # s = n @ CHR ''/'' # r \<longleftrightarrow> m = n \<and> s = r" if "CHR ''/'' \<notin> set m" for m s
    using cut_append[OF that, of s] cut_append[OF assms(3), of r] by (metis option.inject prod.inject)
  have "CHR ''/'' \<in> set (n @ CHR ''/'' # r)" by simp
  then have no: "n @ CHR ''/'' # r \<noteq> ti_Name it" if "it \<in> set items" for it using assms(2) that by metis
  show ?thesis
  proof
    assume "has_file T h (n @ CHR ''/'' # r) e"
    then obtain it s where it: "it \<in> set items" "ti_Mode it = mode_Dir" "n @ CHR ''/'' # r = ti_Name it @ CHR ''/'' # s" "has_file T (ti_Hash it) s e"
      unfolding has_file_unfold[where T = T and h = h, OF assms(1)] using no by blast
    have "ti_Name it = n \<and> s = r" using eq[of "ti_Name it" s] it(1,3) assms(2) by (metis (no_types))
    then show "\<exists>it \<in> set items. ti_Mode it = mode_Dir \<and> ti_Name it = n \<and> has_file T (ti_Hash it) r e" using it by blast
  next
    assume "\<exists>it \<in> set items. ti_Mode it = mode_Dir \<and> ti_Name it = n \<and> has_file T (ti_Hash it) r e"
    then show "has_file T h (n @ CHR ''/'' # r) e" using assms(1) has_file.below by blast
  qed
qed

lemma proper_tree_excludes:
  assumes "has_file T h p e"
  shows "proper_tree T h \<Longrightarrow> \<not> has_file T h (p @ CHR ''/'' # q) e'"
  using assms
proof (induction rule: has_file.induct)
  case (leaf h items it)
  have d: "distinct (map ti_Name items)" "\<forall>it \<in> set items. CHR ''/'' \<notin> set (ti_Name it)"
    using leaf.prems leaf.hyps(1) by (auto elim: proper_tree.cases)
  then have "it' = it" if "it' \<in> set items" "ti_Name it' = ti_Name it" for it' using that leaf.hyps(2) by (simp add: distinct_map inj_on_def)
  then show ?case using has_file_dir[where T = T and h = h, OF leaf.hyps(1) d(2), of "ti_Name it" q e'] d(2) leaf.hyps(2,3) by blast
next
  case (below h items it r e)
  have d: "distinct (map ti_Name items)" "\<forall>it \<in> set items. CHR ''/'' \<notin> set (ti_Name it)" "proper_tree T (ti_Hash it)"
    using below.prems below.hyps(1-3) by (auto elim: proper_tree.cases)
  then have "it' = it" if "it' \<in> set items" "ti_Name it' = ti_Name it" for it' using that below.hyps(2) by (simp add: distinct_map inj_on_def)
  then show ?case using has_file_dir[where T = T and h = h, OF below.hyps(1) d(2), of "ti_Name it" "r @ CHR ''/'' # q" e'] d(2,3) below.hyps(2,3) below.IH by auto
qed


section \<open>The squash\<close>

text \<open>The parent's files and the commit's own, of each commit of a task.\<close>

definition task_deltas :: "git_lib_funs \<Rightarrow> repo_state \<Rightarrow> string list \<Rightarrow> (file_map \<times> file_map) list \<Rightarrow> bool" where
  "task_deltas F R = list_all2 (\<lambda>h (pa, cu). \<exists>obj. map_of (gr_commits R) h = Some obj \<and> commitFiles F R h = Inr cu
     \<and> (case co_Parents obj of [] \<Rightarrow> pa = [] | p # _ \<Rightarrow> commitFiles F R p = Inr pa))"

text \<open>The last of them that changed a path.\<close>

definition last_touch :: "(file_map \<times> file_map) list \<Rightarrow> string \<Rightarrow> blobEntry option option" where
  "last_touch ds p = (case rev (filter (\<lambda>(pa, cu). map_of cu p \<noteq> map_of pa p) ds) of [] \<Rightarrow> None | (pa, cu) # _ \<Rightarrow> Some (map_of cu p))"

lemma taskNetChanges_lookup:
  assumes "walker_ok F (map_of (gr_trees R))"
  shows "task_deltas F R hs ds \<Longrightarrow> distinct (map fst net) \<Longrightarrow>
    \<exists>d. taskNetChanges F R net hs = Inr d \<and> distinct (map fst d)
      \<and> (\<forall>p. map_of d p = (case last_touch ds p of None \<Rightarrow> map_of net p | Some x \<Rightarrow> Some x))"
proof (induction hs arbitrary: ds net)
  case Nil
  then show ?case by (simp add: task_deltas_def last_touch_def)
next
  case (Cons h hs)
  obtain pa cu ds' where ds: "ds = (pa, cu) # ds'" "task_deltas F R hs ds'"
    using Cons.prems(1) by (cases ds) (auto simp: task_deltas_def)
  obtain obj where o: "map_of (gr_commits R) h = Some obj" "commitFiles F R h = Inr cu"
    "case co_Parents obj of [] \<Rightarrow> pa = [] | p # _ \<Rightarrow> commitFiles F R p = Inr pa"
    using Cons.prems(1) by (auto simp: task_deltas_def ds(1))
  let ?net = "applyTreeDelta net pa cu"
  have dn: "distinct (map fst ?net)" using Cons.prems(2) by (rule applyTreeDelta_distinct)
  obtain d where d: "taskNetChanges F R ?net hs = Inr d" "distinct (map fst d)"
    "\<forall>p. map_of d p = (case last_touch ds' p of None \<Rightarrow> map_of ?net p | Some x \<Rightarrow> Some x)"
    using Cons.IH[OF ds(2) dn] by blast
  have run: "taskNetChanges F R net (h # hs) = Inr d" using o d(1) by (cases "co_Parents obj") simp_all
  have touch: "last_touch ds p = (case last_touch ds' p of None \<Rightarrow> if map_of cu p \<noteq> map_of pa p then Some (map_of cu p) else None | Some x \<Rightarrow> Some x)" for p
    by (auto simp: last_touch_def ds(1) split: list.splits)
  have "map_of d p = (case last_touch ds p of None \<Rightarrow> map_of net p | Some x \<Rightarrow> Some x)" for p
    using d(3)[rule_format, of p] applyTreeDelta_lookup[OF commitFiles_facts(1)[OF assms o(2)], of net pa p]
    by (simp add: touch split: option.splits)
  then show ?case using run d(2) by blast
qed

lemma last_touch_snoc:
  "last_touch (ds @ [(pa, cu)]) p = (if map_of cu p \<noteq> map_of pa p then Some (map_of cu p) else last_touch ds p)"
  by (simp add: last_touch_def)

lemma last_touch_chain:
  assumes "ds \<noteq> []" "\<forall>i. Suc i < length ds \<longrightarrow> fst (ds ! Suc i) = snd (ds ! i)"
  shows "(case last_touch ds p of None \<Rightarrow> map_of (fst (hd ds)) p | Some x \<Rightarrow> x) = map_of (snd (last ds)) p"
  using assms
proof (induction ds rule: rev_induct)
  case (snoc d ds)
  obtain pa cu where d: "d = (pa, cu)" by fastforce
  show ?case
  proof (cases "ds = []")
    case True
    then show ?thesis by (auto simp: d last_touch_def)
  next
    case False
    have "\<forall>i. Suc i < length ds \<longrightarrow> fst (ds ! Suc i) = snd (ds ! i)"
    proof (intro allI impI)
      fix i assume "Suc i < length ds"
      then show "fst (ds ! Suc i) = snd (ds ! i)" using snoc.prems(2)[rule_format, of i] by (simp add: nth_append)
    qed
    moreover have "fst ((ds @ [d]) ! length ds) = snd ((ds @ [d]) ! (length ds - 1))"
      using snoc.prems(2)[rule_format, of "length ds - 1"] False by simp
    then have "pa = snd (last ds)" using False by (simp add: d nth_append last_conv_nth)
    ultimately show ?thesis using snoc.IH False by (simp add: d last_touch_snoc split: option.splits)
  qed
qed simp

text \<open>
  C22. A squash captures the task's own net change: over the tree the task forked from, each path has
  the version of the last of the task's commits that changed it, and the base's version where none
  did, so commits of other tasks in between leave no trace. For commits that follow one another the
  squash is the tree of the last one.
\<close>

theorem squash_is_the_tasks_own_change:
  assumes lib: "faultless (gf_tree F)" "store_ok (gf_tree F) (gr_trees R)" "walker_ok F (map_of (gr_trees R))"
    and task: "hs \<noteq> []" "task_deltas F R hs ds"
  shows "\<exists>base h bt R'. squashTree F et R hs = (Inr (base, h, bt), R')
    \<and> (\<forall>p e. has_file (map_of (gr_trees R')) h p e \<longleftrightarrow> (case last_touch ds p of None \<Rightarrow> map_of (fst (hd ds)) p | Some x \<Rightarrow> x) = Some e)
    \<and> ((\<forall>i. Suc i < length ds \<longrightarrow> fst (ds ! Suc i) = snd (ds ! i)) \<longrightarrow>
        (\<forall>p e. has_file (map_of (gr_trees R')) h p e \<longleftrightarrow> map_of (snd (last ds)) p = Some e))"
proof -
  obtain h0 hs' b c0 ds' where hs: "hs = h0 # hs'" "ds = (b, c0) # ds'"
    using task by (cases hs; cases ds) (auto simp: task_deltas_def)
  obtain obj where o: "map_of (gr_commits R) h0 = Some obj" "commitFiles F R h0 = Inr c0"
    "case co_Parents obj of [] \<Rightarrow> b = [] | p # _ \<Rightarrow> commitFiles F R p = Inr b"
    using task(2) by (auto simp: task_deltas_def hs)
  obtain base where sb: "squashBase F R h0 = Inr (base, b)"
    using o by (cases "co_Parents obj") (auto simp: squashBase_def)
  have b: "distinct (map fst b)" "blobs_only b"
    using o(3) commitFiles_facts[OF lib(3)] by (cases "co_Parents obj"; auto simp: blobs_only_def)+
  obtain d where d: "taskNetChanges F R [] hs = Inr d" "distinct (map fst d)"
    and d': "\<forall>p. map_of d p = (case last_touch ds p of None \<Rightarrow> map_of ([] :: tree_delta) p | Some x \<Rightarrow> Some x)"
    using taskNetChanges_lookup[OF lib(3) task(2), of "[]"] by (metis distinct.simps(1) list.simps(8))
  let ?m = "applyMergeDelta b d"
  have m: "map_of ?m p = (case last_touch ds p of None \<Rightarrow> map_of (fst (hd ds)) p | Some x \<Rightarrow> x)" for p
    using d' by (simp add: applyMergeDelta_lookup[OF d(2)] hs(2) split: option.split)
  have files: "squash_files F R hs = Inr (base, ?m)" using sb d(1) by (simp add: squash_files_def hs(1))
  have "blobs_only ?m"
  proof -
    have "be_mode e \<noteq> mode_Dir" if x: "last_touch ds p = Some (Some e)" for p e
    proof -
      have "\<exists>pa cu. (pa, cu) \<in> set ds \<and> map_of cu p = Some e"
      proof -
        obtain pa cu rest where "rev (filter (\<lambda>(pa, cu). map_of cu p \<noteq> map_of pa p) ds) = (pa, cu) # rest" "map_of cu p = Some e"
          using x by (auto simp: last_touch_def split: list.splits)
        then show ?thesis by (metis (no_types, lifting) filter_is_subset list.set_intros(1) set_rev subsetD)
      qed
      then obtain pa cu i where "i < length ds" "ds ! i = (pa, cu)" "map_of cu p = Some e" by (metis in_set_conv_nth)
      then have "commitFiles F R (hs ! i) = Inr cu"
        using task(2) by (auto simp: task_deltas_def list_all2_conv_all_nth)
      then show ?thesis using commitFiles_facts(2)[OF lib(3)] \<open>map_of cu p = Some e\<close> by (auto simp: blobs_only_def)
    qed
    then show ?thesis using b(2) m by (auto simp: blobs_only_def hs(2) split: option.splits)
  qed
  then obtain h ts where w: "writeNestedTree (gf_tree F) ?m (gr_trees R) = (Inr h, ts)" "\<forall>p e. has_file (map_of ts) h p e \<longleftrightarrow> map_of ?m p = Some e"
    using nested_tree_meaning(1)[OF lib(1,2) applyMergeDelta_distinct[OF b(1)]] map_le_refl by blast
  have "\<forall>p. map_of ?m p = map_of (snd (last ds)) p" if "\<forall>i. Suc i < length ds \<longrightarrow> fst (ds ! Suc i) = snd (ds ! i)"
    using last_touch_chain[OF _ that] m by (simp add: hs(2))
  then show ?thesis using files w m by (simp add: squashTree_def)
qed

section \<open>A repository with a fork\<close>

text \<open>A walker for trees at most three levels deep, and the diff of what it reads.\<close>

fun flat :: "nat \<Rightarrow> (string \<rightharpoonup> tree_item list) \<Rightarrow> string \<Rightarrow> file_map option" where
  "flat 0 T h = None"
| "flat (Suc n) T h = (case T h of None \<Rightarrow> None | Some items \<Rightarrow>
     if \<forall>it \<in> set items. ti_Mode it = mode_Dir \<longrightarrow> flat n T (ti_Hash it) \<noteq> None
     then Some (concat (map (\<lambda>it. if ti_Mode it = mode_Dir
                  then map (\<lambda>(r, e). (ti_Name it @ CHR ''/'' # r, e)) (the (flat n T (ti_Hash it)))
                  else [(ti_Name it, \<lparr>be_hash = ti_Hash it, be_mode = ti_Mode it\<rparr>)]) items))
     else None)"

lemma flat_has_file: "flat n T h = Some fs \<Longrightarrow> (p, e) \<in> set fs \<longleftrightarrow> has_file T h p e"
proof (induction n arbitrary: h fs p)
  case (Suc n)
  then obtain items where T: "T h = Some items" and sub: "\<forall>it \<in> set items. ti_Mode it = mode_Dir \<longrightarrow> flat n T (ti_Hash it) \<noteq> None"
    and fs: "fs = concat (map (\<lambda>it. if ti_Mode it = mode_Dir
                  then map (\<lambda>(r, e). (ti_Name it @ CHR ''/'' # r, e)) (the (flat n T (ti_Hash it)))
                  else [(ti_Name it, \<lparr>be_hash = ti_Hash it, be_mode = ti_Mode it\<rparr>)]) items)"
    by (auto split: option.splits if_splits)
  have IH: "(r, e) \<in> set (the (flat n T (ti_Hash it))) \<longleftrightarrow> has_file T (ti_Hash it) r e" if "it \<in> set items" "ti_Mode it = mode_Dir" for it r
    using Suc.IH[of "ti_Hash it" "the (flat n T (ti_Hash it))" r] sub that by auto
  have each: "(p, e) \<in> set (if ti_Mode it = mode_Dir then map (\<lambda>(r, e). (ti_Name it @ CHR ''/'' # r, e)) (the (flat n T (ti_Hash it)))
                  else [(ti_Name it, \<lparr>be_hash = ti_Hash it, be_mode = ti_Mode it\<rparr>)]) \<longleftrightarrow>
      ti_Mode it \<noteq> mode_Dir \<and> p = ti_Name it \<and> e = \<lparr>be_hash = ti_Hash it, be_mode = ti_Mode it\<rparr> \<or>
      ti_Mode it = mode_Dir \<and> (\<exists>r. p = ti_Name it @ CHR ''/'' # r \<and> has_file T (ti_Hash it) r e)" if "it \<in> set items" for it
    using IH[OF that] by (auto simp: image_iff) force+
  have "(p, e) \<in> set fs \<longleftrightarrow> (\<exists>it \<in> set items. (p, e) \<in> set (if ti_Mode it = mode_Dir then map (\<lambda>(r, e). (ti_Name it @ CHR ''/'' # r, e)) (the (flat n T (ti_Hash it)))
                  else [(ti_Name it, \<lparr>be_hash = ti_Hash it, be_mode = ti_Mode it\<rparr>)]))" unfolding fs set_concat set_map by blast
  then show ?case unfolding has_file_unfold[where T = T and h = h, OF T] using each by blast
qed simp

definition demo_flatten :: "(string \<rightharpoonup> tree_item list) \<Rightarrow> string \<Rightarrow> file_map result" where
  "demo_flatten T h = (case flat (Suc (Suc (Suc 0))) T h of Some fs \<Rightarrow> if distinct (map fst fs) then Inr fs else Inl (Errorf ''duplicate entry'') | None \<Rightarrow> Inl (Errorf ''unreadable tree''))"

definition demo_diff :: "(string \<rightharpoonup> tree_item list) \<Rightarrow> string \<Rightarrow> string \<Rightarrow> tree_change list result" where
  "demo_diff T a c = (case demo_flatten T a of Inl e \<Rightarrow> Inl e | Inr fa \<Rightarrow> (case demo_flatten T c of Inl e \<Rightarrow> Inl e | Inr fc \<Rightarrow>
     if [] \<in> set (map fst fc) then Inl (Errorf ''empty name'')
     else Inr (map (\<lambda>p. \<lparr>ch_From = p, ch_To = (if map_of fc p = None then [] else p), ch_ToHash = map_option be_hash (map_of fc p)\<rparr>)
       (filter (\<lambda>p. map_of fa p \<noteq> map_of fc p) (remdups (map fst fa @ map fst fc))))))"

definition demo_git :: git_lib_funs where
  "demo_git = \<lparr>gf_tree = demo_tree_lib, gf_flatten = demo_flatten, gf_diff = demo_diff,
     gf_bases = (\<lambda>_ _ _. Inr [''b'']), gf_ancestor = (\<lambda>_ _ _. Inr False)\<rparr>"

lemma demo_walker_ok: "walker_ok demo_git T"
  unfolding walker_ok_def demo_git_def by (auto simp: demo_flatten_def flat_has_file simp del: flat.simps split: option.splits if_splits)

lemma demo_diff_ok: "diff_ok demo_git T"
proof -
  have cp: "change_path \<lparr>ch_From = p, ch_To = (if map_of fc p = None then [] else p), ch_ToHash = x\<rparr> = p" for p and fc :: file_map and x
    by (simp add: change_path_def)
  have "distinct (map change_path chs) \<and> (\<forall>p. p \<in> change_path ` set chs \<longleftrightarrow> map_of fa p \<noteq> map_of fc p)
     \<and> (\<forall>ch \<in> set chs. ch_ToHash ch = map_option be_hash (map_of fc (change_path ch)))"
    if "demo_flatten T a = Inr fa" "demo_flatten T c = Inr fc" "demo_diff T a c = Inr chs" for a c fa fc chs
  proof -
    have chs: "chs = map (\<lambda>p. \<lparr>ch_From = p, ch_To = (if map_of fc p = None then [] else p), ch_ToHash = map_option be_hash (map_of fc p)\<rparr>)
       (filter (\<lambda>p. map_of fa p \<noteq> map_of fc p) (remdups (map fst fa @ map fst fc)))"
      using that by (auto simp: demo_diff_def split: if_splits)
    have paths: "map change_path chs = filter (\<lambda>p. map_of fa p \<noteq> map_of fc p) (remdups (map fst fa @ map fst fc))"
      by (simp add: chs comp_def cp)
    have "p \<in> fst ` set fa \<union> fst ` set fc" if "map_of fa p \<noteq> map_of fc p" for p using that by (metis UnCI map_of_eq_None_iff)
    then have "p \<in> change_path ` set chs \<longleftrightarrow> map_of fa p \<noteq> map_of fc p" for p
      using arg_cong[OF paths, of set] by auto
    then show ?thesis using paths by (auto simp: chs cp)
  qed
  then show ?thesis unfolding diff_ok_def demo_git_def git_lib_funs.select_convs by blast
qed

definition item :: "string \<Rightarrow> string \<Rightarrow> tree_item" where
  "item name h = \<lparr>ti_Name = name, ti_Mode = mode_Regular, ti_Hash = h\<rparr>"

definition blob :: "string \<Rightarrow> blobEntry" where
  "blob h = \<lparr>be_hash = h, be_mode = mode_Regular\<rparr>"

abbreviation (input) demo_hash :: "tree_item list \<Rightarrow> string" where "demo_hash \<equiv> tl_hash demo_tree_lib"

text \<open>From \<open>b\<close>, with a file \<open>a\<close>: \<open>l\<close> adds a file \<open>d\<close>, \<open>m\<close> changes \<open>a\<close>, and \<open>r\<close> adds a file \<open>d/x\<close>.\<close>

definition demo_trees :: "tree_item list list" where
  "demo_trees = [[item ''a'' ''1''], [item ''a'' ''1'', item ''d'' ''2''], [item ''a'' ''4''], [item ''x'' ''3''],
     [item ''a'' ''1'', \<lparr>ti_Name = ''d'', ti_Mode = mode_Dir, ti_Hash = demo_hash [item ''x'' ''3'']\<rparr>]]"

definition demo_repo :: repo_state where
  "demo_repo = \<lparr>gr_trees = map (\<lambda>t. (demo_hash t, t)) demo_trees,
     gr_commits = [(''b'', \<lparr>co_Tree = demo_hash (demo_trees ! 0), co_Parents = []\<rparr>),
       (''l'', \<lparr>co_Tree = demo_hash (demo_trees ! 1), co_Parents = [''b'']\<rparr>),
       (''m'', \<lparr>co_Tree = demo_hash (demo_trees ! 2), co_Parents = [''b'']\<rparr>),
       (''r'', \<lparr>co_Tree = demo_hash (demo_trees ! 4), co_Parents = [''b'']\<rparr>)], gr_refs = []\<rparr>"

lemma demo_hash_inj: "inj demo_hash"
  using demo_tree_lib_ok by (simp add: faultless_def)

lemma demo_tree_at: "t \<in> set ts \<Longrightarrow> map_of (map (\<lambda>t. (demo_hash t, t)) ts) (demo_hash t) = Some t"
  by (induction ts) (auto dest: injD[OF demo_hash_inj])

lemma demo_store_ok: "store_ok demo_tree_lib (gr_trees demo_repo)"
proof -
  have "h = demo_hash s" if "map_of (map (\<lambda>t. (demo_hash t, t)) ts) h = Some s" for h s ts
    using map_of_SomeD[OF that] by auto
  then show ?thesis unfolding store_ok_def demo_repo_def repo_state.select_convs by blast
qed

lemma demo_tree_reads: "map_of (gr_trees demo_repo) (demo_hash t) = Some t" if "t \<in> set demo_trees"
  using demo_tree_at[OF that] by (simp add: demo_repo_def)

lemma demo_commitFiles:
  "commitFiles demo_git demo_repo ''b'' = Inr [(''a'', blob ''1'')]"
  "commitFiles demo_git demo_repo ''l'' = Inr [(''a'', blob ''1''), (''d'', blob ''2'')]"
  "commitFiles demo_git demo_repo ''m'' = Inr [(''a'', blob ''4'')]"
  "commitFiles demo_git demo_repo ''r'' = Inr [(''a'', blob ''1''), (''d/x'', blob ''3'')]"
proof -
  have co: "commitFiles demo_git demo_repo h = demo_flatten (map_of (gr_trees demo_repo)) (demo_hash t)"
    if "map_of (gr_commits demo_repo) h = Some \<lparr>co_Tree = demo_hash t, co_Parents = ps\<rparr>" for h t ps
    using that by (simp add: commitFiles_def commitObject_def demo_git_def)
  note r = demo_tree_reads[unfolded demo_trees_def, simplified]
  show "commitFiles demo_git demo_repo ''b'' = Inr [(''a'', blob ''1'')]"
    by (subst co[of _ "demo_trees ! 0" "[]"]) (simp_all add: demo_repo_def[THEN arg_cong[where f = gr_commits]] demo_flatten_def r demo_trees_def item_def blob_def)
  show "commitFiles demo_git demo_repo ''l'' = Inr [(''a'', blob ''1''), (''d'', blob ''2'')]"
    by (subst co[of _ "demo_trees ! 1" "[''b'']"]) (simp_all add: demo_repo_def[THEN arg_cong[where f = gr_commits]] demo_flatten_def r demo_trees_def item_def blob_def)
  show "commitFiles demo_git demo_repo ''m'' = Inr [(''a'', blob ''4'')]"
    by (subst co[of _ "demo_trees ! 2" "[''b'']"]) (simp_all add: demo_repo_def[THEN arg_cong[where f = gr_commits]] demo_flatten_def r demo_trees_def item_def blob_def)
  show "commitFiles demo_git demo_repo ''r'' = Inr [(''a'', blob ''1''), (''d/x'', blob ''3'')]"
    by (subst co[of _ "demo_trees ! 4" "[''b'']"]) (simp_all add: demo_repo_def[THEN arg_cong[where f = gr_commits]] demo_flatten_def r demo_trees_def item_def blob_def)
qed

lemma demo_base: "merge_base demo_git demo_repo ''m'' ''r'' = Inr ''b''" "merge_base demo_git demo_repo ''l'' ''r'' = Inr ''b''"
  by (simp_all add: merge_base_def commitObject_def demo_repo_def demo_git_def)

lemma demo_lib: "faultless (gf_tree demo_git)" "store_ok (gf_tree demo_git) (gr_trees demo_repo)"
  using demo_tree_lib_ok demo_store_ok by (simp_all add: demo_git_def)



theorem squash_is_the_tasks_own_change_witness:
  "\<exists>base h bt R'. squashTree demo_git ''e'' demo_repo [''r''] = (Inr (base, h, bt), R')
    \<and> has_file (map_of (gr_trees R')) h ''d/x'' (blob ''3'')"
proof -
  have "task_deltas demo_git demo_repo [''r''] [([(''a'', blob ''1'')], [(''a'', blob ''1''), (''d/x'', blob ''3'')])]"
    using demo_commitFiles(1,4) by (simp add: task_deltas_def demo_repo_def[THEN arg_cong[where f = gr_commits]])
  from squash_is_the_tasks_own_change[OF demo_lib demo_walker_ok _ this, of "''e''"]
  show ?thesis by (auto simp: blob_def)
qed

end
