(* ===== verification/Git_Worktree.thy ===== *)
theory Git_Worktree
  imports Git_Merge Worktree_Delivery
begin

text \<open>
  The project's files (\<open>internal/store/git/worktree.go\<close>, \<open>worktree_fs.go\<close>): the walk over them,
  status against the tree at HEAD and the staging area, checkout and clean. The project is a
  directory of the host's disk. Reading a blob, hashing one, the ignore rules, the hash of a new
  commit, a failure to clear the staging file and the list of the files mgit generated are
  arguments (\<open>wt_env\<close>). Refusals by the system other than those of \<open>Host_Disk\<close> are left out.
\<close>

section \<open>Paths and files\<close>

record wt_env =
  we_root :: "string list"
  we_blob :: "string \<Rightarrow> byte list result"
  we_sha :: "byte list \<Rightarrow> string"
  we_hides :: "string \<Rightarrow> bool \<Rightarrow> bool"
  we_generated :: "string list"
  we_commit :: "commit_obj \<Rightarrow> string \<Rightarrow> string result"
  we_clear :: "err option"

record wt_state =
  wk_repo :: repo_state
  wk_head :: string
  wk_staged :: "string list"
  wk_disk :: disk

definition excludedNames :: "string list" where
  "excludedNames = [''.mgit'', ''.git'']"

definition isExcludedPath :: "string \<Rightarrow> bool" where
  "isExcludedPath rel = list_ex (\<lambda>part. part \<in> set excludedNames) (split_on CHR ''/'' rel)"

definition validateRelPath :: "string \<Rightarrow> err option" where
  "validateRelPath rel =
     (if rel = [] then Some (Errorf ''path must not be empty'')
      else (let clean = path_clean rel in
        if path_is_abs rel \<or> prefix ''../'' clean \<or> clean = ''..'' then Some (Errorf ''path escapes project root'')
        else if isExcludedPath clean then Some (Errorf ''path is in an excluded directory'')
        else None))"

definition work_path :: "wt_env \<Rightarrow> string \<Rightarrow> string list" where
  "work_path E rel = path_comps (filepath_join [abs_path (we_root E), rel])"

definition headFiles :: "git_lib_funs \<Rightarrow> wt_state \<Rightarrow> file_map result" where
  "headFiles F st = (case map_of (gr_refs (wk_repo st)) (wk_head st) of
     None \<Rightarrow> Inl (Wrap ''resolve HEAD'' (Errorf ''reference not found''))
   | Some h \<Rightarrow> commitFiles F (wk_repo st) h)"

definition workingFileContent :: "wt_env \<Rightarrow> disk \<Rightarrow> string \<Rightarrow> (byte list \<times> 32 word) result" where
  "workingFileContent E D rel =
     (case validateRelPath rel of
        Some e \<Rightarrow> Inl e
      | None \<Rightarrow>
          (case os_Lstat D (work_path E rel) of
             Inl e \<Rightarrow> Inl (Wrap ''stat working file'' e)
           | Inr (Symlink t) \<Rightarrow> Inr (map of_char t, mode_Symlink)
           | Inr Directory \<Rightarrow> Inl (Wrap ''read working file'' EISDIR)
           | Inr (Regular perm data) \<Rightarrow> Inr (data, if and perm 0x40 \<noteq> 0 then mode_Executable else mode_Regular)))"

definition blobHashOfWorkingFile :: "wt_env \<Rightarrow> disk \<Rightarrow> string \<Rightarrow> string result" where
  "blobHashOfWorkingFile E D rel = bind_result (workingFileContent E D rel) (\<lambda>(data, _). Inr (we_sha E data))"

text \<open>
  The walk: a file counts when neither it nor a directory above it is excluded, hidden by the
  ignore rules, or the root of another mgit tree.
\<close>

definition skipped_dir :: "wt_env \<Rightarrow> disk \<Rightarrow> string list \<Rightarrow> bool" where
  "skipped_dir E D ws \<longleftrightarrow> last ws \<in> set excludedNames \<or> map_of D (we_root E @ ws @ [''.mgit'']) \<noteq> None
     \<or> we_hides E (join_with CHR ''/'' ws) True"

definition listed :: "wt_env \<Rightarrow> disk \<Rightarrow> string \<Rightarrow> bool" where
  "listed E D rel \<longleftrightarrow> (let ws = split_on CHR ''/'' rel in
     last ws \<notin> set excludedNames \<and> \<not> we_hides E rel False \<and>
     list_all (\<lambda>n. \<not> skipped_dir E D (take n ws)) [1 ..< length ws])"

definition listWorkingFiles :: "wt_env \<Rightarrow> disk \<Rightarrow> string list" where
  "listWorkingFiles E D = filter (listed E D) (map fst (walk_tree (we_root E) D))"

section \<open>Status\<close>

datatype status_code = StatusUnmodified | StatusUntracked | StatusAdded | StatusModified | StatusDeleted

record FileStatus =
  fs_Path :: string
  fs_Staging :: status_code
  fs_Worktree :: status_code

definition classifyWorkingPath :: "wt_env \<Rightarrow> disk \<Rightarrow> file_map \<Rightarrow> string list \<Rightarrow> string \<Rightarrow> FileStatus option result" where
  "classifyWorkingPath E D head staged path =
     bind_result (blobHashOfWorkingFile E D path) (\<lambda>wtHash.
       (let inHead = (map_of head path \<noteq> None);
            changed = (map_option be_hash (map_of head path) \<noteq> Some wtHash) in
        if path \<in> set staged then
          Inr (Some \<lparr>fs_Path = path, fs_Staging = (if inHead then StatusModified else StatusAdded), fs_Worktree = StatusUnmodified\<rparr>)
        else if \<not> inHead then Inr (Some \<lparr>fs_Path = path, fs_Staging = StatusUnmodified, fs_Worktree = StatusUntracked\<rparr>)
        else if changed then Inr (Some \<lparr>fs_Path = path, fs_Staging = StatusUnmodified, fs_Worktree = StatusModified\<rparr>)
        else Inr None))"

fun classify_all :: "wt_env \<Rightarrow> disk \<Rightarrow> file_map \<Rightarrow> string list \<Rightarrow> string list \<Rightarrow> FileStatus list result" where
  "classify_all E D head staged [] = Inr []"
| "classify_all E D head staged (p # ps) =
     bind_result (classifyWorkingPath E D head staged p) (\<lambda>f.
     bind_result (classify_all E D head staged ps) (\<lambda>fs.
       Inr (case f of None \<Rightarrow> fs | Some s \<Rightarrow> s # fs)))"

definition gone_status :: "string list \<Rightarrow> string list \<Rightarrow> file_map \<Rightarrow> FileStatus list" where
  "gone_status working staged head =
     map (\<lambda>(path, _). \<lparr>fs_Path = path, fs_Staging = (if path \<in> set staged then StatusDeleted else StatusUnmodified),
                        fs_Worktree = StatusDeleted\<rparr>) (filter (\<lambda>(path, _). path \<notin> set working) head)"

definition wt_Status :: "git_lib_funs \<Rightarrow> wt_env \<Rightarrow> wt_state \<Rightarrow> FileStatus list result" where
  "wt_Status F E st =
     bind_result (headFiles F st) (\<lambda>head.
       (let working = listWorkingFiles E (wk_disk st) in
        bind_result (classify_all E (wk_disk st) head (wk_staged st) working) (\<lambda>fs.
          Inr (fs @ gone_status working (wk_staged st) head))))"

definition IsClean :: "git_lib_funs \<Rightarrow> wt_env \<Rightarrow> wt_state \<Rightarrow> (bool \<times> string list) result" where
  "IsClean F E st =
     bind_result (wt_Status F E st) (\<lambda>files.
       (let dirty = map fs_Path (filter (\<lambda>f. \<not> (has_prefix (fs_Path f) ''.mgit/'' \<or> fs_Path f = ''.mgit'')
              \<and> (fs_Staging f \<noteq> StatusUnmodified \<or> fs_Worktree f \<noteq> StatusUnmodified)) files) in
        Inr (dirty = [], dirty)))"

definition dirtyTrackedPaths :: "git_lib_funs \<Rightarrow> wt_env \<Rightarrow> wt_state \<Rightarrow> string list result" where
  "dirtyTrackedPaths F E st =
     bind_result (wt_Status F E st) (\<lambda>files.
       Inr (map fs_Path (filter (\<lambda>f. fs_Staging f \<noteq> StatusUnmodified \<or> fs_Worktree f = StatusModified) files)))"

section \<open>Writing the working tree\<close>

definition put_leaf :: "blobEntry \<Rightarrow> byte list \<Rightarrow> string list \<Rightarrow> disk \<Rightarrow> err option \<times> disk" where
  "put_leaf entry data ws D =
     (if be_mode entry = mode_Symlink then
        (case os_Symlink (map (\<lambda>b. char_of (unat b)) data) ws D of
           (Some e, D1) \<Rightarrow> (Some (Wrap ''write symlink'' e), D1) | (None, D1) \<Rightarrow> (None, D1))
      else (case open_trunc_nofollow ws (if be_mode entry = mode_Executable then 0x1C0 else 0x180) D of
           (Inl e, D1) \<Rightarrow> (Some (Wrap ''write working file'' e), D1)
         | (Inr r, D1) \<Rightarrow> (None, AList.update r (case map_of D1 r of Some (Regular p _) \<Rightarrow> Regular p data | _ \<Rightarrow> Regular 0 data) D1)))"

definition writeEntryToDir :: "wt_env \<Rightarrow> string \<Rightarrow> blobEntry \<Rightarrow> disk \<Rightarrow> err option \<times> disk" where
  "writeEntryToDir E rel entry D =
     (case validateRelPath rel of
        Some e \<Rightarrow> (Some e, D)
      | None \<Rightarrow>
          (case we_blob E (be_hash entry) of
             Inl e \<Rightarrow> (Some (Wrap ''materialize'' e), D)
           | Inr data \<Rightarrow>
               (let ws = work_path E rel in
                case os_MkdirAll (butlast ws) D of
                  (Some e, D1) \<Rightarrow> (Some (Wrap ''mkdir'' e), D1)
                | (None, D1) \<Rightarrow>
                    (case os_Remove ws D1 of
                       (Some e, D2) \<Rightarrow> if IsNotExist e then put_leaf entry data ws D2 else (Some (Wrap ''replace working file'' e), D2)
                     | (None, D2) \<Rightarrow> put_leaf entry data ws D2))))"

fun write_entries :: "wt_env \<Rightarrow> file_map \<Rightarrow> disk \<Rightarrow> err option \<times> disk" where
  "write_entries E [] D = (None, D)"
| "write_entries E (x # xs) D =
     (case writeEntryToDir E (fst x) (snd x) D of
        (Some e, D1) \<Rightarrow> (Some e, D1)
      | (None, D1) \<Rightarrow> write_entries E xs D1)"

fun remove_gone :: "wt_env \<Rightarrow> file_map \<Rightarrow> file_map \<Rightarrow> disk \<Rightarrow> err option \<times> disk" where
  "remove_gone E target [] D = (None, D)"
| "remove_gone E target (x # xs) D =
     (if map_of target (fst x) \<noteq> None then remove_gone E target xs D
      else (case os_Remove (work_path E (fst x)) D of
        (Some e, D1) \<Rightarrow> if IsNotExist e then remove_gone E target xs D1 else (Some (Wrap ''remove'' e), D1)
      | (None, D1) \<Rightarrow> remove_gone E target xs D1))"

definition materializeCommit :: "git_lib_funs \<Rightarrow> wt_env \<Rightarrow> repo_state \<Rightarrow> string \<Rightarrow> file_map \<Rightarrow> disk \<Rightarrow> err option \<times> disk" where
  "materializeCommit F E R commitHash currentHead D =
     (case commitFiles F R commitHash of
        Inl e \<Rightarrow> (Some (Wrap ''flatten target tree'' e), D)
      | Inr target \<Rightarrow>
          (case find (\<lambda>x. validateRelPath (fst x) \<noteq> None) target of
             Some x \<Rightarrow> (map_option (Wrap ''invalid target path'') (validateRelPath (fst x)), D)
           | None \<Rightarrow>
               (case write_entries E target D of
                  (Some e, D1) \<Rightarrow> (Some e, D1)
                | (None, D1) \<Rightarrow> remove_gone E target currentHead D1)))"

definition wt_Checkout :: "git_lib_funs \<Rightarrow> wt_env \<Rightarrow> string \<Rightarrow> wt_state \<Rightarrow> err option \<times> wt_state" where
  "wt_Checkout F E branchName st =
     (case map_of (gr_refs (wk_repo st)) branchName of
        None \<Rightarrow> (Some (Wrap branchName (Sentinel ErrBranchNotFound)), st)
      | Some h \<Rightarrow>
          (case dirtyTrackedPaths F E st of
             Inl e \<Rightarrow> (Some (Wrap ''checkout'' e), st)
           | Inr dirty \<Rightarrow>
               if dirty \<noteq> [] then (Some (Wrap ''checkout would overwrite uncommitted changes'' (Sentinel ErrRollbackConflict)), st)
               else (case headFiles F st of
                 Inl e \<Rightarrow> (Some (Wrap ''checkout'' e), st)
               | Inr currentHead \<Rightarrow>
                   (case materializeCommit F E (wk_repo st) h currentHead (wk_disk st) of
                      (Some e, D) \<Rightarrow> (Some (Wrap ''checkout'' e), st\<lparr>wk_disk := D\<rparr>)
                    | (None, D) \<Rightarrow> (None, st\<lparr>wk_disk := D, wk_head := branchName, wk_staged := []\<rparr>)))))"

fun clean_loop :: "wt_env \<Rightarrow> FileStatus list \<Rightarrow> disk \<Rightarrow> err option \<times> disk" where
  "clean_loop E [] D = (None, D)"
| "clean_loop E (f # fs) D =
     (if fs_Worktree f \<noteq> StatusUntracked then clean_loop E fs D
      else (case os_Remove (work_path E (fs_Path f)) D of
        (Some e, D1) \<Rightarrow> if IsNotExist e then clean_loop E fs D1 else (Some (Wrap ''clean'' e), D1)
      | (None, D1) \<Rightarrow> clean_loop E fs D1))"

definition wt_Clean :: "git_lib_funs \<Rightarrow> wt_env \<Rightarrow> wt_state \<Rightarrow> err option \<times> wt_state" where
  "wt_Clean F E st = (case wt_Status F E st of
     Inl e \<Rightarrow> (Some (Wrap ''clean'' e), st)
   | Inr files \<Rightarrow> (case clean_loop E files (wk_disk st) of (r, D) \<Rightarrow> (r, st\<lparr>wk_disk := D\<rparr>)))"

section \<open>Uncommitted work\<close>

lemma classify_all_dirty:
  assumes "classify_all E D head staged ps = Inr fs" "p \<in> set ps" "map_of head p = Some e"
    and "workingFileContent E D p = Inr (data, mode)" "we_sha E data \<noteq> be_hash e"
  shows "\<exists>f \<in> set fs. fs_Path f = p \<and> (fs_Staging f \<noteq> StatusUnmodified \<or> fs_Worktree f = StatusModified)"
  using assms(1,2)
proof (induction ps arbitrary: fs)
  case (Cons q ps)
  from Cons.prems(1) obtain f gs where f: "classifyWorkingPath E D head staged q = Inr f" "classify_all E D head staged ps = Inr gs"
    "fs = (case f of None \<Rightarrow> gs | Some s \<Rightarrow> s # gs)" by auto
  show ?case
  proof (cases "q = p")
    case True
    then obtain s where "f = Some s" "fs_Path s = p" "fs_Staging s \<noteq> StatusUnmodified \<or> fs_Worktree s = StatusModified"
      using f(1) assms(3-5) by (auto simp: classifyWorkingPath_def blobHashOfWorkingFile_def Let_def split: if_splits)
    then show ?thesis using f(3) by auto
  next
    case False
    then show ?thesis using Cons f by (auto split: option.splits)
  qed
qed simp

lemma dirtyTrackedPaths_dirty:
  assumes "headFiles F st = Inr head" "p \<in> set (listWorkingFiles E (wk_disk st))" "map_of head p = Some e"
    and "workingFileContent E (wk_disk st) p = Inr (data, mode)" "we_sha E data \<noteq> be_hash e"
  shows "(\<exists>e. dirtyTrackedPaths F E st = Inl e) \<or> (\<exists>ds. dirtyTrackedPaths F E st = Inr ds \<and> p \<in> set ds)"
proof (cases "classify_all E (wk_disk st) head (wk_staged st) (listWorkingFiles E (wk_disk st))")
  case (Inl e)
  then show ?thesis using assms(1) by (auto simp: dirtyTrackedPaths_def wt_Status_def Let_def)
next
  case (Inr fs)
  then show ?thesis using classify_all_dirty[OF Inr assms(2-5)] assms(1)
    by (auto simp: dirtyTrackedPaths_def wt_Status_def Let_def image_iff)
qed


section \<open>A checkout that succeeds\<close>

definition wt_node :: "blobEntry \<Rightarrow> byte list \<Rightarrow> node" where
  "wt_node entry data = (if be_mode entry = mode_Symlink then Symlink (map (\<lambda>b. char_of (unat b)) data)
     else Regular (if be_mode entry = mode_Executable then 0x1C0 else 0x180) data)"

lemma work_path_place: "names_ok (we_root E) \<Longrightarrow> rel_ok rel \<Longrightarrow> work_path E rel = place (we_root E) rel"
proof -
  assume a: "names_ok (we_root E)" "rel_ok rel"
  have "filepath_join [abs_path (we_root E), rel] = abs_path (place (we_root E) rel)"
    using filepath_join_abs[of "we_root E" "split_on CHR ''/'' rel"] a by (simp add: rel_ok_def place_def)
  then show ?thesis using path_comps_place[OF a] by (simp add: work_path_def)
qed

lemma remove_then_put:
  assumes "os_Remove ws D = (r, D1)" "r = None \<or> (\<exists>e. r = Some e \<and> IsNotExist e)" "put_leaf entry data ws D1 = (None, D')" "plain_name D ws"
  shows "changes_at {ws} D D' \<and> map_of D' ws = Some (wt_node entry data)"
proof -
  have ch1: "changes_at {ws} D D1" using os_Remove_changes[OF assms(1) plain_name_real[OF assms(4)]] .
  have pn: "plain_name D1 ws" by (rule plain_name_keep[OF assms(4) ch1]) auto
  have gone: "map_of D1 ws = None" if "real_name D1 ws = Inr ws"
  proof (cases "real_name D ws")
    case (Inr r')
    then have "r' = ws" using plain_name_real[OF assms(4)] by auto
    then show ?thesis using assms(1,2) Inr by (auto simp: os_Remove_def delete_conv' IsNotExist_def split: option.splits if_splits)
  next
    case (Inl e)
    then have "D1 = D" using assms(1) by (simp add: os_Remove_def)
    then show ?thesis using that Inl by simp
  qed
  have nm: "real_name D1 ws = Inr ws"
    using assms(3) plain_name_real[OF pn] by (auto simp: put_leaf_def os_Symlink_def open_trunc_nofollow_def split: if_splits)
  have "D' = AList.update ws (wt_node entry data) D1 \<or> map_of D' = (map_of D1)(ws \<mapsto> wt_node entry data)"
    using assms(3) nm gone[OF nm]
    by (auto simp: put_leaf_def os_Symlink_def open_trunc_nofollow_def wt_node_def update_conv' split: if_splits)
  then have m: "map_of D' = (map_of D1)(ws \<mapsto> wt_node entry data)" by (auto simp: update_conv')
  then have "changes_at {ws} D1 D'" by (auto simp: changes_at_def)
  then show ?thesis using changes_at_trans_same[OF ch1] m by simp
qed

lemma writeEntryToDir_ok:
  assumes "writeEntryToDir E rel entry D = (None, D')" "names_ok (we_root E)" "rel_ok rel" "plain_name D (place (we_root E) rel)"
  shows "changes_at {place (we_root E) rel} D D' \<and> (\<exists>data. we_blob E (be_hash entry) = Inr data \<and> map_of D' (place (we_root E) rel) = Some (wt_node entry data))"
proof -
  let ?ws = "place (we_root E) rel"
  note wp = work_path_place[OF assms(2,3)]
  have v: "validateRelPath rel = None" using assms(1) by (auto simp: writeEntryToDir_def split: option.splits)
  obtain data where bl: "we_blob E (be_hash entry) = Inr data" using assms(1) v by (cases "we_blob E (be_hash entry)") (auto simp: writeEntryToDir_def)
  obtain rm D1 where mk: "os_MkdirAll (butlast ?ws) D = (rm, D1)" by fastforce
  then have "rm = None" using assms(1) v bl wp by (cases rm) (auto simp: writeEntryToDir_def Let_def)
  obtain r D2 where rmv: "os_Remove ?ws D1 = (r, D2)" by fastforce
  have ch0: "changes_at {} D D1" using mk by (rule os_MkdirAll_changes)
  have pn: "plain_name D1 ?ws" by (rule plain_name_keep[OF assms(4) ch0]) simp
  have put: "(r = None \<or> (\<exists>e. r = Some e \<and> IsNotExist e)) \<and> put_leaf entry data ?ws D2 = (None, D')"
    using assms(1) v bl mk \<open>rm = None\<close> rmv wp by (auto simp: writeEntryToDir_def Let_def split: option.splits if_splits)
  then have "changes_at {?ws} D1 D' \<and> map_of D' ?ws = Some (wt_node entry data)"
    using remove_then_put[OF rmv _ _ pn] by blast
  moreover have "changes_at {?ws} D D1" using ch0 by (rule changes_at_mono) simp
  ultimately show ?thesis using changes_at_trans_same bl by blast
qed

lemma write_entries_ok:
  assumes "names_ok (we_root E)"
  shows "write_entries E xs D = (None, D') \<Longrightarrow> distinct (map fst xs) \<Longrightarrow> apart (map fst xs) \<Longrightarrow>
    \<forall>p \<in> fst ` set xs. rel_ok p \<and> plain_name D (place (we_root E) p) \<Longrightarrow>
    changes_at (place (we_root E) ` fst ` set xs) D D'
    \<and> (\<forall>(p, entry) \<in> set xs. \<exists>data. we_blob E (be_hash entry) = Inr data \<and> map_of D' (place (we_root E) p) = Some (wt_node entry data))"
proof (induction xs arbitrary: D)
  case (Cons x xs)
  let ?pl = "place (we_root E)"
  obtain p entry where x: "x = (p, entry)" by fastforce
  obtain D1 where w: "writeEntryToDir E p entry D = (None, D1)" "write_entries E xs D1 = (None, D')"
    using Cons.prems(1) x by (auto split: prod.splits option.splits)
  have pok: "rel_ok p" "plain_name D (?pl p)" using Cons.prems(4) x by auto
  obtain data where one: "changes_at {?pl p} D D1" "we_blob E (be_hash entry) = Inr data" "map_of D1 (?pl p) = Some (wt_node entry data)"
    using writeEntryToDir_ok[OF w(1) assms pok] by blast
  have ap: "apart (map fst xs)" using Cons.prems(3) by (auto simp: apart_def)
  have "\<forall>q \<in> fst ` set xs. rel_ok q \<and> plain_name D1 (?pl q)"
  proof
    fix q assume q: "q \<in> fst ` set xs"
    then have "rel_ok q" "plain_name D (?pl q)" using Cons.prems(4) by auto
    moreover have "\<forall>a. strict_prefix a (?pl q) \<longrightarrow> a \<notin> {?pl p}"
      using Cons.prems(3) q x by (auto simp: apart_def place_def strict_prefix_append)
    ultimately show "rel_ok q \<and> plain_name D1 (?pl q)" using plain_name_keep[OF _ one(1)] by blast
  qed
  then have rest: "changes_at (?pl ` fst ` set xs) D1 D'"
    "\<forall>(q, en) \<in> set xs. \<exists>data. we_blob E (be_hash en) = Inr data \<and> map_of D' (?pl q) = Some (wt_node en data)"
    using Cons.IH[OF w(2) _ ap] Cons.prems(2) by auto
  have "?pl p \<notin> ?pl ` fst ` set xs" using Cons.prems(2) x by (auto simp: place_inj)
  then have "map_of D' (?pl p) = Some (wt_node entry data)" using changes_at_leaf[OF rest(1)] one(3) by blast
  moreover have "changes_at (?pl ` fst ` set (x # xs)) D D'"
    using changes_at_trans[OF one(1) rest(1)] by (rule changes_at_mono) (auto simp: x)
  ultimately show ?case using rest(2) one(2) x by auto
qed simp

lemma remove_gone_changes:
  assumes "names_ok (we_root E)"
  shows "remove_gone E target xs D = (r, D') \<Longrightarrow> apart (map fst xs) \<Longrightarrow>
    \<forall>p \<in> fst ` set xs. rel_ok p \<and> plain_name D (place (we_root E) p) \<Longrightarrow>
    changes_at (place (we_root E) ` {p \<in> fst ` set xs. map_of target p = None}) D D'"
proof (induction xs arbitrary: D)
  case (Cons x xs)
  let ?pl = "place (we_root E)" and ?P = "\<lambda>xs. place (we_root E) ` {p \<in> fst ` set xs. map_of target p = None}"
  have ap: "apart (map fst xs)" using Cons.prems(2) by (auto simp: apart_def)
  have pok: "rel_ok (fst x)" "plain_name D (?pl (fst x))" using Cons.prems(3) by auto
  show ?case
  proof (cases "map_of target (fst x) = None")
    case False
    then have "changes_at (?P xs) D D'" using Cons.IH[OF _ ap] Cons.prems(1,3) by simp
    then show ?thesis by (rule changes_at_mono) auto
  next
    case True
    obtain r1 D1 where rm: "os_Remove (?pl (fst x)) D = (r1, D1)" by fastforce
    have ch: "changes_at {?pl (fst x)} D D1" using os_Remove_changes[OF rm plain_name_real[OF pok(2)]] .
    have "\<forall>q \<in> fst ` set xs. rel_ok q \<and> plain_name D1 (?pl q)"
    proof
      fix q assume q: "q \<in> fst ` set xs"
      then have "rel_ok q" "plain_name D (?pl q)" using Cons.prems(3) by auto
      moreover have "\<forall>a. strict_prefix a (?pl q) \<longrightarrow> a \<notin> {?pl (fst x)}"
        using Cons.prems(2) q by (auto simp: apart_def place_def strict_prefix_append)
      ultimately show "rel_ok q \<and> plain_name D1 (?pl q)" using plain_name_keep[OF _ ch] by blast
    qed
    then have "D' = D1 \<or> changes_at (?P xs) D1 D'"
      using Cons.IH[OF _ ap, of D1] Cons.prems(1) True rm work_path_place[OF assms pok(1)] by (auto split: option.splits if_splits)
    then have "changes_at (?P xs) D1 D'" by auto
    from changes_at_trans[OF ch this] show ?thesis by (rule changes_at_mono) (use True in auto)
  qed
qed simp

lemma materializeCommit_ok:
  assumes "materializeCommit F E R h head D = (None, D')" "commitFiles F R h = Inr target"
    and "names_ok (we_root E)" "distinct (map fst target)" "apart (map fst target @ map fst head)"
    "\<forall>p \<in> fst ` (set target \<union> set head). rel_ok p \<and> plain_name D (place (we_root E) p)"
  shows "\<forall>(p, entry) \<in> set target. \<exists>data. we_blob E (be_hash entry) = Inr data \<and> map_of D' (place (we_root E) p) = Some (wt_node entry data)"
    "changes_at (place (we_root E) ` fst ` (set target \<union> set head)) D D'"
proof -
  let ?pl = "place (we_root E)"
  have "find (\<lambda>x. validateRelPath (fst x) \<noteq> None) target = None"
  proof (rule ccontr)
    assume "find (\<lambda>x. validateRelPath (fst x) \<noteq> None) target \<noteq> None"
    then obtain y where y: "find (\<lambda>x. validateRelPath (fst x) \<noteq> None) target = Some y" by blast
    then have "validateRelPath (fst y) \<noteq> None" by (auto simp: find_Some_iff)
    then show False using assms(1,2) y by (simp add: materializeCommit_def)
  qed
  then obtain D1 where w: "write_entries E target D = (None, D1)" "remove_gone E target head D1 = (None, D')"
    using assms(1,2) by (auto simp: materializeCommit_def split: prod.splits option.splits)
  have ap: "apart (map fst target)" "apart (map fst head)" using assms(5) by (auto simp: apart_def)
  have e: "changes_at (?pl ` fst ` set target) D D1"
    "\<forall>(p, entry) \<in> set target. \<exists>data. we_blob E (be_hash entry) = Inr data \<and> map_of D1 (?pl p) = Some (wt_node entry data)"
    using write_entries_ok[OF assms(3) w(1) assms(4) ap(1)] assms(6) by blast+
  have "\<forall>q \<in> fst ` set head. rel_ok q \<and> plain_name D1 (?pl q)"
  proof
    fix q assume q: "q \<in> fst ` set head"
    then have "rel_ok q" "plain_name D (?pl q)" using assms(6) by auto
    moreover have "\<forall>a. strict_prefix a (?pl q) \<longrightarrow> a \<notin> ?pl ` fst ` set target"
    proof (intro allI impI notI)
      fix a assume "strict_prefix a (?pl q)" "a \<in> ?pl ` fst ` set target"
      then obtain t where "t \<in> fst ` set target" "strict_prefix (split_on CHR ''/'' t) (split_on CHR ''/'' q)"
        by (metis imageE place_def strict_prefix_append)
      then show False using assms(5) q unfolding apart_def by simp
    qed
    ultimately show "rel_ok q \<and> plain_name D1 (?pl q)" using plain_name_keep[OF _ e(1)] by blast
  qed
  then have ch: "changes_at (?pl ` {p \<in> fst ` set head. map_of target p = None}) D1 D'"
    using remove_gone_changes[OF assms(3) w(2) ap(2)] by blast
  show "\<forall>(p, entry) \<in> set target. \<exists>data. we_blob E (be_hash entry) = Inr data \<and> map_of D' (?pl p) = Some (wt_node entry data)"
  proof clarify
    fix p entry assume t: "(p, entry) \<in> set target"
    then obtain data where d: "we_blob E (be_hash entry) = Inr data" "map_of D1 (?pl p) = Some (wt_node entry data)" using e(2) by blast
    have "map_of target p \<noteq> None" using t assms(4) by simp
    then have "?pl p \<notin> ?pl ` {p \<in> fst ` set head. map_of target p = None}" by (auto simp: place_inj)
    then show "\<exists>data. we_blob E (be_hash entry) = Inr data \<and> map_of D' (?pl p) = Some (wt_node entry data)"
      using changes_at_leaf[OF ch] d by blast
  qed
  show "changes_at (?pl ` fst ` (set target \<union> set head)) D D'"
    using changes_at_trans[OF e(1) ch] by (rule changes_at_mono) auto
qed

text \<open>
  A checkout that succeeds has written the branch: every path of the branch's tree is on disk
  with the blob's content and the recorded mode, whatever was at the path before, an untracked
  file included; HEAD names the branch and nothing is staged; and no file outside the two trees
  changed. The project has no link among the directories of a tracked path.
\<close>

theorem checkout_writes_the_tree:
  assumes run: "wt_Checkout F E branch st = (None, st')"
    and repo: "map_of (gr_refs (wk_repo st)) branch = Some h" "commitFiles F (wk_repo st) h = Inr target" "headFiles F st = Inr head"
    and tree: "names_ok (we_root E)" "distinct (map fst target)" "apart (map fst target @ map fst head)"
      "\<forall>p \<in> fst ` (set target \<union> set head). rel_ok p \<and> plain_name (wk_disk st) (place (we_root E) p)"
  shows "wk_head st' = branch \<and> wk_staged st' = [] \<and> wk_repo st' = wk_repo st
    \<and> (\<forall>(p, entry) \<in> set target. \<exists>data. we_blob E (be_hash entry) = Inr data \<and> map_of (wk_disk st') (place (we_root E) p) = Some (wt_node entry data))
    \<and> (\<forall>q. q \<notin> place (we_root E) ` fst ` (set target \<union> set head) \<and> map_of (wk_disk st) q \<noteq> None \<longrightarrow> map_of (wk_disk st') q = map_of (wk_disk st) q)"
proof -
  obtain D' where m: "materializeCommit F E (wk_repo st) h head (wk_disk st) = (None, D')" "st' = st\<lparr>wk_disk := D', wk_head := branch, wk_staged := []\<rparr>"
    using run repo(1,3) by (auto simp: wt_Checkout_def split: sum.splits if_splits prod.splits option.splits)
  note ok = materializeCommit_ok[OF m(1) repo(2) tree]
  have "map_of D' q = map_of (wk_disk st) q"
    if "q \<notin> place (we_root E) ` fst ` (set target \<union> set head)" "map_of (wk_disk st) q \<noteq> None" for q
    using changes_at_leaf[OF ok(2)] that by fastforce
  then show ?thesis using ok(1) m(2) by simp
qed

section \<open>A project with an untracked file\<close>

definition demo_wt_env :: wt_env where
  "demo_wt_env = \<lparr>we_root = [''w''], we_blob = (\<lambda>h. Inr (map of_char h)), we_sha = map (\<lambda>b. char_of (unat b)),
     we_hides = (\<lambda>_ _. False), we_generated = [], we_commit = (\<lambda>_ _. Inr ''new''), we_clear = None\<rparr>"

text \<open>On \<open>main\<close>, at the commit \<open>b\<close>; the branch \<open>feature\<close> has a file \<open>d/x\<close> too.\<close>

definition demo_disk :: "byte list \<Rightarrow> disk" where
  "demo_disk a = [([''w''], Directory), ([''w'', ''a''], Regular 0x180 a), ([''w'', ''d''], Directory), ([''w'', ''d'', ''x''], Regular 0x180 [9])]"

definition demo_wt :: "byte list \<Rightarrow> wt_state" where
  "demo_wt a = \<lparr>wk_repo = demo_repo\<lparr>gr_refs := [(''main'', ''b''), (''feature'', ''r'')]\<rparr>, wk_head = ''main'', wk_staged = [],
     wk_disk = demo_disk a\<rparr>"

lemma demo_wt_files:
  "headFiles demo_git (demo_wt a) = Inr [(''a'', blob ''1'')]"
  "commitFiles demo_git (wk_repo (demo_wt a)) ''r'' = Inr [(''a'', blob ''1''), (''d/x'', blob ''3'')]"
  using demo_commitFiles by (simp_all add: headFiles_def demo_wt_def commitFiles_def commitObject_def)

lemma demo_work: "work_path demo_wt_env ''a'' = [''w'', ''a'']" "work_path demo_wt_env ''d/x'' = [''w'', ''d'', ''x'']"
  "validateRelPath ''a'' = None" "validateRelPath ''d/x'' = None"
  by code_simp+

lemma demo_listed: "listWorkingFiles demo_wt_env (wk_disk (demo_wt a)) = [''a'', ''d/x'']"
  by (simp add: listWorkingFiles_def demo_wt_def demo_disk_def demo_wt_env_def walk_tree_def walk_entry_def leaf_of_def listed_def skipped_dir_def excludedNames_def
      strict_prefix_def Let_def upt_rec)

lemma demo_lstat:
  "os_Lstat (wk_disk (demo_wt a)) [''w'', ''a''] = Inr (Regular 0x180 a)" "os_Lstat (wk_disk (demo_wt a)) [''w'', ''d'', ''x''] = Inr (Regular 0x180 [9])"
  by (simp_all add: os_Lstat_def real_name_def real_dir_def demo_wt_def demo_disk_def)

lemma demo_chars: "char_of (7 :: nat) \<noteq> CHR ''1''" "char_of (49 :: nat) = CHR ''1''" "char_of (9 :: nat) \<noteq> CHR ''3''"
  by code_simp+


lemma demo_clean: "dirtyTrackedPaths demo_git demo_wt_env (demo_wt [49]) = Inr []"
proof -
  have "we_sha demo_wt_env [49] = ''1''" by (simp add: demo_wt_env_def demo_chars)
  then show ?thesis
    by (simp add: dirtyTrackedPaths_def wt_Status_def demo_wt_files demo_listed Let_def classifyWorkingPath_def blobHashOfWorkingFile_def
        workingFileContent_def demo_work demo_lstat gone_status_def blob_def) (simp add: demo_wt_def)
qed

lemma demo_write: "fst (write_entries demo_wt_env [(''a'', blob ''1''), (''d/x'', blob ''3'')] (demo_disk [49])) = None"
  by code_simp

theorem checkout_writes_the_tree_witness:
  "\<exists>st'. wt_Checkout demo_git demo_wt_env ''feature'' (demo_wt [49]) = (None, st') \<and> wk_head st' = ''feature''
    \<and> map_of (wk_disk st') [''w'', ''d'', ''x''] = Some (Regular 0x180 (map of_char ''3''))"
proof -
  let ?t = "[(''a'', blob ''1''), (''d/x'', blob ''3'')]" and ?st = "demo_wt [49]"
  obtain D1 where w: "write_entries demo_wt_env ?t (demo_disk [49]) = (None, D1)" using demo_write by (metis prod.collapse)
  have "materializeCommit demo_git demo_wt_env (wk_repo ?st) ''r'' [(''a'', blob ''1'')] (demo_disk [49]) = (None, D1)"
    using w by (simp add: materializeCommit_def demo_wt_files demo_work)
  then obtain st' where run: "wt_Checkout demo_git demo_wt_env ''feature'' ?st = (None, st')"
    using demo_clean demo_wt_files(1) by (simp add: wt_Checkout_def) (simp add: demo_wt_def)
  have refs: "map_of (gr_refs (wk_repo ?st)) ''feature'' = Some ''r''" by (simp add: demo_wt_def)
  have tree: "names_ok (we_root demo_wt_env)" "distinct (map fst ?t)" "apart (map fst ?t @ map fst [(''a'', blob ''1'')])"
    "\<forall>p \<in> fst ` (set ?t \<union> set [(''a'', blob ''1'')]). rel_ok p \<and> plain_name (wk_disk ?st) (place (we_root demo_wt_env) p)"
    by (auto simp: demo_wt_env_def plain_comp_def apart_def rel_ok_def plain_name_def place_def demo_wt_def demo_disk_def strict_prefix_def)
  from checkout_writes_the_tree[OF run refs demo_wt_files(2,1) tree]
  have "wk_head st' = ''feature''" "map_of (wk_disk st') (place [''w''] ''d/x'') = Some (wt_node (blob ''3'') (map of_char ''3''))"
    by (auto simp: demo_wt_env_def blob_def)
  then show ?thesis using run by (auto simp: place_def wt_node_def blob_def)
qed

end
