(* ===== verification/Generated_Block.thy ===== *)
theory Generated_Block
  imports Store_Files
begin

text \<open>
  The block mgit writes into files of the user's (\<open>internal/agentadapter/markers.go\<close>, the markers of
  \<open>claudemd.go\<close> and \<open>harness.go\<close>) and its removal before such a file is committed
  (\<open>internal/store/git/generated_block.go\<close>). Files are byte strings.
\<close>

section \<open>Writing the block\<close>

definition claudeMdBeginMarker :: string where
  "claudeMdBeginMarker = ''<!-- BEGIN mgit-sandbox (generated; do not edit) -->''"

definition claudeMdEndMarker :: string where
  "claudeMdEndMarker = ''<!-- END mgit-sandbox -->''"

definition envrcBeginMarker :: string where
  "envrcBeginMarker = ''# BEGIN mgit-sandbox (generated; do not edit)''"

definition envrcEndMarker :: string where
  "envrcEndMarker = ''# END mgit-sandbox''"

text \<open>\<open>strings.Index\<close>.\<close>

fun str_index :: "string \<Rightarrow> string \<Rightarrow> nat option" where
  "str_index s p = (if has_prefix s p then Some 0 else (case s of [] \<Rightarrow> None | _ # t \<Rightarrow> map_option Suc (str_index t p)))"

declare str_index.simps [simp del]

definition replaceMarked :: "string \<Rightarrow> string \<Rightarrow> string \<Rightarrow> string \<Rightarrow> string" where
  "replaceMarked body begin end section =
     (case (str_index body begin, str_index body end) of
        (Some start, Some stop) \<Rightarrow>
          if start < stop then take start body @ section @ drop (stop + length end) body
          else if trim_space body = [] then section @ [newline]
          else rev (dropWhile (\<lambda>c. c = newline) (rev body)) @ [newline, newline] @ section @ [newline]
      | _ \<Rightarrow>
          if trim_space body = [] then section @ [newline]
          else rev (dropWhile (\<lambda>c. c = newline) (rev body)) @ [newline, newline] @ section @ [newline])"

section \<open>Taking it out\<close>

definition generatedBlockBegin :: string where
  "generatedBlockBegin = ''BEGIN mgit-sandbox''"

definition generatedBlockEnd :: string where
  "generatedBlockEnd = ''END mgit-sandbox''"

definition skipBlanks :: "string \<Rightarrow> nat \<Rightarrow> nat" where
  "skipBlanks b i = i + length (takeWhile (\<lambda>c. c = CHR '' '' \<or> c = CHR 0x09 \<or> c = CHR 0x0D) (drop i b))"

definition markerAfter :: "string \<Rightarrow> string \<Rightarrow> nat option" where
  "markerAfter line word =
     (let i0 = skipBlanks line 0;
          comment = has_prefix (drop i0 line) ''<!--'';
          i = (if comment then skipBlanks line (i0 + 4) else if has_prefix (drop i0 line) ''#'' then skipBlanks line (i0 + 1) else i0) in
      if \<not> has_prefix (drop i line) word then None
      else (let end = i + length word in
        if word = generatedBlockBegin then Some (length line)
        else if comment then
          (let j = skipBlanks line end in if has_prefix (drop j line) ''-->'' then Some (j + 3) else Some end)
        else Some end))"

definition trimOneBlankLine :: "string \<Rightarrow> string" where
  "trimOneBlankLine h =
     (if has_suffix h [CHR 0x0D, newline, CHR 0x0D, newline] then take (length h - 2) h
      else if has_suffix h [newline, newline] then take (length h - 1) h
      else h)"

text \<open>The spans from a begin line to the next end marker.\<close>

function block_spans :: "string \<Rightarrow> nat \<Rightarrow> nat option \<Rightarrow> (nat \<times> nat) list" where
  "block_spans content off lastBegin =
     (if length content \<le> off then []
      else (let line = takeWhile (\<lambda>c. c \<noteq> newline) (drop off content);
                next = min (length content) (off + length line + 1) in
        if markerAfter line generatedBlockBegin \<noteq> None then block_spans content next (Some off)
        else (case (markerAfter line generatedBlockEnd, lastBegin) of
          (Some after, Some start) \<Rightarrow>
            (start, if trim_space (drop after line) = [] then next else off + after) # block_spans content next None
        | _ \<Rightarrow> block_spans content next lastBegin)))"
  by pat_completeness auto
termination by (relation "measure (\<lambda>(c, k, _). length c - k)") auto

declare block_spans.simps [simp del]

fun cut_spans :: "string \<Rightarrow> nat \<Rightarrow> (nat \<times> nat) list \<Rightarrow> string" where
  "cut_spans content pos [] = drop pos content"
| "cut_spans content pos ((start, end) # spans) = take (start - pos) (drop pos content) @ cut_spans content end spans"

definition StripGeneratedBlock :: "string \<Rightarrow> string" where
  "StripGeneratedBlock content =
     (let spans = block_spans content 0 None in
      if spans = [] then content
      else (let out = cut_spans content 0 spans in
        if length content \<le> snd (last spans) then trimOneBlankLine out else out))"

section \<open>Lines\<close>

definition text_lines :: "string list \<Rightarrow> string" where
  "text_lines ls = concat (map (\<lambda>l. l @ [newline]) ls)"

lemma text_lines_simps [simp]:
  "text_lines [] = []" "text_lines (l # ls) = l @ newline # text_lines ls" "text_lines (ls @ ms) = text_lines ls @ text_lines ms"
  by (simp_all add: text_lines_def)

lemma text_lines_join: "ls \<noteq> [] \<Longrightarrow> text_lines ls = join_with newline ls @ [newline]"
  by (induction newline ls rule: join_with.induct) auto

definition unmarked :: "string \<Rightarrow> bool" where
  "unmarked l \<longleftrightarrow> newline \<notin> set l \<and> markerAfter l generatedBlockBegin = None \<and> markerAfter l generatedBlockEnd = None"

lemma line_at:
  assumes "newline \<notin> set l"
  shows "takeWhile (\<lambda>c. c \<noteq> newline) (drop (length pre) (pre @ l @ newline # rest)) = l"
  using assms by (induction l) auto

lemma spans_step:
  assumes "newline \<notin> set l"
  shows "block_spans (pre @ l @ newline # rest) (length pre) lb =
     (let next = length pre + length l + 1 in
      if markerAfter l generatedBlockBegin \<noteq> None then block_spans (pre @ l @ newline # rest) next (Some (length pre))
      else (case (markerAfter l generatedBlockEnd, lb) of
        (Some after, Some start) \<Rightarrow>
          (start, if trim_space (drop after l) = [] then next else length pre + after) # block_spans (pre @ l @ newline # rest) next None
      | _ \<Rightarrow> block_spans (pre @ l @ newline # rest) next lb))"
  using line_at[OF assms, of pre rest] by (subst block_spans.simps) (simp add: Let_def split: option.splits)

lemma spans_unmarked:
  "\<forall>l \<in> set ls. unmarked l \<Longrightarrow>
     block_spans (pre @ text_lines ls @ rest) (length pre) lb = block_spans (pre @ text_lines ls @ rest) (length pre + length (text_lines ls)) lb"
proof (induction ls arbitrary: pre)
  case (Cons l ls)
  then have l: "newline \<notin> set l" "markerAfter l generatedBlockBegin = None" "markerAfter l generatedBlockEnd = None" by (auto simp: unmarked_def)
  show ?case using Cons.IH[of "pre @ l @ [newline]"] Cons.prems spans_step[OF l(1), of pre "text_lines ls @ rest" lb] l(2,3) by (simp add: add.assoc)
qed simp

lemma spans_end [simp]: "length content \<le> off \<Longrightarrow> block_spans content off lb = []"
  by (simp add: block_spans.simps)

section \<open>The round trip\<close>

text \<open>A section as the writers build it: a begin line, unmarked lines, and a bare end marker.\<close>

definition block_section :: "string \<Rightarrow> string list \<Rightarrow> string \<Rightarrow> string" where
  "block_section begin body end = join_with newline (begin # body @ [end])"

definition good_markers :: "string \<Rightarrow> string \<Rightarrow> bool" where
  "good_markers begin end \<longleftrightarrow> newline \<notin> set begin \<and> newline \<notin> set end \<and> begin \<noteq> [] \<and> end \<noteq> []
     \<and> markerAfter begin generatedBlockBegin \<noteq> None
     \<and> markerAfter end generatedBlockBegin = None \<and> markerAfter end generatedBlockEnd = Some (length end)"

lemma claude_markers: "good_markers claudeMdBeginMarker claudeMdEndMarker"
  by code_simp

lemma envrc_markers: "good_markers envrcBeginMarker envrcEndMarker"
  by code_simp

lemma strip_block:
  assumes "good_markers begin end" "\<forall>l \<in> set ls. unmarked l" "\<forall>l \<in> set body. unmarked l"
  shows "StripGeneratedBlock (text_lines ls @ block_section begin body end @ [newline]) = trimOneBlankLine (text_lines ls)"
proof -
  let ?c = "text_lines (ls @ begin # body @ [end])"
  have c: "text_lines ls @ block_section begin body end @ [newline] = ?c"
    using text_lines_join[of "begin # body @ [end]"] by (simp add: block_section_def)
  have e: "drop (length end) end = []" by simp
  have "block_spans ?c 0 None = block_spans ?c (length (text_lines ls)) None"
    using spans_unmarked[OF assms(2), of "[]"] by simp
  also have "\<dots> = block_spans ?c (length (text_lines (ls @ [begin]))) (Some (length (text_lines ls)))"
    using spans_step[of "begin" "text_lines ls" "text_lines (body @ [end])" None] assms(1) by (auto simp: good_markers_def)
  also have "\<dots> = block_spans ?c (length (text_lines (ls @ begin # body))) (Some (length (text_lines ls)))"
    using spans_unmarked[OF assms(3), of "text_lines (ls @ [begin])" "end @ [newline]"] by (simp add: algebra_simps)
  also have "\<dots> = [(length (text_lines ls), length ?c)]"
    using spans_step[of "end" "text_lines (ls @ begin # body)" "[]" "Some (length (text_lines ls))"] assms(1)
    by (simp add: good_markers_def trim_space_def trim_left.simps[of _ "[]"] space_encodings_def has_prefix_def)
  finally have "block_spans ?c 0 None = [(length (text_lines ls), length ?c)]" .
  then show ?thesis unfolding c StripGeneratedBlock_def Let_def by simp
qed



section \<open>Regeneration\<close>

lemma str_index_cons: "str_index (c # s) p = (if has_prefix (c # s) p then Some 0 else map_option Suc (str_index s p))"
  by (subst str_index.simps) simp

lemma str_index_None: "str_index s p = None \<longleftrightarrow> (\<forall>a b. s \<noteq> a @ p @ b)"
proof (induction s)
  case Nil
  then show ?case by (subst str_index.simps) (auto simp: has_prefix_iff)
next
  case (Cons c s)
  show ?case
  proof (cases "has_prefix (c # s) p")
    case True
    then show ?thesis by (auto simp: str_index_cons has_prefix_iff intro: exI[of _ "[]"])
  next
    case False
    then have "(\<forall>a b. c # s \<noteq> a @ p @ b) \<longleftrightarrow> (\<forall>a b. s \<noteq> a @ p @ b)"
      unfolding has_prefix_iff by (metis append_Cons append_Nil list.exhaust list.inject)
    then show ?thesis using Cons.IH False by (simp add: str_index_cons)
  qed
qed

lemma has_prefix_line:
  assumes "newline \<notin> set p" "has_prefix (u @ newline # t) p"
  shows "has_prefix u p"
proof -
  obtain r where "u @ newline # t = p @ r" using assms(2) by (auto simp: has_prefix_iff)
  then show ?thesis using assms(1) by (auto simp: append_eq_append_conv2 has_prefix_iff Cons_eq_append_conv)
qed

lemma str_index_line:
  assumes "newline \<notin> set p" "p \<noteq> []"
  shows "str_index u p = None \<Longrightarrow> str_index (u @ newline # t) p = map_option (\<lambda>i. length u + 1 + i) (str_index t p)"
proof (induction u)
  case Nil
  have "\<not> has_prefix (newline # t) p" using assms by (auto simp: has_prefix_iff Cons_eq_append_conv)
  then show ?case by (cases "str_index t p") (simp_all add: str_index_cons)
next
  case (Cons c u)
  have "\<not> has_prefix (c # u) p" "str_index u p = None" using Cons.prems by (auto simp: str_index_cons split: if_splits)
  moreover from this(1) have "\<not> has_prefix (c # u @ newline # t) p" using has_prefix_line[OF assms(1), of "c # u" t] by auto
  ultimately show ?case using Cons.IH by (cases "str_index t p") (simp_all add: str_index_cons)
qed

lemma str_index_lines:
  assumes "newline \<notin> set p" "p \<noteq> []" "\<forall>l \<in> set ls. str_index l p = None"
  shows "str_index (text_lines ls @ t) p = map_option (\<lambda>i. length (text_lines ls) + i) (str_index t p)"
  using assms(3)
proof (induction ls)
  case (Cons l ls)
  then show ?case using str_index_line[OF assms(1,2), of l "text_lines ls @ t"] by (cases "str_index t p"; simp)
qed (cases "str_index t p"; simp)

lemma str_index_here: "str_index (p @ t) p = Some 0"
  by (subst str_index.simps) (simp add: has_prefix_iff)

text \<open>
  Regeneration replaces: writing a second block into a file that got one writes what the
  second block alone would have, so the user's text is kept and the blocks do not pile up. It
  needs the text of the file and of the first block to hold neither marker.
\<close>

theorem upsert_replaces_block:
  assumes "good_markers begin end" "str_index begin end = None"
    and "\<forall>l \<in> set (split_on newline user). str_index l begin = None \<and> str_index l end = None"
    and "\<forall>l \<in> set old. str_index l end = None"
    and "last user \<noteq> newline" "trim_space (user @ [newline]) \<noteq> []"
  shows "replaceMarked (replaceMarked (user @ [newline]) begin end (block_section begin old end)) begin end new
    = replaceMarked (user @ [newline]) begin end new"
proof -
  have m: "newline \<notin> set begin" "newline \<notin> set end" "begin \<noteq> []" "end \<noteq> []" using assms(1) by (auto simp: good_markers_def)
  have "trim_space [newline] = []" by code_simp
  then have ne: "user \<noteq> []" using assms(6) by auto
  let ?ls = "split_on newline user"
  have tl: "text_lines ?ls = user @ [newline]" by (simp add: text_lines_join)
  have e: "str_index [] begin = None" "str_index [] end = None" using m by (auto simp: str_index_None)
  have d: "dropWhile (\<lambda>c. c = newline) (rev (user @ [newline])) = rev user"
    using assms(5) ne by (cases user rule: rev_cases) auto
  have nb: "str_index (user @ [newline]) begin = None" using str_index_lines[OF m(1,3), of ?ls "[]"] assms(3) tl e by simp
  have r: "replaceMarked (user @ [newline]) begin end s = text_lines (?ls @ [[]]) @ s @ [newline]" for s
    unfolding replaceMarked_def nb d using assms(6) tl by simp
  let ?b = "text_lines (?ls @ [[]]) @ block_section begin old end @ [newline]"
  have sec: "block_section begin old end = begin @ newline # text_lines old @ end"
    using text_lines_join[of "begin # old @ [end]"] by (simp add: block_section_def)
  have b1: "?b = text_lines (?ls @ [[]]) @ begin @ newline # text_lines old @ end @ [newline]" unfolding sec by simp
  have b2: "?b = text_lines (?ls @ [[]] @ begin # old) @ end @ [newline]" unfolding b1 by simp
  have "str_index ?b begin = Some (length (text_lines (?ls @ [[]])))"
    unfolding b1 using str_index_lines[OF m(1,3), of "?ls @ [[]]"] assms(3) e str_index_here by simp
  moreover have ends: "\<forall>l \<in> set (?ls @ [[]] @ begin # old). str_index l end = None" using assms(2-4) e by auto
  moreover have "str_index ?b end = Some (length (text_lines (?ls @ [[]] @ begin # old)))"
    unfolding b2 str_index_lines[OF m(2,4) ends] str_index_here by simp
  ultimately show ?thesis unfolding r by (simp add: replaceMarked_def sec)
qed

theorem upsert_replaces_block_witness:
  "replaceMarked (replaceMarked (''hi'' @ [newline]) claudeMdBeginMarker claudeMdEndMarker (block_section claudeMdBeginMarker [''x''] claudeMdEndMarker))
     claudeMdBeginMarker claudeMdEndMarker ''new'' = replaceMarked (''hi'' @ [newline]) claudeMdBeginMarker claudeMdEndMarker ''new''"
proof (rule upsert_replaces_block[OF claude_markers])
  show "str_index claudeMdBeginMarker claudeMdEndMarker = None" by code_simp
  show "\<forall>l \<in> set (split_on newline ''hi''). str_index l claudeMdBeginMarker = None \<and> str_index l claudeMdEndMarker = None" by code_simp
  show "\<forall>l \<in> set [''x'']. str_index l claudeMdEndMarker = None" by code_simp
  show "trim_space (''hi'' @ [newline]) \<noteq> []" by code_simp
qed simp

end
