(* ===== verification/Merge_Service.thy ===== *)
theory Merge_Service
  imports Git_Worktree Generated_Block
begin

text \<open>
  The merge service (\<open>internal/service/merge.go\<close>) with the stores it drives: the commit of what is staged
  (\<open>store/git/commit.go\<close>, \<open>staging_directory.go\<close>), the fast-forward and the merge commit
  (\<open>store/git/merge.go\<close>), and the gate that keeps undelivered sandbox commits off the host's branches
  (\<open>service/deliverable_history.go\<close>). The answer of the content ledger is an argument.
\<close>

section \<open>The gate\<close>

text \<open>The walk over all parents; it may run forever only on an endless history.\<close>

partial_function (option) history_walk :: "(string \<Rightarrow> string list result) \<Rightarrow> string list \<Rightarrow> string list \<Rightarrow> string list \<Rightarrow> string list \<Rightarrow> err option option" where
  "history_walk parents undelivered delivered queue seen =
     (case queue of
        [] \<Rightarrow> Some None
      | h # q \<Rightarrow>
          if h \<in> set seen then history_walk parents undelivered delivered q seen
          else if h \<in> set undelivered then Some (Some (Wrap h (Sentinel ErrUndeliveredTip)))
          else if h \<in> set delivered then history_walk parents undelivered delivered q (h # seen)
          else (case parents h of
            Inl e \<Rightarrow> Some (Some (Wrap2 (Sentinel ErrUndeliveredTip) e))
          | Inr ps \<Rightarrow> history_walk parents undelivered delivered (q @ ps) (h # seen)))"

definition requireDeliverableHistory :: "(string list \<times> string list) result \<Rightarrow> (string \<Rightarrow> string list result) option \<Rightarrow> string \<Rightarrow> err option option" where
  "requireDeliverableHistory admissions commits tip =
     (case admissions of
        Inl e \<Rightarrow> Some (Some (Wrap ''read content ledger'' e))
      | Inr (undelivered, delivered) \<Rightarrow>
          if undelivered = [] then Some None
          else (case commits of
            None \<Rightarrow> Some (Some (Wrap ''no commit reader is wired'' (Sentinel ErrUndeliveredTip)))
          | Some parents \<Rightarrow> history_walk parents undelivered delivered [tip] []))"

text \<open>The commits a check has to look at: the tip and the parents of every one that no land delivered.\<close>

inductive needed :: "(string \<Rightarrow> string list result) \<Rightarrow> string list \<Rightarrow> string \<Rightarrow> string \<Rightarrow> bool" for parents delivered tip where
  tip: "needed parents delivered tip tip"
| parent: "needed parents delivered tip h \<Longrightarrow> h \<notin> set delivered \<Longrightarrow> parents h = Inr ps \<Longrightarrow> p \<in> set ps \<Longrightarrow> needed parents delivered tip p"

definition admissible :: "(string \<Rightarrow> string list result) \<Rightarrow> string list \<Rightarrow> string list \<Rightarrow> string \<Rightarrow> bool" where
  "admissible parents undelivered delivered h \<longleftrightarrow> h \<notin> set undelivered \<and> (h \<in> set delivered \<or> (\<exists>ps. parents h = Inr ps))"

lemma history_walk_decides:
  assumes "finite {h. needed parents delivered tip h}"
  shows "set queue \<subseteq> {h. needed parents delivered tip h} \<Longrightarrow> tip \<in> set seen \<union> set queue \<Longrightarrow>
    \<forall>h \<in> set seen. admissible parents undelivered delivered h \<and> (h \<in> set delivered \<or> (\<exists>ps. parents h = Inr ps \<and> set ps \<subseteq> set seen \<union> set queue)) \<Longrightarrow>
    \<exists>r. history_walk parents undelivered delivered queue seen = Some r
      \<and> (r = None \<longleftrightarrow> (\<forall>h. needed parents delivered tip h \<longrightarrow> admissible parents undelivered delivered h))
      \<and> (\<forall>e. r = Some e \<longrightarrow> errors_is e ErrUndeliveredTip)"
proof (induction "card ({h. needed parents delivered tip h} - set seen)" arbitrary: queue seen rule: less_induct)
  case less
  note outer = less.hyps
  let ?U = "{h. needed parents delivered tip h}"
  have fewer: "card (?U - set (h # seen)) < card (?U - set seen)" if "h \<in> ?U" "h \<notin> set seen" for h
    by (rule psubset_card_mono) (use assms that in auto)
  show ?case using less.prems
  proof (induction queue)
    case Nil
    have "h \<in> set seen" if "needed parents delivered tip h" for h
      using that Nil.prems(2,3) by (induction rule: needed.induct) fastforce+
    then show ?case using Nil.prems(3) by (subst history_walk.simps) auto
  next
    case (Cons h q)
    have U: "needed parents delivered tip h" "set q \<subseteq> ?U" using Cons.prems(1) by auto
    show ?case
    proof (cases "h \<in> set seen")
      case True
      have "\<forall>x \<in> set seen. admissible parents undelivered delivered x \<and> (x \<in> set delivered \<or> (\<exists>ps. parents x = Inr ps \<and> set ps \<subseteq> set seen \<union> set q))"
        using Cons.prems(3) True by fastforce
      then have "\<exists>r. history_walk parents undelivered delivered q seen = Some r
        \<and> (r = None \<longleftrightarrow> (\<forall>h. needed parents delivered tip h \<longrightarrow> admissible parents undelivered delivered h))
        \<and> (\<forall>e. r = Some e \<longrightarrow> errors_is e ErrUndeliveredTip)"
        using Cons.IH U(2) Cons.prems(2) True by auto
      then show ?thesis using True by (subst history_walk.simps) simp
    next
      case new: False
      consider (bad) "h \<in> set undelivered" | (stop) "h \<notin> set undelivered" "h \<in> set delivered"
        | (err) e where "h \<notin> set undelivered" "h \<notin> set delivered" "parents h = Inl e"
        | (go) ps where "h \<notin> set undelivered" "h \<notin> set delivered" "parents h = Inr ps" by (cases "parents h") auto
      then show ?thesis
      proof cases
        case bad
        then have "\<not> admissible parents undelivered delivered h" by (simp add: admissible_def)
        then show ?thesis using new bad U(1) by (subst history_walk.simps) auto
      next
        case err
        then have "\<not> admissible parents undelivered delivered h" by (simp add: admissible_def)
        then show ?thesis using new err U(1) by (subst history_walk.simps) auto
      next
        case stop
        have "\<forall>x \<in> set (h # seen). admissible parents undelivered delivered x \<and> (x \<in> set delivered \<or> (\<exists>ps. parents x = Inr ps \<and> set ps \<subseteq> set (h # seen) \<union> set q))"
          using Cons.prems(3) stop by (fastforce simp: admissible_def)
        then have "\<exists>r. history_walk parents undelivered delivered q (h # seen) = Some r
          \<and> (r = None \<longleftrightarrow> (\<forall>h. needed parents delivered tip h \<longrightarrow> admissible parents undelivered delivered h))
          \<and> (\<forall>e. r = Some e \<longrightarrow> errors_is e ErrUndeliveredTip)"
          using outer[OF fewer, of h q] U new Cons.prems(2) by auto
        then show ?thesis using new stop by (subst history_walk.simps) simp
      next
        case go
        have "set (q @ ps) \<subseteq> ?U" using U go needed.parent by auto
        moreover have "\<forall>x \<in> set (h # seen). admissible parents undelivered delivered x \<and> (x \<in> set delivered \<or> (\<exists>ps'. parents x = Inr ps' \<and> set ps' \<subseteq> set (h # seen) \<union> set (q @ ps)))"
          using Cons.prems(3) go by (fastforce simp: admissible_def)
        ultimately have "\<exists>r. history_walk parents undelivered delivered (q @ ps) (h # seen) = Some r
          \<and> (r = None \<longleftrightarrow> (\<forall>h. needed parents delivered tip h \<longrightarrow> admissible parents undelivered delivered h))
          \<and> (\<forall>e. r = Some e \<longrightarrow> errors_is e ErrUndeliveredTip)"
          using outer[OF fewer, of h "q @ ps"] U new Cons.prems(2) by auto
        then show ?thesis using new go by (subst history_walk.simps) simp
      qed
    qed
  qed
qed

text \<open>
  C32. The gate decides: on a finite history it always answers, and it admits a commit exactly when
  every commit it has to look at, down to the delivered lands, can be read and none of them came
  from a sandbox land that was not delivered; a refusal carries \<open>ErrUndeliveredTip\<close>.
\<close>

theorem gate_decides_history:
  assumes "finite {h. needed parents delivered tip h}" "undelivered \<noteq> []"
  shows "\<exists>r. requireDeliverableHistory (Inr (undelivered, delivered)) (Some parents) tip = Some r
    \<and> (r = None \<longleftrightarrow> (\<forall>h. needed parents delivered tip h \<longrightarrow> admissible parents undelivered delivered h))
    \<and> (\<forall>e. r = Some e \<longrightarrow> errors_is e ErrUndeliveredTip)"
  using history_walk_decides[OF assms(1), of "[tip]" "[]" undelivered] assms(2) needed.tip
  by (simp add: requireDeliverableHistory_def)

section \<open>Committing what is staged\<close>

lemma path_dir_moves: "d \<noteq> ''.'' \<Longrightarrow> d \<noteq> ''/'' \<Longrightarrow> path_dir d \<noteq> d"
proof
  assume d: "d \<noteq> ''.''" "d \<noteq> ''/''" and same: "path_dir d = d"
  show False
  proof (cases "CHR ''/'' \<in> set d")
    case False
    have d0: "dropWhile (\<lambda>c. c \<noteq> CHR ''/'') (rev d) = []" using False by (auto simp: dropWhile_eq_Nil_conv)
    have "path_dir d = ''.''" unfolding path_dir_def d0 by (simp add: path_clean_def path_is_abs_def)
    then show ?thesis using same d(1) by simp
  next
    case True
    then obtain q r where p: "d = q @ CHR ''/'' # r" "CHR ''/'' \<notin> set r" using split_list_last by metis
    then have e: "path_dir d = path_clean (q @ ''/'')" by (simp add: path_dir_def dropWhile_append)
    show ?thesis
    proof (cases "q = []")
      case True
      then have "path_dir d = ''/''" using e by (simp add: path_clean_def path_is_abs_def)
      then show ?thesis using same d(2) by simp
    next
      case False
      then have "length (path_dir d) < length d" using e length_path_clean[OF False] p(1) by (simp add: path_clean_slash)
      then show ?thesis using same by simp
    qed
  qed
qed

text \<open>The directories above a path, nearest first (the loops over \<open>path.Dir\<close>).\<close>

function dir_chain :: "string \<Rightarrow> string list" where
  "dir_chain d = (if d = ''.'' \<or> d = ''/'' then [] else d # dir_chain (path_dir d))"
  by pat_completeness auto
termination by (relation "measure path_measure") (use path_dir_shorter path_dir_moves in auto)

declare dir_chain.simps [simp del]

definition replaceInTree :: "file_map \<Rightarrow> string \<Rightarrow> file_map" where
  "replaceInTree files rel = filter (\<lambda>(p, _). \<not> (p \<in> set (dir_chain (path_dir rel)) \<or> has_prefix p (rel @ ''/''))) files"

definition fileDirClash :: "file_map \<Rightarrow> string option" where
  "fileDirClash files = find (\<lambda>dir. map_of files dir \<noteq> None) (concat (map (\<lambda>(p, _). dir_chain (path_dir p)) files))"

definition hasPathUnder :: "file_map \<Rightarrow> string \<Rightarrow> bool" where
  "hasPathUnder head dir = list_ex (\<lambda>(p, _). has_prefix p (dir @ ''/'')) head"

definition isDirOnDisk :: "wt_env \<Rightarrow> disk \<Rightarrow> string \<Rightarrow> bool result" where
  "isDirOnDisk E D rel = (case os_Lstat D (work_path E rel) of
     Inl e \<Rightarrow> if IsNotExist e then Inr False else Inl e | Inr nd \<Rightarrow> Inr (nd = Directory))"

definition ErrInvalidStagedEntry :: err where
  "ErrInvalidStagedEntry = Errorf ''invalid staged entry''"

definition checkStagedEntry :: "wt_env \<Rightarrow> disk \<Rightarrow> file_map \<Rightarrow> string \<Rightarrow> err option" where
  "checkStagedEntry E D head rel =
     (case isDirOnDisk E D rel of
        Inl e \<Rightarrow> Some e
      | Inr onDiskDir \<Rightarrow>
          if map_of head rel \<noteq> None then None
          else (let gone = (case os_Lstat D (work_path E rel) of Inl e \<Rightarrow> IsNotExist e | Inr _ \<Rightarrow> False) in
            if onDiskDir \<or> gone \<and> hasPathUnder head rel then Some (Wrap rel ErrInvalidStagedEntry) else None))"

definition checkStagedEntries :: "wt_env \<Rightarrow> disk \<Rightarrow> file_map \<Rightarrow> string list \<Rightarrow> err option" where
  "checkStagedEntries E D head rels =
     (case List.map_filter (checkStagedEntry E D head) rels of [] \<Rightarrow> None | e # es \<Rightarrow> Some (foldl Wrap2 e es))"

text \<open>A generated file is committed without mgit's block, unless nothing else is in it.\<close>

definition committed_content :: "string list \<Rightarrow> string \<Rightarrow> 32 word \<Rightarrow> byte list \<Rightarrow> byte list" where
  "committed_content generated rel mode content =
     (if rel \<in> set generated \<and> mode \<noteq> mode_Symlink then
        (let stripped = StripGeneratedBlock (map (\<lambda>b. char_of (unat b)) content) in
         if trim_space stripped \<noteq> [] then map of_char stripped else content)
      else content)"

fun apply_staged :: "wt_env \<Rightarrow> disk \<Rightarrow> string list \<Rightarrow> file_map \<Rightarrow> file_map result" where
  "apply_staged E D [] files = Inr files"
| "apply_staged E D (rel # rels) files =
     (case isDirOnDisk E D rel of
        Inl e \<Rightarrow> Inl e
      | Inr True \<Rightarrow> apply_staged E D rels (AList.delete rel files)
      | Inr False \<Rightarrow>
          (case workingFileContent E D rel of
             Inl e \<Rightarrow> if e = Wrap ''stat working file'' ENOENT then apply_staged E D rels (AList.delete rel files) else Inl e
           | Inr (content, mode) \<Rightarrow>
               apply_staged E D rels (AList.update rel \<lparr>be_hash = we_sha E (committed_content (we_generated E) rel mode content), be_mode = mode\<rparr>
                 (replaceInTree files rel))))"

definition buildTreeFromStaging :: "git_lib_funs \<Rightarrow> wt_env \<Rightarrow> wt_state \<Rightarrow> string result \<times> wt_state" where
  "buildTreeFromStaging F E st =
     (case headFiles F st of
        Inl e \<Rightarrow> (Inl e, st)
      | Inr head \<Rightarrow>
          (case checkStagedEntries E (wk_disk st) head (wk_staged st) of
             Some e \<Rightarrow> (Inl e, st)
           | None \<Rightarrow>
               (case apply_staged E (wk_disk st) (wk_staged st) head of
                  Inl e \<Rightarrow> (Inl e, st)
                | Inr files \<Rightarrow>
                    (case fileDirClash files of
                       Some dir \<Rightarrow> (Inl (Wrap dir ErrInvalidStagedEntry), st)
                     | None \<Rightarrow>
                         (case writeNestedTree (gf_tree F) files (gr_trees (wk_repo st)) of
                            (r, ts) \<Rightarrow> (r, st\<lparr>wk_repo := (wk_repo st)\<lparr>gr_trees := ts\<rparr>\<rparr>))))))"

definition writeCommit :: "wt_env \<Rightarrow> commit_obj \<Rightarrow> string \<Rightarrow> wt_state \<Rightarrow> string result \<times> wt_state" where
  "writeCommit E c message st =
     (case we_commit E c message of
        Inl e \<Rightarrow> (Inl e, st)
      | Inr h \<Rightarrow> (Inr h, st\<lparr>wk_repo := (wk_repo st)\<lparr>gr_commits := AList.update h c (gr_commits (wk_repo st))\<rparr>\<rparr>))"

definition advanceBranchRefCAS :: "string \<Rightarrow> string \<Rightarrow> string \<Rightarrow> wt_state \<Rightarrow> err option \<times> wt_state" where
  "advanceBranchRefCAS branch newHash oldHash st =
     (if map_of (gr_refs (wk_repo st)) branch = Some oldHash
      then (None, st\<lparr>wk_repo := (wk_repo st)\<lparr>gr_refs := AList.update branch newHash (gr_refs (wk_repo st))\<rparr>\<rparr>)
      else (Some (Wrap branch (Errorf ''reference has changed concurrently'')), st))"

definition createCommit :: "git_lib_funs \<Rightarrow> wt_env \<Rightarrow> string \<Rightarrow> wt_state \<Rightarrow> string result \<times> wt_state" where
  "createCommit F E message st =
     (case map_of (gr_refs (wk_repo st)) (wk_head st) of
        None \<Rightarrow> (Inl (Wrap ''resolve HEAD'' (Errorf ''reference not found'')), st)
      | Some parentHash \<Rightarrow>
          (case buildTreeFromStaging F E st of
             (Inl e, st1) \<Rightarrow> (Inl e, st1)
           | (Inr t, st1) \<Rightarrow>
               (case writeCommit E \<lparr>co_Tree = t, co_Parents = [parentHash]\<rparr> message st1 of
                  (Inl e, st2) \<Rightarrow> (Inl (Wrap ''create commit'' e), st2)
                | (Inr h, st2) \<Rightarrow>
                    (case advanceBranchRefCAS (wk_head st) h parentHash st2 of
                       (Some e, st3) \<Rightarrow> (Inl (Wrap ''update ref'' e), st3)
                     | (None, st3) \<Rightarrow>
                         (case we_clear E of
                            Some e \<Rightarrow> (Inl (Wrap ''clear staging'' e), st3)
                          | None \<Rightarrow> (Inr h, st3\<lparr>wk_staged := []\<rparr>))))))"

section \<open>Fast-forward and merge commit\<close>

definition materializeMerge :: "git_lib_funs \<Rightarrow> wt_env \<Rightarrow> string \<Rightarrow> file_map \<Rightarrow> wt_state \<Rightarrow> err option \<times> wt_state" where
  "materializeMerge F E target preHead st =
     (case dirtyTrackedPaths F E st of
        Inl e \<Rightarrow> (Some (Wrap ''check working tree'' e), st)
      | Inr dirty \<Rightarrow>
          if dirty \<noteq> [] then (Some (Wrap ''merge would overwrite uncommitted changes'' (Sentinel ErrRollbackConflict)), st)
          else (case materializeCommit F E (wk_repo st) target preHead (wk_disk st) of (r, D) \<Rightarrow> (r, st\<lparr>wk_disk := D\<rparr>)))"

definition FastForward :: "git_lib_funs \<Rightarrow> wt_env \<Rightarrow> string \<Rightarrow> string \<Rightarrow> wt_state \<Rightarrow> err option \<times> wt_state" where
  "FastForward F E branchName targetHash st =
     (case map_of (gr_refs (wk_repo st)) branchName of
        None \<Rightarrow> (Some (Wrap branchName (Sentinel ErrBranchNotFound)), st)
      | Some cur \<Rightarrow>
          (case headFiles F st of
             Inl e \<Rightarrow> (Some (Wrap ''fast-forward'' e), st)
           | Inr currentHead \<Rightarrow>
               (case materializeMerge F E targetHash currentHead st of
                  (Some e, st1) \<Rightarrow> (Some (Wrap ''fast-forward'' e), st1)
                | (None, st1) \<Rightarrow>
                    (case advanceBranchRefCAS branchName targetHash cur st1 of
                       (Some e, st2) \<Rightarrow> (Some (Wrap ''fast-forward'' e), st2)
                     | (None, st2) \<Rightarrow> (None, st2)))))"

definition CreateMergeCommit :: "git_lib_funs \<Rightarrow> wt_env \<Rightarrow> string \<Rightarrow> string \<Rightarrow> wt_state \<Rightarrow> string result \<times> wt_state" where
  "CreateMergeCommit F E message sourceHash st =
     (case map_of (gr_refs (wk_repo st)) (wk_head st) of
        None \<Rightarrow> (Inl (Wrap ''merge commit: resolve HEAD'' (Errorf ''reference not found'')), st)
      | Some headHash \<Rightarrow>
          (case headFiles F st of
             Inl e \<Rightarrow> (Inl (Wrap ''merge commit'' e), st)
           | Inr currentHead \<Rightarrow>
               (case mergedTree F (wk_repo st) headHash sourceHash of
                  (Inl e, R) \<Rightarrow> (Inl (Wrap ''merge commit'' e), st\<lparr>wk_repo := R\<rparr>)
                | (Inr t, R) \<Rightarrow>
                    (case writeCommit E \<lparr>co_Tree = t, co_Parents = [headHash, sourceHash]\<rparr> message (st\<lparr>wk_repo := R\<rparr>) of
                       (Inl e, st1) \<Rightarrow> (Inl (Wrap ''merge commit: create'' e), st1)
                     | (Inr h, st1) \<Rightarrow>
                         (case materializeMerge F E h currentHead st1 of
                            (Some e, st2) \<Rightarrow> (Inl (Wrap ''merge commit'' e), st2)
                          | (None, st2) \<Rightarrow>
                              (case advanceBranchRefCAS (wk_head st) h headHash st2 of
                                 (Some e, st3) \<Rightarrow> (Inl (Wrap ''merge commit: update ref'' e), st3)
                               | (None, st3) \<Rightarrow> (Inr h, st3)))))))"

section \<open>The service\<close>

datatype MergeStrategy = MergeAuto | MergeNoFF | MergeSquash

record MergeRequest =
  mq_SourceBranch :: string
  mq_Strategy :: string
  mq_Message :: string

record MergeResult =
  mr_Strategy :: MergeStrategy
  mr_Source :: string
  mr_Target :: string
  mr_MergedHash :: string
  mr_FastFwd :: bool
  mr_Status :: string

definition parse_strategy :: "string \<Rightarrow> MergeStrategy option" where
  "parse_strategy s = (if s = [] \<or> s = ''auto'' then Some MergeAuto else if s = ''no-ff'' then Some MergeNoFF
     else if s = ''squash'' then Some MergeSquash else None)"

text \<open>The scan before a merge that is no fast-forward.\<close>

definition conflict_check :: "git_lib_funs \<Rightarrow> repo_state \<Rightarrow> string \<Rightarrow> string \<Rightarrow> err option" where
  "conflict_check F R headHash source =
     (case merge_base F R headHash source of
        Inl e \<Rightarrow> Some (Wrap ''merge: merge-base'' e)
      | Inr base \<Rightarrow>
          if base = [] then Some (Errorf ''merge: no common ancestor'')
          else (case ConflictingPaths F R base headHash source of
            Inl e \<Rightarrow> Some (Wrap ''merge: conflict scan'' e)
          | Inr conflicts \<Rightarrow> if conflicts \<noteq> [] then Some (Wrap ''merge'' (Sentinel ErrMergeConflict)) else None))"

definition run_strategy :: "git_lib_funs \<Rightarrow> wt_env \<Rightarrow> MergeStrategy \<Rightarrow> MergeRequest \<Rightarrow> string \<Rightarrow> bool \<Rightarrow> wt_state \<Rightarrow> MergeResult result \<times> wt_state" where
  "run_strategy F E strategy req source canFF st =
     (let done = (\<lambda>h ff status. \<lparr>mr_Strategy = strategy, mr_Source = mq_SourceBranch req, mr_Target = wk_head st, mr_MergedHash = h,
                    mr_FastFwd = ff, mr_Status = status\<rparr>) in
      if strategy = MergeSquash then
        (case createCommit F E (if mq_Message req = [] then ''Squash merge branch'' else mq_Message req) st of
           (Inl e, st1) \<Rightarrow> (Inl (Wrap ''merge --squash'' e), st1)
         | (Inr h, st1) \<Rightarrow> (Inr (done h False ''squashed''), st1))
      else if strategy = MergeAuto \<and> canFF then
        (case FastForward F E (wk_head st) source st of
           (Some e, st1) \<Rightarrow> (Inl (Wrap ''merge'' e), st1)
         | (None, st1) \<Rightarrow> (Inr (done source True ''fast-forward''), st1))
      else
        (case CreateMergeCommit F E (if mq_Message req = [] then ''Merge branch'' else mq_Message req) source st of
           (Inl e, st1) \<Rightarrow> (Inl (Wrap ''merge'' e), st1)
         | (Inr h, st1) \<Rightarrow> (Inr (done h False ''merged''), st1)))"

text \<open>The ledger's answer, when a ledger is wired; the walk of the gate has to end for the merge to return.\<close>

definition repo_parents :: "repo_state \<Rightarrow> string \<Rightarrow> string list result" where
  "repo_parents R h = bind_result (commitObject R h) (\<lambda>c. Inr (co_Parents c))"

definition Merge :: "git_lib_funs \<Rightarrow> wt_env \<Rightarrow> (string list \<times> string list) result option \<Rightarrow> MergeRequest \<Rightarrow> wt_state \<Rightarrow> (MergeResult result \<times> wt_state) option" where
  "Merge F E gate req st =
     (if mq_SourceBranch req = [] then Some (Inl (Errorf ''merge: source branch must not be empty''), st)
      else (case parse_strategy (mq_Strategy req) of
        None \<Rightarrow> Some (Inl (Errorf ''merge: unknown strategy''), st)
      | Some strategy \<Rightarrow>
          (case map_of (gr_refs (wk_repo st)) (mq_SourceBranch req) of
             None \<Rightarrow> Some (Inl (Wrap ''merge'' (Sentinel ErrBranchNotFound)), st)
           | Some source \<Rightarrow>
               (case map_of (gr_refs (wk_repo st)) (wk_head st) of
                  None \<Rightarrow> Some (Inl (Errorf ''merge: resolve HEAD''), st)
                | Some headHash \<Rightarrow>
                    (let upToDate = \<lparr>mr_Strategy = strategy, mr_Source = mq_SourceBranch req, mr_Target = wk_head st, mr_MergedHash = headHash,
                           mr_FastFwd = False, mr_Status = ''already up to date''\<rparr> in
                     if mq_SourceBranch req = wk_head st then Some (Inr upToDate, st)
                     else (case gate of
                       None \<Rightarrow> Some (Inl (Errorf ''merge: no content ledger is wired''), st)
                     | Some admissions \<Rightarrow>
                         (case requireDeliverableHistory admissions (Some (repo_parents (wk_repo st))) source of
                            None \<Rightarrow> None
                          | Some (Some e) \<Rightarrow> Some (Inl (Wrap ''merge'' e), st)
                          | Some None \<Rightarrow>
                              (case IsAncestor F (wk_repo st) source headHash of
                                 Inl e \<Rightarrow> Some (Inl (Wrap ''merge: ancestor check'' e), st)
                               | Inr True \<Rightarrow> Some (Inr upToDate, st)
                               | Inr False \<Rightarrow>
                                   (case IsAncestor F (wk_repo st) headHash source of
                                      Inl e \<Rightarrow> Some (Inl (Wrap ''merge: ancestor check'' e), st)
                                    | Inr canFF \<Rightarrow>
                                        (case (if canFF then None else conflict_check F (wk_repo st) headHash source) of
                                           Some e \<Rightarrow> Some (Inl e, st)
                                         | None \<Rightarrow> Some (run_strategy F E strategy req source canFF st)))))))))))"

section \<open>What a merge leaves alone\<close>

lemma materializeMerge_frame:
  "materializeMerge F E target preHead st = (r, st') \<Longrightarrow> wk_repo st' = wk_repo st \<and> wk_head st' = wk_head st \<and> wk_staged st' = wk_staged st"
  by (auto simp: materializeMerge_def split: sum.splits if_splits prod.splits)

lemma mergedTree_refs: "mergedTree F R l r = (t, R') \<Longrightarrow> gr_refs R' = gr_refs R"
  by (auto simp: mergedTree_def split: sum.splits prod.splits)

lemma writeCommit_frame:
  "writeCommit E c m st = (r, st') \<Longrightarrow> gr_refs (wk_repo st') = gr_refs (wk_repo st) \<and> wk_head st' = wk_head st \<and> wk_staged st' = wk_staged st \<and> wk_disk st' = wk_disk st"
  by (auto simp: writeCommit_def split: sum.splits)

lemma advance_failed: "advanceBranchRefCAS b n h st = (Some e, st') \<Longrightarrow> st' = st"
  by (auto simp: advanceBranchRefCAS_def split: if_splits)

lemma FastForward_failed:
  assumes "FastForward F E b t st = (Some e, st')"
  shows "gr_refs (wk_repo st') = gr_refs (wk_repo st) \<and> wk_head st' = wk_head st \<and> wk_staged st' = wk_staged st"
  using assms by (auto simp: FastForward_def split: option.splits sum.splits prod.splits dest!: materializeMerge_frame advance_failed)

lemma CreateMergeCommit_failed:
  assumes "CreateMergeCommit F E m s st = (Inl e, st')"
  shows "gr_refs (wk_repo st') = gr_refs (wk_repo st) \<and> wk_head st' = wk_head st \<and> wk_staged st' = wk_staged st"
  using assms by (auto simp: CreateMergeCommit_def split: option.splits sum.splits prod.splits
      dest!: mergedTree_refs writeCommit_frame materializeMerge_frame advance_failed)

lemma run_strategy_failed:
  assumes "run_strategy F E strategy req source canFF st = (Inl e, st')" "strategy \<noteq> MergeSquash"
  shows "gr_refs (wk_repo st') = gr_refs (wk_repo st) \<and> wk_head st' = wk_head st \<and> wk_staged st' = wk_staged st"
  using assms by (auto simp: run_strategy_def Let_def split: if_splits option.splits sum.splits prod.splits
      dest!: FastForward_failed CreateMergeCommit_failed)

lemma Merge_failed:
  assumes "Merge F E gate req st = Some (Inl e, st')"
  shows "st' = st \<or> (\<exists>strategy source canFF. parse_strategy (mq_Strategy req) = Some strategy \<and> run_strategy F E strategy req source canFF st = (Inl e, st'))"
  using assms unfolding Merge_def Let_def by (auto split: if_splits option.splits sum.splits bool.splits)

text \<open>
  A failed merge moves nothing but files: when an automatic or a no-fast-forward merge returns an
  error, every branch is where it was, HEAD is on the same branch and the staging area is as it was.
\<close>

theorem failed_merge_keeps_branches:
  assumes "Merge F E gate req st = Some (Inl e, st')" "mq_Strategy req \<noteq> ''squash''"
  shows "gr_refs (wk_repo st') = gr_refs (wk_repo st) \<and> wk_head st' = wk_head st \<and> wk_staged st' = wk_staged st"
proof -
  have "parse_strategy (mq_Strategy req) \<noteq> Some MergeSquash" using assms(2) by (simp add: parse_strategy_def)
  then show ?thesis using Merge_failed[OF assms(1)] run_strategy_failed by metis
qed

lemma needed_finite: "finite {h. needed (repo_parents R) delivered tip h}"
proof -
  have "h = tip \<or> (\<exists>c \<in> ran (map_of (gr_commits R)). h \<in> set (co_Parents c))" if "needed (repo_parents R) delivered tip h" for h
    using that by cases (auto simp: repo_parents_def commitObject_def ran_def split: option.splits)
  then have "{h. needed (repo_parents R) delivered tip h} \<subseteq> insert tip (\<Union>c \<in> ran (map_of (gr_commits R)). set (co_Parents c))" by blast
  then show ?thesis by (rule finite_subset) (simp add: finite_ran finite_dom_map_of)
qed

lemma gate_sound:
  "\<exists>r. requireDeliverableHistory (Inr (undelivered, delivered)) (Some (repo_parents R)) tip = Some r
     \<and> (r = None \<longrightarrow> (\<forall>h. needed (repo_parents R) delivered tip h \<longrightarrow> h \<notin> set undelivered))"
proof (cases "undelivered = []")
  case False
  then show ?thesis
    using history_walk_decides[OF needed_finite[of R delivered tip], where queue = "[tip]" and seen = "[]" and undelivered = undelivered] needed.tip
    unfolding requireDeliverableHistory_def admissible_def by auto
qed (simp add: requireDeliverableHistory_def)

text \<open>
  C13. No undelivered work is merged: with the ledger's answer at hand a merge always returns, and
  when it changed the store, a file or the staging area, the tip of the source branch and every
  commit below it, down to the delivered lands, is none of the undelivered ones.
\<close>

theorem merge_admits_delivered_history:
  "\<exists>r st'. Merge F E (Some (Inr (undelivered, delivered))) req st = Some (r, st')
     \<and> (st' \<noteq> st \<longrightarrow> (\<exists>tip. map_of (gr_refs (wk_repo st)) (mq_SourceBranch req) = Some tip
          \<and> (\<forall>h. needed (repo_parents (wk_repo st)) delivered tip h \<longrightarrow> h \<notin> set undelivered)))"
proof (cases "map_of (gr_refs (wk_repo st)) (mq_SourceBranch req)")
  case None
  then show ?thesis by (auto simp: Merge_def split: option.splits)
next
  case (Some tip)
  obtain r where r: "requireDeliverableHistory (Inr (undelivered, delivered)) (Some (repo_parents (wk_repo st))) tip = Some r"
    "r = None \<longrightarrow> (\<forall>h. needed (repo_parents (wk_repo st)) delivered tip h \<longrightarrow> h \<notin> set undelivered)" using gate_sound by metis
  have run: "\<exists>r' st'. Merge F E (Some (Inr (undelivered, delivered))) req st = Some (r', st') \<and> (st' \<noteq> st \<longrightarrow> r = None)"
    unfolding Merge_def Let_def Some option.case r(1) by (cases r) (auto split: option.splits sum.splits bool.splits if_splits)
  then show ?thesis using r(2) Some by blast
qed

text \<open>
  C39. A squash merge integrates nothing: it commits what is staged. With an empty staging area it
  reports \<open>squashed\<close>, and the commit it made has the files HEAD had before and HEAD as its only parent;
  no file of the source branch reaches the tree or the disk.
\<close>

theorem squash_merge_integrates_nothing:
  assumes "faultless (gf_tree F)" "store_ok (gf_tree F) (gr_trees (wk_repo st))" "walker_ok F (map_of (gr_trees (wk_repo st)))"
    and "headFiles F st = Inr head" "map_of (gr_refs (wk_repo st)) (wk_head st) = Some headHash" "wk_staged st = []"
    and "Merge F E gate req st = Some (Inr res, st')" "mr_Status res = ''squashed''"
  shows "wk_disk st' = wk_disk st \<and> (\<exists>c. map_of (gr_commits (wk_repo st')) (mr_MergedHash res) = Some c \<and> co_Parents c = [headHash]
    \<and> (\<forall>p e. has_file (map_of (gr_trees (wk_repo st'))) (co_Tree c) p e \<longleftrightarrow> map_of head p = Some e))"
proof -
  have hf: "commitFiles F (wk_repo st) headHash = Inr head" using assms(4,5) by (simp add: headFiles_def)
  note facts = commitFiles_facts[OF assms(3) hf]
  obtain strategy source canFF where run: "run_strategy F E strategy req source canFF st = (Inr res, st')"
    using assms(7,8) unfolding Merge_def Let_def by (auto split: if_splits option.splits sum.splits bool.splits)
  then obtain m h where c: "createCommit F E m st = (Inr h, st')" "mr_MergedHash res = h"
    using assms(8) by (auto simp: run_strategy_def Let_def split: if_splits option.splits sum.splits prod.splits)
  obtain t ts where w: "writeNestedTree (gf_tree F) head (gr_trees (wk_repo st)) = (Inr t, ts)"
    "\<forall>p e. has_file (map_of ts) t p e \<longleftrightarrow> map_of head p = Some e"
    using nested_tree_meaning(1)[OF assms(1,2) facts] map_le_refl by blast
  have b: "buildTreeFromStaging F E st = (Inr t, st\<lparr>wk_repo := (wk_repo st)\<lparr>gr_trees := ts\<rparr>\<rparr>)"
    if "fileDirClash head = None" using that assms(4,6) w(1) by (simp add: buildTreeFromStaging_def checkStagedEntries_def)
  have "fileDirClash head = None"
    using c(1) assms(4-6) by (auto simp: createCommit_def buildTreeFromStaging_def checkStagedEntries_def split: option.splits)
  note built = b[OF this]
  let ?c = "\<lparr>co_Tree = t, co_Parents = [headHash]\<rparr>"
  have after: "gr_commits (wk_repo st') = AList.update h ?c (gr_commits (wk_repo st)) \<and> gr_trees (wk_repo st') = ts \<and> wk_disk st' = wk_disk st"
    using c(1) unfolding createCommit_def assms(5) built
    by (auto simp: writeCommit_def advanceBranchRefCAS_def split: option.splits sum.splits prod.splits if_splits)
  then have "map_of (gr_commits (wk_repo st')) h = Some ?c" by (simp add: update_conv')
  then show ?thesis using after w(2) c(2) by simp
qed

section \<open>A branch ahead of HEAD\<close>

definition demo_ff :: git_lib_funs where
  "demo_ff = demo_git\<lparr>gf_ancestor := (\<lambda>_ a _. Inr (a = ''b''))\<rparr>"

lemma demo_ff_ok: "faultless (gf_tree demo_ff)" "store_ok (gf_tree demo_ff) (gr_trees (wk_repo (demo_wt a)))" "walker_ok demo_ff T"
proof -
  have "gf_flatten demo_ff = gf_flatten demo_git" by (simp add: demo_ff_def)
  then show "walker_ok demo_ff T" unfolding walker_ok_def using demo_walker_ok[of T, unfolded walker_ok_def] by (simp only:)
qed (use demo_lib in \<open>simp_all add: demo_ff_def demo_wt_def\<close>)

lemma demo_ff_files: "headFiles demo_ff (demo_wt a) = Inr [(''a'', blob ''1'')]"
proof -
  have "commitFiles demo_ff R h = commitFiles demo_git R h" for R h by (simp add: commitFiles_def demo_ff_def)
  then have "headFiles demo_ff st = headFiles demo_git st" for st by (simp add: headFiles_def split: option.splits)
  then show ?thesis using demo_wt_files(1) by simp
qed

lemma demo_on_main: "map_of (gr_refs (wk_repo (demo_wt a))) ''main'' = Some ''b''" "wk_head (demo_wt a) = ''main''"
  by (simp_all add: demo_wt_def)

definition demo_merge :: "string \<Rightarrow> MergeRequest" where
  "demo_merge strategy = \<lparr>mq_SourceBranch = ''feature'', mq_Strategy = strategy, mq_Message = ''m''\<rparr>"

lemma demo_merge_runs:
  "parse_strategy s = Some strategy \<Longrightarrow>
     Merge demo_ff demo_wt_env (Some (Inr ([], []))) (demo_merge s) (demo_wt a) = Some (run_strategy demo_ff demo_wt_env strategy (demo_merge s) ''r'' True (demo_wt a))"
  by (simp add: Merge_def demo_merge_def demo_wt_def requireDeliverableHistory_def IsAncestor_def commitObject_def demo_repo_def demo_ff_def)

theorem gate_decides_history_witness:
  "\<exists>r. requireDeliverableHistory (Inr ([''x''], [''r''])) (Some (repo_parents demo_repo)) ''r'' = Some r
    \<and> (r = None \<longleftrightarrow> (\<forall>h. needed (repo_parents demo_repo) [''r''] ''r'' h \<longrightarrow> admissible (repo_parents demo_repo) [''x''] [''r''] h))
    \<and> (\<forall>e. r = Some e \<longrightarrow> errors_is e ErrUndeliveredTip)"
  by (rule gate_decides_history[OF needed_finite]) simp

theorem squash_merge_integrates_nothing_witness:
  "\<exists>res st'. Merge demo_ff demo_wt_env (Some (Inr ([], []))) (demo_merge ''squash'') (demo_wt [49]) = Some (Inr res, st')
     \<and> mr_Status res = ''squashed'' \<and> (\<exists>c. map_of (gr_commits (wk_repo st')) (mr_MergedHash res) = Some c
       \<and> \<not> has_file (map_of (gr_trees (wk_repo st'))) (co_Tree c) ''d/x'' (blob ''3''))"
proof -
  let ?st = "demo_wt [49]"
  have ps: "parse_strategy ''squash'' = Some MergeSquash" by (simp add: parse_strategy_def)
  have refs: "map_of (gr_refs (wk_repo ?st)) (wk_head ?st) = Some ''b''" "wk_staged ?st = []" by (simp_all add: demo_wt_def)
  have b: "blobs_only [(''a'', blob ''1'')]" by (auto simp: blobs_only_def blob_def split: if_splits)
  obtain t ts where w: "writeNestedTree (gf_tree demo_ff) [(''a'', blob ''1'')] (gr_trees (wk_repo ?st)) = (Inr t, ts)"
    using nested_tree_meaning(1)[OF demo_ff_ok(1,2) _ b, of "[49]"] by auto
  have "path_dir ''a'' = ''.''" by code_simp
  then have clash: "fileDirClash [(''a'', blob ''1'')] = None" by (simp add: fileDirClash_def dir_chain.simps)
  have "\<exists>st'. createCommit demo_ff demo_wt_env ''m'' ?st = (Inr ''new'', st')"
    using refs w clash demo_ff_files[of "[49]"]
    by (simp add: createCommit_def buildTreeFromStaging_def checkStagedEntries_def writeCommit_def advanceBranchRefCAS_def demo_wt_env_def)
  then obtain res st' where run: "Merge demo_ff demo_wt_env (Some (Inr ([], []))) (demo_merge ''squash'') ?st = Some (Inr res, st')" "mr_Status res = ''squashed''"
    unfolding demo_merge_runs[OF ps] run_strategy_def by (auto simp: demo_merge_def)
  from squash_merge_integrates_nothing[OF demo_ff_ok demo_ff_files refs run] show ?thesis using run by (auto simp: blob_def)
qed

theorem failed_merge_keeps_branches_witness:
  "\<exists>e st'. Merge demo_ff demo_wt_env (Some (Inr ([], []))) (demo_merge ''auto'') (demo_wt [7]) = Some (Inl e, st')
     \<and> gr_refs (wk_repo st') = [(''main'', ''b''), (''feature'', ''r'')]"
proof -
  have ps: "parse_strategy ''auto'' = Some MergeAuto" by (simp add: parse_strategy_def)
  have "\<exists>d ds. dirtyTrackedPaths demo_ff demo_wt_env (demo_wt [7]) = Inr (d # ds)"
  proof -
    have s: "wt_Status demo_ff demo_wt_env (demo_wt [7]) = Inr [\<lparr>fs_Path = ''a'', fs_Staging = StatusUnmodified, fs_Worktree = StatusModified\<rparr>, \<lparr>fs_Path = ''d/x'', fs_Staging = StatusUnmodified, fs_Worktree = StatusUntracked\<rparr>]"
      by (simp add: wt_Status_def demo_ff_files demo_listed Let_def classifyWorkingPath_def blobHashOfWorkingFile_def workingFileContent_def demo_work demo_lstat gone_status_def)
        (simp add: demo_wt_def demo_wt_env_def blob_def demo_chars demo_chars(1)[symmetric])
    show ?thesis by (simp add: dirtyTrackedPaths_def s)
  qed
  then have "\<exists>e. FastForward demo_ff demo_wt_env ''main'' ''r'' (demo_wt [7]) = (Some e, demo_wt [7])"
    using demo_ff_files[of "[7]"] demo_on_main(1) by (auto simp: FastForward_def materializeMerge_def)
  then obtain e st' where run: "Merge demo_ff demo_wt_env (Some (Inr ([], []))) (demo_merge ''auto'') (demo_wt [7]) = Some (Inl e, st')"
    unfolding demo_merge_runs[OF ps] run_strategy_def by (auto simp: demo_on_main(2))
  have "mq_Strategy (demo_merge ''auto'') \<noteq> ''squash''" by (simp add: demo_merge_def)
  from failed_merge_keeps_branches[OF run this] show ?thesis using run by (auto simp: demo_wt_def)
qed

theorem merge_admits_delivered_history_witness:
  "\<exists>r st'. Merge demo_ff demo_wt_env (Some (Inr ([''b''], []))) (demo_merge ''auto'') (demo_wt [49]) = Some (r, st') \<and> st' = demo_wt [49]"
proof -
  have refs: "map_of (gr_refs (wk_repo (demo_wt [49]))) ''feature'' = Some ''r''" by (simp add: demo_wt_def)
  have "repo_parents (wk_repo (demo_wt [49])) ''r'' = Inr [''b'']" by (simp add: repo_parents_def commitObject_def demo_wt_def demo_repo_def)
  then have "needed (repo_parents (wk_repo (demo_wt [49]))) [] ''r'' ''b''" by (intro needed.parent[OF needed.tip]) auto
  then show ?thesis using merge_admits_delivered_history[of demo_ff demo_wt_env "[''b'']" "[]" "demo_merge ''auto''" "demo_wt [49]"] refs
    by (auto simp: demo_merge_def)
qed

end
