(* ===== verification/Git_Staging.thy ===== *)
theory Git_Staging
  imports Merge_Service
begin

text \<open>
  The staging area (\<open>internal/store/git/staging.go\<close>, \<open>staging_guard.go\<close>, the directory rules of
  \<open>staging_directory.go\<close>) and what a commit of it records. The staging file is the list of the
  state; a failure to write it is left out, one to clear it is an argument.
\<close>

section \<open>The staging area\<close>

definition stagePaths :: "string list \<Rightarrow> wt_state \<Rightarrow> wt_state" where
  "stagePaths rels st = st\<lparr>wk_staged := sort (fold (\<lambda>rel ps. if rel \<in> set ps then ps else ps @ [rel]) rels (wk_staged st))\<rparr>"

definition clearStaging :: "wt_env \<Rightarrow> wt_state \<Rightarrow> err option \<times> wt_state" where
  "clearStaging E st = (case we_clear E of Some e \<Rightarrow> (Some (Wrap ''clear staging'' e), st) | None \<Rightarrow> (None, st\<lparr>wk_staged := []\<rparr>))"

definition RestoreStaging :: "wt_env \<Rightarrow> string list \<Rightarrow> wt_state \<Rightarrow> err option \<times> wt_state" where
  "RestoreStaging E paths st =
     (case clearStaging E st of
        (Some e, st1) \<Rightarrow> (Some e, st1)
      | (None, st1) \<Rightarrow> (None, if paths = [] then st1 else stagePaths paths st1))"

definition matchesAnyTarget :: "string \<Rightarrow> string list \<Rightarrow> bool" where
  "matchesAnyTarget path targets = list_ex (\<lambda>t. t = ''.'' \<or> path = t \<or> has_prefix path (t @ ''/'')) targets"

fun unstage_targets :: "string list \<Rightarrow> string list result" where
  "unstage_targets [] = Inr []"
| "unstage_targets (p # ps) =
     (let rel = path_clean p in
      case (if rel \<noteq> ''.'' then validateRelPath rel else None) of
        Some e \<Rightarrow> Inl (Wrap ''unstage'' e)
      | None \<Rightarrow> bind_result (unstage_targets ps) (\<lambda>ts. Inr (rel # ts)))"

text \<open>The paths removed, and the error, as Go returns them.\<close>

definition Unstage :: "wt_env \<Rightarrow> string list \<Rightarrow> wt_state \<Rightarrow> (string list \<times> err option) \<times> wt_state" where
  "Unstage E rels st =
     (case unstage_targets rels of
        Inl e \<Rightarrow> (([], Some e), st)
      | Inr targets \<Rightarrow>
          (let removed = filter (\<lambda>p. matchesAnyTarget p targets) (wk_staged st);
               kept = filter (\<lambda>p. \<not> matchesAnyTarget p targets) (wk_staged st) in
           if removed = [] then (([], None), st)
           else if kept = [] then (case clearStaging E st of (r, st1) \<Rightarrow> ((removed, r), st1))
           else ((removed, None), st\<lparr>wk_staged := sort kept\<rparr>)))"

definition isDirectoryTarget :: "git_lib_funs \<Rightarrow> wt_env \<Rightarrow> wt_state \<Rightarrow> string \<Rightarrow> bool result" where
  "isDirectoryTarget F E st rel =
     (case os_Lstat (wk_disk st) (work_path E rel) of
        Inr nd \<Rightarrow> Inr (nd = Directory)
      | Inl e \<Rightarrow>
          if \<not> IsNotExist e then Inl e
          else bind_result (headFiles F st) (\<lambda>head. Inr (map_of head rel = None \<and> hasPathUnder head rel)))"

fun assertNotOversized :: "wt_env \<Rightarrow> int \<Rightarrow> disk \<Rightarrow> string list \<Rightarrow> err option" where
  "assertNotOversized E limit D [] = None"
| "assertNotOversized E limit D (rel # rels) =
     (if limit \<le> 0 then None
      else (case os_Lstat D (work_path E rel) of
        Inr (Regular _ data) \<Rightarrow> if limit < int (length data) then Some (Wrap rel (Sentinel ErrFileTooLarge)) else assertNotOversized E limit D rels
      | _ \<Rightarrow> assertNotOversized E limit D rels))"

definition addChanged :: "git_lib_funs \<Rightarrow> wt_env \<Rightarrow> int \<Rightarrow> string \<Rightarrow> wt_state \<Rightarrow> err option \<times> wt_state" where
  "addChanged F E limit pre st =
     (case wt_Status F E st of
        Inl e \<Rightarrow> (Some (Wrap ''add'' e), st)
      | Inr files \<Rightarrow>
          (let paths = filter (\<lambda>p. \<not> (has_prefix p ''.mgit/'' \<or> p = ''.mgit'' \<or> p \<in> set (we_generated E))
                 \<and> (pre = [] \<or> p = pre \<or> has_prefix p (pre @ ''/''))) (map fs_Path files) in
           if paths = [] then (None, st)
           else (case assertNotOversized E limit (wk_disk st) paths of
             Some e \<Rightarrow> (Some e, st)
           | None \<Rightarrow> (None, stagePaths paths st))))"

definition addAll :: "git_lib_funs \<Rightarrow> wt_env \<Rightarrow> int \<Rightarrow> wt_state \<Rightarrow> err option \<times> wt_state" where
  "addAll F E limit st = addChanged F E limit [] st"

section \<open>The squash commit\<close>

record SquashCommitParams =
  sp_TaskCommits :: "string list"
  sp_Message :: string
  sp_Branch :: string

record SquashTreePreview =
  st_BaseCommit :: string
  st_BaseTree :: string
  st_Tree :: string

definition EmptyNet :: "SquashTreePreview \<Rightarrow> bool" where
  "EmptyNet p \<longleftrightarrow> st_Tree p \<noteq> [] \<and> st_Tree p = st_BaseTree p"

definition BuildSquashTree :: "git_lib_funs \<Rightarrow> string \<Rightarrow> string list \<Rightarrow> wt_state \<Rightarrow> SquashTreePreview result \<times> wt_state" where
  "BuildSquashTree F emptyTree taskCommits st =
     (case squashTree F emptyTree (wk_repo st) taskCommits of
        (Inl e, R) \<Rightarrow> (Inl e, st\<lparr>wk_repo := R\<rparr>)
      | (Inr (base, t, baseTree), R) \<Rightarrow>
          (Inr \<lparr>st_BaseCommit = (case base of None \<Rightarrow> [] | Some b \<Rightarrow> b), st_BaseTree = baseTree, st_Tree = t\<rparr>, st\<lparr>wk_repo := R\<rparr>))"

definition CreateSquashCommit :: "git_lib_funs \<Rightarrow> wt_env \<Rightarrow> string \<Rightarrow> SquashCommitParams \<Rightarrow> wt_state \<Rightarrow> string result \<times> wt_state" where
  "CreateSquashCommit F E emptyTree p st =
     (if sp_Branch p = [] then (Inl (Errorf ''squash: target branch must not be empty''), st)
      else (case squashTree F emptyTree (wk_repo st) (sp_TaskCommits p) of
        (Inl e, R) \<Rightarrow> (Inl e, st\<lparr>wk_repo := R\<rparr>)
      | (Inr (base, t, _), R) \<Rightarrow>
          (case writeCommit E \<lparr>co_Tree = t, co_Parents = (case base of None \<Rightarrow> [] | Some b \<Rightarrow> [b])\<rparr> (sp_Message p) (st\<lparr>wk_repo := R\<rparr>) of
             (Inl e, st1) \<Rightarrow> (Inl (Wrap ''squash: create commit'' e), st1)
           | (Inr h, st1) \<Rightarrow>
               (Inr h, st1\<lparr>wk_repo := (wk_repo st1)\<lparr>gr_refs := AList.update (sp_Branch p) h (gr_refs (wk_repo st1))\<rparr>\<rparr>))))"

text \<open>A squash moves its own branch only and keeps every commit there was, unless the new one has its hash.\<close>

lemma squash_commit_frame:
  assumes "CreateSquashCommit F E emptyTree p st = (Inr h, st')"
  shows "map_of (gr_refs (wk_repo st')) (sp_Branch p) = Some h"
    "b \<noteq> sp_Branch p \<Longrightarrow> map_of (gr_refs (wk_repo st')) b = map_of (gr_refs (wk_repo st)) b"
    "k \<noteq> h \<Longrightarrow> map_of (gr_commits (wk_repo st')) k = map_of (gr_commits (wk_repo st)) k"
    "wk_head st' = wk_head st" "wk_staged st' = wk_staged st" "wk_disk st' = wk_disk st"
proof -
  have R: "gr_refs R = gr_refs (wk_repo st)" "gr_commits R = gr_commits (wk_repo st)"
    if "squashTree F emptyTree (wk_repo st) (sp_TaskCommits p) = (x, R)" for x R
    using that by (auto simp: squashTree_def split: sum.splits prod.splits)
  obtain base t bt R where s: "squashTree F emptyTree (wk_repo st) (sp_TaskCommits p) = (Inr (base, t, bt), R)"
    "gr_refs (wk_repo st') = AList.update (sp_Branch p) h (gr_refs R)"
    using assms by (auto simp: CreateSquashCommit_def writeCommit_def split: if_splits sum.splits prod.splits)
  note r = R[OF s(1)]
  show "map_of (gr_refs (wk_repo st')) (sp_Branch p) = Some h" "b \<noteq> sp_Branch p \<Longrightarrow> map_of (gr_refs (wk_repo st')) b = map_of (gr_refs (wk_repo st)) b"
    using s(2) r by (simp_all add: update_conv')
  have "gr_commits (wk_repo st') = AList.update h \<lparr>co_Tree = t, co_Parents = (case base of None \<Rightarrow> [] | Some b \<Rightarrow> [b])\<rparr> (gr_commits (wk_repo st))"
    "wk_head st' = wk_head st \<and> wk_staged st' = wk_staged st \<and> wk_disk st' = wk_disk st"
    using assms s(1) r by (auto simp: CreateSquashCommit_def writeCommit_def split: if_splits sum.splits prod.splits)
  then show "k \<noteq> h \<Longrightarrow> map_of (gr_commits (wk_repo st')) k = map_of (gr_commits (wk_repo st)) k"
    "wk_head st' = wk_head st" "wk_staged st' = wk_staged st" "wk_disk st' = wk_disk st" by (simp_all add: update_conv')
qed

section \<open>What a staged path stands for\<close>

definition disk_entry :: "wt_env \<Rightarrow> disk \<Rightarrow> string \<Rightarrow> blobEntry option result" where
  "disk_entry E D rel =
     (case isDirOnDisk E D rel of
        Inl e \<Rightarrow> Inl e
      | Inr True \<Rightarrow> Inr None
      | Inr False \<Rightarrow>
          (case workingFileContent E D rel of
             Inl e \<Rightarrow> if e = Wrap ''stat working file'' ENOENT then Inr None else Inl e
           | Inr (content, mode) \<Rightarrow> Inr (Some \<lparr>be_hash = we_sha E (committed_content (we_generated E) rel mode content), be_mode = mode\<rparr>)))"

definition displaces :: "string \<Rightarrow> string \<Rightarrow> bool" where
  "displaces rel p \<longleftrightarrow> p \<in> set (dir_chain (path_dir rel)) \<or> has_prefix p (rel @ ''/'')"

definition stage_entry :: "string \<Rightarrow> blobEntry option \<Rightarrow> file_map \<Rightarrow> file_map" where
  "stage_entry rel oe files = (case oe of None \<Rightarrow> AList.delete rel files | Some e \<Rightarrow> AList.update rel e (replaceInTree files rel))"

lemma apply_staged_step:
  "apply_staged E D (rel # rels) files = bind_result (disk_entry E D rel) (\<lambda>oe. apply_staged E D rels (stage_entry rel oe files))"
  by (auto simp: disk_entry_def stage_entry_def split: sum.splits bool.splits if_splits)

lemma map_of_filter_keys: "map_of (filter (\<lambda>(k, _). P k) xs) k = (if P k then map_of xs k else None)"
  by (induction xs) auto

lemma stage_entry_lookup:
  "map_of (stage_entry rel oe files) p = (if p = rel then oe else if oe \<noteq> None \<and> displaces rel p then None else map_of files p)"
proof -
  have "map_of (replaceInTree files rel) p = (if displaces rel p then None else map_of files p)"
    using map_of_filter_keys[of "\<lambda>p. \<not> displaces rel p" files p] by (simp add: replaceInTree_def displaces_def)
  then show ?thesis by (auto simp: stage_entry_def update_conv' delete_conv' split: option.splits)
qed

lemma stage_entry_distinct: "distinct (map fst files) \<Longrightarrow> distinct (map fst (stage_entry rel oe files))"
proof -
  assume d: "distinct (map fst files)"
  then have "distinct (map fst (replaceInTree files rel))" unfolding replaceInTree_def by (rule distinct_map_filter)
  then show ?thesis using d by (auto simp: stage_entry_def distinct_update distinct_delete split: option.splits)
qed

text \<open>The file set of a commit: the staged paths as they are on disk, the rest of HEAD where no staged file takes its place.\<close>

definition staged_view :: "wt_env \<Rightarrow> disk \<Rightarrow> string list \<Rightarrow> file_map \<Rightarrow> string \<Rightarrow> blobEntry option" where
  "staged_view E D rels head p =
     (let at = (\<lambda>rel. case disk_entry E D rel of Inr oe \<Rightarrow> oe | Inl _ \<Rightarrow> None) in
      if p \<in> set rels then at p
      else if list_ex (\<lambda>rel. at rel \<noteq> None \<and> displaces rel p) rels then None else map_of head p)"

lemma apply_staged_lookup:
  "apply_staged E D rels files = Inr out \<Longrightarrow> \<forall>a \<in> set rels. \<forall>b \<in> set rels. \<not> displaces a b \<Longrightarrow>
     map_of out p = staged_view E D rels files p"
proof (induction rels arbitrary: files)
  case (Cons rel rels)
  obtain oe where e: "disk_entry E D rel = Inr oe" "apply_staged E D rels (stage_entry rel oe files) = Inr out"
    using Cons.prems(1) unfolding apply_staged_step by (auto simp: bind_result_def split: sum.splits)
  have "map_of out p = staged_view E D rels (stage_entry rel oe files) p" using Cons.IH[OF e(2)] Cons.prems(2) by simp
  moreover have "\<not> (\<exists>a \<in> set rels. displaces a rel)" "p \<in> set rels \<Longrightarrow> \<not> displaces rel p" using Cons.prems(2) by auto
  ultimately show ?case using e(1) by (auto simp: staged_view_def stage_entry_lookup list_ex_iff Let_def)
qed (simp add: staged_view_def)

lemma disk_entry_blob: "disk_entry E D rel = Inr (Some e) \<Longrightarrow> be_mode e \<noteq> mode_Dir"
  by (auto simp: disk_entry_def workingFileContent_def split: sum.splits bool.splits if_splits option.splits node.splits)

lemma stage_entry_blobs: "blobs_only files \<Longrightarrow> (\<And>e. oe = Some e \<Longrightarrow> be_mode e \<noteq> mode_Dir) \<Longrightarrow> blobs_only (stage_entry rel oe files)"
  unfolding blobs_only_def stage_entry_lookup by (auto split: if_splits)

lemma apply_staged_facts:
  "apply_staged E D rels files = Inr out \<Longrightarrow> distinct (map fst files) \<Longrightarrow> blobs_only files \<Longrightarrow> distinct (map fst out) \<and> blobs_only out"
proof (induction rels arbitrary: files)
  case (Cons rel rels)
  obtain oe where e: "disk_entry E D rel = Inr oe" "apply_staged E D rels (stage_entry rel oe files) = Inr out"
    using Cons.prems(1) unfolding apply_staged_step by (auto simp: bind_result_def split: sum.splits)
  show ?case using Cons.IH[OF e(2)] stage_entry_distinct[OF Cons.prems(2)] stage_entry_blobs[OF Cons.prems(3)] disk_entry_blob e(1) by metis
qed simp

section \<open>Clean relative names\<close>

lemma path_dir_rel:
  assumes "names_ok (ws @ [w])"
  shows "path_dir (rel_name (ws @ [w])) = (if ws = [] then ''.'' else rel_name ws)"
proof (cases "ws = []")
  case True
  have d: "dropWhile (\<lambda>c. c \<noteq> CHR ''/'') (rev w) = []" using assms True by (auto simp: names_ok_def dropWhile_eq_Nil_conv)
  show ?thesis using True unfolding path_dir_def by (simp add: d path_clean_def path_is_abs_def)
next
  case False
  have ok: "names_ok ws" "CHR ''/'' \<notin> set w" using assms by (auto simp: names_ok_def)
  have ne: "rel_name ws \<noteq> []" using ok(1) False by (auto simp: join_with_eq_Nil plain_comp_def)
  have "dropWhile (\<lambda>c. c \<noteq> CHR ''/'') (rev (rel_name ws @ CHR ''/'' # w)) = rev (rel_name ws @ ''/'')"
    using ok(2) by (simp add: dropWhile_append)
  then have "path_dir (rel_name (ws @ [w])) = path_clean (rel_name ws @ ''/'')"
    unfolding path_dir_def join_with_snoc[OF False] by simp
  then show ?thesis using False by (simp add: path_clean_slash[OF ne] rel_name_clean[OF ok(1) False])
qed

lemma rel_name_dot: "names_ok ws \<Longrightarrow> ws \<noteq> [] \<Longrightarrow> rel_name ws \<noteq> ''.'' \<and> rel_name ws \<noteq> ''/''"
proof -
  assume ok: "names_ok ws" "ws \<noteq> []"
  have "rel_name ws \<noteq> ''.''"
  proof
    assume d: "rel_name ws = ''.''"
    have "ws = [''.'']" using split_rel_name[OF ok] unfolding d by simp
    then show False using ok by (simp add: plain_comp_def)
  qed
  moreover have "rel_name ws \<noteq> ''/''" using rel_name_not_abs[OF ok] by (auto simp: path_is_abs_def)
  ultimately show ?thesis by blast
qed

lemma dir_chain_rel:
  "names_ok ws \<Longrightarrow> ws \<noteq> [] \<Longrightarrow> set (dir_chain (rel_name ws)) = (\<lambda>k. rel_name (take k ws)) ` {1 .. length ws}"
proof (induction ws rule: rev_induct)
  case (snoc w ws)
  have ok: "names_ok ws" using snoc.prems(1) by simp
  have split: "{1 .. length (ws @ [w])} = insert (Suc (length ws)) {1 .. length ws}" by auto
  have "dir_chain (rel_name (ws @ [w])) = rel_name (ws @ [w]) # dir_chain (path_dir (rel_name (ws @ [w])))"
    using rel_name_dot[OF snoc.prems] by (subst dir_chain.simps) simp
  moreover have "set (dir_chain (path_dir (rel_name (ws @ [w])))) = (\<lambda>k. rel_name (take k ws)) ` {1 .. length ws}"
  proof (cases "ws = []")
    case True
    then show ?thesis unfolding path_dir_rel[OF snoc.prems(1)] by (simp add: dir_chain.simps)
  next
    case False
    then show ?thesis unfolding path_dir_rel[OF snoc.prems(1)] using snoc.IH[OF ok] by simp
  qed
  moreover have "(\<lambda>k. rel_name (take k (ws @ [w]))) ` {1 .. length ws} = (\<lambda>k. rel_name (take k ws)) ` {1 .. length ws}" by (intro image_cong) auto
  ultimately show ?case unfolding split by simp
qed simp

lemma dir_chain_above:
  assumes "rel_ok p" "rel_ok (p @ CHR ''/'' # q)"
  shows "p \<in> set (dir_chain (path_dir (p @ CHR ''/'' # q)))"
proof -
  let ?ps = "split_on CHR ''/'' p" and ?qs = "split_on CHR ''/'' q"
  have full: "split_on CHR ''/'' (p @ CHR ''/'' # q) = (?ps @ butlast ?qs) @ [last ?qs]" by (simp add: split_on_append_sep)
  have ok: "names_ok ((?ps @ butlast ?qs) @ [last ?qs])" using assms(2) unfolding rel_ok_def full .
  have "p @ CHR ''/'' # q = rel_name ((?ps @ butlast ?qs) @ [last ?qs])" unfolding full[symmetric] by simp
  then have d: "path_dir (p @ CHR ''/'' # q) = rel_name (?ps @ butlast ?qs)" using path_dir_rel[OF ok] by simp
  have "names_ok (?ps @ butlast ?qs)" using ok unfolding names_ok_simps by blast
  then have "set (dir_chain (path_dir (p @ CHR ''/'' # q))) = (\<lambda>k. rel_name (take k (?ps @ butlast ?qs))) ` {1 .. length (?ps @ butlast ?qs)}"
    unfolding d by (rule dir_chain_rel) simp
  moreover have "rel_name (take (length ?ps) (?ps @ butlast ?qs)) = p" by simp
  moreover have "length ?ps \<in> {1 .. length (?ps @ butlast ?qs)}" by (cases ?ps) auto
  ultimately show ?thesis by (metis (no_types, lifting) image_eqI)
qed

lemma no_clash_prefix_free:
  assumes "fileDirClash files = None" "\<forall>p \<in> fst ` set files. rel_ok p"
  shows "prefix_free files"
  unfolding prefix_free_def
proof (intro allI impI, rule ccontr)
  fix p q assume p: "map_of files p \<noteq> None" and q: "map_of files (p @ CHR ''/'' # q) \<noteq> None"
  then obtain e where m: "(p @ CHR ''/'' # q, e) \<in> set files" by (auto dest: map_of_SomeD)
  have "rel_ok p" "rel_ok (p @ CHR ''/'' # q)" using p q assms(2) by (metis map_of_eq_None_iff)+
  then have "p \<in> set (dir_chain (path_dir (p @ CHR ''/'' # q)))" by (rule dir_chain_above)
  then have "p \<in> set (concat (map (\<lambda>(p, _). dir_chain (path_dir p)) files))" using m by force
  then show False using assms(1) p unfolding fileDirClash_def find_None_iff by blast
qed

section \<open>What a commit records\<close>

lemma createCommit_runs:
  assumes "createCommit F E m st = (Inr h, st')" "headFiles F st = Inr head"
  shows "\<exists>parent files t. map_of (gr_refs (wk_repo st)) (wk_head st) = Some parent
    \<and> apply_staged E (wk_disk st) (wk_staged st) head = Inr files \<and> fileDirClash files = None
    \<and> writeNestedTree (gf_tree F) files (gr_trees (wk_repo st)) = (Inr t, gr_trees (wk_repo st'))
    \<and> map_of (gr_commits (wk_repo st')) h = Some \<lparr>co_Tree = t, co_Parents = [parent]\<rparr>
    \<and> map_of (gr_refs (wk_repo st')) (wk_head st) = Some h \<and> wk_staged st' = [] \<and> wk_disk st' = wk_disk st \<and> wk_head st' = wk_head st"
proof -
  obtain parent where p: "map_of (gr_refs (wk_repo st)) (wk_head st) = Some parent"
    using assms(1) by (auto simp: createCommit_def split: option.splits)
  obtain t st1 where b: "buildTreeFromStaging F E st = (Inr t, st1)"
    using assms(1) p by (auto simp: createCommit_def split: prod.splits sum.splits)
  obtain files ts where f: "apply_staged E (wk_disk st) (wk_staged st) head = Inr files" "fileDirClash files = None"
    "writeNestedTree (gf_tree F) files (gr_trees (wk_repo st)) = (Inr t, ts)" "st1 = st\<lparr>wk_repo := (wk_repo st)\<lparr>gr_trees := ts\<rparr>\<rparr>"
    using b assms(2) by (auto simp: buildTreeFromStaging_def split: option.splits sum.splits prod.splits)
  have after: "gr_trees (wk_repo st') = ts" "gr_commits (wk_repo st') = AList.update h \<lparr>co_Tree = t, co_Parents = [parent]\<rparr> (gr_commits (wk_repo st))"
    "gr_refs (wk_repo st') = AList.update (wk_head st) h (gr_refs (wk_repo st))" "wk_staged st' = [] \<and> wk_disk st' = wk_disk st \<and> wk_head st' = wk_head st"
    using assms(1) unfolding createCommit_def p b f(4)
    by (auto simp: writeCommit_def advanceBranchRefCAS_def split: option.splits sum.splits prod.splits if_splits)
  then show ?thesis using p f(1-3) by (simp add: update_conv')
qed

lemma staged_files_ok:
  assumes "walker_ok F (map_of (gr_trees (wk_repo st)))" "headFiles F st = Inr head"
    "apply_staged E (wk_disk st) (wk_staged st) head = Inr files"
  shows "distinct (map fst files)" "blobs_only files"
proof -
  obtain t where "commitFiles F (wk_repo st) t = Inr head" using assms(2) by (auto simp: headFiles_def split: option.splits)
  from commitFiles_facts[OF assms(1) this] show "distinct (map fst files)" "blobs_only files" using apply_staged_facts[OF assms(3)] by blast+
qed


lemma apply_staged_keys: "apply_staged E D rels files = Inr out \<Longrightarrow> fst ` set out \<subseteq> fst ` set files \<union> set rels"
proof (induction rels arbitrary: files)
  case (Cons rel rels)
  obtain oe where e: "apply_staged E D rels (stage_entry rel oe files) = Inr out"
    using Cons.prems unfolding apply_staged_step by (auto simp: bind_result_def split: sum.splits)
  have "dom (map_of (stage_entry rel oe files)) \<subseteq> insert rel (dom (map_of files))"
    by (auto simp: stage_entry_lookup split: if_splits)
  then have "fst ` set (stage_entry rel oe files) \<subseteq> insert rel (fst ` set files)" by (simp add: dom_map_of_conv_image_fst)
  then show ?case using Cons.IH[OF e] unfolding list.set by blast
qed simp

text \<open>
  C29. Every tree a commit writes is one git accepts: at every level the names are distinct and the
  entries in canonical order, so no path is recorded as a file and as a directory. It needs HEAD's
  and the staged paths to be clean relative names.
\<close>

theorem committed_trees_are_proper:
  assumes lib: "faultless (gf_tree F)" "store_ok (gf_tree F) (gr_trees (wk_repo st))" "walker_ok F (map_of (gr_trees (wk_repo st)))"
    and run: "createCommit F E m st = (Inr h, st')" "headFiles F st = Inr head"
    and names: "\<forall>p \<in> fst ` set head \<union> set (wk_staged st). rel_ok p"
  shows "\<exists>c. map_of (gr_commits (wk_repo st')) h = Some c \<and> proper_tree (map_of (gr_trees (wk_repo st'))) (co_Tree c)"
proof -
  obtain files t parent where c: "apply_staged E (wk_disk st) (wk_staged st) head = Inr files" "fileDirClash files = None"
    "writeNestedTree (gf_tree F) files (gr_trees (wk_repo st)) = (Inr t, gr_trees (wk_repo st'))"
    "map_of (gr_commits (wk_repo st')) h = Some \<lparr>co_Tree = t, co_Parents = [parent]\<rparr>"
    using createCommit_runs[OF run] by auto
  have "prefix_free files" using no_clash_prefix_free[OF c(2)] apply_staged_keys[OF c(1)] names by blast
  then have "proper_tree (map_of (gr_trees (wk_repo st'))) t"
    using nested_tree_proper(1)[OF lib(1,2) staged_files_ok[OF lib(3) run(2) c(1)] _ c(3)] by simp
  then show ?thesis using c(4) by simp
qed

section \<open>Staging the untracked file\<close>

definition demo_add :: wt_state where
  "demo_add = stagePaths [''d/x''] (demo_wt [49])"

lemma demo_add_parts: "wk_staged demo_add = [''d/x'']" "wk_repo demo_add = wk_repo (demo_wt [49])" "wk_head demo_add = ''main''" "wk_disk demo_add = wk_disk (demo_wt [49])"
  by (simp_all add: demo_add_def stagePaths_def demo_wt_def)

lemma demo_add_lib: "store_ok (gf_tree demo_ff) (gr_trees (wk_repo demo_add))" "headFiles demo_ff demo_add = Inr [(''a'', blob ''1'')]"
    "map_of (gr_refs (wk_repo demo_add)) (wk_head demo_add) = Some ''b''"
proof -
  have "headFiles demo_ff demo_add = headFiles demo_ff (demo_wt [49])" unfolding headFiles_def demo_add_parts(2,3) demo_on_main(2) ..
  then show "headFiles demo_ff demo_add = Inr [(''a'', blob ''1'')]" using demo_ff_files by simp
qed (unfold demo_add_parts(2,3), rule demo_ff_ok, rule demo_on_main)

lemma demo_chains: "dir_chain (path_dir ''a'') = []" "dir_chain (path_dir ''d/x'') = [''d'']"
proof -
  have "path_dir ''a'' = ''.''" "path_dir ''d/x'' = ''d''" "path_dir ''d'' = ''.''" by code_simp+
  then show "dir_chain (path_dir ''a'') = []" "dir_chain (path_dir ''d/x'') = [''d'']" by (simp_all add: dir_chain.simps)
qed

lemma demo_entry: "disk_entry demo_wt_env (wk_disk demo_add) ''d/x'' = Inr (Some (blob [char_of (9 :: nat)]))"
proof -
  have v: "validateRelPath ''d/x'' = None" by code_simp
  have m: "and (0x180 :: 32 word) 0x40 = 0" by simp
  show ?thesis by (simp add: disk_entry_def isDirOnDisk_def workingFileContent_def v demo_add_parts(4) demo_work demo_lstat m)
    (simp add: demo_wt_env_def committed_content_def blob_def)
qed

lemma demo_commit_runs: "\<exists>st'. createCommit demo_ff demo_wt_env ''m'' demo_add = (Inr ''new'', st')"
proof -
  let ?fs = "[(''a'', blob ''1''), (''d/x'', blob [char_of (9 :: nat)])]"
  have chk: "checkStagedEntries demo_wt_env (wk_disk demo_add) [(''a'', blob ''1'')] (wk_staged demo_add) = None"
    by (simp add: checkStagedEntries_def checkStagedEntry_def isDirOnDisk_def demo_add_parts demo_work demo_lstat List.map_filter_def)
  have ap: "apply_staged demo_wt_env (wk_disk demo_add) (wk_staged demo_add) [(''a'', blob ''1'')] = Inr ?fs"
    unfolding demo_add_parts(1) apply_staged_step demo_entry by (simp add: stage_entry_def replaceInTree_def demo_chains has_prefix_def)
  have clash: "fileDirClash ?fs = None" by (simp add: fileDirClash_def demo_chains)
  have b: "blobs_only ?fs" by (auto simp: blobs_only_def blob_def split: if_splits)
  obtain t ts where w: "writeNestedTree (gf_tree demo_ff) ?fs (gr_trees (wk_repo demo_add)) = (Inr t, ts)"
    using nested_tree_meaning(1)[OF demo_ff_ok(1,2) _ b, of "[49]"] unfolding demo_add_parts(2) by auto
  have built: "buildTreeFromStaging demo_ff demo_wt_env demo_add = (Inr t, demo_add\<lparr>wk_repo := (wk_repo demo_add)\<lparr>gr_trees := ts\<rparr>\<rparr>)"
    by (simp add: buildTreeFromStaging_def demo_add_lib(2) chk ap clash w)
  have env: "we_commit demo_wt_env c m = Inr ''new''" "we_clear demo_wt_env = None" for c m by (simp_all add: demo_wt_env_def)
  show ?thesis by (simp add: createCommit_def demo_add_lib(3) built writeCommit_def env advanceBranchRefCAS_def)
qed


theorem committed_trees_are_proper_witness:
  "\<exists>st' c. createCommit demo_ff demo_wt_env ''m'' demo_add = (Inr ''new'', st') \<and> map_of (gr_commits (wk_repo st')) ''new'' = Some c
     \<and> proper_tree (map_of (gr_trees (wk_repo st'))) (co_Tree c)"
proof -
  obtain st' where run: "createCommit demo_ff demo_wt_env ''m'' demo_add = (Inr ''new'', st')" using demo_commit_runs by blast
  have "\<forall>p \<in> fst ` set [(''a'', blob ''1'')] \<union> set (wk_staged demo_add). rel_ok p" by (simp add: demo_add_parts rel_ok_def plain_comp_def)
  from committed_trees_are_proper[OF demo_ff_ok(1) demo_add_lib(1) demo_ff_ok(3) run demo_add_lib(2) this] show ?thesis using run by blast
qed

end
