(* ===== verification/Spec2Isabelle.thy ===== *)
theory Spec2Isabelle
  imports Cadence Index_Exclusive Land_Progress Capability Ceiling Sandbox_Sync Git_Staging
begin

text \<open>
  A verification development for mgit, the version control layer for coding agents: tasks own
  micro-commits in a store of their own (\<open>.mgit\<close>), agents run in a microVM that sees a copy of the
  worktree and a private store, and what they commit is brought back by a land that the host
  verifies. The sources are under \<open>src/\<close>; file names below are relative to it.

  \<^bold>\<open>How the parts interact.\<close> The daemon launches a sandbox through the manager of microVMs, which
  admits it under the host's ceiling, provisions a private store, builds and checks the mount plan,
  boots the VM and waits for its guest. Commands go to the guest after the host's changes were
  synced into its tree and the guest confirmed that it reads them. The guest's connections pass
  the egress stack, whose denials become prompts and whose grants are audited. A land pulls the
  guest's objects over a framed stream, verifies every new commit against its bytes, its tree, its
  task and its attestation, imports the objects, appends ledger rows, and projects the result into
  the task's worktree. On the host, commits, checkouts, squashes and merges work on the same
  store; a merge asks the ledger whether the source's history was delivered.

  \<^bold>\<open>Theories and sources.\<close>

  \<^item> The language and its library: \<open>Mgit_Prelude\<close> (errors, results, 64-bit integers, the generic
    interfaces \<open>invariant\<close>, \<open>simulation\<close>, \<open>append_only_log\<close>, \<open>prefix_codec\<close>), \<open>Go_Regexp\<close>, \<open>Go_Strings\<close>,
    \<open>Go_Utf8\<close>, \<open>Go_Filepath\<close>, \<open>Go_Netip\<close>, \<open>Go_Netip_Print\<close>, and \<open>Host_Disk\<close> for the file calls.
  \<^item> Values (\<open>internal/model\<close>): \<open>Task_Id\<close>, \<open>Core_Model\<close>, \<open>Cadence\<close>, \<open>Sandbox_Model\<close>, \<open>Sandbox_Records\<close>.
  \<^item> The index store (\<open>internal/store/index\<close>): \<open>Audit_Text\<close>, \<open>Index_Store\<close>, \<open>Index_Commits\<close> and
    \<open>Index_Registry\<close> define the tables and every call that writes one, with transactions and their
    faults; \<open>Index_History\<close>, \<open>Index_Ledger\<close> and \<open>Index_Exclusive\<close> prove what holds after any sequence of
    calls: audit rows stay, a land's rows become content only by delivery, keys stay unique.
  \<^item> Egress (\<open>internal/sandboxd/egress\<close>, \<open>internal/service/capability.go\<close>): \<open>Egress_Allowlist\<close> (the live
    policy refines a reference policy), \<open>Egress_Authorizer\<close> (what admits a flow; no denied address
    is pinned or answered; one audit row per flow), \<open>Egress_Runner\<close> (no socket leaks; what a policy
    change does to running flows), \<open>Capability\<close> (every grant in force is in the audit log).
  \<^item> The sandbox (\<open>internal/sandboxd\<close>): \<open>Quarantine\<close> (the mount plan confines the guest), \<open>Store_Files\<close>
    and \<open>Provision\<close> (the private store holds exactly what the base commit reaches), \<open>Microvm\<close> and
    \<open>Guest_Exec\<close> (launch, stop, exec, readiness), \<open>Ceiling\<close> (launches in flight never exceed it).
  \<^item> The sync of the worktree (\<open>internal/sandboxd/worktreesync\<close>, \<open>backend/microvm/sync.go\<close>, \<open>settle.go\<close>):
    \<open>Worktree_Plan\<close> (the loops compute the documented collision policy), \<open>Worktree_Sync\<close> (guest work
    survives every failure), \<open>Worktree_Delivery\<close> (an unhindered sync delivers), \<open>Worktree_Faults\<close>
    (where it falls short), \<open>Guest_Settle\<close> (the probe reads what the guest reads), \<open>Sandbox_Sync\<close>
    (a command runs against the host's files).
  \<^item> The land (\<open>internal/landwire\<close>, \<open>internal/sandboxd/land\<close>, \<open>attest\<close>, \<open>hostkey\<close>,
    \<open>internal/service/land_*.go\<close>, \<open>cmd/mgit-sandboxd/land_*.go\<close>): \<open>Land_Wire\<close> (frames), \<open>Attest\<close> (signed
    payloads, key rotation), \<open>Land_Objects\<close>, \<open>Land_Chain\<close> (ordering new commits terminates),
    \<open>Land_Verify\<close> (diffs describe the tree), \<open>Land_Flow\<close>, \<open>Land_Projection\<close>, \<open>Land_Safety\<close> and
    \<open>Land_Progress\<close> (every row a land adds is justified; a single new commit lands).
  \<^item> The store (\<open>internal/store/git\<close>, \<open>internal/service/merge.go\<close>, \<open>deliverable_history.go\<close>,
    \<open>internal/agentadapter/markers.go\<close>): \<open>Git_Tree\<close> (nested trees round-trip), \<open>Git_Merge\<close> (merges are
    three-way, a squash is the task's own change), \<open>Git_Worktree\<close> (status, checkout, clean),
    \<open>Generated_Block\<close> (mgit's block is written and cut out without a trace), \<open>Merge_Service\<close> (commits
    of the staging area, fast-forward, merge commits, the gate on undelivered history),
    \<open>Git_Staging\<close> (the staging area; a commit records what is staged, in a tree git accepts).

  \<^bold>\<open>Correspondence.\<close> A struct is a record with the fields the code uses, an enumeration a datatype,
  a function a definition of the same name where HOL allows it, otherwise with the receiver or the
  component in front (\<open>mgr_Launch\<close>, \<open>wt_Checkout\<close>, \<open>plan_Forced\<close>). A loop body that has a name of its own
  is a definition next to the loop. State is passed explicitly; what a call changes before it fails
  stays changed. Errors are values of the type \<open>err\<close>; \<open>errors.Is\<close> is \<open>errors_is\<close>, and the prose of a
  message is kept as far as the code reads it. A Go map is an association list with distinct keys in
  the order its iteration happens to take, or a map with the order as an argument; the theorems
  hold for every order. Locks are represented by the grain of the steps: a step relation has one
  rule per call, or per part of a call where another goroutine may run in between (launches in
  flight, connections being dialed).

  \<^bold>\<open>Integers, bounds and fuel.\<close> Go's \<open>int\<close> and \<open>time.Duration\<close> are integers with the wrap at 64 bits written
  out (\<open>wrap64\<close>) where a sum can reach it; file modes and addresses are words. The ceiling's theorems
  bound its parameters by \<open>2 ^ 61\<close>, far beyond any host's memory in megabytes, so that its wrapping
  sums are exact. Loops that the code leaves unbounded are partial functions (the chain walk of
  \<open>Land_Chain\<close>, the history walk of \<open>Merge_Service\<close>), and their theorems prove that they return; the
  seeding walk of \<open>Provision\<close> has a measure, the objects not seen yet. No definition uses fuel. Loops with a deadline recurse on the time left; the wait for the guest's
  view recurses on the number of probes, which the code computes before the loop. The link limit
  of forty in \<open>Host_Disk\<close> is the kernel's.

  \<^bold>\<open>Parameters.\<close> Code outside the repository is an argument: SHA-256, SHA-1 and Ed25519, JSON, ULIDs,
  go-git's object encoding, tree walker, diff, ancestry and ignore matcher, the SQL engine's
  faults, DNS, sockets, the hypervisor, the guest's exec channel and its tools. What a theorem needs
  of one is a named hypothesis of documented behaviour (\<open>faultless\<close>, \<open>walker_ok\<close>, \<open>diff_ok\<close>, \<open>answers\<close>), and
  a witness applies the theorem with a concrete function in its place.

  \<^bold>\<open>Where the code falls short.\<close> Some theorems state behaviour that contradicts a comment: a land of
  two new commits is refused, a squash merge integrates nothing, a merge may record a file and a
  directory under one name, a planted link redirects a write of the sync, a retry after an
  unsettled or interrupted delivery passes or is refused wrongly, a stopped sandbox cannot boot.

  \<^bold>\<open>Not modelled.\<close> The command line (\<open>cmd/mgit\<close>) and the MCP server (\<open>internal/mcp\<close>) format text and
  requests over the services; the daemon's dispatch (\<open>internal/sandboxd/daemon.go\<close>, \<open>dispatch.go\<close>) is
  JSON over sockets; the hypervisor drivers and the guest base images are process control and file
  transfer. Opening and migrating the database, the DNS wire format, the CONNECT framing of the
  proxy, log lines and the prose of generated documents are left out. Of the store, branch
  management, rollback, cherry-pick, gc, import and export, adding a single path, linked worktrees
  and the ignore rules are left out. File permissions on directories, disk exhaustion and crashes in
  the middle of a system call are not represented beyond the failures named as arguments.
\<close>

end
